(* ===== verification/Prelude.thy ===== *)
theory Prelude
  imports Main "HOL-Library.Word"
begin

section \<open>Prelude: shared vocabulary of the Karen development\<close>

text \<open>
  What every component theory uses: the Go integer operations that differ from HOL's,
  the type synonyms for Go's basic types, and generic facts about lists, options and
  finite maps.  Go's \<^verbatim>\<open>int\<close> and \<^verbatim>\<open>int64\<close> are modelled as \<^typ>\<open>int\<close> where the code only
  counts, compares or stores (message ids, byte counts, user ids); counters whose
  wrap-around is visible (the \<^verbatim>\<open>uint64\<close> kernel counters) and values read from raw bytes
  are kept at their width as words.  A Go string is a sequence of bytes, hence a
  \<^typ>\<open>string\<close> with one \<^typ>\<open>char\<close> per byte.
\<close>

named_theorems frame_simps \<open>fields an operation leaves unchanged\<close>
named_theorems step_inv \<open>operations that preserve their component's invariant\<close>

type_synonym user_id = int
type_synonym chat_id = int
type_synonym msg_id = int
type_synonym unix_sec = int
type_synonym u64 = "64 word"
type_synonym u32 = "32 word"
type_synonym u8 = "8 word"

subsection \<open>Go integer arithmetic\<close>

text \<open>Go's \<^verbatim>\<open>/\<close> and \<^verbatim>\<open>%\<close> truncate towards zero; division by zero panics and is guarded at each use.\<close>

definition go_div :: "int \<Rightarrow> int \<Rightarrow> int" where
  "go_div a b = sgn a * sgn b * (\<bar>a\<bar> div \<bar>b\<bar>)"

definition go_mod :: "int \<Rightarrow> int \<Rightarrow> int" where
  "go_mod a b = a - go_div a b * b"

lemma go_div_nonneg [simp]: "0 \<le> a \<Longrightarrow> 0 < b \<Longrightarrow> go_div a b = a div b"
  by (cases "a = 0") (simp_all add: go_div_def)

lemma go_mod_nonneg [simp]: "0 \<le> a \<Longrightarrow> 0 < b \<Longrightarrow> go_mod a b = a mod b"
  by (simp add: go_mod_def minus_div_mult_eq_mod)

definition clamp_lo :: "int \<Rightarrow> int \<Rightarrow> int" where
  "clamp_lo lo x = (if x < lo then lo else x)"

subsection \<open>Maps with a zero default\<close>

text \<open>A Go \<^verbatim>\<open>map[K]int\<close> reads 0 at an absent key; \<^verbatim>\<open>m[k]++\<close> and \<^verbatim>\<open>m[k]--\<close> store the key.\<close>

type_synonym 'k counts = "'k \<rightharpoonup> int"

definition cget :: "'k counts \<Rightarrow> 'k \<Rightarrow> int" where
  "cget m k = (case m k of None \<Rightarrow> 0 | Some n \<Rightarrow> n)"

definition cadd :: "'k counts \<Rightarrow> 'k \<Rightarrow> int \<Rightarrow> 'k counts" where
  "cadd m k d = m(k \<mapsto> cget m k + d)"

lemma cget_empty [simp]: "cget Map.empty k = 0"
  by (simp add: cget_def)

lemma cget_cadd: "cget (cadd m k d) k' = (if k' = k then cget m k + d else cget m k')"
  by (simp add: cadd_def cget_def)

lemma cget_cadd_same [simp]: "cget (cadd m k d) k = cget m k + d"
  by (simp add: cget_cadd)

lemma cget_cadd_other [simp]: "k' \<noteq> k \<Longrightarrow> cget (cadd m k d) k' = cget m k'"
  by (simp add: cget_cadd)

lemma cget_delete [simp]: "cget (m(k := None)) k' = (if k' = k then 0 else cget m k')"
  by (simp add: cget_def)

lemma cget_upd [simp]: "cget (m(k \<mapsto> n)) k' = (if k' = k then n else cget m k')"
  by (simp add: cget_def)

text \<open>A set-valued Go map (\<^verbatim>\<open>map[K]bool\<close>) is the set of its true keys.\<close>

subsection \<open>Lists\<close>

definition remove_at :: "nat \<Rightarrow> 'a list \<Rightarrow> 'a list" where
  "remove_at i xs = take i xs @ drop (Suc i) xs"

fun find_index :: "('a \<Rightarrow> bool) \<Rightarrow> 'a list \<Rightarrow> nat option" where
  "find_index p [] = None"
| "find_index p (x # xs) = (if p x then Some 0 else map_option Suc (find_index p xs))"

lemma find_index_Some:
  "find_index p xs = Some i \<Longrightarrow> i < length xs \<and> p (xs ! i) \<and> (\<forall>j<i. \<not> p (xs ! j))"
proof (induction xs arbitrary: i)
  case Nil
  then show ?case by simp
next
  case (Cons x xs)
  show ?case
  proof (cases "p x")
    case True
    with Cons.prems show ?thesis by simp
  next
    case False
    with Cons.prems obtain j where j: "find_index p xs = Some j" "i = Suc j" by auto
    from Cons.IH [OF j(1)] False j(2) show ?thesis
      by (auto simp: nth_Cons split: nat.split)
  qed
qed

lemma find_index_None: "find_index p xs = None \<longleftrightarrow> (\<forall>x\<in>set xs. \<not> p x)"
  by (induction xs) auto

lemma length_remove_at: "i < length xs \<Longrightarrow> Suc (length (remove_at i xs)) = length xs"
  by (simp add: remove_at_def)

lemma remove_at_split: "xs = ys @ x # zs \<Longrightarrow> length ys = i \<Longrightarrow> remove_at i xs = ys @ zs"
  by (simp add: remove_at_def)

lemma set_remove_at: "set (remove_at i xs) \<subseteq> set xs"
  by (auto simp: remove_at_def dest: in_set_takeD in_set_dropD)

lemma filter_length_Suc:
  "xs ! i = x \<Longrightarrow> i < length xs \<Longrightarrow> P x \<Longrightarrow> 0 < length (filter P xs)"
  by (auto simp: filter_empty_conv)

lemma mem_nonempty: "x \<in> set xs \<Longrightarrow> xs \<noteq> []"
  by auto

lemma takeWhile_split: "\<forall>y\<in>set xs. P y \<Longrightarrow> \<not> P x \<Longrightarrow> takeWhile P (xs @ x # ys) = xs"
  by (induction xs) auto

lemma concat_snoc [simp]: "concat (xss @ [xs]) = concat xss @ xs"
  by simp

lemma option_eq_the: "x \<noteq> None \<Longrightarrow> Some (the x) = x"
  by simp

end
