(* ===== verification/Go_Strings.thy ===== *)
theory Go_Strings
  imports Prelude
begin

section \<open>The parts of Go's strings and strconv the program uses\<close>

text \<open>
  Byte-level models of \<^verbatim>\<open>strings.HasPrefix\<close>, \<^verbatim>\<open>Index\<close>, \<^verbatim>\<open>LastIndex\<close>, \<^verbatim>\<open>Split\<close>, \<^verbatim>\<open>Join\<close>,
  \<^verbatim>\<open>Cut\<close>, \<^verbatim>\<open>Fields\<close>, \<^verbatim>\<open>TrimSpace\<close>, \<^verbatim>\<open>ToLower\<close>, \<^verbatim>\<open>ToUpper\<close> and of \<^verbatim>\<open>strconv.Itoa\<close>,
  \<^verbatim>\<open>ParseInt\<close>, \<^verbatim>\<open>Atoi\<close>, \<^verbatim>\<open>ParseUint\<close>.  White space is Unicode white space in its UTF-8
  encoding, as in Go.  Case mapping is the ASCII one: bytes from 0x80 up are left alone
  (the code compares the result with ASCII keywords only).
\<close>

subsection \<open>Prefixes and searching\<close>

fun has_prefix :: "string \<Rightarrow> string \<Rightarrow> bool" where
  "has_prefix s [] = True"
| "has_prefix [] (p # ps) = False"
| "has_prefix (c # cs) (p # ps) = (c = p \<and> has_prefix cs ps)"

definition has_suffix :: "string \<Rightarrow> string \<Rightarrow> bool" where
  "has_suffix s p = has_prefix (rev s) (rev p)"

definition trim_prefix :: "string \<Rightarrow> string \<Rightarrow> string" where
  "trim_prefix s p = (if has_prefix s p then drop (length p) s else s)"

fun index_of :: "string \<Rightarrow> string \<Rightarrow> nat option" where
  "index_of [] sub = (if sub = [] then Some 0 else None)"
| "index_of (c # cs) sub =
     (if has_prefix (c # cs) sub then Some 0 else map_option Suc (index_of cs sub))"

fun last_index_of :: "string \<Rightarrow> string \<Rightarrow> nat option" where
  "last_index_of [] sub = (if sub = [] then Some 0 else None)"
| "last_index_of (c # cs) sub =
     (case last_index_of cs sub of
        Some i \<Rightarrow> Some (Suc i)
      | None \<Rightarrow> (if has_prefix (c # cs) sub then Some 0 else None))"

definition contains :: "string \<Rightarrow> string \<Rightarrow> bool" where
  "contains s sub = (index_of s sub \<noteq> None)"

lemma has_prefix_iff: "has_prefix s p \<longleftrightarrow> (\<exists>r. s = p @ r)"
  by (induction s p rule: has_prefix.induct) auto

lemma has_prefix_append [simp]: "has_prefix (p @ r) p"
  by (auto simp: has_prefix_iff)

lemma has_prefix_self [simp]: "has_prefix p p"
  by (metis append_Nil2 has_prefix_append)

lemma has_prefix_Nil_iff [simp]: "has_prefix [] p \<longleftrightarrow> p = []"
  by (cases p) auto

lemma trim_prefix_append [simp]: "trim_prefix (p @ r) p = r"
  by (simp add: trim_prefix_def)

subsection \<open>Splitting and joining\<close>

text \<open>\<^verbatim>\<open>strings.Split(s, sep)\<close> for a one-byte separator.\<close>

fun split_byte :: "char \<Rightarrow> string \<Rightarrow> string list" where
  "split_byte sep [] = [[]]"
| "split_byte sep (c # cs) =
     (if c = sep then [] # split_byte sep cs
      else (case split_byte sep cs of
              [] \<Rightarrow> [[c]]
            | w # ws \<Rightarrow> (c # w) # ws))"

fun join_with :: "string \<Rightarrow> string list \<Rightarrow> string" where
  "join_with sep [] = []"
| "join_with sep [w] = w"
| "join_with sep (w # ws) = w @ sep @ join_with sep ws"

text \<open>\<^verbatim>\<open>strings.Cut(s, sep)\<close> for a one-byte separator.\<close>

fun cut_byte :: "char \<Rightarrow> string \<Rightarrow> string \<times> string \<times> bool" where
  "cut_byte sep [] = ([], [], False)"
| "cut_byte sep (c # cs) =
     (if c = sep then ([], cs, True)
      else (case cut_byte sep cs of (b, a, ok) \<Rightarrow> (c # b, a, ok)))"

lemma split_byte_nonempty [simp]: "split_byte sep s \<noteq> []"
  by (induction s) (auto split: list.splits)

lemma split_byte_no_sep: "sep \<notin> set s \<Longrightarrow> split_byte sep s = [s]"
  by (induction s) auto

lemma split_byte_append:
  "sep \<notin> set w \<Longrightarrow> split_byte sep (w @ sep # rest) = w # split_byte sep rest"
  by (induction w) auto

lemma join_split_byte: "join_with [sep] (split_byte sep s) = s"
proof (induction s)
  case Nil
  show ?case by simp
next
  case (Cons c s)
  obtain w ws where w: "split_byte sep s = w # ws"
    by (meson list.exhaust split_byte_nonempty)
  with Cons show ?case
    by (cases ws) auto
qed

lemma cut_byte_found:
  "sep \<notin> set k \<Longrightarrow> cut_byte sep (k @ sep # v) = (k, v, True)"
  by (induction k) auto

subsection \<open>White space\<close>

text \<open>The UTF-8 encodings of the code points with the Unicode White_Space property.\<close>

definition go_spaces :: "string list" where
  "go_spaces =
     [[CHR 0x09], [CHR 0x0A], [CHR 0x0B], [CHR 0x0C], [CHR 0x0D], [CHR 0x20],
      [CHR 0xC2, CHR 0x85], [CHR 0xC2, CHR 0xA0], [CHR 0xE1, CHR 0x9A, CHR 0x80],
      [CHR 0xE2, CHR 0x80, CHR 0x80], [CHR 0xE2, CHR 0x80, CHR 0x81],
      [CHR 0xE2, CHR 0x80, CHR 0x82], [CHR 0xE2, CHR 0x80, CHR 0x83],
      [CHR 0xE2, CHR 0x80, CHR 0x84], [CHR 0xE2, CHR 0x80, CHR 0x85],
      [CHR 0xE2, CHR 0x80, CHR 0x86], [CHR 0xE2, CHR 0x80, CHR 0x87],
      [CHR 0xE2, CHR 0x80, CHR 0x88], [CHR 0xE2, CHR 0x80, CHR 0x89],
      [CHR 0xE2, CHR 0x80, CHR 0x8A], [CHR 0xE2, CHR 0x80, CHR 0xA8],
      [CHR 0xE2, CHR 0x80, CHR 0xA9], [CHR 0xE2, CHR 0x80, CHR 0xAF],
      [CHR 0xE2, CHR 0x81, CHR 0x9F], [CHR 0xE3, CHR 0x80, CHR 0x80]]"

fun strip_one :: "string list \<Rightarrow> string \<Rightarrow> string option" where
  "strip_one [] s = None"
| "strip_one (e # es) s = (if e \<noteq> [] \<and> has_prefix s e then Some (drop (length e) s) else strip_one es s)"

lemma strip_one_shorter: "strip_one es s = Some r \<Longrightarrow> length r < length s"
proof (induction es)
  case (Cons e es)
  show ?case
  proof (cases "e \<noteq> [] \<and> has_prefix s e")
    case True
    with Cons.prems show ?thesis by (auto simp: has_prefix_iff)
  next
    case False
    with Cons.prems have "strip_one es s = Some r" by (auto split: if_splits)
    then show ?thesis by (rule Cons.IH)
  qed
qed simp

function strip_all :: "string list \<Rightarrow> string \<Rightarrow> string" where
  "strip_all es s = (case strip_one es s of None \<Rightarrow> s | Some r \<Rightarrow> strip_all es r)"
  by pat_completeness auto
termination
  by (relation "measure (\<lambda>(es, s). length s)") (auto dest: strip_one_shorter)

declare strip_all.simps [simp del]

definition trim_left :: "string \<Rightarrow> string" where
  "trim_left s = strip_all go_spaces s"

definition trim_right :: "string \<Rightarrow> string" where
  "trim_right s = rev (strip_all (map rev go_spaces) (rev s))"

definition trim_space :: "string \<Rightarrow> string" where
  "trim_space s = trim_right (trim_left s)"

text \<open>\<^verbatim>\<open>strings.Fields\<close>: the maximal runs between white space, empty runs dropped.\<close>

function go_fields_from :: "string \<Rightarrow> string \<Rightarrow> string list" where
  "go_fields_from cur [] = (if cur = [] then [] else [cur])"
| "go_fields_from cur (c # cs) =
     (case strip_one go_spaces (c # cs) of
        Some r \<Rightarrow> (if cur = [] then go_fields_from [] r else cur # go_fields_from [] r)
      | None \<Rightarrow> go_fields_from (cur @ [c]) cs)"
  by pat_completeness auto
termination
  by (relation "measure (\<lambda>(cur, s). length s)") (auto dest: strip_one_shorter)

definition go_fields :: "string \<Rightarrow> string list" where
  "go_fields s = go_fields_from [] s"

subsection \<open>ASCII bytes\<close>

text \<open>
  A byte of plain token text: it neither is a white-space byte nor can it begin or continue
  the encoding of one.
\<close>

definition plain_byte :: "char \<Rightarrow> bool" where
  "plain_byte c = (\<forall>e\<in>set go_spaces. c \<noteq> hd e)"

definition plain :: "string \<Rightarrow> bool" where
  "plain s = (\<forall>c\<in>set s. plain_byte c)"

lemma plain_simps [simp]:
  "plain []" "plain (c # s) \<longleftrightarrow> plain_byte c \<and> plain s"
  "plain (s @ t) \<longleftrightarrow> plain s \<and> plain t"
  by (auto simp: plain_def)

lemma strip_one_plain_byte:
  assumes "\<forall>e\<in>set es. e = [] \<or> c \<noteq> hd e"
  shows "strip_one es (c # s) = None"
  using assms
proof (induction es)
  case (Cons e es)
  then show ?case by (cases e) auto
qed simp

lemma strip_one_plain [simp]: "plain_byte c \<Longrightarrow> strip_one go_spaces (c # s) = None"
  by (rule strip_one_plain_byte) (auto simp: plain_byte_def)

lemma strip_one_Nil [simp]: "strip_one es [] = None"
  by (induction es) auto

lemma strip_one_space [simp]: "strip_one go_spaces (CHR '' '' # s) = Some s"
  by (simp add: go_spaces_def)

lemma fields_from_plain:
  "plain w \<Longrightarrow> go_fields_from cur (w @ s) = go_fields_from (cur @ w) s"
  by (induction w arbitrary: cur) simp_all

lemma fields_from_plain_end [simp]:
  "plain w \<Longrightarrow> go_fields_from cur w = (if cur @ w = [] then [] else [cur @ w])"
  using fields_from_plain [of w cur "[]"] by simp

lemma fields_from_space:
  "go_fields_from cur (CHR '' '' # s) = (if cur = [] then go_fields_from [] s else cur # go_fields_from [] s)"
  by simp

text \<open>Tokens written with a leading space each are read back by \<^const>\<open>go_fields\<close>.\<close>

lemma go_fields_tokens:
  assumes "\<forall>w\<in>set ws. plain w \<and> w \<noteq> []" and "plain cur" and "cur \<noteq> []"
  shows "go_fields_from [] (cur @ concat (map (\<lambda>w. CHR '' '' # w) ws)) = cur # ws"
  using assms
proof (induction ws arbitrary: cur)
  case Nil
  then show ?case by simp
next
  case (Cons w ws)
  from Cons.prems have "go_fields_from [] (cur @ concat (map (\<lambda>w. CHR '' '' # w) (w # ws)))
      = cur # go_fields_from [] (w @ concat (map (\<lambda>w. CHR '' '' # w) ws))"
    by (simp add: fields_from_plain)
  with Cons show ?case by simp
qed

lemma trim_left_plain: "s = [] \<or> plain_byte (hd s) \<Longrightarrow> trim_left s = s"
  by (cases s) (auto simp: trim_left_def strip_all.simps [of go_spaces])

definition plain_end_byte :: "char \<Rightarrow> bool" where
  "plain_end_byte c = (\<forall>e\<in>set go_spaces. c \<noteq> last e)"

lemma trim_right_plain: "s = [] \<or> plain_end_byte (last s) \<Longrightarrow> trim_right s = s"
proof (cases s rule: rev_cases)
  case Nil
  then show ?thesis by (simp add: trim_right_def strip_all.simps)
next
  case (snoc t c)
  assume "s = [] \<or> plain_end_byte (last s)"
  with snoc have "plain_end_byte c" by simp
  then have "\<forall>e\<in>set (map rev go_spaces). e = [] \<or> c \<noteq> hd e"
    by (auto simp: plain_end_byte_def hd_rev)
  with snoc have "strip_one (map rev go_spaces) (rev s) = None"
    by (simp add: strip_one_plain_byte)
  then show ?thesis by (simp add: trim_right_def strip_all.simps [of "map rev go_spaces"])
qed

lemma trim_space_id:
  "s = [] \<or> (plain_byte (hd s) \<and> plain_end_byte (last s)) \<Longrightarrow> trim_space s = s"
  using trim_left_plain [of s] trim_right_plain [of s] by (auto simp: trim_space_def)

text \<open>Trimming leaves a string alone exactly when neither end starts a white-space encoding.\<close>

lemma strip_all_length: "length (strip_all es s) \<le> length s"
proof (induction es s rule: strip_all.induct)
  case (1 es s)
  show ?case
  proof (cases "strip_one es s")
    case None
    then show ?thesis by (simp add: strip_all.simps [of es s])
  next
    case (Some r)
    with 1 [OF Some] strip_one_shorter [OF Some] show ?thesis
      by (simp add: strip_all.simps [of es s])
  qed
qed

lemma strip_all_fixed: "strip_all es s = s \<longleftrightarrow> strip_one es s = None"
proof (cases "strip_one es s")
  case None
  then show ?thesis by (simp add: strip_all.simps [of es s])
next
  case (Some r)
  then have "length (strip_all es s) < length s"
    using strip_all_length [of es r] strip_one_shorter [OF Some] by (simp add: strip_all.simps [of es s])
  with Some show ?thesis by auto
qed

definition trimmed :: "string \<Rightarrow> bool" where
  "trimmed s = (strip_one go_spaces s = None \<and> strip_one (map rev go_spaces) (rev s) = None)"

lemma trimmed_Nil [simp]: "trimmed []"
  by (simp add: trimmed_def)

lemma trim_left_trimmed: "trim_left s = s \<longleftrightarrow> strip_one go_spaces s = None"
  by (simp add: trim_left_def strip_all_fixed)

lemma trim_right_trimmed: "trim_right s = s \<longleftrightarrow> strip_one (map rev go_spaces) (rev s) = None"
  using strip_all_fixed [of "map rev go_spaces" "rev s"]
  by (simp add: trim_right_def rev_swap)

lemma trim_space_trimmed: "trim_space s = s \<longleftrightarrow> trimmed s"
proof
  assume "trim_space s = s"
  then have eq: "trim_right (trim_left s) = s" by (simp add: trim_space_def)
  have "length (trim_right (trim_left s)) \<le> length (trim_left s)"
    using strip_all_length [of "map rev go_spaces" "rev (trim_left s)"] by (simp add: trim_right_def)
  moreover have "length (trim_left s) \<le> length s"
    using strip_all_length by (simp add: trim_left_def)
  ultimately have len: "length (trim_left s) = length s" by (simp add: eq)
  have "trim_left s = s"
  proof (cases "strip_one go_spaces s")
    case (Some r)
    then show ?thesis
      using len strip_one_shorter [OF Some] strip_all_length [of go_spaces r]
      by (simp add: trim_left_def strip_all.simps [of go_spaces s])
  qed (simp add: trim_left_trimmed)
  with eq show "trimmed s"
    by (simp add: trimmed_def trim_left_trimmed [symmetric] trim_right_trimmed [symmetric])
next
  assume "trimmed s"
  then show "trim_space s = s"
    by (simp add: trim_space_def trimmed_def trim_left_trimmed [symmetric] trim_right_trimmed [symmetric])
qed

lemma strip_one_append_space:
  assumes "strip_one es s = None" and "s \<noteq> []" and "\<forall>e\<in>set es. CHR '' '' \<notin> set (tl e)"
  shows "strip_one es (s @ CHR '' '' # r) = None"
  using assms
proof (induction es)
  case (Cons e es)
  from Cons.prems(1) have no: "\<not> (e \<noteq> [] \<and> has_prefix s e)" and rest: "strip_one es s = None"
    by (auto split: if_splits)
  have "\<not> (e \<noteq> [] \<and> has_prefix (s @ CHR '' '' # r) e)"
  proof
    assume e: "e \<noteq> [] \<and> has_prefix (s @ CHR '' '' # r) e"
    then obtain u where u: "s @ CHR '' '' # r = e @ u" by (auto simp: has_prefix_iff)
    then consider w where "s = e @ w" | w where "e = s @ CHR '' '' # w"
      by (auto simp: append_eq_append_conv2 Cons_eq_append_conv)
    then show False
    proof cases
      case 1
      with no e show False by auto
    next
      case 2
      with Cons.prems(2,3) show False by (cases s) auto
    qed
  qed
  with Cons.IH [OF rest Cons.prems(2)] Cons.prems(3) show ?case by simp
qed simp

lemma go_spaces_tl: "\<forall>e\<in>set go_spaces. CHR '' '' \<notin> set (tl e)"
  "\<forall>e\<in>set (map rev go_spaces). CHR '' '' \<notin> set (tl e)"
  by (simp_all add: go_spaces_def)

text \<open>A trimmed text after an opening byte and a space, or before a space, stays trimmed at that end.\<close>

lemma trimmed_before_space:
  "trimmed s \<Longrightarrow> s \<noteq> [] \<Longrightarrow> strip_one go_spaces (s @ CHR '' '' # r) = None"
  by (rule strip_one_append_space) (simp_all add: trimmed_def go_spaces_tl(1))

lemma trimmed_after_space:
  "trimmed s \<Longrightarrow> s \<noteq> [] \<Longrightarrow> strip_one (map rev go_spaces) (rev (x @ CHR '' '' # s)) = None"
  using strip_one_append_space [of "map rev go_spaces" "rev s" "rev x"] go_spaces_tl(2)
  by (simp add: trimmed_def)

lemma trim_left_space [simp]: "trim_left (CHR '' '' # s) = trim_left s"
  by (simp add: trim_left_def strip_all.simps [of go_spaces "CHR '' '' # s"])

subsection \<open>Tokens\<close>

text \<open>Printable ASCII without spaces: ids, enum values, numbers.\<close>

definition token :: "string \<Rightarrow> bool" where
  "token s = (\<forall>c\<in>set s. 33 \<le> (of_char c :: nat) \<and> (of_char c :: nat) \<le> 126)"

lemma token_simps [simp]:
  "token []" "token (s @ t) = (token s \<and> token t)"
  "token (c # s) = ((33 \<le> (of_char c :: nat) \<and> (of_char c :: nat) \<le> 126) \<and> token s)"
  by (auto simp: token_def)

lemma token_plain: "token s \<Longrightarrow> plain s"
  by (auto simp: token_def plain_def plain_byte_def go_spaces_def)

lemma printable_end_byte: "33 \<le> (of_char c :: nat) \<Longrightarrow> (of_char c :: nat) \<le> 126 \<Longrightarrow> plain_end_byte c"
  by (auto simp: plain_end_byte_def go_spaces_def)

lemma token_end: "token s \<Longrightarrow> s \<noteq> [] \<Longrightarrow> plain_end_byte (last s)"
  using last_in_set [of s] printable_end_byte [of "last s"] by (auto simp: token_def)

lemma token_trimmed: "token s \<Longrightarrow> trimmed s"
  using trim_space_id [of s] token_plain [of s] token_end [of s]
  by (cases s) (auto simp: trim_space_trimmed [symmetric])

lemma token_no: "token s \<Longrightarrow> (of_char c :: nat) < 33 \<or> 126 < (of_char c :: nat) \<Longrightarrow> c \<notin> set s"
  by (auto simp: token_def)

subsection \<open>Case\<close>

definition lower_byte :: "char \<Rightarrow> char" where
  "lower_byte c = (if 65 \<le> (of_char c :: nat) \<and> (of_char c :: nat) \<le> 90 then char_of ((of_char c :: nat) + 32) else c)"

definition upper_byte :: "char \<Rightarrow> char" where
  "upper_byte c = (if 97 \<le> (of_char c :: nat) \<and> (of_char c :: nat) \<le> 122 then char_of ((of_char c :: nat) - 32) else c)"

definition to_lower :: "string \<Rightarrow> string" where
  "to_lower s = map lower_byte s"

definition to_upper :: "string \<Rightarrow> string" where
  "to_upper s = map upper_byte s"

lemma lower_byte_idem [simp]: "lower_byte (lower_byte c) = lower_byte c"
  by (simp add: lower_byte_def)

lemma to_lower_idem [simp]: "to_lower (to_lower s) = to_lower s"
  by (simp add: to_lower_def)

subsection \<open>Names as keys: trimmed and lower-cased\<close>

lemma strip_one_prefix: "strip_one es p = Some r \<Longrightarrow> strip_one es (p @ q) \<noteq> None"
  by (induction es) (auto simp: has_prefix_iff split: if_splits)

lemma strip_one_strip_all [simp]: "strip_one es (strip_all es s) = None"
proof (induction es s rule: strip_all.induct)
  case (1 es s)
  then show ?case by (cases "strip_one es s") (simp_all add: strip_all.simps [of es s])
qed

lemma strip_all_suffix: "\<exists>p. s = p @ strip_all es s"
proof (induction es s rule: strip_all.induct)
  case (1 es s)
  show ?case
  proof (cases "strip_one es s")
    case None
    then show ?thesis by (simp add: strip_all.simps [of es s])
  next
    case (Some r)
    have "\<exists>p. s = p @ r"
      using Some by (induction es) (auto simp: has_prefix_iff split: if_splits)
    with 1 [OF Some] obtain p q where "s = (p @ q) @ strip_all es r" by (metis append_assoc)
    moreover have "strip_all es s = strip_all es r" by (simp add: strip_all.simps [of es s] Some)
    ultimately show ?thesis by metis
  qed
qed

lemma trimmed_trim_space [simp]: "trimmed (trim_space s)"
proof -
  let ?l = "trim_left s"
  obtain p where p: "rev ?l = p @ strip_all (map rev go_spaces) (rev ?l)"
    using strip_all_suffix by blast
  then have "?l = trim_right ?l @ rev p"
    by (metis rev_append rev_rev_ident trim_right_def)
  moreover have "strip_one go_spaces ?l = None" by (simp add: trim_left_def)
  ultimately have "strip_one go_spaces (trim_right ?l) = None"
    using strip_one_prefix by (metis not_None_eq)
  then show ?thesis by (simp add: trimmed_def trim_space_def) (simp add: trim_right_def)
qed

definition caseless :: "string \<Rightarrow> bool" where
  "caseless e = (\<forall>c\<in>set e. \<forall>d. lower_byte d = c \<longleftrightarrow> d = c)"

lemma has_prefix_lower: "caseless e \<Longrightarrow> has_prefix (to_lower s) e = has_prefix s e"
proof (induction s e rule: has_prefix.induct)
qed (auto simp: caseless_def to_lower_def)

lemma caseless_byte: "(of_char c :: nat) < 65 \<or> 122 < (of_char c :: nat) \<Longrightarrow> lower_byte d = c \<longleftrightarrow> d = c"
  by (auto simp: lower_byte_def)

lemma caseless_spaces: "\<forall>e\<in>set go_spaces. caseless e" "\<forall>e\<in>set (map rev go_spaces). caseless e"
  by (simp_all add: go_spaces_def caseless_def caseless_byte)

lemma strip_one_lower:
  "\<forall>e\<in>set es. caseless e \<Longrightarrow> strip_one es (to_lower s) = None \<longleftrightarrow> strip_one es s = None"
  by (induction es) (auto simp: has_prefix_lower)

lemma trimmed_to_lower [simp]: "trimmed (to_lower s) = trimmed s"
  using strip_one_lower [OF caseless_spaces(1), of s] strip_one_lower [OF caseless_spaces(2), of "rev s"]
  by (simp add: trimmed_def) (simp add: to_lower_def rev_map)

lemma to_lower_Nil [simp]: "to_lower s = [] \<longleftrightarrow> s = []" "to_lower [] = []"
  by (simp_all add: to_lower_def)

subsection \<open>Decimal numbers\<close>

definition digit_char :: "nat \<Rightarrow> char" where
  "digit_char d = char_of (48 + d)"

definition is_digit :: "char \<Rightarrow> bool" where
  "is_digit c = (48 \<le> (of_char c :: nat) \<and> (of_char c :: nat) \<le> 57)"

definition digit_val :: "char \<Rightarrow> nat" where
  "digit_val c = (of_char c :: nat) - 48"

fun nat_digits :: "nat \<Rightarrow> string" where
  "nat_digits n = (if n < 10 then [digit_char n] else nat_digits (n div 10) @ [digit_char (n mod 10)])"

declare nat_digits.simps [simp del]

definition digits_val :: "string \<Rightarrow> nat" where
  "digits_val s = foldl (\<lambda>acc c. acc * 10 + digit_val c) 0 s"

definition itoa :: "int \<Rightarrow> string" where
  "itoa n = (if n < 0 then CHR ''-'' # nat_digits (nat (- n)) else nat_digits (nat n))"

datatype num_error = ErrSyntax | ErrRange

definition int64_max :: int where "int64_max = 9223372036854775807"
definition int64_min :: int where "int64_min = -9223372036854775808"

text \<open>
  \<^verbatim>\<open>strconv.ParseInt(s, 10, 64)\<close> (and \<^verbatim>\<open>Atoi\<close>, \<^verbatim>\<open>int\<close> having 64 bits): the value and the
  error; the value is 0 on a syntax error and the nearest bound on a range error, and the
  callers that drop the error use that value.
\<close>

definition parse_int64 :: "string \<Rightarrow> int \<times> num_error option" where
  "parse_int64 s =
     (let neg = (s \<noteq> [] \<and> hd s = CHR ''-'');
          ds = (if s \<noteq> [] \<and> (hd s = CHR ''-'' \<or> hd s = CHR ''+'') then tl s else s)
      in if ds = [] \<or> \<not> list_all is_digit ds then (0, Some ErrSyntax)
         else let v = (if neg then - int (digits_val ds) else int (digits_val ds))
              in if v < int64_min then (int64_min, Some ErrRange)
                 else if int64_max < v then (int64_max, Some ErrRange)
                 else (v, None))"

definition uint64_max :: nat where "uint64_max = 18446744073709551615"

definition parse_uint64 :: "string \<Rightarrow> nat \<times> num_error option" where
  "parse_uint64 s =
     (if s = [] \<or> \<not> list_all is_digit s then (0, Some ErrSyntax)
      else if uint64_max < digits_val s then (uint64_max, Some ErrRange)
      else (digits_val s, None))"

lemma digit_char_eval [simp]:
  "digit_char 0 = CHR ''0''" "digit_char 1 = CHR ''1''" "digit_char (Suc 0) = CHR ''1''"
  "digit_char 2 = CHR ''2''" "digit_char 3 = CHR ''3''" "digit_char 4 = CHR ''4''"
  "digit_char 5 = CHR ''5''" "digit_char 6 = CHR ''6''" "digit_char 7 = CHR ''7''"
  "digit_char 8 = CHR ''8''" "digit_char 9 = CHR ''9''"
  by (simp_all add: digit_char_def char_of_def bit_iff_odd)

lemma of_char_digit [simp]: "d < 10 \<Longrightarrow> (of_char (digit_char d) :: nat) = 48 + d"
  by (simp add: digit_char_def)

lemma is_digit_digit [simp]: "d < 10 \<Longrightarrow> is_digit (digit_char d)"
  by (simp add: is_digit_def)

lemma digit_val_digit [simp]: "d < 10 \<Longrightarrow> digit_val (digit_char d) = d"
  by (simp add: digit_val_def)

lemma nat_digits_digits: "list_all is_digit (nat_digits n)"
proof (induction n rule: nat_digits.induct)
  case (1 n)
  then show ?case by (subst nat_digits.simps) simp
qed

lemma nat_digits_nonempty [simp]: "nat_digits n \<noteq> []"
  by (subst nat_digits.simps) simp

lemma digits_val_snoc [simp]: "digits_val (s @ [c]) = digits_val s * 10 + digit_val c"
  by (simp add: digits_val_def)

lemma digits_val_nat_digits [simp]: "digits_val (nat_digits n) = n"
proof (induction n rule: nat_digits.induct)
  case (1 n)
  show ?case
  proof (cases "n < 10")
    case True
    then show ?thesis by (subst nat_digits.simps) (simp add: digits_val_def)
  next
    case False
    with 1 show ?thesis by (subst nat_digits.simps) simp
  qed
qed

lemma hd_nat_digits: "is_digit (hd (nat_digits n))"
  using nat_digits_digits [of n] by (cases "nat_digits n") simp_all

lemma digit_not_sign: "is_digit c \<Longrightarrow> c \<noteq> CHR ''-'' \<and> c \<noteq> CHR ''+''"
  by (auto simp: is_digit_def)

lemma nat_digits_token [simp]: "token (nat_digits n)"
  using nat_digits_digits [of n] by (auto simp: token_def list_all_iff is_digit_def)

lemma itoa_token [simp]: "token (itoa n)"
  by (simp add: itoa_def)

lemma itoa_nonempty [simp]: "itoa n \<noteq> []"
  by (simp add: itoa_def)

text \<open>Every 64-bit integer is read back from its decimal form.\<close>

lemma parse_itoa:
  assumes "int64_min \<le> n" and "n \<le> int64_max"
  shows "parse_int64 (itoa n) = (n, None)"
proof (cases "n < 0")
  case True
  with assms nat_digits_digits [of "nat (- n)"] show ?thesis
    by (simp add: itoa_def parse_int64_def Let_def)
next
  case False
  with assms nat_digits_digits [of "nat n"] digit_not_sign [OF hd_nat_digits [of "nat n"]]
  show ?thesis
    by (simp add: itoa_def parse_int64_def Let_def int64_min_def)
qed

lemma itoa_inj:
  assumes "int64_min \<le> n" "n \<le> int64_max" "int64_min \<le> m" "m \<le> int64_max" "itoa n = itoa m"
  shows "n = m"
proof -
  from assms(5) have "parse_int64 (itoa n) = parse_int64 (itoa m)" by (rule arg_cong)
  then show ?thesis by (simp only: parse_itoa [OF assms(1,2)] parse_itoa [OF assms(3,4)] prod.inject)
qed

end
