(* ===== verification/User_State.thy ===== *)
theory User_State
  imports Prelude Go_Strings "HOL-Library.Char_ord" "HOL-Library.List_Lexorder"
begin

section \<open>Persistent user state: admin lock, bans, donors, profiles, counters\<close>

text \<open>
  \<^verbatim>\<open>bot/admin_tasks.go\<close>: the state under \<^verbatim>\<open>stateMu\<close>, who is an admin, banned or a donor, the
  saved profiles and usage counters, and the two JSON files the state is kept in.  A Go map
  used as a set is the set of its keys; the order in which Go lists such a map when it writes
  the file is not fixed, so the listing functions are arguments.  A file holds the payload
  that was written (\<open>Json\<close>), text that does not parse (\<open>Broken\<close>), or nothing readable
  (\<open>Missing\<close>); a write replaces it atomically or leaves it alone.
\<close>

subsection \<open>Data\<close>

record scheduled_job =
  jID :: string
  jKind :: string
  jSection :: string
  jChatID :: int
  jUserID :: int
  jUsername :: string
  jReplyToID :: int
  jLink :: string
  jStorefront :: string
  jResourceID :: string
  jForceAAC :: bool
  jForceAtmos :: bool
  jForceFlac :: bool
  jReleaseAtUnix :: int
  jCreatedAtUnix :: int
  jQuotaChargeID :: string

record user_prefs =
  pCodec :: string
  pQuality :: string
  pLyricMode :: string
  pEmbedLrc :: "bool option"
  pCoverDelivery :: string
  pAnimatedArt :: "bool option"
  pEmbedCover :: "bool option"
  pDeliveryTarget :: string
  pAacType :: string
  pExplicitChoice :: string
  pAppleMaster :: "bool option"
  pCoverFormat :: string
  pCoverSize :: string
  pLanguage :: string
  pMVMax :: int
  pArtistZip :: string
  pSilentDelivery :: "bool option"
  pUpdatedAtUnix :: int

definition zero_prefs :: user_prefs where
  "zero_prefs = \<lparr>pCodec = [], pQuality = [], pLyricMode = [], pEmbedLrc = None, pCoverDelivery = [],
     pAnimatedArt = None, pEmbedCover = None, pDeliveryTarget = [], pAacType = [], pExplicitChoice = [],
     pAppleMaster = None, pCoverFormat = [], pCoverSize = [], pLanguage = [], pMVMax = 0, pArtistZip = [],
     pSilentDelivery = None, pUpdatedAtUnix = 0\<rparr>"

record user_stats =
  tTotalCommands :: int
  tAlbumRips :: int
  tArtistRips :: int
  tPlaylistRips :: int
  tSongRips :: int
  tCancels :: int
  tUsername :: string
  tFirstSeenUnix :: int
  tLastSeenUnix :: int

definition zero_stats :: user_stats where
  "zero_stats = \<lparr>tTotalCommands = 0, tAlbumRips = 0, tArtistRips = 0, tPlaylistRips = 0, tSongRips = 0,
     tCancels = 0, tUsername = [], tFirstSeenUnix = 0, tLastSeenUnix = 0\<rparr>"

record state_file =
  fVersion :: int
  fAdminLock :: bool
  fLockReason :: string
  fRestrictionMode :: bool
  fScheduledJobs :: "scheduled_job list"
  fUserPrefs :: "user_id \<rightharpoonup> user_prefs"
  fUserStats :: "user_id \<rightharpoonup> user_stats"
  fBlockedUserIDs :: "user_id list"
  fBlockedUsernames :: "string list"
  fDonorUserIDs :: "user_id list"
  fDonorUsernames :: "string list"

datatype 'a json_file = Missing | Broken | Json 'a

record users =
  uAdmins :: "user_id set"
  uAdminLock :: bool
  uLockReason :: string
  uRestriction :: bool
  uJobs :: "scheduled_job list"
  uPrefs :: "user_id \<rightharpoonup> user_prefs"
  uStats :: "user_id \<rightharpoonup> user_stats"
  uBlockedIDs :: "user_id set"
  uBlockedNames :: "string set"
  uBlockNotified :: "user_id set"
  uDonorIDs :: "user_id set"
  uDonorNames :: "string set"

record disk =
  kState :: "state_file json_file"
  kSchedule :: "scheduled_job list json_file"
  kBackups :: "(string \<times> state_file json_file) list"

subsection \<open>Saving and loading\<close>

definition stateFilePayload :: "(user_id set \<Rightarrow> user_id list) \<Rightarrow> (string set \<Rightarrow> string list) \<Rightarrow> users \<Rightarrow> state_file" where
  "stateFilePayload ids names s =
     \<lparr>fVersion = 1, fAdminLock = uAdminLock s, fLockReason = uLockReason s, fRestrictionMode = uRestriction s,
      fScheduledJobs = [], fUserPrefs = uPrefs s, fUserStats = uStats s,
      fBlockedUserIDs = ids (uBlockedIDs s), fBlockedUsernames = names (uBlockedNames s),
      fDonorUserIDs = ids (uDonorIDs s), fDonorUsernames = names (uDonorNames s)\<rparr>"

definition saveState ::
  "bool \<Rightarrow> (user_id set \<Rightarrow> user_id list) \<Rightarrow> (string set \<Rightarrow> string list) \<Rightarrow> users \<Rightarrow> disk \<Rightarrow> disk" where
  "saveState up ids names s d = (if up then d\<lparr>kState := Json (stateFilePayload ids names s)\<rparr> else d)"

definition saveSchedule :: "bool \<Rightarrow> users \<Rightarrow> disk \<Rightarrow> disk" where
  "saveSchedule up s d = (if up then d\<lparr>kSchedule := Json (uJobs s)\<rparr> else d)"

text \<open>\<^verbatim>\<open>sort.Strings(matches)\<close>, the last: the backup with the greatest name.\<close>

fun newest :: "(string \<times> 'a) list \<Rightarrow> (string \<times> 'a) option" where
  "newest [] = None"
| "newest (x # xs) = (case newest xs of None \<Rightarrow> Some x
                      | Some y \<Rightarrow> Some (if fst y < fst x then x else y))"

definition restoreFromBackup :: "bool \<Rightarrow> disk \<Rightarrow> state_file json_file \<times> disk" where
  "restoreFromBackup up d =
     (case newest (kBackups d) of
        None \<Rightarrow> (Missing, d)
      | Some (n, Missing) \<Rightarrow> (Missing, d)
      | Some (n, f) \<Rightarrow> (f, if up then d\<lparr>kState := f\<rparr> else d))"

definition clear_state :: "users \<Rightarrow> users" where
  "clear_state s = s\<lparr>uAdminLock := False, uLockReason := [], uRestriction := False, uJobs := [],
     uPrefs := Map.empty, uStats := Map.empty, uBlockedIDs := {}, uBlockedNames := {},
     uDonorIDs := {}, uDonorNames := {}\<rparr>"

definition name_key :: "string \<Rightarrow> string" where
  "name_key n = to_lower (trim_space n)"

definition load_ids :: "user_id list \<Rightarrow> user_id set" where
  "load_ids xs = set (filter (\<lambda>i. i \<noteq> 0) xs)"

definition load_names :: "string list \<Rightarrow> string set" where
  "load_names xs = set (filter (\<lambda>n. n \<noteq> []) (map name_key xs))"

definition load_payload :: "state_file \<Rightarrow> users \<Rightarrow> users" where
  "load_payload p s = s\<lparr>uAdminLock := fAdminLock p, uLockReason := fLockReason p,
     uRestriction := fRestrictionMode p, uJobs := fScheduledJobs p, uPrefs := fUserPrefs p,
     uStats := fUserStats p, uBlockedIDs := load_ids (fBlockedUserIDs p),
     uBlockedNames := load_names (fBlockedUsernames p), uDonorIDs := load_ids (fDonorUserIDs p),
     uDonorNames := load_names (fDonorUsernames p)\<rparr>"

definition loadState :: "bool \<Rightarrow> disk \<Rightarrow> users \<Rightarrow> users \<times> disk" where
  "loadState up d s =
     (let s0 = clear_state s;
          (f, d') = (case kState d of Missing \<Rightarrow> restoreFromBackup up d | g \<Rightarrow> (g, d))
      in case f of Json p \<Rightarrow> (load_payload p s0, d') | _ \<Rightarrow> (s0, d'))"

definition loadSchedule :: "bool \<Rightarrow> disk \<Rightarrow> users \<Rightarrow> users \<times> disk" where
  "loadSchedule up d s =
     (case kSchedule d of
        Missing \<Rightarrow> (s, if uJobs s \<noteq> [] then saveSchedule up s d else d)
      | Broken \<Rightarrow> (s, d)
      | Json js \<Rightarrow> (s\<lparr>uJobs := js\<rparr>, d))"

subsection \<open>Profiles and counters\<close>

definition getPrefs :: "users \<Rightarrow> user_id \<Rightarrow> user_prefs" where
  "getPrefs s u = (case uPrefs s u of Some p \<Rightarrow> p | None \<Rightarrow> zero_prefs)"

definition hasPrefs :: "users \<Rightarrow> user_id \<Rightarrow> bool" where
  "hasPrefs s u = (uPrefs s u \<noteq> None)"

definition setPrefs :: "unix_sec \<Rightarrow> user_id \<Rightarrow> (user_prefs \<Rightarrow> user_prefs) \<Rightarrow> users \<Rightarrow> users" where
  "setPrefs now u f s = s\<lparr>uPrefs := (uPrefs s)(u \<mapsto> (f (getPrefs s u))\<lparr>pUpdatedAtUnix := now\<rparr>)\<rparr>"

definition resetPrefs :: "user_id \<Rightarrow> users \<Rightarrow> users" where
  "resetPrefs u s = (if uPrefs s u = None then s else s\<lparr>uPrefs := (uPrefs s)(u := None)\<rparr>)"

definition getStats :: "users \<Rightarrow> user_id \<Rightarrow> user_stats" where
  "getStats s u = (case uStats s u of Some t \<Rightarrow> t | None \<Rightarrow> zero_stats)"

definition bumpStats :: "unix_sec \<Rightarrow> user_id \<Rightarrow> (user_stats \<Rightarrow> user_stats) \<Rightarrow> users \<Rightarrow> users" where
  "bumpStats now u f s =
     (if u = 0 then s
      else let t = (case uStats s u of Some t \<Rightarrow> t | None \<Rightarrow> zero_stats\<lparr>tFirstSeenUnix := now\<rparr>)
           in s\<lparr>uStats := (uStats s)(u \<mapsto> (f t)\<lparr>tLastSeenUnix := now\<rparr>)\<rparr>)"

definition count_cancel :: "user_stats \<Rightarrow> user_stats" where
  "count_cancel t = t\<lparr>tCancels := tCancels t + 1\<rparr>"

subsection \<open>Admins, bans and donors\<close>

definition isAdmin :: "users \<Rightarrow> user_id \<Rightarrow> bool" where
  "isAdmin s u = (u \<noteq> 0 \<and> u \<in> uAdmins s)"

definition setAdminLock :: "bool \<Rightarrow> string \<Rightarrow> users \<Rightarrow> users" where
  "setAdminLock on reason s =
     s\<lparr>uAdminLock := on, uLockReason := (if on then trim_space reason else [])\<rparr>"

definition isBlockedUser :: "users \<Rightarrow> user_id \<Rightarrow> string \<Rightarrow> bool" where
  "isBlockedUser s u username =
     (if isAdmin s u then False
      else if u \<noteq> 0 \<and> u \<in> uBlockedIDs s then True
      else username \<noteq> [] \<and> to_lower username \<in> uBlockedNames s)"

definition setUserBlocked :: "user_id \<Rightarrow> string \<Rightarrow> bool \<Rightarrow> users \<Rightarrow> users" where
  "setUserBlocked i username0 blocked s =
     (let username = name_key username0 in
      if blocked then
        (let s1 = (if i \<noteq> 0 then s\<lparr>uBlockedIDs := insert i (uBlockedIDs s)\<rparr> else s)
         in if username \<noteq> [] then s1\<lparr>uBlockedNames := insert username (uBlockedNames s1)\<rparr> else s1)
      else
        (let s1 = (if i \<noteq> 0 then s\<lparr>uBlockedIDs := uBlockedIDs s - {i},
                                   uBlockNotified := uBlockNotified s - {i}\<rparr> else s)
         in if username \<noteq> [] then s1\<lparr>uBlockedNames := uBlockedNames s1 - {username}\<rparr> else s1))"

definition markBlockNotified :: "user_id \<Rightarrow> users \<Rightarrow> bool \<times> users" where
  "markBlockNotified u s =
     (if u = 0 \<or> u \<in> uBlockNotified s then (False, s)
      else (True, s\<lparr>uBlockNotified := insert u (uBlockNotified s)\<rparr>))"

definition isUserDonor :: "users \<Rightarrow> user_id \<Rightarrow> string \<Rightarrow> bool" where
  "isUserDonor s u username =
     (u \<noteq> 0 \<and> u \<in> uDonorIDs s \<or> username \<noteq> [] \<and> to_lower username \<in> uDonorNames s)"

definition setUserDonor :: "user_id \<Rightarrow> string \<Rightarrow> bool \<Rightarrow> users \<Rightarrow> users" where
  "setUserDonor i username0 donor s =
     (let username = name_key username0 in
      if donor then
        (let s1 = (if i \<noteq> 0 then s\<lparr>uDonorIDs := insert i (uDonorIDs s)\<rparr> else s)
         in if username \<noteq> [] then s1\<lparr>uDonorNames := insert username (uDonorNames s1)\<rparr> else s1)
      else
        (let s1 = (if i \<noteq> 0 then s\<lparr>uDonorIDs := uDonorIDs s - {i}\<rparr> else s)
         in if username \<noteq> [] then s1\<lparr>uDonorNames := uDonorNames s1 - {username}\<rparr> else s1))"

definition donorStar :: "users \<Rightarrow> user_id \<Rightarrow> string \<Rightarrow> string" where
  "donorStar s u username =
     (if isUserDonor s u username then [CHR 0xE2, CHR 0xAD, CHR 0x90, CHR '' ''] else [])"

definition parseUserRef :: "string \<Rightarrow> user_id \<times> string" where
  "parseUserRef s0 =
     (let s = trim_space (trim_prefix (trim_space s0) ''@'')
      in if s = [] then (0, [])
         else case parse_int64 s of
                (n, None) \<Rightarrow> (n, [])
              | (n, Some e) \<Rightarrow> (0, to_lower s))"

definition formatUserRef :: "user_id \<Rightarrow> string \<Rightarrow> string" where
  "formatUserRef i username = (if username \<noteq> [] then ''@'' @ username else ''user '' @ itoa i)"

definition heavyRipLimit :: "string \<Rightarrow> bool \<Rightarrow> int" where
  "heavyRipLimit kind donor =
     (if kind = ''playlist'' then (if donor then 3 else 2) else (if donor then 2 else 1))"


subsection \<open>Commands and the file behind them\<close>

datatype user_cmd =
    SetPrefs unix_sec user_id "user_prefs \<Rightarrow> user_prefs"
  | ResetPrefs user_id
  | BumpStats unix_sec user_id "user_stats \<Rightarrow> user_stats"
  | SetAdminLock bool string
  | SetRestriction bool
  | SetUserBlocked user_id string bool
  | SetUserDonor user_id string bool
  | MarkBlockNotified user_id

definition setRestriction :: "bool \<Rightarrow> users \<Rightarrow> users" where
  "setRestriction on s = s\<lparr>uRestriction := on\<rparr>"

text \<open>What a command does to the state, and whether it ends with \<^verbatim>\<open>saveStateLocked\<close>.\<close>

fun apply_cmd :: "user_cmd \<Rightarrow> users \<Rightarrow> users \<times> bool" where
  "apply_cmd (SetPrefs now u f) s = (setPrefs now u f s, True)"
| "apply_cmd (ResetPrefs u) s = (resetPrefs u s, hasPrefs s u)"
| "apply_cmd (BumpStats now u f) s = (bumpStats now u f s, u \<noteq> 0)"
| "apply_cmd (SetAdminLock on r) s = (setAdminLock on r s, True)"
| "apply_cmd (SetRestriction on) s = (setRestriction on s, True)"
| "apply_cmd (SetUserBlocked i n b) s = (setUserBlocked i n b s, True)"
| "apply_cmd (SetUserDonor i n b) s = (setUserDonor i n b s, True)"
| "apply_cmd (MarkBlockNotified u) s = (snd (markBlockNotified u s), False)"

definition run_cmd ::
  "bool \<Rightarrow> (user_id set \<Rightarrow> user_id list) \<Rightarrow> (string set \<Rightarrow> string list) \<Rightarrow> user_cmd \<Rightarrow> users \<times> disk \<Rightarrow> users \<times> disk" where
  "run_cmd up ids names cmd sd =
     (let (s', save) = apply_cmd cmd (fst sd)
      in (s', if save then saveState up ids names s' (snd sd) else snd sd))"

definition key_ok :: "string \<Rightarrow> bool" where
  "key_ok n = (n \<noteq> [] \<and> trimmed n \<and> to_lower n = n)"

definition users_ok :: "users \<Rightarrow> bool" where
  "users_ok s = (finite (uBlockedIDs s) \<and> finite (uDonorIDs s) \<and> finite (uBlockedNames s) \<and> finite (uDonorNames s) \<and>
     0 \<notin> uBlockedIDs s \<and> 0 \<notin> uDonorIDs s \<and> (\<forall>n\<in>uBlockedNames s. key_ok n) \<and> (\<forall>n\<in>uDonorNames s. key_ok n))"

lemma key_ok_name_key: "name_key n \<noteq> [] \<Longrightarrow> key_ok (name_key n)"
  by (simp add: key_ok_def name_key_def)

lemma name_key_ok [simp]: "key_ok n \<Longrightarrow> name_key n = n"
  by (simp add: key_ok_def name_key_def trim_space_trimmed [symmetric])

lemma load_ids_id: "set xs = A \<Longrightarrow> 0 \<notin> A \<Longrightarrow> load_ids xs = A"
  by (auto simp: load_ids_def)

lemma load_names_id: "set xs = A \<Longrightarrow> \<forall>n\<in>A. key_ok n \<Longrightarrow> load_names xs = A"
  by (force simp: load_names_def key_ok_def [of "[]"] image_iff)

lemma apply_cmd_ok [step_inv]: "users_ok s \<Longrightarrow> users_ok (fst (apply_cmd cmd s))"
  by (cases cmd)
     (auto simp: users_ok_def setPrefs_def resetPrefs_def bumpStats_def setAdminLock_def setRestriction_def
       setUserBlocked_def setUserDonor_def markBlockNotified_def Let_def key_ok_name_key)

text \<open>A command that does not save leaves everything the file holds as it was.\<close>

lemma unsaved_payload:
  "\<not> snd (apply_cmd cmd s) \<Longrightarrow> stateFilePayload ids names (fst (apply_cmd cmd s)) = stateFilePayload ids names s"
  by (cases cmd) (auto simp: stateFilePayload_def resetPrefs_def hasPrefs_def bumpStats_def markBlockNotified_def)

lemma run_cmds_synced:
  assumes "kState (snd sd) = Json (stateFilePayload ids names (fst sd))" "users_ok (fst sd)"
  shows "kState (snd (fold (run_cmd True ids names) cmds sd))
           = Json (stateFilePayload ids names (fst (fold (run_cmd True ids names) cmds sd))) \<and>
         users_ok (fst (fold (run_cmd True ids names) cmds sd))"
  using assms
proof (induction cmds arbitrary: sd)
  case (Cons cmd cmds)
  obtain s' b where a: "apply_cmd cmd (fst sd) = (s', b)" by fastforce
  have "users_ok s'" using apply_cmd_ok [OF Cons.prems(2), of cmd] a by simp
  moreover have "kState (snd (run_cmd True ids names cmd sd)) = Json (stateFilePayload ids names s')"
    using a Cons.prems(1) unsaved_payload [of cmd "fst sd" ids names]
    by (simp add: run_cmd_def saveState_def)
  moreover have "fst (run_cmd True ids names cmd sd) = s'" using a by (simp add: run_cmd_def)
  ultimately show ?case using Cons.IH [of "run_cmd True ids names cmd sd"] by simp
qed simp


definition no_users :: users where
  "no_users = \<lparr>uAdmins = {1}, uAdminLock = False, uLockReason = [], uRestriction = False, uJobs = [],
     uPrefs = Map.empty, uStats = Map.empty, uBlockedIDs = {}, uBlockedNames = {}, uBlockNotified = {},
     uDonorIDs = {}, uDonorNames = {}\<rparr>"


text \<open>
  A ban by id or by handle takes effect for exactly the users it names, whatever the case
  of their handle, and never for an admin.
\<close>

theorem ban_names_its_users:
  "isBlockedUser (setUserBlocked i name True s) u username \<longleftrightarrow>
     \<not> isAdmin s u \<and>
     (isBlockedUser s u username \<or> u = i \<and> u \<noteq> 0 \<or>
      username \<noteq> [] \<and> to_lower username = name_key name)"
  by (auto simp: isBlockedUser_def setUserBlocked_def isAdmin_def Let_def name_key_def split: if_splits)

lemma setUserDonor_frame [frame_simps]:
  "isAdmin (setUserDonor i n b s) = isAdmin s" "uRestriction (setUserDonor i n b s) = uRestriction s"
  by (auto simp: setUserDonor_def isAdmin_def Let_def fun_eq_iff)

lemma setUserDonor_donor:
  "isUserDonor (setUserDonor i name True s) u username \<longleftrightarrow>
     isUserDonor s u username \<or> u = i \<and> u \<noteq> 0 \<or> username \<noteq> [] \<and> to_lower username = name_key name"
  by (auto simp: isUserDonor_def setUserDonor_def Let_def name_key_def split: if_splits)

end
