(* ===== verification/Go_Float.thy ===== *)
theory Go_Float
  imports Go_Strings
begin

section \<open>Formatting float64 quotients\<close>

text \<open>
  The program turns a sample rate into kHz with \<^verbatim>\<open>float64(hz)/1000\<close> and prints the result
  with \<^verbatim>\<open>%.3g\<close> (captions) or \<^verbatim>\<open>FormatFloat(.., 'f', 1, 64)\<close> (the quality card).  Both the
  conversion and the division round to the nearest double (ties to even); printing rounds
  the exact binary value to decimal digits, again ties to even.  A positive double is kept
  as an exact fraction of naturals.
\<close>

definition round_half_even :: "nat \<Rightarrow> nat \<Rightarrow> nat" where
  "round_half_even a b =
     (let q = a div b; r = a mod b
      in if 2 * r < b then q else if b < 2 * r then q + 1 else if even q then q else q + 1)"

fun bit_len :: "nat \<Rightarrow> nat" where
  "bit_len n = (if n = 0 then 0 else Suc (bit_len (n div 2)))"

declare bit_len.simps [simp del]

text \<open>\<open>scaled a e b\<close> is \<open>a * 2 ^ e / b\<close> as a fraction, for an integer exponent.\<close>

definition scaled :: "nat \<Rightarrow> int \<Rightarrow> nat \<Rightarrow> nat \<times> nat" where
  "scaled a e b = (if 0 \<le> e then (a * 2 ^ nat e, b) else (a, b * 2 ^ nat (- e)))"

definition to_double :: "nat \<Rightarrow> nat \<Rightarrow> nat \<times> nat" where
  "to_double a b =
     (let t = int (bit_len a) - int (bit_len b);
          (x, y) = scaled a (- t) b;
          l = (if y \<le> x then t else t - 1);
          (u, v) = scaled a (52 - l) b
      in scaled (round_half_even u v) (l - 52) 1)"

text \<open>\<^verbatim>\<open>float64(hz) / 1000\<close> for a positive \<^verbatim>\<open>hz\<close>.\<close>

definition khz_double :: "nat \<Rightarrow> nat \<times> nat" where
  "khz_double hz = (let (a, b) = to_double hz 1 in to_double a (b * 1000))"

text \<open>\<^verbatim>\<open>strconv.FormatFloat(x, 'f', 1, 64)\<close>.\<close>

definition format_f1 :: "nat \<times> nat \<Rightarrow> string" where
  "format_f1 x = (let d = round_half_even (fst x * 10) (snd x)
                  in nat_digits (d div 10) @ ''.'' @ nat_digits (d mod 10))"

text \<open>\<^verbatim>\<open>fmt.Sprintf("%.3g", x)\<close>: three significant digits, trailing zeros dropped.\<close>

definition format_g3 :: "nat \<times> nat \<Rightarrow> string" where
  "format_g3 x =
     (let a = fst x; b = snd x;
          e0 = int (length (nat_digits (a * 1000 div b))) - 4;
          d0 = (if e0 \<le> 2 then round_half_even (a * 10 ^ nat (2 - e0)) b
                else round_half_even a (b * 10 ^ nat (e0 - 2)));
          (d, e) = (if d0 = 1000 then (100, e0 + 1) else (d0, e0));
          ds = rev (dropWhile (\<lambda>c. c = CHR ''0'') (rev (nat_digits d)));
          nd = int (length ds); dp = e + 1;
          eprec = (if nd < 3 \<and> dp \<le> nd then nd else 3)
      in if e < -4 \<or> eprec \<le> e
         then take 1 ds @ (if 1 < nd then ''.'' @ drop 1 ds else []) @ ''e'' @
              (if e < 0 then ''-'' else ''+'') @
              (if \<bar>e\<bar> < 10 then ''0'' else []) @ nat_digits (nat \<bar>e\<bar>)
         else if dp \<le> 0 then ''0.'' @ replicate (nat (- dp)) CHR ''0'' @ ds
         else if nd \<le> dp then ds @ replicate (nat (dp - nd)) CHR ''0''
         else take (nat dp) ds @ ''.'' @ drop (nat dp) ds)"

definition float_char :: "char \<Rightarrow> bool" where
  "float_char c = (is_digit c \<or> c \<in> {CHR ''.'', CHR ''e'', CHR ''+'', CHR ''-''})"

definition float_text :: "string \<Rightarrow> bool" where
  "float_text s = (\<forall>c\<in>set s. float_char c)"

lemma digit_zero [simp]: "is_digit CHR ''0''"
  by (simp add: is_digit_def)

lemma float_text_simps [simp]:
  "float_text []" "float_text (c # s) = (float_char c \<and> float_text s)"
  "float_text (s @ t) = (float_text s \<and> float_text t)"
  "float_text (if b then s else t) = (if b then float_text s else float_text t)"
  by (auto simp: float_text_def)

lemma float_text_parts:
  "float_text s \<Longrightarrow> float_text (take n s)" "float_text s \<Longrightarrow> float_text (drop n s)"
  "float_text s \<Longrightarrow> float_text (rev (dropWhile P (rev s)))"
  by (auto simp: float_text_def dest: in_set_takeD in_set_dropD set_dropWhileD)

lemma float_text_digits [simp]: "float_text (nat_digits n)"
  using nat_digits_digits [of n] by (auto simp: list_all_iff float_text_def float_char_def)

lemma float_text_zeros [simp]: "float_text (replicate n CHR ''0'')"
  by (auto simp: float_text_def float_char_def)

lemma float_char_punct [simp]:
  "float_char CHR ''.''" "float_char CHR ''e''" "float_char CHR ''+''" "float_char CHR ''-''"
  "float_char CHR ''0''"
  by (simp_all add: float_char_def)

lemma float_text_format_g3: "float_text (format_g3 x)"
  unfolding format_g3_def Let_def split_def
  by (simp add: float_text_parts)

lemma format_examples:
  "format_g3 (khz_double 44100) = ''44.1''"
  "format_f1 (khz_double 44100) = ''44.1''"
  by (simp_all add: format_g3_def format_f1_def khz_double_def to_double_def scaled_def
      round_half_even_def bit_len.simps nat_digits.simps Let_def)

end
