(* ===== verification/Catalog_Meta.thy ===== *)
theory Catalog_Meta
  imports Go_Float
begin

section \<open>Catalog identity records and the caption grammar\<close>

text \<open>
  \<^verbatim>\<open>bot/catalog/meta.go\<close> and \<^verbatim>\<open>bot/catalog/caption.go\<close>: the \<^verbatim>\<open>TrackMeta\<close> record, the quality
  tier and variant key, and the dump caption that carries the record through Telegram
  (a human block and one machine-readable tag line), written by \<^verbatim>\<open>FormatCaption\<close> and read
  back by \<^verbatim>\<open>ParseCaption\<close>.
\<close>

subsection \<open>Records and tiers (meta.go)\<close>

record track_meta =
  mAppleTrackID :: int
  mAppleAlbumID :: int
  mAppleURL :: string
  mISRC :: string
  mTitle :: string
  mArtist :: string
  mAlbum :: string
  mFormat :: string
  mBitrate :: int
  mSampleRate :: int
  mBitDepth :: int
  mStorefront :: string
  mDurationSec :: int
  mSizeBytes :: int
  mKind :: string
  mLyricsSync :: string
  mCoverEmbedded :: bool
  mVariant :: string

text \<open>The Go zero value \<^verbatim>\<open>TrackMeta{}\<close>.\<close>

definition zero_meta :: track_meta where
  "zero_meta = \<lparr>mAppleTrackID = 0, mAppleAlbumID = 0, mAppleURL = [], mISRC = [], mTitle = [],
     mArtist = [], mAlbum = [], mFormat = [], mBitrate = 0, mSampleRate = 0, mBitDepth = 0,
     mStorefront = [], mDurationSec = 0, mSizeBytes = 0, mKind = [], mLyricsSync = [],
     mCoverEmbedded = False, mVariant = []\<rparr>"

definition KindTrack :: string where "KindTrack = ''track''"
definition KindAlbumZip :: string where "KindAlbumZip = ''album_zip''"

definition QualityTier :: "string \<Rightarrow> string" where
  "QualityTier fmt =
     (let f = to_lower (trim_space fmt)
      in if f = ''alac'' \<or> f = ''flac'' \<or> f = ''lossless'' then ''lossless''
         else if f = ''aac'' then ''aac''
         else if f = ''atmos'' then ''atmos''
         else [])"

definition VariantKey :: "track_meta \<Rightarrow> string" where
  "VariantKey m =
     (let tier = QualityTier (mFormat m) in if tier = [] then [] else ''v1|q='' @ tier)"

definition cacheable_variants :: "string set" where
  "cacheable_variants = {''v1|q=lossless'', ''v1|q=aac'', ''v1|q=atmos''}"

lemma QualityTier_range: "QualityTier f \<in> {[], ''lossless'', ''aac'', ''atmos''}"
  by (simp add: QualityTier_def Let_def)

lemma VariantKey_range: "VariantKey m = [] \<or> VariantKey m \<in> cacheable_variants"
  using QualityTier_range [of "mFormat m"]
  by (auto simp: VariantKey_def Let_def cacheable_variants_def)

lemma VariantKey_format: "mFormat a = mFormat b \<Longrightarrow> VariantKey a = VariantKey b"
  by (simp add: VariantKey_def)

subsection \<open>Writing a caption (FormatCaption)\<close>

definition captionTag :: string where "captionTag = ''#karenidx''"

definition note_glyph :: string where
  "note_glyph = [CHR 0xF0, CHR 0x9F, CHR 0x8E, CHR 0xB5]"

definition disc_glyph :: string where
  "disc_glyph = [CHR 0xF0, CHR 0x9F, CHR 0x92, CHR 0xBF]"

definition em_dash :: string where
  "em_dash = [CHR 0xE2, CHR 0x80, CHR 0x94]"

definition mid_dot :: string where
  "mid_dot = [CHR 0xC2, CHR 0xB7]"

definition dash_sep :: string where "dash_sep = '' '' @ em_dash @ '' ''"
definition dot_sep :: string where "dot_sep = '' '' @ mid_dot @ '' ''"
definition nl :: string where "nl = [CHR 0x0A]"

definition canonicalKind :: "string \<Rightarrow> string" where
  "canonicalKind k = (if k = [] then KindTrack else k)"

definition canonicalLyrics :: "string \<Rightarrow> string" where
  "canonicalLyrics l = (if l = [] then ''none'' else l)"

definition writeTok :: "string \<Rightarrow> string \<Rightarrow> string \<Rightarrow> string" where
  "writeTok key val omitDefault =
     (if val = [] \<or> val = omitDefault then [] else '' '' @ key @ ''='' @ val)"

definition writeStr :: "string \<Rightarrow> string \<Rightarrow> string" where
  "writeStr key val = (if val = [] then [] else '' '' @ key @ ''='' @ val)"

definition writeInt :: "string \<Rightarrow> int \<Rightarrow> string" where
  "writeInt key val = (if val = 0 then [] else '' '' @ key @ ''='' @ itoa val)"

definition humanQuality :: "track_meta \<Rightarrow> string" where
  "humanQuality m =
     (if mFormat m = ''aac'' then
        (if 0 < mBitrate m then itoa (mBitrate m) @ ''kbps'' else [])
      else if 0 < mBitDepth m \<and> 0 < mSampleRate m then
        itoa (mBitDepth m) @ ''-bit/'' @ format_g3 (khz_double (nat (mSampleRate m))) @ ''kHz''
      else [])"

definition human_block :: "track_meta \<Rightarrow> string" where
  "human_block m =
     (if mTitle m \<noteq> [] \<or> mArtist m \<noteq> []
      then note_glyph @ '' '' @ mTitle m @
           (if mArtist m \<noteq> [] then dash_sep @ mArtist m else []) @ nl
      else []) @
     (if mAlbum m \<noteq> []
      then disc_glyph @ '' '' @ mAlbum m @
           (let up = to_upper (mFormat m)
            in if up \<noteq> [] then dot_sep @ up @
                  (let q = humanQuality m in if q \<noteq> [] then '' '' @ q else [])
               else []) @ nl
      else []) @ nl"

definition tag_line :: "track_meta \<Rightarrow> string" where
  "tag_line m =
     captionTag @ '' v='' @ itoa 1 @
     writeTok ''kind'' (canonicalKind (mKind m)) KindTrack @
     writeInt ''adam'' (mAppleTrackID m) @
     writeInt ''album'' (mAppleAlbumID m) @
     writeStr ''isrc'' (mISRC m) @
     writeStr ''fmt'' (mFormat m) @
     writeInt ''br'' (mBitrate m) @
     writeInt ''sr'' (mSampleRate m) @
     writeInt ''bd'' (mBitDepth m) @
     writeStr ''sf'' (mStorefront m) @
     writeInt ''dur'' (mDurationSec m) @
     writeInt ''sz'' (mSizeBytes m) @
     writeTok ''lrc'' (canonicalLyrics (mLyricsSync m)) ''none'' @
     (if mCoverEmbedded m then '' cov=1'' else []) @
     writeStr ''var'' (mVariant m)"

definition FormatCaption :: "track_meta \<Rightarrow> string" where
  "FormatCaption m = human_block m @ tag_line m"

subsection \<open>Reading a caption (ParseCaption)\<close>

definition findTagLine :: "string \<Rightarrow> string" where
  "findTagLine s =
     (case find (\<lambda>line. has_prefix line captionTag) (map trim_space (split_byte CHR 0x0A s)) of
        None \<Rightarrow> [] | Some line \<Rightarrow> line)"

fun parse_toks :: "string list \<Rightarrow> (string \<rightharpoonup> string) \<Rightarrow> (string \<rightharpoonup> string)" where
  "parse_toks [] kv = kv"
| "parse_toks (tok # toks) kv =
     (if tok = captionTag then parse_toks toks kv
      else (case cut_byte CHR ''='' tok of (k, v, ok) \<Rightarrow>
              parse_toks toks (if ok then kv(k \<mapsto> v) else kv)))"

definition parseTagLine :: "string \<Rightarrow> (string \<rightharpoonup> string)" where
  "parseTagLine line = parse_toks (go_fields line) Map.empty"

definition kv_get :: "(string \<rightharpoonup> string) \<Rightarrow> string \<Rightarrow> string" where
  "kv_get kv k = (case kv k of None \<Rightarrow> [] | Some v \<Rightarrow> v)"

definition valueOr :: "(string \<rightharpoonup> string) \<Rightarrow> string \<Rightarrow> string \<Rightarrow> string" where
  "valueOr kv key d = (case kv key of Some v \<Rightarrow> if v \<noteq> [] then v else d | None \<Rightarrow> d)"

definition atoi64 :: "string \<Rightarrow> int" where
  "atoi64 s = fst (parse_int64 s)"

text \<open>One line of the human block updates the (title, artist, album) found so far.\<close>

definition human_line :: "string \<times> string \<times> string \<Rightarrow> string \<Rightarrow> string \<times> string \<times> string" where
  "human_line acc line0 =
     (case acc of (title, artist, album) \<Rightarrow>
      let line = trim_space line0 in
      if has_prefix line note_glyph then
        (let rest = trim_space (trim_prefix line note_glyph) in
         case index_of rest dash_sep of
           Some i \<Rightarrow> (trim_space (take i rest), trim_space (drop (i + length dash_sep) rest), album)
         | None \<Rightarrow> (rest, artist, album))
      else if has_prefix line disc_glyph then
        (let rest = trim_space (trim_prefix line disc_glyph) in
         case last_index_of rest dot_sep of
           Some i \<Rightarrow> (title, artist, trim_space (take i rest))
         | None \<Rightarrow> (title, artist, rest))
      else acc)"

definition parseHumanBlock :: "string \<Rightarrow> string \<times> string \<times> string" where
  "parseHumanBlock s = foldl human_line ([], [], []) (split_byte CHR 0x0A s)"

definition meta_of_kv :: "(string \<rightharpoonup> string) \<Rightarrow> track_meta" where
  "meta_of_kv kv = zero_meta\<lparr>
     mKind := valueOr kv ''kind'' KindTrack,
     mAppleTrackID := atoi64 (kv_get kv ''adam''),
     mAppleAlbumID := atoi64 (kv_get kv ''album''),
     mISRC := kv_get kv ''isrc'',
     mFormat := kv_get kv ''fmt'',
     mBitrate := atoi64 (kv_get kv ''br''),
     mSampleRate := atoi64 (kv_get kv ''sr''),
     mBitDepth := atoi64 (kv_get kv ''bd''),
     mStorefront := kv_get kv ''sf'',
     mDurationSec := atoi64 (kv_get kv ''dur''),
     mSizeBytes := atoi64 (kv_get kv ''sz''),
     mLyricsSync := valueOr kv ''lrc'' ''none'',
     mCoverEmbedded := (kv_get kv ''cov'' = ''1''),
     mVariant := kv_get kv ''var''\<rparr>"

definition ParseCaption :: "string \<Rightarrow> track_meta option" where
  "ParseCaption s =
     (let tagLine = findTagLine s in
      if tagLine = [] then None
      else let m = meta_of_kv (parseTagLine tagLine);
               m1 = (if mVariant m = [] then m\<lparr>mVariant := VariantKey m\<rparr> else m);
               (title, artist, album) = parseHumanBlock s
           in Some (m1\<lparr>mTitle := title, mArtist := artist, mAlbum := album\<rparr>))"

subsection \<open>The tag line is read back\<close>

definition opt_pair :: "string \<Rightarrow> string \<Rightarrow> (string \<times> string) list" where
  "opt_pair k v = (if v = [] then [] else [(k, v)])"

definition int_text :: "int \<Rightarrow> string" where
  "int_text n = (if n = 0 then [] else itoa n)"

definition tok_text :: "string \<Rightarrow> string \<Rightarrow> string" where
  "tok_text d v = (if v = d then [] else v)"

definition tag_pairs :: "track_meta \<Rightarrow> (string \<times> string) list" where
  "tag_pairs m =
     (''v'', itoa 1) #
     opt_pair ''kind'' (tok_text KindTrack (canonicalKind (mKind m))) @
     opt_pair ''adam'' (int_text (mAppleTrackID m)) @
     opt_pair ''album'' (int_text (mAppleAlbumID m)) @
     opt_pair ''isrc'' (mISRC m) @
     opt_pair ''fmt'' (mFormat m) @
     opt_pair ''br'' (int_text (mBitrate m)) @
     opt_pair ''sr'' (int_text (mSampleRate m)) @
     opt_pair ''bd'' (int_text (mBitDepth m)) @
     opt_pair ''sf'' (mStorefront m) @
     opt_pair ''dur'' (int_text (mDurationSec m)) @
     opt_pair ''sz'' (int_text (mSizeBytes m)) @
     opt_pair ''lrc'' (tok_text ''none'' (canonicalLyrics (mLyricsSync m))) @
     opt_pair ''cov'' (if mCoverEmbedded m then ''1'' else []) @
     opt_pair ''var'' (mVariant m)"

definition show_pair :: "string \<times> string \<Rightarrow> string" where
  "show_pair p = fst p @ ''='' @ snd p"

lemma concat_opt_pair:
  "concat (map (\<lambda>w. CHR '' '' # w) (map show_pair (opt_pair k v)))
     = (if v = [] then [] else CHR '' '' # k @ ''='' @ v)"
  by (simp add: opt_pair_def show_pair_def)

lemma tag_line_pairs:
  "tag_line m = captionTag @ concat (map (\<lambda>w. CHR '' '' # w) (map show_pair (tag_pairs m)))"
  unfolding tag_line_def tag_pairs_def list.map map_append concat.simps concat_append concat_opt_pair
  by (simp add: show_pair_def writeTok_def writeStr_def writeInt_def
      tok_text_def int_text_def)

definition tag_fields_ok :: "track_meta \<Rightarrow> bool" where
  "tag_fields_ok m =
     (token (mISRC m) \<and> token (mFormat m) \<and> token (mStorefront m) \<and> token (mVariant m) \<and>
      token (mKind m) \<and> mKind m \<noteq> [] \<and> token (mLyricsSync m) \<and> mLyricsSync m \<noteq> [] \<and>
      (\<forall>n\<in>{mAppleTrackID m, mAppleAlbumID m, mBitrate m, mSampleRate m, mBitDepth m,
            mDurationSec m, mSizeBytes m}. int64_min \<le> n \<and> n \<le> int64_max))"

definition pair_ok :: "string \<times> string \<Rightarrow> bool" where
  "pair_ok p = (token (fst p) \<and> CHR ''='' \<notin> set (fst p) \<and> token (snd p))"

lemma pair_ok_opt: "token k \<Longrightarrow> CHR ''='' \<notin> set k \<Longrightarrow> token v \<Longrightarrow> list_all pair_ok (opt_pair k v)"
  by (simp add: opt_pair_def pair_ok_def)

lemma token_int_text [simp]: "token (int_text n)"
  by (simp add: int_text_def)

lemma token_tok_text: "token v \<Longrightarrow> token (tok_text d v)"
  by (simp add: tok_text_def)

lemma canonical_nonempty:
  "mKind m \<noteq> [] \<Longrightarrow> canonicalKind (mKind m) = mKind m"
  "mLyricsSync m \<noteq> [] \<Longrightarrow> canonicalLyrics (mLyricsSync m) = mLyricsSync m"
  by (simp_all add: canonicalKind_def canonicalLyrics_def)

lemma tag_pairs_ok:
  assumes "tag_fields_ok m"
  shows "list_all pair_ok (tag_pairs m)"
  unfolding tag_pairs_def list_all_append list.pred_inject(2)
  using assms
  by (intro conjI pair_ok_opt)
     (auto simp: tag_fields_ok_def pair_ok_def canonical_nonempty token_tok_text)

lemma captionTag_token [simp]: "token captionTag" and captionTag_nonempty [simp]: "captionTag \<noteq> []"
  by (simp_all add: captionTag_def)

lemma plain_byte_eq: "plain_byte CHR ''=''"
  by (simp add: plain_byte_def go_spaces_def)

lemma tag_line_fields:
  assumes "list_all pair_ok ps"
  shows "go_fields (captionTag @ concat (map (\<lambda>w. CHR '' '' # w) (map show_pair ps)))
    = captionTag # map show_pair ps"
  unfolding go_fields_def
proof (rule go_fields_tokens)
  show "\<forall>w\<in>set (map show_pair ps). plain w \<and> w \<noteq> []"
    using assms by (auto simp: list_all_iff pair_ok_def show_pair_def intro!: token_plain plain_byte_eq)
qed (simp_all add: token_plain)

definition put_opt :: "(string \<rightharpoonup> string) \<Rightarrow> string \<Rightarrow> string \<Rightarrow> (string \<rightharpoonup> string)" where
  "put_opt kv k v = (if v = [] then kv else kv(k \<mapsto> v))"

lemma kv_get_put_other: "k' \<noteq> k \<Longrightarrow> kv_get (put_opt kv k v) k' = kv_get kv k'"
  by (simp add: put_opt_def kv_get_def)

lemma kv_get_put_fresh: "kv_get kv k = [] \<Longrightarrow> kv_get (put_opt kv k v) k = v"
  by (simp add: put_opt_def kv_get_def)

lemma kv_get_empty [simp]: "kv_get Map.empty k = []"
  by (simp add: kv_get_def)

lemma valueOr_kv_get: "valueOr kv k d = (if kv_get kv k \<noteq> [] then kv_get kv k else d)"
  by (simp add: valueOr_def kv_get_def split: option.split)

lemma show_pair_not_tag: "show_pair p \<noteq> captionTag"
proof
  assume "show_pair p = captionTag"
  then have "CHR ''='' \<in> set captionTag" by (metis append_is_Nil_conv in_set_conv_decomp show_pair_def append_Cons append_Nil)
  then show False by (simp add: captionTag_def)
qed

lemma parse_toks_pair:
  "pair_ok p \<Longrightarrow> parse_toks (show_pair p # toks) kv = parse_toks toks (kv(fst p \<mapsto> snd p))"
  by (simp add: show_pair_not_tag pair_ok_def)
     (simp add: show_pair_def cut_byte_found)

lemma parse_toks_opt:
  assumes "list_all pair_ok (opt_pair k v @ ps)"
  shows "parse_toks (map show_pair (opt_pair k v @ ps)) kv = parse_toks (map show_pair ps) (put_opt kv k v)"
  using assms parse_toks_pair [of "(k, v)" "map show_pair ps" kv]
  by (auto simp: opt_pair_def put_opt_def)

lemma parse_toks_opt_last:
  assumes "list_all pair_ok (opt_pair k v)"
  shows "parse_toks (map show_pair (opt_pair k v)) kv = put_opt kv k v"
  using parse_toks_opt [of k v "[]" kv] assms by simp

lemma atoi64_int_text:
  "int64_min \<le> n \<Longrightarrow> n \<le> int64_max \<Longrightarrow> atoi64 (int_text n) = n"
  by (simp add: atoi64_def int_text_def parse_itoa) (simp add: parse_int64_def)

text \<open>The key-value map read from a tag line, one optional entry after the other.\<close>

definition kv_of_meta :: "track_meta \<Rightarrow> (string \<rightharpoonup> string)" where
  "kv_of_meta m =
     (let kv = Map.empty(''v'' \<mapsto> itoa 1);
          kv = put_opt kv ''kind'' (tok_text KindTrack (canonicalKind (mKind m)));
          kv = put_opt kv ''adam'' (int_text (mAppleTrackID m));
          kv = put_opt kv ''album'' (int_text (mAppleAlbumID m));
          kv = put_opt kv ''isrc'' (mISRC m);
          kv = put_opt kv ''fmt'' (mFormat m);
          kv = put_opt kv ''br'' (int_text (mBitrate m));
          kv = put_opt kv ''sr'' (int_text (mSampleRate m));
          kv = put_opt kv ''bd'' (int_text (mBitDepth m));
          kv = put_opt kv ''sf'' (mStorefront m);
          kv = put_opt kv ''dur'' (int_text (mDurationSec m));
          kv = put_opt kv ''sz'' (int_text (mSizeBytes m));
          kv = put_opt kv ''lrc'' (tok_text ''none'' (canonicalLyrics (mLyricsSync m)));
          kv = put_opt kv ''cov'' (if mCoverEmbedded m then ''1'' else [])
      in put_opt kv ''var'' (mVariant m))"

lemma parse_tag_pairs:
  assumes "list_all pair_ok (tag_pairs m)"
  shows "parse_toks (map show_pair (tag_pairs m)) Map.empty = kv_of_meta m"
proof -
  note ok = assms [unfolded tag_pairs_def list.pred_inject(2)]
  have hd: "pair_ok (''v'', itoa 1)" using ok by simp
  show ?thesis
    unfolding tag_pairs_def list.map(2) parse_toks_pair [OF hd] kv_of_meta_def Let_def fst_conv snd_conv
    using ok by (simp only: parse_toks_opt parse_toks_opt_last list_all_append simp_thms)
qed

lemma parseTagLine_tag_line:
  assumes "tag_fields_ok m"
  shows "parseTagLine (tag_line m) = kv_of_meta m"
  unfolding parseTagLine_def tag_line_pairs tag_line_fields [OF tag_pairs_ok [OF assms]]
  by (simp only: parse_toks.simps simp_thms if_True parse_tag_pairs [OF tag_pairs_ok [OF assms]])

lemma kv_get_single: "kv_get (Map.empty(k \<mapsto> v)) k' = (if k' = k then v else [])"
  by (simp add: kv_get_def)

lemma kv_get_kv_of_meta:
  "kv_get (kv_of_meta m) ''kind'' = tok_text KindTrack (canonicalKind (mKind m))"
  "kv_get (kv_of_meta m) ''adam'' = int_text (mAppleTrackID m)"
  "kv_get (kv_of_meta m) ''album'' = int_text (mAppleAlbumID m)"
  "kv_get (kv_of_meta m) ''isrc'' = mISRC m"
  "kv_get (kv_of_meta m) ''fmt'' = mFormat m"
  "kv_get (kv_of_meta m) ''br'' = int_text (mBitrate m)"
  "kv_get (kv_of_meta m) ''sr'' = int_text (mSampleRate m)"
  "kv_get (kv_of_meta m) ''bd'' = int_text (mBitDepth m)"
  "kv_get (kv_of_meta m) ''sf'' = mStorefront m"
  "kv_get (kv_of_meta m) ''dur'' = int_text (mDurationSec m)"
  "kv_get (kv_of_meta m) ''sz'' = int_text (mSizeBytes m)"
  "kv_get (kv_of_meta m) ''lrc'' = tok_text ''none'' (canonicalLyrics (mLyricsSync m))"
  "kv_get (kv_of_meta m) ''cov'' = (if mCoverEmbedded m then ''1'' else [])"
  "kv_get (kv_of_meta m) ''var'' = mVariant m"
  unfolding kv_of_meta_def Let_def
  by (simp_all only: kv_get_put_fresh kv_get_put_other kv_get_single list.inject char.inject
      simp_thms if_False list.distinct)

lemma meta_of_kv_of_meta:
  assumes "tag_fields_ok m"
  shows "meta_of_kv (kv_of_meta m) = m\<lparr>mAppleURL := [], mTitle := [], mArtist := [], mAlbum := []\<rparr>"
proof -
  have "mKind m \<noteq> []" "mLyricsSync m \<noteq> []" using assms by (simp_all add: tag_fields_ok_def)
  note can = canonical_nonempty(1) [OF this(1)] canonical_nonempty(2) [OF this(2)] this
  have r: "\<forall>n\<in>{mAppleTrackID m, mAppleAlbumID m, mBitrate m, mSampleRate m, mBitDepth m,
            mDurationSec m, mSizeBytes m}. atoi64 (int_text n) = n"
    using assms by (auto simp: tag_fields_ok_def intro!: atoi64_int_text)
  show ?thesis
    using can r
    by (simp add: meta_of_kv_def valueOr_kv_get kv_get_kv_of_meta zero_meta_def tok_text_def)
qed

subsection \<open>The human block is read back\<close>

definition human_ok :: "track_meta \<Rightarrow> bool" where
  "human_ok m =
     ((\<forall>s\<in>{mTitle m, mArtist m, mAlbum m}. trim_space s = s \<and> CHR 0x0A \<notin> set s) \<and>
      \<not> contains (mTitle m) em_dash \<and>
      (mTitle m = [] \<longrightarrow> mArtist m = []) \<and>
      (mFormat m = [] \<longrightarrow> \<not> contains (mAlbum m) dot_sep))"

lemma upper_byte_printable:
  assumes "33 \<le> (of_char c :: nat)" "(of_char c :: nat) \<le> 126"
  shows "33 \<le> (of_char (upper_byte c) :: nat) \<and> (of_char (upper_byte c) :: nat) \<le> 126"
  using assms by (auto simp: upper_byte_def)

lemma token_to_upper: "token s \<Longrightarrow> token (to_upper s)"
  using upper_byte_printable by (auto simp: token_def to_upper_def)

lemma to_upper_Nil_iff [simp]: "to_upper s = [] \<longleftrightarrow> s = []"
  by (simp add: to_upper_def)

lemma float_char_printable: "float_char c \<Longrightarrow> 33 \<le> (of_char c :: nat) \<and> (of_char c :: nat) \<le> 126"
  by (auto simp: float_char_def is_digit_def)

lemma token_float: "float_text s \<Longrightarrow> token s"
  using float_char_printable by (auto simp: float_text_def token_def)

lemma token_humanQuality: "token (humanQuality m)"
  by (simp add: humanQuality_def token_float [OF float_text_format_g3])

lemma index_of_dash:
  "index_of t em_dash = None \<Longrightarrow> index_of (t @ dash_sep @ r) dash_sep = Some (length t)"
proof (induction t)
  case Nil
  then show ?case by (simp add: dash_sep_def em_dash_def)
next
  case (Cons c t)
  then have IH: "index_of (t @ dash_sep @ r) dash_sep = Some (length t)"
    and no: "\<not> has_prefix t em_dash"
    by (cases t; auto split: if_splits simp: em_dash_def)+
  have "\<not> has_prefix (c # t @ dash_sep @ r) dash_sep"
    using no by (cases t rule: remdups_adj.cases; cases "tl (tl t)")
      (auto simp: dash_sep_def em_dash_def)
  with IH show ?case by simp
qed

lemma index_of_no_dash: "index_of t em_dash = None \<Longrightarrow> index_of t dash_sep = None"
proof (induction t)
  case Nil
  then show ?case by (simp add: dash_sep_def)
next
  case (Cons c t)
  then have "index_of t dash_sep = None" and no: "\<not> has_prefix t em_dash"
    by (cases t; auto split: if_splits simp: em_dash_def)+
  moreover have "\<not> has_prefix (c # t) dash_sep"
    using no by (auto simp: dash_sep_def has_prefix_iff)
  ultimately show ?case by simp
qed

lemma last_index_of_absent: "CHR 0xC2 \<notin> set s \<Longrightarrow> last_index_of s dot_sep = None"
proof (induction s)
  case (Cons c s)
  then show ?case by (cases s) (auto simp: dot_sep_def mid_dot_def)
qed (simp add: dot_sep_def)

lemma last_index_of_dot:
  assumes "CHR 0xC2 \<notin> set w"
  shows "last_index_of (s @ dot_sep @ w) dot_sep = Some (length s)"
proof (induction s)
  case Nil
  have "last_index_of (mid_dot @ '' '' @ w) dot_sep = None"
    using last_index_of_absent [OF assms] assms
    by (cases w) (auto simp: dot_sep_def mid_dot_def)
  then show ?case by (simp add: dot_sep_def mid_dot_def)
qed simp

lemma last_index_None_iff: "last_index_of s sub = None \<longleftrightarrow> index_of s sub = None"
  by (induction s) (auto split: option.split)

definition title_text :: "track_meta \<Rightarrow> string" where
  "title_text m = mTitle m @ (if mArtist m \<noteq> [] then dash_sep @ mArtist m else [])"

definition album_tail :: "track_meta \<Rightarrow> string" where
  "album_tail m = to_upper (mFormat m) @ (if humanQuality m \<noteq> [] then '' '' @ humanQuality m else [])"

definition album_text :: "track_meta \<Rightarrow> string" where
  "album_text m = mAlbum m @ (if mFormat m \<noteq> [] then dot_sep @ album_tail m else [])"

lemma human_block_lines:
  "human_block m =
     (if mTitle m \<noteq> [] \<or> mArtist m \<noteq> [] then (note_glyph @ '' '' @ title_text m) @ nl else []) @
     (if mAlbum m \<noteq> [] then (disc_glyph @ '' '' @ album_text m) @ nl else []) @ nl"
  by (simp add: human_block_def title_text_def album_text_def album_tail_def Let_def)

lemma trimmed_texts:
  assumes "human_ok m" "tag_fields_ok m"
  shows "trimmed (title_text m)" "mAlbum m \<noteq> [] \<Longrightarrow> trimmed (album_text m)"
proof -
  have t: "trimmed (mTitle m)" "trimmed (mArtist m)" "trimmed (mAlbum m)"
    using assms by (auto simp: human_ok_def trim_space_trimmed)
  show "trimmed (title_text m)"
  proof (cases "mArtist m = []")
    case True
    with t show ?thesis by (simp add: title_text_def)
  next
    case False
    with assms have "mTitle m \<noteq> []" by (auto simp: human_ok_def)
    with t False trimmed_before_space [of "mTitle m" "em_dash @ '' '' @ mArtist m"]
      trimmed_after_space [of "mArtist m" "mTitle m @ '' '' @ em_dash"]
    show ?thesis by (simp add: title_text_def trimmed_def dash_sep_def)
  qed
  assume ne: "mAlbum m \<noteq> []"
  show "trimmed (album_text m)"
  proof (cases "mFormat m = []")
    case True
    with t show ?thesis by (simp add: album_text_def)
  next
    case False
    then have up: "trimmed (to_upper (mFormat m))" "to_upper (mFormat m) \<noteq> []"
      using assms(2) by (auto simp: tag_fields_ok_def intro!: token_trimmed token_to_upper)
    have q: "trimmed (humanQuality m)" by (rule token_trimmed [OF token_humanQuality])
    have "strip_one (map rev go_spaces) (rev (album_text m)) = None"
      using False trimmed_after_space [OF up, of "mAlbum m @ '' '' @ mid_dot"]
        trimmed_after_space [OF q, of "mAlbum m @ dot_sep @ to_upper (mFormat m)"]
      by (simp add: album_text_def album_tail_def dot_sep_def)
    with False trimmed_before_space [OF t(3) ne, of "mid_dot @ '' '' @ album_tail m"]
    show ?thesis by (simp add: album_text_def trimmed_def dot_sep_def)
  qed
qed

lemma glyph_plain:
  "strip_one go_spaces (note_glyph @ s) = None" "strip_one go_spaces (disc_glyph @ s) = None"
  by (simp_all add: note_glyph_def disc_glyph_def go_spaces_def)

lemma trim_space_glyph:
  assumes "trimmed s" "s \<noteq> []"
  shows "trim_space (note_glyph @ CHR '' '' # s) = note_glyph @ CHR '' '' # s"
    and "trim_space (disc_glyph @ CHR '' '' # s) = disc_glyph @ CHR '' '' # s"
  using trimmed_after_space [OF assms, of note_glyph] trimmed_after_space [OF assms, of disc_glyph]
  by (simp_all add: trim_space_trimmed trimmed_def glyph_plain)

lemma trim_space_lead [simp]: "trimmed s \<Longrightarrow> trim_space (CHR '' '' # s) = s"
  using trim_space_trimmed [of s] by (simp add: trim_space_def)

lemma human_line_title:
  assumes "human_ok m" "tag_fields_ok m" "mTitle m \<noteq> []"
  shows "human_line ([], [], b) (note_glyph @ '' '' @ title_text m) = (mTitle m, mArtist m, b)"
proof -
  have t: "trim_space (mTitle m) = mTitle m" "trim_space (mArtist m) = mArtist m"
    and no: "index_of (mTitle m) em_dash = None"
    using assms by (auto simp: human_ok_def contains_def)
  have tr: "trimmed (title_text m)" "title_text m \<noteq> []"
    using trimmed_texts [OF assms(1,2)] assms(3) by (auto simp: title_text_def)
  have step: "human_line ([], [], b) (note_glyph @ '' '' @ title_text m)
     = (case index_of (title_text m) dash_sep of
           Some i \<Rightarrow> (trim_space (take i (title_text m)),
                      trim_space (drop (i + length dash_sep) (title_text m)), b)
         | None \<Rightarrow> (title_text m, [], b))"
    using tr by (simp add: human_line_def trim_space_glyph Let_def trim_prefix_def)
  show ?thesis
  proof (cases "mArtist m = []")
    case True
    with step index_of_no_dash [OF no] show ?thesis by (simp add: title_text_def)
  next
    case False
    with step index_of_dash [OF no, of "mArtist m"] t show ?thesis by (simp add: title_text_def)
  qed
qed

lemma human_line_album:
  assumes "human_ok m" "tag_fields_ok m" "mAlbum m \<noteq> []"
  shows "human_line (t, a, b) (disc_glyph @ '' '' @ album_text m) = (t, a, mAlbum m)"
proof -
  have al: "trim_space (mAlbum m) = mAlbum m"
    using assms by (auto simp: human_ok_def)
  have tr: "trimmed (album_text m)" "album_text m \<noteq> []"
    using trimmed_texts [OF assms(1,2)] assms(3) by (auto simp: album_text_def)
  have notnote: "\<not> has_prefix (disc_glyph @ s) note_glyph" for s
    by (simp add: disc_glyph_def note_glyph_def)
  have step: "human_line (t, a, b) (disc_glyph @ '' '' @ album_text m)
     = (case last_index_of (album_text m) dot_sep of
           Some i \<Rightarrow> (t, a, trim_space (take i (album_text m)))
         | None \<Rightarrow> (t, a, album_text m))"
    using tr notnote by (simp add: human_line_def trim_space_glyph Let_def trim_prefix_def)
  show ?thesis
  proof (cases "mFormat m = []")
    case True
    with assms(1) have "last_index_of (mAlbum m) dot_sep = None"
      by (simp add: human_ok_def contains_def last_index_None_iff)
    with step True show ?thesis by (simp add: album_text_def)
  next
    case False
    have "token (to_upper (mFormat m))"
      using assms(2) by (simp add: tag_fields_ok_def token_to_upper)
    then have "CHR 0xC2 \<notin> set (album_tail m)"
      using token_no [of "to_upper (mFormat m)" "CHR 0xC2"] token_humanQuality [THEN token_no, of "CHR 0xC2" m]
      by (simp add: album_tail_def)
    with step False last_index_of_dot [of "album_tail m" "mAlbum m"] al show ?thesis
      by (simp add: album_text_def)
  qed
qed

subsection \<open>The caption as a whole\<close>

lemma token_no_newline: "token s \<Longrightarrow> CHR 0x0A \<notin> set s"
  by (rule token_no) simp_all

lemma human_no_newline:
  assumes "human_ok m" "tag_fields_ok m"
  shows "CHR 0x0A \<notin> set (note_glyph @ '' '' @ title_text m)"
    and "CHR 0x0A \<notin> set (disc_glyph @ '' '' @ album_text m)"
  using assms token_no_newline [OF token_humanQuality, of m]
    token_no_newline [of "to_upper (mFormat m)"] token_to_upper [of "mFormat m"]
  by (auto simp: human_ok_def tag_fields_ok_def title_text_def album_text_def album_tail_def
      note_glyph_def disc_glyph_def dash_sep_def em_dash_def dot_sep_def mid_dot_def)

lemma tag_line_no_newline:
  assumes "tag_fields_ok m"
  shows "CHR 0x0A \<notin> set (tag_line m)"
proof -
  have "\<forall>p\<in>set (tag_pairs m). CHR 0x0A \<notin> set (show_pair p)"
    using tag_pairs_ok [OF assms] token_no_newline
    by (auto simp: list_all_iff pair_ok_def show_pair_def)
  then show ?thesis by (auto simp: tag_line_pairs captionTag_def)
qed

lemma tag_line_trimmed:
  assumes "tag_fields_ok m"
  shows "trim_space (tag_line m) = tag_line m"
proof -
  have ps: "tag_pairs m \<noteq> []" by (simp add: tag_pairs_def)
  then obtain qs p where q: "tag_pairs m = qs @ [p]" by (metis rev_exhaust)
  with tag_pairs_ok [OF assms] have "pair_ok p" by simp
  then have "token (show_pair p)" "show_pair p \<noteq> []" by (simp_all add: pair_ok_def show_pair_def)
  then have "plain_end_byte (last (show_pair p))" by (rule token_end)
  moreover have "last (tag_line m) = last (show_pair p)"
    using \<open>show_pair p \<noteq> []\<close> by (simp add: tag_line_pairs q)
  moreover have "plain_byte (hd (tag_line m))"
    by (simp add: tag_line_pairs captionTag_def plain_byte_def go_spaces_def)
  moreover have "tag_line m \<noteq> []" by (simp add: tag_line_pairs)
  ultimately show ?thesis by (simp add: trim_space_id)
qed

lemma caption_lines:
  assumes "human_ok m" "tag_fields_ok m"
  shows "split_byte CHR 0x0A (FormatCaption m) =
     (if mTitle m \<noteq> [] \<or> mArtist m \<noteq> [] then [note_glyph @ '' '' @ title_text m] else []) @
     (if mAlbum m \<noteq> [] then [disc_glyph @ '' '' @ album_text m] else []) @ [[], tag_line m]"
proof -
  have nl: "split_byte CHR 0x0A (nl @ tag_line m) = [[], tag_line m]"
    using split_byte_no_sep [OF tag_line_no_newline [OF assms(2)]] by (simp add: nl_def)
  have t: "split_byte CHR 0x0A ((note_glyph @ '' '' @ title_text m) @ nl @ r)
      = (note_glyph @ '' '' @ title_text m) # split_byte CHR 0x0A r" for r
    using split_byte_append [OF human_no_newline(1) [OF assms], of r] by (simp add: nl_def)
  have a: "split_byte CHR 0x0A ((disc_glyph @ '' '' @ album_text m) @ nl @ r)
      = (disc_glyph @ '' '' @ album_text m) # split_byte CHR 0x0A r" for r
    using split_byte_append [OF human_no_newline(2) [OF assms], of r] by (simp add: nl_def)
  show ?thesis
    using t [of "(disc_glyph @ '' '' @ album_text m) @ nl @ nl @ tag_line m"] t [of "nl @ tag_line m"]
      a [of "nl @ tag_line m"] nl
    by (simp add: FormatCaption_def human_block_lines)
qed

lemma glyph_not_tag:
  "\<not> has_prefix (note_glyph @ s) captionTag" "\<not> has_prefix (disc_glyph @ s) captionTag"
  by (simp_all add: note_glyph_def disc_glyph_def captionTag_def)

lemma tag_no_prefix: "\<not> has_prefix [] captionTag"
  "\<not> has_prefix (tag_line m) note_glyph" "\<not> has_prefix (tag_line m) disc_glyph"
  by (simp_all add: captionTag_def tag_line_pairs note_glyph_def disc_glyph_def)

lemma trim_space_Nil [simp]: "trim_space [] = []"
  by (simp add: trim_space_trimmed)

lemma findTagLine_caption:
  assumes "human_ok m" "tag_fields_ok m"
  shows "findTagLine (FormatCaption m) = tag_line m"
proof -
  have "title_text m \<noteq> []" if "mTitle m \<noteq> [] \<or> mArtist m \<noteq> []"
    using that by (auto simp: title_text_def dash_sep_def)
  moreover have "album_text m \<noteq> []" if "mAlbum m \<noteq> []"
    using that by (simp add: album_text_def)
  moreover have "has_prefix (tag_line m) captionTag" by (simp add: tag_line_pairs)
  ultimately show ?thesis
    using trimmed_texts [OF assms]
    by (auto simp: findTagLine_def caption_lines [OF assms] trim_space_glyph glyph_not_tag
        tag_line_trimmed [OF assms(2)] tag_no_prefix)
qed

lemma human_line_other:
  "human_line acc [] = acc" "tag_fields_ok m \<Longrightarrow> human_line acc (tag_line m) = acc"
proof -
  show "human_line acc [] = acc"
    by (cases acc) (simp add: human_line_def note_glyph_def disc_glyph_def)
  show "tag_fields_ok m \<Longrightarrow> human_line acc (tag_line m) = acc"
    by (cases acc) (simp add: human_line_def tag_line_trimmed tag_no_prefix Let_def)
qed

lemma parseHumanBlock_caption:
  assumes "human_ok m" "tag_fields_ok m"
  shows "parseHumanBlock (FormatCaption m) = (mTitle m, mArtist m, mAlbum m)"
proof -
  have "mTitle m = [] \<Longrightarrow> mArtist m = []" using assms(1) by (simp add: human_ok_def)
  then show ?thesis
    using human_line_title [OF assms] human_line_album [OF assms]
    by (cases "mTitle m = []"; cases "mAlbum m = []")
       (simp_all add: parseHumanBlock_def caption_lines [OF assms] human_line_other assms(2))
qed

definition caption_ok :: "track_meta \<Rightarrow> bool" where
  "caption_ok m =
     (human_ok m \<and> tag_fields_ok m \<and> mAppleURL m = [] \<and> (mVariant m = [] \<longrightarrow> VariantKey m = []))"

definition sample_meta :: track_meta where
  "sample_meta = zero_meta\<lparr>mAppleTrackID := 1440913903, mAppleAlbumID := 1440913166,
     mISRC := ''USUM71807062'', mTitle := ''Title One'', mArtist := ''Some Artist'',
     mAlbum := ''The Album'', mFormat := ''alac'', mSampleRate := 44100, mBitDepth := 24,
     mStorefront := ''us'', mDurationSec := 213, mSizeBytes := 41234567, mKind := ''track'',
     mLyricsSync := ''word'', mCoverEmbedded := True, mVariant := ''v1|q=lossless''\<rparr>"

text \<open>
  C10: A dump caption loses nothing: for every record whose ids, enums and numbers are
  ordinary tokens and whose title, artist and album are trimmed one-line texts without the
  block's own separators, \<^verbatim>\<open>ParseCaption(FormatCaption(m))\<close> is exactly \<^verbatim>\<open>m\<close>.
\<close>

theorem caption_roundtrip:
  assumes "caption_ok m"
  shows "ParseCaption (FormatCaption m) = Some m"
proof -
  have ok: "human_ok m" "tag_fields_ok m" "mAppleURL m = []" "mVariant m = [] \<longrightarrow> VariantKey m = []"
    using assms by (simp_all add: caption_ok_def)
  have tag: "tag_line m \<noteq> []" by (simp add: tag_line_pairs)
  let ?m = "m\<lparr>mAppleURL := [], mTitle := [], mArtist := [], mAlbum := []\<rparr>"
  have "VariantKey ?m = VariantKey m" by (simp add: VariantKey_def)
  with ok tag show ?thesis
    by (auto simp: ParseCaption_def findTagLine_caption parseTagLine_tag_line meta_of_kv_of_meta
        parseHumanBlock_caption Let_def)
qed

theorem caption_roundtrip_witness:
  "caption_ok sample_meta \<and> ParseCaption (FormatCaption sample_meta) = Some sample_meta"
proof -
  have h: "caption_ok sample_meta"
    by (simp add: caption_ok_def human_ok_def tag_fields_ok_def sample_meta_def zero_meta_def
        trim_space_trimmed trimmed_def go_spaces_def contains_def em_dash_def int64_min_def int64_max_def)
  show ?thesis using h caption_roundtrip [OF h] by simp
qed

end
