(* ===== verification/Catalog_Db.thy ===== *)
theory Catalog_Db
  imports Catalog_Meta "HOL-Library.AList"
begin

section \<open>The catalog tables\<close>

text \<open>
  \<^verbatim>\<open>bot/catalog/db.go\<close>, \<^verbatim>\<open>gofiledelivery.go\<close>, \<^verbatim>\<open>quota.go\<close> and \<^verbatim>\<open>indexer.go\<close>: the pointer rows
  over dump channels, the recorded Gofile links, the persisted quota charges, and the
  crawler that fills the pointer rows from a channel's history.  A table is a list of rows;
  each SQL statement of the source is the list operation it denotes.  Whether a statement
  fails is an argument (\<open>up\<close>), \<open>now\<close> is the server's clock.  A catalog without a pool is
  disabled, and every operation is then a miss or does nothing.
\<close>

subsection \<open>Rows\<close>

record track_row =
  rDump :: int
  rMsg :: int
  rKind :: string
  rAdam :: "int option"
  rAlbum :: "int option"
  rURL :: "string option"
  rISRC :: "string option"
  rStorefront :: "string option"
  rRest :: track_meta
  rFileUnique :: "string option"
  rCaption :: "string option"
  rIndexedAt :: int

record dump_row =
  dAccessHash :: int
  dTitle :: string
  dKind :: string
  dLastMsg :: int

record gofile_row =
  gContentKey :: string
  gKind :: string
  gContentID :: string
  gVariant :: string
  gLabel :: string
  gLink :: string
  gUserID :: int
  gUsername :: "string option"
  gCreatedAt :: int
  gExpiresAt :: int

record quota_row =
  qChargeID :: string
  qUserID :: int
  qKind :: string
  qDay :: int
  qState :: string
  qReleases :: int
  qDelivered :: int

record catalog =
  cEnabled :: bool
  cTracks :: "track_row list"
  cDumps :: "int \<rightharpoonup> dump_row"
  cGofile :: "gofile_row list"
  cQuota :: "quota_row list"

datatype db_error = DbError

definition nullI64 :: "int \<Rightarrow> int option" where
  "nullI64 v = (if v = 0 then None else Some v)"

definition nullStr :: "string \<Rightarrow> string option" where
  "nullStr s = (if s = [] then None else Some s)"

definition coalesce :: "'a \<Rightarrow> 'a option \<Rightarrow> 'a" where
  "coalesce d x = (case x of None \<Rightarrow> d | Some v \<Rightarrow> v)"

lemma coalesce_null [simp]: "coalesce 0 (nullI64 v) = v" "coalesce [] (nullStr s) = s"
  by (simp_all add: coalesce_def nullI64_def nullStr_def)

subsection \<open>Pointer rows: upsert and lookup\<close>

definition row_of :: "int \<Rightarrow> int \<Rightarrow> int \<Rightarrow> track_meta \<Rightarrow> string \<Rightarrow> string \<Rightarrow> track_row" where
  "row_of now dumpID msgID m fileUniqueID captionRaw =
     \<lparr>rDump = dumpID, rMsg = msgID, rKind = mKind m, rAdam = nullI64 (mAppleTrackID m),
      rAlbum = nullI64 (mAppleAlbumID m), rURL = nullStr (mAppleURL m), rISRC = nullStr (mISRC m),
      rStorefront = nullStr (mStorefront m), rRest = m, rFileUnique = nullStr fileUniqueID,
      rCaption = nullStr captionRaw, rIndexedAt = now\<rparr>"

definition row_key :: "track_row \<Rightarrow> int \<times> int" where
  "row_key r = (rDump r, rMsg r)"

text \<open>\<^verbatim>\<open>insert .. on conflict (dump_id, message_id) do update\<close>\<close>

fun put_row :: "track_row \<Rightarrow> track_row list \<Rightarrow> track_row list" where
  "put_row r [] = [r]"
| "put_row r (x # xs) = (if row_key x = row_key r then r # xs else x # put_row r xs)"

definition stored_meta :: "track_meta \<Rightarrow> track_meta" where
  "stored_meta m =
     (let m1 = (if mKind m = [] then m\<lparr>mKind := KindTrack\<rparr> else m);
          m2 = (if mVariant m1 = [] then m1\<lparr>mVariant := VariantKey m1\<rparr> else m1)
      in if mLyricsSync m2 = [] then m2\<lparr>mLyricsSync := ''none''\<rparr> else m2)"

definition UpsertTrack ::
  "bool \<Rightarrow> int \<Rightarrow> catalog \<Rightarrow> int \<Rightarrow> int \<Rightarrow> track_meta \<Rightarrow> string \<Rightarrow> string \<Rightarrow> db_error + catalog" where
  "UpsertTrack up now c dumpID msgID m fileUniqueID captionRaw =
     (if \<not> cEnabled c then Inr c
      else let s = stored_meta m in
        if mVariant s = [] then Inr c
        else if \<not> up then Inl DbError
        else Inr (c\<lparr>cTracks := put_row (row_of now dumpID msgID s fileUniqueID captionRaw) (cTracks c)\<rparr>))"

definition IndexInline :: "bool \<Rightarrow> int \<Rightarrow> catalog \<Rightarrow> int \<Rightarrow> int \<Rightarrow> track_meta \<Rightarrow> db_error + catalog" where
  "IndexInline up now c dumpID msgID m = UpsertTrack up now c dumpID msgID m [] (FormatCaption m)"

record hit =
  hDump :: int
  hMsg :: int
  hMeta :: track_meta

definition scanHit :: "track_row \<Rightarrow> hit" where
  "scanHit r = \<lparr>hDump = rDump r, hMsg = rMsg r,
     hMeta = (rRest r)\<lparr>mKind := rKind r, mAppleTrackID := coalesce 0 (rAdam r),
       mAppleAlbumID := coalesce 0 (rAlbum r), mAppleURL := coalesce [] (rURL r),
       mISRC := coalesce [] (rISRC r), mStorefront := coalesce [] (rStorefront r)\<rparr>\<rparr>"

text \<open>\<^verbatim>\<open>order by indexed_at desc limit 1\<close>: a row with the greatest stamp (the first one, among equals).\<close>

fun latest :: "track_row list \<Rightarrow> track_row option" where
  "latest [] = None"
| "latest (r # rs) =
     (case latest rs of None \<Rightarrow> Some r | Some s \<Rightarrow> Some (if rIndexedAt s \<le> rIndexedAt r then r else s))"

definition queryOne :: "bool \<Rightarrow> (track_row \<Rightarrow> bool) \<Rightarrow> catalog \<Rightarrow> db_error + hit option" where
  "queryOne up p c =
     (if \<not> up then Inl DbError else Inr (map_option scanHit (latest (filter p (cTracks c)))))"

definition Lookup :: "bool \<Rightarrow> catalog \<Rightarrow> string \<Rightarrow> int \<Rightarrow> string \<Rightarrow> string \<Rightarrow> db_error + hit option" where
  "Lookup up c kind0 adamID isrc variant =
     (if \<not> cEnabled c then Inr None
      else let kind = (if kind0 = [] then KindTrack else kind0);
               byIsrc = (if isrc \<noteq> []
                 then queryOne up (\<lambda>r. rISRC r = Some isrc \<and> rKind r = kind \<and> mVariant (rRest r) = variant) c
                 else Inr None)
           in if adamID \<noteq> 0 then
                (case queryOne up (\<lambda>r. rAdam r = Some adamID \<and> rKind r = kind \<and> mVariant (rRest r) = variant) c of
                   Inl e \<Rightarrow> Inl e
                 | Inr (Some h) \<Rightarrow> Inr (Some h)
                 | Inr None \<Rightarrow> byIsrc)
              else byIsrc)"

definition LookupAlbumZip :: "bool \<Rightarrow> catalog \<Rightarrow> int \<Rightarrow> string \<Rightarrow> db_error + hit option" where
  "LookupAlbumZip up c albumID variant =
     (if \<not> cEnabled c \<or> albumID = 0 then Inr None
      else queryOne up (\<lambda>r. rAlbum r = Some albumID \<and> rKind r = KindAlbumZip \<and> mVariant (rRest r) = variant) c)"

lemma latest_None [simp]: "latest rs = None \<longleftrightarrow> rs = []"
  by (cases rs) (auto split: option.split)

lemma latest_mem: "latest rs = Some r \<Longrightarrow> r \<in> set rs"
  by (induction rs arbitrary: r) (auto split: option.splits if_splits)

lemma latest_max: "latest rs = Some r \<Longrightarrow> s \<in> set rs \<Longrightarrow> rIndexedAt s \<le> rIndexedAt r"
  by (induction rs arbitrary: r s) (fastforce split: option.splits if_splits)+

lemma set_put_row: "set (put_row r rs) \<subseteq> insert r (set rs)"
  by (induction rs) auto

lemma put_row_mem: "r \<in> set (put_row r rs)"
  by (induction rs) auto

lemma put_row_other: "row_key s \<noteq> row_key r \<Longrightarrow> s \<in> set (put_row r rs) \<longleftrightarrow> s \<in> set rs"
  by (induction rs) auto

lemma keys_put_row: "row_key ` set (put_row r rs) = insert (row_key r) (row_key ` set rs)"
  by (induction rs) auto

lemma distinct_put_row:
  "distinct (map row_key rs) \<Longrightarrow> distinct (map row_key (put_row r rs))"
proof (induction rs)
  case (Cons x xs)
  then show ?case
    using keys_put_row [of r xs] by auto
qed simp

lemma put_row_same_key:
  "distinct (map row_key rs) \<Longrightarrow> s \<in> set (put_row r rs) \<Longrightarrow> row_key s = row_key r \<Longrightarrow> s = r"
  by (induction rs) (auto split: if_splits simp: image_iff)

text \<open>The table invariant: one row per message, and only cacheable tiers are stored.\<close>

definition catalog_ok :: "catalog \<Rightarrow> bool" where
  "catalog_ok c =
     (distinct (map row_key (cTracks c)) \<and>
      (\<forall>r\<in>set (cTracks c). mVariant (rRest r) \<noteq> [] \<and> rKind r = mKind (rRest r) \<and> rKind r \<noteq> [] \<and>
         rAdam r = nullI64 (mAppleTrackID (rRest r)) \<and> rISRC r = nullStr (mISRC (rRest r))))"

lemma stored_meta_kind [simp]: "mKind (stored_meta m) \<noteq> []"
  by (simp add: stored_meta_def Let_def KindTrack_def)

lemma UpsertTrack_ok [step_inv]:
  assumes "catalog_ok c" "UpsertTrack up now c d i m f cap = Inr c'"
  shows "catalog_ok c'"
proof (cases "c' = c")
  case True
  with assms show ?thesis by simp
next
  case False
  let ?r = "row_of now d i (stored_meta m) f cap"
  from assms(2) False have c': "c' = c\<lparr>cTracks := put_row ?r (cTracks c)\<rparr>" "mVariant (stored_meta m) \<noteq> []"
    by (auto simp: UpsertTrack_def Let_def split: if_splits)
  with assms(1) show ?thesis
    using set_put_row [of ?r "cTracks c"]
    by (auto simp: catalog_ok_def distinct_put_row row_of_def dest!: subsetD)
qed

lemma scanHit_row_of [simp]:
  "scanHit (row_of now d i m f cap) = \<lparr>hDump = d, hMsg = i, hMeta = m\<rparr>"
  by (simp add: scanHit_def row_of_def)

definition empty_catalog :: catalog where
  "empty_catalog = \<lparr>cEnabled = True, cTracks = [], cDumps = Map.empty, cGofile = [], cQuota = []\<rparr>"

text \<open>
  Read your writes: once a cacheable record with an Apple id has been upserted as the
  newest row, looking its id, kind and variant up returns that very message and the record
  as stored.
\<close>

theorem upsert_then_lookup:
  assumes "cEnabled c" "mAppleTrackID m \<noteq> 0" "mVariant (stored_meta m) \<noteq> []"
    and new: "\<forall>r\<in>set (cTracks c). rIndexedAt r < now"
    and up: "UpsertTrack True now c d i m f cap = Inr c'"
  shows "Lookup True c' (mKind (stored_meta m)) (mAppleTrackID m) isrc (mVariant (stored_meta m))
           = Inr (Some \<lparr>hDump = d, hMsg = i, hMeta = stored_meta m\<rparr>)"
proof -
  let ?r = "row_of now d i (stored_meta m) f cap"
  let ?p = "\<lambda>r. rAdam r = Some (mAppleTrackID m) \<and> rKind r = mKind (stored_meta m)
              \<and> mVariant (rRest r) = mVariant (stored_meta m)"
  have c': "c' = c\<lparr>cTracks := put_row ?r (cTracks c)\<rparr>"
    using up assms(1,3) by (simp add: UpsertTrack_def)
  have adam: "mAppleTrackID (stored_meta m) = mAppleTrackID m"
    by (simp add: stored_meta_def Let_def)
  have mem: "?r \<in> set (filter ?p (cTracks c'))"
    using put_row_mem [of ?r "cTracks c"] assms(2) by (simp add: c' row_of_def adam nullI64_def)
  then have "latest (filter ?p (cTracks c')) \<noteq> None"
    unfolding latest_None by (rule mem_nonempty)
  then obtain s where s: "latest (filter ?p (cTracks c')) = Some s" by blast
  have "rIndexedAt ?r \<le> rIndexedAt s" by (rule latest_max [OF s mem])
  moreover have "s \<in> insert ?r (set (cTracks c))"
    using latest_mem [OF s] set_put_row [of ?r "cTracks c"] by (auto simp: c')
  ultimately have "s = ?r" using new by (auto simp: row_of_def)
  with s assms(1,2) show ?thesis
    by (simp add: Lookup_def queryOne_def Let_def c')
qed

theorem upsert_then_lookup_witness:
  "Lookup True (empty_catalog\<lparr>cTracks := [row_of 5 1 7 (stored_meta sample_meta) [] []]\<rparr>)
     (mKind (stored_meta sample_meta)) (mAppleTrackID sample_meta) [] (mVariant (stored_meta sample_meta))
   = Inr (Some \<lparr>hDump = 1, hMsg = 7, hMeta = stored_meta sample_meta\<rparr>)"
proof (rule upsert_then_lookup [where c = empty_catalog and now = 5 and f = "[]" and cap = "[]"])
  show "cEnabled empty_catalog" "mAppleTrackID sample_meta \<noteq> 0"
    "mVariant (stored_meta sample_meta) \<noteq> []" "\<forall>r\<in>set (cTracks empty_catalog). rIndexedAt r < 5"
    "UpsertTrack True 5 empty_catalog 1 7 sample_meta [] []
       = Inr (empty_catalog\<lparr>cTracks := [row_of 5 1 7 (stored_meta sample_meta) [] []]\<rparr>)"
    by (simp_all add: empty_catalog_def sample_meta_def stored_meta_def UpsertTrack_def Let_def)
qed

text \<open>
  A hit never crosses a quality tier or an artifact kind: whatever \<^verbatim>\<open>Lookup\<close> returns has
  the requested variant and kind, and matches the requested Apple id or the requested ISRC.
\<close>

theorem lookup_sound:
  assumes "catalog_ok c" "Lookup up c kind adam isrc variant = Inr (Some h)"
  shows "mVariant (hMeta h) = variant \<and> mKind (hMeta h) = (if kind = [] then KindTrack else kind) \<and>
         (adam \<noteq> 0 \<and> mAppleTrackID (hMeta h) = adam \<or> isrc \<noteq> [] \<and> mISRC (hMeta h) = isrc)"
proof -
  have q: "\<exists>r\<in>set (cTracks c). p r \<and> h = scanHit r" if "queryOne up p c = Inr (Some h)" for p
    using that latest_mem by (fastforce simp: queryOne_def split: if_splits)
  from assms(2) show ?thesis
    by (auto simp: Lookup_def Let_def split: if_splits sum.splits option.splits dest!: q)
       (auto simp: scanHit_def coalesce_def)
qed

theorem lookup_sound_witness:
  "mVariant (stored_meta sample_meta) = ''v1|q=lossless'' \<and>
   catalog_ok (empty_catalog\<lparr>cTracks := [row_of 5 1 7 (stored_meta sample_meta) [] []]\<rparr>) \<and>
   mKind (stored_meta sample_meta) = ''track''"
proof -
  let ?c = "empty_catalog\<lparr>cTracks := [row_of 5 1 7 (stored_meta sample_meta) [] []]\<rparr>"
  have ok: "catalog_ok ?c"
    by (simp add: catalog_ok_def empty_catalog_def row_of_def sample_meta_def stored_meta_def Let_def)
  have l: "Lookup True ?c ''track'' 1440913903 [] ''v1|q=lossless''
      = Inr (Some \<lparr>hDump = 1, hMsg = 7, hMeta = stored_meta sample_meta\<rparr>)"
    by (simp add: Lookup_def queryOne_def empty_catalog_def Let_def)
       (simp add: row_of_def scanHit_def sample_meta_def stored_meta_def nullI64_def zero_meta_def coalesce_def nullStr_def)
  show ?thesis using lookup_sound [OF ok l] ok by simp
qed

subsection \<open>Dump rows and the crawl checkpoint\<close>

definition UpsertDump :: "bool \<Rightarrow> catalog \<Rightarrow> int \<Rightarrow> int \<Rightarrow> string \<Rightarrow> string \<Rightarrow> db_error + catalog" where
  "UpsertDump up c dumpID accessHash title kind0 =
     (if \<not> cEnabled c then Inr c
      else if \<not> up then Inl DbError
      else let kind = (if kind0 = [] then ''own'' else kind0);
               last = (case cDumps c dumpID of None \<Rightarrow> 0 | Some d \<Rightarrow> dLastMsg d)
           in Inr (c\<lparr>cDumps := (cDumps c)(dumpID \<mapsto>
                \<lparr>dAccessHash = accessHash, dTitle = title, dKind = kind, dLastMsg = last\<rparr>)\<rparr>))"

definition dumpCheckpoint :: "bool \<Rightarrow> catalog \<Rightarrow> int \<Rightarrow> db_error + int" where
  "dumpCheckpoint up c dumpID =
     (if \<not> cEnabled c then Inr 0
      else if \<not> up then Inl DbError
      else Inr (case cDumps c dumpID of None \<Rightarrow> 0 | Some d \<Rightarrow> dLastMsg d))"

definition setDumpCheckpoint :: "bool \<Rightarrow> catalog \<Rightarrow> int \<Rightarrow> int \<Rightarrow> db_error + catalog" where
  "setDumpCheckpoint up c dumpID lastMsgID =
     (if \<not> cEnabled c then Inr c
      else if \<not> up then Inl DbError
      else Inr (c\<lparr>cDumps := (cDumps c)(dumpID :=
             map_option (\<lambda>d. d\<lparr>dLastMsg := lastMsgID\<rparr>) (cDumps c dumpID))\<rparr>))"

lemma UpsertDump_checkpoint:
  "UpsertDump up c d h t k = Inr c' \<Longrightarrow> dumpCheckpoint True c' e = dumpCheckpoint True c e"
  by (auto simp: UpsertDump_def dumpCheckpoint_def Let_def split: if_splits option.splits)

end
