(* ===== verification/Catalog_Ledger.thy ===== *)
theory Catalog_Ledger
  imports Catalog_Db
begin

section \<open>The catalog's delivery and quota tables\<close>

text \<open>
  \<^verbatim>\<open>bot/catalog/gofiledelivery.go\<close> (the Gofile links a re-request is answered with, until
  they expire) and \<^verbatim>\<open>bot/catalog/quota.go\<close> (the mirror of the per-day quota, of which only the
  rows of one day are ever read back).  \<open>up\<close> says whether the statement reaches the database,
  \<open>now\<close> is the server's clock in seconds, a quota-day is the
  number of the day its date key names.
\<close>

subsection \<open>Recorded Gofile links (gofiledelivery.go)\<close>

record gofile_delivery =
  gdContentKey :: string
  gdKind :: string
  gdContentID :: string
  gdVariant :: string
  gdLabel :: string
  gdLink :: string
  gdUserID :: int
  gdUsername :: string
  gdCreatedAt :: int

definition delivery_of :: "gofile_row \<Rightarrow> gofile_delivery" where
  "delivery_of r = \<lparr>gdContentKey = gContentKey r, gdKind = gKind r, gdContentID = gContentID r,
     gdVariant = gVariant r, gdLabel = gLabel r, gdLink = gLink r, gdUserID = gUserID r,
     gdUsername = coalesce [] (gUsername r), gdCreatedAt = gCreatedAt r\<rparr>"

definition GofileDeliveryLookup ::
  "bool \<Rightarrow> int \<Rightarrow> catalog \<Rightarrow> string \<Rightarrow> db_error + gofile_delivery list" where
  "GofileDeliveryLookup up now c contentKey =
     (if \<not> cEnabled c \<or> contentKey = [] then Inr []
      else if \<not> up then Inl DbError
      else Inr (map delivery_of
             (sort_key gCreatedAt (filter (\<lambda>r. gContentKey r = contentKey \<and> now < gExpiresAt r) (cGofile c)))))"

definition GofileDeliveryRecord ::
  "bool \<Rightarrow> int \<Rightarrow> catalog \<Rightarrow> gofile_delivery \<Rightarrow> int \<Rightarrow> db_error + catalog" where
  "GofileDeliveryRecord up now c d ttl =
     (if \<not> cEnabled c \<or> gdContentKey d = [] \<or> gdLink d = [] then Inr c
      else if \<not> up then Inl DbError
      else Inr (c\<lparr>cGofile := cGofile c @
             [\<lparr>gContentKey = gdContentKey d, gKind = gdKind d, gContentID = gdContentID d,
               gVariant = gdVariant d, gLabel = gdLabel d, gLink = gdLink d, gUserID = gdUserID d,
               gUsername = nullStr (gdUsername d), gCreatedAt = now, gExpiresAt = now + ttl\<rparr>]\<rparr>))"

definition GofileDeliveryPruneExpired :: "bool \<Rightarrow> int \<Rightarrow> catalog \<Rightarrow> db_error + catalog" where
  "GofileDeliveryPruneExpired up now c =
     (if \<not> cEnabled c then Inr c
      else if \<not> up then Inl DbError
      else Inr (c\<lparr>cGofile := filter (\<lambda>r. \<not> gExpiresAt r < now) (cGofile c)\<rparr>))"

text \<open>A pruned row could not have been looked up any more.\<close>

lemma prune_keeps_lookups:
  assumes "GofileDeliveryPruneExpired up now c = Inr c'" "now \<le> t"
  shows "GofileDeliveryLookup True t c' k = GofileDeliveryLookup True t c k"
proof -
  have "filter (\<lambda>r. \<not> gExpiresAt r < now \<and> gContentKey r = k \<and> t < gExpiresAt r) rs
      = filter (\<lambda>r. gContentKey r = k \<and> t < gExpiresAt r) rs" for rs :: "gofile_row list"
    using assms(2) by (auto intro: filter_cong)
  with assms(1) show ?thesis
    by (auto simp: GofileDeliveryPruneExpired_def GofileDeliveryLookup_def split: if_splits)
qed

lemma insort_key_snoc: "f x \<le> f a \<Longrightarrow> insort_key f x (ys @ [a]) = insort_key f x ys @ [a]"
  by (induction ys) auto

lemma sort_key_snoc_max:
  "\<forall>x\<in>set xs. f x \<le> f a \<Longrightarrow> sort_key f (xs @ [a]) = sort_key f xs @ [a]"
  by (induction xs) (simp_all add: insort_key_snoc)

text \<open>
  Links are relisted in delivery order until they expire: a link recorded now, with no
  later row in the table, is the last entry of every lookup of its key before its time to live
  is over, after exactly the entries the lookup had before, and no other key sees it.
\<close>

theorem recorded_link_relisted:
  assumes "cEnabled c" "gdContentKey d \<noteq> []" "gdLink d \<noteq> []"
    and old: "\<forall>r\<in>set (cGofile c). gCreatedAt r \<le> now"
    and rec: "GofileDeliveryRecord up now c d ttl = Inr c'"
    and look: "GofileDeliveryLookup True t c k = Inr before"
  shows "GofileDeliveryLookup True t c' k =
     Inr (if k = gdContentKey d \<and> t < now + ttl then before @ [d\<lparr>gdCreatedAt := now\<rparr>] else before)"
proof -
  let ?row = "\<lparr>gContentKey = gdContentKey d, gKind = gdKind d, gContentID = gdContentID d,
               gVariant = gdVariant d, gLabel = gdLabel d, gLink = gdLink d, gUserID = gdUserID d,
               gUsername = nullStr (gdUsername d), gCreatedAt = now, gExpiresAt = now + ttl\<rparr>"
  have c': "c' = c\<lparr>cGofile := cGofile c @ [?row]\<rparr>"
    using rec assms(1-3) by (simp add: GofileDeliveryRecord_def split: if_splits)
  have d: "delivery_of ?row = d\<lparr>gdCreatedAt := now\<rparr>" by (simp add: delivery_of_def)
  have "sort_key gCreatedAt (filter p (cGofile c) @ [?row]) = sort_key gCreatedAt (filter p (cGofile c)) @ [?row]"
    for p using old by (intro sort_key_snoc_max) simp
  with look assms(1,2) show ?thesis
    by (auto simp: c' GofileDeliveryLookup_def d split: if_splits)
qed

definition part_link :: "string \<Rightarrow> gofile_delivery" where
  "part_link l = \<lparr>gdContentKey = ''album|1|v'', gdKind = ''album'', gdContentID = ''1'', gdVariant = ''v'',
     gdLabel = ''x'', gdLink = l, gdUserID = 7, gdUsername = [], gdCreatedAt = 0\<rparr>"

theorem recorded_link_relisted_witness:
  "GofileDeliveryLookup True 20
     (empty_catalog\<lparr>cGofile := [\<lparr>gContentKey = ''album|1|v'', gKind = ''album'', gContentID = ''1'',
        gVariant = ''v'', gLabel = ''x'', gLink = ''u'', gUserID = 7, gUsername = None,
        gCreatedAt = 10, gExpiresAt = 110\<rparr>]\<rparr>) ''album|1|v''
   = Inr [(part_link ''u'')\<lparr>gdCreatedAt := 10\<rparr>]"
  using recorded_link_relisted
    [of empty_catalog "part_link ''u''" 10 True 100 _ 20 "''album|1|v''" "[]"]
  by (simp add: empty_catalog_def part_link_def GofileDeliveryRecord_def GofileDeliveryLookup_def nullStr_def)

subsection \<open>The quota mirror (quota.go)\<close>

definition QuotaInsertCharge ::
  "bool \<Rightarrow> catalog \<Rightarrow> string \<Rightarrow> int \<Rightarrow> string \<Rightarrow> int \<Rightarrow> int \<Rightarrow> db_error + catalog" where
  "QuotaInsertCharge up c chargeID userID kind day releasesTotal =
     (if \<not> cEnabled c then Inr c
      else if \<not> up then Inl DbError
      else if \<exists>r\<in>set (cQuota c). qChargeID r = chargeID then Inr c
      else Inr (c\<lparr>cQuota := cQuota c @
             [\<lparr>qChargeID = chargeID, qUserID = userID, qKind = kind, qDay = day, qState = ''open'',
               qReleases = releasesTotal, qDelivered = 0\<rparr>]\<rparr>))"

definition quotaFinalize :: "bool \<Rightarrow> catalog \<Rightarrow> string \<Rightarrow> string \<Rightarrow> int \<Rightarrow> db_error + catalog" where
  "quotaFinalize up c chargeID state delivered =
     (if \<not> cEnabled c then Inr c
      else if \<not> up then Inl DbError
      else Inr (c\<lparr>cQuota := map (\<lambda>r. if qChargeID r = chargeID \<and> qState r = ''open''
                                     then r\<lparr>qState := state, qDelivered := delivered\<rparr> else r) (cQuota c)\<rparr>))"

definition QuotaMarkCommitted :: "bool \<Rightarrow> catalog \<Rightarrow> string \<Rightarrow> int \<Rightarrow> db_error + catalog" where
  "QuotaMarkCommitted up c chargeID delivered = quotaFinalize up c chargeID ''committed'' delivered"

definition QuotaMarkRefunded :: "bool \<Rightarrow> catalog \<Rightarrow> string \<Rightarrow> int \<Rightarrow> db_error + catalog" where
  "QuotaMarkRefunded up c chargeID delivered = quotaFinalize up c chargeID ''refunded'' delivered"

definition QuotaLoadDay :: "bool \<Rightarrow> catalog \<Rightarrow> int \<Rightarrow> db_error + quota_row list" where
  "QuotaLoadDay up c day =
     (if \<not> cEnabled c then Inr []
      else if \<not> up then Inl DbError
      else Inr (filter (\<lambda>r. qDay r = day) (cQuota c)))"

definition QuotaPruneBefore :: "bool \<Rightarrow> catalog \<Rightarrow> int \<Rightarrow> db_error + catalog" where
  "QuotaPruneBefore up c day =
     (if \<not> cEnabled c then Inr c
      else if \<not> up then Inl DbError
      else Inr (c\<lparr>cQuota := filter (\<lambda>r. \<not> qDay r < day) (cQuota c)\<rparr>))"

definition quota_rows_ok :: "catalog \<Rightarrow> bool" where
  "quota_rows_ok c = (distinct (map qChargeID (cQuota c)) \<and>
     (\<forall>r\<in>set (cQuota c). qState r \<in> {''open'', ''committed'', ''refunded''}))"

lemma map_qChargeID_finalize [simp]:
  "map (qChargeID \<circ> (\<lambda>r. if P r then r\<lparr>qState := s, qDelivered := n\<rparr> else r)) rs = map qChargeID rs"
  by (induction rs) auto

lemma QuotaInsertCharge_ok [step_inv]:
  "quota_rows_ok c \<Longrightarrow> QuotaInsertCharge up c i u k d n = Inr c' \<Longrightarrow> quota_rows_ok c'"
  by (auto simp: quota_rows_ok_def QuotaInsertCharge_def split: if_splits)

lemma quotaFinalize_ok [step_inv]:
  "quota_rows_ok c \<Longrightarrow> st \<in> {''committed'', ''refunded''} \<Longrightarrow> quotaFinalize up c i st n = Inr c'
    \<Longrightarrow> quota_rows_ok c'"
  by (auto simp: quota_rows_ok_def quotaFinalize_def split: if_splits)

lemma QuotaPruneBefore_ok [step_inv]:
  "quota_rows_ok c \<Longrightarrow> QuotaPruneBefore up c d = Inr c' \<Longrightarrow> quota_rows_ok c'"
  by (auto simp: quota_rows_ok_def QuotaPruneBefore_def distinct_map_filter split: if_splits)

end
