(* ===== verification/Quota.thy ===== *)
theory Quota
  imports User_State Catalog_Ledger
begin

section \<open>The per-day quota and restriction mode\<close>

text \<open>
  \<^verbatim>\<open>bot/quota.go\<close> and \<^verbatim>\<open>bot/restriction.go\<close>: a rip is charged a slot at submission, and the
  charge is committed or refunded exactly once.  The state under \<^verbatim>\<open>quotaMu\<close> is the record
  \<open>ledger\<close>; each operation is one critical section, followed by its write to the catalog
  mirror.  The asynchronous writes (\<^verbatim>\<open>go persist()\<close>) wait in \<open>lgPending\<close> and run in any order.
  A quota-day is the number of the day its date key names (days since 1970-01-01).
  The random charge id is an argument; that it is new is a condition of the step relation.
\<close>

definition quotaOpen :: string where "quotaOpen = ''open''"
definition quotaCommitted :: string where "quotaCommitted = ''committed''"
definition quotaRefunded :: string where "quotaRefunded = ''refunded''"
definition quotaResetHourDhaka :: int where "quotaResetHourDhaka = 13"

lemma quota_states [simp]:
  "quotaOpen \<noteq> quotaCommitted" "quotaOpen \<noteq> quotaRefunded" "quotaCommitted \<noteq> quotaRefunded"
  "quotaCommitted \<noteq> quotaOpen" "quotaRefunded \<noteq> quotaOpen" "quotaRefunded \<noteq> quotaCommitted"
  by (simp_all add: quotaOpen_def quotaCommitted_def quotaRefunded_def)

type_synonym quota_key = "user_id \<times> int \<times> string"

record charge =
  chUser :: user_id
  chKind :: string
  chDay :: int
  chState :: string

definition charge_key :: "charge \<Rightarrow> quota_key" where
  "charge_key c = (chUser c, chDay c, chKind c)"

record ledger =
  lgUsage :: "quota_key counts"
  lgCharges :: "string \<rightharpoonup> charge"
  lgCat :: "catalog option"
  lgPending :: "(string \<times> string \<times> int) list"

text \<open>The day runs from 13:00 to 13:00 at UTC+6.\<close>

definition dhaka_offset :: int where "dhaka_offset = 6 * 3600"

definition quotaDay :: "unix_sec \<Rightarrow> int" where
  "quotaDay t = (t + dhaka_offset - quotaResetHourDhaka * 3600) div 86400"

subsection \<open>Limits (restriction.go)\<close>

definition memberAlbumsPerDay :: int where "memberAlbumsPerDay = 20"
definition memberPlaylistsPerDay :: int where "memberPlaylistsPerDay = 2"
definition quotaUnlimited :: int where "quotaUnlimited = 2 ^ 30"
definition playlistSleeptimeThreshold :: int where "playlistSleeptimeThreshold = 100"

definition isRestricted :: "users \<Rightarrow> bool" where
  "isRestricted s = uRestriction s"

definition isRestrictedMember :: "users \<Rightarrow> user_id \<Rightarrow> string \<Rightarrow> bool" where
  "isRestrictedMember s u username =
     (if u = 0 \<or> isAdmin s u then False else isRestricted s \<and> \<not> isUserDonor s u username)"

definition ripLimit :: "users \<Rightarrow> string \<Rightarrow> bool \<Rightarrow> int" where
  "ripLimit s kind donor =
     (if isRestricted s \<and> donor then quotaUnlimited
      else if isRestricted s \<and> kind = ''album'' then memberAlbumsPerDay
      else if isRestricted s \<and> kind = ''playlist'' then memberPlaylistsPerDay
      else heavyRipLimit kind donor)"

definition limitLabel :: "int \<Rightarrow> string" where
  "limitLabel limit = (if quotaUnlimited \<le> limit then [CHR 0xE2, CHR 0x88, CHR 0x9E] else itoa limit)"

subsection \<open>Charging and settling (quota.go)\<close>

definition insert_charge :: "bool \<Rightarrow> string \<Rightarrow> user_id \<Rightarrow> string \<Rightarrow> int \<Rightarrow> ledger \<Rightarrow> ledger" where
  "insert_charge up cid u kind day q =
     (case lgCat q of
        None \<Rightarrow> q
      | Some c \<Rightarrow> (case QuotaInsertCharge up c cid u kind day 0 of
                     Inl e \<Rightarrow> q | Inr c' \<Rightarrow> q\<lparr>lgCat := Some c'\<rparr>))"

definition quotaCheckAndCharge ::
  "string \<Rightarrow> unix_sec \<Rightarrow> bool \<Rightarrow> users \<Rightarrow> user_id \<Rightarrow> string \<Rightarrow> string \<Rightarrow> ledger \<Rightarrow> (string \<times> bool) \<times> ledger" where
  "quotaCheckAndCharge gid now up s u username kind q =
     (if u = 0 then (([], True), q)
      else let limit = ripLimit s kind (isUserDonor s u username);
               day = quotaDay now;
               key = (u, day, kind)
           in if limit \<le> cget (lgUsage q) key then (([], False), q)
              else ((gid, True), insert_charge up gid u kind day
                     (q\<lparr>lgUsage := cadd (lgUsage q) key 1,
                        lgCharges := (lgCharges q)(gid \<mapsto>
                          \<lparr>chUser = u, chKind = kind, chDay = day, chState = quotaOpen\<rparr>)\<rparr>)))"

definition persist :: "bool \<Rightarrow> string \<times> string \<times> int \<Rightarrow> ledger \<Rightarrow> ledger" where
  "persist up w q =
     (case w of (cid, newState, delivered) \<Rightarrow>
      (case lgCat q of
         None \<Rightarrow> q
       | Some c \<Rightarrow>
           (case (if newState = quotaRefunded then QuotaMarkRefunded up c cid delivered
                  else QuotaMarkCommitted up c cid delivered) of
              Inl e \<Rightarrow> q
            | Inr c' \<Rightarrow> q\<lparr>lgCat := Some c'\<rparr>)))"

definition settle :: "string \<Rightarrow> string \<Rightarrow> ledger \<Rightarrow> ledger option" where
  "settle cid newState q =
     (if cid = [] then None
      else case lgCharges q cid of
             None \<Rightarrow> None
           | Some c \<Rightarrow>
               if chState c \<noteq> quotaOpen then None
               else let q1 = q\<lparr>lgCharges := (lgCharges q)(cid \<mapsto> c\<lparr>chState := newState\<rparr>)\<rparr>
                    in Some (if newState = quotaRefunded \<and> 0 < cget (lgUsage q) (charge_key c)
                             then q1\<lparr>lgUsage := cadd (lgUsage q) (charge_key c) (-1)\<rparr> else q1))"

definition quotaSetState :: "bool \<Rightarrow> string \<Rightarrow> string \<Rightarrow> int \<Rightarrow> bool \<Rightarrow> ledger \<Rightarrow> ledger" where
  "quotaSetState up cid newState delivered syncDB q =
     (case settle cid newState q of
        None \<Rightarrow> q
      | Some q1 \<Rightarrow> if syncDB then persist up (cid, newState, delivered) q1
                    else q1\<lparr>lgPending := lgPending q1 @ [(cid, newState, delivered)]\<rparr>)"

definition quotaCommit :: "string \<Rightarrow> int \<Rightarrow> ledger \<Rightarrow> ledger" where
  "quotaCommit cid delivered q = quotaSetState True cid quotaCommitted delivered False q"

definition quotaRefund :: "string \<Rightarrow> int \<Rightarrow> ledger \<Rightarrow> ledger" where
  "quotaRefund cid delivered q = quotaSetState True cid quotaRefunded delivered False q"

definition quotaRefundSync :: "bool \<Rightarrow> string \<Rightarrow> int \<Rightarrow> ledger \<Rightarrow> ledger" where
  "quotaRefundSync up cid delivered q = quotaSetState up cid quotaRefunded delivered True q"

text \<open>
  \<open>delivered\<close>, \<open>byOwner\<close> and \<open>flushed\<close> are what the accessors of the rip's state return,
  \<open>cancelled\<close> is \<^verbatim>\<open>ctx != nil && ctx.Err() != nil\<close>.
\<close>

definition past_threshold :: "bool \<Rightarrow> int \<Rightarrow> int \<Rightarrow> bool \<Rightarrow> bool" where
  "past_threshold perRelease delivered totalReleases flushed =
     (if perRelease then 0 < totalReleases \<and> totalReleases < delivered * 2 else flushed)"

definition finalizeHeavyQuota ::
  "string \<Rightarrow> int \<Rightarrow> bool \<Rightarrow> bool \<Rightarrow> bool \<Rightarrow> bool \<Rightarrow> int \<Rightarrow> bool \<Rightarrow> ledger \<Rightarrow> ledger" where
  "finalizeHeavyQuota cid delivered byOwner flushed cancelled deliveredSomething totalReleases perRelease q =
     (if cid = [] then q
      else if \<not> cancelled \<and> deliveredSomething then quotaCommit cid delivered q
      else if cancelled \<and> byOwner \<and> past_threshold perRelease delivered totalReleases flushed
           then quotaCommit cid delivered q
      else quotaRefund cid delivered q)"

definition quotaUsageFor :: "unix_sec \<Rightarrow> user_id \<Rightarrow> string \<Rightarrow> ledger \<Rightarrow> int" where
  "quotaUsageFor now u kind q = cget (lgUsage q) (u, quotaDay now, kind)"

subsection \<open>Boot and the daily reset\<close>

definition restore_charge :: "int \<Rightarrow> string set \<Rightarrow> quota_row \<Rightarrow> ledger \<Rightarrow> ledger" where
  "restore_charge day live r q =
     (if qState r = quotaRefunded then q
      else let state = (if qState r = quotaOpen \<and> qChargeID r \<notin> live then quotaCommitted else qState r)
           in q\<lparr>lgCharges := (lgCharges q)(qChargeID r \<mapsto>
                  \<lparr>chUser = qUserID r, chKind = qKind r, chDay = day, chState = state\<rparr>),
                lgUsage := cadd (lgUsage q) (qUserID r, day, qKind r) 1\<rparr>)"

definition live_charges :: "users \<Rightarrow> string set" where
  "live_charges s = set (filter (\<lambda>i. i \<noteq> []) (map jQuotaChargeID (uJobs s)))"

definition quotaLoadBoot :: "bool \<Rightarrow> unix_sec \<Rightarrow> users \<Rightarrow> ledger \<Rightarrow> ledger" where
  "quotaLoadBoot up now s q =
     (case lgCat q of
        None \<Rightarrow> q
      | Some c \<Rightarrow>
          if \<not> cEnabled c then q
          else let day = quotaDay now
               in case QuotaLoadDay up c day of
                    Inl e \<Rightarrow> q
                  | Inr charges \<Rightarrow> fold (restore_charge day (live_charges s)) charges q)"

definition quotaPrune :: "bool \<Rightarrow> unix_sec \<Rightarrow> ledger \<Rightarrow> ledger" where
  "quotaPrune up now q =
     (let day = quotaDay now;
          q1 = q\<lparr>lgUsage := (\<lambda>k. if fst (snd k) \<noteq> day then None else lgUsage q k),
                 lgCharges := (\<lambda>i. case lgCharges q i of
                    None \<Rightarrow> None | Some c \<Rightarrow> if chDay c \<noteq> day then None else Some c)\<rparr>
      in case lgCat q1 of
           None \<Rightarrow> q1
         | Some c \<Rightarrow> (case QuotaPruneBefore up c day of Inl e \<Rightarrow> q1 | Inr c' \<Rightarrow> q1\<lparr>lgCat := Some c'\<rparr>))"

definition announceQuotaReset :: "string \<Rightarrow> chat_id list \<Rightarrow> (chat_id \<times> string) list" where
  "announceQuotaReset msg allowedChats =
     (if allowedChats = [] then [] else map (\<lambda>c. (c, msg)) allowedChats)"

subsection \<open>The restriction valve's users of the quota (restriction.go)\<close>

text \<open>The replies sent are returned beside the result.\<close>

definition out_of_slots_reply :: "string \<Rightarrow> string" where
  "out_of_slots_reply kind =
     (let (noun, limit) = (if kind = ''playlist'' then (''playlists'', memberPlaylistsPerDay)
                           else (''albums'', memberAlbumsPerDay))
      in ''You've used your '' @ itoa limit @ '' '' @ noun @ '' for today. It resets at 1 PM Dhaka. Failed or cancelled rips don't count, and donors have no limits.'')"

definition admitRestricted ::
  "string \<Rightarrow> unix_sec \<Rightarrow> bool \<Rightarrow> users \<Rightarrow> string \<Rightarrow> user_id \<Rightarrow> string \<Rightarrow> ledger \<Rightarrow> (string \<times> bool) \<times> string list \<times> ledger" where
  "admitRestricted gid now up s kind u username q =
     (if \<not> isRestrictedMember s u username then (([], True), [], q)
      else case quotaCheckAndCharge gid now up s u username kind q of
             ((cid, True), q') \<Rightarrow> ((cid, True), [], q')
           | ((cid, False), q') \<Rightarrow> (([], False), [out_of_slots_reply kind], q'))"

definition denyIfRestrictedMember :: "users \<Rightarrow> user_id \<Rightarrow> string \<Rightarrow> string \<Rightarrow> bool \<times> string list" where
  "denyIfRestrictedMember s u username what =
     (if \<not> isRestrictedMember s u username then (False, [])
      else (True, [what @ '' are available to donors only while restrictions are on.'']))"

text \<open>\<open>cached\<close> says whether \<^verbatim>\<open>trySendCachedAlbumZip\<close> delivered the album.\<close>

definition trySendCachedAlbumZipQuota ::
  "string \<Rightarrow> unix_sec \<Rightarrow> bool \<Rightarrow> users \<Rightarrow> bool \<Rightarrow> user_id \<Rightarrow> string \<Rightarrow> ledger \<Rightarrow> bool \<times> string list \<times> ledger" where
  "trySendCachedAlbumZipQuota gid now up s cached u username q =
     (case admitRestricted gid now up s ''album'' u username q of
        ((cid, ok), sent, q1) \<Rightarrow>
          if \<not> ok then (True, sent, q1)
          else if cached then (True, sent, quotaCommit cid 0 q1)
          else (False, sent, quotaRefund cid 0 q1))"

datatype restrict_reply = RestrictUsage | RestrictIsOn | RestrictIsOff

definition handleRestrictCommand :: "string list \<Rightarrow> users \<Rightarrow> restrict_reply \<times> users" where
  "handleRestrictCommand args s =
     (let status = (\<lambda>s'. (if isRestricted s' then RestrictIsOn else RestrictIsOff, s'))
      in case args of
           [] \<Rightarrow> status s
         | a # _ \<Rightarrow> if to_lower a = ''on'' then status (setRestriction True s)
                    else if to_lower a = ''off'' then status (setRestriction False s)
                    else (RestrictUsage, s))"

subsection \<open>The tally counts the charges that are not refunded\<close>

definition counted :: "ledger \<Rightarrow> quota_key \<Rightarrow> string set" where
  "counted q k = {i. \<exists>c. lgCharges q i = Some c \<and> charge_key c = k \<and> chState c \<noteq> quotaRefunded}"

definition ledger_ok :: "ledger \<Rightarrow> bool" where
  "ledger_ok q = (finite (dom (lgCharges q)) \<and> [] \<notin> dom (lgCharges q) \<and>
     (\<forall>k. cget (lgUsage q) k = int (card (counted q k))))"

definition no_charges :: "catalog option \<Rightarrow> ledger" where
  "no_charges c = \<lparr>lgUsage = Map.empty, lgCharges = Map.empty, lgCat = c, lgPending = []\<rparr>"

lemma ledger_tally: "ledger_ok q \<Longrightarrow> cget (lgUsage q) k = int (card (counted q k))"
  unfolding ledger_ok_def by blast

lemma ledger_ok_no_charges [simp]: "ledger_ok (no_charges c)"
  by (simp add: ledger_ok_def no_charges_def counted_def)

lemma finite_counted: "finite (dom (lgCharges q)) \<Longrightarrow> finite (counted q k)"
  by (rule finite_subset [of _ "dom (lgCharges q)"]) (auto simp: counted_def)

text \<open>Only the tally and the charges matter; the mirror and its queue are a frame.\<close>

lemma ledger_frame [frame_simps]:
  "counted (q\<lparr>lgCat := c\<rparr>) = counted q" "counted (q\<lparr>lgPending := p\<rparr>) = counted q"
  "ledger_ok (q\<lparr>lgCat := c\<rparr>) = ledger_ok q" "ledger_ok (q\<lparr>lgPending := p\<rparr>) = ledger_ok q"
  by (auto simp: counted_def ledger_ok_def)

lemma persist_frame [frame_simps]:
  "lgUsage (persist up w q) = lgUsage q" "lgCharges (persist up w q) = lgCharges q"
  "lgPending (persist up w q) = lgPending q" "ledger_ok (persist up w q) = ledger_ok q"
  by (auto simp: persist_def frame_simps split: prod.splits option.splits sum.splits)

lemma insert_charge_frame [frame_simps]:
  "lgUsage (insert_charge up i u k d q) = lgUsage q" "lgCharges (insert_charge up i u k d q) = lgCharges q"
  "lgPending (insert_charge up i u k d q) = lgPending q" "ledger_ok (insert_charge up i u k d q) = ledger_ok q"
  by (auto simp: insert_charge_def frame_simps split: option.splits sum.splits)

lemma charge_ledger_ok:
  assumes "ledger_ok q" "lgCharges q i = None" "i \<noteq> []" "chState c = quotaOpen"
  shows "ledger_ok (q\<lparr>lgUsage := cadd (lgUsage q) (charge_key c) 1, lgCharges := (lgCharges q)(i \<mapsto> c)\<rparr>)"
    (is "ledger_ok ?q")
proof -
  have new: "i \<notin> counted q k" for k using assms(2) by (simp add: counted_def)
  have upd: "counted ?q k = (if k = charge_key c then insert i (counted q k) else counted q k)" for k
    using assms(2,4) by (auto simp: counted_def)
  have fin: "finite (counted q k)" for k using assms(1) finite_counted by (simp add: ledger_ok_def)
  have tally: "cget (lgUsage q) k = int (card (counted q k))" for k
    by (rule ledger_tally [OF assms(1)])
  have "cget (lgUsage ?q) k = int (card (counted ?q k))" for k
    using new fin by (simp add: upd cget_cadd tally)
  then show ?thesis using assms(1,3) by (simp add: ledger_ok_def)
qed

lemma settle_ledger_ok:
  assumes "ledger_ok q" "settle i st q = Some q'" "st \<noteq> quotaOpen"
  shows "ledger_ok q'"
proof -
  from assms(2) obtain c where c: "lgCharges q i = Some c" "chState c = quotaOpen"
    by (auto simp: settle_def split: if_splits option.splits)
  let ?ch = "(lgCharges q)(i \<mapsto> c\<lparr>chState := st\<rparr>)"
  have fin: "finite (counted q k)" for k using assms(1) finite_counted by (simp add: ledger_ok_def)
  have tally: "cget (lgUsage q) k = int (card (counted q k))" for k
    by (rule ledger_tally [OF assms(1)])
  have mem: "i \<in> counted q (charge_key c)" using c by (simp add: counted_def)
  then have pos: "0 < card (counted q (charge_key c))" using fin by (auto simp: card_gt_0_iff)
  have upd: "counted r k = (if st = quotaRefunded then counted q k - {i} else counted q k)"
    if "lgCharges r = ?ch" for r :: ledger and k
    using c that by (auto simp: counted_def charge_key_def)
  have out: "i \<notin> counted q k" if "k \<noteq> charge_key c" for k using that c by (auto simp: counted_def)
  have dom: "finite (dom ?ch)" "[] \<notin> dom ?ch" using assms(1) c(1) by (auto simp: ledger_ok_def)
  show ?thesis
  proof (cases "st = quotaRefunded")
    case True
    then have q': "q' = q\<lparr>lgCharges := ?ch, lgUsage := cadd (lgUsage q) (charge_key c) (-1)\<rparr>"
      using assms(2) c pos by (auto simp: settle_def tally split: if_splits)
    have "cget (lgUsage q') k = int (card (counted q' k))" for k
      using mem out [of k] pos True upd [of q' k]
      by (auto simp: q' cget_cadd tally card_Diff_singleton of_nat_diff)
    with dom show ?thesis by (simp add: ledger_ok_def q')
  next
    case False
    then have q': "q' = q\<lparr>lgCharges := ?ch\<rparr>"
      using assms(2) c by (auto simp: settle_def split: if_splits)
    have "cget (lgUsage q') k = int (card (counted q' k))" for k
      using False upd [of q' k] by (simp add: q' tally)
    with dom show ?thesis by (simp add: ledger_ok_def q')
  qed
qed

lemma quotaSetState_ok [step_inv]:
  "ledger_ok q \<Longrightarrow> st \<noteq> quotaOpen \<Longrightarrow> ledger_ok (quotaSetState up i st d sync q)"
  using settle_ledger_ok [of q i st] by (auto simp: quotaSetState_def frame_simps split: option.split)

lemma quotaCheckAndCharge_ok [step_inv]:
  assumes "ledger_ok q" "lgCharges q gid = None" "gid \<noteq> []"
  shows "ledger_ok (snd (quotaCheckAndCharge gid now up s u n k q))"
  using assms charge_ledger_ok [OF assms, of "\<lparr>chUser = u, chKind = k, chDay = quotaDay now, chState = quotaOpen\<rparr>"]
  by (auto simp: quotaCheckAndCharge_def Let_def frame_simps charge_key_def)

lemma quotaPrune_state [frame_simps]:
  "lgUsage (quotaPrune up now q) = (\<lambda>k. if fst (snd k) \<noteq> quotaDay now then None else lgUsage q k)"
  "lgCharges (quotaPrune up now q) = (\<lambda>i. case lgCharges q i of
                    None \<Rightarrow> None | Some c \<Rightarrow> if chDay c \<noteq> quotaDay now then None else Some c)"
  "lgPending (quotaPrune up now q) = lgPending q"
  by (auto simp: quotaPrune_def Let_def split: option.splits sum.splits)

lemma quotaPrune_ok [step_inv]:
  assumes "ledger_ok q"
  shows "ledger_ok (quotaPrune up now q)"
proof -
  let ?q = "quotaPrune up now q"
  have sub: "dom (lgCharges ?q) \<subseteq> dom (lgCharges q)"
    by (auto simp: frame_simps split: option.splits if_splits)
  have cnt: "counted ?q k = (if fst (snd k) = quotaDay now then counted q k else {})" for k
    by (auto simp: counted_def frame_simps charge_key_def split: option.splits if_splits)
  have "cget (lgUsage ?q) k = int (card (counted ?q k))" for k
    using ledger_tally [OF assms, of k] by (auto simp: cnt frame_simps cget_def)
  moreover have "finite (dom (lgCharges ?q))"
    using assms sub by (simp add: ledger_ok_def finite_subset)
  moreover have "[] \<notin> dom (lgCharges ?q)"
    using assms sub unfolding ledger_ok_def by blast
  ultimately show ?thesis by (simp add: ledger_ok_def)
qed

subsection \<open>The step relation\<close>

text \<open>A generated charge id is new when no charge, no row and no waiting write has it.\<close>

definition new_id :: "string \<Rightarrow> ledger \<Rightarrow> bool" where
  "new_id gid q = (gid \<noteq> [] \<and> lgCharges q gid = None \<and> gid \<notin> fst ` set (lgPending q) \<and>
     (case lgCat q of None \<Rightarrow> True | Some c \<Rightarrow> gid \<notin> qChargeID ` set (cQuota c)))"

text \<open>\<open>ins\<close> restricts the runs to those in which every insert reaches the database.\<close>

inductive ledger_step :: "bool \<Rightarrow> ledger \<Rightarrow> ledger \<Rightarrow> bool" for ins where
  Charge: "new_id gid q \<Longrightarrow> (ins \<Longrightarrow> up) \<Longrightarrow>
     ledger_step ins q (snd (quotaCheckAndCharge gid now up s u username kind q))"
| Settle: "st = quotaCommitted \<or> st = quotaRefunded \<Longrightarrow> ledger_step ins q (quotaSetState up cid st delivered sync q)"
| Persist: "w \<in> set (lgPending q) \<Longrightarrow>
     ledger_step ins q (persist up w (q\<lparr>lgPending := remove1 w (lgPending q)\<rparr>))"
| Prune: "ledger_step ins q (quotaPrune up now q)"

inductive_cases ledger_stepE: "ledger_step ins q q'"

lemma ledger_step_ok [step_inv]: "ledger_step ins q q' \<Longrightarrow> ledger_ok q \<Longrightarrow> ledger_ok q'"
proof (induction rule: ledger_step.induct)
  case (Charge gid q up now s u username kind)
  then show ?case by (simp add: new_id_def quotaCheckAndCharge_ok)
next
  case (Settle st q up cid delivered sync)
  then show ?case by (intro quotaSetState_ok) auto
qed (simp_all add: frame_simps quotaPrune_ok)

text \<open>
  C11: In every run, from boot on, a user's tally for a kind and a day is exactly the number of
  charges of that user, kind and day that have not been refunded: no refund is lost or taken
  twice, whatever the order of charges, commits, refunds, database writes and daily resets.
\<close>

theorem quota_tally_exact:
  assumes "(ledger_step ins)\<^sup>*\<^sup>* (no_charges cat) q"
  shows "cget (lgUsage q) k = int (card {i. \<exists>c. lgCharges q i = Some c \<and> charge_key c = k \<and>
                                              chState c \<noteq> quotaRefunded})"
proof -
  from assms have "ledger_ok q"
    by (induction rule: rtranclp_induct) (auto intro: ledger_step_ok)
  from ledger_tally [OF this] show ?thesis by (simp add: counted_def)
qed

definition plain_users :: users where
  "plain_users = no_users\<lparr>uAdmins := {}\<rparr>"

theorem quota_tally_exact_witness:
  "cget (lgUsage (snd (quotaCheckAndCharge ''a1'' 0 True plain_users 7 [] ''artist'' (no_charges None))))
     (7, quotaDay 0, ''artist'') = 1"
proof -
  let ?q = "snd (quotaCheckAndCharge ''a1'' 0 True plain_users 7 [] ''artist'' (no_charges None))"
  have "ledger_step False (no_charges None) ?q"
    by (rule ledger_step.Charge) (simp_all add: new_id_def no_charges_def)
  from quota_tally_exact [OF r_into_rtranclp [where r = "ledger_step False", OF this]]
  have "cget (lgUsage ?q) (7, quotaDay 0, ''artist'')
      = int (card {i. \<exists>c. lgCharges ?q i = Some c \<and> charge_key c = (7, quotaDay 0, ''artist'') \<and> chState c \<noteq> quotaRefunded})" .
  also have "{i. \<exists>c. lgCharges ?q i = Some c \<and> charge_key c = (7, quotaDay 0, ''artist'') \<and> chState c \<noteq> quotaRefunded} = {''a1''}"
    by (auto simp: quotaCheckAndCharge_def plain_users_def no_users_def ripLimit_def isRestricted_def isUserDonor_def
        heavyRipLimit_def no_charges_def frame_simps charge_key_def Let_def split: if_splits)
  finally show ?thesis by simp
qed

subsection \<open>Admission\<close>

text \<open>
  A request is admitted exactly while the user is below the limit of that kind in force now;
  an admission takes one slot of that user, kind and day and no other, and leaves the tally
  within the limit; a refusal changes nothing.
\<close>

theorem quota_admits_up_to_limit:
  assumes "u \<noteq> 0" "quotaCheckAndCharge gid now up s u username kind q = ((cid, ok), q')"
  shows "(ok \<longleftrightarrow> quotaUsageFor now u kind q < ripLimit s kind (isUserDonor s u username)) \<and>
    quotaUsageFor now u kind q' = quotaUsageFor now u kind q + (if ok then 1 else 0) \<and>
    (\<forall>k. k \<noteq> (u, quotaDay now, kind) \<longrightarrow> cget (lgUsage q') k = cget (lgUsage q) k) \<and>
    (ok \<longrightarrow> quotaUsageFor now u kind q' \<le> ripLimit s kind (isUserDonor s u username) \<and> cid = gid) \<and>
    (\<not> ok \<longrightarrow> q' = q \<and> cid = [])"
  using assms by (auto simp: quotaCheckAndCharge_def quotaUsageFor_def Let_def frame_simps split: if_splits)

theorem quota_admits_up_to_limit_witness:
  "snd (fst (quotaCheckAndCharge ''a1'' 0 True plain_users 7 [] ''artist'' (no_charges None))) \<and>
   \<not> snd (fst (quotaCheckAndCharge ''a2'' 9 True plain_users 7 [] ''artist''
        (snd (quotaCheckAndCharge ''a1'' 0 True plain_users 7 [] ''artist'' (no_charges None)))))"
proof -
  have lim: "ripLimit plain_users ''artist'' (isUserDonor plain_users 7 []) = 1"
    by (simp add: plain_users_def no_users_def ripLimit_def isRestricted_def isUserDonor_def heavyRipLimit_def)
  obtain cid ok q1 where a: "quotaCheckAndCharge ''a1'' 0 True plain_users 7 [] ''artist'' (no_charges None) = ((cid, ok), q1)"
    by (metis prod.collapse)
  obtain cid2 ok2 q2 where b: "quotaCheckAndCharge ''a2'' 9 True plain_users 7 [] ''artist'' q1 = ((cid2, ok2), q2)"
    by (metis prod.collapse)
  have "(7::int) \<noteq> 0" by simp
  note A = quota_admits_up_to_limit [OF this a] and B = quota_admits_up_to_limit [OF this b]
  have "quotaUsageFor 9 7 ''artist'' q1 = quotaUsageFor 0 7 ''artist'' q1"
    by (simp add: quotaUsageFor_def quotaDay_def dhaka_offset_def quotaResetHourDhaka_def)
  with A B a b show ?thesis by (simp add: lim quotaUsageFor_def no_charges_def)
qed

subsection \<open>Settling\<close>

lemma settle_None: "settle i st q = None \<longleftrightarrow>
    i = [] \<or> (case lgCharges q i of None \<Rightarrow> True | Some c \<Rightarrow> chState c \<noteq> quotaOpen)"
  by (auto simp: settle_def Let_def split: option.splits)

lemma settle_charges: "settle i st q = Some q' \<Longrightarrow> \<exists>c. lgCharges q i = Some c \<and> chState c = quotaOpen \<and>
    lgCharges q' = (lgCharges q)(i \<mapsto> c\<lparr>chState := st\<rparr>) \<and> lgCat q' = lgCat q \<and> lgPending q' = lgPending q"
  by (auto simp: settle_def Let_def split: if_splits option.splits)

lemma settle_settled: "settle i st q = Some q' \<Longrightarrow> st \<noteq> quotaOpen \<Longrightarrow> settle i st2 q' = None"
  by (auto simp: settle_None dest: settle_charges)

lemma settle_frame: "lgCharges q1 = lgCharges q2 \<Longrightarrow> settle i st q1 = None \<longleftrightarrow> settle i st q2 = None"
  by (simp add: settle_None)

lemma quotaSetState_state:
  "lgUsage (quotaSetState up i st d sync q) = (case settle i st q of None \<Rightarrow> lgUsage q | Some q1 \<Rightarrow> lgUsage q1)"
  "lgCharges (quotaSetState up i st d sync q) = (case settle i st q of None \<Rightarrow> lgCharges q | Some q1 \<Rightarrow> lgCharges q1)"
  by (auto simp: quotaSetState_def frame_simps split: option.split)

lemma settle_None_any: "settle i st q = None \<longleftrightarrow> settle i st2 q = None"
  by (simp add: settle_None)

text \<open>
  A charge is settled once: after a commit or a refund of it, every later commit, refund or
  synchronous refund of the same charge leaves the tally, the charges, the mirror and the
  waiting writes as they are.
\<close>

theorem settled_once:
  assumes "st1 = quotaCommitted \<or> st1 = quotaRefunded"
  shows "quotaSetState up2 cid st2 d2 sync2 (quotaSetState up1 cid st1 d1 sync1 q)
           = quotaSetState up1 cid st1 d1 sync1 q"
proof (cases "settle cid st1 q")
  case None
  then have "settle cid st2 q = None" using settle_None_any by blast
  with None show ?thesis by (simp add: quotaSetState_def)
next
  case (Some q1)
  have "st1 \<noteq> quotaOpen" using assms by auto
  have "lgCharges (quotaSetState up1 cid st1 d1 sync1 q) = lgCharges q1"
    using Some by (simp add: quotaSetState_state)
  moreover have "settle cid st2 q1 = None" by (rule settle_settled [OF Some \<open>st1 \<noteq> quotaOpen\<close>])
  ultimately have "settle cid st2 (quotaSetState up1 cid st1 d1 sync1 q) = None"
    using settle_frame by metis
  then show ?thesis by (simp add: quotaSetState_def [of up2])
qed

theorem settled_once_witness:
  "quotaRefund ''a1'' 0 (quotaCommit ''a1'' 3
     (snd (quotaCheckAndCharge ''a1'' 0 True plain_users 7 [] ''artist'' (no_charges None))))
   = quotaCommit ''a1'' 3
     (snd (quotaCheckAndCharge ''a1'' 0 True plain_users 7 [] ''artist'' (no_charges None)))"
  unfolding quotaRefund_def quotaCommit_def by (rule settled_once) simp

subsection \<open>Giving slots back: the contract the cancel paths rely on\<close>

text \<open>
  A cancel hands back every charge it finds, some of them twice.  Its contract with the ledger:
  giving an open charge back frees one slot of its key and closes it, giving back anything
  else changes nothing.
\<close>

locale slot_ledger =
  fixes ok :: "'s \<Rightarrow> bool"
    and used :: "'s \<Rightarrow> 'k \<Rightarrow> int"
    and owner :: "'s \<Rightarrow> 'i \<Rightarrow> 'k option"
    and give :: "'i \<Rightarrow> 's \<Rightarrow> 's"
  assumes give_ok: "ok s \<Longrightarrow> ok (give i s)"
    and give_owner: "ok s \<Longrightarrow> owner (give i s) j = (if j = i then None else owner s j)"
    and give_used: "ok s \<Longrightarrow> used (give i s) k = used s k - (if owner s i = Some k then 1 else 0)"

context slot_ledger begin

lemma give_all_ok: "ok s \<Longrightarrow> ok (fold give is s)"
  by (induction "is" arbitrary: s) (auto simp: give_ok)

lemma give_all_owner: "ok s \<Longrightarrow> owner (fold give is s) j = (if j \<in> set is then None else owner s j)"
  by (induction "is" arbitrary: s) (auto simp: give_ok give_owner)

text \<open>Each open charge among those given back frees its slot once, however often it is listed.\<close>

lemma give_all_used:
  "ok s \<Longrightarrow> used (fold give is s) k = used s k - int (card {i \<in> set is. owner s i = Some k})"
proof (induction "is" arbitrary: s)
  case (Cons i js)
  let ?S = "{j \<in> set (i # js). owner s j = Some k}" and ?T = "{j \<in> set js. owner (give i s) j = Some k}"
  have T: "?T = ?S - {i}" using Cons.prems by (auto simp: give_owner)
  have "card ?S = card ?T + (if owner s i = Some k then 1 else 0)"
  proof (cases "owner s i = Some k")
    case True
    then have "i \<in> ?S" by simp
    then have "card ?S = Suc (card (?S - {i}))" by (intro card.remove) auto
    with True T show ?thesis by simp
  next
    case False
    then have "?S - {i} = ?S" by auto
    with False T show ?thesis by simp
  qed
  then show ?case using Cons.IH [OF give_ok [OF Cons.prems, of i]] Cons.prems by (simp add: give_used)
qed simp

end

definition open_key :: "ledger \<Rightarrow> string \<Rightarrow> quota_key option" where
  "open_key q i = (case lgCharges q i of None \<Rightarrow> None
                   | Some c \<Rightarrow> if chState c = quotaOpen then Some (charge_key c) else None)"

lemma open_key_Nil: "ledger_ok q \<Longrightarrow> open_key q [] = None"
  by (auto simp: ledger_ok_def open_key_def split: option.split)

lemma settle_None_open: "ledger_ok q \<Longrightarrow> settle i st q = None \<longleftrightarrow> open_key q i = None"
  using open_key_Nil [of q] by (auto simp: settle_None open_key_def split: option.split)

lemma open_key_settle:
  assumes "ledger_ok q" "st \<noteq> quotaOpen"
  shows "open_key (quotaSetState up i st d sync q) j = (if j = i then None else open_key q j)"
proof (cases "settle i st q")
  case None
  then have "open_key q i = None" using settle_None_open [OF assms(1)] by simp
  with None show ?thesis by (auto simp: quotaSetState_def)
next
  case (Some q1)
  with settle_charges [OF Some] assms(2) show ?thesis
    by (auto simp: open_key_def quotaSetState_state)
qed

lemma used_settle:
  assumes "ledger_ok q" "st \<noteq> quotaOpen"
  shows "cget (lgUsage (quotaSetState up i st d sync q)) k
     = cget (lgUsage q) k - (if st = quotaRefunded \<and> open_key q i = Some k then 1 else 0)"
proof (cases "settle i st q")
  case None
  then have "open_key q i = None" using settle_None_open [OF assms(1)] by simp
  with None show ?thesis by (simp add: quotaSetState_state)
next
  case (Some q1)
  from Some obtain c where c: "lgCharges q i = Some c" "chState c = quotaOpen" "i \<noteq> []"
    by (auto simp: settle_def split: if_splits option.splits)
  then have "i \<in> counted q (charge_key c)" by (simp add: counted_def)
  moreover have "finite (counted q (charge_key c))"
    using assms(1) by (intro finite_counted) (simp add: ledger_ok_def)
  ultimately have "0 < card (counted q (charge_key c))" by (auto simp: card_gt_0_iff)
  then have pos: "0 < cget (lgUsage q) (charge_key c)" using ledger_tally [OF assms(1), of "charge_key c"] by simp
  show ?thesis
    using Some c pos by (auto simp: quotaSetState_state settle_def open_key_def cget_cadd Let_def split: if_splits)
qed

interpretation refunds:
  slot_ledger ledger_ok "\<lambda>q. cget (lgUsage q)" open_key "\<lambda>i. quotaSetState up i quotaRefunded d sync"
  for up d sync
  by unfold_locales (simp_all add: quotaSetState_ok open_key_settle used_settle)

text \<open>
  A cancel returns each slot once: refunding any list of charge ids, with repeats, unknown
  ids and settled ones, lowers every tally by exactly the number of distinct open charges of
  that key in the list, and leaves the other charges open.
\<close>

theorem cancel_returns_each_slot_once:
  assumes "ledger_ok q"
  shows "cget (lgUsage (fold (\<lambda>i. quotaRefund i 0) cids q)) k
           = cget (lgUsage q) k - int (card {i \<in> set cids. open_key q i = Some k}) \<and>
         open_key (fold (\<lambda>i. quotaRefund i 0) cids q) j = (if j \<in> set cids then None else open_key q j)"
  unfolding quotaRefund_def
  using refunds.give_all_used [OF assms] refunds.give_all_owner [OF assms] by blast

definition two_charges :: ledger where
  "two_charges = (no_charges None)\<lparr>lgUsage := [(7, 0, ''artist'') \<mapsto> 2],
     lgCharges := [''a1'' \<mapsto> \<lparr>chUser = 7, chKind = ''artist'', chDay = 0, chState = quotaOpen\<rparr>,
                   ''a2'' \<mapsto> \<lparr>chUser = 7, chKind = ''artist'', chDay = 0, chState = quotaCommitted\<rparr>]\<rparr>"

lemma two_charges_ok: "ledger_ok two_charges"
proof -
  have "counted two_charges k = (if k = (7, 0, ''artist'') then {''a1'', ''a2''} else {})" for k
    by (auto simp: counted_def two_charges_def charge_key_def split: if_splits)
  then show ?thesis by (simp add: ledger_ok_def two_charges_def no_charges_def)
qed

theorem cancel_returns_each_slot_once_witness:
  "cget (lgUsage (fold (\<lambda>i. quotaRefund i 0) [''a1'', ''a2'', ''a1''] two_charges)) (7, 0, ''artist'') = 1"
proof -
  have "{i \<in> set [''a1'', ''a2'', ''a1'']. open_key two_charges i = Some (7, 0, ''artist'')} = {''a1''}"
    by (auto simp: open_key_def two_charges_def charge_key_def)
  then show ?thesis
    using cancel_returns_each_slot_once [OF two_charges_ok, of "[''a1'', ''a2'', ''a1'']" "(7, 0, ''artist'')" "[]"]
    by (simp add: two_charges_def)
qed

subsection \<open>Settling a heavy rip and the member valve\<close>

text \<open>
  C26: A heavy rip's charge ends committed when the rip ran to its end and delivered something, or
  its owner cancelled it past the exemption threshold, and then its slot stays taken; in every
  other case it ends refunded and exactly one slot of its key is returned.
\<close>

theorem heavy_rip_settlement:
  assumes "ledger_ok q" "lgCharges q cid = Some c" "chState c = quotaOpen"
    and "q' = finalizeHeavyQuota cid delivered byOwner flushed cancelled deliveredSomething releases perRelease q"
    and "keep \<longleftrightarrow> (if cancelled then byOwner \<and> (if perRelease then 0 < releases \<and> releases < 2 * delivered else flushed)
                    else deliveredSomething)"
  shows "lgCharges q' cid = Some (c\<lparr>chState := (if keep then quotaCommitted else quotaRefunded)\<rparr>) \<and>
         cget (lgUsage q') k = cget (lgUsage q) k - (if \<not> keep \<and> k = charge_key c then 1 else 0)"
proof -
  have cid: "cid \<noteq> []" using assms(1,2) by (auto simp: ledger_ok_def)
  let ?st = "if keep then quotaCommitted else quotaRefunded"
  have q': "q' = quotaSetState True cid ?st delivered False q"
    using assms(4,5) cid
    by (auto simp: finalizeHeavyQuota_def past_threshold_def quotaCommit_def quotaRefund_def mult.commute)
  have st: "?st \<noteq> quotaOpen" by simp
  have "settle cid ?st q \<noteq> None" using assms(2,3) cid by (simp add: settle_None)
  then obtain q1 where q1: "settle cid ?st q = Some q1" by blast
  have "lgCharges q' cid = Some (c\<lparr>chState := ?st\<rparr>)"
    using settle_charges [OF q1] assms(2) by (auto simp: q' quotaSetState_state q1)
  then show ?thesis
    using used_settle [OF assms(1) st, of True cid delivered False k] assms(2,3)
    by (auto simp: q' open_key_def)
qed

theorem heavy_rip_settlement_witness:
  "cget (lgUsage (finalizeHeavyQuota ''a1'' 3 True False True False 6 True two_charges)) (7, 0, ''artist'') = 1 \<and>
   cget (lgUsage (finalizeHeavyQuota ''a1'' 4 True False True False 6 True two_charges)) (7, 0, ''artist'') = 2"
proof -
  let ?c = "\<lparr>chUser = 7, chKind = ''artist'', chDay = 0, chState = quotaOpen\<rparr>"
  have c: "lgCharges two_charges ''a1'' = Some ?c" "chState ?c = quotaOpen" by (simp_all add: two_charges_def)
  show ?thesis
    using heavy_rip_settlement [OF two_charges_ok c refl, where keep = False and delivered = 3 and byOwner = True
        and flushed = False and cancelled = True and deliveredSomething = False and releases = 6
        and perRelease = True and k = "(7, 0, ''artist'')"]
      heavy_rip_settlement [OF two_charges_ok c refl, where keep = True and delivered = 4 and byOwner = True
        and flushed = False and cancelled = True and deliveredSomething = False and releases = 6
        and perRelease = True and k = "(7, 0, ''artist'')"]
    by (auto simp: two_charges_def charge_key_def)
qed

text \<open>
  The valve gates members only: an admin, a donor, a headless request, or anyone while
  restriction mode is off, is admitted with no charge and no message and the ledger is untouched;
  for a member, a cached delivery spends one slot like a rip, a cache miss spends none, and a
  member out of slots is answered once and the request ends.
\<close>

theorem member_valve:
  assumes "ledger_ok q" "new_id gid q" "day = quotaDay now"
    and "trySendCachedAlbumZipQuota gid now up s cached u username q = (finished, sent, q')"
  shows "(\<not> isRestrictedMember s u username \<longrightarrow> q' = q \<and> finished = cached \<and> sent = []) \<and>
    (isRestrictedMember s u username \<longrightarrow>
       (if cget (lgUsage q) (u, day, ''album'') < memberAlbumsPerDay
        then finished = cached \<and> sent = [] \<and>
             cget (lgUsage q') (u, day, ''album'') = cget (lgUsage q) (u, day, ''album'') + (if cached then 1 else 0)
        else q' = q \<and> finished \<and> sent = [out_of_slots_reply ''album'']))"
proof (cases "isRestrictedMember s u username")
  case False
  with assms(4) show ?thesis
    by (auto simp: trySendCachedAlbumZipQuota_def admitRestricted_def quotaCommit_def quotaRefund_def
        quotaSetState_def settle_def split: if_splits)
next
  case True
  then have u: "u \<noteq> 0" "ripLimit s ''album'' (isUserDonor s u username) = memberAlbumsPerDay"
    by (auto simp: isRestrictedMember_def ripLimit_def split: if_splits)
  let ?r = "quotaCheckAndCharge gid now up s u username ''album'' q"
  have gid: "lgCharges q gid = None" "gid \<noteq> []" using assms(2) by (simp_all add: new_id_def)
  have ok: "ledger_ok (snd ?r)" by (rule quotaCheckAndCharge_ok [OF assms(1) gid])
  show ?thesis
  proof (cases "cget (lgUsage q) (u, day, ''album'') < memberAlbumsPerDay")
    case False
    with True u assms(3,4) show ?thesis
      by (auto simp: trySendCachedAlbumZipQuota_def admitRestricted_def quotaCheckAndCharge_def Let_def)
  next
    case lt: True
    then obtain q1 where r: "?r = ((gid, True), q1)"
      using u assms(3) by (auto simp: quotaCheckAndCharge_def Let_def)
    have q1: "lgCharges q1 = (lgCharges q)(gid \<mapsto> \<lparr>chUser = u, chKind = ''album'', chDay = day, chState = quotaOpen\<rparr>)"
      "cget (lgUsage q1) (u, day, ''album'') = cget (lgUsage q) (u, day, ''album'') + 1"
      using r u lt assms(3) by (auto simp: quotaCheckAndCharge_def Let_def frame_simps)
    have "open_key q1 gid = Some (u, day, ''album'')" by (simp add: open_key_def q1 charge_key_def)
    moreover have "ledger_ok q1" using ok r by simp
    ultimately show ?thesis
      using True lt r q1(2) assms(4)
      by (auto simp: trySendCachedAlbumZipQuota_def admitRestricted_def quotaCommit_def quotaRefund_def used_settle)
  qed
qed

theorem member_valve_witness:
  "fst (trySendCachedAlbumZipQuota ''a9'' 0 True (plain_users\<lparr>uRestriction := True\<rparr>) True 7 [] two_charges)"
proof -
  obtain f m q' where r: "trySendCachedAlbumZipQuota ''a9'' 0 True (plain_users\<lparr>uRestriction := True\<rparr>) True 7 [] two_charges
      = (f, m, q')" by (metis prod.collapse)
  have n: "new_id ''a9'' two_charges" by (simp add: new_id_def two_charges_def no_charges_def)
  from member_valve [OF two_charges_ok n refl r] r show ?thesis by (auto split: if_splits)
qed

end
