(* ===== verification/Rip_State.thy ===== *)
theory Rip_State
  imports User_State "HOL-Library.Multiset"
begin

section \<open>The state of one rip, and the registry of files in use\<close>

text \<open>
  \<^verbatim>\<open>bot/ripstate.go\<close>.  A rip is the record \<open>rip\<close>; several rips share the in-use registry and
  the disk, so the operations on files work on a \<open>world\<close>.  The counting maps \<^verbatim>\<open>held\<close> and
  \<^verbatim>\<open>inUseFiles.ref\<close> delete an entry when it reaches zero, hence are multisets.  Normalising
  a path (\<^verbatim>\<open>filepath.Abs\<close>, \<^verbatim>\<open>filepath.Clean\<close>) is the argument \<open>key\<close>; the disk maps a normalised
  path to the size of its file.  An operation is one critical section; a flush is two, with
  the delivery callback between them.  The fallback of a nil receiver to package globals (the
  command-line path) is not modelled, except where the answer is a constant.
\<close>

subsection \<open>Data\<close>

text \<open>\<^verbatim>\<open>AudioMeta\<close> of \<^verbatim>\<open>main.go\<close>: what the rip learned about a downloaded file.\<close>

record audio_meta =
  aTrackID :: string
  aTitle :: string
  aPerformer :: string
  aDurationMillis :: int
  aAlbumName :: string
  aReleaseDate :: string
  aContentRating :: string
  aQuality :: string
  aCodec :: string
  aActualFormat :: string
  aISRC :: string
  aAlbumID :: string
  aPlaylistName :: string
  aPlaylistArtist :: string
  aPlaylistArtworkURL :: string
  aPlaylistTrackCount :: int

definition zero_audio_meta :: audio_meta where
  "zero_audio_meta = \<lparr>aTrackID = [], aTitle = [], aPerformer = [], aDurationMillis = 0, aAlbumName = [],
     aReleaseDate = [], aContentRating = [], aQuality = [], aCodec = [], aActualFormat = [], aISRC = [],
     aAlbumID = [], aPlaylistName = [], aPlaylistArtist = [], aPlaylistArtworkURL = [], aPlaylistTrackCount = 0\<rparr>"

record rip =
  sAtmos :: bool
  sAAC :: bool
  sSelect :: bool
  sSong :: bool
  sNoCache :: bool
  sConvertAfterDownload :: bool
  sConvertFormat :: string
  sConvertKeepOriginal :: bool
  sConvertSkipLossyToLossless :: bool
  sPrefs :: "user_prefs option"
  sOkDict :: "string \<rightharpoonup> int list"
  sPaths :: "string list"
  sHeld :: "string multiset"
  sMeta :: "string \<rightharpoonup> audio_meta"
  sFailures :: "string list"
  sReleaseWarnings :: "string list"
  sWrapperBudget :: int
  sTotalTracks :: int
  sDoneTracks :: int
  sFlushThreshold :: int
  sFlushStageOnly :: bool
  sHasFlush :: bool
  sFlushSeq :: int
  sFlushStart :: nat
  sMeasuredIdx :: nat
  sPendingBytes :: int
  sFlushedAny :: bool
  sFlushName :: string
  sQuotaOwnerCancel :: bool

definition newRipState :: rip where
  "newRipState = \<lparr>sAtmos = False, sAAC = False, sSelect = False, sSong = False, sNoCache = False,
     sConvertAfterDownload = False, sConvertFormat = [], sConvertKeepOriginal = False,
     sConvertSkipLossyToLossless = False, sPrefs = None, sOkDict = Map.empty, sPaths = [], sHeld = {#}, sMeta = Map.empty,
     sFailures = [], sReleaseWarnings = [], sWrapperBudget = 0, sTotalTracks = 0, sDoneTracks = 0,
     sFlushThreshold = 0, sFlushStageOnly = False, sHasFlush = False, sFlushSeq = 0, sFlushStart = 0,
     sMeasuredIdx = 0, sPendingBytes = 0, sFlushedAny = False, sFlushName = [], sQuotaOwnerCancel = False\<rparr>"

record world =
  wRips :: "rip list"
  wReg :: "string multiset"
  wDisk :: "string \<rightharpoonup> int"

definition upd_rip :: "nat \<Rightarrow> (rip \<Rightarrow> rip) \<Rightarrow> world \<Rightarrow> world" where
  "upd_rip i f w = w\<lparr>wRips := (wRips w)[i := f (wRips w ! i)]\<rparr>"

subsection \<open>The in-use registry\<close>

definition retainInUse :: "(string \<Rightarrow> string) \<Rightarrow> string \<Rightarrow> world \<Rightarrow> world" where
  "retainInUse key p w = (if p = [] then w else w\<lparr>wReg := add_mset (key p) (wReg w)\<rparr>)"

definition releaseInUse :: "(string \<Rightarrow> string) \<Rightarrow> string \<Rightarrow> world \<Rightarrow> nat \<times> world" where
  "releaseInUse key p w =
     (if p = [] then (0, w)
      else if key p \<in># wReg w
           then (let reg = wReg w - {#key p#} in (count reg (key p), w\<lparr>wReg := reg\<rparr>))
           else (0, w))"

definition isInUse :: "(string \<Rightarrow> string) \<Rightarrow> string \<Rightarrow> world \<Rightarrow> bool" where
  "isInUse key p w = (p \<noteq> [] \<and> key p \<in># wReg w)"

definition anyInUse :: "world \<Rightarrow> bool" where
  "anyInUse w = (wReg w \<noteq> {#})"

definition retain :: "(string \<Rightarrow> string) \<Rightarrow> nat \<Rightarrow> string \<Rightarrow> world \<Rightarrow> world" where
  "retain key i p w =
     (if p = [] then w
      else retainInUse key p (upd_rip i (\<lambda>r. r\<lparr>sHeld := add_mset p (sHeld r)\<rparr>) w))"

definition releaseHeld :: "(string \<Rightarrow> string) \<Rightarrow> nat \<Rightarrow> string \<Rightarrow> world \<Rightarrow> (nat \<times> bool) \<times> world" where
  "releaseHeld key i p w =
     (if p = [] then ((0, False), w)
      else if p \<in># sHeld (wRips w ! i)
           then (let (n, w') = releaseInUse key p (upd_rip i (\<lambda>r. r\<lparr>sHeld := sHeld r - {#p#}\<rparr>) w)
                 in ((n, True), w'))
           else ((0, False), w))"

text \<open>\<open>ps\<close> is the order in which Go lists the rip's held paths, each as often as it is held.\<close>

definition releaseAllHeld :: "(string \<Rightarrow> string) \<Rightarrow> nat \<Rightarrow> string list \<Rightarrow> world \<Rightarrow> world" where
  "releaseAllHeld key i ps w =
     fold (\<lambda>p w. snd (releaseInUse key p w)) ps (upd_rip i (\<lambda>r. r\<lparr>sHeld := {#}\<rparr>) w)"

subsection \<open>Paths and the deletion of delivered files\<close>

definition addPath :: "(string \<Rightarrow> string) \<Rightarrow> nat \<Rightarrow> string \<Rightarrow> world \<Rightarrow> world" where
  "addPath key i p w = retain key i p (upd_rip i (\<lambda>r. r\<lparr>sPaths := sPaths r @ [p]\<rparr>) w)"

definition snapshotPaths :: "rip \<Rightarrow> string list" where
  "snapshotPaths r = sPaths r"

definition remainderPaths :: "rip \<Rightarrow> string list" where
  "remainderPaths r =
     (let start = (if length (sPaths r) < sFlushStart r then 0 else sFlushStart r)
      in drop start (sPaths r))"

definition removeFlushedFile :: "(string \<Rightarrow> string) \<Rightarrow> nat \<Rightarrow> string \<Rightarrow> world \<Rightarrow> world" where
  "removeFlushedFile key i p w =
     (if p = [] then w
      else case releaseHeld key i p w of
             ((remaining, held), w1) \<Rightarrow>
               if held \<and> 0 < remaining then w1
               else if isInUse key p w1 then w1
               else w1\<lparr>wDisk := (wDisk w1)(key p := None)\<rparr>)"

definition removeFlushedFiles :: "(string \<Rightarrow> string) \<Rightarrow> nat \<Rightarrow> string list \<Rightarrow> world \<Rightarrow> world" where
  "removeFlushedFiles key i ps w = fold (removeFlushedFile key i) ps w"

subsection \<open>Flushing\<close>

definition setFlush :: "int \<Rightarrow> bool \<Rightarrow> rip \<Rightarrow> rip" where
  "setFlush threshold fn r = r\<lparr>sFlushThreshold := threshold, sHasFlush := fn, sFlushStageOnly := False\<rparr>"

definition setStagingFlush :: "int \<Rightarrow> bool \<Rightarrow> rip \<Rightarrow> rip" where
  "setStagingFlush threshold fn r = r\<lparr>sFlushThreshold := threshold, sHasFlush := fn, sFlushStageOnly := True\<rparr>"

definition setFlushName :: "string \<Rightarrow> rip \<Rightarrow> rip" where
  "setFlushName name r = (if name = [] then r else r\<lparr>sFlushName := name\<rparr>)"

definition flushDisplayName :: "rip option \<Rightarrow> string" where
  "flushDisplayName rs = (case rs of None \<Rightarrow> [] | Some r \<Rightarrow> sFlushName r)"

definition flushedSomething :: "rip option \<Rightarrow> bool" where
  "flushedSomething rs = (case rs of None \<Rightarrow> False | Some r \<Rightarrow> sFlushedAny r)"

definition deliveredReleases :: "rip option \<Rightarrow> int" where
  "deliveredReleases rs = (case rs of None \<Rightarrow> 0 | Some r \<Rightarrow> if sFlushStageOnly r then 0 else sFlushSeq r)"

definition markQuotaOwnerCancel :: "rip \<Rightarrow> rip" where
  "markQuotaOwnerCancel r = r\<lparr>sQuotaOwnerCancel := True\<rparr>"

definition quotaCancelledByOwner :: "rip option \<Rightarrow> bool" where
  "quotaCancelledByOwner rs = (case rs of None \<Rightarrow> False | Some r \<Rightarrow> sQuotaOwnerCancel r)"

definition measurePending :: "(string \<Rightarrow> string) \<Rightarrow> (string \<rightharpoonup> int) \<Rightarrow> rip \<Rightarrow> rip" where
  "measurePending key disk r =
     (let m = max (sMeasuredIdx r) (sFlushStart r);
          new = drop m (sPaths r);
          bytes = sum_list (map (\<lambda>p. case disk (key p) of None \<Rightarrow> 0 | Some n \<Rightarrow> n) new)
      in r\<lparr>sMeasuredIdx := max m (length (sPaths r)), sPendingBytes := sPendingBytes r + bytes\<rparr>)"

text \<open>The first section of a checkpoint: is it over the threshold?\<close>

definition checkpoint_due :: "(string \<Rightarrow> string) \<Rightarrow> bool \<Rightarrow> nat \<Rightarrow> world \<Rightarrow> world \<times> bool" where
  "checkpoint_due key cancelled i w =
     (let r = wRips w ! i in
      if \<not> sHasFlush r \<or> sFlushThreshold r \<le> 0 then (w, False)
      else if cancelled then (w, False)
      else let r1 = measurePending key (wDisk w) r
           in (upd_rip i (\<lambda>_. r1) w, \<not> sPendingBytes r1 < sFlushThreshold r1))"

text \<open>The files the drained tracks registered, then the chunk to deliver and its part number.\<close>

definition checkpoint_chunk :: "(string \<Rightarrow> string) \<Rightarrow> nat \<Rightarrow> world \<Rightarrow> world \<times> (string list \<times> nat \<times> int) option" where
  "checkpoint_chunk key i w =
     (let r = wRips w ! i in
      if \<not> sHasFlush r then (w, None)
      else let r1 = measurePending key (wDisk w) r;
               chunk = drop (sFlushStart r1) (sPaths r1)
           in if chunk = [] then (upd_rip i (\<lambda>_. r1\<lparr>sPendingBytes := 0\<rparr>) w, None)
              else (upd_rip i (\<lambda>_. r1) w, Some (chunk, length (sPaths r1), sFlushSeq r1 + 1)))"

definition flush_commit :: "nat \<Rightarrow> int \<Rightarrow> rip \<Rightarrow> rip" where
  "flush_commit chunkEnd part r =
     r\<lparr>sFlushSeq := part, sFlushStart := chunkEnd, sMeasuredIdx := chunkEnd, sPendingBytes := 0,
       sFlushedAny := sFlushedAny r \<or> \<not> sFlushStageOnly r\<rparr>"

definition checkpoint_finish ::
  "(string \<Rightarrow> string) \<Rightarrow> nat \<Rightarrow> bool \<Rightarrow> string list \<times> nat \<times> int \<Rightarrow> world \<Rightarrow> world" where
  "checkpoint_finish key i ok c w =
     (case c of (chunk, chunkEnd, part) \<Rightarrow>
        if \<not> ok then upd_rip i (\<lambda>r. r\<lparr>sPendingBytes := 0\<rparr>) w
        else upd_rip i (flush_commit chunkEnd part) (removeFlushedFiles key i chunk w))"

text \<open>
  A checkpoint: \<open>drained\<close> are the paths registered while \<^verbatim>\<open>drain\<close> waits, \<open>during\<close> those registered
  while the callback runs, \<open>ok\<close> is its result.  The second component is the chunk delivered.
\<close>

definition checkpointFlush ::
  "(string \<Rightarrow> string) \<Rightarrow> nat \<Rightarrow> bool \<Rightarrow> string list \<Rightarrow> string list \<Rightarrow> bool \<Rightarrow> world \<Rightarrow> world \<times> string list" where
  "checkpointFlush key i cancelled drained during ok w =
     (case checkpoint_due key cancelled i w of
        (w1, False) \<Rightarrow> (w1, [])
      | (w1, True) \<Rightarrow>
          (case checkpoint_chunk key i (fold (addPath key i) drained w1) of
             (w2, None) \<Rightarrow> (w2, [])
           | (w2, Some c) \<Rightarrow>
               (checkpoint_finish key i ok c (fold (addPath key i) during w2), if ok then fst c else [])))"

definition boundary_chunk :: "bool \<Rightarrow> rip \<Rightarrow> (string list \<times> nat \<times> int) option" where
  "boundary_chunk cancelled r =
     (if \<not> sHasFlush r \<or> cancelled then None
      else let chunk = remainderPaths r
           in if chunk = [] then None else Some (chunk, length (sPaths r), sFlushSeq r + 1))"

definition flushReleaseBoundary ::
  "(string \<Rightarrow> string) \<Rightarrow> nat \<Rightarrow> bool \<Rightarrow> string list \<Rightarrow> bool \<Rightarrow> world \<Rightarrow> world \<times> string list" where
  "flushReleaseBoundary key i cancelled during ok w =
     (case boundary_chunk cancelled (wRips w ! i) of
        None \<Rightarrow> (w, [])
      | Some (chunk, chunkEnd, part) \<Rightarrow>
          let w1 = fold (addPath key i) during w
          in if \<not> ok then (w1, [])
             else (upd_rip i (flush_commit chunkEnd part) (removeFlushedFiles key i chunk w1), chunk))"

subsection \<open>Track accounting and the wrapper budget\<close>

definition setWrapperCapacity :: "int \<Rightarrow> int" where
  "setWrapperCapacity n = (if n < 1 then 1 else n)"

definition poolSize :: "int \<Rightarrow> int" where
  "poolSize managerCapacity = (if managerCapacity < 1 then 1 else managerCapacity)"

definition wrapperBudget :: "int \<Rightarrow> rip option \<Rightarrow> int" where
  "wrapperBudget managerCapacity rs =
     (let n = poolSize managerCapacity
      in case rs of
           None \<Rightarrow> n
         | Some r \<Rightarrow> if sWrapperBudget r \<le> 0 \<or> n < sWrapperBudget r then n else sWrapperBudget r)"

definition planTracks :: "int \<Rightarrow> rip \<Rightarrow> rip" where
  "planTracks n r = (if n \<le> 0 then r else r\<lparr>sTotalTracks := sTotalTracks r + n\<rparr>)"

definition trackDone :: "rip \<Rightarrow> rip" where
  "trackDone r = r\<lparr>sDoneTracks := sDoneTracks r + 1\<rparr>"

definition remainingTracks :: "rip option \<Rightarrow> int" where
  "remainingTracks rs =
     (case rs of None \<Rightarrow> 0
      | Some r \<Rightarrow> let n = sTotalTracks r - sDoneTracks r in if n < 0 then 0 else n)"

definition markDone :: "string \<Rightarrow> int \<Rightarrow> rip \<Rightarrow> rip" where
  "markDone preID taskNum r =
     r\<lparr>sOkDict := (sOkDict r)(preID \<mapsto> (case sOkDict r preID of None \<Rightarrow> [] | Some ns \<Rightarrow> ns) @ [taskNum])\<rparr>"

definition isDone :: "string \<Rightarrow> int \<Rightarrow> rip \<Rightarrow> bool" where
  "isDone preID taskNum r = (case sOkDict r preID of None \<Rightarrow> False | Some ns \<Rightarrow> taskNum \<in> set ns)"

definition forgetDone :: "string \<Rightarrow> rip \<Rightarrow> rip" where
  "forgetDone preID r = (if preID = [] then r else r\<lparr>sOkDict := (sOkDict r)(preID := None)\<rparr>)"

definition putMeta :: "string \<Rightarrow> audio_meta \<Rightarrow> rip \<Rightarrow> rip" where
  "putMeta path m r = r\<lparr>sMeta := (sMeta r)(path \<mapsto> m)\<rparr>"

definition getMeta :: "string \<Rightarrow> rip \<Rightarrow> audio_meta option" where
  "getMeta path r = sMeta r path"

subsection \<open>Failures and warnings\<close>

definition recordFailure :: "string \<Rightarrow> rip \<Rightarrow> rip" where
  "recordFailure msg0 r =
     (let msg = trim_space msg0
      in if msg = [] \<or> msg \<in> set (sFailures r) then r else r\<lparr>sFailures := sFailures r @ [msg]\<rparr>)"

definition recordReleaseWarning :: "string \<Rightarrow> rip \<Rightarrow> rip" where
  "recordReleaseWarning msg0 r =
     (let msg = trim_space msg0
      in if msg = [] then r else r\<lparr>sReleaseWarnings := sReleaseWarnings r @ [msg]\<rparr>)"

definition summarizeFailures :: "string list \<Rightarrow> string" where
  "summarizeFailures failures =
     (if failures = [] then []
      else let limit = min 3 (length failures);
               summary = join_with ''; '' (take limit failures)
           in if limit < length failures
              then summary @ ''; and '' @ itoa (int (length failures - limit)) @ '' more'' else summary)"

definition failureSummary :: "rip \<Rightarrow> string" where
  "failureSummary r = summarizeFailures (sFailures r)"

definition releaseWarningSummary :: "rip \<Rightarrow> string" where
  "releaseWarningSummary r = summarizeFailures (sReleaseWarnings r)"

subsection \<open>The per-rip configuration\<close>

text \<open>The fields of \<^verbatim>\<open>structs.ConfigSet\<close> a rip overlays; the others are the record's extension.\<close>

record config =
  cConvertAfterDownload :: bool
  cConvertFormat :: string
  cConvertKeepOriginal :: bool
  cConvertSkipLossyToLossless :: bool
  cSaveLrcFile :: bool
  cLrcType :: string
  cEmbedLrc :: bool
  cEmbedCover :: bool
  cSaveAnimatedArtwork :: bool
  cAlacMax :: int
  cAtmosMax :: int
  cAacType :: string
  cCoverFormat :: string
  cCoverSize :: string
  cLanguage :: string
  cMVMax :: int
  cAppleMasterChoice :: string

definition lyricStripTimestamps :: "rip option \<Rightarrow> bool" where
  "lyricStripTimestamps rs =
     (case rs of None \<Rightarrow> False
      | Some r \<Rightarrow> (case sPrefs r of None \<Rightarrow> False | Some p \<Rightarrow> pLyricMode p = ''static''))"

definition or_str :: "string \<Rightarrow> string \<Rightarrow> string" where
  "or_str x d = (if x \<noteq> [] then x else d)"

definition or_opt :: "'a option \<Rightarrow> 'a \<Rightarrow> 'a" where
  "or_opt x d = (case x of Some v \<Rightarrow> v | None \<Rightarrow> d)"

definition applyPrefsToConfig :: "'x config_scheme \<Rightarrow> user_prefs option \<Rightarrow> 'x config_scheme" where
  "applyPrefsToConfig cfg prefs =
     (case prefs of
        None \<Rightarrow> cfg
      | Some p \<Rightarrow>
          let c1 = (if pLyricMode p = ''off'' then cfg\<lparr>cSaveLrcFile := False\<rparr>
                    else if pLyricMode p = ''synced'' \<or> pLyricMode p = ''static''
                      then cfg\<lparr>cSaveLrcFile := True, cLrcType := ''lyrics''\<rparr>
                    else if pLyricMode p = ''word''
                      then cfg\<lparr>cSaveLrcFile := True, cLrcType := ''syllable-lyrics''\<rparr>
                    else cfg);
              c2 = c1\<lparr>cEmbedLrc := or_opt (pEmbedLrc p) (cEmbedLrc c1),
                      cEmbedCover := or_opt (pEmbedCover p) (cEmbedCover c1),
                      cSaveAnimatedArtwork := or_opt (pAnimatedArt p) (cSaveAnimatedArtwork c1)\<rparr>;
              c3 = (if pQuality p = ''redbook'' then c2\<lparr>cAlacMax := 44100, cAtmosMax := 2448\<rparr>
                    else if pQuality p = ''hires'' then c2\<lparr>cAlacMax := 192000, cAtmosMax := 2768\<rparr>
                    else c2);
              c4 = c3\<lparr>cAacType := or_str (pAacType p) (cAacType c3),
                      cCoverFormat := or_str (pCoverFormat p) (cCoverFormat c3),
                      cCoverSize := or_str (pCoverSize p) (cCoverSize c3),
                      cLanguage := or_str (pLanguage p) (cLanguage c3),
                      cMVMax := (if pMVMax p \<noteq> 0 then pMVMax p else cMVMax c3)\<rparr>
          in case pAppleMaster p of
               None \<Rightarrow> c4
             | Some True \<Rightarrow> (if cAppleMasterChoice c4 = [] then c4\<lparr>cAppleMasterChoice := ''[M]''\<rparr> else c4)
             | Some False \<Rightarrow> c4\<lparr>cAppleMasterChoice := []\<rparr>)"

definition ripConfig :: "'x config_scheme \<Rightarrow> rip option \<Rightarrow> 'x config_scheme" where
  "ripConfig global rs =
     (case rs of
        None \<Rightarrow> global
      | Some r \<Rightarrow> applyPrefsToConfig
          (global\<lparr>cConvertAfterDownload := sConvertAfterDownload r, cConvertFormat := sConvertFormat r,
             cConvertKeepOriginal := sConvertKeepOriginal r,
             cConvertSkipLossyToLossless := sConvertSkipLossyToLossless r\<rparr>) (sPrefs r))"

lemma unset_prefs_inherit [simp]: "applyPrefsToConfig cfg (Some zero_prefs) = cfg"
  by (simp add: applyPrefsToConfig_def zero_prefs_def or_opt_def or_str_def Let_def)

end
