(* ===== verification/Dedup.thy ===== *)
theory Dedup
  imports Catalog_Ledger User_State
begin

section \<open>Answering a repeated Gofile rip with its links (dedup.go)\<close>

text \<open>
  \<^verbatim>\<open>bot/dedup.go\<close> and \<^verbatim>\<open>effectiveCatalogFormat\<close> of \<^verbatim>\<open>bot/telegram_bot.go\<close>: the content key of a
  request, the compact token of the report button, the check at admission, the record of a
  delivered link, and the reports awaiting a reason.  Texts are the bytes sent; the rich
  rendering of the notice is not modelled.  The asynchronous record is the write it performs.
\<close>

subsection \<open>The identity of a request\<close>

record dedup_info =
  ddKey :: string
  ddKind :: string
  ddID :: string
  ddVariant :: string
  ddLabel :: string
  ddUserID :: int

definition gofileDedupTTL :: int where "gofileDedupTTL = 7 * 24 * 3600"

definition effectiveCatalogFormat :: "string \<Rightarrow> bool \<Rightarrow> bool \<Rightarrow> string" where
  "effectiveCatalogFormat format forceAAC forceAtmos =
     (if forceAtmos then ''atmos'' else if forceAAC then ''aac'' else format)"

definition gofileDedupVariant :: "string \<Rightarrow> bool \<Rightarrow> bool \<Rightarrow> string" where
  "gofileDedupVariant format forceAAC forceAtmos =
     VariantKey (zero_meta\<lparr>mFormat := effectiveCatalogFormat format forceAAC forceAtmos\<rparr>)"

definition gofileDedupKey :: "string \<Rightarrow> string \<Rightarrow> string \<Rightarrow> string" where
  "gofileDedupKey kind i variant =
     (if i = [] \<or> variant = [] then [] else kind @ ''|'' @ i @ ''|'' @ variant)"

definition artistDedupID :: "string \<Rightarrow> string \<Rightarrow> string" where
  "artistDedupID artistID section = artistID @ ''/'' @ (if section = [] then ''all'' else section)"

definition newGofileDedupInfo ::
  "string \<Rightarrow> string \<Rightarrow> string \<Rightarrow> string \<Rightarrow> bool \<Rightarrow> bool \<Rightarrow> int \<Rightarrow> dedup_info option" where
  "newGofileDedupInfo kind i format label forceAAC forceAtmos userID =
     (let variant = gofileDedupVariant format forceAAC forceAtmos;
          key = gofileDedupKey kind i variant
      in if key = [] then None
         else Some \<lparr>ddKey = key, ddKind = kind, ddID = i, ddVariant = variant, ddLabel = label, ddUserID = userID\<rparr>)"

subsection \<open>The report token\<close>

definition kindToCode :: "string \<rightharpoonup> char" where
  "kindToCode = map_of [(''album'', CHR ''a''), (''playlist'', CHR ''p''), (''artist'', CHR ''r'')]"

definition codeToKind :: "char \<rightharpoonup> string" where
  "codeToKind = map_of [(CHR ''a'', ''album''), (CHR ''p'', ''playlist''), (CHR ''r'', ''artist'')]"

definition variantToCode :: "string \<rightharpoonup> char" where
  "variantToCode = map_of [(''v1|q=lossless'', CHR ''l''), (''v1|q=aac'', CHR ''c''), (''v1|q=atmos'', CHR ''x'')]"

definition codeToVariant :: "char \<rightharpoonup> string" where
  "codeToVariant = map_of [(CHR ''l'', ''v1|q=lossless''), (CHR ''c'', ''v1|q=aac''), (CHR ''x'', ''v1|q=atmos'')]"

definition dedupReportData :: "string \<Rightarrow> string \<Rightarrow> string \<Rightarrow> string" where
  "dedupReportData kind i variant =
     (case (kindToCode kind, variantToCode variant) of
        (Some kc, Some vc) \<Rightarrow> if i = [] then [] else [kc, vc, CHR ''|''] @ i
      | _ \<Rightarrow> [])"

definition parseDedupReportData :: "string \<Rightarrow> (string \<times> string \<times> string) option" where
  "parseDedupReportData data =
     (if length data < 4 \<or> data ! 2 \<noteq> CHR ''|'' then None
      else case (codeToKind (data ! 0), codeToVariant (data ! 1)) of
             (Some kind, Some variant) \<Rightarrow> Some (kind, drop 3 data, variant)
           | _ \<Rightarrow> None)"

text \<open>
  The report button survives a restart: its token decodes to the identity it was built from, and
  only tokens built from an identity decode at all, so no other callback text names content.
\<close>

theorem report_token_roundtrip:
  "(dedupReportData kind i variant = tok \<and> tok \<noteq> []) = (parseDedupReportData tok = Some (kind, i, variant))"
proof
  assume l: "dedupReportData kind i variant = tok \<and> tok \<noteq> []"
  then have "i \<noteq> []" by (auto simp: dedupReportData_def split: option.splits if_splits)
  then obtain c j where "i = c # j" by (cases i) auto
  with l show "parseDedupReportData tok = Some (kind, i, variant)"
    by (auto simp: dedupReportData_def parseDedupReportData_def kindToCode_def codeToKind_def
        variantToCode_def codeToVariant_def split: option.splits if_splits)
next
  assume r: "parseDedupReportData tok = Some (kind, i, variant)"
  then have long: "\<not> length tok < 4" "tok ! 2 = CHR ''|''"
    by (auto simp: parseDedupReportData_def split: if_splits)
  then obtain a b e d s where "tok = a # b # e # d # s"
    by (cases tok; cases "tl tok"; cases "tl (tl tok)"; cases "tl (tl (tl tok))") auto
  with r long show "dedupReportData kind i variant = tok \<and> tok \<noteq> []"
    by (auto simp: dedupReportData_def parseDedupReportData_def kindToCode_def codeToKind_def
        variantToCode_def codeToVariant_def split: option.splits if_splits)
qed

definition tierLabel :: "string \<Rightarrow> string" where
  "tierLabel variant =
     (if variant = ''v1|q=lossless'' then ''Lossless''
      else if variant = ''v1|q=aac'' then ''AAC''
      else if variant = ''v1|q=atmos'' then ''Dolby Atmos''
      else ''this format'')"

definition plural :: "nat \<Rightarrow> string \<Rightarrow> string \<Rightarrow> string" where
  "plural n one many = (if n = 1 then one else many)"

subsection \<open>The check at admission and the record\<close>

definition recycle_glyph :: string where "recycle_glyph = [CHR 0xE2, CHR 0x99, CHR 0xBB, CHR 0xEF, CHR 0xB8, CHR 0x8F]"
definition warn_glyph :: string where "warn_glyph = [CHR 0xE2, CHR 0x9A, CHR 0xA0, CHR 0xEF, CHR 0xB8, CHR 0x8F]"
definition flag_glyph :: string where "flag_glyph = [CHR 0xF0, CHR 0x9F, CHR 0x9A, CHR 0xA9]"
definition bullet_glyph :: string where "bullet_glyph = [CHR 0xE2, CHR 0x80, CHR 0xA2]"

definition dedup_line :: "string \<Rightarrow> gofile_delivery \<Rightarrow> string" where
  "dedup_line label r =
     (let part = trim_space (gdLabel r)
      in if part \<noteq> [] \<and> part \<noteq> label
         then bullet_glyph @ '' '' @ part @ [CHR 0x0A] @ ''  '' @ gdLink r @ [CHR 0x0A]
         else bullet_glyph @ '' '' @ gdLink r @ [CHR 0x0A])"

definition buildDedupMessage :: "string \<Rightarrow> string \<Rightarrow> string \<Rightarrow> gofile_delivery list \<Rightarrow> string" where
  "buildDedupMessage kind label variant rows =
     recycle_glyph @ '' Already ripped recently'' @ [CHR 0x0A, CHR 0x0A] @
     label @ '' '' @ em_dash @ '' This '' @ kind @ '' ('' @ tierLabel variant @
     '') was already ripped to Gofile in the last 7 days. Existing link'' @ plural (length rows) [] ''s'' @ '':'' @
     [CHR 0x0A, CHR 0x0A] @ concat (map (dedup_line label) rows) @
     [CHR 0x0A] @ warn_glyph @ '' Our VPS has a capped bandwidth limit, so re-ripping the same thing wastes it and may lead to warnings. Please use the link(s) above.'' @
     [CHR 0x0A, CHR 0x0A] @ ''If a link or its files have a problem, tap '' @ flag_glyph @
     '' Report below and tell us what's wrong '' @ em_dash @ '' an admin will review it.''"

text \<open>The answer: whether the caller must skip the rip, and the notice with its report token.\<close>

definition checkGofileDedup ::
  "bool \<Rightarrow> int \<Rightarrow> catalog option \<Rightarrow> string \<Rightarrow> string \<Rightarrow> string \<Rightarrow> bool \<times> (string \<times> string) option" where
  "checkGofileDedup up now cat kind i variant =
     (let key = gofileDedupKey kind i variant in
      case cat of
        None \<Rightarrow> (False, None)
      | Some c \<Rightarrow>
          if key = [] \<or> \<not> cEnabled c then (False, None)
          else case GofileDeliveryLookup up now c key of
                 Inl e \<Rightarrow> (False, None)
               | Inr [] \<Rightarrow> (False, None)
               | Inr (r # rs) \<Rightarrow>
                   let label = (if gdLabel r = [] then ''this '' @ kind else gdLabel r)
                   in (True, Some (buildDedupMessage kind label variant (r # rs), dedupReportData kind i variant)))"

definition recordGofileDelivery ::
  "bool \<Rightarrow> int \<Rightarrow> dedup_info option \<Rightarrow> string \<Rightarrow> string \<Rightarrow> catalog option \<Rightarrow> catalog option" where
  "recordGofileDelivery up now info link partLabel cat =
     (case (info, cat) of
        (Some d, Some c) \<Rightarrow>
          if link = [] \<or> \<not> cEnabled c then cat
          else (let row = \<lparr>gdContentKey = ddKey d, gdKind = ddKind d, gdContentID = ddID d,
                           gdVariant = ddVariant d, gdLabel = (if partLabel \<noteq> [] then partLabel else ddLabel d),
                           gdLink = link, gdUserID = ddUserID d, gdUsername = [], gdCreatedAt = 0\<rparr>
                in case GofileDeliveryRecord up now c row gofileDedupTTL of
                     Inl e \<Rightarrow> cat | Inr c' \<Rightarrow> Some c')
      | _ \<Rightarrow> cat)"

definition pruneGofileDeliveries :: "bool \<Rightarrow> int \<Rightarrow> catalog option \<Rightarrow> catalog option" where
  "pruneGofileDeliveries up now cat =
     (case cat of
        None \<Rightarrow> None
      | Some c \<Rightarrow> (case GofileDeliveryPruneExpired up now c of Inl e \<Rightarrow> cat | Inr c' \<Rightarrow> Some c'))"

text \<open>The key determines what it was made from, for the three kinds and the cacheable tiers.\<close>

lemma suffix_variant:
  assumes "v \<in> cacheable_variants" "w \<in> cacheable_variants" "i @ CHR ''|'' # v = j @ CHR ''|'' # w"
  shows "i = j \<and> v = w"
proof -
  have "rev v @ CHR ''|'' # rev i = rev w @ CHR ''|'' # rev j"
    using arg_cong [OF assms(3), of rev] by simp
  with assms(1,2) show ?thesis by (auto simp: cacheable_variants_def)
qed

text \<open>
  Dedup never confuses two requests: for the kinds and tiers there are, two requests share a
  content key exactly when they are for the same kind, content and quality tier.
\<close>

theorem dedup_key_injective:
  assumes "{kind, kind'} \<subseteq> {''album'', ''playlist'', ''artist''}" "{v, v'} \<subseteq> cacheable_variants" "i \<noteq> []" "i' \<noteq> []"
  shows "gofileDedupKey kind i v = gofileDedupKey kind' i' v' \<longleftrightarrow> kind = kind' \<and> i = i' \<and> v = v'"
proof
  assume eq: "gofileDedupKey kind i v = gofileDedupKey kind' i' v'"
  have ne: "v \<noteq> []" "v' \<noteq> []" using assms(2) by (auto simp: cacheable_variants_def)
  with eq assms(3,4) have "kind @ CHR ''|'' # i @ CHR ''|'' # v = kind' @ CHR ''|'' # i' @ CHR ''|'' # v'"
    by (simp add: gofileDedupKey_def)
  moreover from this have "kind = kind'" using assms(1) by auto
  ultimately have "i @ CHR ''|'' # v = i' @ CHR ''|'' # v'" by simp
  with suffix_variant assms(2) \<open>kind = kind'\<close> show "kind = kind' \<and> i = i' \<and> v = v'" by auto
qed simp

theorem dedup_key_injective_witness:
  "gofileDedupKey ''artist'' ''5/all'' ''v1|q=aac'' \<noteq> gofileDedupKey ''artist'' ''5/singles'' ''v1|q=aac''"
  using dedup_key_injective [of "''artist''" "''artist''" "''v1|q=aac''" "''v1|q=aac''" "''5/all''" "''5/singles''"]
  by (simp add: cacheable_variants_def)

lemma checkGofileDedup_iff:
  "fst (checkGofileDedup up now cat kind i variant) \<longleftrightarrow>
     up \<and> i \<noteq> [] \<and> variant \<noteq> [] \<and>
     (case cat of None \<Rightarrow> False
      | Some c \<Rightarrow> cEnabled c \<and> (\<exists>r\<in>set (cGofile c). gContentKey r = gofileDedupKey kind i variant \<and> now < gExpiresAt r))"
proof -
  have key: "gofileDedupKey kind i variant = [] \<longleftrightarrow> i = [] \<or> variant = []"
    by (simp add: gofileDedupKey_def)
  show ?thesis
  proof (cases cat)
    case (Some c)
    have none: "sort_key gCreatedAt rs = [] \<longleftrightarrow> rs = []" for rs :: "gofile_row list"
      by (metis set_empty set_sort)
    show ?thesis
      using Some key none [of "filter (\<lambda>r. gContentKey r = gofileDedupKey kind i variant \<and> now < gExpiresAt r) (cGofile c)"]
      by (auto simp: checkGofileDedup_def GofileDeliveryLookup_def Let_def filter_empty_conv split: sum.splits list.splits)
  qed (simp add: checkGofileDedup_def Let_def)
qed

text \<open>
  Dedup fails open and its scope is the live links: a request is answered with links exactly
  when the catalog answers and holds an unexpired link under its key; a catalog that is absent,
  disabled or failing, and a tier that is not cacheable, never block a rip.
\<close>

theorem dedup_blocks_only_on_live_link:
  "fst (checkGofileDedup up now cat kind i variant) \<longleftrightarrow>
     up \<and> i \<noteq> [] \<and> variant \<noteq> [] \<and>
     (case cat of None \<Rightarrow> False
      | Some c \<Rightarrow> cEnabled c \<and> (\<exists>r\<in>set (cGofile c). gContentKey r = gofileDedupKey kind i variant \<and> now < gExpiresAt r))"
  by (rule checkGofileDedup_iff)

text \<open>
  A part blocks the whole: once any one part of a rip has been delivered and recorded, every
  request for that content and tier within seven days is answered with what was delivered, also
  when the rip then failed or was cancelled and the rest never arrived.
\<close>

theorem one_part_blocks_rerip:
  assumes "newGofileDedupInfo kind i format label forceAAC forceAtmos u = Some d" "cEnabled c" "link \<noteq> []"
    and "now \<le> t" "t < now + gofileDedupTTL"
  shows "fst (checkGofileDedup True t (recordGofileDelivery True now (Some d) link partLabel (Some c))
                kind i (gofileDedupVariant format forceAAC forceAtmos))"
proof -
  let ?v = "gofileDedupVariant format forceAAC forceAtmos"
  have d: "ddKey d = gofileDedupKey kind i ?v" "gofileDedupKey kind i ?v \<noteq> []"
    using assms(1) by (auto simp: newGofileDedupInfo_def Let_def split: if_splits)
  let ?row = "\<lparr>gContentKey = ddKey d, gKind = ddKind d, gContentID = ddID d, gVariant = ddVariant d,
      gLabel = (if partLabel \<noteq> [] then partLabel else ddLabel d), gLink = link, gUserID = ddUserID d,
      gUsername = None, gCreatedAt = now, gExpiresAt = now + gofileDedupTTL\<rparr>"
  have "recordGofileDelivery True now (Some d) link partLabel (Some c) = Some (c\<lparr>cGofile := cGofile c @ [?row]\<rparr>)"
    using assms(2,3) d by (simp add: recordGofileDelivery_def GofileDeliveryRecord_def nullStr_def)
  moreover have "i \<noteq> []" "?v \<noteq> []" using d(2) by (auto simp: gofileDedupKey_def)
  ultimately show ?thesis
    using assms(2,5) d by (simp add: checkGofileDedup_iff)
qed

theorem one_part_blocks_rerip_witness:
  "fst (checkGofileDedup True 90 (recordGofileDelivery True 5 (newGofileDedupInfo ''artist'' ''7/all'' ''alac'' ''X'' False False 3)
      ''https://g/1'' ''X (Part 1)'' (Some empty_catalog)) ''artist'' ''7/all'' (gofileDedupVariant ''alac'' False False))"
proof -
  have "token ''alac''" by (simp add: token_def)
  then have "trim_space ''alac'' = ''alac''" by (simp add: trim_space_trimmed token_trimmed)
  then have "gofileDedupVariant ''alac'' False False = ''v1|q=lossless''"
    by (simp add: gofileDedupVariant_def effectiveCatalogFormat_def VariantKey_def QualityTier_def zero_meta_def
        to_lower_def lower_byte_def Let_def)
  then obtain d where d: "newGofileDedupInfo ''artist'' ''7/all'' ''alac'' ''X'' False False 3 = Some d"
    by (simp add: newGofileDedupInfo_def gofileDedupKey_def Let_def)
  show ?thesis unfolding d
    by (rule one_part_blocks_rerip [OF d]) (simp_all add: empty_catalog_def gofileDedupTTL_def)
qed

subsection \<open>Reports awaiting a reason\<close>

definition reportTTL :: int where "reportTTL = 600"

record pending_report =
  rpContentKey :: string
  rpLabel :: string
  rpLinks :: "string list"
  rpCreatedAt :: int

type_synonym reports = "chat_id \<times> user_id \<rightharpoonup> pending_report"

text \<open>The first nonempty label in the order of the rows.\<close>

definition first_label :: "gofile_delivery list \<Rightarrow> string" where
  "first_label rows = (case filter (\<lambda>l. l \<noteq> []) (map gdLabel rows) of [] \<Rightarrow> [] | l # _ \<Rightarrow> l)"

definition handleReportButton ::
  "bool \<Rightarrow> int \<Rightarrow> catalog option \<Rightarrow> chat_id \<Rightarrow> string \<Rightarrow> user_id \<Rightarrow> reports \<Rightarrow> string \<times> reports" where
  "handleReportButton up now cat chatID data userID reports =
     (case parseDedupReportData data of
        None \<Rightarrow> ([], reports)
      | Some (kind, i, variant) \<Rightarrow>
          let contentKey = gofileDedupKey kind i variant;
              rows = (case cat of
                        None \<Rightarrow> []
                      | Some c \<Rightarrow> (if cEnabled c
                          then (case GofileDeliveryLookup up now c contentKey of Inl e \<Rightarrow> [] | Inr rs \<Rightarrow> rs) else []))
          in (''Tell us what's wrong'',
              reports((chatID, userID) \<mapsto> \<lparr>rpContentKey = contentKey, rpLabel = first_label rows,
                 rpLinks = map gdLink rows, rpCreatedAt = now\<rparr>)))"

definition report_text :: "user_id \<Rightarrow> string \<Rightarrow> string \<Rightarrow> pending_report \<Rightarrow> string" where
  "report_text userID username text pr =
     (let who = (if username = [] then ''user '' @ itoa userID else ''@'' @ username);
          content = (if rpLabel pr = [] then rpContentKey pr else rpLabel pr)
      in flag_glyph @ '' Re-rip report'' @ [CHR 0x0A, CHR 0x0A] @
         ''From: '' @ who @ '' (id '' @ itoa userID @ '')'' @ [CHR 0x0A] @
         ''Content: '' @ content @ [CHR 0x0A] @ ''Key: '' @ rpContentKey pr @ [CHR 0x0A] @
         (if rpLinks pr = [] then []
          else ''Links:'' @ [CHR 0x0A] @ concat (map (\<lambda>l. ''  '' @ l @ [CHR 0x0A]) (rpLinks pr))) @
         [CHR 0x0A] @ ''Reason: '' @ text)"

datatype report_ack = ReportSent | ReportNobody

text \<open>\<open>reach\<close> says which admins a message could be sent to; the messages are the pairs sent.\<close>

definition consumeReportReason ::
  "int \<Rightarrow> user_id list \<Rightarrow> (user_id \<Rightarrow> bool) \<Rightarrow> chat_id \<Rightarrow> user_id \<Rightarrow> string \<Rightarrow> string \<Rightarrow> reports \<Rightarrow>
   (report_ack \<times> (user_id \<times> string) list) option \<times> reports" where
  "consumeReportReason now admins reach chatID userID username text reports =
     (if userID = 0 \<or> text = [] then (None, reports)
      else case reports (chatID, userID) of
             None \<Rightarrow> (None, reports)
           | Some pr \<Rightarrow>
               let reports' = reports((chatID, userID) := None)
               in if reportTTL < now - rpCreatedAt pr then (None, reports')
                  else (let to = filter reach admins
                        in (Some (if to = [] then ReportNobody else ReportSent,
                                  map (\<lambda>a. (a, report_text userID username text pr)) to), reports')))"

text \<open>
  A report is used once: after a button tap, the first text of that user in that chat within
  ten minutes becomes the report to every admin that can be reached, the next text is an ordinary
  message, and a text that comes later is not taken for a reason; no other user's report changes.
\<close>

theorem report_used_once:
  assumes "parseDedupReportData data \<noteq> None" "u \<noteq> 0" "text \<noteq> []" "text2 \<noteq> []"
    and "handleReportButton up now cat c data u reports = (toast, r1)"
    and "consumeReportReason t admins reach c u name text r1 = (res, r2)"
  shows "(res \<noteq> None \<longleftrightarrow> t - now \<le> reportTTL) \<and>
         (\<forall>ack sent. res = Some (ack, sent) \<longrightarrow> map fst sent = filter reach admins) \<and>
         fst (consumeReportReason t2 admins reach c u name text2 r2) = None \<and>
         (\<forall>k. k \<noteq> (c, u) \<longrightarrow> r2 k = reports k)"
proof -
  obtain pr where r1: "r1 = reports((c, u) \<mapsto> pr)" "rpCreatedAt pr = now"
    using assms(1,5) by (auto simp: handleReportButton_def Let_def)
  have r2: "r2 = reports((c, u) := None)"
    using assms(2,3,6) by (auto simp: consumeReportReason_def r1 Let_def split: if_splits)
  have res: "res = (if reportTTL < t - now then None
      else Some (if filter reach admins = [] then ReportNobody else ReportSent,
                 map (\<lambda>a. (a, report_text u name text pr)) (filter reach admins)))"
    using assms(2,3,6) r1 by (auto simp: consumeReportReason_def Let_def split: if_splits)
  have "fst (consumeReportReason t2 admins reach c u name text2 r2) = None"
    by (simp add: consumeReportReason_def r2)
  then show ?thesis by (auto simp: res r2 comp_def)
qed

theorem report_used_once_witness:
  "fst (consumeReportReason 9 [1] (\<lambda>_. True) 3 4 ''bob'' ''dead link''
     (snd (handleReportButton True 5 None 3 ''al|77'' 4 Map.empty))) \<noteq> None"
proof -
  let ?h = "handleReportButton True 5 None 3 ''al|77'' 4 Map.empty"
  let ?c = "consumeReportReason 9 [1] (\<lambda>_. True) 3 4 ''bob'' ''dead link'' (snd ?h)"
  have p: "parseDedupReportData ''al|77'' \<noteq> None"
    by (simp add: parseDedupReportData_def codeToKind_def codeToVariant_def)
  obtain toast r1 where h: "?h = (toast, r1)" by fastforce
  obtain res r2 where c: "consumeReportReason 9 [1] (\<lambda>_. True) 3 4 ''bob'' ''dead link'' r1 = (res, r2)" by fastforce
  have n: "(4::int) \<noteq> 0" "''dead link'' \<noteq> []" "''x'' \<noteq> []" by simp_all
  note report_used_once [OF p n h c, of 0]
  then have "res \<noteq> None" by (simp add: reportTTL_def)
  with h c show ?thesis by simp
qed

end
