(* ===== verification/Scheduler.thy ===== *)
theory Scheduler
  imports Quota Rip_State Dedup
begin

section \<open>The download queue and the task scheduler\<close>

text \<open>
  The queue part of \<^verbatim>\<open>bot/telegram_bot.go\<close>: \<^verbatim>\<open>enqueueDownloadWithAfter\<close>, the serial worker, the
  task-concurrency worker (\<^verbatim>\<open>scheduleDownloads\<close>, \<^verbatim>\<open>startTask\<close>, \<^verbatim>\<open>tryLendToBorrower\<close>), \<^verbatim>\<open>cancelTask\<close> and
  \<^verbatim>\<open>cancelAllTasksLocked\<close>.  A critical section under \<^verbatim>\<open>queueMu\<close> is one function on \<open>sched\<close>.  The
  state holds the fields of the bot (\<open>qChan\<close> is the contents of the channel \<^verbatim>\<open>downloadQueue\<close>,
  \<open>qMirror\<close> the list \<^verbatim>\<open>queuedReqs\<close>) and, for the goroutines, where each of them stands: \<open>qHand\<close> is a
  request taken from the channel and not yet started, \<open>qWait\<close> the head whose download the worker
  awaits, \<open>qLend\<close> a candidate between the two sections of \<^verbatim>\<open>tryLendToBorrower\<close>, \<open>qRun\<close> the rip
  goroutines, \<open>qHeld\<close> the charges of submissions that are not enqueued yet (in a handler or in a
  scheduled job).  The rip itself is arbitrary; only its result enters.
\<close>

subsection \<open>Data\<close>

definition transferModeTelegramIndividual :: string where "transferModeTelegramIndividual = ''tg_individual''"
definition transferModeTelegramZip :: string where "transferModeTelegramZip = ''tg_zip''"
definition transferModeGofileZip :: string where "transferModeGofileZip = ''gofile_zip''"
definition transferModeMvGofile :: string where "transferModeMvGofile = ''mv_gofile''"

text \<open>The closure \<^verbatim>\<open>fn\<close>, by what it rips, and the closure \<^verbatim>\<open>after\<close>, by what it settles.\<close>

datatype rip_fn =
    RipAlbum string
  | RipPlaylist string
  | RipArtist string
  | RipCollectionWithCatalog string string string
  | RipOther

datatype after = NoAfter | AfterCollection | AfterArtist int bool

record request =
  rqTask :: string
  rqChat :: chat_id
  rqUser :: user_id
  rqName :: string
  rqReplyTo :: msg_id
  rqStatusMsg :: msg_id
  rqSingle :: bool
  rqFormat :: string
  rqMode :: string
  rqAlbum :: string
  rqForceAtmos :: bool
  rqNoCache :: bool
  rqFn :: rip_fn
  rqAfter :: after
  rqCharge :: string
  rqDedup :: "dedup_info option"

datatype role = Serial | Head | Borrower

record running =
  rnReq :: request
  rnRole :: role
  rnRip :: "rip option"
  rnCancelled :: bool
  rnDone :: bool
  rnSettled :: bool

record sched =
  qConc :: bool
  qCap :: nat
  qChan :: "request list"
  qMirror :: "request list"
  qInProgress :: bool
  qActive :: "request option"
  qBorrow :: "request option"
  qHeadRip :: "string option"
  qHeadMode :: string
  qUploading :: "string \<rightharpoonup> request"
  qTasks :: "user_id counts"
  qPeeked :: "string \<rightharpoonup> int"
  qLedger :: ledger
  qHand :: "(request \<times> bool \<times> int) option"
  qWait :: "string option"
  qLend :: "(request \<times> int) option"
  qRun :: "running list"
  qHeld :: "string set"

definition empty_sched :: "bool \<Rightarrow> nat \<Rightarrow> ledger \<Rightarrow> sched" where
  "empty_sched conc n q = \<lparr>qConc = conc, qCap = n, qChan = [], qMirror = [], qInProgress = False, qActive = None,
     qBorrow = None, qHeadRip = None, qHeadMode = [], qUploading = Map.empty, qTasks = Map.empty,
     qPeeked = Map.empty, qLedger = q, qHand = None, qWait = None, qLend = None, qRun = [], qHeld = {}\<rparr>"

abbreviation run_id :: "running \<Rightarrow> string" where
  "run_id n \<equiv> rqTask (rnReq n)"

definition upd_run :: "string \<Rightarrow> (running \<Rightarrow> running) \<Rightarrow> sched \<Rightarrow> sched" where
  "upd_run t f s = s\<lparr>qRun := map (\<lambda>n. if run_id n = t then f n else n) (qRun s)\<rparr>"

subsection \<open>Enqueueing\<close>

datatype queue_reply = QueueFull | Queued string nat | BoardMoved | Quiet

fun removeQueuedReqLocked :: "string \<Rightarrow> request list \<Rightarrow> request list" where
  "removeQueuedReqLocked t [] = []"
| "removeQueuedReqLocked t (r # rs) = (if rqTask r = t then rs else r # removeQueuedReqLocked t rs)"

text \<open>
  \<open>board\<close> says whether the chat has a status board.  The send cannot block: the length was
  checked under the lock, and every sender holds the lock.
\<close>

definition count_task :: "user_id \<Rightarrow> user_id counts \<Rightarrow> user_id counts" where
  "count_task u m = (if u \<noteq> 0 then cadd m u 1 else m)"

definition enqueueDownloadWithAfter :: "(chat_id \<Rightarrow> bool) \<Rightarrow> request \<Rightarrow> sched \<Rightarrow> (bool \<times> queue_reply) \<times> sched" where
  "enqueueDownloadWithAfter board r s =
     (let queueLen = length (qChan s);
          position = queueLen + 1 + (if qInProgress s then 1 else 0)
      in if qCap s \<le> queueLen then ((False, QueueFull), s)
         else ((True, if board (rqChat r) then BoardMoved
                      else if qInProgress s \<or> 0 < queueLen then Queued (rqTask r) position
                      else Quiet),
               s\<lparr>qChan := qChan s @ [r], qMirror := qMirror s @ [r], qTasks := count_task (rqUser r) (qTasks s)\<rparr>))"

subsection \<open>The workers\<close>

text \<open>A worker that waits for nothing takes the next request off the channel, without the lock.\<close>

definition idle :: "sched \<Rightarrow> bool" where
  "idle s = (qHand s = None \<and> qWait s = None \<and> qLend s = None)"

definition receive :: "sched \<Rightarrow> sched" where
  "receive s = (case qChan s of
      [] \<Rightarrow> s
    | r # rs \<Rightarrow> if idle s then s\<lparr>qHand := Some (r, False, 0), qChan := rs\<rparr> else s)"

definition build_rip :: "users \<Rightarrow> request \<Rightarrow> int \<Rightarrow> rip" where
  "build_rip us r budget = newRipState\<lparr>sNoCache := rqNoCache r, sSong := rqSingle r, sWrapperBudget := budget,
     sPrefs := (if rqUser r \<noteq> 0 \<and> hasPrefs us (rqUser r) then Some (getPrefs us (rqUser r)) else None)\<rparr>"

definition startTask :: "users \<Rightarrow> request \<Rightarrow> bool \<Rightarrow> int \<Rightarrow> sched \<Rightarrow> sched" where
  "startTask us r borrower budget s =
     (let rs = build_rip us r budget;
          s1 = s\<lparr>qHand := None, qMirror := removeQueuedReqLocked (rqTask r) (qMirror s),
                 qRun := qRun s @ [\<lparr>rnReq = r, rnRole = (if borrower then Borrower else Head), rnRip = Some rs,
                                    rnCancelled = False, rnDone = False, rnSettled = False\<rparr>]\<rparr>
      in if borrower then s1\<lparr>qBorrow := Some r\<rparr>
         else s1\<lparr>qInProgress := True, qActive := Some r, qHeadRip := Some (rqTask r), qHeadMode := rqMode r,
                 qWait := Some (rqTask r)\<rparr>)"

text \<open>The serial worker runs the rip itself, so it waits for it.\<close>

definition startSerial :: "request \<Rightarrow> sched \<Rightarrow> sched" where
  "startSerial r s =
     s\<lparr>qHand := None, qInProgress := True, qActive := Some r, qWait := Some (rqTask r),
       qMirror := removeQueuedReqLocked (rqTask r) (qMirror s),
       qRun := qRun s @ [\<lparr>rnReq = r, rnRole = Serial, rnRip = None, rnCancelled = False,
                          rnDone = False, rnSettled = False\<rparr>]\<rparr>"

definition start_hand :: "users \<Rightarrow> sched \<Rightarrow> sched" where
  "start_hand us s = (case qHand s of
      None \<Rightarrow> s
    | Some (r, borrower, budget) \<Rightarrow> if qConc s then startTask us r borrower budget s else startSerial r s)"

text \<open>\<^verbatim>\<open>onDownloadComplete\<close> acts once; the serial worker never sets it.\<close>

definition onDownloadComplete :: "running \<Rightarrow> sched \<Rightarrow> sched" where
  "onDownloadComplete n s =
     (if rnDone n \<or> rnRole n = Serial then s
      else upd_run (run_id n) (\<lambda>m. m\<lparr>rnDone := True\<rparr>)
             (s\<lparr>qUploading := (qUploading s)(run_id n \<mapsto> rnReq n)\<rparr>))"

text \<open>The worker goes on to the next request once the head's channel is closed.\<close>

definition head_done :: "sched \<Rightarrow> bool" where
  "head_done s = (case qWait s of None \<Rightarrow> False
    | Some t \<Rightarrow> \<not> (\<exists>n\<in>set (qRun s). run_id n = t \<and> (rnRole n = Serial \<or> \<not> rnDone n)))"

text \<open>
  The closure \<^verbatim>\<open>after\<close>.  \<open>oRan\<close>: \<^verbatim>\<open>fn\<close> was called, so its captured variables are set; otherwise they
  hold their zero values (no context, no rip state, no error, no release).  \<open>oOk\<close>: \<^verbatim>\<open>fn\<close> returned no
  error, for an artist that a release was ripped.
\<close>

record outcome =
  oRan :: bool
  oOk :: bool

definition shared_rip :: "outcome \<Rightarrow> running \<Rightarrow> rip option" where
  "shared_rip out n = (if oRan out then rnRip n else None)"

definition run_after :: "outcome \<Rightarrow> running \<Rightarrow> ledger \<Rightarrow> ledger" where
  "run_after out n q =
     (let r = rnReq n; rs = shared_rip out n;
          settle_with = (\<lambda>deliveredSomething releases perRelease.
            finalizeHeavyQuota (rqCharge r) (deliveredReleases rs) (quotaCancelledByOwner rs) (flushedSomething rs)
              (oRan out \<and> rnCancelled n) deliveredSomething releases perRelease q)
      in case rqAfter r of
           NoAfter \<Rightarrow> q
         | AfterCollection \<Rightarrow> settle_with (\<not> oRan out \<or> oOk out) 0 False
         | AfterArtist releases perRelease \<Rightarrow> settle_with (oRan out \<and> oOk out) releases perRelease)"

definition finish_after :: "outcome \<Rightarrow> running \<Rightarrow> sched \<Rightarrow> sched" where
  "finish_after out n s =
     upd_run (run_id n) (\<lambda>m. m\<lparr>rnSettled := True\<rparr>) (s\<lparr>qLedger := run_after out n (qLedger s)\<rparr>)"

definition uncount_task :: "user_id \<Rightarrow> user_id counts \<Rightarrow> user_id counts" where
  "uncount_task u m = (if u \<noteq> 0 \<and> 0 < cget m u then cadd m u (-1) else m)"

text \<open>The last section of a rip goroutine, and of the serial worker's loop.\<close>

definition leave :: "running \<Rightarrow> sched \<Rightarrow> sched" where
  "leave n s =
     (let r = rnReq n; t = rqTask r;
          s1 = s\<lparr>qRun := filter (\<lambda>m. run_id m \<noteq> t) (qRun s)\<rparr>
      in case rnRole n of
           Serial \<Rightarrow> s1\<lparr>qInProgress := False, qActive := None,
                       qTasks := (if rqUser r \<noteq> 0 then cadd (qTasks s) (rqUser r) (-1) else qTasks s)\<rparr>
         | Borrower \<Rightarrow> s1\<lparr>qUploading := (qUploading s)(t := None),
                         qBorrow := (if qBorrow s = Some r then None else qBorrow s),
                         qTasks := uncount_task (rqUser r) (qTasks s)\<rparr>
         | Head \<Rightarrow> s1\<lparr>qUploading := (qUploading s)(t := None),
                     qActive := (if qActive s = Some r then None else qActive s),
                     qInProgress := (if qActive s = Some r then False else qInProgress s),
                     qHeadRip := (if qHeadRip s = Some t then None else qHeadRip s),
                     qHeadMode := (if qHeadRip s = Some t then [] else qHeadMode s),
                     qTasks := uncount_task (rqUser r) (qTasks s)\<rparr>)"

subsection \<open>Lending\<close>

definition isTelegramDeliveryMode :: "string \<Rightarrow> bool" where
  "isTelegramDeliveryMode m = (m = transferModeTelegramIndividual \<or> m = transferModeTelegramZip)"

definition head_rip :: "sched \<Rightarrow> rip option" where
  "head_rip s = (case qHeadRip s of None \<Rightarrow> None
     | Some t \<Rightarrow> (case filter (\<lambda>n. run_id n = t) (qRun s) of [] \<Rightarrow> None | n # _ \<Rightarrow> rnRip n))"

text \<open>
  \<open>lend_candidate\<close> is \<^verbatim>\<open>tryLendToBorrower\<close> up to its second section; \<open>thr\<close> and \<open>mx\<close> are
  \<^verbatim>\<open>LendHeadRemainingThreshold\<close> and \<^verbatim>\<open>BorrowerMaxTracks\<close>, \<open>peek\<close> the answer of \<^verbatim>\<open>peekTrackCount\<close>.
\<close>

definition lend_candidate :: "int \<Rightarrow> int \<Rightarrow> (request \<Rightarrow> int option) \<Rightarrow> sched \<Rightarrow> (request \<times> int) option \<times> sched" where
  "lend_candidate thr mx peek s =
     (if qBorrow s \<noteq> None then (None, s)
      else case (head_rip s, qMirror s) of
        (Some hr, cand # _) \<Rightarrow>
          if \<not> isTelegramDeliveryMode (qHeadMode s) \<or> remainingTracks (Some hr) \<le> thr then (None, s)
          else if rqMode cand \<noteq> transferModeGofileZip then (None, s)
          else let peeked = cget (qPeeked s) (rqTask cand);
                   count = (if peeked = 0 then (case peek cand of Some c \<Rightarrow> c | None \<Rightarrow> -1) else peeked);
                   s1 = s\<lparr>qPeeked := (qPeeked s)(rqTask cand \<mapsto> count)\<rparr>
               in if count \<le> 0 \<or> mx \<le> count then (None, s1)
                  else (Some (cand, if go_div mx 2 < count then 2 else 1), s1)
      | _ \<Rightarrow> (None, s))"

definition lend_pick :: "int \<Rightarrow> int \<Rightarrow> (request \<Rightarrow> int option) \<Rightarrow> sched \<Rightarrow> sched" where
  "lend_pick thr mx peek s = (case lend_candidate thr mx peek s of (c, s1) \<Rightarrow> s1\<lparr>qLend := c\<rparr>)"

definition lend_take :: "request \<Rightarrow> int \<Rightarrow> sched \<Rightarrow> sched" where
  "lend_take cand k s0 =
     (let s = s0\<lparr>qLend := None\<rparr> in
      case (qMirror s, qChan s) of
        (front # _, got # rest) \<Rightarrow>
          if qBorrow s \<noteq> None \<or> rqTask front \<noteq> rqTask cand then s
          else if rqTask got \<noteq> rqTask cand then s\<lparr>qChan := rest @ [got]\<rparr>
          else s\<lparr>qChan := rest, qHand := Some (got, True, k)\<rparr>
      | _ \<Rightarrow> s)"

subsection \<open>Stopping\<close>

datatype stop_reply = StopUsage | NotYours | Stopped string | QueuedStopped string | TaskNotFound string

definition may_stop :: "users \<Rightarrow> user_id \<Rightarrow> request \<Rightarrow> bool" where
  "may_stop us issuer r = (rqUser r = 0 \<or> issuer = rqUser r \<or> isAdmin us issuer)"

text \<open>Cancelling a started task: the requester's own cancel is noted in the rip, if it has one.\<close>

definition cancel_run :: "bool \<Rightarrow> string \<Rightarrow> sched \<Rightarrow> sched" where
  "cancel_run own t =
     upd_run t (\<lambda>n. n\<lparr>rnCancelled := True, rnRip := (if own then map_option markQuotaOwnerCancel (rnRip n) else rnRip n)\<rparr>)"

definition stop_started :: "users \<Rightarrow> user_id \<Rightarrow> request \<Rightarrow> sched \<Rightarrow> stop_reply \<times> sched" where
  "stop_started us issuer r s =
     (if \<not> may_stop us issuer r then (NotYours, s)
      else (Stopped (rqTask r), cancel_run (rqUser r \<noteq> 0 \<and> issuer = rqUser r) (rqTask r) s))"

text \<open>
  The drain of the channel.  Each of the iterations takes the front and puts it back or drops
  it; \<open>steal\<close> is the iteration before which an idle worker, which needs no lock to receive, takes
  one.  The result lists the dropped requests and tells whether one was denied.
\<close>

datatype verdict = Keep | Deny | Drop

definition drop_queued :: "(string \<Rightarrow> ledger \<Rightarrow> ledger) \<Rightarrow> request \<Rightarrow> sched \<Rightarrow> sched" where
  "drop_queued refund r s =
     s\<lparr>qMirror := removeQueuedReqLocked (rqTask r) (qMirror s), qTasks := uncount_task (rqUser r) (qTasks s),
       qLedger := refund (rqCharge r) (qLedger s)\<rparr>"

fun drain ::
  "(request \<Rightarrow> verdict) \<Rightarrow> (string \<Rightarrow> ledger \<Rightarrow> ledger) \<Rightarrow> nat option \<Rightarrow> nat \<Rightarrow> sched \<Rightarrow> (request list \<times> bool) \<times> sched" where
  "drain judge refund steal 0 s = (([], False), s)"
| "drain judge refund steal (Suc n) s =
     (let s1 = (if steal = Some 0 then receive s else s);
          later = (case steal of Some (Suc j) \<Rightarrow> Some j | _ \<Rightarrow> None)
      in case qChan s1 of
           [] \<Rightarrow> (([], False), s1)
         | r # rs \<Rightarrow>
             (case judge r of
                Keep \<Rightarrow> drain judge refund later n (s1\<lparr>qChan := rs @ [r]\<rparr>)
              | Deny \<Rightarrow> (case drain judge refund later n (s1\<lparr>qChan := rs @ [r]\<rparr>) of
                          ((ds, _), s2) \<Rightarrow> ((ds, True), s2))
              | Drop \<Rightarrow> (case drain judge refund later n (drop_queued refund r (s1\<lparr>qChan := rs\<rparr>)) of
                          ((ds, denied), s2) \<Rightarrow> ((r # ds, denied), s2))))"

definition stop_verdict :: "users \<Rightarrow> user_id \<Rightarrow> string \<Rightarrow> request \<Rightarrow> verdict" where
  "stop_verdict us issuer t r = (if rqTask r \<noteq> t then Keep else if may_stop us issuer r then Drop else Deny)"

definition is_task :: "string \<Rightarrow> request option \<Rightarrow> bool" where
  "is_task t r = (case r of None \<Rightarrow> False | Some r \<Rightarrow> rqTask r = t)"

definition stop_task :: "users \<Rightarrow> user_id \<Rightarrow> string \<Rightarrow> nat option \<Rightarrow> sched \<Rightarrow> stop_reply \<times> sched" where
  "stop_task us issuer t steal s =
     (if t = [] then (StopUsage, s)
      else if is_task t (qActive s) then stop_started us issuer (the (qActive s)) s
      else if is_task t (qBorrow s) then stop_started us issuer (the (qBorrow s)) s
      else case qUploading s t of
        Some r \<Rightarrow> stop_started us issuer r s
      | None \<Rightarrow>
          (case drain (stop_verdict us issuer t) (\<lambda>i. quotaRefund i 0) steal (length (qChan s)) s of
             ((ds, denied), s1) \<Rightarrow>
               (if ds \<noteq> [] then QueuedStopped t else if denied then NotYours else TaskNotFound t, s1)))"

text \<open>A stop that worked counts as a cancel of its issuer.\<close>

definition cancelTask ::
  "unix_sec \<Rightarrow> users \<Rightarrow> user_id \<Rightarrow> string \<Rightarrow> nat option \<Rightarrow> sched \<Rightarrow> stop_reply \<times> users \<times> sched" where
  "cancelTask now us issuer t steal s =
     (case stop_task us issuer t steal s of
        (reply, s1) \<Rightarrow> (reply,
           (case reply of Stopped _ \<Rightarrow> bumpStats now issuer count_cancel us
            | QueuedStopped _ \<Rightarrow> bumpStats now issuer count_cancel us | _ \<Rightarrow> us), s1))"

text \<open>\<open>order\<close> lists the keys of \<^verbatim>\<open>uploadingReqs\<close> in the order Go's map iteration gives them.\<close>

definition cancel_slot :: "(string \<Rightarrow> ledger \<Rightarrow> ledger) \<Rightarrow> request \<Rightarrow> sched \<Rightarrow> sched" where
  "cancel_slot refund r s = (cancel_run False (rqTask r) s)\<lparr>qLedger := refund (rqCharge r) (qLedger s)\<rparr>"

definition cancelAllTasksLocked :: "bool \<Rightarrow> bool \<Rightarrow> string list \<Rightarrow> nat option \<Rightarrow> sched \<Rightarrow> nat \<times> sched" where
  "cancelAllTasksLocked syncDB up order steal s =
     (let refund = (\<lambda>i. if syncDB then quotaRefundSync up i 0 else quotaRefund i 0);
          slots = (case qActive s of None \<Rightarrow> [] | Some r \<Rightarrow> [r]) @ (case qBorrow s of None \<Rightarrow> [] | Some r \<Rightarrow> [r]) @
                  map (\<lambda>t. the (qUploading s t)) order;
          s1 = fold (cancel_slot refund) slots s
      in case drain (\<lambda>_. Drop) refund steal (length (qChan s1)) s1 of
           ((ds, _), s2) \<Rightarrow> (length slots + length ds, s2))"

end
