(* ===== verification/Scheduler_Safety.thy ===== *)
theory Scheduler_Safety
  imports Scheduler
begin

section \<open>What the scheduler keeps, over every interleaving\<close>

text \<open>
  The step relation of the queue: submissions, the worker, the rip goroutines, lending, stops,
  quota writes and the daily reset, in any order.  A generated task id is new among the live
  tasks.  \<open>race\<close> allows a worker to receive while a stop drains the channel.
\<close>

definition pending :: "sched \<Rightarrow> request list" where
  "pending s = (case qHand s of None \<Rightarrow> [] | Some (r, _) \<Rightarrow> [r]) @ qChan s"

definition live :: "sched \<Rightarrow> request multiset" where
  "live s = mset (pending s) + mset (map rnReq (qRun s))"

definition task_ids :: "sched \<Rightarrow> string set" where
  "task_ids s = rqTask ` set_mset (live s)"

inductive sched_step :: "bool \<Rightarrow> sched \<Rightarrow> sched \<Rightarrow> bool" for race where
  Admit: "new_id gid (qLedger s) \<Longrightarrow>
     quotaCheckAndCharge gid now up us u name kind (qLedger s) = ((cid, ok), q) \<Longrightarrow>
     sched_step race s (s\<lparr>qLedger := q, qHeld := (if ok \<and> cid \<noteq> [] then insert cid (qHeld s) else qHeld s)\<rparr>)"
| Enqueue: "rqCharge r = [] \<or> rqCharge r \<in> qHeld s \<and> rqAfter r \<noteq> NoAfter \<Longrightarrow> rqTask r \<noteq> [] \<Longrightarrow>
     rqTask r \<notin> task_ids s \<Longrightarrow> enqueueDownloadWithAfter board r s = ((ok, reply), s1) \<Longrightarrow>
     sched_step race s (if ok then s1\<lparr>qHeld := qHeld s - {rqCharge r}\<rparr> else s1)"
| Settle_Held: "cid \<in> qHeld s \<Longrightarrow> st = quotaCommitted \<or> st = quotaRefunded \<Longrightarrow>
     sched_step race s (s\<lparr>qLedger := quotaSetState True cid st 0 False (qLedger s), qHeld := qHeld s - {cid}\<rparr>)"
| Receive: "sched_step race s (receive s)"
| Start: "qHand s \<noteq> None \<Longrightarrow> sched_step race s (start_hand us s)"
| Rip_Work: "n \<in> set (qRun s) \<Longrightarrow> rnRip n = Some r0 \<Longrightarrow> sQuotaOwnerCancel r1 = sQuotaOwnerCancel r0 \<Longrightarrow>
     sched_step race s (upd_run (run_id n) (\<lambda>m. m\<lparr>rnRip := Some r1\<rparr>) s)"
| Download_Done: "n \<in> set (qRun s) \<Longrightarrow> sched_step race s (onDownloadComplete n s)"
| Promote: "head_done s \<Longrightarrow> qHand s = None \<Longrightarrow> qLend s = None \<Longrightarrow> sched_step race s (s\<lparr>qWait := None\<rparr>)"
| Lend_Pick: "qConc s \<Longrightarrow> qWait s \<noteq> None \<Longrightarrow> qHand s = None \<Longrightarrow> qLend s = None \<Longrightarrow>
     sched_step race s (lend_pick thr mx peek s)"
| Lend_Take: "qLend s = Some (cand, k) \<Longrightarrow> sched_step race s (lend_take cand k s)"
| After: "n \<in> set (qRun s) \<Longrightarrow> \<not> rnSettled n \<Longrightarrow> sched_step race s (finish_after out n s)"
| Leave: "n \<in> set (qRun s) \<Longrightarrow> rnSettled n \<Longrightarrow> rnRole n = Serial \<or> rnDone n \<Longrightarrow> sched_step race s (leave n s)"
| Stop: "race \<or> steal = None \<Longrightarrow> sched_step race s (snd (snd (cancelTask now us issuer t steal s)))"
| Stop_All: "race \<or> steal = None \<Longrightarrow> set order = dom (qUploading s) \<Longrightarrow>
     sched_step race s (snd (cancelAllTasksLocked syncDB up order steal s))"
| Write: "w \<in> set (lgPending (qLedger s)) \<Longrightarrow> sched_step race s
     (s\<lparr>qLedger := persist up w ((qLedger s)\<lparr>lgPending := remove1 w (lgPending (qLedger s))\<rparr>)\<rparr>)"
| Reset: "sched_step race s (s\<lparr>qLedger := quotaPrune up now (qLedger s)\<rparr>)"

inductive_cases sched_stepE: "sched_step race s s'"

definition reachable :: "bool \<Rightarrow> sched \<Rightarrow> bool" where
  "reachable race s = (\<exists>conc n cat. (sched_step race)\<^sup>*\<^sup>* (empty_sched conc n (no_charges cat)) s)"

lemma reachable_induct [consumes 1, case_names init step]:
  assumes "reachable race s" "\<And>conc n cat. P (empty_sched conc n (no_charges cat))"
    and "\<And>s s'. reachable race s \<Longrightarrow> P s \<Longrightarrow> sched_step race s s' \<Longrightarrow> P s'"
  shows "P s"
proof -
  from assms(1) obtain conc n cat where "(sched_step race)\<^sup>*\<^sup>* (empty_sched conc n (no_charges cat)) s"
    by (auto simp: reachable_def)
  then show ?thesis
  proof (induction rule: rtranclp_induct)
    case base show ?case by (rule assms(2))
  next
    case (step y z)
    from step(1) have "reachable race y" unfolding reachable_def by blast
    from assms(3) [OF this step(3) step(2)] show ?case .
  qed
qed

lemma reachable_step: "reachable race s \<Longrightarrow> sched_step race s s' \<Longrightarrow> reachable race s'"
  unfolding reachable_def by (meson rtranclp.rtrancl_into_rtrancl)

subsection \<open>Frames\<close>

lemma upd_run_frame [frame_simps]:
  "qConc (upd_run t f s) = qConc s" "qChan (upd_run t f s) = qChan s" "qMirror (upd_run t f s) = qMirror s"
  "qActive (upd_run t f s) = qActive s" "qBorrow (upd_run t f s) = qBorrow s" "qUploading (upd_run t f s) = qUploading s"
  "qTasks (upd_run t f s) = qTasks s" "qLedger (upd_run t f s) = qLedger s" "qHand (upd_run t f s) = qHand s"
  "qWait (upd_run t f s) = qWait s" "qLend (upd_run t f s) = qLend s" "qHeld (upd_run t f s) = qHeld s"
  "pending (upd_run t f s) = pending s" "qInProgress (upd_run t f s) = qInProgress s"
  "qRun (upd_run t f s) = map (\<lambda>n. if run_id n = t then f n else n) (qRun s)"
  by (simp_all add: upd_run_def pending_def)

lemma live_upd_run [frame_simps]: "(\<And>n. rnReq (f n) = rnReq n) \<Longrightarrow> live (upd_run t f s) = live s"
  by (simp add: live_def frame_simps comp_def if_distrib cong: if_cong)

lemma receive_frame [frame_simps]:
  "qConc (receive s) = qConc s" "qMirror (receive s) = qMirror s" "qRun (receive s) = qRun s"
  "qActive (receive s) = qActive s" "qBorrow (receive s) = qBorrow s" "qUploading (receive s) = qUploading s"
  "qTasks (receive s) = qTasks s" "qLedger (receive s) = qLedger s" "qWait (receive s) = qWait s"
  "qLend (receive s) = qLend s" "qHeld (receive s) = qHeld s" "pending (receive s) = pending s" "live (receive s) = live s"
  by (auto simp: receive_def pending_def live_def idle_def split: list.split)

lemma drop_queued_frame [frame_simps]:
  "qConc (drop_queued f r s) = qConc s" "qRun (drop_queued f r s) = qRun s" "qChan (drop_queued f r s) = qChan s"
  "qActive (drop_queued f r s) = qActive s" "qBorrow (drop_queued f r s) = qBorrow s" "qUploading (drop_queued f r s) = qUploading s"
  "qWait (drop_queued f r s) = qWait s" "qLend (drop_queued f r s) = qLend s" "qHeld (drop_queued f r s) = qHeld s"
  "qHand (drop_queued f r s) = qHand s" "pending (drop_queued f r s) = pending s" "live (drop_queued f r s) = live s"
  by (simp_all add: drop_queued_def pending_def live_def)

text \<open>Whatever receiving, putting back and dropping keep, a drain keeps.\<close>

lemma drain_inv:
  assumes recv: "\<And>s. steal \<noteq> None \<Longrightarrow> P s \<Longrightarrow> P (receive s)"
    and rot: "\<And>s r rs. P s \<Longrightarrow> qChan s = r # rs \<Longrightarrow> P (s\<lparr>qChan := rs @ [r]\<rparr>)"
    and drop: "\<And>s r rs. P s \<Longrightarrow> qChan s = r # rs \<Longrightarrow> judge r = Drop \<Longrightarrow> P (drop_queued refund r (s\<lparr>qChan := rs\<rparr>))"
  shows "P s \<Longrightarrow> P (snd (drain judge refund steal n s))"
  using recv
proof (induction n arbitrary: s steal)
  case (Suc n)
  define s1 where "s1 = (if steal = Some 0 then receive s else s)"
  define later where "later = (case steal of Some (Suc j) \<Rightarrow> Some j | _ \<Rightarrow> None)"
  have P1: "P s1" using Suc.prems by (auto simp: s1_def)
  have recv': "\<And>s. later \<noteq> None \<Longrightarrow> P s \<Longrightarrow> P (receive s)"
    using Suc.prems(2) by (auto simp: later_def split: option.splits nat.splits)
  note IH = Suc.IH [of _ later, OF _ recv']
  show ?case
  proof (cases "qChan s1")
    case Nil
    then show ?thesis using P1 by (simp add: Let_def flip: s1_def)
  next
    case (Cons r rs)
    have keep: "P (snd (drain judge refund later n (s1\<lparr>qChan := rs @ [r]\<rparr>)))"
      by (rule IH [OF rot [OF P1 Cons]])
    have drp: "judge r = Drop \<Longrightarrow> P (snd (drain judge refund later n (drop_queued refund r (s1\<lparr>qChan := rs\<rparr>))))"
      by (rule IH [OF drop [OF P1 Cons]])
    show ?thesis
      using keep drp Cons by (simp add: Let_def split_beta split: verdict.split flip: s1_def later_def)
  qed
qed simp

lemma drain_frame [frame_simps]:
  "qConc (snd (drain j f st n s)) = qConc s" "qRun (snd (drain j f st n s)) = qRun s"
  "qActive (snd (drain j f st n s)) = qActive s" "qBorrow (snd (drain j f st n s)) = qBorrow s"
  "qUploading (snd (drain j f st n s)) = qUploading s" "qWait (snd (drain j f st n s)) = qWait s"
  "qLend (snd (drain j f st n s)) = qLend s" "qHeld (snd (drain j f st n s)) = qHeld s"
  by (rule drain_inv; simp add: frame_simps)+

lemma cancel_slots_frame [frame_simps]:
  "qConc (fold (cancel_slot f) rs s) = qConc s" "qChan (fold (cancel_slot f) rs s) = qChan s"
  "qMirror (fold (cancel_slot f) rs s) = qMirror s" "qHand (fold (cancel_slot f) rs s) = qHand s"
  "qActive (fold (cancel_slot f) rs s) = qActive s" "qBorrow (fold (cancel_slot f) rs s) = qBorrow s"
  "qUploading (fold (cancel_slot f) rs s) = qUploading s" "qWait (fold (cancel_slot f) rs s) = qWait s"
  "qLend (fold (cancel_slot f) rs s) = qLend s" "qHeld (fold (cancel_slot f) rs s) = qHeld s"
  "qTasks (fold (cancel_slot f) rs s) = qTasks s"
  "qLedger (fold (cancel_slot f) rs s) = fold f (map rqCharge rs) (qLedger s)"
  by (induction rs arbitrary: s) (simp_all add: cancel_slot_def cancel_run_def frame_simps)

text \<open>What a stop leaves of a started task: all but the cancel flag and the note of its owner.\<close>

definition same_run :: "running \<Rightarrow> running \<Rightarrow> bool" where
  "same_run n m = (rnReq m = rnReq n \<and> rnRole m = rnRole n \<and> rnDone m = rnDone n \<and> rnSettled m = rnSettled n)"

lemma same_run_refl [simp]: "same_run n n"
  by (simp add: same_run_def)

definition same_runs :: "sched \<Rightarrow> sched \<Rightarrow> bool" where
  "same_runs s s' = list_all2 same_run (qRun s) (qRun s')"

lemma same_runs_refl [simp]: "same_runs s s"
  by (simp add: same_runs_def list_all2_refl)

lemma same_runs_trans: "same_runs s1 s2 \<Longrightarrow> same_runs s2 s3 \<Longrightarrow> same_runs s1 s3"
  unfolding same_runs_def by (rule list_all2_trans) (auto simp: same_run_def)

lemma same_runs_upd: "(\<And>n. same_run n (f n)) \<Longrightarrow> same_runs s (upd_run t f s)"
  by (simp add: same_runs_def frame_simps list_all2_map2 list_all2_refl)

lemma same_runs_cancel: "same_runs s (cancel_run own t s)"
  unfolding cancel_run_def by (rule same_runs_upd) (simp add: same_run_def)

lemma same_runs_slots: "same_runs s (fold (cancel_slot f) rs s)"
proof (induction rs arbitrary: s)
  case (Cons r rs)
  have "same_runs s (cancel_slot f r s)"
    using same_runs_cancel [of s False "rqTask r"] by (simp add: cancel_slot_def same_runs_def)
  from same_runs_trans [OF this Cons.IH] show ?case by simp
qed simp

lemma same_runs_reqs: "same_runs s s' \<Longrightarrow> map rnReq (qRun s') = map rnReq (qRun s)"
  unfolding same_runs_def by (induction rule: list_all2_induct) (auto simp: same_run_def)

lemma same_runs_mem: "same_runs s s' \<Longrightarrow> m \<in> set (qRun s') \<Longrightarrow> \<exists>n\<in>set (qRun s). same_run n m"
  unfolding same_runs_def by (metis list_all2_conv_all_nth in_set_conv_nth)

lemma same_runs_mem2: "same_runs s s' \<Longrightarrow> n \<in> set (qRun s) \<Longrightarrow> \<exists>m\<in>set (qRun s'). same_run n m"
  unfolding same_runs_def by (metis list_all2_conv_all_nth in_set_conv_nth)

subsection \<open>What a stop does\<close>

lemma stop_started_cases: "snd (stop_started us issuer r s) = s \<or> (\<exists>own t. snd (stop_started us issuer r s) = cancel_run own t s)"
  by (auto simp: stop_started_def)

lemma stop_cases:
  fixes now us issuer t steal s
  defines "s' \<equiv> snd (snd (cancelTask now us issuer t steal s))"
  shows "s' = s \<or> (\<exists>own t'. s' = cancel_run own t' s) \<or>
    s' = snd (drain (stop_verdict us issuer t) (\<lambda>i. quotaRefund i 0) steal (length (qChan s)) s)"
proof -
  have *: "s' = snd (stop_task us issuer t steal s)"
    by (simp add: s'_def cancelTask_def split_beta)
  show ?thesis
    unfolding * stop_task_def using stop_started_cases [of us issuer _ s]
    by (auto simp: split_beta split: option.split)
qed

subsection \<open>The mirror is the queue\<close>

definition unique :: "request multiset \<Rightarrow> bool" where
  "unique A = (\<forall>t. count (image_mset rqTask A) t \<le> 1)"

lemma unique_mset: "unique (mset xs) \<longleftrightarrow> distinct (map rqTask xs)"
proof -
  have "image_mset rqTask (mset xs) = mset (map rqTask xs)" by simp
  moreover have "distinct ys \<longleftrightarrow> (\<forall>t. count (mset ys) t \<le> 1)" for ys :: "string list"
  proof
    assume "\<forall>t. count (mset ys) t \<le> 1"
    then have "count (mset ys) a = (if a \<in> set ys then 1 else 0)" for a
      using count_eq_zero_iff [of "mset ys" a] by (cases "count (mset ys) a") (auto simp: le_Suc_eq dest: spec [of _ a])
    then show "distinct ys" by (simp add: distinct_count_atmost_1)
  qed (simp add: distinct_count_atmost_1)
  ultimately show ?thesis by (simp add: unique_def)
qed

lemma unique_add: "unique (add_mset r A) \<longleftrightarrow> unique A \<and> rqTask r \<notin> rqTask ` set_mset A"
  by (auto simp: unique_def not_in_iff [symmetric] count_eq_zero_iff [symmetric] le_Suc_eq image_iff
      dest: spec [of _ "rqTask r"])

lemma unique_sub: "unique B \<Longrightarrow> A \<subseteq># B \<Longrightarrow> unique A"
  unfolding unique_def by (meson image_mset_subseteq_mono le_trans mset_subset_eq_count)

lemma unique_pending: "unique (live s) \<Longrightarrow> distinct (map rqTask (pending s))"
  unfolding unique_mset [symmetric] by (rule unique_sub) (auto simp: live_def)

lemma unique_running: "unique (live s) \<Longrightarrow> distinct (map run_id (qRun s))"
proof -
  assume "unique (live s)"
  then have "unique (mset (map rnReq (qRun s)))" by (rule unique_sub) (simp only: live_def mset_subset_eq_add_right)
  then show ?thesis by (simp add: unique_mset comp_def del: mset_map)
qed

lemma run_unique: "unique (live s) \<Longrightarrow> m \<in> set (qRun s) \<Longrightarrow> n \<in> set (qRun s) \<Longrightarrow> run_id m = run_id n \<Longrightarrow> m = n"
  using unique_running by (auto simp: distinct_map inj_on_def)

lemma removeQueued_filter:
  "distinct (map rqTask xs) \<Longrightarrow> removeQueuedReqLocked t xs = filter (\<lambda>r. rqTask r \<noteq> t) xs"
proof (induction xs)
  case (Cons r xs)
  show ?case
  proof (cases "rqTask r = t")
    case True
    with Cons.prems have "t \<notin> rqTask ` set xs" by simp
    then have "\<forall>x\<in>set xs. rqTask x \<noteq> t" by blast
    then have "filter (\<lambda>r. rqTask r \<noteq> t) xs = xs" by (rule filter_True)
    with True show ?thesis by simp
  next
    case False
    with Cons show ?thesis by simp
  qed
qed simp

lemma removeQueued_mset:
  assumes "distinct (map rqTask xs)" "r \<in> set xs"
  shows "mset (removeQueuedReqLocked (rqTask r) xs) = mset xs - {#r#}"
  using assms
proof (induction xs)
  case (Cons a xs)
  show ?case
  proof (cases "a = r")
    case False
    with Cons.prems have "r \<in> set xs" "rqTask a \<noteq> rqTask r" by auto
    with Cons False show ?thesis by simp
  qed simp
qed simp

definition queue_ok :: "bool \<Rightarrow> sched \<Rightarrow> bool" where
  "queue_ok race s = (unique (live s) \<and> [] \<notin> task_ids s \<and> mset (qMirror s) = mset (pending s) \<and>
     (race \<or> qMirror s = pending s))"

lemma mirror_distinct: "queue_ok race s \<Longrightarrow> distinct (map rqTask (qMirror s))"
  unfolding unique_mset [symmetric] queue_ok_def using unique_pending unique_mset by metis

lemma live_drop: "qChan s = r # rs \<Longrightarrow> live s = add_mset r (live (drop_queued f r (s\<lparr>qChan := rs\<rparr>)))"
  by (auto simp: live_def pending_def frame_simps split: option.splits)

lemma live_rot: "qChan s = r # rs \<Longrightarrow> live (s\<lparr>qChan := rs @ [r]\<rparr>) = live s"
  by (auto simp: live_def pending_def split: option.splits)

lemma queue_ok_live: "queue_ok race s' \<Longrightarrow> pending s = pending s' \<Longrightarrow> qMirror s = qMirror s' \<Longrightarrow> live s = live s' \<Longrightarrow> queue_ok race s"
  by (simp add: queue_ok_def task_ids_def)

lemma queue_ok_drain_race:
  assumes "queue_ok race s"
  shows "queue_ok True (snd (drain judge f steal n s))"
proof (rule drain_inv)
  show "queue_ok True s" using assms by (simp add: queue_ok_def)
next
  fix s assume "queue_ok True s"
  then show "queue_ok True (receive s)" by (rule queue_ok_live) (simp_all add: frame_simps)
next
  fix s r rs assume "queue_ok True s" and c: "qChan s = r # rs"
  then show "queue_ok True (s\<lparr>qChan := rs @ [r]\<rparr>)"
    by (auto simp: queue_ok_def task_ids_def live_rot [OF c]) (simp add: pending_def c split: option.splits)
next
  fix s r rs assume ok: "queue_ok True s" and c: "qChan s = r # rs"
  have d: "distinct (map rqTask (qMirror s))" by (rule mirror_distinct [OF ok])
  have m: "mset (qMirror s) = mset (pending s)" using ok by (simp add: queue_ok_def)
  then have "set (qMirror s) = set (pending s)" by (metis set_mset_mset)
  then have r: "r \<in> set (qMirror s)" by (simp add: pending_def c)
  let ?s = "drop_queued f r (s\<lparr>qChan := rs\<rparr>)"
  have "mset (qMirror ?s) = mset (qMirror s) - {#r#}"
    using removeQueued_mset [OF d r] by (simp add: drop_queued_def)
  also have "\<dots> = mset (pending ?s)" by (simp add: m frame_simps) (simp add: pending_def c split: option.splits)
  finally have mm: "mset (qMirror ?s) = mset (pending ?s)" .
  have "unique (live ?s)" "[] \<notin> task_ids ?s"
    using ok live_drop [OF c, of f] by (auto simp: queue_ok_def unique_add task_ids_def)
  with mm show "queue_ok True ?s" by (simp add: queue_ok_def)
qed

text \<open>When no worker receives meanwhile, a drain is a filter, and keeps the order.\<close>

lemma drain_None:
  "qChan s = xs @ rot \<Longrightarrow> drain judge refund None (length xs) s =
     ((filter (\<lambda>r. judge r = Drop) xs, \<exists>r\<in>set xs. judge r = Deny),
      s\<lparr>qChan := rot @ filter (\<lambda>r. judge r \<noteq> Drop) xs,
        qMirror := fold (\<lambda>r. removeQueuedReqLocked (rqTask r)) (filter (\<lambda>r. judge r = Drop) xs) (qMirror s),
        qTasks := fold (\<lambda>r. uncount_task (rqUser r)) (filter (\<lambda>r. judge r = Drop) xs) (qTasks s),
        qLedger := fold refund (map rqCharge (filter (\<lambda>r. judge r = Drop) xs)) (qLedger s)\<rparr>)"
proof (induction xs arbitrary: s rot)
  case (Cons r xs)
  show ?case
  proof (cases "judge r")
    case Keep
    have "qChan (s\<lparr>qChan := (xs @ rot) @ [r]\<rparr>) = xs @ (rot @ [r])" by simp
    from Cons.IH [OF this] Cons.prems Keep show ?thesis by simp
  next
    case Deny
    have "qChan (s\<lparr>qChan := (xs @ rot) @ [r]\<rparr>) = xs @ (rot @ [r])" by simp
    from Cons.IH [OF this] Cons.prems Deny show ?thesis by simp
  next
    case Drop
    have "qChan (drop_queued refund r (s\<lparr>qChan := xs @ rot\<rparr>)) = xs @ rot" by (simp add: drop_queued_def)
    from Cons.IH [OF this] Cons.prems Drop show ?thesis by (simp add: drop_queued_def)
  qed
qed simp

lemma fold_remove_queued:
  "distinct (map rqTask xs) \<Longrightarrow> fold (\<lambda>r. removeQueuedReqLocked (rqTask r)) ds xs = filter (\<lambda>r. rqTask r \<notin> rqTask ` set ds) xs"
proof (induction ds arbitrary: xs)
  case (Cons d ds)
  have "distinct (map rqTask (removeQueuedReqLocked (rqTask d) xs))"
    using Cons.prems by (simp add: removeQueued_filter distinct_map_filter)
  from Cons.IH [OF this] Cons.prems show ?case by (simp add: removeQueued_filter conj_commute)
qed simp

lemma dropped_ids:
  assumes "distinct (map rqTask (hs @ xs))"
  shows "filter (\<lambda>r. rqTask r \<notin> rqTask ` set (filter P xs)) (hs @ xs) = hs @ filter (\<lambda>r. \<not> P r) xs"
proof -
  have "filter (\<lambda>r. rqTask r \<notin> rqTask ` set (filter P xs)) hs = hs"
    using assms by (intro filter_True) auto
  moreover have "filter (\<lambda>r. rqTask r \<notin> rqTask ` set (filter P xs)) xs = filter (\<lambda>r. \<not> P r) xs"
    using assms by (intro filter_cong) (auto simp: distinct_map inj_on_def)
  ultimately show ?thesis by simp
qed

lemma queue_ok_drain:
  assumes "queue_ok race s" "race \<or> steal = None"
  shows "queue_ok race (snd (drain judge f steal (length (qChan s)) s))"
proof (cases race)
  case True
  then show ?thesis using queue_ok_drain_race [OF assms(1)] by simp
next
  case False
  then have st: "steal = None" and m: "qMirror s = pending s" using assms by (auto simp: queue_ok_def)
  let ?s = "snd (drain judge f steal (length (qChan s)) s)"
  obtain hs where hs: "pending s = hs @ qChan s" "qHand s = None \<and> hs = [] \<or> (\<exists>h. qHand s = Some h \<and> hs = [fst h])"
    by (cases "qHand s") (auto simp: pending_def)
  have d: "distinct (map rqTask (hs @ qChan s))"
    using assms(1) unique_pending hs(1) by (metis queue_ok_def)
  have "qMirror ?s = hs @ filter (\<lambda>r. judge r \<noteq> Drop) (qChan s)"
    using drain_None [of s "qChan s" "[]" judge f] st
    by (simp add: m hs(1) fold_remove_queued [OF d, simplified] dropped_ids [OF d, simplified] del: filter_append)
  moreover have "pending ?s = hs @ filter (\<lambda>r. judge r \<noteq> Drop) (qChan s)"
    using drain_None [of s "qChan s" "[]" judge f] st hs(2) by (auto simp: pending_def)
  ultimately show ?thesis
    using queue_ok_drain_race [OF assms(1), of judge f steal "length (qChan s)"] by (simp add: queue_ok_def)
qed

lemma queue_ok_upd_run: "queue_ok race s \<Longrightarrow> (\<And>n. rnReq (f n) = rnReq n) \<Longrightarrow> queue_ok race (upd_run t f s)"
  by (rule queue_ok_live) (simp_all add: frame_simps)

lemma live_slots: "live (fold (cancel_slot f) rs s) = live s"
  using same_runs_reqs [OF same_runs_slots [of s f rs]] by (simp add: live_def pending_def frame_simps del: mset_map)

lemma stop_all_state:
  "\<exists>refund rs. snd (cancelAllTasksLocked syncDB up order steal s) =
     snd (drain (\<lambda>_. Drop) refund steal (length (qChan s)) (fold (cancel_slot refund) rs s)) \<and>
     refund = (\<lambda>i. if syncDB then quotaRefundSync up i 0 else quotaRefund i 0)"
  unfolding cancelAllTasksLocked_def Let_def split_beta snd_conv cancel_slots_frame by blast

text \<open>Where the worker stands: it lends only while it waits for a head, and to a free slot.\<close>

definition ctl_ok :: "sched \<Rightarrow> bool" where
  "ctl_ok s = ((qLend s \<noteq> None \<longrightarrow> qHand s = None \<and> qConc s \<and> qWait s \<noteq> None) \<and>
     (\<forall>r b k. qHand s = Some (r, b, k) \<longrightarrow>
        (if b then qConc s \<and> qWait s \<noteq> None \<and> qBorrow s = None else qWait s = None)))"

lemma ctl_ok_frame:
  "ctl_ok s \<Longrightarrow> qLend s' = qLend s \<Longrightarrow> qHand s' = qHand s \<Longrightarrow> qConc s' = qConc s \<Longrightarrow> qWait s' = qWait s \<Longrightarrow>
   qBorrow s' = qBorrow s \<or> qBorrow s' = None \<Longrightarrow> ctl_ok s'"
  by (auto simp: ctl_ok_def split: if_splits)

lemma ctl_ok_receive: "ctl_ok s \<Longrightarrow> ctl_ok (receive s)"
  by (auto simp: receive_def idle_def ctl_ok_def split: list.split)

lemma ctl_ok_drain: "ctl_ok s \<Longrightarrow> ctl_ok (snd (drain j f steal n s))"
  by (rule drain_inv [where P = ctl_ok]) (auto intro: ctl_ok_receive elim: ctl_ok_frame simp: drop_queued_def)

lemma start_hand_frame [frame_simps]:
  "qHand (start_hand us s) = None" "qLend (start_hand us s) = qLend s" "qConc (start_hand us s) = qConc s"
  "qChan (start_hand us s) = qChan s" "qUploading (start_hand us s) = qUploading s" "qTasks (start_hand us s) = qTasks s"
  "qLedger (start_hand us s) = qLedger s" "qHeld (start_hand us s) = qHeld s"
  by (auto simp: start_hand_def startTask_def startSerial_def Let_def split: option.split)

lemma leave_frame [frame_simps]:
  "qHand (leave n s) = qHand s" "qLend (leave n s) = qLend s" "qConc (leave n s) = qConc s"
  "qChan (leave n s) = qChan s" "qMirror (leave n s) = qMirror s" "qWait (leave n s) = qWait s" "pending (leave n s) = pending s"
  "qLedger (leave n s) = qLedger s" "qHeld (leave n s) = qHeld s"
  "qRun (leave n s) = filter (\<lambda>m. run_id m \<noteq> run_id n) (qRun s)"
  by (simp_all add: leave_def Let_def pending_def split: role.split)

lemma leave_slots [frame_simps]:
  "qBorrow (leave n s) = (if rnRole n = Borrower \<and> qBorrow s = Some (rnReq n) then None else qBorrow s)"
  "qActive (leave n s) = (if rnRole n = Serial \<or> rnRole n = Head \<and> qActive s = Some (rnReq n) then None else qActive s)"
  "qUploading (leave n s) = (if rnRole n = Serial then qUploading s else (qUploading s)(run_id n := None))"
  by (cases "rnRole n"; simp add: leave_def Let_def)+

lemma done_frame [frame_simps]:
  "qHand (onDownloadComplete n s) = qHand s" "qLend (onDownloadComplete n s) = qLend s"
  "qConc (onDownloadComplete n s) = qConc s" "qWait (onDownloadComplete n s) = qWait s"
  "qBorrow (onDownloadComplete n s) = qBorrow s" "qActive (onDownloadComplete n s) = qActive s"
  "qMirror (onDownloadComplete n s) = qMirror s" "qTasks (onDownloadComplete n s) = qTasks s"
  "qLedger (onDownloadComplete n s) = qLedger s" "qHeld (onDownloadComplete n s) = qHeld s"
  "pending (onDownloadComplete n s) = pending s" "live (onDownloadComplete n s) = live s"
  by (simp_all add: onDownloadComplete_def frame_simps pending_def live_def comp_def if_distrib cong: if_cong)

lemma after_frame [frame_simps]:
  "qHand (finish_after x n s) = qHand s" "qLend (finish_after x n s) = qLend s" "qConc (finish_after x n s) = qConc s"
  "qWait (finish_after x n s) = qWait s" "qBorrow (finish_after x n s) = qBorrow s" "qActive (finish_after x n s) = qActive s"
  "qMirror (finish_after x n s) = qMirror s" "qTasks (finish_after x n s) = qTasks s" "qHeld (finish_after x n s) = qHeld s"
  "qUploading (finish_after x n s) = qUploading s" "qChan (finish_after x n s) = qChan s"
  "pending (finish_after x n s) = pending s" "live (finish_after x n s) = live s"
  by (simp_all add: finish_after_def frame_simps pending_def live_def comp_def if_distrib cong: if_cong)

lemma candidate_cases:
  "snd (lend_candidate thr mx peek s) = s \<or> (\<exists>m. snd (lend_candidate thr mx peek s) = s\<lparr>qPeeked := m\<rparr>)"
  unfolding lend_candidate_def Let_def by (simp split: option.split list.split) blast

lemma lend_pick_cases:
  "\<exists>c. lend_pick thr mx peek s = s\<lparr>qLend := c\<rparr> \<or> (\<exists>m. lend_pick thr mx peek s = s\<lparr>qPeeked := m, qLend := c\<rparr>)"
  using candidate_cases [of thr mx peek s] unfolding lend_pick_def split_beta by metis

lemma lend_pick_frame [frame_simps]:
  "qHand (lend_pick thr mx peek s) = qHand s" "qConc (lend_pick thr mx peek s) = qConc s"
  "qWait (lend_pick thr mx peek s) = qWait s" "qBorrow (lend_pick thr mx peek s) = qBorrow s"
  "qActive (lend_pick thr mx peek s) = qActive s" "qMirror (lend_pick thr mx peek s) = qMirror s"
  "qTasks (lend_pick thr mx peek s) = qTasks s" "qHeld (lend_pick thr mx peek s) = qHeld s"
  "qUploading (lend_pick thr mx peek s) = qUploading s" "qChan (lend_pick thr mx peek s) = qChan s"
  "qRun (lend_pick thr mx peek s) = qRun s" "qLedger (lend_pick thr mx peek s) = qLedger s"
  using lend_pick_cases [of thr mx peek s] by auto

lemma ctl_ok_step: "sched_step race s s' \<Longrightarrow> ctl_ok s \<Longrightarrow> ctl_ok s'"
proof (induction rule: sched_step.induct)
  case (Enqueue r s board ok reply s1)
  then show ?case
    by (auto simp: enqueueDownloadWithAfter_def Let_def elim!: ctl_ok_frame split: if_splits)
next
  case (Start s us)
  then have "qLend s = None" by (cases "qLend s") (auto simp: ctl_ok_def)
  then show ?case by (simp add: ctl_ok_def frame_simps)
next
  case (Leave n s)
  then show ?case
    by (elim ctl_ok_frame) (auto simp: frame_simps)
next
  case (Lend_Pick s thr mx peek)
  then show ?case by (auto simp: ctl_ok_def frame_simps)
next
  case (Lend_Take s cand k)
  then show ?case by (auto simp: lend_take_def Let_def ctl_ok_def split: list.split)
next
  case (Stop steal s now us issuer t)
  then show ?case
    using stop_cases [of now us issuer t steal s] by (auto simp: cancel_run_def frame_simps intro: ctl_ok_drain elim: ctl_ok_frame)
next
  case (Stop_All steal order s syncDB up)
  obtain refund rs where "snd (cancelAllTasksLocked syncDB up order steal s) =
     snd (drain (\<lambda>_. Drop) refund steal (length (qChan s)) (fold (cancel_slot refund) rs s))"
    using stop_all_state by blast
  moreover have "ctl_ok (fold (cancel_slot refund) rs s)"
    using Stop_All(3) by (rule ctl_ok_frame) (simp_all add: frame_simps)
  ultimately show ?case by (simp add: ctl_ok_drain)
qed (auto simp: frame_simps ctl_ok_receive elim: ctl_ok_frame, auto simp: ctl_ok_def)

lemma live_start:
  assumes "qHand s = Some (r, b, k)"
  shows "live (start_hand us s) = live s" "pending s = r # pending (start_hand us s)"
    "qMirror (start_hand us s) = removeQueuedReqLocked (rqTask r) (qMirror s)"
  using assms by (simp_all add: start_hand_def startTask_def startSerial_def Let_def live_def pending_def)

lemma live_enqueue:
  assumes "enqueueDownloadWithAfter board r s = ((ok, reply), s')"
  shows "live s' = (if ok then add_mset r (live s) else live s)"
    "pending s' = (if ok then pending s @ [r] else pending s)" "qMirror s' = (if ok then qMirror s @ [r] else qMirror s)"
    "qHeld s' = qHeld s" "qLedger s' = qLedger s" "qRun s' = qRun s" "qHand s' = qHand s" "qActive s' = qActive s"
    "qBorrow s' = qBorrow s" "qUploading s' = qUploading s" "qWait s' = qWait s" "qConc s' = qConc s" "qLend s' = qLend s"
    "qTasks s' = (if ok then count_task (rqUser r) (qTasks s) else qTasks s)"
  using assms by (auto simp: enqueueDownloadWithAfter_def Let_def live_def pending_def split: if_splits)

lemma live_leave:
  assumes "unique (live s)" "n \<in> set (qRun s)"
  shows "live s = add_mset (rnReq n) (live (leave n s))"
proof -
  obtain xs ys where xy: "qRun s = xs @ n # ys" using split_list [OF assms(2)] by blast
  have d: "distinct (map run_id (qRun s))" using unique_running assms(1) .
  then have "filter (\<lambda>m. run_id m \<noteq> run_id n) (qRun s) = xs @ ys"
    by (simp add: xy) (intro arg_cong2 [where f = append] filter_True; metis image_eqI)
  then show ?thesis by (simp add: live_def frame_simps xy)
qed

lemma lend_take_cases:
  "lend_take cand k s = s\<lparr>qLend := None\<rparr> \<or>
   (\<exists>front m got rest. qMirror s = front # m \<and> qChan s = got # rest \<and> rqTask front = rqTask cand \<and> qBorrow s = None \<and>
      (rqTask got \<noteq> rqTask cand \<and> lend_take cand k s = s\<lparr>qLend := None, qChan := rest @ [got]\<rparr> \<or>
       rqTask got = rqTask cand \<and> lend_take cand k s = s\<lparr>qLend := None, qChan := rest, qHand := Some (got, True, k)\<rparr>))"
  by (auto simp: lend_take_def Let_def split: list.split)

lemma lend_take_live:
  assumes "qHand s = None"
  shows "live (lend_take cand k s) = live s" "mset (pending (lend_take cand k s)) = mset (pending s)"
    "qMirror s = pending s \<Longrightarrow> pending (lend_take cand k s) = pending s" "qMirror (lend_take cand k s) = qMirror s"
  using lend_take_cases [of cand k s] assms by (auto simp: live_def pending_def)

lemma queue_ok_step:
  assumes "sched_step race s s'" "queue_ok race s" "ctl_ok s"
  shows "queue_ok race s'"
  using assms
proof (induction rule: sched_step.induct)
  case (Enqueue r s board ok reply s1)
  note L = live_enqueue [OF Enqueue(4)]
  have "queue_ok race s1"
    using Enqueue(2,3,5) L(1-3) by (auto simp: queue_ok_def unique_add task_ids_def)
  then show ?case by (auto elim: queue_ok_live simp: pending_def live_def)
next
  case (Receive s)
  then show ?case by (auto elim: queue_ok_live simp: frame_simps)
next
  case (Start s us)
  then obtain r b k where h: "qHand s = Some (r, b, k)" by (metis not_None_eq prod_cases3)
  note L = live_start [OF h, of us]
  have d: "distinct (map rqTask (qMirror s))" by (rule mirror_distinct [OF Start(2)])
  have m: "mset (qMirror s) = mset (pending s)" using Start by (simp add: queue_ok_def)
  have "r \<in> set (qMirror s)" using mset_eq_setD [OF m] by (simp add: L(2))
  then have "mset (qMirror (start_hand us s)) = mset (pending (start_hand us s))"
    using removeQueued_mset [OF d] m by (simp add: L(3)) (simp add: L(2))
  then show ?case using Start(2) L by (auto simp: queue_ok_def task_ids_def)
next
  case (Leave n s)
  then show ?case using live_leave [of s n]
    by (auto simp: queue_ok_def task_ids_def frame_simps unique_add)
next
  case (Lend_Pick s thr mx peek)
  have "pending (lend_pick thr mx peek s) = pending s" "live (lend_pick thr mx peek s) = live s"
    by (simp_all add: pending_def live_def frame_simps)
  with Lend_Pick show ?case by (auto elim: queue_ok_live simp: frame_simps)
next
  case (Lend_Take s cand k)
  then have "qHand s = None" by (auto simp: ctl_ok_def)
  from lend_take_live [OF this, of cand k] Lend_Take show ?case
    by (auto simp: queue_ok_def task_ids_def)
next
  case (Stop steal s now us issuer t)
  have "queue_ok race (cancel_run own t' s)" for own t'
    unfolding cancel_run_def using Stop(2) by (rule queue_ok_upd_run) simp
  then show ?case
    using stop_cases [of now us issuer t steal s] Stop queue_ok_drain [OF Stop(2,1)] by auto
next
  case (Stop_All steal order s syncDB up)
  obtain refund rs where "snd (cancelAllTasksLocked syncDB up order steal s) =
     snd (drain (\<lambda>_. Drop) refund steal (length (qChan s)) (fold (cancel_slot refund) rs s))"
    using stop_all_state by blast
  moreover have "queue_ok race (fold (cancel_slot refund) rs s)"
    using Stop_All(3) by (rule queue_ok_live) (simp_all add: frame_simps live_slots pending_def)
  from queue_ok_drain [OF this Stop_All(1), of "\<lambda>_. Drop" refund] have
    "queue_ok race (snd (drain (\<lambda>_. Drop) refund steal (length (qChan s)) (fold (cancel_slot refund) rs s)))"
    by (simp add: frame_simps)
  ultimately show ?case by simp
qed (auto elim: queue_ok_live simp: frame_simps, auto elim: queue_ok_live simp: pending_def live_def)

lemma reachable_queue: "reachable race s \<Longrightarrow> queue_ok race s \<and> ctl_ok s"
proof (induction rule: reachable_induct)
  case (init conc n cat)
  then show ?case by (simp add: queue_ok_def ctl_ok_def empty_sched_def live_def pending_def task_ids_def unique_def)
next
  case (step s s')
  then show ?case using queue_ok_step ctl_ok_step by blast
qed

end
