(* ===== verification/Scheduler_Slots.thy ===== *)
theory Scheduler_Slots
  imports Scheduler_Safety
begin

section \<open>Per-user counts, the running slots and the charges of the scheduler\<close>

text \<open>
  Three more invariants of the step relation of \<open>Scheduler_Safety\<close>, and the properties they give:
  the pending count of a user is exact, every started task is one a stop finds, at most two
  tasks download, and no open charge is left without a task or a submission that settles it.
\<close>

subsection \<open>The pending count of a user\<close>

definition count_ok :: "sched \<Rightarrow> bool" where
  "count_ok s = (\<forall>u. u \<noteq> 0 \<longrightarrow> cget (qTasks s) u = int (count (image_mset rqUser (live s)) u))"

lemma count_ok_frame: "count_ok s \<Longrightarrow> live s' = live s \<Longrightarrow> qTasks s' = qTasks s \<Longrightarrow> count_ok s'"
  by (simp add: count_ok_def)

lemma count_ok_remove:
  assumes "count_ok s" "live s = add_mset r (live s')"
    and "qTasks s' = uncount_task (rqUser r) (qTasks s) \<or>
         qTasks s' = (if rqUser r \<noteq> 0 then cadd (qTasks s) (rqUser r) (-1) else qTasks s)"
  shows "count_ok s'"
  using assms by (auto simp: count_ok_def uncount_task_def cget_cadd split: if_splits)

lemma leave_tasks:
  "qTasks (leave n s) = uncount_task (rqUser (rnReq n)) (qTasks s) \<or>
   qTasks (leave n s) = (if rqUser (rnReq n) \<noteq> 0 then cadd (qTasks s) (rqUser (rnReq n)) (-1) else qTasks s)"
  by (simp add: leave_def Let_def split: role.split)

lemma count_ok_drain: "count_ok s \<Longrightarrow> count_ok (snd (drain j f steal n s))"
proof (rule drain_inv [where P = count_ok])
  fix s r rs assume ok: "count_ok s" and c: "qChan s = r # rs"
  from ok live_drop [OF c, of f] show "count_ok (drop_queued f r (s\<lparr>qChan := rs\<rparr>))"
    by (rule count_ok_remove) (simp add: drop_queued_def)
qed (auto elim: count_ok_frame simp: frame_simps live_rot)

lemma count_ok_step:
  assumes "sched_step race s s'" "count_ok s" "queue_ok race s" "ctl_ok s"
  shows "count_ok s'"
  using assms
proof (induction rule: sched_step.induct)
  case (Enqueue r s board ok reply s1)
  note L = live_enqueue [OF Enqueue(4)]
  have "count_ok s1"
    using Enqueue(5) L(1,14) by (auto simp: count_ok_def count_task_def cget_cadd)
  then show ?case by (auto elim: count_ok_frame simp: pending_def live_def)
next
  case (Receive s)
  then show ?case by (auto elim: count_ok_frame simp: frame_simps)
next
  case (Start s us)
  then obtain r b k where h: "qHand s = Some (r, b, k)" by (metis not_None_eq prod_cases3)
  from Start live_start [OF h, of us] show ?case by (auto elim: count_ok_frame simp: frame_simps)
next
  case (Leave n s)
  have "unique (live s)" using Leave by (simp add: queue_ok_def)
  from count_ok_remove [OF Leave(4) live_leave [OF this Leave(1)] leave_tasks] show ?case .
next
  case (Lend_Pick s thr mx peek)
  then show ?case by (auto elim: count_ok_frame simp: frame_simps pending_def live_def)
next
  case (Lend_Take s cand k)
  then have h: "qHand s = None" by (auto simp: ctl_ok_def)
  have "qTasks (lend_take cand k s) = qTasks s" using lend_take_cases [of cand k s] by auto
  with Lend_Take lend_take_live [OF h, of cand k] show ?case by (auto elim: count_ok_frame)
next
  case (Stop steal s now us issuer t)
  have "count_ok (cancel_run own t' s)" for own t'
    unfolding cancel_run_def using Stop(2) by (rule count_ok_frame) (simp_all add: frame_simps)
  then show ?case
    using stop_cases [of now us issuer t steal s] Stop count_ok_drain [OF Stop(2)] by auto
next
  case (Stop_All steal order s syncDB up)
  obtain refund rs where "snd (cancelAllTasksLocked syncDB up order steal s) =
     snd (drain (\<lambda>_. Drop) refund steal (length (qChan s)) (fold (cancel_slot refund) rs s))"
    using stop_all_state by blast
  moreover have "count_ok (fold (cancel_slot refund) rs s)"
    using Stop_All(3) by (rule count_ok_frame) (simp_all add: frame_simps live_slots)
  ultimately show ?case by (simp add: count_ok_drain)
qed (auto elim: count_ok_frame simp: frame_simps, auto elim: count_ok_frame simp: pending_def live_def)

lemma reachable_count: "reachable race s \<Longrightarrow> count_ok s"
proof (induction rule: reachable_induct)
  case (init conc n cat)
  then show ?case by (simp add: count_ok_def empty_sched_def live_def pending_def)
next
  case (step s s')
  then show ?case using count_ok_step reachable_queue by blast
qed

subsection \<open>The running slots\<close>

text \<open>
  Every goroutine is reachable from the fields a stop searches: a head that downloads is
  \<open>qActive\<close> and the one the worker waits for, a borrower is \<open>qBorrow\<close>, a task past its download is
  in \<open>qUploading\<close>.
\<close>

definition run_ok :: "sched \<Rightarrow> running \<Rightarrow> bool" where
  "run_ok s n =
     ((rnRole n = Serial \<longleftrightarrow> \<not> qConc s) \<and> (rnRole n = Serial \<longrightarrow> \<not> rnDone n) \<and>
      (rnRole n \<noteq> Borrower \<and> \<not> rnDone n \<longrightarrow> qActive s = Some (rnReq n) \<and> qWait s = Some (run_id n)) \<and>
      (rnRole n = Borrower \<longrightarrow> qBorrow s = Some (rnReq n)) \<and>
      (rnDone n \<longrightarrow> qUploading s (run_id n) = Some (rnReq n)))"

definition slots_ok :: "sched \<Rightarrow> bool" where
  "slots_ok s =
     ((\<forall>n\<in>set (qRun s). run_ok s n) \<and>
      (\<forall>t r. qUploading s t = Some r \<longrightarrow> (\<exists>n\<in>set (qRun s). rnReq n = r \<and> rqTask r = t \<and> rnDone n)) \<and>
      (\<forall>r. qActive s = Some r \<longrightarrow> (\<exists>n\<in>set (qRun s). rnReq n = r \<and> rnRole n \<noteq> Borrower)) \<and>
      (\<forall>r. qBorrow s = Some r \<longrightarrow> (\<exists>n\<in>set (qRun s). rnReq n = r \<and> rnRole n = Borrower)))"

text \<open>The slots depend on the goroutines only up to their flags and their rips.\<close>

definition same_slots :: "sched \<Rightarrow> sched \<Rightarrow> bool" where
  "same_slots s s' = list_all2 (\<lambda>n m. rnReq m = rnReq n \<and> rnRole m = rnRole n \<and> rnDone m = rnDone n) (qRun s) (qRun s')"

lemma same_slots_all:
  assumes "same_slots s s'" "\<And>n m. rnReq m = rnReq n \<Longrightarrow> rnRole m = rnRole n \<Longrightarrow> rnDone m = rnDone n \<Longrightarrow> P n = P m"
  shows "(\<forall>m\<in>set (qRun s'). P m) = (\<forall>n\<in>set (qRun s). P n)" "(\<exists>m\<in>set (qRun s'). P m) = (\<exists>n\<in>set (qRun s). P n)"
proof -
  have "list_all2 (\<lambda>n m. P n = P m) (qRun s) (qRun s')"
    using assms(1) unfolding same_slots_def by (rule list.rel_mono_strong) (elim conjE, rule assms(2))
  then have "map P (qRun s) = map P (qRun s')" by (induction rule: list_all2_induct) auto
  then have "(\<forall>b\<in>set (map P (qRun s')). b) = (\<forall>b\<in>set (map P (qRun s)). b)"
    "(\<exists>b\<in>set (map P (qRun s')). b) = (\<exists>b\<in>set (map P (qRun s)). b)" by simp_all
  then show "(\<forall>m\<in>set (qRun s'). P m) = (\<forall>n\<in>set (qRun s). P n)" "(\<exists>m\<in>set (qRun s'). P m) = (\<exists>n\<in>set (qRun s). P n)"
    by simp_all
qed

lemma same_slots_run: "same_runs s s' \<Longrightarrow> same_slots s s'"
  unfolding same_runs_def same_slots_def by (erule list.rel_mono_strong) (simp add: same_run_def)

lemma same_slots_refl [simp]: "qRun s' = qRun s \<Longrightarrow> same_slots s s'"
  by (simp add: same_slots_def list_all2_refl)

lemma same_slots_upd:
  "(\<And>n. rnReq (f n) = rnReq n \<and> rnRole (f n) = rnRole n \<and> rnDone (f n) = rnDone n) \<Longrightarrow> same_slots s (upd_run t f s)"
  by (simp add: same_slots_def frame_simps list_all2_map2 list_all2_refl)

lemma slots_ok_frame:
  assumes "slots_ok s" "same_slots s s'" "qConc s' = qConc s" "qActive s' = qActive s" "qBorrow s' = qBorrow s"
    "qUploading s' = qUploading s" "qWait s' = qWait s"
  shows "slots_ok s'"
proof -
  have run: "run_ok s' n = run_ok s n" for n using assms(3-7) by (simp add: run_ok_def)
  note A = same_slots_all [OF assms(2)]
  have 1: "(\<forall>m\<in>set (qRun s'). run_ok s m) = (\<forall>n\<in>set (qRun s). run_ok s n)"
    by (rule A) (simp add: run_ok_def)
  have 2: "(\<exists>m\<in>set (qRun s'). rnReq m = r \<and> rqTask r = t \<and> rnDone m) = (\<exists>n\<in>set (qRun s). rnReq n = r \<and> rqTask r = t \<and> rnDone n)" for r t
    by (rule A) simp
  have 3: "(\<exists>m\<in>set (qRun s'). rnReq m = r \<and> rnRole m \<noteq> Borrower) = (\<exists>n\<in>set (qRun s). rnReq n = r \<and> rnRole n \<noteq> Borrower)" for r
    by (rule A) simp
  have 4: "(\<exists>m\<in>set (qRun s'). rnReq m = r \<and> rnRole m = Borrower) = (\<exists>n\<in>set (qRun s). rnReq n = r \<and> rnRole n = Borrower)" for r
    by (rule A) simp
  show ?thesis
    using assms(1) unfolding slots_ok_def assms(3-7) run 1 2 3 4 .
qed

lemma slots_ok_runs: "slots_ok s \<Longrightarrow> qRun s' = qRun s \<Longrightarrow> qConc s' = qConc s \<Longrightarrow> qActive s' = qActive s \<Longrightarrow>
    qBorrow s' = qBorrow s \<Longrightarrow> qUploading s' = qUploading s \<Longrightarrow> qWait s' = qWait s \<Longrightarrow> slots_ok s'"
  by (rule slots_ok_frame) simp_all

lemma slots_head:
  "slots_ok s \<Longrightarrow> n \<in> set (qRun s) \<Longrightarrow> rnRole n \<noteq> Borrower \<Longrightarrow> \<not> rnDone n \<Longrightarrow>
   qActive s = Some (rnReq n) \<and> qWait s = Some (run_id n)"
  unfolding slots_ok_def run_ok_def by blast

lemma slots_borrower:
  "slots_ok s \<Longrightarrow> n \<in> set (qRun s) \<Longrightarrow> rnRole n = Borrower \<Longrightarrow> qBorrow s = Some (rnReq n)"
  unfolding slots_ok_def run_ok_def by blast

lemma slots_serial:
  "slots_ok s \<Longrightarrow> n \<in> set (qRun s) \<Longrightarrow> (rnRole n = Serial \<longleftrightarrow> \<not> qConc s) \<and> (rnRole n = Serial \<longrightarrow> \<not> rnDone n)"
  unfolding slots_ok_def run_ok_def by blast

lemma slots_uploading:
  "slots_ok s \<Longrightarrow> n \<in> set (qRun s) \<Longrightarrow> rnDone n \<Longrightarrow> qUploading s (run_id n) = Some (rnReq n)"
  unfolding slots_ok_def run_ok_def by blast

lemma slots_active: "slots_ok s \<Longrightarrow> qActive s = Some r \<Longrightarrow> \<exists>n\<in>set (qRun s). rnReq n = r \<and> rnRole n \<noteq> Borrower"
  unfolding slots_ok_def by blast

lemma slots_borrow: "slots_ok s \<Longrightarrow> qBorrow s = Some r \<Longrightarrow> \<exists>n\<in>set (qRun s). rnReq n = r \<and> rnRole n = Borrower"
  unfolding slots_ok_def by blast

lemma slots_upload: "slots_ok s \<Longrightarrow> qUploading s t = Some r \<Longrightarrow> \<exists>n\<in>set (qRun s). rnReq n = r \<and> rqTask r = t \<and> rnDone n"
  unfolding slots_ok_def by blast

lemma slots_ok_start:
  assumes "slots_ok s" "ctl_ok s" "qHand s \<noteq> None"
  shows "slots_ok (start_hand us s)"
proof -
  from assms(3) obtain r b k where h: "qHand s = Some (r, b, k)" by (metis not_None_eq prod_cases3)
  have ctl: "if b then qConc s \<and> qWait s \<noteq> None \<and> qBorrow s = None else qWait s = None"
    using assms(2) h by (simp add: ctl_ok_def)
  have free: "\<forall>n\<in>set (qRun s). if b then rnRole n \<noteq> Borrower else rnRole n = Borrower \<or> rnDone n"
    using slots_head [OF assms(1)] slots_borrower [OF assms(1)] ctl by (cases b) fastforce+
  show ?thesis
  proof (cases "qConc s")
    case False
    then have "\<not> b" using ctl by (simp split: if_splits)
    then have "qRun s = []"
      using free slots_serial [OF assms(1)] False by (cases "qRun s") fastforce+
    with assms(1) False h show ?thesis
      by (simp add: slots_ok_def run_ok_def start_hand_def startSerial_def)
  next
    case True
    let ?s = "start_hand us s"
    have old: "run_ok ?s n" if "n \<in> set (qRun s)" for n
    proof -
      have "run_ok s n" using assms(1) that by (simp add: slots_ok_def)
      moreover have "if b then rnRole n \<noteq> Borrower else rnRole n = Borrower \<or> rnDone n" using free that by blast
      ultimately show ?thesis using True h
        by (cases b) (auto simp: run_ok_def start_hand_def startTask_def Let_def)
    qed
    show ?thesis
    proof (cases b)
      case b: True
      then show ?thesis using assms(1) True h old by (simp add: slots_ok_def) (simp add: run_ok_def start_hand_def startTask_def Let_def)
    next
      case b: False
      then show ?thesis using assms(1) True h old by (simp add: slots_ok_def) (simp add: run_ok_def start_hand_def startTask_def Let_def)
    qed
  qed
qed

lemma slots_ok_done:
  assumes "slots_ok s" "unique (live s)" "n \<in> set (qRun s)"
  shows "slots_ok (onDownloadComplete n s)"
proof (cases "rnDone n \<or> rnRole n = Serial")
  case True
  then show ?thesis using assms(1) by (simp add: onDownloadComplete_def)
next
  case False
  let ?s = "onDownloadComplete n s"
  have run: "qRun ?s = map (\<lambda>m. if m = n then m\<lparr>rnDone := True\<rparr> else m) (qRun s)"
    using False run_unique [OF assms(2) _ assms(3)] by (auto simp: onDownloadComplete_def frame_simps)
  have up: "qUploading ?s = (qUploading s)(run_id n \<mapsto> rnReq n)"
    using False by (simp add: onDownloadComplete_def frame_simps)
  have other: "m \<in> set (qRun s) \<Longrightarrow> m \<noteq> n \<Longrightarrow> run_id m \<noteq> run_id n" for m
    using run_unique [OF assms(2) _ assms(3)] by blast
  have keep: "(\<exists>m\<in>set (qRun ?s). P m) \<longleftrightarrow> (\<exists>m\<in>set (qRun s). P (if m = n then m\<lparr>rnDone := True\<rparr> else m))" for P
    unfolding run set_map by blast
  have "\<exists>m\<in>set (qRun ?s). rnReq m = r \<and> rqTask r = t \<and> rnDone m" if "qUploading ?s t = Some r" for t r
    unfolding keep
  proof (cases "t = run_id n")
    case True
    with that have "r = rnReq n" by (simp add: up)
    with True assms(3) show "\<exists>m\<in>set (qRun s). rnReq (if m = n then m\<lparr>rnDone := True\<rparr> else m) = r \<and> rqTask r = t \<and>
        rnDone (if m = n then m\<lparr>rnDone := True\<rparr> else m)" by (intro bexI [of _ n]) auto
  next
    case False
    with that have "qUploading s t = Some r" by (simp add: up)
    then obtain m where "m \<in> set (qRun s)" "rnReq m = r" "rqTask r = t" "rnDone m"
      using assms(1) unfolding slots_ok_def by blast
    then show "\<exists>m\<in>set (qRun s). rnReq (if m = n then m\<lparr>rnDone := True\<rparr> else m) = r \<and> rqTask r = t \<and>
        rnDone (if m = n then m\<lparr>rnDone := True\<rparr> else m)" by (intro bexI [of _ m]) auto
  qed
  moreover have "\<exists>m\<in>set (qRun ?s). rnReq m = r \<and> rnRole m \<noteq> Borrower" if u: "qActive ?s = Some r" for r
  proof -
    obtain m where m: "m \<in> set (qRun s)" "rnReq m = r" "rnRole m \<noteq> Borrower"
      using slots_active [OF assms(1)] u by (auto simp: frame_simps)
    then have "rnReq (if m = n then m\<lparr>rnDone := True\<rparr> else m) = r \<and> rnRole (if m = n then m\<lparr>rnDone := True\<rparr> else m) \<noteq> Borrower" by auto
    with m(1) show ?thesis unfolding keep by blast
  qed
  moreover have "\<exists>m\<in>set (qRun ?s). rnReq m = r \<and> rnRole m = Borrower" if u: "qBorrow ?s = Some r" for r
  proof -
    obtain m where m: "m \<in> set (qRun s)" "rnReq m = r" "rnRole m = Borrower"
      using slots_borrow [OF assms(1)] u by (auto simp: frame_simps)
    then have "rnReq (if m = n then m\<lparr>rnDone := True\<rparr> else m) = r \<and> rnRole (if m = n then m\<lparr>rnDone := True\<rparr> else m) = Borrower" by auto
    with m(1) show ?thesis unfolding keep by blast
  qed
  moreover have "run_ok ?s (if m = n then m\<lparr>rnDone := True\<rparr> else m)" if m: "m \<in> set (qRun s)" for m
  proof -
    have "run_ok s m" using assms(1) m by (simp add: slots_ok_def)
    then show ?thesis using False other [OF m] by (cases "m = n") (simp_all add: run_ok_def frame_simps up)
  qed
  then have "\<forall>m\<in>set (qRun ?s). run_ok ?s m" unfolding run set_map by blast
  ultimately show ?thesis unfolding slots_ok_def by blast
qed

lemma slots_ok_leave:
  assumes "slots_ok s" "unique (live s)" "n \<in> set (qRun s)"
  shows "slots_ok (leave n s)"
proof -
  have other: "m \<in> set (qRun s) \<Longrightarrow> m \<noteq> n \<Longrightarrow> run_id m \<noteq> run_id n" for m
    using run_unique [OF assms(2) _ assms(3)] by blast
  have run: "set (qRun (leave n s)) = set (qRun s) - {n}" using other by (auto simp: frame_simps)
  have ser: "m = n" if "m \<in> set (qRun s)" "rnRole n = Serial" for m
  proof -
    have r: "rnRole m = Serial" using slots_serial [OF assms(1)] assms(3) that by blast
    have "qWait s = Some (run_id m)"
      using slots_head [OF assms(1) that(1)] slots_serial [OF assms(1) that(1)] r by simp
    moreover have "qWait s = Some (run_id n)"
      using slots_head [OF assms(1,3)] slots_serial [OF assms(1,3)] that(2) by simp
    ultimately show ?thesis using other [OF that(1)] by (metis option.inject)
  qed
  show ?thesis
  proof (cases "rnRole n = Serial")
    case True
    then have "set (qRun s) = {n}" using ser assms(3) by blast
    then have none: "filter (\<lambda>m. run_id m \<noteq> run_id n) (qRun s) = []" by (simp add: filter_empty_conv)
    have d: "\<not> rnDone n" using slots_serial [OF assms(1,3)] True by simp
    have "qBorrow s = None"
      using slots_borrow [OF assms(1)] \<open>set (qRun s) = {n}\<close> True by (cases "qBorrow s") auto
    moreover have "qUploading s t = None" for t
      using slots_upload [OF assms(1)] \<open>set (qRun s) = {n}\<close> d by (cases "qUploading s t") auto
    ultimately show ?thesis using True by (simp add: slots_ok_def none frame_simps)
  next
    case False
    have req: "m \<in> set (qRun s) \<Longrightarrow> m \<noteq> n \<Longrightarrow> rnReq m \<noteq> rnReq n" for m using other by metis
    have "\<exists>m\<in>set (qRun s) - {n}. rnReq m = r \<and> rqTask r = t \<and> rnDone m" if "qUploading (leave n s) t = Some r" for t r
    proof -
      have "qUploading s t = Some r" "t \<noteq> run_id n" using that False by (auto simp: frame_simps split: if_splits)
      with assms(1) obtain m where "m \<in> set (qRun s)" "rnReq m = r" "rqTask r = t" "rnDone m"
        unfolding slots_ok_def by blast
      with \<open>t \<noteq> run_id n\<close> show ?thesis by auto
    qed
    moreover have "\<exists>m\<in>set (qRun s) - {n}. rnReq m = r \<and> rnRole m \<noteq> Borrower" if "qActive (leave n s) = Some r" for r
    proof -
      have a: "qActive s = Some r" "rnRole n = Borrower \<or> r \<noteq> rnReq n" using that False
        by (cases "rnRole n"; auto simp: frame_simps split: if_splits)+
      with assms(1) obtain m where "m \<in> set (qRun s)" "rnReq m = r" "rnRole m \<noteq> Borrower" unfolding slots_ok_def by blast
      with a(2) show ?thesis by auto
    qed
    moreover have "\<exists>m\<in>set (qRun s) - {n}. rnReq m = r \<and> rnRole m = Borrower" if "qBorrow (leave n s) = Some r" for r
    proof -
      have a: "qBorrow s = Some r" "rnRole n \<noteq> Borrower \<or> r \<noteq> rnReq n" using that
        by (auto simp: frame_simps split: if_splits)
      with assms(1) obtain m where "m \<in> set (qRun s)" "rnReq m = r" "rnRole m = Borrower" unfolding slots_ok_def by blast
      with a(2) show ?thesis by auto
    qed
    moreover have "run_ok (leave n s) m" if m: "m \<in> set (qRun s) - {n}" for m
    proof -
      have "run_ok s m" using assms(1) m by (simp add: slots_ok_def)
      then show ?thesis using False other [of m] req [of m] m by (simp add: run_ok_def frame_simps)
    qed
    ultimately show ?thesis unfolding slots_ok_def run by blast
  qed
qed

lemma slots_ok_promote:
  assumes "slots_ok s" "head_done s"
  shows "slots_ok (s\<lparr>qWait := None\<rparr>)"
proof -
  have "run_ok (s\<lparr>qWait := None\<rparr>) n" if n: "n \<in> set (qRun s)" for n
  proof -
    have ok: "run_ok s n" using assms(1) n by (simp add: slots_ok_def)
    have "rnRole n = Borrower \<or> rnDone n"
    proof (rule ccontr)
      assume "\<not> ?thesis"
      then have "qWait s = Some (run_id n)" "\<not> rnDone n" using slots_head [OF assms(1) n] by auto
      with assms(2) n show False by (auto simp: head_done_def)
    qed
    with ok show ?thesis by (auto simp: run_ok_def)
  qed
  with assms(1) show ?thesis by (simp add: slots_ok_def)
qed

lemma slots_ok_step:
  assumes "sched_step race s s'" "slots_ok s" "queue_ok race s" "ctl_ok s"
  shows "slots_ok s'"
  using assms
proof (induction rule: sched_step.induct)
  case (Enqueue r s board ok reply s1)
  note L = live_enqueue [OF Enqueue(4)]
  from Enqueue(5) show ?case by (rule slots_ok_runs) (simp_all add: L)
next
  case (Receive s)
  from Receive(1) show ?case by (rule slots_ok_runs) (simp_all add: frame_simps)
next
  case (Start s us)
  then show ?case by (intro slots_ok_start) auto
next
  case (Rip_Work n s r0 r1)
  from Rip_Work(4) show ?case by (rule slots_ok_frame) (simp_all add: frame_simps same_slots_upd)
next
  case (Download_Done n s)
  then show ?case by (intro slots_ok_done) (auto simp: queue_ok_def)
next
  case (Promote s)
  then show ?case by (intro slots_ok_promote) auto
next
  case (Lend_Pick s thr mx peek)
  from Lend_Pick(5) show ?case by (rule slots_ok_runs) (simp_all add: frame_simps)
next
  case (Lend_Take s cand k)
  from Lend_Take(2) lend_take_cases [of cand k s] show ?case by (auto elim: slots_ok_runs)
next
  case (After n s out)
  from After(3) show ?case
    by (rule slots_ok_frame) (simp_all add: frame_simps, simp add: finish_after_def same_slots_def frame_simps list_all2_map2 list_all2_refl)
next
  case (Leave n s)
  then show ?case by (intro slots_ok_leave) (auto simp: queue_ok_def)
next
  case (Stop steal s now us issuer t)
  have "slots_ok (cancel_run own t' s)" for own t'
    using Stop(2) by (rule slots_ok_frame) (simp_all add: same_slots_run same_runs_cancel, simp_all add: cancel_run_def frame_simps)
  moreover have "slots_ok (snd (drain j f steal k s))" for j f k
    using Stop(2) by (rule slots_ok_runs) (simp_all add: frame_simps)
  ultimately show ?case using stop_cases [of now us issuer t steal s] Stop(2) by auto
next
  case (Stop_All steal order s syncDB up)
  obtain refund rs where "snd (cancelAllTasksLocked syncDB up order steal s) =
     snd (drain (\<lambda>_. Drop) refund steal (length (qChan s)) (fold (cancel_slot refund) rs s))"
    using stop_all_state by blast
  moreover have "slots_ok (fold (cancel_slot refund) rs s)"
    using Stop_All(3) by (rule slots_ok_frame) (simp_all add: frame_simps same_slots_run same_runs_slots)
  ultimately show ?case by (auto elim: slots_ok_runs simp: frame_simps)
qed (auto elim: slots_ok_runs)

lemma reachable_slots: "reachable race s \<Longrightarrow> slots_ok s"
proof (induction rule: reachable_induct)
  case (init conc n cat)
  then show ?case by (simp add: slots_ok_def empty_sched_def)
next
  case (step s s')
  then show ?case using slots_ok_step reachable_queue by blast
qed

lemma reachable_unique: "reachable race s \<Longrightarrow> unique (live s)"
  using reachable_queue by (simp add: queue_ok_def)

subsection \<open>Properties of the reachable states\<close>

definition album_request :: "string \<Rightarrow> user_id \<Rightarrow> string \<Rightarrow> request" where
  "album_request t u cid = \<lparr>rqTask = t, rqChat = 5, rqUser = u, rqName = [], rqReplyTo = 0, rqStatusMsg = 0, rqSingle = False,
     rqFormat = ''alac'', rqMode = transferModeTelegramZip, rqAlbum = ''9'', rqForceAtmos = False, rqNoCache = False,
     rqFn = RipAlbum ''9'', rqAfter = AfterCollection, rqCharge = cid, rqDedup = None\<rparr>"

text \<open>A worker with one queued album, then with the album started.\<close>

definition one_queued :: sched where
  "one_queued = snd (enqueueDownloadWithAfter (\<lambda>_. False) (album_request ''t1'' 7 []) (empty_sched True 20 (no_charges None)))"

lemma one_queued_reachable: "reachable race one_queued"
proof -
  let ?s = "empty_sched True 20 (no_charges None)" and ?r = "album_request ''t1'' 7 []"
  have "sched_step race ?s (if True then one_queued\<lparr>qHeld := qHeld ?s - {rqCharge ?r}\<rparr> else one_queued)"
    by (rule sched_step.Enqueue [where reply = Quiet and board = "\<lambda>_. False"])
      (simp_all add: album_request_def task_ids_def live_def pending_def empty_sched_def one_queued_def enqueueDownloadWithAfter_def)
  also have "(if True then one_queued\<lparr>qHeld := qHeld ?s - {rqCharge ?r}\<rparr> else one_queued) = one_queued"
    by (simp add: one_queued_def enqueueDownloadWithAfter_def empty_sched_def)
  finally have "(sched_step race)\<^sup>*\<^sup>* ?s one_queued" by (rule r_into_rtranclp)
  then show ?thesis unfolding reachable_def by blast
qed

definition one_running :: sched where
  "one_running = start_hand plain_users (receive one_queued)"

lemma one_running_reachable: "reachable race one_running"
  unfolding one_running_def
  by (rule reachable_step [OF reachable_step [OF one_queued_reachable sched_step.Receive] sched_step.Start])
    (simp add: one_queued_def receive_def enqueueDownloadWithAfter_def empty_sched_def idle_def)

lemma one_running_runs: "map rnReq (qRun one_running) = [album_request ''t1'' 7 []]"
  by (simp add: one_running_def one_queued_def receive_def enqueueDownloadWithAfter_def empty_sched_def idle_def
      start_hand_def startTask_def Let_def)

text \<open>
  C6: The list \<^verbatim>\<open>queuedReqs\<close> that \<^verbatim>\<open>/status\<close> and the lender read is the queue: it always holds
  exactly the requests that wait (one of them perhaps already in the worker's hand), no task
  twice, and, as long as no worker receives during a stop, in the order they will run.
\<close>

theorem queue_mirror_exact:
  assumes "reachable race s"
  shows "mset (qMirror s) = mset (pending s) \<and> distinct (map rqTask (qMirror s)) \<and> (\<not> race \<longrightarrow> qMirror s = pending s)"
  using reachable_queue [OF assms] mirror_distinct by (auto simp: queue_ok_def)

theorem queue_mirror_exact_witness: "qMirror one_queued = pending one_queued \<and> qMirror one_queued \<noteq> []"
  using queue_mirror_exact [OF one_queued_reachable [of False]]
  by (simp add: one_queued_def enqueueDownloadWithAfter_def empty_sched_def pending_def)

text \<open>
  C5: A user's pending count, against which the submission cap is checked, is at every moment
  exactly the number of that user's requests that wait or run: it is neither leaked by a stop,
  a failure or a finished upload, nor released twice.
\<close>

theorem pending_count_exact:
  assumes "reachable race s" "u \<noteq> 0"
  shows "cget (qTasks s) u = int (length (filter (\<lambda>r. rqUser r = u) (pending s)) +
                                  length (filter (\<lambda>n. rqUser (rnReq n) = u) (qRun s)))"
proof -
  have "count (image_mset rqUser (mset xs)) u = length (filter (\<lambda>r. rqUser r = u) xs)" for xs
    by (induction xs) auto
  from this [of "pending s"] this [of "map rnReq (qRun s)"] show ?thesis
    using reachable_count [OF assms(1)] assms(2)
    by (simp add: count_ok_def live_def filter_map comp_def del: mset_map)
qed

theorem pending_count_exact_witness: "cget (qTasks one_running) 7 = 1"
proof -
  have "(7::int) \<noteq> 0" by simp
  from pending_count_exact [OF one_running_reachable this] show ?thesis
    by (simp add: one_running_def one_queued_def receive_def enqueueDownloadWithAfter_def empty_sched_def idle_def
      start_hand_def startTask_def Let_def pending_def album_request_def)
qed

lemma run_of_id:
  "slots_ok s \<Longrightarrow> unique (live s) \<Longrightarrow> n \<in> set (qRun s) \<Longrightarrow> m \<in> set (qRun s) \<Longrightarrow> run_id m = run_id n \<Longrightarrow> rnReq m = rnReq n"
  using run_unique by metis

lemma found_slot:
  assumes ok: "slots_ok s" "unique (live s)" and n: "n \<in> set (qRun s)" "run_id n \<noteq> []"
  shows "stop_task us issuer (run_id n) steal s = stop_started us issuer (rnReq n) s"
proof -
  have a: "the (qActive s) = rnReq n" if "is_task (run_id n) (qActive s)"
    using that slots_active [OF ok(1)] run_of_id [OF ok n(1)] by (auto simp: is_task_def split: option.splits)
  have b: "the (qBorrow s) = rnReq n" if "is_task (run_id n) (qBorrow s)"
    using that slots_borrow [OF ok(1)] run_of_id [OF ok n(1)] by (auto simp: is_task_def split: option.splits)
  have c: "r = rnReq n" if "qUploading s (run_id n) = Some r" for r
    using slots_upload [OF ok(1) that] run_of_id [OF ok n(1)] by blast
  have "is_task (run_id n) (qActive s) \<or> is_task (run_id n) (qBorrow s) \<or> qUploading s (run_id n) \<noteq> None"
    using slots_head [OF ok(1) n(1)] slots_borrower [OF ok(1) n(1)] slots_uploading [OF ok(1) n(1)]
    by (cases "rnDone n"; cases "rnRole n = Borrower") (auto simp: is_task_def)
  with a b c n(2) show ?thesis by (auto simp: stop_task_def split: option.split)
qed

lemma reachable_run_id: "reachable race s \<Longrightarrow> n \<in> set (qRun s) \<Longrightarrow> run_id n \<noteq> []"
  using reachable_queue [of race s] by (force simp: queue_ok_def task_ids_def live_def)

text \<open>
  C2: Every started task can be stopped at every moment, while it downloads, while it uploads,
  as head or as borrower: the requester and the admins reach it by its id, its context is
  cancelled, and the requester's own stop is noted in its rip; anyone else is refused and
  changes nothing.
\<close>

theorem running_task_stoppable:
  assumes "reachable race s" "n \<in> set (qRun s)" "stop_task us issuer (run_id n) steal s = (reply, s')"
  shows "(may_stop us issuer (rnReq n) \<longrightarrow> reply = Stopped (run_id n) \<and> length (qRun s') = length (qRun s) \<and>
            (\<exists>m\<in>set (qRun s'). rnReq m = rnReq n \<and> rnCancelled m \<and>
               (issuer \<noteq> 0 \<and> issuer = rqUser (rnReq n) \<and> rnRip n \<noteq> None \<longrightarrow> quotaCancelledByOwner (rnRip m)))) \<and>
         (\<not> may_stop us issuer (rnReq n) \<longrightarrow> reply = NotYours \<and> s' = s)"
proof -
  have "stop_task us issuer (run_id n) steal s = stop_started us issuer (rnReq n) s"
    by (rule found_slot [OF reachable_slots reachable_unique _ reachable_run_id]) (use assms in auto)
  then have r: "(reply, s') = stop_started us issuer (rnReq n) s" using assms(3) by simp
  let ?own = "rqUser (rnReq n) \<noteq> 0 \<and> issuer = rqUser (rnReq n)"
  let ?m = "n\<lparr>rnCancelled := True, rnRip := (if ?own then map_option markQuotaOwnerCancel (rnRip n) else rnRip n)\<rparr>"
  have "?m \<in> set (qRun (cancel_run ?own (run_id n) s))"
    unfolding cancel_run_def upd_run_frame set_map by (rule image_eqI [OF _ assms(2)]) simp
  moreover have "issuer \<noteq> 0 \<and> issuer = rqUser (rnReq n) \<and> rnRip n \<noteq> None \<longrightarrow> quotaCancelledByOwner (rnRip ?m)"
    by (auto simp: quotaCancelledByOwner_def markQuotaOwnerCancel_def)
  ultimately have "\<exists>m\<in>set (qRun (cancel_run ?own (run_id n) s)). rnReq m = rnReq n \<and> rnCancelled m \<and>
      (issuer \<noteq> 0 \<and> issuer = rqUser (rnReq n) \<and> rnRip n \<noteq> None \<longrightarrow> quotaCancelledByOwner (rnRip m))"
    by (intro bexI [of _ ?m]) simp_all
  moreover have "length (qRun (cancel_run own t s)) = length (qRun s)" for own t
    by (simp add: cancel_run_def frame_simps)
  ultimately show ?thesis using r by (simp add: stop_started_def split: if_splits)
qed

theorem running_task_stoppable_witness:
  "fst (stop_task plain_users 7 ''t1'' None one_running) = Stopped ''t1'' \<and>
   fst (stop_task plain_users 8 ''t1'' None one_running) = NotYours"
proof -
  obtain n where n: "qRun one_running = [n]" "rnReq n = album_request ''t1'' 7 []"
    using one_running_runs by (cases "qRun one_running") auto
  have id: "run_id n = ''t1''" "rqUser (rnReq n) = 7" using n(2) by (simp_all add: album_request_def)
  have mem: "n \<in> set (qRun one_running)" by (simp add: n(1))
  have may: "may_stop plain_users 7 (rnReq n)" "\<not> may_stop plain_users 8 (rnReq n)"
    by (simp_all add: may_stop_def id plain_users_def no_users_def isAdmin_def)
  show ?thesis
    using running_task_stoppable [OF one_running_reachable mem, of plain_users 7 None "fst (stop_task plain_users 7 (run_id n) None one_running)"
        "snd (stop_task plain_users 7 (run_id n) None one_running)"]
      running_task_stoppable [OF one_running_reachable mem, of plain_users 8 None "fst (stop_task plain_users 8 (run_id n) None one_running)"
        "snd (stop_task plain_users 8 (run_id n) None one_running)"] may
    by (simp add: id(1))
qed

text \<open>
  At most two tasks download at any time, one as head and one as borrower, and with task
  concurrency off at most one task runs at all.
\<close>

theorem at_most_two_download:
  assumes "reachable race s"
  shows "length (filter (\<lambda>n. rnRole n \<noteq> Borrower \<and> \<not> rnDone n) (qRun s)) \<le> 1 \<and>
         length (filter (\<lambda>n. rnRole n = Borrower) (qRun s)) \<le> 1 \<and> (\<not> qConc s \<longrightarrow> length (qRun s) \<le> 1)"
proof -
  have ok: "slots_ok s" and un: "distinct (map run_id (qRun s))"
    using reachable_slots unique_running reachable_unique assms by blast+
  have one: "length (filter P (qRun s)) \<le> 1" if "\<And>n. n \<in> set (qRun s) \<Longrightarrow> P n \<Longrightarrow> Some (run_id n) = x" for P x
  proof -
    have "set (map run_id (filter P (qRun s))) \<subseteq> set_option x" using that by force
    then have "card (set (map run_id (filter P (qRun s)))) \<le> card (set_option x)"
      by (rule card_mono [rotated]) (cases x; simp)
    also have "\<dots> \<le> 1" by (cases x) simp_all
    finally show ?thesis using distinct_card [OF distinct_map_filter [OF un, of P]] by simp
  qed
  have "length (filter (\<lambda>n. rnRole n \<noteq> Borrower \<and> \<not> rnDone n) (qRun s)) \<le> 1"
    by (rule one [of _ "qWait s"]) (use slots_head [OF ok] in auto)
  moreover have "length (filter (\<lambda>n. rnRole n = Borrower) (qRun s)) \<le> 1"
    by (rule one [of _ "map_option rqTask (qBorrow s)"]) (use slots_borrower [OF ok] in auto)
  moreover have "length (filter (\<lambda>_. True) (qRun s)) \<le> 1" if "\<not> qConc s"
    by (rule one [of _ "qWait s"]) (use slots_head [OF ok] slots_serial [OF ok] that in auto)
  ultimately show ?thesis by simp
qed

theorem at_most_two_download_witness: "length (filter (\<lambda>n. rnRole n = Borrower) (qRun one_running)) \<le> 1"
  using at_most_two_download [OF one_running_reachable [of True]] by blast

subsection \<open>No charge is left behind\<close>

text \<open>
  The charges somebody will still settle: those of submissions in flight, of waiting requests
  and of goroutines whose closure \<^verbatim>\<open>after\<close> has not run.
\<close>

definition owed :: "sched \<Rightarrow> string set" where
  "owed s = qHeld s \<union> {rqCharge r | r. r \<in> set (pending s) \<and> rqAfter r \<noteq> NoAfter} \<union>
     {rqCharge (rnReq n) | n. n \<in> set (qRun s) \<and> \<not> rnSettled n \<and> rqAfter (rnReq n) \<noteq> NoAfter}"

text \<open>A request without a closure \<^verbatim>\<open>after\<close> carries no charge, so \<open>owed\<close> misses nothing.\<close>

definition charges_ok :: "sched \<Rightarrow> bool" where
  "charges_ok s = (ledger_ok (qLedger s) \<and> (\<forall>i. open_key (qLedger s) i \<noteq> None \<longrightarrow> i \<in> owed s) \<and>
     (\<forall>r\<in>#live s. rqAfter r = NoAfter \<longrightarrow> rqCharge r = []))"

lemma charges_ok_shrink:
  assumes "charges_ok s" "ledger_ok (qLedger s')" "\<And>i. open_key (qLedger s') i \<noteq> None \<Longrightarrow> open_key (qLedger s) i \<noteq> None"
    "owed s \<subseteq> owed s'" "live s' \<subseteq># live s"
  shows "charges_ok s'"
  using assms unfolding charges_ok_def by (meson mset_subset_eqD subsetD)

lemma charges_ok_frame:
  "charges_ok s \<Longrightarrow> qLedger s' = qLedger s \<Longrightarrow> owed s' = owed s \<Longrightarrow> live s' = live s \<Longrightarrow> charges_ok s'"
  by (simp add: charges_ok_def)

lemma open_key_charges: "lgCharges q' = lgCharges q \<Longrightarrow> open_key q' = open_key q"
  by (simp add: open_key_def fun_eq_iff)

lemma open_key_charge:
  assumes "quotaCheckAndCharge gid now up us u name kind q = ((cid, ok), q')"
  shows "open_key q' i \<noteq> None \<Longrightarrow> open_key q i \<noteq> None \<or> ok \<and> i = cid \<and> cid = gid"
  using assms by (auto simp: quotaCheckAndCharge_def Let_def open_key_def frame_simps split: if_splits option.splits)

lemma open_key_prune: "open_key (quotaPrune up now q) i \<noteq> None \<Longrightarrow> open_key q i \<noteq> None"
  by (auto simp: open_key_def frame_simps split: option.splits if_splits)

text \<open>What the refunds of a stop do, asynchronous or synchronous.\<close>

definition refunder :: "(string \<Rightarrow> ledger \<Rightarrow> ledger) \<Rightarrow> bool" where
  "refunder f = (\<forall>q i. ledger_ok q \<longrightarrow> ledger_ok (f i q) \<and> (\<forall>j. open_key (f i q) j = (if j = i then None else open_key q j)))"

lemma refunder_refund: "refunder (\<lambda>i. quotaRefund i 0)"
  "refunder (\<lambda>i. if syncDB then quotaRefundSync up i 0 else quotaRefund i 0)"
  by (simp_all add: refunder_def quotaRefund_def quotaRefundSync_def quotaSetState_ok open_key_settle)

lemma refunderD:
  "refunder f \<Longrightarrow> ledger_ok q \<Longrightarrow> ledger_ok (f i q)"
  "refunder f \<Longrightarrow> ledger_ok q \<Longrightarrow> open_key (f i q) j = (if j = i then None else open_key q j)"
  unfolding refunder_def by blast+

lemma refunder_fold:
  assumes "refunder f" "ledger_ok q"
  shows "ledger_ok (fold f is q) \<and> (\<forall>j. open_key (fold f is q) j \<noteq> None \<longrightarrow> open_key q j \<noteq> None)"
  using assms(2)
proof (induction "is" arbitrary: q)
  case (Cons i js)
  have "open_key (f i q) j \<noteq> None \<Longrightarrow> open_key q j \<noteq> None" for j
    using refunderD(2) [OF assms(1) Cons.prems, of i j] by (simp split: if_splits)
  with Cons.IH [OF refunderD(1) [OF assms(1) Cons.prems]] show ?case by simp
qed simp

lemma charges_ok_drain:
  assumes f: "refunder f" and ok: "charges_ok s"
  shows "charges_ok (snd (drain j f steal n s))"
  using ok
proof (rule drain_inv [where P = charges_ok, rotated 3])
  fix s assume "charges_ok s"
  then show "charges_ok (receive s)" by (rule charges_ok_frame) (simp_all add: frame_simps owed_def)
next
  fix s r rs assume "charges_ok s" and c: "qChan s = r # rs"
  then show "charges_ok (s\<lparr>qChan := rs @ [r]\<rparr>)"
    by (elim charges_ok_frame) (simp_all add: live_rot owed_def, auto simp: pending_def c split: option.splits)
next
  fix s r rs assume ok: "charges_ok s" and c: "qChan s = r # rs"
  let ?s = "drop_queued f r (s\<lparr>qChan := rs\<rparr>)"
  have led: "qLedger ?s = f (rqCharge r) (qLedger s)" by (simp add: drop_queued_def)
  have op: "open_key (qLedger ?s) i = (if i = rqCharge r then None else open_key (qLedger s) i)" for i
    using f ok by (simp add: led refunder_def charges_ok_def)
  have "owed s \<subseteq> insert (rqCharge r) (owed ?s)"
    by (auto simp: owed_def frame_simps) (auto simp: pending_def c split: option.splits)
  moreover have "ledger_ok (qLedger ?s)" using f ok by (simp add: led refunder_def charges_ok_def)
  ultimately show "charges_ok ?s"
    using ok live_drop [OF c, of f] unfolding charges_ok_def op by (simp split: if_splits) blast
qed

lemma after_ledger:
  assumes "ledger_ok q" "rqAfter (rnReq n) = NoAfter \<Longrightarrow> rqCharge (rnReq n) = []"
  shows "ledger_ok (run_after out n q) \<and>
         (\<forall>j. open_key (run_after out n q) j = (if j = rqCharge (rnReq n) then None else open_key q j))"
proof -
  have fin: "ledger_ok (finalizeHeavyQuota i d own fl c del rel per q) \<and>
      (\<forall>j. open_key (finalizeHeavyQuota i d own fl c del rel per q) j = (if j = i then None else open_key q j))"
    for i d own fl c del rel per
    using assms(1) by (auto simp: finalizeHeavyQuota_def quotaCommit_def quotaRefund_def quotaSetState_ok open_key_settle open_key_Nil)
  show ?thesis
    using fin assms by (cases "rqAfter (rnReq n)") (auto simp: run_after_def Let_def open_key_Nil)
qed

lemma owed_upd_run:
  assumes "\<And>n. rnReq (f n) = rnReq n \<and> rnSettled (f n) = rnSettled n"
  shows "owed (upd_run t f s) = owed s"
proof -
  define g where "g = (\<lambda>n. if run_id n = t then f n else n)"
  have g: "rnReq (g n) = rnReq n" "rnSettled (g n) = rnSettled n" for n using assms by (simp_all add: g_def)
  have "{rqCharge (rnReq m) |m. m \<in> g ` set (qRun s) \<and> \<not> rnSettled m \<and> rqAfter (rnReq m) \<noteq> NoAfter}
      = {rqCharge (rnReq (g n)) |n. n \<in> set (qRun s) \<and> \<not> rnSettled (g n) \<and> rqAfter (rnReq (g n)) \<noteq> NoAfter}"
    by blast
  then show ?thesis by (simp add: owed_def upd_run_frame g flip: g_def)
qed

lemma charges_ok_finish:
  assumes "charges_ok s" "unique (live s)" "n \<in> set (qRun s)"
  shows "charges_ok (finish_after out n s)"
proof -
  let ?s = "finish_after out n s" and ?c = "rqCharge (rnReq n)"
  have "rnReq n \<in># live s" using assms(3) by (simp add: live_def)
  then have free: "rqAfter (rnReq n) = NoAfter \<Longrightarrow> ?c = []" using assms(1) by (simp add: charges_ok_def)
  have ok: "ledger_ok (qLedger s)" using assms(1) by (simp add: charges_ok_def)
  have led: "qLedger ?s = run_after out n (qLedger s)" by (simp add: finish_after_def frame_simps)
  have op: "open_key (qLedger ?s) j = (if j = ?c then None else open_key (qLedger s) j)" for j
    using after_ledger [OF ok free, of out] by (simp add: led)
  have run: "m \<in> set (qRun s) \<Longrightarrow> m = n \<or> m \<in> set (qRun ?s)" for m
    using run_unique [OF assms(2) _ assms(3), of m] by (auto simp: finish_after_def frame_simps image_iff)
  have "owed s \<subseteq> insert ?c (owed ?s)"
    unfolding owed_def after_frame using run by blast
  then show ?thesis
    using assms(1) after_ledger [OF ok free, of out]
    unfolding charges_ok_def op led [symmetric] after_frame by (simp split: if_splits) blast
qed

lemma charges_ok_step:
  assumes "sched_step race s s'" "charges_ok s" "queue_ok race s" "ctl_ok s"
  shows "charges_ok s'"
  using assms
proof (induction rule: sched_step.induct)
  case (Admit gid s now up us u name kind cid ok q)
  have g: "lgCharges (qLedger s) gid = None" "gid \<noteq> []" using Admit(1) by (simp_all add: new_id_def)
  have "ledger_ok q"
    using quotaCheckAndCharge_ok [OF _ g, of now up us u name kind] Admit(2,3) by (simp add: charges_ok_def)
  moreover have "i \<in> owed s \<or> (ok \<and> cid \<noteq> [] \<and> i = cid)" if "open_key q i \<noteq> None" for i
    using open_key_charge [OF Admit(2) that] Admit(3) g(2) unfolding charges_ok_def by blast
  moreover let ?s = "s\<lparr>qLedger := q, qHeld := (if ok \<and> cid \<noteq> [] then insert cid (qHeld s) else qHeld s)\<rparr>"
  have "owed ?s = owed s \<union> (if ok \<and> cid \<noteq> [] then {cid} else {})" "live ?s = live s"
    by (auto simp: owed_def pending_def live_def)
  ultimately show ?case using Admit(3) by (simp add: charges_ok_def) blast
next
  case (Enqueue r s board ok reply s1)
  note L = live_enqueue [OF Enqueue(4)]
  show ?case
  proof (cases ok)
    case True
    have P: "set (pending (s1\<lparr>qHeld := x\<rparr>)) = insert r (set (pending s))" "qRun (s1\<lparr>qHeld := x\<rparr>) = qRun s" for x
      using True L(2,6) by (simp_all add: pending_def)
    let ?s = "s1\<lparr>qHeld := qHeld s - {rqCharge r}\<rparr>"
    have sub: "owed s \<subseteq> owed ?s \<union> (if rqCharge r = [] then {[]} else {})"
      using Enqueue(1) unfolding owed_def P by auto
    have no: "open_key (qLedger s) [] = None" using Enqueue(5) by (simp add: charges_ok_def open_key_Nil)
    have "i \<in> owed ?s" if o: "open_key (qLedger s) i \<noteq> None" for i
    proof -
      have "i \<noteq> []" using o no by blast
      moreover have "i \<in> owed s" using o Enqueue(5) unfolding charges_ok_def by blast
      ultimately show ?thesis using sub by (auto split: if_splits)
    qed
    moreover have "live ?s = add_mset r (live s)" using True L(2,6) P by (simp add: live_def pending_def)
    moreover have "\<forall>x\<in>#add_mset r (live s). rqAfter x = NoAfter \<longrightarrow> rqCharge x = []"
      using Enqueue(1,5) by (auto simp: charges_ok_def)
    ultimately show ?thesis using Enqueue(5) True L(5) unfolding charges_ok_def by simp
  next
    case False
    have "owed s1 = owed s" using L False by (simp add: owed_def)
    with Enqueue(5) False L show ?thesis by (auto elim: charges_ok_frame)
  qed
next
  case (Settle_Held cid s st)
  have st: "st \<noteq> quotaOpen" using Settle_Held(2) by auto
  have ok: "ledger_ok (qLedger s)" using Settle_Held(3) by (simp add: charges_ok_def)
  let ?q = "quotaSetState True cid st 0 False (qLedger s)"
  let ?s = "s\<lparr>qLedger := ?q, qHeld := qHeld s - {cid}\<rparr>"
  have sub: "owed s \<subseteq> insert cid (owed ?s)" by (auto simp: owed_def pending_def)
  have "i \<in> owed ?s" if o: "open_key ?q i \<noteq> None" for i
  proof -
    have "i \<noteq> cid" "open_key (qLedger s) i \<noteq> None"
      using o unfolding open_key_settle [OF ok st] by (simp_all split: if_splits)
    moreover from this have "i \<in> owed s" using Settle_Held(3) unfolding charges_ok_def by blast
    ultimately show ?thesis using sub by blast
  qed
  moreover have "live (s\<lparr>qLedger := ?q, qHeld := qHeld s - {cid}\<rparr>) = live s" by (simp add: live_def pending_def)
  ultimately show ?case using Settle_Held(3) quotaSetState_ok [OF ok st] by (simp add: charges_ok_def)
next
  case (Receive s)
  from Receive(1) show ?case by (rule charges_ok_frame) (simp_all add: frame_simps owed_def)
next
  case (Start s us)
  then obtain r b k where h: "qHand s = Some (r, b, k)" by (metis not_None_eq prod_cases3)
  note L = live_start [OF h, of us]
  have run: "\<exists>n. qRun (start_hand us s) = qRun s @ [n] \<and> rnReq n = r \<and> \<not> rnSettled n"
    using h by (auto simp: start_hand_def startTask_def startSerial_def Let_def)
  then have "owed (start_hand us s) = owed s" by (auto simp: owed_def frame_simps L(2))
  with Start(2) L(1) show ?case by (auto elim: charges_ok_frame simp: frame_simps)
next
  case (Rip_Work n s r0 r1)
  have "owed (upd_run (run_id n) (\<lambda>m. m\<lparr>rnRip := Some r1\<rparr>) s) = owed s"
    by (rule owed_upd_run) simp
  with Rip_Work(4) show ?case by (auto elim: charges_ok_frame simp: frame_simps)
next
  case (Download_Done n s)
  have "owed (onDownloadComplete n s) = owed s"
    by (simp add: onDownloadComplete_def owed_upd_run) (simp add: owed_def pending_def)
  with Download_Done(2) show ?case by (auto elim: charges_ok_frame simp: frame_simps)
next
  case (Lend_Pick s thr mx peek)
  from Lend_Pick(5) show ?case by (rule charges_ok_frame) (simp_all add: frame_simps owed_def pending_def live_def)
next
  case (Lend_Take s cand k)
  then have h: "qHand s = None" by (auto simp: ctl_ok_def)
  note L = lend_take_live [OF h, of cand k]
  have "set (pending (lend_take cand k s)) = set (pending s)" using mset_eq_setD [OF L(2)] .
  moreover have "qRun (lend_take cand k s) = qRun s" "qHeld (lend_take cand k s) = qHeld s" "qLedger (lend_take cand k s) = qLedger s"
    using lend_take_cases [of cand k s] by auto
  ultimately show ?case using Lend_Take(2) L(1) by (auto elim: charges_ok_frame simp: owed_def)
next
  case (After n s out)
  then show ?case by (intro charges_ok_finish) (auto simp: queue_ok_def)
next
  case (Leave n s)
  have u: "unique (live s)" using Leave by (simp add: queue_ok_def)
  have "owed s \<subseteq> owed (leave n s)"
    using Leave(2) run_unique [OF u _ Leave(1)] by (auto simp: owed_def frame_simps)
  moreover have "live (leave n s) \<subseteq># live s" using live_leave [OF u Leave(1)] by simp
  ultimately show ?case
    by (intro charges_ok_shrink [OF Leave(4)]) (use Leave(4) in \<open>simp_all add: frame_simps charges_ok_def\<close>)
next
  case (Stop steal s now us issuer t)
  have "owed (cancel_run own t' s) = owed s" for own t'
    unfolding cancel_run_def by (rule owed_upd_run) simp
  then have "charges_ok (cancel_run own t' s)" for own t'
    using Stop(2) by (auto elim!: charges_ok_frame simp: cancel_run_def frame_simps)
  then show ?case
    using stop_cases [of now us issuer t steal s] Stop(2) charges_ok_drain [OF refunder_refund(1) Stop(2)] by auto
next
  case (Stop_All steal order s syncDB up)
  obtain refund rs where c: "snd (cancelAllTasksLocked syncDB up order steal s) =
     snd (drain (\<lambda>_. Drop) refund steal (length (qChan s)) (fold (cancel_slot refund) rs s))"
    and f: "refund = (\<lambda>i. if syncDB then quotaRefundSync up i 0 else quotaRefund i 0)"
    using stop_all_state by blast
  let ?s = "fold (cancel_slot refund) rs s"
  have r: "refunder refund" unfolding f by (rule refunder_refund)
  have "ledger_ok (qLedger s)" using Stop_All(3) by (simp add: charges_ok_def)
  from refunder_fold [OF r this, of "map rqCharge rs"] have led: "ledger_ok (qLedger ?s)"
    "\<And>i. open_key (qLedger ?s) i \<noteq> None \<Longrightarrow> open_key (qLedger s) i \<noteq> None" by (simp_all add: frame_simps)
  have "owed s \<subseteq> owed ?s"
    using same_runs_mem2 [OF same_runs_slots [of s refund rs]]
    by (auto simp: owed_def frame_simps pending_def same_run_def) metis+
  then have "charges_ok ?s"
    using Stop_All(3) led by (elim charges_ok_shrink) (simp_all add: live_slots)
  from charges_ok_drain [OF r this] show ?case unfolding c by simp
next
  case (Write w s up)
  have "lgCharges (persist up w ((qLedger s)\<lparr>lgPending := remove1 w (lgPending (qLedger s))\<rparr>)) = lgCharges (qLedger s)"
    by (simp add: frame_simps)
  note o = open_key_charges [OF this]
  have "ledger_ok (qLedger s)" using Write(2) by (simp add: charges_ok_def)
  then show ?case
    by (intro charges_ok_shrink [OF Write(2)]) (simp_all add: o frame_simps owed_def pending_def live_def)
next
  case (Reset s up now)
  have "open_key (quotaPrune up now (qLedger s)) i \<noteq> None \<Longrightarrow> open_key (qLedger s) i \<noteq> None" for i
    by (rule open_key_prune)
  moreover have "ledger_ok (qLedger s)" using Reset by (simp add: charges_ok_def)
  ultimately show ?case
    by (intro charges_ok_shrink [OF Reset(1)]) (simp_all add: quotaPrune_ok owed_def pending_def live_def)
qed (auto elim: charges_ok_frame simp: owed_def pending_def live_def)

lemma reachable_charges: "reachable race s \<Longrightarrow> charges_ok s"
proof (induction rule: reachable_induct)
  case (init conc n cat)
  then show ?case by (simp add: charges_ok_def empty_sched_def live_def pending_def open_key_def no_charges_def)
      (use ledger_ok_no_charges [of cat] in \<open>simp add: no_charges_def\<close>)
next
  case (step s s')
  then show ?case using charges_ok_step reachable_queue by blast
qed

text \<open>
  C1: No quota slot is left open by accident.  In every reachable state an open charge belongs
  to a submission in flight or a scheduled job, to a waiting request, or to a started task whose
  closing step has still to run; that step settles it whatever the outcome of the rip, and a
  stop of a waiting request by its owner settles it too.
\<close>

theorem no_slot_leak:
  assumes "reachable race s"
  shows "(open_key (qLedger s) i \<noteq> None \<longrightarrow> i \<in> qHeld s \<or>
            (\<exists>r\<in>set (pending s). rqCharge r = i \<and> rqAfter r \<noteq> NoAfter) \<or>
            (\<exists>n\<in>set (qRun s). rqCharge (rnReq n) = i \<and> \<not> rnSettled n \<and> rqAfter (rnReq n) \<noteq> NoAfter)) \<and>
         (\<forall>n\<in>set (qRun s). open_key (qLedger (finish_after out n s)) (rqCharge (rnReq n)) = None) \<and>
         (\<forall>r\<in>set (qChan s). open_key (qLedger (drop_queued (\<lambda>i. quotaRefund i 0) r s)) (rqCharge r) = None)"
proof -
  have ok: "charges_ok s" by (rule reachable_charges [OF assms])
  have "open_key (qLedger (finish_after out n s)) (rqCharge (rnReq n)) = None" if n: "n \<in> set (qRun s)" for n
  proof -
    have "rnReq n \<in># live s" using n by (simp add: live_def)
    then have "rqAfter (rnReq n) = NoAfter \<Longrightarrow> rqCharge (rnReq n) = []" using ok by (simp add: charges_ok_def)
    with after_ledger [of "qLedger s" n out] ok show ?thesis
      by (simp add: finish_after_def frame_simps charges_ok_def)
  qed
  moreover have "open_key (qLedger (drop_queued (\<lambda>i. quotaRefund i 0) r s)) (rqCharge r) = None" for r
    using refunderD(2) [OF refunder_refund(1)] ok by (simp add: drop_queued_def charges_ok_def)
  moreover have "open_key (qLedger s) i \<noteq> None \<Longrightarrow> i \<in> owed s" using ok unfolding charges_ok_def by blast
  ultimately show ?thesis unfolding owed_def by blast
qed

definition one_charged :: sched where
  "one_charged = (empty_sched True 20 (no_charges None))\<lparr>
     qLedger := snd (quotaCheckAndCharge ''c1'' 0 True plain_users 7 [] ''artist'' (no_charges None)), qHeld := {''c1''}\<rparr>"

lemma one_charge:
  "quotaCheckAndCharge ''c1'' 0 True plain_users 7 [] ''artist'' (no_charges None) =
     ((''c1'', True), snd (quotaCheckAndCharge ''c1'' 0 True plain_users 7 [] ''artist'' (no_charges None)))"
  by (simp add: quotaCheckAndCharge_def plain_users_def no_users_def ripLimit_def isRestricted_def isUserDonor_def
      heavyRipLimit_def no_charges_def Let_def)

lemma one_charged_reachable: "reachable race one_charged"
proof -
  let ?s = "empty_sched True 20 (no_charges None)"
  have "new_id ''c1'' (qLedger ?s)" by (simp add: empty_sched_def new_id_def no_charges_def)
  moreover have "qLedger ?s = no_charges None" "qHeld ?s = {}" by (simp_all add: empty_sched_def)
  ultimately have "sched_step race ?s one_charged"
    using sched_step.Admit [of "''c1''" ?s 0 True plain_users 7 "[]" "''artist''" "''c1''" True] one_charge
    by (simp add: one_charged_def)
  then show ?thesis unfolding reachable_def by blast
qed

theorem no_slot_leak_witness: "open_key (qLedger one_charged) ''c1'' \<noteq> None \<and> ''c1'' \<in> qHeld one_charged"
proof -
  have "open_key (qLedger one_charged) ''c1'' \<noteq> None"
    by (simp add: one_charged_def quotaCheckAndCharge_def plain_users_def no_users_def ripLimit_def isRestricted_def
        isUserDonor_def heavyRipLimit_def no_charges_def Let_def open_key_def frame_simps)
  with no_slot_leak [OF one_charged_reachable [of True], of "''c1''"] show ?thesis
    by (simp add: one_charged_def empty_sched_def pending_def)
qed

end
