(* ===== verification/Collection_Delivery.thy ===== *)
theory Collection_Delivery
  imports Rip_State
begin

section \<open>Ordered delivery of a collection from the dumps\<close>

text \<open>
  \<^verbatim>\<open>bot/collection_delivery.go\<close>: tracks are copied to the chat in batches of one dump, a failed
  batch is retried item by item before anything later goes out.  The environment answers as a
  function of what has been sent so far: \<open>cancelled\<close> is \<^verbatim>\<open>ctx.Err()\<close>, \<open>batch\<close> and \<open>fallback\<close> the
  results of the callbacks.  The history of what was sent is part of the result.
\<close>

subsection \<open>The delivery loop\<close>

record delivery_track =
  dtTrackID :: string
  dtDumpID :: int
  dtMsgID :: int

text \<open>A batch sent from a position, with its dump and ids, or a fallback for one position, and its result.\<close>

datatype sent = Batch nat int "int list" bool | Fallback nat bool

function batch_end :: "delivery_track list \<Rightarrow> nat \<Rightarrow> nat \<Rightarrow> nat" where
  "batch_end ts i e =
     (if e < length ts \<and> e - i < 90 \<and> dtDumpID (ts ! e) = dtDumpID (ts ! i) \<and> dtMsgID (ts ! (e - 1)) < dtMsgID (ts ! e)
      then batch_end ts i (Suc e) else e)"
  by pat_completeness auto
termination by (relation "measure (\<lambda>(ts, i, e). length ts - e)") auto

declare batch_end.simps [simp del]

lemma batch_end_ge: "e \<le> batch_end ts i e"
proof (induction ts i e rule: batch_end.induct)
  case (1 ts i e)
  then show ?case using batch_end.simps [of ts i e] by (auto split: if_splits)
qed

fun retry_each ::
  "(sent list \<Rightarrow> bool) \<Rightarrow> (sent list \<Rightarrow> nat \<Rightarrow> bool) \<Rightarrow> nat list \<Rightarrow> int \<Rightarrow> sent list \<Rightarrow> int \<times> bool \<times> sent list" where
  "retry_each cancelled fallback [] n h = (n, False, h)"
| "retry_each cancelled fallback (j # js) n h =
     (if cancelled h then (n, True, h)
      else let ok = fallback h j
           in retry_each cancelled fallback js (if ok then n + 1 else n) (h @ [Fallback j ok]))"

function deliver_from ::
  "(sent list \<Rightarrow> bool) \<Rightarrow> (sent list \<Rightarrow> int \<Rightarrow> int list \<Rightarrow> bool) \<Rightarrow> (sent list \<Rightarrow> nat \<Rightarrow> bool) \<Rightarrow>
   delivery_track list \<Rightarrow> nat \<Rightarrow> int \<Rightarrow> sent list \<Rightarrow> int \<times> bool \<times> sent list" where
  "deliver_from cancelled batch fallback ts i n h =
     (if \<not> i < length ts then (n, cancelled h, h)
      else if cancelled h then (n, True, h)
      else if dtDumpID (ts ! i) = 0 \<or> dtMsgID (ts ! i) = 0 then
        (let ok = fallback h i
         in deliver_from cancelled batch fallback ts (Suc i) (if ok then n + 1 else n) (h @ [Fallback i ok]))
      else
        (let e = batch_end ts i (Suc i);
             ids = map (\<lambda>j. dtMsgID (ts ! j)) [i..<e];
             ok = batch h (dtDumpID (ts ! i)) ids;
             h1 = h @ [Batch i (dtDumpID (ts ! i)) ids ok]
         in if ok then deliver_from cancelled batch fallback ts e (n + int (length ids)) h1
            else (case retry_each cancelled fallback [i..<e] n h1 of
                    (n', True, h2) \<Rightarrow> (n', True, h2)
                  | (n', False, h2) \<Rightarrow> deliver_from cancelled batch fallback ts e n' h2)))"
  by pat_completeness auto
termination
proof (relation "measure (\<lambda>(c, b, f, ts, i, n, h). length ts - i)", goal_cases)
  case (3 cancelled batch fallback ts i)
  then show ?case using batch_end_ge [of "Suc i" ts i] by auto
next
  case (4 cancelled batch fallback ts i)
  then show ?case using batch_end_ge [of "Suc i" ts i] by auto
qed auto

declare deliver_from.simps [simp del]

definition deliverOrderedCollection ::
  "(sent list \<Rightarrow> bool) \<Rightarrow> (sent list \<Rightarrow> int \<Rightarrow> int list \<Rightarrow> bool) \<Rightarrow> (sent list \<Rightarrow> nat \<Rightarrow> bool) \<Rightarrow>
   delivery_track list \<Rightarrow> int \<times> bool \<times> sent list" where
  "deliverOrderedCollection cancelled batch fallback ts = deliver_from cancelled batch fallback ts 0 0 []"

subsection \<open>What a history shows\<close>

text \<open>The positions settled, in order: those of a successful batch, and each fallback.\<close>

fun settled_by :: "sent \<Rightarrow> nat list" where
  "settled_by (Batch i d ids ok) = (if ok then [i..<i + length ids] else [])"
| "settled_by (Fallback j ok) = [j]"

definition settled :: "sent list \<Rightarrow> nat list" where
  "settled h = concat (map settled_by h)"

fun received_by :: "sent \<Rightarrow> int" where
  "received_by (Batch i d ids ok) = (if ok then int (length ids) else 0)"
| "received_by (Fallback j ok) = (if ok then 1 else 0)"

definition received :: "sent list \<Rightarrow> int" where
  "received h = sum_list (map received_by h)"

lemma history_append [simp]:
  "settled (h @ k) = settled h @ settled k" "received (h @ k) = received h + received k"
  "settled [] = []" "received [] = 0" "settled [e] = settled_by e" "received [e] = received_by e"
  by (simp_all add: settled_def received_def)

text \<open>A batch Telegram cannot reorder: one dump, increasing ids, at most 90, from consecutive positions.\<close>

fun batch_ok :: "delivery_track list \<Rightarrow> sent \<Rightarrow> bool" where
  "batch_ok ts (Batch i d ids ok) =
     (ids \<noteq> [] \<and> length ids \<le> 90 \<and> sorted_wrt (<) ids \<and> d \<noteq> 0 \<and> i + length ids \<le> length ts \<and>
      (\<forall>k<length ids. dtDumpID (ts ! (i + k)) = d \<and> ids ! k = dtMsgID (ts ! (i + k))))"
| "batch_ok ts (Fallback j ok) = (j < length ts)"

definition run_ok :: "delivery_track list \<Rightarrow> nat \<Rightarrow> nat \<Rightarrow> bool" where
  "run_ok ts i e = (i < e \<and> e \<le> length ts \<and> e - i \<le> 90 \<and>
     (\<forall>k. i \<le> k \<and> k < e \<longrightarrow> dtDumpID (ts ! k) = dtDumpID (ts ! i)) \<and>
     (\<forall>k. i < k \<and> k < e \<longrightarrow> dtMsgID (ts ! (k - 1)) < dtMsgID (ts ! k)))"

lemma run_ok_start: "i < length ts \<Longrightarrow> run_ok ts i (Suc i)"
proof -
  assume i: "i < length ts"
  have a: "dtDumpID (ts ! k) = dtDumpID (ts ! i)" if "i \<le> k \<and> k < Suc i" for k
  proof -
    have "k = i" using that by simp
    then show ?thesis by simp
  qed
  have b: "dtMsgID (ts ! (k - 1)) < dtMsgID (ts ! k)" if "i < k \<and> k < Suc i" for k
    using that by simp
  show "run_ok ts i (Suc i)"
    unfolding run_ok_def by (intro conjI allI impI a b) (use i in simp_all)
qed

lemma run_ok_Suc:
  assumes "run_ok ts i e" "e < length ts" "e - i < 90" "dtDumpID (ts ! e) = dtDumpID (ts ! i)"
    "dtMsgID (ts ! (e - 1)) < dtMsgID (ts ! e)"
  shows "run_ok ts i (Suc e)"
proof -
  have "dtDumpID (ts ! k) = dtDumpID (ts ! i)" if "i \<le> k \<and> k < Suc e" for k
  proof (cases "k = e")
    case False
    with that have "k < e" by simp
    with that assms(1) show ?thesis unfolding run_ok_def by blast
  qed (simp add: assms(4))
  moreover have "dtMsgID (ts ! (k - 1)) < dtMsgID (ts ! k)" if "i < k \<and> k < Suc e" for k
  proof (cases "k = e")
    case False
    with that have "k < e" by simp
    with that assms(1) show ?thesis unfolding run_ok_def by blast
  qed (use assms(5) in simp)
  moreover have "i < Suc e" "Suc e \<le> length ts" "Suc e - i \<le> 90"
    using assms(1-3) by (simp_all add: run_ok_def)
  ultimately show ?thesis unfolding run_ok_def by blast
qed

lemma batch_end_run: "run_ok ts i e \<Longrightarrow> run_ok ts i (batch_end ts i e)"
proof (induction ts i e rule: batch_end.induct)
  case (1 ts i e)
  show ?case
  proof (cases "e < length ts \<and> e - i < 90 \<and> dtDumpID (ts ! e) = dtDumpID (ts ! i) \<and> dtMsgID (ts ! (e - 1)) < dtMsgID (ts ! e)")
    case True
    have "run_ok ts i (batch_end ts i (Suc e))"
      using 1(1) [OF True] run_ok_Suc [OF 1(2)] True by blast
    with True show ?thesis by (simp add: batch_end.simps [of ts i e])
  next
    case False
    then have "batch_end ts i e = e" using batch_end.simps [of ts i e] by auto
    with 1(2) show ?thesis by simp
  qed
qed

lemma upt_join: "i \<le> j \<Longrightarrow> j \<le> k \<Longrightarrow> [i..<j] @ [j..<k] = [i..<k]"
  by (metis le_Suc_ex upt_add_eq_append)

lemma increasing_range:
  assumes "\<forall>k. i < k \<and> k < e \<longrightarrow> f (k - 1) < (f k :: int)"
  shows "sorted_wrt (<) (map f [i..<e])"
proof -
  have "f a < f b" if "i \<le> a" "a < b" "b < e" for a b
    using that
  proof (induction b)
    case (Suc b)
    have "f b < f (Suc b)" using assms Suc.prems by (metis diff_Suc_1 le_less_trans less_Suc_eq_le)
    with Suc show ?case by (cases "a = b") auto
  qed simp
  then show ?thesis by (auto simp: sorted_wrt_iff_nth_less)
qed

lemma batch_well_formed:
  assumes "i < length ts" "dtDumpID (ts ! i) \<noteq> 0"
  shows "batch_ok ts (Batch i (dtDumpID (ts ! i)) (map (\<lambda>j. dtMsgID (ts ! j)) [i..<batch_end ts i (Suc i)]) ok)"
    and "i < batch_end ts i (Suc i)" "batch_end ts i (Suc i) \<le> length ts"
proof -
  let ?e = "batch_end ts i (Suc i)"
  have run: "run_ok ts i ?e" by (rule batch_end_run [OF run_ok_start [OF assms(1)]])
  have p: "?e \<le> length ts" "?e - i \<le> 90" "\<forall>k. i \<le> k \<and> k < ?e \<longrightarrow> dtDumpID (ts ! k) = dtDumpID (ts ! i)"
    "\<forall>k. i < k \<and> k < ?e \<longrightarrow> dtMsgID (ts ! (k - 1)) < dtMsgID (ts ! k)"
    using run unfolding run_ok_def by blast+
  show ge: "i < ?e" using batch_end_ge [of "Suc i" ts i] by simp
  show "?e \<le> length ts" by (rule p(1))
  have inc: "sorted_wrt (<) (map (\<lambda>j. dtMsgID (ts ! j)) [i..<?e])"
    by (intro increasing_range p(4))
  have same: "dtDumpID (ts ! (i + k)) = dtDumpID (ts ! i)" if "k < ?e - i" for k
  proof -
    have "i \<le> i + k \<and> i + k < ?e" using that by simp
    with p(3) show ?thesis by blast
  qed
  show "batch_ok ts (Batch i (dtDumpID (ts ! i)) (map (\<lambda>j. dtMsgID (ts ! j)) [i..<?e]) ok)"
    unfolding batch_ok.simps
  proof (intro conjI allI impI inc assms(2))
    show "map (\<lambda>j. dtMsgID (ts ! j)) [i..<?e] \<noteq> []" "length (map (\<lambda>j. dtMsgID (ts ! j)) [i..<?e]) \<le> 90"
      "i + length (map (\<lambda>j. dtMsgID (ts ! j)) [i..<?e]) \<le> length ts"
      using ge p(1,2) by simp_all
  next
    fix k
    assume "k < length (map (\<lambda>j. dtMsgID (ts ! j)) [i..<?e])"
    then have k: "k < ?e - i" by simp
    show "dtDumpID (ts ! (i + k)) = dtDumpID (ts ! i)" by (rule same [OF k])
    show "map (\<lambda>j. dtMsgID (ts ! j)) [i..<?e] ! k = dtMsgID (ts ! (i + k))" using k by simp
  qed
qed

lemma retry_each_history:
  assumes "retry_each cancelled fallback [i..<e] n h = (n', err, h')" "i \<le> e"
  shows "\<exists>m. i \<le> m \<and> m \<le> e \<and> settled h' = settled h @ [i..<m] \<and> (\<not> err \<longrightarrow> m = e) \<and>
     n' - n = received h' - received h \<and> (\<exists>k. h' = h @ k \<and> (\<forall>x\<in>set k. \<exists>j ok. x = Fallback j ok \<and> j < e))"
  using assms
proof (induction "e - i" arbitrary: i n h)
  case 0
  then show ?case by (auto intro: exI [of _ e])
next
  case (Suc d)
  then have lt: "i < e" by simp
  show ?case
  proof (cases "cancelled h")
    case True
    with Suc.prems(1) lt show ?thesis by (auto simp: upt_conv_Cons intro: exI [of _ i])
  next
    case False
    let ?ok = "fallback h i"
    have run: "retry_each cancelled fallback [Suc i..<e] (if ?ok then n + 1 else n) (h @ [Fallback i ?ok]) = (n', err, h')"
      using Suc.prems(1) lt False by (simp add: upt_conv_Cons Let_def)
    have "d = e - Suc i" "Suc i \<le> e" using Suc.hyps(2) lt by auto
    from Suc.hyps(1) [OF this(1) run this(2)] obtain m k where
      m: "Suc i \<le> m" "m \<le> e" "settled h' = settled h @ [i] @ [Suc i..<m]" "\<not> err \<longrightarrow> m = e"
        "n' - (if ?ok then n + 1 else n) = received h' - (received h + (if ?ok then 1 else 0))"
        "h' = (h @ [Fallback i ?ok]) @ k" "\<forall>x\<in>set k. \<exists>j ok. x = Fallback j ok \<and> j < e"
      unfolding history_append append_assoc settled_by.simps received_by.simps by blast
    have "[i] @ [Suc i..<m] = [i..<m]" using m(1) by (simp add: upt_conv_Cons)
    with m lt show ?thesis by (intro exI [of _ m]) (auto split: if_splits)
  qed
qed

definition history_ok :: "delivery_track list \<Rightarrow> nat \<Rightarrow> int \<Rightarrow> sent list \<Rightarrow> bool" where
  "history_ok ts m n h = (settled h = [0..<m] \<and> n = received h \<and> (\<forall>e\<in>set h. batch_ok ts e) \<and> m \<le> length ts)"

lemma deliver_from_history:
  assumes "history_ok ts i n h" "deliver_from cancelled batch fallback ts i n h = (n', err, h')"
  shows "\<exists>m. history_ok ts m n' h' \<and> (\<not> err \<longrightarrow> m = length ts)"
  using assms
proof (induction cancelled batch fallback ts i n h rule: deliver_from.induct)
  case (1 cancelled batch fallback ts i n h)
  note run = 1(5) [unfolded deliver_from.simps [of cancelled batch fallback ts i n h]]
  consider (stop) "\<not> i < length ts \<or> cancelled h"
    | (single) "i < length ts" "\<not> cancelled h" "dtDumpID (ts ! i) = 0 \<or> dtMsgID (ts ! i) = 0"
    | (batch) "i < length ts" "\<not> cancelled h" "\<not> (dtDumpID (ts ! i) = 0 \<or> dtMsgID (ts ! i) = 0)"
    by blast
  then show ?case
  proof cases
    case stop
    with run 1(4) show ?thesis by (auto simp: history_ok_def split: if_splits)
  next
    case single
    let ?ok = "fallback h i"
    have "history_ok ts (Suc i) (if ?ok then n + 1 else n) (h @ [Fallback i ?ok])"
      using 1(4) single(1) by (auto simp: history_ok_def)
    with 1(1) [OF _ single(2,3) refl] single run show ?thesis by (auto simp: Let_def)
  next
    case batch
    let ?e = "batch_end ts i (Suc i)" and ?d = "dtDumpID (ts ! i)"
    let ?ids = "map (\<lambda>j. dtMsgID (ts ! j)) [i..<?e]"
    let ?ok = "batch h ?d ?ids"
    let ?h1 = "h @ [Batch i ?d ?ids ?ok]"
    have d: "?d \<noteq> 0" using batch(3) by simp
    note wf = batch_well_formed [OF batch(1) d]
    have join: "[0..<i] @ [i..<?e] = [0..<?e]" using wf(2) by (intro upt_join) simp_all
    show ?thesis
    proof (cases ?ok)
      case True
      have "history_ok ts ?e (n + int (length ?ids)) ?h1"
        using 1(4) wf True join by (auto simp: history_ok_def)
      with 1(2) [OF _ batch(2,3) refl refl refl refl True] batch run True show ?thesis by (auto simp: Let_def)
    next
      case False
      obtain n2 err2 h2 where r: "retry_each cancelled fallback [i..<?e] n ?h1 = (n2, err2, h2)"
        by (metis prod_cases3)
      obtain m k where m: "i \<le> m" "m \<le> ?e" "settled h2 = settled ?h1 @ [i..<m]" "\<not> err2 \<longrightarrow> m = ?e"
        "n2 - n = received h2 - received ?h1" "h2 = ?h1 @ k" "\<forall>x\<in>set k. \<exists>j ok. x = Fallback j ok \<and> j < ?e"
        using retry_each_history [OF r less_imp_le [OF wf(2)]] by blast
      have "[0..<i] @ [i..<m] = [0..<m]" using m(1) by (intro upt_join) simp_all
      then have ok2: "history_ok ts m n2 h2"
        using 1(4) m wf False by (fastforce simp: history_ok_def)
      show ?thesis
      proof (cases err2)
        case True
        with run batch False r have "(n', err, h') = (n2, True, h2)" by (simp add: Let_def)
        with ok2 show ?thesis by auto
      next
        case err2: False
        with ok2 m(4) have "history_ok ts ?e n2 h2" by simp
        moreover have "deliver_from cancelled batch fallback ts ?e n2 h2 = (n', err, h')"
          using run batch False r err2 by (simp add: Let_def)
        ultimately show ?thesis
          using 1(3) [OF _ batch(2,3) refl refl refl refl False r [symmetric]] batch(1) err2 r by auto
      qed
    qed
  qed
qed

text \<open>
  C35: A collection arrives in its order, and nothing is skipped or sent out of turn: whatever batches
  fail, whatever a fallback answers and whenever the task is cancelled, the positions settled are
  0, 1, 2, ... without gap or repeat, all of them unless the task was cancelled; the count returned
  is the number received; and every batch is of one dump, with increasing ids, at most 90 of them.
\<close>

theorem collection_order_kept:
  assumes "deliverOrderedCollection cancelled batch fallback ts = (n, err, h)"
  shows "\<exists>m\<le>length ts. settled h = [0..<m] \<and> (\<not> err \<longrightarrow> m = length ts) \<and> n = received h \<and> (\<forall>e\<in>set h. batch_ok ts e)"
proof -
  have "history_ok ts 0 0 []" by (simp add: history_ok_def)
  from deliver_from_history [OF this assms [unfolded deliverOrderedCollection_def]]
  show ?thesis by (auto simp: history_ok_def)
qed

text \<open>A mixed playlist: cached messages, a fresh upload between them, a failed second batch.\<close>

definition mixed_tracks :: "delivery_track list" where
  "mixed_tracks = [\<lparr>dtTrackID = ''a'', dtDumpID = 1, dtMsgID = 10\<rparr>, \<lparr>dtTrackID = ''b'', dtDumpID = 1, dtMsgID = 100\<rparr>,
     \<lparr>dtTrackID = ''c'', dtDumpID = 1, dtMsgID = 20\<rparr>, \<lparr>dtTrackID = ''d'', dtDumpID = 0, dtMsgID = 0\<rparr>,
     \<lparr>dtTrackID = ''e'', dtDumpID = 2, dtMsgID = 30\<rparr>]"

lemma mixed_run:
  "deliverOrderedCollection (\<lambda>_. False) (\<lambda>h d ids. ids \<noteq> [20]) (\<lambda>h i. i \<noteq> 2) mixed_tracks
   = (4, False, [Batch 0 1 [10, 100] True, Batch 2 1 [20] False, Fallback 2 False, Fallback 3 True, Batch 4 2 [30] True])"
  by (simp add: deliverOrderedCollection_def mixed_tracks_def deliver_from.simps batch_end.simps upt_rec)

theorem collection_order_kept_witness:
  "settled [Batch 0 1 [10, 100] True, Batch 2 1 [20] False, Fallback 2 False, Fallback 3 True, Batch 4 2 [30] True] = [0..<length mixed_tracks]"
proof -
  from collection_order_kept [OF mixed_run] obtain m where
    "settled [Batch 0 1 [10, 100] True, Batch 2 1 [20] False, Fallback 2 False, Fallback 3 True, Batch 4 2 [30] True] = [0..<m]"
    "m = length mixed_tracks" by blast
  then show ?thesis by metis
qed

subsection \<open>Preparing the tracks in the dump\<close>

record prepared_track =
  ptPath :: string
  ptMeta :: audio_meta
  ptDumpID :: int
  ptMsgID :: int

type_synonym prepared = "string \<rightharpoonup> prepared_track"

text \<open>The first loop: which tracks to upload, each once, and whether a file has no track.\<close>

record prep =
  prPending :: "string list"
  prUnsupported :: bool
  prSeen :: "string set"
  prPrepared :: prepared

definition prep_path :: "(string \<Rightarrow> audio_meta option) \<Rightarrow> string \<Rightarrow> prep \<Rightarrow> prep" where
  "prep_path meta_of path s =
     (case meta_of path of
        None \<Rightarrow> s\<lparr>prUnsupported := True\<rparr>
      | Some meta \<Rightarrow>
          let t = aTrackID meta in
          if t = [] then s\<lparr>prUnsupported := True\<rparr>
          else if t \<in> prSeen s then s
          else let s1 = s\<lparr>prSeen := insert t (prSeen s)\<rparr>
               in case prPrepared s1 t of
                    Some r \<Rightarrow> if ptMsgID r \<noteq> 0 then s1 else s1\<lparr>prPending := prPending s1 @ [t]\<rparr>
                  | None \<Rightarrow> s1\<lparr>prPrepared := (prPrepared s1)(t \<mapsto> \<lparr>ptPath = path, ptMeta = meta, ptDumpID = 0, ptMsgID = 0\<rparr>),
                              prPending := prPending s1 @ [t]\<rparr>)"

text \<open>\<open>upload\<close> is \<^verbatim>\<open>pool.uploadToDump\<close>: the dump and message, or an error; a failure leaves the entry.\<close>

definition prepareCollectionTrack :: "(prepared_track \<Rightarrow> (int \<times> int) option) \<Rightarrow> string \<Rightarrow> prepared \<Rightarrow> prepared" where
  "prepareCollectionTrack upload t p =
     (case p t of
        None \<Rightarrow> p
      | Some r \<Rightarrow> (case upload r of
                     None \<Rightarrow> p
                   | Some (d, m) \<Rightarrow> p(t \<mapsto> r\<lparr>ptDumpID := d, ptMsgID := m\<rparr>)))"

datatype prep_error = PrepCancelled | PrepNotStaged string | PrepSupplementary

text \<open>
  The uploads run concurrently on distinct entries; \<open>skipped t\<close> says that the context was already
  cancelled when the upload of \<open>t\<close> came to run, \<open>cancelled\<close> that it is when all have ended.
\<close>

definition prepareCollectionPaths ::
  "(string \<Rightarrow> audio_meta option) \<Rightarrow> (prepared_track \<Rightarrow> (int \<times> int) option) \<Rightarrow> (string \<Rightarrow> bool) \<Rightarrow> bool \<Rightarrow>
   string list \<Rightarrow> prepared \<Rightarrow> prep_error option \<times> prepared" where
  "prepareCollectionPaths meta_of upload skipped cancelled paths p =
     (let s = fold (prep_path meta_of) paths
                \<lparr>prPending = [], prUnsupported = False, prSeen = {}, prPrepared = p\<rparr>;
          p1 = fold (\<lambda>t q. if skipped t then q else prepareCollectionTrack upload t q) (prPending s) (prPrepared s)
      in if cancelled then (Some PrepCancelled, p1)
         else case filter (\<lambda>t. (case p1 t of Some r \<Rightarrow> ptMsgID r = 0 | None \<Rightarrow> False)) (prPending s) of
                t # _ \<Rightarrow> (Some (PrepNotStaged t), p1)
              | [] \<Rightarrow> if prUnsupported s then (Some PrepSupplementary, p1) else (None, p1))"

text \<open>The references delivered: a track without a cached message takes its fresh upload's.\<close>

definition collection_refs :: "delivery_track list \<Rightarrow> prepared \<Rightarrow> delivery_track list" where
  "collection_refs tracks p =
     map (\<lambda>t. if dtMsgID t = 0
              then (case p (dtTrackID t) of
                      None \<Rightarrow> t
                    | Some r \<Rightarrow> t\<lparr>dtDumpID := ptDumpID r, dtMsgID := ptMsgID r\<rparr>)
              else t) tracks"

text \<open>Every upload either is in the dump afterwards or stays at message 0.\<close>

definition entry :: "prepared \<Rightarrow> string \<Rightarrow> bool" where
  "entry p t = (p t \<noteq> None)"

definition staged :: "prepared \<Rightarrow> string \<Rightarrow> bool" where
  "staged p t = (case p t of Some r \<Rightarrow> ptMsgID r \<noteq> 0 | None \<Rightarrow> False)"

lemma prepare_track_keeps:
  "staged p u \<Longrightarrow> u \<noteq> t \<Longrightarrow> staged (prepareCollectionTrack upload t p) u"
  "entry p u \<Longrightarrow> entry (prepareCollectionTrack upload t p) u"
  by (auto simp: staged_def entry_def prepareCollectionTrack_def split: option.splits)

lemma prepare_tracks_keep:
  "staged p u \<Longrightarrow> u \<notin> set ts \<Longrightarrow> staged (fold (\<lambda>t q. if skip t then q else prepareCollectionTrack upload t q) ts p) u"
  "entry p u \<Longrightarrow> entry (fold (\<lambda>t q. if skip t then q else prepareCollectionTrack upload t q) ts p) u"
  by (induction ts arbitrary: p) (auto simp: prepare_track_keeps)

text \<open>After the first loop every track seen is pending with an entry, or staged and not pending.\<close>

definition prep_ok :: "prep \<Rightarrow> bool" where
  "prep_ok s = (\<forall>t\<in>prSeen s. if t \<in> set (prPending s) then entry (prPrepared s) t else staged (prPrepared s) t)"

lemma prep_path_ok:
  assumes "prep_ok s" "set (prPending s) \<subseteq> prSeen s"
  shows "prep_ok (prep_path meta_of path s) \<and> set (prPending (prep_path meta_of path s)) \<subseteq> prSeen (prep_path meta_of path s) \<and>
    prSeen s \<subseteq> prSeen (prep_path meta_of path s) \<and> (prUnsupported s \<longrightarrow> prUnsupported (prep_path meta_of path s)) \<and>
    (prUnsupported (prep_path meta_of path s) \<or>
     (\<exists>m. meta_of path = Some m \<and> aTrackID m \<in> prSeen (prep_path meta_of path s)))"
  using assms
  by (auto simp: prep_path_def prep_ok_def entry_def staged_def Let_def split: option.splits if_splits)

lemma prep_paths_ok:
  assumes "prep_ok s" "set (prPending s) \<subseteq> prSeen s"
  shows "prep_ok (fold (prep_path meta_of) paths s) \<and> prSeen s \<subseteq> prSeen (fold (prep_path meta_of) paths s) \<and>
    (prUnsupported s \<longrightarrow> prUnsupported (fold (prep_path meta_of) paths s)) \<and>
    (\<forall>path\<in>set paths. prUnsupported (fold (prep_path meta_of) paths s) \<or>
       (\<exists>m. meta_of path = Some m \<and> aTrackID m \<in> prSeen (fold (prep_path meta_of) paths s)))"
  using assms
proof (induction paths arbitrary: s)
  case (Cons path paths)
  note one = prep_path_ok [OF Cons.prems, of meta_of path]
  note IH = Cons.IH [of "prep_path meta_of path s"]
  show ?case using one IH by (auto 0 4)
qed simp

text \<open>
  A chunk is only reclaimed when it is safe in the dump: when the disk-pressure checkpoint's
  staging succeeds, every file of the chunk belongs to a track whose upload is in the dump, or
  was already; any upload that failed or was skipped, and any file without a track, makes it an
  error, which keeps the source files.
\<close>

theorem staged_chunk_is_in_dump:
  assumes "prepareCollectionPaths meta_of upload skipped cancelled paths p = (None, p')"
  shows "\<forall>path\<in>set paths. \<exists>m r. meta_of path = Some m \<and> p' (aTrackID m) = Some r \<and> ptMsgID r \<noteq> 0"
proof
  fix path
  assume path: "path \<in> set paths"
  let ?start = "\<lparr>prPending = [], prUnsupported = False, prSeen = {}, prPrepared = p\<rparr>"
  let ?s = "fold (prep_path meta_of) paths ?start"
  let ?step = "\<lambda>t q. if skipped t then q else prepareCollectionTrack upload t q"
  have "prep_ok ?start" "set (prPending ?start) \<subseteq> prSeen ?start" by (simp_all add: prep_ok_def)
  note ok = prep_paths_ok [OF this, of meta_of paths]
  have p': "p' = fold ?step (prPending ?s) (prPrepared ?s)" and sup: "\<not> prUnsupported ?s"
    and none: "filter (\<lambda>t. case p' t of Some r \<Rightarrow> ptMsgID r = 0 | None \<Rightarrow> False) (prPending ?s) = []"
    using assms by (auto simp: prepareCollectionPaths_def Let_def split: if_splits list.splits)
  obtain m where m: "meta_of path = Some m" "aTrackID m \<in> prSeen ?s" using ok sup path by blast
  have "staged p' (aTrackID m)"
  proof (cases "aTrackID m \<in> set (prPending ?s)")
    case True
    with ok m(2) have "entry (prPrepared ?s) (aTrackID m)" by (simp add: prep_ok_def)
    then have "entry p' (aTrackID m)" unfolding p' by (rule prepare_tracks_keep(2))
    with none True show ?thesis by (auto simp: entry_def staged_def filter_empty_conv split: option.splits)
  next
    case False
    with ok m(2) have "staged (prPrepared ?s) (aTrackID m)" by (simp add: prep_ok_def)
    then show ?thesis unfolding p' by (rule prepare_tracks_keep(1) [OF _ False])
  qed
  with m(1) show "\<exists>m r. meta_of path = Some m \<and> p' (aTrackID m) = Some r \<and> ptMsgID r \<noteq> 0"
    by (auto simp: staged_def split: option.splits)
qed

definition one_meta :: "string \<Rightarrow> audio_meta option" where
  "one_meta path = (if path = ''/a.m4a'' then Some (zero_audio_meta\<lparr>aTrackID := ''7''\<rparr>) else None)"

theorem staged_chunk_is_in_dump_witness:
  "\<exists>r. snd (prepareCollectionPaths one_meta (\<lambda>r. Some (1, 5)) (\<lambda>_. False) False [''/a.m4a''] Map.empty) ''7'' = Some r \<and> ptMsgID r \<noteq> 0"
proof -
  let ?r = "prepareCollectionPaths one_meta (\<lambda>r. Some (1, 5)) (\<lambda>_. False) False [''/a.m4a''] Map.empty"
  have "?r = (None, snd ?r)"
    by (simp add: prepareCollectionPaths_def prep_path_def one_meta_def prepareCollectionTrack_def Let_def zero_audio_meta_def)
  from staged_chunk_is_in_dump [OF this] show ?thesis by (simp add: one_meta_def)
qed

end
