(* ===== verification/Submission.thy ===== *)
theory Submission
  imports Scheduler_Slots Collection_Delivery
begin

section \<open>Submitting an album or a playlist\<close>

text \<open>
  The handlers of \<^verbatim>\<open>bot/telegram_bot.go\<close> that turn a request for a collection into a queued
  task: \<^verbatim>\<open>enqueueAlbumDownload\<close>, \<^verbatim>\<open>enqueuePlaylistDownload\<close>, the read-through of the catalog
  (\<^verbatim>\<open>catalogServeCollection\<close>, \<^verbatim>\<open>catalogTryServeTrack\<close>, \<^verbatim>\<open>ripCollectionWithCatalog\<close>).  They compose
  the quota, the deduplication, the catalog and the queue; that each of them is a sequence of
  steps of the scheduler carries the scheduler's invariants over to them.
\<close>

subsection \<open>The handlers\<close>

record submission =
  suChat :: chat_id
  suUser :: user_id
  suName :: string
  suReplyTo :: msg_id
  suStatusMsg :: msg_id
  suMode :: string
  suForceAAC :: bool
  suForceAtmos :: bool
  suForceFlac :: bool
  suNoCache :: bool

text \<open>
  What surrounds a submission: the generated ids, the clock, whether the database answers the
  charge insert and the lookup, the users, which chats have a board, the chats' formats, and
  whether the upload pool is ready.
\<close>

record surroundings =
  sgCharge :: string
  sgTask :: string
  sgNow :: unix_sec
  sgUpCharge :: bool
  sgUpLookup :: bool
  sgUsers :: users
  sgBoard :: "chat_id \<Rightarrow> bool"
  sgFormat :: "chat_id \<Rightarrow> string"
  sgPoolReady :: bool

definition resolveFormat :: "(chat_id \<Rightarrow> string) \<Rightarrow> chat_id \<Rightarrow> bool \<Rightarrow> string" where
  "resolveFormat getChatFormat chatID forceFlac = (if forceFlac then ''flac'' else getChatFormat chatID)"

definition make_request ::
  "string \<Rightarrow> submission \<Rightarrow> string \<Rightarrow> string \<Rightarrow> rip_fn \<Rightarrow> after \<Rightarrow> string \<Rightarrow> dedup_info option \<Rightarrow> request" where
  "make_request t su format albumID fn aft cid dedup =
     \<lparr>rqTask = t, rqChat = suChat su, rqUser = suUser su, rqName = suName su, rqReplyTo = suReplyTo su,
      rqStatusMsg = suStatusMsg su, rqSingle = False, rqFormat = format, rqMode = suMode su, rqAlbum = albumID,
      rqForceAtmos = suForceAtmos su, rqNoCache = suNoCache su, rqFn = fn, rqAfter = aft, rqCharge = cid, rqDedup = dedup\<rparr>"

text \<open>The result of \<^verbatim>\<open>enqueueDownload\<close> is dropped here, as the code does.\<close>

definition catalogServeCollection ::
  "surroundings \<Rightarrow> submission \<Rightarrow> string \<Rightarrow> string \<Rightarrow> string \<Rightarrow> sched \<Rightarrow> bool \<times> sched" where
  "catalogServeCollection sg su kind coll format s =
     (let enabled = (case lgCat (qLedger s) of None \<Rightarrow> False | Some c \<Rightarrow> cEnabled c);
          variant = VariantKey (zero_meta\<lparr>mFormat := effectiveCatalogFormat format (suForceAAC su) (suForceAtmos su)\<rparr>)
      in if suNoCache su \<or> \<not> enabled \<or> \<not> sgPoolReady sg then (False, s)
         else if suMode su \<noteq> transferModeTelegramIndividual then (False, s)
         else if variant = [] then (False, s)
         else (True, snd (enqueueDownloadWithAfter (sgBoard sg)
                (make_request (sgTask sg) su format coll (RipCollectionWithCatalog kind coll variant) NoAfter [] None) s)))"

datatype submit_reply =
    EmptyID
  | NoSlots "string list"
  | AlreadyRipped "(string \<times> string) option"
  | ServedByCatalog
  | Submitted queue_reply

text \<open>
  From the charge on the two handlers are the same; \<open>fn\<close> and \<open>kind\<close> are what they differ in.
\<close>

definition submit_collection ::
  "surroundings \<Rightarrow> submission \<Rightarrow> string \<Rightarrow> string \<Rightarrow> rip_fn \<Rightarrow> string \<Rightarrow> sched \<Rightarrow> submit_reply \<times> sched" where
  "submit_collection sg su kind coll fn cid s =
     (let format = resolveFormat (sgFormat sg) (suChat su) (suForceFlac su);
          variant = gofileDedupVariant format (suForceAAC su) (suForceAtmos su);
          dup = checkGofileDedup (sgUpLookup sg) (sgNow sg) (lgCat (qLedger s)) kind coll variant;
          refund = (\<lambda>s. s\<lparr>qLedger := quotaRefund cid 0 (qLedger s)\<rparr>)
      in if suMode su = transferModeGofileZip \<and> \<not> suNoCache su \<and> fst dup then (AlreadyRipped (snd dup), refund s)
         else case catalogServeCollection sg su kind coll format s of
                (True, s1) \<Rightarrow> (ServedByCatalog, s1\<lparr>qLedger := quotaCommit cid 0 (qLedger s1)\<rparr>)
              | (False, s1) \<Rightarrow>
                  (let dedup = (if suMode su = transferModeGofileZip
                                then newGofileDedupInfo kind coll format [] (suForceAAC su) (suForceAtmos su) (suUser su)
                                else None);
                       r = make_request (sgTask sg) su format coll fn AfterCollection cid dedup
                   in case enqueueDownloadWithAfter (sgBoard sg) r s1 of
                        ((True, reply), s2) \<Rightarrow> (Submitted reply, s2)
                      | ((False, reply), s2) \<Rightarrow> (Submitted reply, refund s2)))"

definition admit :: "surroundings \<Rightarrow> submission \<Rightarrow> string \<Rightarrow> sched \<Rightarrow> (string \<times> bool) \<times> string list \<times> sched" where
  "admit sg su kind s =
     (case admitRestricted (sgCharge sg) (sgNow sg) (sgUpCharge sg) (sgUsers sg) kind (suUser su) (suName su) (qLedger s) of
        (res, sent, q) \<Rightarrow> (res, sent, s\<lparr>qLedger := q\<rparr>))"

definition enqueueAlbumDownload :: "surroundings \<Rightarrow> submission \<Rightarrow> string \<Rightarrow> sched \<Rightarrow> submit_reply \<times> sched" where
  "enqueueAlbumDownload sg su albumID s =
     (if albumID = [] then (EmptyID, s)
      else case admit sg su ''album'' s of
             ((_, False), sent, s1) \<Rightarrow> (NoSlots sent, s1)
           | ((cid, True), _, s1) \<Rightarrow> submit_collection sg su ''album'' albumID (RipAlbum albumID) cid s1)"

definition enqueuePlaylistDownload :: "surroundings \<Rightarrow> submission \<Rightarrow> string \<Rightarrow> string \<Rightarrow> sched \<Rightarrow> submit_reply \<times> sched" where
  "enqueuePlaylistDownload sg su playlistID quotaChargeID s =
     (if playlistID = [] then (EmptyID, s\<lparr>qLedger := quotaRefund quotaChargeID 0 (qLedger s)\<rparr>)
      else if quotaChargeID \<noteq> [] then submit_collection sg su ''playlist'' playlistID (RipPlaylist playlistID) quotaChargeID s
      else case admit sg su ''playlist'' s of
             ((_, False), sent, s1) \<Rightarrow> (NoSlots sent, s1)
           | ((cid, True), _, s1) \<Rightarrow> submit_collection sg su ''playlist'' playlistID (RipPlaylist playlistID) cid s1)"

subsection \<open>The catalog's read-through\<close>

text \<open>\<open>deliver\<close> is \<^verbatim>\<open>deliverFromDump\<close>, absent when not wired; the result is the message delivered.\<close>

definition catalogTryServeTrack ::
  "bool \<Rightarrow> catalog option \<Rightarrow> (int \<Rightarrow> int \<Rightarrow> bool) option \<Rightarrow> string \<Rightarrow> string \<Rightarrow> (int \<times> int) option" where
  "catalogTryServeTrack up cat deliver trackID format =
     (case (cat, deliver) of
        (Some c, Some send) \<Rightarrow>
          if \<not> cEnabled c then None
          else let adamID = atoi64 (trim_space trackID);
                   variant = VariantKey (zero_meta\<lparr>mFormat := format\<rparr>)
               in if adamID = 0 \<or> variant = [] then None
                  else (case Lookup up c KindTrack adamID [] variant of
                          Inl e \<Rightarrow> None
                        | Inr None \<Rightarrow> None
                        | Inr (Some h) \<Rightarrow> if send (hDump h) (hMsg h) then Some (hDump h, hMsg h) else None)
      | _ \<Rightarrow> None)"

definition plan_track :: "bool \<Rightarrow> catalog \<Rightarrow> string \<Rightarrow> string \<Rightarrow> delivery_track" where
  "plan_track up c variant tid =
     (let t = \<lparr>dtTrackID = tid, dtDumpID = 0, dtMsgID = 0\<rparr>; adamID = atoi64 tid
      in if adamID = 0 then t
         else case Lookup up c KindTrack adamID [] variant of
                Inl e \<Rightarrow> t
              | Inr None \<Rightarrow> t
              | Inr (Some h) \<Rightarrow> if hDump h \<noteq> 0 \<and> hMsg h \<noteq> 0 then t\<lparr>dtDumpID := hDump h, dtMsgID := hMsg h\<rparr> else t)"

text \<open>
  \<^verbatim>\<open>ripCollectionWithCatalog\<close>: a whole rip, or the plan and the track ids to rip, in order.
  \<open>ids\<close> is what \<^verbatim>\<open>fetchCollection\<close> answers, \<open>up\<close> tells for each track whether its lookup gets
  through, \<open>cancelled\<close> whether the context is cancelled when the loop comes to it.
\<close>

datatype catalog_rip = WholeRip | RipCancelled | GapRip "delivery_track list" "string list"

definition ripCollectionWithCatalog ::
  "(string \<Rightarrow> bool) \<Rightarrow> (string \<Rightarrow> bool) \<Rightarrow> catalog \<Rightarrow> string list option \<Rightarrow> string \<Rightarrow> catalog_rip" where
  "ripCollectionWithCatalog up cancelled c ids variant =
     (case ids of
        None \<Rightarrow> WholeRip
      | Some tids \<Rightarrow>
          if tids = [] then WholeRip
          else if \<exists>t\<in>set tids. cancelled t then RipCancelled
          else let tracks = map (\<lambda>t. plan_track (up t) c variant t) tids
               in if filter (\<lambda>t. dtMsgID t \<noteq> 0) tracks = [] then WholeRip
                  else GapRip tracks (map dtTrackID (filter (\<lambda>t. dtMsgID t = 0) tracks)))"

subsection \<open>A submission is a sequence of scheduler steps\<close>

lemma make_request_sel [simp]:
  "rqTask (make_request t su f a fn af cid dd) = t" "rqCharge (make_request t su f a fn af cid dd) = cid"
  "rqAfter (make_request t su f a fn af cid dd) = af" "rqUser (make_request t su f a fn af cid dd) = suUser su"
  by (simp_all add: make_request_def)

lemma settle_empty [simp]: "quotaSetState up [] st d sync q = q"
  by (simp add: quotaSetState_def settle_def)

lemma held_upd_same [simp]: "(s::sched)\<lparr>qHeld := qHeld s\<rparr> = s" "(s::sched)\<lparr>qLedger := qLedger s\<rparr> = s"
  by simp_all

lemma pending_upd [simp]:
  "pending (s\<lparr>qLedger := q\<rparr>) = pending s" "live (s\<lparr>qLedger := q\<rparr>) = live s" "task_ids (s\<lparr>qLedger := q\<rparr>) = task_ids s"
  "pending (s\<lparr>qHeld := h\<rparr>) = pending s" "live (s\<lparr>qHeld := h\<rparr>) = live s" "task_ids (s\<lparr>qHeld := h\<rparr>) = task_ids s"
  by (simp_all add: pending_def live_def task_ids_def)

lemma enqueue_held:
  "enqueueDownloadWithAfter board r (s\<lparr>qHeld := h\<rparr>) =
     (fst (enqueueDownloadWithAfter board r s), (snd (enqueueDownloadWithAfter board r s))\<lparr>qHeld := h\<rparr>)"
  by (simp add: enqueueDownloadWithAfter_def Let_def)

lemma serve_held:
  "catalogServeCollection sg su k c f (s\<lparr>qHeld := h\<rparr>) =
     (fst (catalogServeCollection sg su k c f s), (snd (catalogServeCollection sg su k c f s))\<lparr>qHeld := h\<rparr>)"
  by (simp add: catalogServeCollection_def Let_def enqueue_held)

lemma submit_held:
  "submit_collection sg su k c fn cid (s\<lparr>qHeld := h\<rparr>) =
     (fst (submit_collection sg su k c fn cid s), (snd (submit_collection sg su k c fn cid s))\<lparr>qHeld := h\<rparr>)"
  by (simp add: submit_collection_def Let_def serve_held enqueue_held split: prod.splits bool.splits)

text \<open>Closing a held charge is a step, or nothing when there is no charge.\<close>

lemma settle_step:
  assumes "cid = [] \<or> cid \<in> qHeld s" "[] \<notin> qHeld s" "st = quotaCommitted \<or> st = quotaRefunded"
  shows "(sched_step race)\<^sup>*\<^sup>* s (s\<lparr>qLedger := quotaSetState True cid st 0 False (qLedger s), qHeld := qHeld s - {cid}\<rparr>)"
proof (cases "cid = []")
  case True
  then show ?thesis using assms(2) by simp
next
  case False
  then have "cid \<in> qHeld s" using assms(1) by simp
  from sched_step.Settle_Held [OF this assms(3)] show ?thesis by (rule r_into_rtranclp)
qed

lemma enqueue_step:
  assumes "rqCharge r = [] \<or> rqCharge r \<in> qHeld s \<and> rqAfter r \<noteq> NoAfter" "rqTask r \<noteq> []" "rqTask r \<notin> task_ids s"
  shows "sched_step race s (if fst (fst (enqueueDownloadWithAfter board r s))
     then (snd (enqueueDownloadWithAfter board r s))\<lparr>qHeld := qHeld s - {rqCharge r}\<rparr> else s)"
proof -
  obtain ok reply s1 where e: "enqueueDownloadWithAfter board r s = ((ok, reply), s1)" by (metis prod.collapse)
  have "s1 = s" if "\<not> ok" using e that by (auto simp: enqueueDownloadWithAfter_def Let_def split: if_splits)
  with sched_step.Enqueue [OF assms e, of race] e show ?thesis by (cases ok) simp_all
qed

lemma enqueue_fail: "\<not> fst (fst (enqueueDownloadWithAfter board r s)) \<Longrightarrow> snd (enqueueDownloadWithAfter board r s) = s"
  by (simp add: enqueueDownloadWithAfter_def Let_def split: if_splits)

lemma submit_steps:
  assumes "cid = [] \<or> cid \<in> qHeld s" "[] \<notin> qHeld s" "sgTask sg \<noteq> []" "sgTask sg \<notin> task_ids s"
  shows "(sched_step race)\<^sup>*\<^sup>* s ((snd (submit_collection sg su k c fn cid s))\<lparr>qHeld := qHeld s - {cid}\<rparr>)"
proof -
  define format where "format = resolveFormat (sgFormat sg) (suChat su) (suForceFlac su)"
  define dup where "dup = checkGofileDedup (sgUpLookup sg) (sgNow sg) (lgCat (qLedger s)) k c
    (gofileDedupVariant format (suForceAAC su) (suForceAtmos su))"
  define hit where "hit \<longleftrightarrow> suMode su = transferModeGofileZip \<and> \<not> suNoCache su \<and> fst dup"
  let ?refund = "\<lambda>s. s\<lparr>qLedger := quotaRefund cid 0 (qLedger s)\<rparr>"
  have refund: "(sched_step race)\<^sup>*\<^sup>* s (s\<lparr>qLedger := quotaRefund cid 0 (qLedger s), qHeld := qHeld s - {cid}\<rparr>)"
    unfolding quotaRefund_def by (rule settle_step [OF assms(1,2)]) simp
  have none: "qHeld s - {[]} = qHeld s" using assms(2) by simp
  let ?serve = "catalogServeCollection sg su k c format s"
  note unf = submit_collection_def Let_def format_def [symmetric] dup_def [symmetric] hit_def [symmetric]
  consider (hit) "hit" | (served) "\<not> hit" "fst ?serve" | (queue) "\<not> hit" "\<not> fst ?serve" by blast
  then show ?thesis
  proof cases
    case hit
    then show ?thesis using refund by (simp add: unf)
  next
    case served
    then obtain variant where sv: "?serve = (True, snd (enqueueDownloadWithAfter (sgBoard sg)
        (make_request (sgTask sg) su format c (RipCollectionWithCatalog k c variant) NoAfter [] None) s))"
      by (auto simp: catalogServeCollection_def Let_def split: if_splits)
    let ?s1 = "snd ?serve"
    have "sched_step race s ?s1"
      using enqueue_step [of "make_request (sgTask sg) su format c (RipCollectionWithCatalog k c variant) NoAfter [] None" s race "sgBoard sg"]
        assms(3,4) by (auto simp: sv none enqueueDownloadWithAfter_def Let_def split: if_splits)
    moreover have h: "qHeld ?s1 = qHeld s" by (simp add: sv enqueueDownloadWithAfter_def Let_def)
    have "(sched_step race)\<^sup>*\<^sup>* ?s1 (?s1\<lparr>qLedger := quotaCommit cid 0 (qLedger ?s1), qHeld := qHeld ?s1 - {cid}\<rparr>)"
      unfolding quotaCommit_def by (rule settle_step) (use assms h in simp_all)
    moreover have "snd (submit_collection sg su k c fn cid s) = ?s1\<lparr>qLedger := quotaCommit cid 0 (qLedger ?s1)\<rparr>"
    proof -
      have e: "?serve = (True, ?s1)" using served by (cases ?serve) simp
      show ?thesis unfolding unf by (subst e) (simp add: served(1))
    qed
    ultimately show ?thesis by (simp add: h converse_rtranclp_into_rtranclp)
  next
    case queue
    then have s1: "?serve = (False, s)" by (auto simp: catalogServeCollection_def Let_def split: if_splits)
    obtain dedup where sub: "snd (submit_collection sg su k c fn cid s) =
        (let r = make_request (sgTask sg) su format c fn AfterCollection cid dedup;
             e = enqueueDownloadWithAfter (sgBoard sg) r s
         in if fst (fst e) then snd e else ?refund (snd e))"
    proof -
      define dd where "dd = (if suMode su = transferModeGofileZip
        then newGofileDedupInfo k c format [] (suForceAAC su) (suForceAtmos su) (suUser su) else None)"
      obtain ok reply s2 where "enqueueDownloadWithAfter (sgBoard sg) (make_request (sgTask sg) su format c fn AfterCollection cid dd) s
          = ((ok, reply), s2)" by (metis prod.collapse)
      then show ?thesis using queue(1) by (intro that [of dd]) (cases ok; simp add: unf s1 flip: dd_def)
    qed
    define r where "r = make_request (sgTask sg) su format c fn AfterCollection cid dedup"
    have st: "sched_step race s (if fst (fst (enqueueDownloadWithAfter (sgBoard sg) r s))
       then (snd (enqueueDownloadWithAfter (sgBoard sg) r s))\<lparr>qHeld := qHeld s - {cid}\<rparr> else s)"
    proof -
      have rs: "rqCharge r = cid" "rqTask r = sgTask sg" "rqAfter r = AfterCollection" by (simp_all add: r_def)
      have "rqCharge r = [] \<or> rqCharge r \<in> qHeld s \<and> rqAfter r \<noteq> NoAfter" using assms(1) by (simp add: rs)
      from enqueue_step [OF this] assms(3,4) show ?thesis unfolding rs .
    qed
    show ?thesis
    proof (cases "fst (fst (enqueueDownloadWithAfter (sgBoard sg) r s))")
      case True
      then show ?thesis using st by (simp add: sub Let_def flip: r_def)
    next
      case False
      then show ?thesis using refund enqueue_fail [OF False] by (simp add: sub Let_def flip: r_def)
    qed
  qed
qed

lemma reachable_held: "reachable race s \<Longrightarrow> [] \<notin> qHeld s"
proof (induction rule: reachable_induct)
  case (init conc n cat)
  then show ?case by (simp add: empty_sched_def)
next
  case (step s s')
  from step(2,3) show ?case
  proof (induction rule: sched_step.induct)
    case (Enqueue r s board ok reply s1)
    then show ?case using live_enqueue(4) [OF Enqueue(4)] by (simp split: if_splits)
  next
    case (Lend_Take s cand k)
    then show ?case using lend_take_cases [of cand k s] by auto
  next
    case (Stop steal s now us issuer t)
    then show ?case using stop_cases [of now us issuer t steal s] by (auto simp: cancel_run_def frame_simps)
  next
    case (Stop_All steal order s syncDB up)
    then show ?case using stop_all_state [of syncDB up order steal s] by (auto simp: frame_simps)
  qed (auto simp: frame_simps)
qed

lemma reachable_steps: "reachable race s \<Longrightarrow> (sched_step race)\<^sup>*\<^sup>* s s' \<Longrightarrow> reachable race s'"
  unfolding reachable_def by (meson rtranclp_trans)

lemma admit_cases:
  assumes "admit sg su kind s = ((cid, ok), sent, s1)" "new_id (sgCharge sg) (qLedger s)"
  shows "s1 = s \<and> (ok \<longrightarrow> cid = []) \<or>
    ok \<and> cid = sgCharge sg \<and> sched_step race s (s1\<lparr>qHeld := insert cid (qHeld s)\<rparr>) \<and> qHeld s1 = qHeld s \<and> task_ids s1 = task_ids s"
proof (cases "isRestrictedMember (sgUsers sg) (suUser su) (suName su)")
  case False
  then show ?thesis using assms(1) by (auto simp: admit_def admitRestricted_def)
next
  case True
  obtain c ok' q where q: "quotaCheckAndCharge (sgCharge sg) (sgNow sg) (sgUpCharge sg) (sgUsers sg) (suUser su) (suName su) kind (qLedger s)
      = ((c, ok'), q)" by (metis prod.collapse)
  have u: "suUser su \<noteq> 0" using True by (simp add: isRestrictedMember_def split: if_splits)
  have c: "ok' \<longrightarrow> c = sgCharge sg" "\<not> ok' \<longrightarrow> q = qLedger s"
    using q u by (auto simp: quotaCheckAndCharge_def Let_def split: if_splits)
  from sched_step.Admit [OF assms(2) q, of race]
  have st: "ok' \<Longrightarrow> sched_step race s (s\<lparr>qLedger := q, qHeld := insert c (qHeld s)\<rparr>)"
    using c(1) assms(2) by (simp add: new_id_def)
  show ?thesis
    using assms(1) True q st c by (cases ok') (auto simp: admit_def admitRestricted_def)
qed

lemma submit_album_steps:
  assumes "reachable race s" "new_id (sgCharge sg) (qLedger s)" "sgCharge sg \<notin> qHeld s" "sgTask sg \<noteq> []" "sgTask sg \<notin> task_ids s"
    and "admit sg su kind s = ((cid, True), sent, s1)"
  shows "reachable race (snd (submit_collection sg su k c fn cid s1))"
proof -
  have h: "[] \<notin> qHeld s" by (rule reachable_held [OF assms(1)])
  from admit_cases [OF assms(6,2), of race] consider (free) "s1 = s" "cid = []"
    | (charged) "cid = sgCharge sg" "sched_step race s (s1\<lparr>qHeld := insert cid (qHeld s)\<rparr>)" "qHeld s1 = qHeld s" "task_ids s1 = task_ids s"
    by blast
  then show ?thesis
  proof cases
    case free
    have "(sched_step race)\<^sup>*\<^sup>* s ((snd (submit_collection sg su k c fn [] s))\<lparr>qHeld := qHeld s - {[]}\<rparr>)"
      by (rule submit_steps) (use h assms in simp_all)
    moreover have "(snd (submit_collection sg su k c fn [] s))\<lparr>qHeld := qHeld s - {[]}\<rparr> = snd (submit_collection sg su k c fn [] s)"
      using arg_cong [OF submit_held [of sg su k c fn "[]" "qHeld s" s], of snd] h by simp
    ultimately show ?thesis using reachable_steps [OF assms(1)] free by simp
  next
    case charged
    let ?s = "s1\<lparr>qHeld := insert cid (qHeld s)\<rparr>"
    have "(sched_step race)\<^sup>*\<^sup>* ?s ((snd (submit_collection sg su k c fn cid ?s))\<lparr>qHeld := qHeld ?s - {cid}\<rparr>)"
      by (rule submit_steps) (use h assms charged in \<open>auto simp: new_id_def\<close>)
    moreover have "qHeld ?s - {cid} = qHeld s" using charged(1) assms(3) by simp
    moreover have "(snd (submit_collection sg su k c fn cid ?s))\<lparr>qHeld := qHeld s\<rparr> = snd (submit_collection sg su k c fn cid s1)"
    proof -
      have "s1\<lparr>qHeld := qHeld s\<rparr> = s1" unfolding charged(3) [symmetric] by simp
      then have same: "snd (submit_collection sg su k c fn cid s1) = (snd (submit_collection sg su k c fn cid s1))\<lparr>qHeld := qHeld s\<rparr>"
        using arg_cong [OF submit_held [of sg su k c fn cid "qHeld s" s1], of snd] by (simp only: snd_conv)
      have "snd (submit_collection sg su k c fn cid ?s) = (snd (submit_collection sg su k c fn cid s1))\<lparr>qHeld := insert cid (qHeld s)\<rparr>"
        by (simp only: submit_held snd_conv)
      then have "(snd (submit_collection sg su k c fn cid ?s))\<lparr>qHeld := qHeld s\<rparr> =
          (snd (submit_collection sg su k c fn cid s1))\<lparr>qHeld := qHeld s\<rparr>" by simp
      with same show ?thesis by (simp only:)
    qed
    ultimately have "(sched_step race)\<^sup>*\<^sup>* ?s (snd (submit_collection sg su k c fn cid s1))" by simp
    then show ?thesis using reachable_steps reachable_step [OF assms(1) charged(2)] by blast
  qed
qed

text \<open>
  C3: A submission refines the scheduler: whatever it meets (no slot, a link that is still live,
  the catalog, a full queue), \<^verbatim>\<open>enqueueAlbumDownload\<close> and \<^verbatim>\<open>enqueuePlaylistDownload\<close> take a
  reachable state to a reachable state, so every invariant of the queue, the counts and the
  charges holds after them; a scheduled job's charge leaves the jobs with it.
\<close>

theorem submission_refines_scheduler:
  assumes "reachable race s" "new_id (sgCharge sg) (qLedger s)" "sgCharge sg \<notin> qHeld s"
    and "sgTask sg \<noteq> []" "sgTask sg \<notin> task_ids s" "i \<noteq> []"
  shows "reachable race (snd (enqueueAlbumDownload sg su i s)) \<and>
         reachable race (snd (enqueuePlaylistDownload sg su i [] s)) \<and>
         (\<forall>cid\<in>qHeld s. reachable race ((snd (enqueuePlaylistDownload sg su i cid s))\<lparr>qHeld := qHeld s - {cid}\<rparr>))"
proof -
  note S = submit_album_steps [OF assms(1-5)]
  have *: "reachable race (snd (case admit sg su k s of ((_, False), sent, s1) \<Rightarrow> (NoSlots sent, s1)
      | ((cid, True), _, s1) \<Rightarrow> submit_collection sg su k i fn cid s1))" for k fn
  proof -
    obtain cid ok sent s1 where a: "admit sg su k s = ((cid, ok), sent, s1)" by (metis prod.collapse)
    show ?thesis using admit_cases [OF a assms(2), of race] S a assms(1) by (cases ok) auto
  qed
  have h: "[] \<notin> qHeld s" by (rule reachable_held [OF assms(1)])
  have "reachable race ((snd (enqueuePlaylistDownload sg su i cid s))\<lparr>qHeld := qHeld s - {cid}\<rparr>)" if "cid \<in> qHeld s" for cid
  proof -
    have "cid \<noteq> []" using that h by blast
    moreover have "(sched_step race)\<^sup>*\<^sup>* s ((snd (submit_collection sg su ''playlist'' i (RipPlaylist i) cid s))\<lparr>qHeld := qHeld s - {cid}\<rparr>)"
      by (rule submit_steps) (use that h assms in simp_all)
    ultimately show ?thesis using reachable_steps [OF assms(1)] assms(6) by (simp add: enqueuePlaylistDownload_def)
  qed
  with * assms(6) show ?thesis by (simp add: enqueueAlbumDownload_def enqueuePlaylistDownload_def)
qed

definition plain_submission :: submission where
  "plain_submission = \<lparr>suChat = 5, suUser = 7, suName = [], suReplyTo = 0, suStatusMsg = 0,
     suMode = transferModeTelegramIndividual, suForceAAC = False, suForceAtmos = True, suForceFlac = False, suNoCache = False\<rparr>"

text \<open>Restriction mode on, an enabled and empty catalog, a ready pool.\<close>

definition restricted_day :: surroundings where
  "restricted_day = \<lparr>sgCharge = ''c9'', sgTask = ''t9'', sgNow = 0, sgUpCharge = True, sgUpLookup = True,
     sgUsers = plain_users\<lparr>uRestriction := True\<rparr>, sgBoard = (\<lambda>_. False), sgFormat = (\<lambda>_. ''alac''), sgPoolReady = True\<rparr>"

theorem submission_refines_scheduler_witness:
  "reachable True (snd (enqueueAlbumDownload restricted_day plain_submission ''9'' one_charged))"
proof -
  have n: "new_id (sgCharge restricted_day) (qLedger one_charged)"
    by (simp add: new_id_def restricted_day_def one_charged_def quotaCheckAndCharge_def plain_users_def no_users_def
        ripLimit_def isRestricted_def isUserDonor_def heavyRipLimit_def no_charges_def Let_def insert_charge_def)
  show ?thesis
    using submission_refines_scheduler [OF one_charged_reachable n, of "''9''"]
    by (simp add: restricted_day_def one_charged_def task_ids_def live_def pending_def empty_sched_def)
qed

subsection \<open>What the handlers promise, and where they do not keep it\<close>

lemma insert_charge_enabled:
  "lgCat q = Some c \<Longrightarrow> cEnabled c \<Longrightarrow> \<exists>c'. lgCat (insert_charge up i u k d q) = Some c' \<and> cEnabled c'"
  by (auto simp: insert_charge_def QuotaInsertCharge_def split: sum.splits if_splits)

text \<open>
  A full queue costs a slot and delivers nothing.  While restriction mode is on, a member's
  album for track-by-track delivery that reaches \<^verbatim>\<open>catalogServeCollection\<close> with the queue full is
  reported as served: nothing is enqueued, and the charge is committed, so the slot is gone.
\<close>

theorem full_queue_takes_slot:
  assumes "isRestrictedMember (sgUsers sg) (suUser su) (suName su)" "new_id (sgCharge sg) (qLedger s)"
    and "day = quotaDay (sgNow sg)" "cget (lgUsage (qLedger s)) (suUser su, day, ''album'') < memberAlbumsPerDay"
    and "lgCat (qLedger s) = Some c" "cEnabled c" "sgPoolReady sg"
    and "suMode su = transferModeTelegramIndividual" "\<not> suNoCache su"
    and "gofileDedupVariant (resolveFormat (sgFormat sg) (suChat su) (suForceFlac su)) (suForceAAC su) (suForceAtmos su) \<noteq> []"
    and "qCap s \<le> length (qChan s)" "albumID \<noteq> []" "enqueueAlbumDownload sg su albumID s = (reply, s')"
  shows "reply = ServedByCatalog \<and> qChan s' = qChan s \<and> qTasks s' = qTasks s \<and>
    cget (lgUsage (qLedger s')) (suUser su, day, ''album'') = cget (lgUsage (qLedger s)) (suUser su, day, ''album'') + 1 \<and>
    (\<exists>ch. lgCharges (qLedger s') (sgCharge sg) = Some ch \<and> chState ch = quotaCommitted)"
proof -
  let ?u = "suUser su" and ?k = "(suUser su, day, ''album'')" and ?gid = "sgCharge sg"
  let ?ch = "\<lparr>chUser = ?u, chKind = ''album'', chDay = day, chState = quotaOpen\<rparr>"
  have u: "?u \<noteq> 0" "ripLimit (sgUsers sg) ''album'' (isUserDonor (sgUsers sg) ?u (suName su)) = memberAlbumsPerDay"
    using assms(1) by (auto simp: isRestrictedMember_def ripLimit_def split: if_splits)
  let ?q1 = "insert_charge (sgUpCharge sg) ?gid ?u ''album'' day ((qLedger s)\<lparr>lgUsage := cadd (lgUsage (qLedger s)) ?k 1,
      lgCharges := (lgCharges (qLedger s))(?gid \<mapsto> ?ch)\<rparr>)"
  let ?s1 = "s\<lparr>qLedger := ?q1\<rparr>"
  have a: "admit sg su ''album'' s = ((?gid, True), [], ?s1)"
    using assms(1,3,4) u by (simp add: admit_def admitRestricted_def quotaCheckAndCharge_def Let_def)
  have "\<exists>c'. lgCat ?q1 = Some c' \<and> cEnabled c'"
    by (rule insert_charge_enabled [where c = c]) (use assms(5,6) in simp_all)
  then obtain c' where c': "lgCat ?q1 = Some c'" "cEnabled c'" by blast
  let ?f = "resolveFormat (sgFormat sg) (suChat su) (suForceFlac su)"
  have serve: "catalogServeCollection sg su ''album'' albumID ?f ?s1 = (True, ?s1)"
    using assms(7-11) c' by (simp add: catalogServeCollection_def gofileDedupVariant_def Let_def enqueueDownloadWithAfter_def)
  have mode: "transferModeTelegramIndividual \<noteq> transferModeGofileZip"
    by (simp add: transferModeTelegramIndividual_def transferModeGofileZip_def)
  have r: "reply = ServedByCatalog" "s' = ?s1\<lparr>qLedger := quotaCommit ?gid 0 ?q1\<rparr>"
    using assms(8,12,13) a serve mode by (simp_all add: enqueueAlbumDownload_def submit_collection_def Let_def)
  have gid: "?gid \<noteq> []" using assms(2) by (simp add: new_id_def)
  have "settle ?gid quotaCommitted ?q1 = Some (?q1\<lparr>lgCharges := (lgCharges ?q1)(?gid \<mapsto> ?ch\<lparr>chState := quotaCommitted\<rparr>)\<rparr>)"
    using gid by (simp add: settle_def frame_simps)
  then show ?thesis by (simp add: r quotaCommit_def quotaSetState_state frame_simps)
qed

definition full_queue :: sched where
  "full_queue = (empty_sched True 0 (no_charges (Some empty_catalog)))"

theorem full_queue_takes_slot_witness:
  "fst (enqueueAlbumDownload restricted_day plain_submission ''9'' full_queue) = ServedByCatalog \<and>
   qChan (snd (enqueueAlbumDownload restricted_day plain_submission ''9'' full_queue)) = []"
proof -
  have m: "isRestrictedMember (sgUsers restricted_day) (suUser plain_submission) (suName plain_submission)"
    by (simp add: isRestrictedMember_def restricted_day_def plain_submission_def plain_users_def no_users_def isAdmin_def
        isRestricted_def isUserDonor_def)
  have n: "new_id (sgCharge restricted_day) (qLedger full_queue)"
    by (simp add: new_id_def restricted_day_def full_queue_def empty_sched_def no_charges_def empty_catalog_def)
  have v: "gofileDedupVariant (resolveFormat (sgFormat restricted_day) (suChat plain_submission) (suForceFlac plain_submission))
      (suForceAAC plain_submission) (suForceAtmos plain_submission) \<noteq> []"
  proof -
    have "token ''atmos''" by (simp add: token_def)
    then have "trim_space ''atmos'' = ''atmos''" by (simp add: trim_space_trimmed token_trimmed)
    then show ?thesis
      by (simp add: gofileDedupVariant_def effectiveCatalogFormat_def plain_submission_def VariantKey_def QualityTier_def
          zero_meta_def to_lower_def lower_byte_def Let_def)
  qed
  show ?thesis
    using full_queue_takes_slot [OF m n refl _ _ _ _ _ _ v _ _ prod.collapse [symmetric], of empty_catalog "''9''"]
    by (simp add: full_queue_def empty_sched_def no_charges_def memberAlbumsPerDay_def empty_catalog_def restricted_day_def plain_submission_def)
qed

text \<open>
  A rip that never began is charged.  When \<^verbatim>\<open>runDownload\<close> returns before it calls the rip (ffmpeg
  is missing, the status message cannot be created), the closing step of an album or a playlist
  sees no error and commits the slot; that of an artist, which counts ripped releases, returns it.
\<close>

theorem unrun_collection_commits:
  assumes "ledger_ok q" "lgCharges q (rqCharge (rnReq n)) = Some c" "chState c = quotaOpen" "\<not> oRan out"
    and "q' = run_after out n q"
  shows "(rqAfter (rnReq n) = AfterCollection \<longrightarrow>
            lgCharges q' (rqCharge (rnReq n)) = Some (c\<lparr>chState := quotaCommitted\<rparr>) \<and> lgUsage q' = lgUsage q) \<and>
         (\<forall>total perRelease. rqAfter (rnReq n) = AfterArtist total perRelease \<longrightarrow>
            lgCharges q' (rqCharge (rnReq n)) = Some (c\<lparr>chState := quotaRefunded\<rparr>) \<and>
            cget (lgUsage q') (charge_key c) = cget (lgUsage q) (charge_key c) - 1)"
proof -
  let ?i = "rqCharge (rnReq n)"
  have i: "?i \<noteq> []" using assms(1,2) by (auto simp: ledger_ok_def)
  have ok: "open_key q ?i = Some (charge_key c)" using assms(2,3) by (simp add: open_key_def)
  have st: "lgCharges (quotaSetState True ?i st d False q) ?i = Some (c\<lparr>chState := st\<rparr>)" for st d
    using assms(2,3) i by (simp add: quotaSetState_state settle_def Let_def)
  have us: "lgUsage (quotaSetState True ?i quotaCommitted d False q) = lgUsage q" for d
    using assms(2,3) i by (simp add: quotaSetState_state settle_def Let_def)
  have rf: "cget (lgUsage (quotaSetState True ?i quotaRefunded d False q)) (charge_key c) = cget (lgUsage q) (charge_key c) - 1" for d
    using used_settle [OF assms(1), of quotaRefunded True ?i d False "charge_key c"] ok by simp
  show ?thesis
    using assms(4) i st us rf
    by (auto simp: assms(5) run_after_def Let_def finalizeHeavyQuota_def quotaCommit_def quotaRefund_def)
qed

theorem unrun_collection_commits_witness:
  "lgUsage (run_after \<lparr>oRan = False, oOk = False\<rparr>
      \<lparr>rnReq = album_request ''t1'' 7 ''a1'', rnRole = Head, rnRip = None, rnCancelled = True, rnDone = False, rnSettled = False\<rparr> two_charges)
   = lgUsage two_charges"
proof -
  let ?n = "\<lparr>rnReq = album_request ''t1'' 7 ''a1'', rnRole = Head, rnRip = None, rnCancelled = True, rnDone = False, rnSettled = False\<rparr>"
  have c: "lgCharges two_charges (rqCharge (rnReq ?n)) = Some \<lparr>chUser = 7, chKind = ''artist'', chDay = 0, chState = quotaOpen\<rparr>"
    by (simp add: two_charges_def album_request_def)
  show ?thesis
    using unrun_collection_commits [OF two_charges_ok c _ _ refl, of "\<lparr>oRan = False, oOk = False\<rparr>"] by (simp add: album_request_def)
qed


definition five_cached :: catalog where
  "five_cached = empty_catalog\<lparr>cTracks := [row_of 5 1 7 (stored_meta (sample_meta\<lparr>mAppleTrackID := 5\<rparr>)) [] []]\<rparr>"

lemma five_cached_plan:
  "ripCollectionWithCatalog (\<lambda>_. True) (\<lambda>_. False) five_cached (Some [''5'', ''6'']) ''v1|q=lossless'' =
     GapRip [\<lparr>dtTrackID = ''5'', dtDumpID = 1, dtMsgID = 7\<rparr>, \<lparr>dtTrackID = ''6'', dtDumpID = 0, dtMsgID = 0\<rparr>] [''6'']"
proof -
  have n: "atoi64 ''5'' = 5" "atoi64 ''6'' = 6" by code_simp+
  let ?h = "\<lparr>hDump = 1, hMsg = 7, hMeta = stored_meta (sample_meta\<lparr>mAppleTrackID := 5\<rparr>)\<rparr>"
  have "Lookup True five_cached KindTrack 5 [] ''v1|q=lossless'' = Inr (Some ?h)"
    "Lookup True five_cached KindTrack 6 [] ''v1|q=lossless'' = Inr None"
    by (simp_all add: Lookup_def queryOne_def five_cached_def empty_catalog_def KindTrack_def Let_def)
      (simp_all add: row_of_def scanHit_def sample_meta_def stored_meta_def nullI64_def zero_meta_def coalesce_def nullStr_def)
  then show ?thesis by (simp add: ripCollectionWithCatalog_def plan_track_def n Let_def)
qed


end
