(* ===== verification/Sleep_Jobs.thy ===== *)
theory Sleep_Jobs
  imports Submission
begin

section \<open>Jobs deferred to the sleeptime window\<close>

text \<open>
  The scheduler of \<^verbatim>\<open>bot/admin_tasks.go\<close>: heavy rips of non-admins wait for the window
  02:30--06:00 Dhaka (\<^verbatim>\<open>scheduleOrRun\<close>), a ticker takes the due ones off the persisted list and
  releases them one at a time (\<^verbatim>\<open>releaseDueJobs\<close>, \<^verbatim>\<open>releaseJob\<close>, the artist fan-out), and
  \<^verbatim>\<open>/cancel_<id>\<close> withdraws one.  Times are unix seconds: every boundary the code compares with is
  a whole second, so the fraction of \<^verbatim>\<open>time.Now()\<close> never decides.
\<close>

subsection \<open>The clock\<close>

definition sleepWindowStartMin :: int where "sleepWindowStartMin = 2 * 60 + 30"
definition sleepWindowEndMin :: int where "sleepWindowEndMin = 6 * 60"

definition local_minute :: "unix_sec \<Rightarrow> int" where
  "local_minute t = ((t + dhaka_offset) mod 86400) div 60"

definition inSleepWindow :: "unix_sec \<Rightarrow> bool" where
  "inSleepWindow t = (sleepWindowStartMin \<le> local_minute t \<and> local_minute t < sleepWindowEndMin)"

text \<open>\<^verbatim>\<open>time.Date\<close> on the local day of \<open>t\<close>, in a zone without DST.\<close>

definition date_at :: "unix_sec \<Rightarrow> int \<Rightarrow> int \<Rightarrow> unix_sec" where
  "date_at t hour mins = (t + dhaka_offset) div 86400 * 86400 + hour * 3600 + mins * 60 - dhaka_offset"

definition nextWindowStart :: "unix_sec \<Rightarrow> unix_sec" where
  "nextWindowStart t = (let start = date_at t 2 30 in if \<not> t < start then start + 86400 else start)"

definition nextDailyAt :: "unix_sec \<Rightarrow> int \<Rightarrow> int \<Rightarrow> unix_sec" where
  "nextDailyAt t hour mins = (let next = date_at t hour mins in if \<not> t < next then next + 86400 else next)"

subsection \<open>The list of jobs\<close>

definition scheduleJob :: "scheduled_job \<Rightarrow> bool \<Rightarrow> users \<Rightarrow> users" where
  "scheduleJob j donor us =
     us\<lparr>uJobs := (if donor \<and> uJobs us \<noteq> []
                  then let i = length (uJobs us) - 1 in take i (uJobs us) @ [j] @ drop i (uJobs us)
                  else uJobs us @ [j])\<rparr>"

definition take_due :: "unix_sec \<Rightarrow> users \<Rightarrow> scheduled_job list \<times> users" where
  "take_due now us =
     (let due = filter (\<lambda>j. \<not> now < jReleaseAtUnix j) (uJobs us);
          remaining = filter (\<lambda>j. now < jReleaseAtUnix j) (uJobs us)
      in (due, if due \<noteq> [] then us\<lparr>uJobs := remaining\<rparr> else us))"

datatype cancel_reply = NoSuchJob | NotYours | JobCancelled

fun find_job :: "string \<Rightarrow> nat \<Rightarrow> scheduled_job list \<Rightarrow> (nat \<times> scheduled_job) option" where
  "find_job i k [] = None"
| "find_job i k (j # js) = (if jID j = i then Some (k, j) else find_job i (Suc k) js)"

definition cancelScheduledJob :: "unix_sec \<Rightarrow> user_id \<Rightarrow> string \<Rightarrow> users \<times> sched \<Rightarrow> cancel_reply \<times> users \<times> sched" where
  "cancelScheduledJob now userID jobID st =
     (case st of (us, s) \<Rightarrow>
      (case find_job jobID 0 (uJobs us) of
         None \<Rightarrow> (NoSuchJob, us, s)
       | Some (idx, job) \<Rightarrow>
           if jUserID job \<noteq> userID \<and> \<not> isAdmin us userID then (NotYours, us, s)
           else (JobCancelled,
                 bumpStats now userID count_cancel (us\<lparr>uJobs := take idx (uJobs us) @ drop (idx + 1) (uJobs us)\<rparr>),
                 s\<lparr>qLedger := quotaRefund (jQuotaChargeID job) 0 (qLedger s)\<rparr>)))"

subsection \<open>The artist fan-out\<close>

record artist_scope =
  asKey :: string
  asPath :: string
  asLabel :: string
  asMV :: bool

definition artistScopeFor :: "string \<Rightarrow> artist_scope \<times> bool" where
  "artistScopeFor key =
     (if key \<in> {'''', ''all'', ''albums''} then (\<lparr>asKey = ''all'', asPath = ''albums'', asLabel = ''entire discography'', asMV = False\<rparr>, True)
      else if key = ''full-albums'' then (\<lparr>asKey = key, asPath = ''view/full-albums'', asLabel = ''full albums'', asMV = False\<rparr>, True)
      else if key = ''singles'' then (\<lparr>asKey = key, asPath = ''view/singles'', asLabel = ''singles & EPs'', asMV = False\<rparr>, True)
      else if key = ''music-videos'' then (\<lparr>asKey = key, asPath = ''music-videos'', asLabel = ''music videos'', asMV = True\<rparr>, True)
      else (\<lparr>asKey = [], asPath = [], asLabel = [], asMV = False\<rparr>, False))"

record section_item =
  siID :: string
  siName :: string

text \<open>
  Apple's catalog, as asked: the items of a section (an error is \<open>None\<close>) and an artist's name;
  the configured storefront.  \<open>apIDs\<close> are the task ids generated for the music videos.
\<close>

record apple =
  apSection :: "string \<Rightarrow> string \<Rightarrow> string \<Rightarrow> section_item list option"
  apName :: "string \<Rightarrow> string \<Rightarrow> string"
  apStorefront :: string
  apIDs :: "nat \<Rightarrow> string"

datatype artist_reply =
    SectionFailed string
  | SectionEmpty string
  | MvQueued nat
  | ArtistQueued string nat bool
  | ArtistQueueFull

definition mv_request :: "string \<Rightarrow> submission \<Rightarrow> request" where
  "mv_request t su = (make_request t su [] [] RipOther NoAfter [] None)\<lparr>rqName := [], rqSingle := True, rqForceAtmos := False\<rparr>"

text \<open>The count goes up whether or not the queue took the video, as in the code.\<close>

fun runArtistMusicVideos ::
  "(chat_id \<Rightarrow> bool) \<Rightarrow> (nat \<Rightarrow> string) \<Rightarrow> submission \<Rightarrow> section_item list \<Rightarrow> nat \<Rightarrow> sched \<Rightarrow> nat \<times> sched" where
  "runArtistMusicVideos board ids su [] queued s = (queued, s)"
| "runArtistMusicVideos board ids su (mv # mvs) queued s =
     (if siID mv = [] then runArtistMusicVideos board ids su mvs queued s
      else runArtistMusicVideos board ids su mvs (queued + 1)
             (snd (enqueueDownloadWithAfter board (mv_request (ids queued) su) s)))"

definition runArtistRip ::
  "surroundings \<Rightarrow> apple \<Rightarrow> submission \<Rightarrow> string \<Rightarrow> string \<Rightarrow> string \<Rightarrow> section_item list \<Rightarrow> string \<Rightarrow> bool \<Rightarrow> string \<Rightarrow>
   sched \<Rightarrow> artist_reply \<times> sched" where
  "runArtistRip sg ap su storefront artistID section albums label perRelease cid s =
     (let format = resolveFormat (sgFormat sg) (suChat su) (suForceFlac su);
          dedup = newGofileDedupInfo ''artist'' (artistDedupID artistID section) format (apName ap storefront artistID)
                    (suForceAAC su) (suForceAtmos su) (suUser su);
          r = make_request (sgTask sg) su format (''artist:'' @ artistID) (RipArtist artistID)
                (AfterArtist (int (length albums)) perRelease) cid dedup
      in case enqueueDownloadWithAfter (sgBoard sg) r s of
           ((True, _), s1) \<Rightarrow> (ArtistQueued label (length albums) perRelease, s1)
         | ((False, _), s1) \<Rightarrow> (ArtistQueueFull, s1\<lparr>qLedger := quotaRefund cid 0 (qLedger s1)\<rparr>))"

definition runArtistRipScoped ::
  "surroundings \<Rightarrow> apple \<Rightarrow> submission \<Rightarrow> string \<Rightarrow> string \<Rightarrow> string \<Rightarrow> string \<Rightarrow> sched \<Rightarrow> artist_reply \<times> sched" where
  "runArtistRipScoped sg ap su storefront0 artistID sectionKey cid s =
     (let storefront = (if storefront0 = [] then apStorefront ap else storefront0);
          scope = (case artistScopeFor sectionKey of (sc, True) \<Rightarrow> sc | (_, False) \<Rightarrow> fst (artistScopeFor ''all''));
          refunded = s\<lparr>qLedger := quotaRefund cid 0 (qLedger s)\<rparr>
      in case apSection ap storefront artistID (asPath scope) of
           None \<Rightarrow> (SectionFailed (asLabel scope), refunded)
         | Some items \<Rightarrow>
             if items = [] then (SectionEmpty (asLabel scope), refunded)
             else if asMV scope then
               (case runArtistMusicVideos (sgBoard sg) (apIDs ap) (su\<lparr>suMode := transferModeMvGofile, suNoCache := False, suStatusMsg := 0\<rparr>)
                       items 0 refunded of (n, s1) \<Rightarrow> (MvQueued n, s1))
             else let perRelease = (\<not> (suUser su \<noteq> 0 \<and> pArtistZip (getPrefs (sgUsers sg) (suUser su)) = ''combined''))
                  in runArtistRip sg ap su storefront artistID sectionKey items (asLabel scope) perRelease cid s)"

subsection \<open>Submitting, deferring and releasing\<close>

definition job_submission :: "scheduled_job \<Rightarrow> submission" where
  "job_submission j =
     \<lparr>suChat = jChatID j, suUser = jUserID j, suName = jUsername j, suReplyTo = jReplyToID j, suStatusMsg = 0,
      suMode = transferModeGofileZip, suForceAAC = jForceAAC j, suForceAtmos = jForceAtmos j, suForceFlac = jForceFlac j,
      suNoCache = False\<rparr>"

datatype release_reply = ReleasedPlaylist submit_reply | ReleasedArtist artist_reply | UnknownKind

definition releaseJob :: "surroundings \<Rightarrow> apple \<Rightarrow> scheduled_job \<Rightarrow> sched \<Rightarrow> release_reply \<times> sched" where
  "releaseJob sg ap j s =
     (if jKind j = ''playlist'' then
        (case enqueuePlaylistDownload sg (job_submission j) (jResourceID j) (jQuotaChargeID j) s of
           (reply, s1) \<Rightarrow> (ReleasedPlaylist reply, s1))
      else if jKind j = ''artist'' then
        (case runArtistRipScoped sg ap (job_submission j) (jStorefront j) (jResourceID j) (jSection j) (jQuotaChargeID j) s of
           (reply, s1) \<Rightarrow> (ReleasedArtist reply, s1))
      else (UnknownKind, s))"

text \<open>A run of \<^verbatim>\<open>releaseDueJobs\<close>; \<open>sgs\<close> gives what surrounds the release of each job.\<close>

fun release_all :: "(scheduled_job \<Rightarrow> surroundings) \<Rightarrow> apple \<Rightarrow> scheduled_job list \<Rightarrow> sched \<Rightarrow> sched" where
  "release_all sgs ap [] s = s"
| "release_all sgs ap (j # js) s = release_all sgs ap js (snd (releaseJob (sgs j) ap j s))"

definition releaseDueJobs ::
  "(scheduled_job \<Rightarrow> surroundings) \<Rightarrow> apple \<Rightarrow> unix_sec \<Rightarrow> users \<times> sched \<Rightarrow> scheduled_job list \<times> users \<times> sched" where
  "releaseDueJobs sgs ap now st =
     (case st of (us, s) \<Rightarrow> (case take_due now us of (due, us1) \<Rightarrow> (due, us1, release_all sgs ap due s)))"

datatype sleep_reply =
    SleepDuplicate "(string \<times> string) option"
  | SleepLimit int
  | SleepReleased release_reply
  | SleepDeferred string unix_sec

text \<open>\<open>sgTask\<close> is the id generated, for the job when it is deferred and for its task when it is not.\<close>

definition scheduleOrRun ::
  "surroundings \<Rightarrow> apple \<Rightarrow> scheduled_job \<Rightarrow> users \<times> sched \<Rightarrow> sleep_reply \<times> users \<times> sched" where
  "scheduleOrRun sg ap j st =
     (case st of (us, s) \<Rightarrow>
      (let now = sgNow sg;
           donor = isUserDonor us (jUserID j) (jUsername j);
           limit = ripLimit us (jKind j) donor;
           variant = gofileDedupVariant (resolveFormat (sgFormat sg) (jChatID j) (jForceFlac j)) (jForceAAC j) (jForceAtmos j);
           dedupID = (if jKind j = ''artist'' then artistDedupID (jResourceID j) (jSection j) else jResourceID j);
           dup = checkGofileDedup (sgUpLookup sg) now (lgCat (qLedger s)) (jKind j) dedupID variant
       in if fst dup then (SleepDuplicate (snd dup), us, s)
          else case quotaCheckAndCharge (sgCharge sg) now (sgUpCharge sg) us (jUserID j) (jUsername j) (jKind j) (qLedger s) of
                 ((_, False), _) \<Rightarrow> (SleepLimit limit, us, s)
               | ((cid, True), q) \<Rightarrow>
                   (let s1 = s\<lparr>qLedger := q\<rparr>; j1 = j\<lparr>jQuotaChargeID := cid\<rparr>
                    in if inSleepWindow now then
                         (case releaseJob sg ap j1 s1 of (reply, s2) \<Rightarrow> (SleepReleased reply, us, s2))
                       else let j2 = j1\<lparr>jID := sgTask sg, jReleaseAtUnix := nextWindowStart now, jCreatedAtUnix := now\<rparr>
                            in (SleepDeferred cid (nextWindowStart now), scheduleJob j2 donor us, s1))))"

datatype playlist_reply =
    SizeUnknown
  | PlaylistDenied "string list"
  | PlaylistPrompted
  | PlaylistSubmitted submit_reply
  | PlaylistHeavy sleep_reply

definition dispatchPlaylistNormal :: "surroundings \<Rightarrow> submission \<Rightarrow> string \<Rightarrow> string \<Rightarrow> sched \<Rightarrow> playlist_reply \<times> sched" where
  "dispatchPlaylistNormal sg su playlistID headlessMode s =
     (if headlessMode \<noteq> [] then
        (case enqueuePlaylistDownload sg (su\<lparr>suMode := headlessMode, suStatusMsg := 0\<rparr>) playlistID [] s of
           (reply, s1) \<Rightarrow> (PlaylistSubmitted reply, s1))
      else (PlaylistPrompted, s))"

text \<open>\<open>tracks\<close> is the track count Apple answers, \<open>None\<close> when it answers none.\<close>

definition routePlaylistNonAdmin ::
  "surroundings \<Rightarrow> apple \<Rightarrow> nat option \<Rightarrow> submission \<Rightarrow> string \<Rightarrow> string \<Rightarrow> string \<Rightarrow> string \<Rightarrow> users \<times> sched \<Rightarrow>
   playlist_reply \<times> users \<times> sched" where
  "routePlaylistNonAdmin sg ap tracks su storefront playlistID link headlessMode st =
     (case st of (us, s) \<Rightarrow>
      (let normal = (case dispatchPlaylistNormal sg su playlistID headlessMode s of (reply, s1) \<Rightarrow> (reply, us, s1))
       in case tracks of
            None \<Rightarrow> if isRestrictedMember us (suUser su) (suName su) then (SizeUnknown, us, s) else normal
          | Some n \<Rightarrow>
              if playlistSleeptimeThreshold < int n then
                (case denyIfRestrictedMember us (suUser su) (suName su) ''Playlists over 100 tracks'' of
                   (True, sent) \<Rightarrow> (PlaylistDenied sent, us, s)
                 | (False, _) \<Rightarrow>
                     (case scheduleOrRun sg ap
                         \<lparr>jID = [], jKind = ''playlist'', jSection = [], jChatID = suChat su, jUserID = suUser su,
                          jUsername = suName su, jReplyToID = suReplyTo su, jLink = link, jStorefront = storefront,
                          jResourceID = playlistID, jForceAAC = suForceAAC su, jForceAtmos = suForceAtmos su,
                          jForceFlac = suForceFlac su, jReleaseAtUnix = 0, jCreatedAtUnix = 0, jQuotaChargeID = []\<rparr> (us, s) of
                        (reply, us1, s1) \<Rightarrow> (PlaylistHeavy reply, us1, s1)))
              else normal))"


subsection \<open>The clock's laws\<close>

lemma date_at_split:
  assumes "0 \<le> h * 3600 + m * 60" "h * 3600 + m * 60 < 86400"
  shows "date_at t h m = t - (t + dhaka_offset) mod 86400 + h * 3600 + m * 60"
    and "(date_at t h m + dhaka_offset) mod 86400 = h * 3600 + m * 60"
proof -
  show "date_at t h m = t - (t + dhaka_offset) mod 86400 + h * 3600 + m * 60"
    unfolding date_at_def by (simp add: minus_mod_eq_div_mult [symmetric])
  have "(date_at t h m + dhaka_offset) mod 86400 = ((t + dhaka_offset) div 86400 * 86400 + (h * 3600 + m * 60)) mod 86400"
    by (simp add: date_at_def algebra_simps)
  also have "\<dots> = (h * 3600 + m * 60) mod 86400" by simp
  also have "\<dots> = h * 3600 + m * 60" using assms by simp
  finally show "(date_at t h m + dhaka_offset) mod 86400 = h * 3600 + m * 60" .
qed

text \<open>The next occurrence of a local time of day: after \<open>t\<close>, within a day, and the first one.\<close>

lemma nextDailyAt_laws:
  assumes "0 \<le> h * 3600 + m * 60" "h * 3600 + m * 60 < 86400"
  shows "t < nextDailyAt t h m" "nextDailyAt t h m \<le> t + 86400"
    "(nextDailyAt t h m + dhaka_offset) mod 86400 = h * 3600 + m * 60"
    "t < u \<Longrightarrow> (u + dhaka_offset) mod 86400 = h * 3600 + m * 60 \<Longrightarrow> nextDailyAt t h m \<le> u"
proof -
  let ?d = "date_at t h m" and ?n = "nextDailyAt t h m" and ?k = "h * 3600 + m * 60"
  note S = date_at_split [OF assms]
  have b: "0 \<le> (t + dhaka_offset) mod 86400" "(t + dhaka_offset) mod 86400 < 86400" by simp_all
  have n: "?n = (if t < ?d then ?d else ?d + 86400)" by (simp add: nextDailyAt_def Let_def)
  show lt: "t < ?n" using S(1) [of t] b assms by (auto simp: n)
  show le: "?n \<le> t + 86400" using S(1) [of t] b assms by (auto simp: n)
  have "?d + 86400 + dhaka_offset = (?d + dhaka_offset) + 86400" by simp
  then have "(?d + 86400 + dhaka_offset) mod 86400 = (?d + dhaka_offset) mod 86400"
    by (simp only: mod_add_self2)
  then show eq: "(?n + dhaka_offset) mod 86400 = ?k" using S(2) by (simp add: n)
  assume u: "t < u" "(u + dhaka_offset) mod 86400 = ?k"
  show "?n \<le> u"
  proof (rule ccontr)
    assume "\<not> ?n \<le> u"
    then have d: "0 < ?n - u" "?n - u < 86400" using u(1) le by auto
    have "(?n + dhaka_offset) mod 86400 = (u + dhaka_offset) mod 86400" using eq u(2) by simp
    then have "86400 dvd (?n + dhaka_offset) - (u + dhaka_offset)" by (rule mod_eq_dvd_iff [THEN iffD1])
    then have "86400 dvd ?n - u" by simp
    then show False using d zdvd_imp_le [of 86400 "?n - u"] by simp
  qed
qed

lemma nextWindowStart_daily: "nextWindowStart t = nextDailyAt t 2 30"
  by (simp add: nextWindowStart_def nextDailyAt_def)

lemma local_minute_of: "(t + dhaka_offset) mod 86400 = k \<Longrightarrow> local_minute t = k div 60"
  by (simp add: local_minute_def)

lemma window_seconds: "inSleepWindow t \<longleftrightarrow> 9000 \<le> (t + dhaka_offset) mod 86400 \<and> (t + dhaka_offset) mod 86400 < 21600"
  unfolding inSleepWindow_def local_minute_def sleepWindowStartMin_def sleepWindowEndMin_def by auto

text \<open>
  The next window is the next one: \<^verbatim>\<open>nextWindowStart\<close> lies strictly after \<open>t\<close> and at most a day
  later, is inside the window, starts it (02:30 local), and no 02:30 lies between; it is
  \<^verbatim>\<open>nextDailyAt(t, 2, 30)\<close>.
\<close>

theorem next_window_bounds:
  assumes "t < u" "(u + dhaka_offset) mod 86400 = 60 * sleepWindowStartMin"
  shows "t < nextWindowStart t \<and> nextWindowStart t \<le> t + 86400 \<and> inSleepWindow (nextWindowStart t) \<and>
    local_minute (nextWindowStart t) = sleepWindowStartMin \<and> nextWindowStart t \<le> u \<and> nextWindowStart t = nextDailyAt t 2 30"
proof -
  note L = nextDailyAt_laws [of 2 30 t, simplified]
  have "(nextDailyAt t 2 30 + dhaka_offset) mod 86400 = 9000" by (rule L(3))
  moreover have "nextDailyAt t 2 30 \<le> u" by (rule L(4) [OF assms(1)]) (use assms(2) in \<open>simp add: sleepWindowStartMin_def\<close>)
  ultimately show ?thesis using L(1,2) local_minute_of [of "nextDailyAt t 2 30" 9000]
    by (simp add: nextWindowStart_daily window_seconds sleepWindowStartMin_def)
qed

theorem next_window_bounds_witness:
  "nextWindowStart 0 = 73800 \<and> inSleepWindow 73800 \<and> nextWindowStart 0 \<le> 73800"
proof -
  have n: "nextWindowStart 0 = 73800" by (simp add: nextWindowStart_def date_at_def dhaka_offset_def)
  show ?thesis using next_window_bounds [of 0 73800] by (simp add: n dhaka_offset_def sleepWindowStartMin_def)
qed

text \<open>
  A night's rips do straddle two quota-days: two jobs deferred two minutes apart, around
  13:00, wait for the same 02:30 and are charged to different days, so a night can release twice a
  user's daily limit.  Rips started inside the window are charged to the day of its start.
\<close>

theorem night_straddles_quota_days:
  assumes "inSleepWindow t"
  shows "quotaDay t = quotaDay (date_at t 2 30) \<and> date_at t 2 30 \<le> t \<and> t < date_at t 6 0 \<and>
    (\<exists>u. \<not> inSleepWindow u \<and> \<not> inSleepWindow (u + 120) \<and> nextWindowStart u = nextWindowStart (u + 120) \<and>
         quotaDay u \<noteq> quotaDay (u + 120))"
proof -
  let ?m = "(t + dhaka_offset) mod 86400" and ?q = "(t + dhaka_offset) div 86400"
  have m: "9000 \<le> ?m" "?m < 21600" using assms by (simp_all add: window_seconds)
  have t: "t + dhaka_offset = ?q * 86400 + ?m" by simp
  have d: "(?q * 86400 + r - 46800) div 86400 = ?q - 1" if "0 \<le> r" "r < 46800" for r :: int
  proof -
    have "?q * 86400 + r - 46800 = (?q - 1) * 86400 + (r + 39600)" by simp
    then show ?thesis using that by simp
  qed
  have "quotaDay t = ?q - 1" using d [of ?m] m t by (simp add: quotaDay_def quotaResetHourDhaka_def)
  moreover have "quotaDay (date_at t 2 30) = ?q - 1" using d [of 9000] by (simp add: quotaDay_def quotaResetHourDhaka_def date_at_def)
  moreover have "date_at t 2 30 \<le> t" "t < date_at t 6 0" using m date_at_split(1) [of 2 30 t] date_at_split(1) [of 6 0 t] by simp_all
  moreover have "\<not> inSleepWindow 25140 \<and> \<not> inSleepWindow (25140 + 120) \<and> nextWindowStart 25140 = nextWindowStart (25140 + 120) \<and>
      quotaDay 25140 \<noteq> quotaDay (25140 + 120)"
    by (simp add: window_seconds nextWindowStart_def date_at_def quotaDay_def quotaResetHourDhaka_def dhaka_offset_def Let_def)
  ultimately show ?thesis by metis
qed

theorem night_straddles_quota_days_witness: "quotaDay 75600 = quotaDay 73800"
proof -
  have "date_at 75600 2 30 = 73800" by (simp add: date_at_def dhaka_offset_def)
  then show ?thesis using night_straddles_quota_days [of 75600] by (simp add: window_seconds dhaka_offset_def)
qed


subsection \<open>The list: donors, due jobs, cancels\<close>

text \<open>
  A donor's job overtakes only the last one waiting.  Donors' jobs keep their own order, and
  everything before the old tail keeps its place; the old tail is passed by every one of them.
\<close>

theorem donors_pass_the_tail:
  assumes "uJobs us = js @ [t]"
  shows "uJobs (fold (\<lambda>j. scheduleJob j True) ds us) = js @ ds @ [t]"
  using assms
proof (induction ds arbitrary: us js)
  case (Cons d ds)
  have "uJobs (scheduleJob d True us) = (js @ [d]) @ [t]" using Cons.prems by (simp add: scheduleJob_def Let_def)
  from Cons.IH [OF this] show ?case by simp
qed simp

definition heavy_playlist :: "string \<Rightarrow> user_id \<Rightarrow> scheduled_job" where
  "heavy_playlist i u = \<lparr>jID = i, jKind = ''playlist'', jSection = [], jChatID = 5, jUserID = u, jUsername = [], jReplyToID = 0,
     jLink = [], jStorefront = [], jResourceID = ''pl.1'', jForceAAC = False, jForceAtmos = False, jForceFlac = False,
     jReleaseAtUnix = 73800, jCreatedAtUnix = 0, jQuotaChargeID = []\<rparr>"

theorem donors_pass_the_tail_witness:
  "map jID (uJobs (fold (\<lambda>j. scheduleJob j True) [heavy_playlist ''d'' 8] (plain_users\<lparr>uJobs := [heavy_playlist ''m'' 7]\<rparr>))) = [''d'', ''m'']"
  using donors_pass_the_tail [of "plain_users\<lparr>uJobs := [heavy_playlist ''m'' 7]\<rparr>" "[]" "heavy_playlist ''m'' 7" "[heavy_playlist ''d'' 8]"]
  by (simp add: heavy_playlist_def)

lemma schedule_mset: "mset (uJobs (scheduleJob j donor us)) = add_mset j (mset (uJobs us))"
  by (cases "uJobs us" rule: rev_cases) (auto simp: scheduleJob_def Let_def)

text \<open>
  \<^verbatim>\<open>startScheduler\<close>: one run on boot and one a tick; \<open>ts\<close> are the instants at which
  \<^verbatim>\<open>releaseDueJobs\<close> reads the clock.
\<close>

fun startScheduler ::
  "(scheduled_job \<Rightarrow> surroundings) \<Rightarrow> apple \<Rightarrow> unix_sec list \<Rightarrow> users \<times> sched \<Rightarrow> scheduled_job list \<times> users \<times> sched" where
  "startScheduler sgs ap [] st = ([], st)"
| "startScheduler sgs ap (t # ts) st =
     (case releaseDueJobs sgs ap t st of (due, st1) \<Rightarrow>
      (case startScheduler sgs ap ts st1 of (later, st2) \<Rightarrow> (due @ later, st2)))"

lemma take_due_simps:
  "fst (take_due t us) = filter (\<lambda>j. jReleaseAtUnix j \<le> t) (uJobs us)"
  "snd (take_due t us) = us\<lparr>uJobs := filter (\<lambda>j. t < jReleaseAtUnix j) (uJobs us)\<rparr>"
proof -
  show "fst (take_due t us) = filter (\<lambda>j. jReleaseAtUnix j \<le> t) (uJobs us)" by (simp add: take_due_def not_less Let_def)
  have "us = us\<lparr>uJobs := filter (\<lambda>j. t < jReleaseAtUnix j) (uJobs us)\<rparr>" if "filter (\<lambda>j. \<not> t < jReleaseAtUnix j) (uJobs us) = []"
  proof -
    have "filter (\<lambda>j. t < jReleaseAtUnix j) (uJobs us) = uJobs us" using that by (simp add: filter_empty_conv filter_id_conv)
    then show ?thesis by simp
  qed
  then show "snd (take_due t us) = us\<lparr>uJobs := filter (\<lambda>j. t < jReleaseAtUnix j) (uJobs us)\<rparr>"
    by (auto simp: take_due_def Let_def)
qed

lemma releaseDueJobs_simps:
  "fst (releaseDueJobs sgs ap t (us, s)) = fst (take_due t us)"
  "snd (releaseDueJobs sgs ap t (us, s)) = (snd (take_due t us), release_all sgs ap (fst (take_due t us)) s)"
  by (simp_all add: releaseDueJobs_def split_beta)

lemma scheduler_jobs:
  "mset (fst (startScheduler sgs ap ts (us, s))) + mset (uJobs (fst (snd (startScheduler sgs ap ts (us, s))))) = mset (uJobs us) \<and>
   uJobs (fst (snd (startScheduler sgs ap ts (us, s)))) = filter (\<lambda>j. list_all (\<lambda>t. t < jReleaseAtUnix j) ts) (uJobs us)"
proof (induction ts arbitrary: us s)
  case Nil
  have "list_all (\<lambda>t. t < jReleaseAtUnix j) [] = True" for j :: scheduled_job by simp
  then show ?case by simp
next
  case (Cons t ts)
  let ?us1 = "snd (take_due t us)" and ?s1 = "release_all sgs ap (fst (take_due t us)) s"
  have split: "mset js = mset (filter (\<lambda>j. jReleaseAtUnix j \<le> t) js) + mset (filter (\<lambda>j. t < jReleaseAtUnix j) js)"
    for js :: "scheduled_job list"
    by (induction js) (auto simp: not_less)
  let ?r = "startScheduler sgs ap ts (?us1, ?s1)"
  have r: "fst (startScheduler sgs ap (t # ts) (us, s)) = fst (take_due t us) @ fst ?r"
    "snd (startScheduler sgs ap (t # ts) (us, s)) = snd ?r"
    by (simp_all add: split_beta releaseDueJobs_simps)
  have jobs: "uJobs ?us1 = filter (\<lambda>j. t < jReleaseAtUnix j) (uJobs us)" by (simp add: take_due_simps)
  have rest: "mset (fst ?r) + mset (uJobs (fst (snd ?r))) = mset (uJobs ?us1)" using Cons.IH by blast
  have "mset (fst (take_due t us)) + (mset (fst ?r) + mset (uJobs (fst (snd ?r)))) = mset (uJobs us)"
    unfolding rest jobs by (simp only: take_due_simps(1) split [symmetric])
  moreover have "uJobs (fst (snd ?r)) = filter (\<lambda>j. list_all (\<lambda>t. t < jReleaseAtUnix j) (t # ts)) (uJobs us)"
    by (simp only: Cons.IH [THEN conjunct2] jobs filter_filter list.pred_inject(2))
  ultimately show ?case unfolding r mset_append by (simp only: add.assoc simp_thms)
qed

text \<open>
  Every deferred job is released, once: a ticker that reads the clock at \<open>ts\<close> releases
  exactly the jobs whose time has come at one of its readings and keeps the others in their order;
  what it released and what it kept are together the jobs there were, each as often as scheduled.
  A job deferred at \<open>t0\<close> is released by the first reading a day later at the latest.
\<close>

theorem due_jobs_released_once:
  assumes "startScheduler sgs ap ts (us, s) = (released, us', s')"
  shows "mset released + mset (uJobs us') = mset (uJobs us) \<and>
    uJobs us' = filter (\<lambda>j. list_all (\<lambda>t. t < jReleaseAtUnix j) ts) (uJobs us) \<and>
    {j \<in> set (uJobs us). jReleaseAtUnix j = nextWindowStart t0 \<and> \<not> list_all (\<lambda>t. t < t0 + 86400) ts} \<subseteq> set released - set (uJobs us')"
proof -
  note J = scheduler_jobs [of sgs ap ts us s, unfolded assms, simplified]
  have n: "nextWindowStart t0 \<le> t0 + 86400" unfolding nextWindowStart_daily by (rule nextDailyAt_laws(2)) simp_all
  have "j \<in> set released - set (uJobs us')"
    if "j \<in> set (uJobs us)" "jReleaseAtUnix j = nextWindowStart t0" "\<not> list_all (\<lambda>t. t < t0 + 86400) ts" for j
  proof -
    have "\<not> list_all (\<lambda>t. t < jReleaseAtUnix j) ts"
      using that(2,3) n by (auto simp: list_all_iff intro: less_le_trans)
    then have "j \<notin> set (uJobs us')" using J by simp
    moreover have "set released \<union> set (uJobs us') = set (uJobs us)" using J by (metis set_mset_mset set_mset_union)
    ultimately show ?thesis using that(1) by blast
  qed
  with J show ?thesis by blast
qed

definition no_apple :: apple where
  "no_apple = \<lparr>apSection = (\<lambda>_ _ _. None), apName = (\<lambda>_ _. []), apStorefront = ''us'', apIDs = (\<lambda>n. ''m'' @ replicate n CHR ''x'')\<rparr>"

theorem due_jobs_released_once_witness:
  "mset (fst (startScheduler (\<lambda>_. restricted_day) no_apple [60, 73860] (plain_users\<lparr>uJobs := [heavy_playlist ''m'' 7]\<rparr>, one_charged)))
   = {#heavy_playlist ''m'' 7#}"
proof -
  define r where "r = startScheduler (\<lambda>_. restricted_day) no_apple [60, 73860] (plain_users\<lparr>uJobs := [heavy_playlist ''m'' 7]\<rparr>, one_charged)"
  obtain a us c where r: "r = (a, us, c)" by (metis prod.collapse)
  note T = due_jobs_released_once [OF r_def [symmetric, unfolded r], of 0]
  have "uJobs us = []" using T by (simp add: heavy_playlist_def)
  with T have "mset a = {#heavy_playlist ''m'' 7#}" by simp
  then show ?thesis unfolding r_def [symmetric] r by simp
qed


subsection \<open>Cancelling a job\<close>

lemma find_job_at: "jID j = i \<Longrightarrow> i \<notin> jID ` set pre \<Longrightarrow> find_job i k (pre @ j # post) = Some (k + length pre, j)"
  by (induction pre arbitrary: k) auto

lemma find_job_none: "find_job i k js = None \<longleftrightarrow> i \<notin> jID ` set js"
  by (induction js arbitrary: k) auto

lemma bump_jobs [simp]: "uJobs (bumpStats now u f us) = uJobs us" "uAdmins (bumpStats now u f us) = uAdmins us"
  by (simp_all add: bumpStats_def Let_def)

lemma cancel_at:
  assumes "uJobs us = pre @ j # post" "jID j = i" "i \<notin> jID ` set pre"
  shows "cancelScheduledJob now u i (us, s) =
    (if jUserID j = u \<or> isAdmin us u
     then (JobCancelled, bumpStats now u count_cancel (us\<lparr>uJobs := pre @ post\<rparr>), s\<lparr>qLedger := quotaRefund (jQuotaChargeID j) 0 (qLedger s)\<rparr>)
     else (NotYours, us, s))"
  using find_job_at [OF assms(2,3), of 0 post] by (simp add: cancelScheduledJob_def assms(1))

lemma cancel_none: "i \<notin> jID ` set (uJobs us) \<Longrightarrow> cancelScheduledJob now u i (us, s) = (NoSuchJob, us, s)"
  by (simp add: cancelScheduledJob_def flip: find_job_none [of i 0])

text \<open>
  Only its requester or an admin cancels a deferred job; anybody else, and an id that is not
  waiting, changes nothing.  A cancel removes that one job, keeps the others in their order, and
  closes its open charge as refunded: the slot is back on the user's tally.
\<close>

theorem cancel_deferred_refunds:
  assumes "cancelScheduledJob now u i (us, s) = (reply, us', s')" "uJobs us = pre @ j # post" "jID j = i" "i \<notin> jID ` set pre"
    and "open_key (qLedger s) (jQuotaChargeID j) = Some key" "jQuotaChargeID j \<noteq> []" "ledger_ok (qLedger s)"
  shows "(if jUserID j = u \<or> isAdmin us u
     then reply = JobCancelled \<and> uJobs us' = pre @ post \<and> cget (lgUsage (qLedger s')) key = cget (lgUsage (qLedger s)) key - 1 \<and>
          open_key (qLedger s') (jQuotaChargeID j) = None
     else reply = NotYours \<and> us' = us \<and> s' = s)"
  using assms cancel_at [OF assms(2-4), of now u s] used_settle [OF assms(7), of quotaRefunded True "jQuotaChargeID j" 0 False key]
    open_key_settle [OF assms(7), of quotaRefunded True "jQuotaChargeID j" 0 False "jQuotaChargeID j"]
  by (auto simp: quotaRefund_def quotaOpen_def quotaRefunded_def)

definition charged_job :: scheduled_job where
  "charged_job = (heavy_playlist ''j1'' 7)\<lparr>jQuotaChargeID := ''c1''\<rparr>"

theorem cancel_deferred_refunds_witness:
  "fst (cancelScheduledJob 0 7 ''j1'' (plain_users\<lparr>uJobs := [charged_job]\<rparr>, one_charged)) = JobCancelled \<and>
   open_key (qLedger (snd (snd (cancelScheduledJob 0 7 ''j1'' (plain_users\<lparr>uJobs := [charged_job]\<rparr>, one_charged))))) ''c1'' = None"
proof -
  define us where "us = plain_users\<lparr>uJobs := [charged_job]\<rparr>"
  obtain reply us' s' where e: "cancelScheduledJob 0 7 ''j1'' (us, one_charged) = (reply, us', s')" by (metis prod.collapse)
  have j: "uJobs us = [] @ charged_job # []" "jID charged_job = ''j1''" "''j1'' \<notin> jID ` set []" "jQuotaChargeID charged_job = ''c1''"
    "jUserID charged_job = 7" by (simp_all add: us_def charged_job_def heavy_playlist_def)
  have "open_key (qLedger one_charged) ''c1'' \<noteq> None"
    by (simp add: one_charged_def quotaCheckAndCharge_def plain_users_def no_users_def ripLimit_def isRestricted_def
        isUserDonor_def heavyRipLimit_def no_charges_def Let_def open_key_def frame_simps)
  then obtain key where k: "open_key (qLedger one_charged) (jQuotaChargeID charged_job) = Some key" using j by auto
  have l: "ledger_ok (qLedger one_charged)" using reachable_charges [OF one_charged_reachable] unfolding charges_ok_def by blast
  show ?thesis using cancel_deferred_refunds [OF e j(1-3) k _ l] e j(4,5) by (simp flip: us_def)
qed


subsection \<open>A release is a sequence of scheduler steps\<close>

lemma admit_held:
  "admit sg su k (s\<lparr>qHeld := h\<rparr>) = (case admit sg su k s of (a, sent, s1) \<Rightarrow> (a, sent, s1\<lparr>qHeld := h\<rparr>))"
  by (simp add: admit_def split: prod.split)

text \<open>What an operation does does not depend on which handlers hold charges.\<close>

definition blind :: "(sched \<Rightarrow> 'r \<times> sched) \<Rightarrow> bool" where
  "blind f = (\<forall>s h. f (s\<lparr>qHeld := h\<rparr>) = (fst (f s), (snd (f s))\<lparr>qHeld := h\<rparr>))"

lemma blindD: "blind f \<Longrightarrow> f (s\<lparr>qHeld := h\<rparr>) = (fst (f s), (snd (f s))\<lparr>qHeld := h\<rparr>)"
  by (simp add: blind_def)

lemma blind_same:
  assumes "blind f"
  shows "(snd (f s))\<lparr>qHeld := qHeld s\<rparr> = snd (f s)" "qHeld (snd (f s)) = qHeld s"
proof -
  show *: "(snd (f s))\<lparr>qHeld := qHeld s\<rparr> = snd (f s)"
    using arg_cong [OF blindD [OF assms, of "qHeld s" s], of snd] by simp
  show "qHeld (snd (f s)) = qHeld s" using arg_cong [OF *, of qHeld] by simp
qed

lemma blind_back: "blind f \<Longrightarrow> (snd (f (s\<lparr>qHeld := h\<rparr>)))\<lparr>qHeld := qHeld s\<rparr> = snd (f s)"
  by (simp add: blindD blind_same)

lemma blind_playlist: "blind (enqueuePlaylistDownload sg su i cid)"
  unfolding blind_def enqueuePlaylistDownload_def
  by (simp add: submit_held admit_held split_beta split: bool.split)

lemma blind_mvs: "blind (runArtistMusicVideos board ids su mvs n)"
  unfolding blind_def by (induction mvs arbitrary: n) (simp_all add: enqueue_held)

lemma blind_artist: "blind (runArtistRip sg ap su sf i sec albums lb per cid)"
  unfolding blind_def by (simp add: runArtistRip_def Let_def enqueue_held split_beta split: bool.split)

lemma ledger_held: "s\<lparr>qHeld := h, qLedger := q\<rparr> = (s\<lparr>qLedger := q\<rparr>)\<lparr>qHeld := h\<rparr>"
  by simp

lemma blind_scoped: "blind (runArtistRipScoped sg ap su sf i sec cid)"
  unfolding blind_def
  by (simp add: runArtistRipScoped_def Let_def ledger_held blindD [OF blind_mvs] blindD [OF blind_artist] split_beta
      del: sched.update_convs split: option.split)

lemma blind_release: "blind (releaseJob sg ap j)"
  unfolding blind_def by (simp add: releaseJob_def blindD [OF blind_playlist] blindD [OF blind_scoped] split_beta)

text \<open>The ids generated for the tasks of a release are new.\<close>

definition fresh_ids :: "surroundings \<Rightarrow> apple \<Rightarrow> sched \<Rightarrow> bool" where
  "fresh_ids sg ap s = (sgTask sg \<noteq> [] \<and> sgTask sg \<notin> task_ids s \<and> inj (apIDs ap) \<and>
     (\<forall>n. apIDs ap n \<noteq> [] \<and> apIDs ap n \<notin> task_ids s))"

lemma mv_steps:
  assumes "reachable race s" "inj ids" "\<And>k. ids k \<noteq> []" "\<And>k. n \<le> k \<Longrightarrow> ids k \<notin> task_ids s"
  shows "reachable race (snd (runArtistMusicVideos board ids su mvs n s))"
  using assms(1,4)
proof (induction mvs arbitrary: n s)
  case (Cons mv mvs)
  show ?case
  proof (cases "siID mv = []")
    case True
    then show ?thesis using Cons by simp
  next
    case False
    let ?r = "mv_request (ids n) su" and ?s1 = "snd (enqueueDownloadWithAfter board (mv_request (ids n) su) s)"
    have r: "rqCharge ?r = []" "rqTask ?r = ids n" by (simp_all add: mv_request_def)
    have none: "qHeld s - {[]} = qHeld s" using reachable_held [OF Cons.prems(1)] by simp
    have st: "sched_step race s ?s1"
      using enqueue_step [of ?r s race board] r assms(3) Cons.prems(2) [of n] enqueue_fail [of board ?r s] none
      by (auto simp: enqueueDownloadWithAfter_def Let_def split: if_splits)
    have "task_ids ?s1 \<subseteq> insert (ids n) (task_ids s)"
      by (auto simp: enqueueDownloadWithAfter_def Let_def task_ids_def live_def pending_def r(2))
    moreover have "ids k \<noteq> ids n" if "n + 1 \<le> k" for k using injD [OF assms(2), of k n] that by auto
    ultimately have "\<And>k. n + 1 \<le> k \<Longrightarrow> ids k \<notin> task_ids ?s1" using Cons.prems(2) by fastforce
    from Cons.IH [OF reachable_step [OF Cons.prems(1) st] this] False show ?thesis by simp
  qed
qed simp


lemma artist_steps:
  assumes "reachable race s" "cid = [] \<or> cid \<in> qHeld s" "sgTask sg \<noteq> []" "sgTask sg \<notin> task_ids s"
  shows "reachable race ((snd (runArtistRip sg ap su sf i sec albums lb per cid s))\<lparr>qHeld := qHeld s - {cid}\<rparr>)"
proof -
  define r where "r = make_request (sgTask sg) su (resolveFormat (sgFormat sg) (suChat su) (suForceFlac su)) (''artist:'' @ i) (RipArtist i)
    (AfterArtist (int (length albums)) per) cid (newGofileDedupInfo ''artist'' (artistDedupID i sec)
      (resolveFormat (sgFormat sg) (suChat su) (suForceFlac su)) (apName ap sf i) (suForceAAC su) (suForceAtmos su) (suUser su))"
  obtain ok reply s1 where e: "enqueueDownloadWithAfter (sgBoard sg) r s = ((ok, reply), s1)" by (metis prod.collapse)
  have rs: "rqCharge r = cid" "rqTask r = sgTask sg" "rqAfter r = AfterArtist (int (length albums)) per" by (simp_all add: r_def)
  have st: "sched_step race s (if ok then s1\<lparr>qHeld := qHeld s - {cid}\<rparr> else s)"
    using enqueue_step [of r s race "sgBoard sg"] assms(2-4) by (cases ok) (simp_all add: rs e)
  have run: "snd (runArtistRip sg ap su sf i sec albums lb per cid s) =
      (if ok then s1 else s1\<lparr>qLedger := quotaRefund cid 0 (qLedger s1)\<rparr>)"
    unfolding runArtistRip_def Let_def r_def [symmetric] e by (cases ok) simp_all
  have h: "[] \<notin> qHeld s" by (rule reachable_held [OF assms(1)])
  show ?thesis
  proof (cases ok)
    case True
    then show ?thesis using reachable_step [OF assms(1) st] by (simp add: run)
  next
    case False
    then have "s1 = s" using enqueue_fail [of "sgBoard sg" r s] e by simp
    with False settle_step [OF assms(2) h, of quotaRefunded race] reachable_steps [OF assms(1)] show ?thesis
      by (simp add: run quotaRefund_def)
  qed
qed

lemma scoped_steps:
  assumes "reachable race s" "cid = [] \<or> cid \<in> qHeld s" "fresh_ids sg ap s"
  shows "reachable race ((snd (runArtistRipScoped sg ap su sf i sec cid s))\<lparr>qHeld := qHeld s - {cid}\<rparr>)"
proof -
  have f: "sgTask sg \<noteq> []" "sgTask sg \<notin> task_ids s" "inj (apIDs ap)" "\<And>n. apIDs ap n \<noteq> []" "\<And>n. apIDs ap n \<notin> task_ids s"
    using assms(3) by (simp_all add: fresh_ids_def)
  let ?rf = "s\<lparr>qLedger := quotaRefund cid 0 (qLedger s)\<rparr>"
  have h: "[] \<notin> qHeld s" by (rule reachable_held [OF assms(1)])
  have rf: "reachable race (?rf\<lparr>qHeld := qHeld s - {cid}\<rparr>)"
    using settle_step [OF assms(2) h, of quotaRefunded race] reachable_steps [OF assms(1)] by (simp add: quotaRefund_def)
  have mv: "reachable race ((snd (runArtistMusicVideos (sgBoard sg) (apIDs ap) v mvs 0 ?rf))\<lparr>qHeld := qHeld s - {cid}\<rparr>)" for v mvs
  proof -
    have ids: "\<And>k. apIDs ap k \<notin> task_ids (?rf\<lparr>qHeld := qHeld s - {cid}\<rparr>)" using f(5) by (simp only: pending_upd not_False_eq_True)
    from mv_steps [OF rf f(3,4) ids, where n = 0 and board = "sgBoard sg" and su = v and mvs = mvs]
    show ?thesis by (simp only: blindD [OF blind_mvs] snd_conv)
  qed
  show ?thesis
    using rf mv artist_steps [OF assms(1,2) f(1,2)]
    by (simp add: runArtistRipScoped_def Let_def split_beta split: option.split)
qed

lemma release_steps:
  assumes "reachable race s" "jQuotaChargeID j = [] \<and> jUserID j = 0 \<or> jQuotaChargeID j \<in> qHeld s" "fresh_ids sg ap s"
    and "jKind j = ''playlist'' \<or> jKind j = ''artist''"
  shows "reachable race ((snd (releaseJob sg ap j s))\<lparr>qHeld := qHeld s - {jQuotaChargeID j}\<rparr>)"
proof -
  let ?cid = "jQuotaChargeID j" and ?su = "job_submission j" and ?i = "jResourceID j"
  have h: "[] \<notin> qHeld s" by (rule reachable_held [OF assms(1)])
  have c: "?cid = [] \<or> ?cid \<in> qHeld s" using assms(2) by blast
  have f: "sgTask sg \<noteq> []" "sgTask sg \<notin> task_ids s" using assms(3) by (simp_all add: fresh_ids_def)
  note sub = reachable_steps [OF assms(1) submit_steps [OF c h f, of race ?su "''playlist''" ?i "RipPlaylist ?i"]]
  have rf: "reachable race (s\<lparr>qLedger := quotaRefund ?cid 0 (qLedger s), qHeld := qHeld s - {?cid}\<rparr>)"
    using settle_step [OF c h, of quotaRefunded race] reachable_steps [OF assms(1)] by (simp add: quotaRefund_def)
  have free: "admit sg ?su ''playlist'' s = (([], True), [], s)" if "jUserID j = 0"
    using that by (simp add: admit_def admitRestricted_def isRestrictedMember_def job_submission_def)
  have pl: "reachable race ((snd (enqueuePlaylistDownload sg ?su ?i ?cid s))\<lparr>qHeld := qHeld s - {?cid}\<rparr>)"
    using rf sub free assms(2) h by (auto simp: enqueuePlaylistDownload_def)
  show ?thesis
    using assms(4) pl scoped_steps [OF assms(1) c assms(3)] by (auto simp: releaseJob_def split_beta)
qed


subsection \<open>The scheduler and the deferred jobs together\<close>

text \<open>
  The users' state, the queue, and the due jobs a tick has taken and not yet released: between
  two releases \<^verbatim>\<open>releaseDueJobs\<close> sleeps without a lock, so everything else may happen there.
\<close>

record night =
  ntUsers :: users
  ntSched :: sched
  ntDue :: "scheduled_job list"

definition waiting :: "night \<Rightarrow> scheduled_job multiset" where
  "waiting n = mset (uJobs (ntUsers n)) + mset (ntDue n)"

definition known_kind :: "scheduled_job \<Rightarrow> bool" where
  "known_kind j = (jKind j = ''playlist'' \<or> jKind j = ''artist'')"

text \<open>
  One charge's worth: what a submission adds to the held charges when it defers.  A charge that
  rides on a job leaves the held ones when the job is released or cancelled; \<open>Other\<close> is any step of
  the queue by a handler that does not own a job's charge.
\<close>

definition deferred_charge :: "sleep_reply \<Rightarrow> string set" where
  "deferred_charge r = (case r of SleepDeferred cid _ \<Rightarrow> {cid} - {[]} | _ \<Rightarrow> {})"

inductive night_step :: "bool \<Rightarrow> night \<Rightarrow> night \<Rightarrow> bool" for race where
  Other: "sched_step race (ntSched n) s' \<Longrightarrow> jQuotaChargeID ` set_mset (waiting n) - {[]} \<subseteq> qHeld s' \<Longrightarrow>
     night_step race n (n\<lparr>ntSched := s'\<rparr>)"
| Users: "uJobs us' = uJobs (ntUsers n) \<Longrightarrow> night_step race n (n\<lparr>ntUsers := us'\<rparr>)"
| Submit: "known_kind j \<Longrightarrow> fresh_ids sg ap (ntSched n) \<Longrightarrow> new_id (sgCharge sg) (qLedger (ntSched n)) \<Longrightarrow>
     sgCharge sg \<notin> qHeld (ntSched n) \<Longrightarrow> scheduleOrRun sg ap j (ntUsers n, ntSched n) = (reply, us', s') \<Longrightarrow>
     night_step race n (n\<lparr>ntUsers := us', ntSched := s'\<lparr>qHeld := qHeld s' \<union> deferred_charge reply\<rparr>\<rparr>)"
| Tick: "ntDue n = [] \<Longrightarrow> take_due now (ntUsers n) = (due, us') \<Longrightarrow>
     night_step race n (n\<lparr>ntUsers := us', ntDue := due\<rparr>)"
| Release: "ntDue n = j # js \<Longrightarrow> fresh_ids sg ap (ntSched n) \<Longrightarrow> releaseJob sg ap j (ntSched n) = (reply, s') \<Longrightarrow>
     night_step race n (n\<lparr>ntDue := js, ntSched := s'\<lparr>qHeld := qHeld (ntSched n) - {jQuotaChargeID j}\<rparr>\<rparr>)"
| Cancel: "cancelScheduledJob now u i (ntUsers n, ntSched n) = (reply, us', s') \<Longrightarrow>
     night_step race n (n\<lparr>ntUsers := us', ntSched := s'\<lparr>qHeld :=
        qHeld (ntSched n) - (if reply = JobCancelled then {jQuotaChargeID (snd (the (find_job i 0 (uJobs (ntUsers n)))))} else {})\<rparr>\<rparr>)"

definition first_night :: "bool \<Rightarrow> nat \<Rightarrow> catalog option \<Rightarrow> users \<Rightarrow> night" where
  "first_night conc k cat us = \<lparr>ntUsers = us\<lparr>uJobs := []\<rparr>, ntSched = empty_sched conc k (no_charges cat), ntDue = []\<rparr>"

definition night_reachable :: "bool \<Rightarrow> night \<Rightarrow> bool" where
  "night_reachable race n = (\<exists>conc k cat us. (night_step race)\<^sup>*\<^sup>* (first_night conc k cat us) n)"

definition charge_count :: "string \<Rightarrow> scheduled_job multiset \<Rightarrow> nat" where
  "charge_count c W = count (image_mset jQuotaChargeID W) c"

lemma charge_count_simps [simp]:
  "charge_count c {#} = 0" "charge_count c (add_mset j W) = (if jQuotaChargeID j = c then 1 else 0) + charge_count c W"
  "charge_count c (A + B) = charge_count c A + charge_count c B"
  by (simp_all add: charge_count_def)

lemma charge_count_in: "j \<in># W \<Longrightarrow> 1 \<le> charge_count (jQuotaChargeID j) W"
  by (auto dest!: multi_member_split)

definition job_ok :: "sched \<Rightarrow> scheduled_job \<Rightarrow> bool" where
  "job_ok s j = (known_kind j \<and> (if jQuotaChargeID j = [] then jUserID j = 0 else jQuotaChargeID j \<in> qHeld s))"

definition jobs_ok :: "sched \<Rightarrow> scheduled_job multiset \<Rightarrow> bool" where
  "jobs_ok s W = ((\<forall>j\<in>#W. job_ok s j) \<and> (\<forall>c. c \<noteq> [] \<longrightarrow> charge_count c W \<le> 1))"

lemma jobs_okD: "jobs_ok s W \<Longrightarrow> j \<in># W \<Longrightarrow> job_ok s j" "jobs_ok s W \<Longrightarrow> c \<noteq> [] \<Longrightarrow> charge_count c W \<le> 1"
  by (auto simp: jobs_ok_def)

text \<open>A job leaves with its charge; a job joins with a charge nobody holds.\<close>

lemma jobs_ok_leave:
  assumes "jobs_ok s (add_mset j W)" "qHeld s' = qHeld s - {jQuotaChargeID j}"
  shows "jobs_ok s' W"
  unfolding jobs_ok_def
proof (intro conjI ballI allI impI)
  fix k assume k: "k \<in># W"
  from jobs_okD(1) [OF assms(1), of k] k have ok: "job_ok s k" by simp
  show "job_ok s' k"
  proof (cases "jQuotaChargeID k = []")
    case False
    have "charge_count (jQuotaChargeID k) (add_mset j W) \<le> 1" by (rule jobs_okD(2) [OF assms(1) False])
    with charge_count_in [OF k] have "jQuotaChargeID j \<noteq> jQuotaChargeID k" by (simp split: if_splits)
    with ok False assms(2) show ?thesis by (simp add: job_ok_def)
  qed (use ok in \<open>simp add: job_ok_def\<close>)
next
  fix c :: string assume "c \<noteq> []"
  from jobs_okD(2) [OF assms(1) this] show "charge_count c W \<le> 1" by simp
qed

lemma jobs_ok_join:
  assumes "jobs_ok s W" "known_kind j" "if cid = [] then jUserID j = 0 else cid \<notin> qHeld s"
    "jQuotaChargeID j = cid" "qHeld s' = qHeld s \<union> ({cid} - {[]})"
  shows "jobs_ok s' (add_mset j W)"
  unfolding jobs_ok_def
proof (intro conjI ballI allI impI)
  fix k assume "k \<in># add_mset j W"
  then consider "k = j" | "k \<in># W" by auto
  then show "job_ok s' k"
  proof cases
    case 1
    then show ?thesis using assms(2-5) by (auto simp: job_ok_def split: if_splits)
  next
    case 2
    from jobs_okD(1) [OF assms(1) this] show ?thesis using assms(5) by (simp add: job_ok_def split: if_splits)
  qed
next
  fix c :: string assume c: "c \<noteq> []"
  have "charge_count c W = 0" if "c = cid"
  proof -
    have "jQuotaChargeID k \<noteq> c" if "k \<in># W" for k
      using jobs_okD(1) [OF assms(1) that] assms(3) c \<open>c = cid\<close> by (auto simp: job_ok_def split: if_splits)
    then show ?thesis unfolding charge_count_def by (auto simp: count_eq_zero_iff)
  qed
  then show "charge_count c (add_mset j W) \<le> 1" using jobs_okD(2) [OF assms(1) c] assms(4) by (cases "c = cid") auto
qed

lemma jobs_ok_held: "jobs_ok s W \<Longrightarrow> jQuotaChargeID ` set_mset W - {[]} \<subseteq> qHeld s' \<Longrightarrow> jobs_ok s' W"
  by (auto simp: jobs_ok_def job_ok_def image_subset_iff split: if_splits)


definition night_ok :: "bool \<Rightarrow> night \<Rightarrow> bool" where
  "night_ok race n = (reachable race (ntSched n) \<and> jobs_ok (ntSched n) (waiting n))"

lemma submit_cases:
  assumes "scheduleOrRun sg ap j (us, s) = (reply, us', s')"
  obtains (same) "us' = us" "s' = s" "deferred_charge reply = {}"
  | (now) cid q where "quotaCheckAndCharge (sgCharge sg) (sgNow sg) (sgUpCharge sg) us (jUserID j) (jUsername j) (jKind j) (qLedger s) = ((cid, True), q)"
      "us' = us" "s' = snd (releaseJob sg ap (j\<lparr>jQuotaChargeID := cid\<rparr>) (s\<lparr>qLedger := q\<rparr>))" "deferred_charge reply = {}"
  | (later) cid q k donor where "quotaCheckAndCharge (sgCharge sg) (sgNow sg) (sgUpCharge sg) us (jUserID j) (jUsername j) (jKind j) (qLedger s) = ((cid, True), q)"
      "us' = scheduleJob k donor us" "s' = s\<lparr>qLedger := q\<rparr>" "deferred_charge reply = {cid} - {[]}"
      "jKind k = jKind j" "jUserID k = jUserID j" "jQuotaChargeID k = cid"
proof -
  obtain cid ok q where q: "quotaCheckAndCharge (sgCharge sg) (sgNow sg) (sgUpCharge sg) us (jUserID j) (jUsername j) (jKind j) (qLedger s)
    = ((cid, ok), q)" by (metis prod.collapse)
  obtain r s2 where r: "releaseJob sg ap (j\<lparr>jQuotaChargeID := cid\<rparr>) (s\<lparr>qLedger := q\<rparr>) = (r, s2)" by (metis prod.collapse)
  show ?thesis
  proof (cases ok)
    case False
    then show ?thesis using assms q same
      by (auto simp: scheduleOrRun_def Let_def deferred_charge_def split: if_splits)
  next
    case True
    then have q': "quotaCheckAndCharge (sgCharge sg) (sgNow sg) (sgUpCharge sg) us (jUserID j) (jUsername j) (jKind j) (qLedger s)
      = ((cid, True), q)" using q by simp
    define k where "k = j\<lparr>jQuotaChargeID := cid, jID := sgTask sg, jReleaseAtUnix := nextWindowStart (sgNow sg), jCreatedAtUnix := sgNow sg\<rparr>"
    define dup where "dup = checkGofileDedup (sgUpLookup sg) (sgNow sg) (lgCat (qLedger s)) (jKind j)
      (if jKind j = ''artist'' then artistDedupID (jResourceID j) (jSection j) else jResourceID j)
      (gofileDedupVariant (resolveFormat (sgFormat sg) (jChatID j) (jForceFlac j)) (jForceAAC j) (jForceAtmos j))"
    have run: "scheduleOrRun sg ap j (us, s) =
      (if fst dup then (SleepDuplicate (snd dup), us, s)
       else if inSleepWindow (sgNow sg) then (SleepReleased r, us, s2)
       else (SleepDeferred cid (nextWindowStart (sgNow sg)), scheduleJob k (isUserDonor us (jUserID j) (jUsername j)) us, s\<lparr>qLedger := q\<rparr>))"
      by (simp add: scheduleOrRun_def Let_def q' r k_def flip: dup_def)
    show ?thesis
    proof (cases "fst dup")
      case True
      then show ?thesis using assms run by (intro same) (auto simp: deferred_charge_def)
    next
      case fresh: False
      show ?thesis
      proof (cases "inSleepWindow (sgNow sg)")
        case True
        then show ?thesis using assms run fresh r by (intro now [OF q']) (auto simp: deferred_charge_def)
      next
        case False
        then show ?thesis using assms run fresh
          by (intro later [OF q', of k "isUserDonor us (jUserID j) (jUsername j)"]) (auto simp: deferred_charge_def k_def)
      qed
    qed
  qed
qed

lemma charged_id:
  "quotaCheckAndCharge gid now up us u nm k q = ((cid, True), q') \<Longrightarrow> if cid = [] then u = 0 \<or> gid = [] else cid = gid"
  by (auto simp: quotaCheckAndCharge_def Let_def split: if_splits)

lemma night_submit:
  assumes ok: "reachable race s" "jobs_ok s W" and j: "known_kind j" "fresh_ids sg ap s" "new_id (sgCharge sg) (qLedger s)" "sgCharge sg \<notin> qHeld s"
    and e: "scheduleOrRun sg ap j (us, s) = (reply, us', s')" and W: "W = mset (uJobs us) + D"
  shows "reachable race (s'\<lparr>qHeld := qHeld s' \<union> deferred_charge reply\<rparr>)"
    "jobs_ok (s'\<lparr>qHeld := qHeld s' \<union> deferred_charge reply\<rparr>) (mset (uJobs us') + D)"
proof -
  have gid: "sgCharge sg \<noteq> []" using j(3) by (simp add: new_id_def)
  have adm: "reachable race (s\<lparr>qLedger := q, qHeld := qHeld s \<union> ({cid} - {[]})\<rparr>)"
    "if cid = [] then jUserID j = 0 else cid = sgCharge sg \<and> cid \<notin> qHeld s"
    if c: "quotaCheckAndCharge (sgCharge sg) (sgNow sg) (sgUpCharge sg) us (jUserID j) (jUsername j) (jKind j) (qLedger s) = ((cid, True), q)" for cid q
  proof -
    have "(if True \<and> cid \<noteq> [] then insert cid (qHeld s) else qHeld s) = qHeld s \<union> ({cid} - {[]})" by auto
    with reachable_step [OF ok(1) sched_step.Admit [OF j(3) c]]
    show "reachable race (s\<lparr>qLedger := q, qHeld := qHeld s \<union> ({cid} - {[]})\<rparr>)" by (simp only:)
    show "if cid = [] then jUserID j = 0 else cid = sgCharge sg \<and> cid \<notin> qHeld s"
      using charged_id [OF c] gid j(4) by (simp split: if_splits)
  qed
  from e have "reachable race (s'\<lparr>qHeld := qHeld s' \<union> deferred_charge reply\<rparr>) \<and>
    jobs_ok (s'\<lparr>qHeld := qHeld s' \<union> deferred_charge reply\<rparr>) (mset (uJobs us') + D)"
  proof (cases rule: submit_cases)
    case same
    then show ?thesis using ok W by simp
  next
    case (now cid q)
    note a = adm [OF now(1)]
    let ?j = "j\<lparr>jQuotaChargeID := cid\<rparr>" and ?h = "qHeld s \<union> ({cid} - {[]})"
    let ?s1 = "s\<lparr>qLedger := q\<rparr>"
    have "fresh_ids sg ap (?s1\<lparr>qHeld := ?h\<rparr>)" using j(2) by (simp add: fresh_ids_def)
    from release_steps [OF a(1) _ this, of ?j] a(2) j(1)
    have "reachable race ((snd (releaseJob sg ap ?j (?s1\<lparr>qHeld := ?h\<rparr>)))\<lparr>qHeld := ?h - {cid}\<rparr>)"
      by (auto simp: known_kind_def split: if_splits)
    moreover have "?h - {cid} = qHeld s" using a(2) reachable_held [OF ok(1)] by (auto split: if_splits)
    ultimately have "reachable race s'"
      using blind_back [OF blind_release [of sg ap ?j], where h = ?h and s = ?s1] now(3) by simp
    moreover have "qHeld s' = qHeld s" using blind_same(2) [OF blind_release, of sg ap ?j ?s1] now(3) by simp
    moreover have "jobs_ok s' (mset (uJobs us') + D)" using ok(2) W now(2) \<open>qHeld s' = qHeld s\<close> by (simp add: jobs_ok_def job_ok_def)
    moreover have "s'\<lparr>qHeld := qHeld s' \<union> deferred_charge reply\<rparr> = s'" using now(4) by simp
    ultimately show ?thesis by (simp only:)
  next
    case (later cid q k donor)
    note a = adm [OF later(1)]
    have "jobs_ok (s'\<lparr>qHeld := qHeld s' \<union> deferred_charge reply\<rparr>) (add_mset k W)"
      by (rule jobs_ok_join [OF ok(2)]) (use j(1) a(2) later in \<open>auto simp: known_kind_def split: if_splits\<close>)
    then show ?thesis using a(1) later W by (simp add: schedule_mset)
  qed
  then show "reachable race (s'\<lparr>qHeld := qHeld s' \<union> deferred_charge reply\<rparr>)"
    "jobs_ok (s'\<lparr>qHeld := qHeld s' \<union> deferred_charge reply\<rparr>) (mset (uJobs us') + D)" by blast+
qed


lemma night_cancel:
  assumes "reachable race s" "jobs_ok s (mset (uJobs us) + D)" "cancelScheduledJob now u i (us, s) = (reply, us', s')"
    "h = qHeld s - (if reply = JobCancelled then {jQuotaChargeID (snd (the (find_job i 0 (uJobs us))))} else {})"
  shows "reachable race (s'\<lparr>qHeld := h\<rparr>)" "jobs_ok (s'\<lparr>qHeld := h\<rparr>) (mset (uJobs us') + D)"
proof -
  have unchanged: "reachable race (s'\<lparr>qHeld := h\<rparr>) \<and> jobs_ok (s'\<lparr>qHeld := h\<rparr>) (mset (uJobs us') + D)"
    if "reply \<noteq> JobCancelled" "us' = us" "s' = s"
  proof -
    have "s'\<lparr>qHeld := h\<rparr> = s" using that assms(4) by simp
    then show ?thesis using assms(1,2) that(2) by (simp only: simp_thms)
  qed
  have "reachable race (s'\<lparr>qHeld := h\<rparr>) \<and> jobs_ok (s'\<lparr>qHeld := h\<rparr>) (mset (uJobs us') + D)"
  proof (cases "i \<in> jID ` set (uJobs us)")
    case False
    have "reply = NoSuchJob" "us' = us" "s' = s" using cancel_none [OF False, of now u s] assms(3) by auto
    from unchanged [OF _ this(2,3)] this(1) show ?thesis by simp
  next
    case True
    then have "\<exists>j\<in>set (uJobs us). jID j = i" by auto
    then obtain pre j post where sp: "uJobs us = pre @ j # post" "jID j = i" "\<forall>k\<in>set pre. jID k \<noteq> i"
      by (auto dest!: split_list_first_prop)
    then have n: "i \<notin> jID ` set pre" by auto
    note C = cancel_at [OF sp(1,2) n, of now u s]
    show ?thesis
    proof (cases "jUserID j = u \<or> isAdmin us u")
      case False
      then have "reply = NotYours" "us' = us" "s' = s" using C assms(3) by auto
      from unchanged [OF _ this(2,3)] this(1) show ?thesis by simp
    next
      case may: True
      let ?c = "jQuotaChargeID j"
      have r: "reply = JobCancelled" "us' = bumpStats now u count_cancel (us\<lparr>uJobs := pre @ post\<rparr>)"
        "s' = s\<lparr>qLedger := quotaRefund ?c 0 (qLedger s)\<rparr>" using C assms(3) may by auto
      have h: "h = qHeld s - {?c}" using assms(4) r(1) find_job_at [OF sp(2) n, of 0 post] sp(1) by simp
      have W: "mset (uJobs us) + D = add_mset j (mset (uJobs us') + D)" using sp(1) r(2) by simp
      have jk: "jobs_ok (s'\<lparr>qHeld := h\<rparr>) (mset (uJobs us') + D)"
        by (rule jobs_ok_leave [OF assms(2) [unfolded W]]) (simp add: h)
      have "job_ok s j" by (rule jobs_okD(1) [OF assms(2)]) (simp add: W)
      then have c: "?c = [] \<or> ?c \<in> qHeld s" by (simp add: job_ok_def split: if_splits)
      have "reachable race (s\<lparr>qLedger := quotaRefund ?c 0 (qLedger s), qHeld := qHeld s - {?c}\<rparr>)"
        using settle_step [OF c reachable_held [OF assms(1)], of quotaRefunded race] reachable_steps [OF assms(1)] by (simp add: quotaRefund_def)
      with jk show ?thesis by (simp add: r(3) h)
    qed
  qed
  then show "reachable race (s'\<lparr>qHeld := h\<rparr>)" "jobs_ok (s'\<lparr>qHeld := h\<rparr>) (mset (uJobs us') + D)" by blast+
qed

lemma night_ok_step: "night_step race n n' \<Longrightarrow> night_ok race n \<Longrightarrow> night_ok race n'"
proof (induction rule: night_step.induct)
  case (Other n s')
  then show ?case using reachable_step [OF _ Other(1)] jobs_ok_held [OF _ Other(2), of "ntSched n"]
    by (simp add: night_ok_def waiting_def)
next
  case (Users us' n)
  then show ?case by (simp add: night_ok_def waiting_def)
next
  case (Submit j sg ap n reply us' s')
  then have ok: "reachable race (ntSched n)" "jobs_ok (ntSched n) (waiting n)" by (simp_all add: night_ok_def)
  from night_submit [OF ok Submit(1-5) waiting_def] show ?case by (simp add: night_ok_def waiting_def)
next
  case (Tick n now due us')
  have "mset js = mset (filter (\<lambda>j. jReleaseAtUnix j \<le> now) js) + mset (filter (\<lambda>j. now < jReleaseAtUnix j) js)"
    for js :: "scheduled_job list" by (induction js) (auto simp: not_less)
  then have "waiting (n\<lparr>ntUsers := us', ntDue := due\<rparr>) = waiting n"
    using Tick(1,2) take_due_simps [of now "ntUsers n"] by (simp add: waiting_def add.commute)
  then show ?case using Tick(3) by (simp add: night_ok_def)
next
  case (Release n j js sg ap reply s')
  then have ok: "reachable race (ntSched n)" "jobs_ok (ntSched n) (add_mset j (mset (uJobs (ntUsers n)) + mset js))"
    by (simp_all add: night_ok_def waiting_def)
  have j: "job_ok (ntSched n) j" by (rule jobs_okD(1) [OF ok(2)]) simp
  then have "reachable race ((snd (releaseJob sg ap j (ntSched n)))\<lparr>qHeld := qHeld (ntSched n) - {jQuotaChargeID j}\<rparr>)"
    by (intro release_steps [OF ok(1) _ Release(2)]) (auto simp: job_ok_def known_kind_def split: if_splits)
  moreover have "jobs_ok (s'\<lparr>qHeld := qHeld (ntSched n) - {jQuotaChargeID j}\<rparr>) (mset (uJobs (ntUsers n)) + mset js)"
    by (rule jobs_ok_leave [OF ok(2)]) simp
  ultimately show ?case using Release(3) by (simp add: night_ok_def waiting_def)
next
  case (Cancel now u i n reply us' s')
  then have ok: "reachable race (ntSched n)" "jobs_ok (ntSched n) (mset (uJobs (ntUsers n)) + mset (ntDue n))"
    by (simp_all add: night_ok_def waiting_def)
  from night_cancel [OF ok Cancel(1) refl] show ?case by (simp add: night_ok_def waiting_def)
qed

lemma reachable_empty: "reachable race (empty_sched conc k (no_charges cat))"
  unfolding reachable_def by blast

lemma reachable_night: "night_reachable race n \<Longrightarrow> night_ok race n"
proof -
  assume "night_reachable race n"
  then obtain conc k cat us where "(night_step race)\<^sup>*\<^sup>* (first_night conc k cat us) n" unfolding night_reachable_def by blast
  then show ?thesis
  proof (induction rule: rtranclp_induct)
    case base
    show ?case using reachable_empty by (simp add: night_ok_def first_night_def waiting_def jobs_ok_def)
  next
    case (step y z)
    then show ?case by (blast intro: night_ok_step)
  qed
qed



definition quiet_night :: night where "quiet_night = first_night True 20 None plain_users"

lemma quiet_submit:
  "scheduleOrRun restricted_day no_apple (heavy_playlist [] 7) (ntUsers quiet_night, ntSched quiet_night) =
     (SleepDeferred ''c9'' 73800,
      (plain_users\<lparr>uJobs := [(heavy_playlist ''t9'' 7)\<lparr>jQuotaChargeID := ''c9''\<rparr>]\<rparr>),
      (empty_sched True 20 (no_charges None))\<lparr>qLedger :=
         snd (quotaCheckAndCharge ''c9'' 0 True plain_users 7 [] ''playlist'' (no_charges None))\<rparr>)"
  by (simp add: scheduleOrRun_def quiet_night_def first_night_def restricted_day_def heavy_playlist_def checkGofileDedup_def
      quotaCheckAndCharge_def plain_users_def no_users_def ripLimit_def isRestricted_def isUserDonor_def heavyRipLimit_def
      no_charges_def empty_sched_def window_seconds dhaka_offset_def nextWindowStart_def date_at_def scheduleJob_def Let_def)

lemma quiet_step:
  "night_step True quiet_night (quiet_night\<lparr>ntUsers := plain_users\<lparr>uJobs := [(heavy_playlist ''t9'' 7)\<lparr>jQuotaChargeID := ''c9''\<rparr>]\<rparr>,
     ntSched := (empty_sched True 20 (no_charges None))\<lparr>qLedger :=
       snd (quotaCheckAndCharge ''c9'' 0 True plain_users 7 [] ''playlist'' (no_charges None)), qHeld := {''c9''}\<rparr>\<rparr>)"
proof -
  let ?s = "ntSched quiet_night"
  have e: "qLedger ?s = no_charges None" "qHeld ?s = {}" "task_ids ?s = {}"
    by (simp_all add: quiet_night_def first_night_def empty_sched_def task_ids_def live_def pending_def)
  have k: "known_kind (heavy_playlist [] 7)" by (simp add: known_kind_def heavy_playlist_def)
  have f: "fresh_ids restricted_day no_apple ?s"
    by (auto simp: fresh_ids_def e restricted_day_def no_apple_def inj_def)
  have n: "new_id (sgCharge restricted_day) (qLedger ?s)" "sgCharge restricted_day \<notin> qHeld ?s"
    by (simp_all add: e new_id_def no_charges_def restricted_day_def)
  have d: "qHeld (empty_sched True 20 (no_charges None)) \<union> deferred_charge (SleepDeferred ''c9'' 73800) = {''c9''}"
    by (simp add: empty_sched_def deferred_charge_def)
  from night_step.Submit [OF k f n quiet_submit, of True] d show ?thesis
    by (simp add: d)
qed


subsection \<open>What a release does\<close>

text \<open>
  Deferring only delays: a job submitted outside the window and released by the tick at its
  release time does to the queue and the ledger what it would have done if released on the spot,
  in the state its charge left; a job submitted inside the window is released on the spot.
\<close>

theorem deferred_release_equals_immediate:
  assumes "\<not> fst (checkGofileDedup (sgUpLookup sg) (sgNow sg) (lgCat (qLedger s)) (jKind j)
      (if jKind j = ''artist'' then artistDedupID (jResourceID j) (jSection j) else jResourceID j)
      (gofileDedupVariant (resolveFormat (sgFormat sg) (jChatID j) (jForceFlac j)) (jForceAAC j) (jForceAtmos j)))"
    and "quotaCheckAndCharge (sgCharge sg) (sgNow sg) (sgUpCharge sg) us (jUserID j) (jUsername j) (jKind j) (qLedger s) = ((cid, True), q)"
    and "uJobs us = []" "immediate = releaseJob sg ap (j\<lparr>jQuotaChargeID := cid\<rparr>) (s\<lparr>qLedger := q\<rparr>)"
  shows "scheduleOrRun sg ap j (us, s) =
      (if inSleepWindow (sgNow sg) then (SleepReleased (fst immediate), us, snd immediate)
       else (SleepDeferred cid (nextWindowStart (sgNow sg)), snd (scheduleOrRun sg ap j (us, s)))) \<and>
    (if inSleepWindow (sgNow sg) then True
     else snd (releaseDueJobs (\<lambda>_. sg) ap (nextWindowStart (sgNow sg)) (snd (scheduleOrRun sg ap j (us, s)))) = (us, snd immediate))"
proof -
  let ?k = "j\<lparr>jQuotaChargeID := cid, jID := sgTask sg, jReleaseAtUnix := nextWindowStart (sgNow sg), jCreatedAtUnix := sgNow sg\<rparr>"
  have rel: "releaseJob sg ap ?k (s\<lparr>qLedger := q\<rparr>) = immediate" by (simp add: releaseJob_def job_submission_def assms(4))
  have run: "scheduleOrRun sg ap j (us, s) =
      (if inSleepWindow (sgNow sg) then (SleepReleased (fst immediate), us, snd immediate)
       else (SleepDeferred cid (nextWindowStart (sgNow sg)), us\<lparr>uJobs := [?k]\<rparr>, s\<lparr>qLedger := q\<rparr>))"
    using assms(1-3) by (simp add: scheduleOrRun_def Let_def scheduleJob_def split_beta flip: assms(4))
  have us: "us\<lparr>uJobs := []\<rparr> = us" using assms(3) by (metis users.surjective users.update_convs(5))
  show ?thesis
    using us rel by (simp add: run releaseDueJobs_simps take_due_simps)
qed

theorem deferred_release_equals_immediate_witness:
  "snd (releaseDueJobs (\<lambda>_. restricted_day) no_apple 73800
     (snd (scheduleOrRun restricted_day no_apple (heavy_playlist [] 7) (ntUsers quiet_night, ntSched quiet_night)))) =
   (ntUsers quiet_night, snd (releaseJob restricted_day no_apple ((heavy_playlist [] 7)\<lparr>jQuotaChargeID := ''c9''\<rparr>)
     ((ntSched quiet_night)\<lparr>qLedger := snd (quotaCheckAndCharge ''c9'' 0 True plain_users 7 [] ''playlist'' (no_charges None))\<rparr>)))"
proof -
  have q: "quotaCheckAndCharge (sgCharge restricted_day) (sgNow restricted_day) (sgUpCharge restricted_day) (ntUsers quiet_night)
      (jUserID (heavy_playlist [] 7)) (jUsername (heavy_playlist [] 7)) (jKind (heavy_playlist [] 7)) (qLedger (ntSched quiet_night)) =
    ((''c9'', True), snd (quotaCheckAndCharge ''c9'' 0 True plain_users 7 [] ''playlist'' (no_charges None)))"
    by (simp add: quiet_night_def first_night_def restricted_day_def heavy_playlist_def quotaCheckAndCharge_def plain_users_def
      no_users_def ripLimit_def isRestricted_def isUserDonor_def heavyRipLimit_def no_charges_def empty_sched_def Let_def)
  have w: "\<not> inSleepWindow (sgNow restricted_day)" "nextWindowStart (sgNow restricted_day) = 73800"
    by (simp_all add: restricted_day_def window_seconds dhaka_offset_def nextWindowStart_def date_at_def)
  show ?thesis
    using deferred_release_equals_immediate [OF _ q _ refl, of no_apple] w
    by (simp add: checkGofileDedup_def quiet_night_def first_night_def empty_sched_def no_charges_def)
qed

text \<open>
  The count of music videos said to be queued overstates: with the queue full every video of
  the section is refused, and the reply still says that all of them are queued.
\<close>

theorem mv_count_overstates:
  assumes "qCap s \<le> length (qChan s)"
  shows "runArtistMusicVideos board ids su mvs n s = (n + length (filter (\<lambda>v. siID v \<noteq> []) mvs), s)"
  by (induction mvs arbitrary: n) (simp_all add: assms enqueueDownloadWithAfter_def)

theorem mv_count_overstates_witness:
  "fst (runArtistMusicVideos (\<lambda>_. False) (apIDs no_apple) plain_submission [\<lparr>siID = ''1'', siName = []\<rparr>] 0 (empty_sched True 0 (no_charges None))) = 1"
  using mv_count_overstates [of "empty_sched True 0 (no_charges None)"] by (simp add: empty_sched_def)

end
