(* ===== verification/Decrypt.thy ===== *)
theory Decrypt
  imports Go_Strings
begin

section \<open>Fetching and decrypting one track\<close>

text \<open>
  \<^verbatim>\<open>bot/utils/wmclient/decrypt.go\<close>.  The playlist's text, the choice of variant, the keys of
  the segments, and the pipeline that decrypts the segments in order while they arrive in any
  order.  The m3u8 and mp4 packages, HTTP and the Temari session are arguments (the record
  \<open>library\<close>); a failure of theirs is the text of its error.
\<close>

subsection \<open>The media playlist\<close>

definition fairPlayKeyScheme :: string where "fairPlayKeyScheme = ''skd://''"
definition prefetchKey :: string where "prefetchKey = ''skd://itunes.apple.com/P000000000/s1/e1''"

definition newline :: char where "newline = CHR 0x0A"

definition key_line :: "string \<Rightarrow> bool" where
  "key_line ln = has_prefix (trim_space ln) ''#EXT-X-KEY''"

fun keep_lines :: "string list \<Rightarrow> string list \<times> bool \<times> bool" where
  "keep_lines [] = ([], False, False)"
| "keep_lines (ln # lns) =
     (case keep_lines lns of (out, drm, fp) \<Rightarrow>
        if key_line ln then
          if contains ln ''METHOD=NONE'' then (ln # out, drm, fp)
          else if contains ln fairPlayKeyScheme then (ln # out, True, True)
          else (out, True, fp)
        else (ln # out, drm, fp))"

text \<open>\<open>None\<close> is \<^verbatim>\<open>ErrNoFairPlayKey\<close>.\<close>

definition keepFairPlayKeysOnly :: "string \<Rightarrow> string option" where
  "keepFairPlayKeysOnly playlist =
     (case keep_lines (split_byte newline playlist) of (out, drm, fp) \<Rightarrow>
        if drm \<and> \<not> fp then None else Some (join_with [newline] out))"

record segment =
  gURI :: string
  gKey :: "string option"
  gLimit :: int
  gOffset :: int
  gMap :: "(string \<times> int \<times> int) option"

fun key_uris :: "string \<Rightarrow> segment option list \<Rightarrow> string list" where
  "key_uris cur [] = []"
| "key_uris cur (None # ss) = [] # key_uris cur ss"
| "key_uris cur (Some g # ss) =
     (let k = (case gKey g of Some u \<Rightarrow> if u \<noteq> [] then u else cur | None \<Rightarrow> cur) in k # key_uris k ss)"

definition resolveSegmentKeyURIs :: "segment option list \<Rightarrow> string list" where
  "resolveSegmentKeyURIs segments = key_uris prefetchKey segments"

text \<open>A variant: its URI and its CODECS attribute.\<close>

fun firstVariantWithCodec :: "(string \<times> string) option list \<Rightarrow> string \<Rightarrow> string option" where
  "firstVariantWithCodec [] sub = None"
| "firstVariantWithCodec (v # vs) sub =
     (case v of
        Some (uri, codecs) \<Rightarrow> if contains (to_lower codecs) sub then Some uri else firstVariantWithCodec vs sub
      | None \<Rightarrow> firstVariantWithCodec vs sub)"

datatype playlist = Master "(string \<times> string) option list" | Media | OtherList

text \<open>The parser keeps no nil variant: \<^verbatim>\<open>Variants[0].URI\<close> of a nil one would panic.\<close>

definition media_url :: "bool \<Rightarrow> string \<Rightarrow> playlist \<Rightarrow> string + string" where
  "media_url preferAtmos playlistURL pl =
     (case pl of
        Master variants \<Rightarrow>
          (case variants of
             [] \<Rightarrow> Inl ''no variants in master playlist''
           | v # vs \<Rightarrow>
               let first = (case v of Some (uri, _) \<Rightarrow> uri | None \<Rightarrow> []);
                   m = (if preferAtmos then (case firstVariantWithCodec variants ''ec-3'' of Some u \<Rightarrow> u | None \<Rightarrow> first) else first)
               in Inr (if \<not> has_prefix m ''http''
                       then (case last_index_of playlistURL ''/'' of Some i \<Rightarrow> take (i + 1) playlistURL @ m | None \<Rightarrow> m)
                       else m))
      | Media \<Rightarrow> Inr playlistURL
      | OtherList \<Rightarrow> Inl ''unexpected playlist type'')"

subsection \<open>Boxes\<close>

datatype box = Sbgp string u64 | Sgpd string u64 | OtherBox u64

fun box_size :: "box \<Rightarrow> u64" where
  "box_size (Sbgp g n) = n"
| "box_size (Sgpd g n) = n"
| "box_size (OtherBox n) = n"

fun dropped_box :: "box \<Rightarrow> bool" where
  "dropped_box (Sbgp g n) = (g = ''seam'' \<or> g = ''seig'')"
| "dropped_box (Sgpd g n) = (g = ''seam'' \<or> g = ''seig'')"
| "dropped_box (OtherBox n) = False"

fun filter_boxes :: "box list \<Rightarrow> box list \<Rightarrow> u64 \<Rightarrow> box list \<times> u64" where
  "filter_boxes [] remaining removed = (remaining, removed)"
| "filter_boxes (b # bs) remaining removed =
     (if dropped_box b then filter_boxes bs remaining (removed + box_size b)
      else filter_boxes bs (remaining @ [b]) removed)"

definition filterSbgpSgpd :: "box list \<Rightarrow> box list \<times> u64" where
  "filterSbgpSgpd children = filter_boxes children [] 0"

subsection \<open>The pipeline\<close>

text \<open>
  What the loop's \<^verbatim>\<open>select\<close> receives: a downloaded segment, a download's error, or the end of
  the context.  \<open>parse\<close> is \<^verbatim>\<open>parseSeg\<close>, \<open>dec\<close> what \<^verbatim>\<open>decryptAndWrite\<close> writes.  The result carries
  what has been written to the buffer; \<open>PipeWaiting\<close> is the loop blocked at the end of the events.
\<close>

datatype arrival = Arrived nat string | DownloadFailed string | CtxDone string

datatype pipe_result = PipeDone string | PipeFailed string string | PipeWaiting string

function pipeline ::
  "(nat \<Rightarrow> string \<Rightarrow> string + 'p) \<Rightarrow> ('p \<Rightarrow> nat \<Rightarrow> string + string) \<Rightarrow> nat \<Rightarrow> arrival list \<Rightarrow>
   (nat \<rightharpoonup> 'p) \<Rightarrow> nat \<Rightarrow> string \<Rightarrow> pipe_result" where
  "pipeline parse dec nsegs evs ready next out =
     (if \<not> next < nsegs then PipeDone out
      else case ready next of
             Some seg \<Rightarrow>
               (case dec seg next of
                  Inl e \<Rightarrow> PipeFailed e out
                | Inr bs \<Rightarrow> pipeline parse dec nsegs evs (ready(next := None)) (next + 1) (out @ bs))
           | None \<Rightarrow>
               (case evs of
                  [] \<Rightarrow> PipeWaiting out
                | DownloadFailed e # _ \<Rightarrow> PipeFailed e out
                | CtxDone e # _ \<Rightarrow> PipeFailed e out
                | Arrived i bytes # evs1 \<Rightarrow>
                    (case parse i bytes of
                       Inl e \<Rightarrow> PipeFailed e out
                     | Inr seg \<Rightarrow>
                         if i = next then
                           (case dec seg i of
                              Inl e \<Rightarrow> PipeFailed e out
                            | Inr bs \<Rightarrow> pipeline parse dec nsegs evs1 ready (next + 1) (out @ bs))
                         else pipeline parse dec nsegs evs1 (ready(i \<mapsto> seg)) next out)))"
  by pat_completeness auto
termination
  by (relation "measure (\<lambda>(parse, dec, nsegs, evs, ready, next, out). (nsegs - next) + length evs)") auto

declare pipeline.simps [simp del]


subsection \<open>The whole download\<close>

text \<open>
  The packages the code calls: HTTP (with the optional byte range), the m3u8 parser, URL
  resolution, the mp4 boxes and the decryption.  \<open>'i\<close> is an initialisation segment and \<open>'p\<close> a
  parsed fragment; \<open>lbBoxes\<close> are the types of the first two boxes, \<open>lbInit\<close> decodes, decrypts and
  filters them and \<open>lbEncode\<close> writes the result.
\<close>

record ('i, 'p) library =
  lbFetch :: "string \<Rightarrow> (int \<times> int) option \<Rightarrow> string + string"
  lbMaster :: "string \<Rightarrow> string + playlist"
  lbSegments :: "string \<Rightarrow> string + segment option list"
  lbResolve :: "string \<Rightarrow> string \<Rightarrow> string + string"
  lbBoxes :: "string \<Rightarrow> string + string list"
  lbInit :: "string \<Rightarrow> string + 'i"
  lbEncode :: "'i \<Rightarrow> string + string"
  lbParse :: "nat \<Rightarrow> string \<Rightarrow> string + 'p"
  lbDecrypt :: "'i \<Rightarrow> string \<Rightarrow> 'p \<Rightarrow> nat \<Rightarrow> string + string"
  lbCreate :: "string option"
  lbFlush :: "string option"

definition bind_err :: "'e + 'a \<Rightarrow> ('a \<Rightarrow> 'e + 'b) \<Rightarrow> 'e + 'b" where
  "bind_err x f = (case x of Inl e \<Rightarrow> Inl e | Inr a \<Rightarrow> f a)"

lemma bind_err_simps [simp]: "bind_err (Inl e) f = Inl e" "bind_err (Inr a) f = f a"
  by (simp_all add: bind_err_def)

definition fetch_part :: "('i, 'p) library \<Rightarrow> string \<Rightarrow> int \<Rightarrow> int \<Rightarrow> string + string" where
  "fetch_part lb url offset limit =
     lbFetch lb url (if 0 < limit then Some (offset, offset + limit - 1) else None)"

text \<open>The playlists, up to the segments with their keys: the media URL and the segments.\<close>

datatype no_media = NoFairPlayKey | MediaError string

definition media_err :: "string + 'a \<Rightarrow> no_media + 'a" where
  "media_err x = (case x of Inl e \<Rightarrow> Inl (MediaError e) | Inr a \<Rightarrow> Inr a)"

definition media_of ::
  "('i, 'p) library \<Rightarrow> bool \<Rightarrow> string \<Rightarrow> no_media + string \<times> segment option list" where
  "media_of lb preferAtmos playlistURL =
     (bind_err (media_err (lbFetch lb playlistURL None)) (\<lambda>masterBytes.
      bind_err (media_err (lbMaster lb masterBytes)) (\<lambda>pl.
      bind_err (media_err (media_url preferAtmos playlistURL pl)) (\<lambda>mediaURL.
      bind_err (media_err (lbFetch lb mediaURL None)) (\<lambda>mediaBytes.
      bind_err (case keepFairPlayKeysOnly mediaBytes of None \<Rightarrow> Inl NoFairPlayKey | Some t \<Rightarrow> Inr t) (\<lambda>kept.
      bind_err (media_err (lbSegments lb kept)) (\<lambda>segments. Inr (mediaURL, segments))))))))"

text \<open>The initialisation segment: exactly two boxes are read, each \<^verbatim>\<open>ftyp\<close> or \<^verbatim>\<open>moov\<close>.\<close>

definition init_of :: "('i, 'p) library \<Rightarrow> string \<Rightarrow> segment option list \<Rightarrow> string + 'i" where
  "init_of lb mediaURL segments =
     (if length (filter (\<lambda>g. g \<noteq> None) segments) = 0 then Inl ''no segments in playlist''
      else case hd segments of
             None \<Rightarrow> Inl ''no segments in playlist''
           | Some g \<Rightarrow>
               bind_err (case gMap g of
                           Some (uri, _, _) \<Rightarrow> if uri \<noteq> [] then lbResolve lb mediaURL uri else Inr []
                         | None \<Rightarrow> Inr []) (\<lambda>initURL.
               if initURL = [] then Inl ''no init segment URL in playlist''
               else bind_err (case gMap g of Some (_, limit, offset) \<Rightarrow> fetch_part lb initURL offset limit
                                           | None \<Rightarrow> lbFetch lb initURL None) (\<lambda>initData.
                    bind_err (lbBoxes lb initData) (\<lambda>types.
                    if list_all (\<lambda>t. t = ''ftyp'' \<or> t = ''moov'') types then lbInit lb initData
                    else Inl ''unexpected init box type''))))"

text \<open>
  One download: its error and what it leaves in the output file (\<open>None\<close>: the file was not
  created).  When the loop fails, the file holds what the buffered writer had passed on, the
  first \<open>flushed\<close> bytes.
\<close>

definition DownloadAndDecrypt ::
  "('i, 'p) library \<Rightarrow> bool \<Rightarrow> string \<Rightarrow> arrival list \<Rightarrow> nat \<Rightarrow> no_media option \<times> string option" where
  "DownloadAndDecrypt lb preferAtmos playlistURL evs flushed =
     (case media_of lb preferAtmos playlistURL of
        Inl e \<Rightarrow> (Some e, None)
      | Inr (mediaURL, segments) \<Rightarrow>
          (case init_of lb mediaURL segments of
             Inl e \<Rightarrow> (Some (MediaError e), None)
           | Inr ini \<Rightarrow>
               (case lbCreate lb of
                  Some e \<Rightarrow> (Some (MediaError e), None)
                | None \<Rightarrow>
                    (case lbEncode lb ini of
                       Inl e \<Rightarrow> (Some (MediaError e), Some [])
                     | Inr header \<Rightarrow>
                         (let keys = resolveSegmentKeyURIs segments;
                              n = length (filter (\<lambda>g. g \<noteq> None) segments)
                          in case pipeline (lbParse lb) (\<lambda>seg i. lbDecrypt lb ini (keys ! i) seg i) n evs Map.empty 0 header of
                               PipeFailed e out \<Rightarrow> (Some (MediaError e), Some (take flushed out))
                             | PipeWaiting out \<Rightarrow> (Some (MediaError ''context canceled''), Some (take flushed out))
                             | PipeDone out \<Rightarrow>
                                 (case lbFlush lb of
                                    Some e \<Rightarrow> (Some (MediaError e), Some (take flushed out))
                                  | None \<Rightarrow> (None, Some out)))))))"

subsection \<open>No foreign key reaches the wrapper\<close>

lemma keep_lines_out:
  "fst (keep_lines lns) = filter (\<lambda>ln. \<not> key_line ln \<or> contains ln ''METHOD=NONE'' \<or> contains ln fairPlayKeyScheme) lns"
  by (induction lns) (auto simp: split_beta)

lemma keep_lines_flags:
  "fst (snd (keep_lines lns)) = list_ex (\<lambda>ln. key_line ln \<and> \<not> contains ln ''METHOD=NONE'') lns"
  "snd (snd (keep_lines lns)) = list_ex (\<lambda>ln. key_line ln \<and> \<not> contains ln ''METHOD=NONE'' \<and> contains ln fairPlayKeyScheme) lns"
  by (induction lns) (auto simp: split_beta)

lemma split_join_lines: "ls \<noteq> [] \<Longrightarrow> (\<And>l. l \<in> set ls \<Longrightarrow> sep \<notin> set l) \<Longrightarrow> split_byte sep (join_with [sep] ls) = ls"
proof (induction ls)
  case (Cons l ls)
  show ?case
  proof (cases ls)
    case Nil
    then show ?thesis using Cons.prems split_byte_no_sep by simp
  next
    case (Cons m ms)
    then have "split_byte sep (join_with [sep] ls) = ls" using Cons.IH Cons.prems by simp
    then show ?thesis using Cons split_byte_append [of sep l] Cons.prems(2) by simp
  qed
qed simp

lemma split_no_sep: "l \<in> set (split_byte sep s) \<Longrightarrow> sep \<notin> set l"
proof (induction s arbitrary: l)
  case (Cons c s)
  obtain w ws where w: "split_byte sep s = w # ws" by (meson list.exhaust split_byte_nonempty)
  then show ?case using Cons by (auto split: if_splits)
qed simp


text \<open>
  Only FairPlay keys survive: of the playlist's lines, in their order, exactly the key lines
  that neither name FairPlay nor say \<^verbatim>\<open>METHOD=NONE\<close> are gone, and the playlist is refused exactly
  when it has key lines to drop and no FairPlay key.
\<close>

theorem only_fairplay_keys:
  "case keepFairPlayKeysOnly playlist of
     Some t \<Rightarrow>
       split_byte newline t =
         filter (\<lambda>ln. \<not> key_line ln \<or> contains ln ''METHOD=NONE'' \<or> contains ln fairPlayKeyScheme) (split_byte newline playlist) \<and>
       (if list_ex (\<lambda>ln. key_line ln \<and> \<not> contains ln ''METHOD=NONE'') (split_byte newline playlist)
        then list_ex (\<lambda>ln. key_line ln \<and> \<not> contains ln ''METHOD=NONE'' \<and> contains ln fairPlayKeyScheme) (split_byte newline playlist)
        else True)
   | None \<Rightarrow>
       list_ex (\<lambda>ln. key_line ln \<and> \<not> contains ln ''METHOD=NONE'') (split_byte newline playlist) \<and>
       \<not> list_ex (\<lambda>ln. key_line ln \<and> \<not> contains ln ''METHOD=NONE'' \<and> contains ln fairPlayKeyScheme) (split_byte newline playlist)"
proof -
  let ?lns = "split_byte newline playlist" and ?drm = "\<lambda>ln. key_line ln \<and> \<not> contains ln ''METHOD=NONE''"
  let ?fp = "\<lambda>ln. key_line ln \<and> \<not> contains ln ''METHOD=NONE'' \<and> contains ln fairPlayKeyScheme"
  let ?keep = "\<lambda>ln. \<not> key_line ln \<or> contains ln ''METHOD=NONE'' \<or> contains ln fairPlayKeyScheme"
  have k: "keepFairPlayKeysOnly playlist =
      (if list_ex ?drm ?lns \<and> \<not> list_ex ?fp ?lns then None else Some (join_with [newline] (filter ?keep ?lns)))"
    unfolding keepFairPlayKeysOnly_def by (simp add: split_beta keep_lines_out keep_lines_flags)
  have "filter ?keep ?lns \<noteq> []" if "\<not> (list_ex ?drm ?lns \<and> \<not> list_ex ?fp ?lns)"
  proof (cases "list_ex ?fp ?lns")
    case True
    then show ?thesis by (auto simp: list_ex_iff filter_empty_conv)
  next
    case False
    then have "\<forall>ln\<in>set ?lns. \<not> ?drm ln" using that by (auto simp: list_ex_iff)
    then have "filter ?keep ?lns = ?lns" by (auto simp: filter_id_conv)
    then show ?thesis by simp
  qed
  moreover have "\<And>l. l \<in> set (filter ?keep ?lns) \<Longrightarrow> newline \<notin> set l" using split_no_sep by auto
  ultimately show ?thesis using split_join_lines [of "filter ?keep ?lns" newline] by (auto simp: k)
qed

definition two_keys :: string where
  "two_keys = join_with [newline] [''#EXTM3U'', ''#EXT-X-KEY:URI=data:w'', ''#EXT-X-KEY:URI=skd://a'', ''s1.m4s'']"

theorem only_fairplay_keys_witness:
  "\<exists>t. keepFairPlayKeysOnly two_keys = Some t \<and> split_byte newline t = [''#EXTM3U'', ''#EXT-X-KEY:URI=skd://a'', ''s1.m4s'']"
proof -
  have "map_option length (keepFairPlayKeysOnly two_keys) = Some 37" by code_simp
  then obtain t where t: "keepFairPlayKeysOnly two_keys = Some t" by auto
  have "filter (\<lambda>ln. \<not> key_line ln \<or> contains ln ''METHOD=NONE'' \<or> contains ln fairPlayKeyScheme) (split_byte newline two_keys) =
      [''#EXTM3U'', ''#EXT-X-KEY:URI=skd://a'', ''s1.m4s'']"
    by code_simp
  with only_fairplay_keys [of two_keys] t show ?thesis by simp
qed

lemma key_uris_length: "length (key_uris cur ss) = length ss"
  by (induction cur ss rule: key_uris.induct) (simp_all add: Let_def)

lemma key_uris_nth:
  "i < length ss \<Longrightarrow> ss ! i = Some g \<Longrightarrow>
   key_uris cur ss ! i = last (cur # filter (\<lambda>u. u \<noteq> []) (List.map_filter (\<lambda>s. case s of Some g \<Rightarrow> gKey g | None \<Rightarrow> None) (take (i + 1) ss)))"
proof (induction cur ss arbitrary: i rule: key_uris.induct)
  case (2 cur ss)
  then show ?case by (cases i) (auto simp: map_filter_def)
next
  case (3 cur h ss)
  show ?case
  proof (cases i)
    case 0
    then show ?thesis using 3 by (auto simp: map_filter_def Let_def split: option.split)
  next
    case (Suc j)
    then show ?thesis using 3 by (auto simp: map_filter_def Let_def split: option.splits)
  qed
qed simp

subsection \<open>The pipeline writes the segments in order\<close>

text \<open>What a sequential decryption of segments \<open>0 \<dots> k - 1\<close> writes.\<close>

definition segment_out :: "(nat \<Rightarrow> string \<Rightarrow> string + 'p) \<Rightarrow> ('p \<Rightarrow> nat \<Rightarrow> string + string) \<Rightarrow> (nat \<Rightarrow> string) \<Rightarrow> nat \<Rightarrow> string + string" where
  "segment_out parse dec bytes i = bind_err (parse i (bytes i)) (\<lambda>seg. dec seg i)"

definition written :: "(nat \<Rightarrow> string \<Rightarrow> string + 'p) \<Rightarrow> ('p \<Rightarrow> nat \<Rightarrow> string + string) \<Rightarrow> (nat \<Rightarrow> string) \<Rightarrow> nat \<Rightarrow> string" where
  "written parse dec bytes k = concat (map (\<lambda>i. case segment_out parse dec bytes i of Inr w \<Rightarrow> w | Inl _ \<Rightarrow> []) [0..<k])"

lemma written_Suc: "segment_out parse dec bytes k = Inr w \<Longrightarrow> written parse dec bytes (k + 1) = written parse dec bytes k @ w"
  by (simp add: written_def)

fun downloaded :: "arrival \<Rightarrow> nat option" where
  "downloaded (Arrived i bs) = Some i"
| "downloaded _ = None"

fun buffer_of :: "pipe_result \<Rightarrow> string" where
  "buffer_of (PipeDone out) = out" | "buffer_of (PipeFailed e out) = out" | "buffer_of (PipeWaiting out) = out"

definition honest :: "(nat \<Rightarrow> string) \<Rightarrow> arrival list \<Rightarrow> bool" where
  "honest bytes evs = list_all (\<lambda>e. case e of Arrived i bs \<Rightarrow> bs = bytes i | _ \<Rightarrow> True) evs"

lemma pipe_steps:
  "\<not> next < nsegs \<Longrightarrow> pipeline parse dec nsegs evs ready next out = PipeDone out"
  "next < nsegs \<Longrightarrow> ready next = Some seg \<Longrightarrow> pipeline parse dec nsegs evs ready next out =
     (case dec seg next of Inl e \<Rightarrow> PipeFailed e out | Inr w \<Rightarrow> pipeline parse dec nsegs evs (ready(next := None)) (next + 1) (out @ w))"
  "next < nsegs \<Longrightarrow> ready next = None \<Longrightarrow> pipeline parse dec nsegs [] ready next out = PipeWaiting out"
  "next < nsegs \<Longrightarrow> ready next = None \<Longrightarrow> downloaded e = None \<Longrightarrow> \<exists>er. pipeline parse dec nsegs (e # evs) ready next out = PipeFailed er out"
  "next < nsegs \<Longrightarrow> ready next = None \<Longrightarrow> pipeline parse dec nsegs (Arrived i bs # evs) ready next out =
     (case parse i bs of Inl e \<Rightarrow> PipeFailed e out
      | Inr seg \<Rightarrow> if i = next
                  then (case dec seg i of Inl e \<Rightarrow> PipeFailed e out | Inr w \<Rightarrow> pipeline parse dec nsegs evs ready (next + 1) (out @ w))
                  else pipeline parse dec nsegs evs (ready(i \<mapsto> seg)) next out)"
  by (simp_all add: pipeline.simps [of parse dec nsegs _ ready "next" out] split: arrival.split) (cases e; simp)

text \<open>Why the loop cannot go on: the segment fails, no event is left, or the event is a failure.\<close>

definition blocked ::
  "(nat \<Rightarrow> string \<Rightarrow> string + 'p) \<Rightarrow> ('p \<Rightarrow> nat \<Rightarrow> string + string) \<Rightarrow> arrival list \<Rightarrow> (nat \<rightharpoonup> 'p) \<Rightarrow> nat \<Rightarrow> bool" where
  "blocked parse dec evs ready k =
     (case ready k of
        Some seg \<Rightarrow> isl (dec seg k)
      | None \<Rightarrow> (case evs of
                   [] \<Rightarrow> True
                 | Arrived i bs # _ \<Rightarrow> isl (parse i bs) \<or> i = k \<and> isl (bind_err (parse i bs) (\<lambda>seg. dec seg i))
                 | _ # _ \<Rightarrow> True))"

text \<open>The shape of a run: it ends, fails or waits with its buffer, or goes on with one more segment.\<close>

lemma pipeline_induct [case_names finished stuck ready arrived buffered]:
  assumes "\<And>evs ready next out. \<not> next < nsegs \<Longrightarrow> P evs ready next out (PipeDone out)"
    and "\<And>evs ready next out r. next < nsegs \<Longrightarrow> buffer_of r = out \<Longrightarrow> (\<And>w. r \<noteq> PipeDone w) \<Longrightarrow>
      blocked parse dec evs ready next \<Longrightarrow> P evs ready next out r"
    and "\<And>evs ready next out seg w r. next < nsegs \<Longrightarrow> ready next = Some seg \<Longrightarrow> dec seg next = Inr w \<Longrightarrow>
      P evs (ready(next := None)) (next + 1) (out @ w) r \<Longrightarrow> P evs ready next out r"
    and "\<And>bs evs ready next out seg w r. next < nsegs \<Longrightarrow> ready next = None \<Longrightarrow> parse next bs = Inr seg \<Longrightarrow> dec seg next = Inr w \<Longrightarrow>
      P evs ready (next + 1) (out @ w) r \<Longrightarrow> P (Arrived next bs # evs) ready next out r"
    and "\<And>i bs evs ready next out seg r. next < nsegs \<Longrightarrow> ready next = None \<Longrightarrow> parse i bs = Inr seg \<Longrightarrow> i \<noteq> next \<Longrightarrow>
      P evs (ready(i \<mapsto> seg)) next out r \<Longrightarrow> P (Arrived i bs # evs) ready next out r"
  shows "P evs ready next out (pipeline parse dec nsegs evs ready next out)"
proof (induction "(nsegs - next) + length evs" arbitrary: evs ready "next" out rule: less_induct)
  case less
  show ?case
  proof (cases "next < nsegs")
    case False
    then show ?thesis using assms(1) by (simp add: pipe_steps)
  next
    case n: True
    show ?thesis
    proof (cases "ready next")
      case (Some seg)
      have p: "pipeline parse dec nsegs evs ready next out =
          (case dec seg next of Inl e \<Rightarrow> PipeFailed e out | Inr w \<Rightarrow> pipeline parse dec nsegs evs (ready(next := None)) (next + 1) (out @ w))"
        by (rule pipe_steps(2)) (use n Some in simp_all)
      show ?thesis
      proof (cases "dec seg next")
        case (Inl e)
        show ?thesis by (rule assms(2)) (use n p Inl Some in \<open>simp_all add: blocked_def\<close>)
      next
        case (Inr w)
        have "P evs (ready(next := None)) (next + 1) (out @ w) (pipeline parse dec nsegs evs (ready(next := None)) (next + 1) (out @ w))"
          by (rule less) (use n in simp)
        from assms(3) [where ready = ready, OF n Some Inr this] show ?thesis by (simp add: p Inr)
      qed
    next
      case none: None
      consider (nil) "evs = []" | (bad) e evs1 where "evs = e # evs1" "downloaded e = None" | (seg) i bs evs1 where "evs = Arrived i bs # evs1"
        by (metis downloaded.cases downloaded.simps(2,3) list.exhaust)
      then show ?thesis
      proof cases
        case nil
        then show ?thesis using n none by (intro assms(2)) (simp_all add: pipe_steps blocked_def)
      next
        case bad
        then obtain er where "pipeline parse dec nsegs evs ready next out = PipeFailed er out" using pipe_steps(4) n none by blast
        then show ?thesis using n none bad by (intro assms(2)) (auto simp: blocked_def split: arrival.split)
      next
        case (seg i bs evs1)
        note p = pipe_steps(5) [of "next" nsegs ready parse dec i bs evs1 out, OF n none]
        show ?thesis
        proof (cases "parse i bs")
          case (Inl e)
          then show ?thesis unfolding seg by (intro assms(2)) (use n none p in \<open>simp_all add: blocked_def\<close>)
        next
          case sg: (Inr sg)
          show ?thesis
          proof (cases "i = next")
            case False
            have "P evs1 (ready(i \<mapsto> sg)) next out (pipeline parse dec nsegs evs1 (ready(i \<mapsto> sg)) next out)"
              by (rule less) (simp add: seg)
            from assms(5) [OF n none sg False this] show ?thesis using False by (simp add: seg p sg)
          next
            case True
            show ?thesis
            proof (cases "dec sg i")
              case (Inl e)
              then show ?thesis unfolding seg by (intro assms(2)) (use n none p sg True in \<open>simp_all add: blocked_def\<close>)
            next
              case (Inr w)
              have "P evs1 ready (next + 1) (out @ w) (pipeline parse dec nsegs evs1 ready (next + 1) (out @ w))"
                by (rule less) (use n in \<open>simp add: seg\<close>)
              from assms(4) [OF n none sg [unfolded True] Inr [unfolded True] this]
              show ?thesis using p by (simp add: seg sg True Inr [unfolded True] sg [unfolded True])
            qed
          qed
        qed
      qed
    qed
  qed
qed


definition parsed_ok :: "(nat \<Rightarrow> string \<Rightarrow> string + 'p) \<Rightarrow> (nat \<Rightarrow> string) \<Rightarrow> (nat \<rightharpoonup> 'p) \<Rightarrow> bool" where
  "parsed_ok parse bytes ready = (\<forall>i seg. ready i = Some seg \<longrightarrow> parse i (bytes i) = Inr seg)"

lemma parsed_okD: "parsed_ok parse bytes ready \<Longrightarrow> ready i = Some seg \<Longrightarrow> parse i (bytes i) = Inr seg"
  by (simp add: parsed_ok_def)

lemma parsed_ok_simps [simp]:
  "parsed_ok parse bytes Map.empty" "parsed_ok parse bytes ready \<Longrightarrow> parsed_ok parse bytes (ready(i := None))"
  "parsed_ok parse bytes ready \<Longrightarrow> parse i (bytes i) = Inr seg \<Longrightarrow> parsed_ok parse bytes (ready(i \<mapsto> seg))"
  by (auto simp: parsed_ok_def)

lemma honest_simps [simp]:
  "honest bytes []" "honest bytes (Arrived i bs # evs) \<longleftrightarrow> bs = bytes i \<and> honest bytes evs"
  by (auto simp: honest_def)

lemma written_next:
  "parse k (bytes k) = Inr seg \<Longrightarrow> dec seg k = Inr w \<Longrightarrow> out = h @ written parse dec bytes k \<Longrightarrow>
   out @ w = h @ written parse dec bytes (k + 1)"
  using written_Suc [of parse dec bytes k w] by (simp add: segment_out_def)

lemma pipeline_prefix:
  "honest bytes evs \<Longrightarrow> parsed_ok parse bytes ready \<Longrightarrow> out = h @ written parse dec bytes next \<Longrightarrow> next \<le> nsegs \<Longrightarrow>
   \<exists>k\<le>nsegs. buffer_of (pipeline parse dec nsegs evs ready next out) = h @ written parse dec bytes k \<and>
     (\<forall>out'. pipeline parse dec nsegs evs ready next out = PipeDone out' \<longrightarrow> k = nsegs)"
proof (induction parse dec nsegs evs ready "next" out rule: pipeline_induct)
  case (finished evs ready "next" out)
  then have "next = nsegs" by simp
  then show ?case using finished by (intro exI [of _ nsegs]) simp
next
  case (stuck evs ready "next" out r)
  then show ?case by (intro exI [of _ "next"]) simp
next
  case (ready evs ready "next" out seg w r)
  from written_next [OF parsed_okD [OF ready(6,2)] ready(3,7)]
  show ?case by (rule ready(4) [OF ready(5) parsed_ok_simps(2) [OF ready(6)]]) (use ready(1) in simp)
next
  case (arrived bs evs ready "next" out seg w r)
  then have bs: "bs = bytes next" "honest bytes evs" by simp_all
  from written_next [OF arrived(3) [unfolded bs(1)] arrived(4,8)]
  show ?case by (rule arrived(5) [OF bs(2) arrived(7)]) (use arrived(1) in simp)
next
  case (buffered i bs evs ready "next" out seg r)
  then have bs: "bs = bytes i" "honest bytes evs" by simp_all
  show ?case
    by (rule buffered(5) [OF bs(2) parsed_ok_simps(3) [OF buffered(7) buffered(3) [unfolded bs(1)]] buffered(8,9)])
qed

definition covered :: "nat \<Rightarrow> nat \<Rightarrow> (nat \<rightharpoonup> 'p) \<Rightarrow> arrival list \<Rightarrow> bool" where
  "covered nsegs k ready evs = (\<forall>i. k \<le> i \<longrightarrow> i < nsegs \<longrightarrow> ready i \<noteq> None \<or> Some i \<in> downloaded ` set evs)"

lemma coveredD: "covered nsegs k ready evs \<Longrightarrow> k \<le> i \<Longrightarrow> i < nsegs \<Longrightarrow> ready i = None \<Longrightarrow> Some i \<in> downloaded ` set evs"
  unfolding covered_def by blast

lemma covered_steps:
  "covered nsegs k ready evs \<Longrightarrow> covered nsegs (k + 1) (ready(k := None)) evs"
  "covered nsegs k ready (Arrived k bs # evs) \<Longrightarrow> covered nsegs (k + 1) ready evs"
  "covered nsegs k ready (Arrived i bs # evs) \<Longrightarrow> covered nsegs k (ready(i \<mapsto> seg)) evs"
  by (simp_all add: covered_def) (metis Suc_leD not_less_eq_eq order_refl, blast)

lemma pipeline_done:
  "honest bytes evs \<Longrightarrow> parsed_ok parse bytes ready \<Longrightarrow> list_all (\<lambda>e. downloaded e \<noteq> None) evs \<Longrightarrow>
   covered nsegs next ready evs \<Longrightarrow>
   {..<nsegs} \<union> {i. Some i \<in> downloaded ` set evs} \<subseteq> {i. \<not> isl (segment_out parse dec bytes i)} \<Longrightarrow>
   \<exists>out'. pipeline parse dec nsegs evs ready next out = PipeDone out'"
proof (induction parse dec nsegs evs ready "next" out rule: pipeline_induct)
  case (stuck evs ready "next" out r)
  have good: "\<not> isl (segment_out parse dec bytes i)" if "i < nsegs \<or> Some i \<in> downloaded ` set evs" for i
    using stuck(9) that by blast
  have False
  proof (cases "ready next")
    case (Some seg)
    have "parse next (bytes next) = Inr seg" by (rule parsed_okD [OF stuck(6) Some])
    with good [of "next"] stuck(1,4) Some show ?thesis by (simp add: blocked_def segment_out_def)
  next
    case None
    from coveredD [OF stuck(8) _ stuck(1) None] have "Some next \<in> downloaded ` set evs" by simp
    then obtain e evs1 where evs: "evs = e # evs1" by (cases evs) auto
    then obtain i bs where e: "e = Arrived i bs" using stuck(7) by (cases e) auto
    have "bs = bytes i" using stuck(5) evs e by simp
    with good [of i] stuck(4) None evs e show ?thesis
      by (cases "parse i bs") (auto simp: blocked_def segment_out_def)
  qed
  then show ?case ..
next
  case (ready evs ready "next" out seg w r)
  show ?case
    by (rule ready(4) [OF ready(5) parsed_ok_simps(2) [OF ready(6)] ready(7) covered_steps(1) [OF ready(8)] ready(9)])
next
  case (arrived bs evs ready "next" out seg w r)
  then have "honest bytes evs" "list_all (\<lambda>e. downloaded e \<noteq> None) evs"
    "{..<nsegs} \<union> {i. Some i \<in> downloaded ` set evs} \<subseteq> {i. \<not> isl (segment_out parse dec bytes i)}" by auto
  then show ?case by (intro arrived(5) arrived(7) covered_steps(2) [OF arrived(9)])
next
  case (buffered i bs evs ready "next" out seg r)
  then have "honest bytes evs" "bs = bytes i" "list_all (\<lambda>e. downloaded e \<noteq> None) evs"
    "{..<nsegs} \<union> {i. Some i \<in> downloaded ` set evs} \<subseteq> {i. \<not> isl (segment_out parse dec bytes i)}" by auto
  then show ?case
    using buffered(3) by (intro buffered(5) covered_steps(3) [OF buffered(9)] parsed_ok_simps(3) buffered(7)) simp_all
qed simp

text \<open>
  C9: The pipeline is the sequential decryption: whatever order the downloads arrive in and
  wherever an error or a stop cuts them off, what has been written is the header and then the
  first segments in order, nothing skipped and nothing twice; and when every segment arrives and
  decrypts, the loop ends with all of them written.
\<close>

theorem pipeline_is_sequential:
  assumes "honest bytes evs"
  shows "(\<exists>k\<le>nsegs. buffer_of (pipeline parse dec nsegs evs Map.empty 0 h) = h @ written parse dec bytes k) \<and>
    (if list_all (\<lambda>e. downloaded e \<noteq> None) evs \<and> {..<nsegs} \<subseteq> {i. Some i \<in> downloaded ` set evs} \<and>
        {i. Some i \<in> downloaded ` set evs} \<union> {..<nsegs} \<subseteq> {i. \<not> isl (segment_out parse dec bytes i)}
     then pipeline parse dec nsegs evs Map.empty 0 h = PipeDone (h @ written parse dec bytes nsegs) else True)"
proof -
  have w0: "h = h @ written parse dec bytes 0" by (simp add: written_def)
  from pipeline_prefix [OF assms parsed_ok_simps(1) w0, of nsegs]
  obtain k where k: "k \<le> nsegs" "buffer_of (pipeline parse dec nsegs evs Map.empty 0 h) = h @ written parse dec bytes k"
    "\<forall>out'. pipeline parse dec nsegs evs Map.empty 0 h = PipeDone out' \<longrightarrow> k = nsegs" by auto
  have "pipeline parse dec nsegs evs Map.empty 0 h = PipeDone (h @ written parse dec bytes nsegs)"
    if "list_all (\<lambda>e. downloaded e \<noteq> None) evs" "{..<nsegs} \<subseteq> {i. Some i \<in> downloaded ` set evs}"
      "{i. Some i \<in> downloaded ` set evs} \<union> {..<nsegs} \<subseteq> {i. \<not> isl (segment_out parse dec bytes i)}"
  proof -
    have "\<exists>out'. pipeline parse dec nsegs evs Map.empty 0 h = PipeDone out'"
      by (rule pipeline_done [OF assms parsed_ok_simps(1) that(1)]) (use that(2,3) in \<open>auto simp: covered_def\<close>)
    then show ?thesis using k(2,3) by auto
  qed
  with k(1,2) show ?thesis by auto
qed

definition two_segments :: "nat \<Rightarrow> string" where "two_segments i = (if i = 0 then ''ab'' else ''cd'')"

theorem pipeline_is_sequential_witness:
  "pipeline (\<lambda>_ bs. Inr bs) (\<lambda>seg _. Inr seg) 2 [Arrived 1 ''cd'', Arrived 0 ''ab''] Map.empty 0 ''h'' = PipeDone ''habcd''"
proof -
  have u: "{..<2::nat} = {0, 1}" by auto
  have "honest two_segments [Arrived 1 ''cd'', Arrived 0 ''ab'']" by (simp add: honest_def two_segments_def)
  from pipeline_is_sequential [OF this, of 2 "\<lambda>_ bs. Inr bs" "\<lambda>seg _. Inr seg" "''h''"] show ?thesis
    by (simp add: u segment_out_def written_def two_segments_def upt_rec)
qed

end
