(* ===== verification/Rip_Flush.thy ===== *)
theory Rip_Flush
  imports Rip_State
begin

section \<open>Concurrent rips: delivery in parts and the files they share\<close>

text \<open>
  Runs of several rips over one registry and one disk.  The cursor partitions a rip's files
  into the chunks delivered and the remainder; the registry counts, per normalised path, the
  references of all rips; a flush unlinks a file only when no reference is left.  The check
  and the unlinking of one file are one step here.
\<close>

subsection \<open>Runs\<close>

datatype rip_event =
    Ripped string
  | Checkpoint bool "string list" "string list" bool
  | Boundary bool "string list" bool
  | Finished

text \<open>\<open>listing\<close> is the order in which Go lists a map's entries.\<close>

definition run_event ::
  "(string \<Rightarrow> string) \<Rightarrow> (string multiset \<Rightarrow> string list) \<Rightarrow> nat \<Rightarrow> rip_event \<Rightarrow> world \<Rightarrow> world \<times> string list" where
  "run_event key listing i e w =
     (if \<not> i < length (wRips w) then (w, [])
      else case e of
             Ripped p \<Rightarrow> (addPath key i p w, [])
           | Checkpoint cancelled drained during ok \<Rightarrow> checkpointFlush key i cancelled drained during ok w
           | Boundary cancelled during ok \<Rightarrow> flushReleaseBoundary key i cancelled during ok w
           | Finished \<Rightarrow> (releaseAllHeld key i (listing (sHeld (wRips w ! i))) w, []))"

fun run_events ::
  "(string \<Rightarrow> string) \<Rightarrow> (string multiset \<Rightarrow> string list) \<Rightarrow> (nat \<times> rip_event) list \<Rightarrow> world \<Rightarrow>
   world \<times> (nat \<times> string list) list" where
  "run_events key listing [] w = (w, [])"
| "run_events key listing ((i, e) # es) w =
     (let (w1, chunk) = run_event key listing i e w;
          (w2, log) = run_events key listing es w1
      in (w2, (i, chunk) # log))"

definition delivered_by :: "nat \<Rightarrow> (nat \<times> string list) list \<Rightarrow> string list" where
  "delivered_by i log = concat (map snd (filter (\<lambda>x. fst x = i) log))"

lemma delivered_by_simps [simp]:
  "delivered_by i [] = []"
  "delivered_by i ((j, c) # log) = (if j = i then c @ delivered_by i log else delivered_by i log)"
  by (simp_all add: delivered_by_def)

subsection \<open>The registry counts the references of all rips\<close>

definition all_held :: "world \<Rightarrow> string multiset" where
  "all_held w = \<Sum>\<^sub># (mset (map sHeld (wRips w)))"

definition reg_ok :: "(string \<Rightarrow> string) \<Rightarrow> world \<Rightarrow> bool" where
  "reg_ok key w = (wReg w = image_mset key (all_held w))"

lemma sum_list_update_mset:
  "i < length xs \<Longrightarrow> \<Sum>\<^sub># (mset (map f (xs[i := x]))) + f (xs ! i) = \<Sum>\<^sub># (mset (map f xs)) + (f x :: 'a multiset)"
proof (induction xs arbitrary: i)
  case (Cons y ys)
  show ?case
  proof (cases i)
    case (Suc j)
    with Cons show ?thesis by (simp add: ac_simps)
  qed simp
qed simp

lemma multiset_move: "X + add_mset p H = Y + H \<Longrightarrow> add_mset p X = Y"
  by (simp only: union_mset_add_mset_left union_mset_add_mset_right add_right_cancel flip: union_mset_add_mset_left)

lemma all_held_upd:
  "i < length (wRips w) \<Longrightarrow> all_held (upd_rip i f w) + sHeld (wRips w ! i) = all_held w + sHeld (f (wRips w ! i))"
  using sum_list_update_mset [of i "wRips w" sHeld] by (simp add: all_held_def upd_rip_def)

lemma all_held_same:
  "i < length (wRips w) \<Longrightarrow> sHeld (f (wRips w ! i)) = sHeld (wRips w ! i) \<Longrightarrow> all_held (upd_rip i f w) = all_held w"
  using all_held_upd [of i w f] by simp

lemma held_in_all: "i < length (wRips w) \<Longrightarrow> p \<in># sHeld (wRips w ! i) \<Longrightarrow> p \<in># all_held w"
  by (auto simp: all_held_def in_Union_mset_iff)

lemma held_in_reg:
  "reg_ok key w \<Longrightarrow> i < length (wRips w) \<Longrightarrow> p \<in># sHeld (wRips w ! i) \<Longrightarrow> key p \<in># wReg w"
  by (simp add: reg_ok_def held_in_all)

lemma upd_rip_simps [simp]:
  "length (wRips (upd_rip i f w)) = length (wRips w)"
  "wReg (upd_rip i f w) = wReg w" "wDisk (upd_rip i f w) = wDisk w"
  "i < length (wRips w) \<Longrightarrow> wRips (upd_rip i f w) ! j = (if j = i then f (wRips w ! i) else wRips w ! j)"
  by (simp_all add: upd_rip_def nth_list_update)

lemma reg_ok_upd:
  "reg_ok key w \<Longrightarrow> i < length (wRips w) \<Longrightarrow> sHeld (f (wRips w ! i)) = sHeld (wRips w ! i) \<Longrightarrow> reg_ok key (upd_rip i f w)"
  by (simp add: reg_ok_def all_held_same)

text \<open>What a rip's own bookkeeping keeps: the number of rips, the other rips, and the registry law.\<close>

definition others_kept :: "nat \<Rightarrow> world \<Rightarrow> world \<Rightarrow> bool" where
  "others_kept i w w' = (length (wRips w') = length (wRips w) \<and> (\<forall>j. j \<noteq> i \<longrightarrow> wRips w' ! j = wRips w ! j))"

lemma others_kept_refl [simp]: "others_kept i w w"
  by (simp add: others_kept_def)

lemma others_kept_trans: "others_kept i w w1 \<Longrightarrow> others_kept i w1 w2 \<Longrightarrow> others_kept i w w2"
  by (simp add: others_kept_def)

lemma others_kept_upd [simp]: "others_kept i w (upd_rip i f w)"
  by (simp add: others_kept_def upd_rip_def)

lemma addPath_eq:
  assumes "i < length (wRips w)"
  shows "addPath key i p w = (if p = [] then upd_rip i (\<lambda>r. r\<lparr>sPaths := sPaths r @ [p]\<rparr>) w
     else (upd_rip i (\<lambda>r. r\<lparr>sPaths := sPaths r @ [p], sHeld := add_mset p (sHeld r)\<rparr>) w)
            \<lparr>wReg := add_mset (key p) (wReg w)\<rparr>)"
  using assms by (simp add: addPath_def retain_def retainInUse_def upd_rip_def)

lemma addPath_ok:
  assumes "reg_ok key w" "i < length (wRips w)"
  shows "reg_ok key (addPath key i p w)"
proof (cases "p = []")
  case True
  with assms show ?thesis by (simp add: addPath_eq reg_ok_upd)
next
  case False
  let ?f = "\<lambda>r. r\<lparr>sPaths := sPaths r @ [p], sHeld := add_mset p (sHeld r)\<rparr>"
  have "all_held (upd_rip i ?f w) + sHeld (wRips w ! i) = add_mset p (all_held w) + sHeld (wRips w ! i)"
    using all_held_upd [OF assms(2), of ?f] by simp
  then have "all_held (upd_rip i ?f w) = add_mset p (all_held w)" by simp
  moreover have "all_held (v\<lparr>wReg := m\<rparr>) = all_held v" for v m by (simp add: all_held_def)
  ultimately show ?thesis
    using assms False by (simp add: addPath_eq reg_ok_def)
qed

lemma addPath_frame:
  assumes "i < length (wRips w)"
  shows "others_kept i w (addPath key i p w)" "wDisk (addPath key i p w) = wDisk w"
    "sPaths (wRips (addPath key i p w) ! i) = sPaths (wRips w ! i) @ [p]"
    "sFlushStart (wRips (addPath key i p w) ! i) = sFlushStart (wRips w ! i)"
    "sFlushStageOnly (wRips (addPath key i p w) ! i) = sFlushStageOnly (wRips w ! i)"
    "sFlushedAny (wRips (addPath key i p w) ! i) = sFlushedAny (wRips w ! i)"
    "sFlushSeq (wRips (addPath key i p w) ! i) = sFlushSeq (wRips w ! i)"
    "wReg w \<subseteq># wReg (addPath key i p w)"
  using assms by (auto simp: addPath_eq others_kept_def)

text \<open>Releasing one held reference keeps the law.\<close>

lemma releaseHeld_cases:
  assumes "reg_ok key w" "i < length (wRips w)" "[] \<notin># sHeld (wRips w ! i)"
  obtains (held) n w' where "p \<noteq> []" "p \<in># sHeld (wRips w ! i)" "releaseHeld key i p w = ((n, True), w')"
      "w' = (upd_rip i (\<lambda>r. r\<lparr>sHeld := sHeld r - {#p#}\<rparr>) w)\<lparr>wReg := wReg w - {#key p#}\<rparr>"
      "n = count (wReg w - {#key p#}) (key p)" "reg_ok key w'"
  | (free) "p \<notin># sHeld (wRips w ! i)" "releaseHeld key i p w = ((0, False), w)"
proof (cases "p \<in># sHeld (wRips w ! i)")
  case True
  then have p: "p \<noteq> []" using assms(3) by auto
  let ?f = "\<lambda>r. r\<lparr>sHeld := sHeld r - {#p#}\<rparr>"
  let ?w = "(upd_rip i ?f w)\<lparr>wReg := wReg w - {#key p#}\<rparr>"
  have in_reg: "key p \<in># wReg w" by (rule held_in_reg [OF assms(1,2) True])
  obtain H where H: "sHeld (wRips w ! i) = add_mset p H" using True by (metis multi_member_split)
  have "all_held (upd_rip i ?f w) + add_mset p H = all_held w + H"
    using all_held_upd [OF assms(2), of ?f] H by simp
  then have moved: "add_mset p (all_held (upd_rip i ?f w)) = all_held w" by (rule multiset_move)
  have "image_mset key (all_held w) - {#key p#} = image_mset key (all_held (upd_rip i ?f w))"
    by (simp flip: moved)
  then have "reg_ok key ?w" using assms(1) by (simp add: reg_ok_def) (simp add: all_held_def)
  moreover have "releaseHeld key i p w = ((count (wReg w - {#key p#}) (key p), True), ?w)"
    using True p in_reg by (simp add: releaseHeld_def releaseInUse_def Let_def)
  ultimately show thesis using held p True by blast
next
  case False
  then show thesis using free by (simp add: releaseHeld_def)
qed

subsection \<open>The world invariant and what removal does\<close>

definition world_ok :: "(string \<Rightarrow> string) \<Rightarrow> world \<Rightarrow> bool" where
  "world_ok key w = (reg_ok key w \<and>
     (\<forall>i<length (wRips w). [] \<notin># sHeld (wRips w ! i) \<and> sFlushStart (wRips w ! i) \<le> length (sPaths (wRips w ! i))))"

lemma world_okD:
  "world_ok key w \<Longrightarrow> reg_ok key w"
  "world_ok key w \<Longrightarrow> i < length (wRips w) \<Longrightarrow> [] \<notin># sHeld (wRips w ! i)"
  "world_ok key w \<Longrightarrow> i < length (wRips w) \<Longrightarrow> sFlushStart (wRips w ! i) \<le> length (sPaths (wRips w ! i))"
  by (simp_all add: world_ok_def)

lemma world_okI:
  assumes "world_ok key w" "reg_ok key w'" "others_kept i w w'"
    and "[] \<notin># sHeld (wRips w' ! i)" "sFlushStart (wRips w' ! i) \<le> length (sPaths (wRips w' ! i))"
  shows "world_ok key w'"
  using assms unfolding world_ok_def others_kept_def by metis

definition cursor :: "rip \<Rightarrow> string list \<times> nat \<times> int \<times> bool \<times> bool" where
  "cursor r = (sPaths r, sFlushStart r, sFlushSeq r, sFlushStageOnly r, sFlushedAny r)"

lemma addPath_world_ok [step_inv]:
  assumes "world_ok key w" "i < length (wRips w)"
  shows "world_ok key (addPath key i p w)"
proof (rule world_okI [OF assms(1), of _ i])
  show "reg_ok key (addPath key i p w)" by (rule addPath_ok [OF world_okD(1) [OF assms(1)] assms(2)])
  show "[] \<notin># sHeld (wRips (addPath key i p w) ! i)"
    using world_okD(2) [OF assms] assms(2) by (auto simp: addPath_eq)
  show "sFlushStart (wRips (addPath key i p w) ! i) \<le> length (sPaths (wRips (addPath key i p w) ! i))"
    using world_okD(3) [OF assms] assms(2) by (simp add: addPath_frame)
qed (rule addPath_frame(1) [OF assms(2)])

lemma removeFlushedFile_step:
  assumes "world_ok key w" "i < length (wRips w)"
  shows "world_ok key (removeFlushedFile key i p w)" (is "world_ok key ?w")
    and "others_kept i w (removeFlushedFile key i p w)"
    and "cursor (wRips (removeFlushedFile key i p w) ! i) = cursor (wRips w ! i)"
    and "wReg (removeFlushedFile key i p w) \<subseteq># wReg w"
    and "key q \<in># wReg (removeFlushedFile key i p w) \<Longrightarrow> wDisk (removeFlushedFile key i p w) (key q) = wDisk w (key q)"
    and "wDisk (removeFlushedFile key i p w) k \<noteq> wDisk w k \<Longrightarrow> k = key p"
proof -
  have "world_ok key ?w \<and> others_kept i w ?w \<and> cursor (wRips ?w ! i) = cursor (wRips w ! i) \<and> wReg ?w \<subseteq># wReg w \<and>
      (key q \<in># wReg ?w \<longrightarrow> wDisk ?w (key q) = wDisk w (key q)) \<and> (wDisk ?w k \<noteq> wDisk w k \<longrightarrow> k = key p)"
  proof (cases rule: releaseHeld_cases [OF world_okD(1) [OF assms(1)] assms(2) world_okD(2) [OF assms], of p])
    case (1 n w')
    let ?v = "if 0 < n then w' else if isInUse key p w' then w' else w'\<lparr>wDisk := (wDisk w')(key p := None)\<rparr>"
    have eq: "?w = ?v" using 1(1,3) by (simp add: removeFlushedFile_def)
    have rips: "wRips ?v = wRips w'" "wReg ?v = wReg w'" by simp_all
    have "world_ok key w'"
    proof (rule world_okI [OF assms(1) 1(6), of i])
      show "others_kept i w w'" using 1(4) assms(2) by (simp add: others_kept_def)
      show "[] \<notin># sHeld (wRips w' ! i)" using 1(4) world_okD(2) [OF assms] assms(2) by (auto dest: in_diffD)
      show "sFlushStart (wRips w' ! i) \<le> length (sPaths (wRips w' ! i))"
        using 1(4) world_okD(3) [OF assms] assms(2) by simp
    qed
    then have "world_ok key ?v" by (simp add: world_ok_def reg_ok_def all_held_def)
    moreover have "others_kept i w ?v" using 1(4) assms(2) by (simp add: others_kept_def)
    moreover have "cursor (wRips ?v ! i) = cursor (wRips w ! i)" using 1(4) assms(2) by (simp add: cursor_def)
    moreover have "wReg ?v \<subseteq># wReg w" using 1(4) by simp
    moreover have "wDisk ?v (key q) = wDisk w (key q)" if "key q \<in># wReg ?v"
      using that 1(1,4) by (auto simp: isInUse_def)
    moreover have "k = key p" if "wDisk ?v k \<noteq> wDisk w k"
      using that 1(4) by (auto split: if_splits)
    ultimately show ?thesis unfolding eq by blast
  next
    case 2
    then show ?thesis using assms(1)
      by (auto simp: removeFlushedFile_def isInUse_def world_ok_def reg_ok_def all_held_def others_kept_def)
  qed
  then show "world_ok key ?w" "others_kept i w ?w" "cursor (wRips ?w ! i) = cursor (wRips w ! i)" "wReg ?w \<subseteq># wReg w"
    "key q \<in># wReg ?w \<Longrightarrow> wDisk ?w (key q) = wDisk w (key q)" "wDisk ?w k \<noteq> wDisk w k \<Longrightarrow> k = key p"
    by simp_all
qed

lemma removeFlushedFiles_step:
  assumes "world_ok key w" "i < length (wRips w)"
  shows "world_ok key (removeFlushedFiles key i ps w) \<and> others_kept i w (removeFlushedFiles key i ps w) \<and>
    cursor (wRips (removeFlushedFiles key i ps w) ! i) = cursor (wRips w ! i) \<and>
    wReg (removeFlushedFiles key i ps w) \<subseteq># wReg w \<and>
    (\<forall>q. key q \<in># wReg (removeFlushedFiles key i ps w) \<longrightarrow> wDisk (removeFlushedFiles key i ps w) (key q) = wDisk w (key q)) \<and>
    (\<forall>k. wDisk (removeFlushedFiles key i ps w) k \<noteq> wDisk w k \<longrightarrow> k \<in> key ` set ps)"
  using assms
proof (induction ps arbitrary: w)
  case (Cons p ps)
  let ?w1 = "removeFlushedFile key i p w"
  note one = removeFlushedFile_step [OF Cons.prems]
  have "i < length (wRips ?w1)" using one(2) [of p] Cons.prems(2) by (simp add: others_kept_def)
  note IH = Cons.IH [OF one(1) [of p] this]
  have fold: "removeFlushedFiles key i (p # ps) w = removeFlushedFiles key i ps ?w1"
    by (simp add: removeFlushedFiles_def)
  have disk: "wDisk (removeFlushedFiles key i ps ?w1) (key q) = wDisk w (key q)"
    if "key q \<in># wReg (removeFlushedFiles key i ps ?w1)" for q
  proof -
    have "key q \<in># wReg ?w1" using IH that by (blast dest: mset_subset_eqD)
    with one(5) [of q p] IH that show ?thesis by simp
  qed
  have gone: "k \<in> key ` set (p # ps)" if "wDisk (removeFlushedFiles key i ps ?w1) k \<noteq> wDisk w k" for k
  proof (cases "wDisk ?w1 k = wDisk w k")
    case True
    with that IH show ?thesis by auto
  next
    case False
    then show ?thesis using one(6) [of p k] by simp
  qed
  show ?case unfolding fold
    using IH one(2-4) [of p] disk gone by (auto intro: others_kept_trans subset_mset.order_trans)
qed (simp add: removeFlushedFiles_def)

subsection \<open>The law every event of a rip obeys\<close>

definition step_law :: "(string \<Rightarrow> string) \<Rightarrow> nat \<Rightarrow> world \<Rightarrow> world \<Rightarrow> string list \<Rightarrow> bool" where
  "step_law key i w w' chunk =
     (world_ok key w' \<and> others_kept i w w' \<and>
      (\<forall>q. key q \<in># wReg w' \<longrightarrow> wDisk w' (key q) = wDisk w (key q)) \<and>
      (\<forall>k. wDisk w' k \<noteq> wDisk w k \<longrightarrow> k \<in> key ` set chunk) \<and>
      take (sFlushStart (wRips w' ! i)) (sPaths (wRips w' ! i))
        = take (sFlushStart (wRips w ! i)) (sPaths (wRips w ! i)) @ chunk \<and>
      sFlushStageOnly (wRips w' ! i) = sFlushStageOnly (wRips w ! i) \<and>
      (sFlushStageOnly (wRips w ! i) \<longrightarrow> sFlushedAny (wRips w' ! i) = sFlushedAny (wRips w ! i)))"

lemma step_law_length: "step_law key i w w' c \<Longrightarrow> length (wRips w') = length (wRips w)"
  by (simp add: step_law_def others_kept_def)

lemma step_law_world: "step_law key i w w' c \<Longrightarrow> world_ok key w'"
  by (simp add: step_law_def)

text \<open>Bookkeeping before and after a removal composes with it.\<close>

lemma step_law_after:
  assumes "step_law key i w w1 []" "wDisk w1 = wDisk w" "step_law key i w1 w2 c"
  shows "step_law key i w w2 c"
  using assms by (auto simp: step_law_def intro: others_kept_trans)

lemma step_law_upd:
  assumes "world_ok key w" "i < length (wRips w)" "sHeld (f (wRips w ! i)) = sHeld (wRips w ! i)"
    and "cursor (f (wRips w ! i)) = cursor (wRips w ! i)"
  shows "step_law key i w (upd_rip i f w) []"
proof -
  have "world_ok key (upd_rip i f w)"
  proof (rule world_okI [OF assms(1), of _ i])
    show "reg_ok key (upd_rip i f w)" by (intro reg_ok_upd assms(2,3) world_okD(1) [OF assms(1)])
  qed (use assms world_okD(2,3) [OF assms(1,2)] in \<open>simp_all add: cursor_def\<close>)
  with assms show ?thesis by (simp add: step_law_def cursor_def)
qed

lemma step_law_addPath:
  assumes "world_ok key w" "i < length (wRips w)"
  shows "step_law key i w (addPath key i p w) []"
  using addPath_world_ok [OF assms] world_okD(3) [OF assms]
  by (simp add: step_law_def addPath_frame [OF assms(2)])

lemma step_law_addPaths:
  assumes "world_ok key w" "i < length (wRips w)"
  shows "step_law key i w (fold (addPath key i) ps w) [] \<and> wDisk (fold (addPath key i) ps w) = wDisk w \<and>
    sPaths (wRips (fold (addPath key i) ps w) ! i) = sPaths (wRips w ! i) @ ps \<and>
    sFlushStart (wRips (fold (addPath key i) ps w) ! i) = sFlushStart (wRips w ! i)"
  using assms
proof (induction ps arbitrary: w)
  case Nil
  then show ?case by (simp add: step_law_def)
next
  case (Cons p ps)
  note one = step_law_addPath [OF Cons.prems, of p]
  have "i < length (wRips (addPath key i p w))" using step_law_length [OF one] Cons.prems(2) by simp
  note IH = Cons.IH [OF step_law_world [OF one] this]
  show ?case
    using IH step_law_after [OF one addPath_frame(2) [OF Cons.prems(2)]] by (simp add: addPath_frame [OF Cons.prems(2)])
qed

text \<open>A successful delivery: remove the chunk, then move the cursor to its end.\<close>

lemma step_law_commit:
  assumes "world_ok key w" "i < length (wRips w)"
    and "sPaths (wRips w ! i) = pb @ during" "chunk = drop (sFlushStart (wRips w ! i)) pb"
    and "sFlushStart (wRips w ! i) \<le> length pb"
  shows "step_law key i w (upd_rip i (flush_commit (length pb) part) (removeFlushedFiles key i chunk w)) chunk"
proof -
  let ?v = "removeFlushedFiles key i chunk w"
  let ?u = "upd_rip i (flush_commit (length pb) part) ?v"
  note rm = removeFlushedFiles_step [OF assms(1,2), of chunk]
  have len: "i < length (wRips ?v)" using rm assms(2) by (simp add: others_kept_def)
  have cur: "sPaths (wRips ?v ! i) = pb @ during" "sFlushStart (wRips ?v ! i) = sFlushStart (wRips w ! i)"
    "sFlushStageOnly (wRips ?v ! i) = sFlushStageOnly (wRips w ! i)" "sFlushedAny (wRips ?v ! i) = sFlushedAny (wRips w ! i)"
    using rm assms(3) by (simp_all add: cursor_def)
  have ok: "world_ok key ?v" using rm by blast
  have ok_u: "world_ok key ?u"
  proof (rule world_okI [OF ok, of _ i])
    show "reg_ok key ?u" by (rule reg_ok_upd [OF world_okD(1) [OF ok] len]) (simp add: flush_commit_def)
  qed (use len world_okD(2) [OF ok len] cur in \<open>simp_all add: flush_commit_def\<close>)
  have kept: "others_kept i w ?u" using rm len by (auto simp: others_kept_def)
  have moved: "take (sFlushStart (wRips ?u ! i)) (sPaths (wRips ?u ! i)) = take (sFlushStart (wRips w ! i)) (sPaths (wRips w ! i)) @ chunk"
  proof -
    let ?s = "sFlushStart (wRips w ! i)"
    have "take (length pb) (pb @ during) = take ?s (pb @ during) @ chunk" using assms(4,5) by simp
    with len cur assms(3) show ?thesis by (simp add: flush_commit_def)
  qed
  have modes: "sFlushStageOnly (wRips ?u ! i) = sFlushStageOnly (wRips w ! i)"
    "sFlushStageOnly (wRips w ! i) \<Longrightarrow> sFlushedAny (wRips ?u ! i) = sFlushedAny (wRips w ! i)"
    using len cur by (simp_all add: flush_commit_def)
  have disk: "\<forall>q. key q \<in># wReg ?u \<longrightarrow> wDisk ?u (key q) = wDisk w (key q)"
    "\<forall>k. wDisk ?u k \<noteq> wDisk w k \<longrightarrow> k \<in> key ` set chunk"
    using rm by simp_all
  show ?thesis unfolding step_law_def by (intro conjI impI ok_u kept moved disk modes)
qed

lemma cursor_measure [simp]: "cursor (measurePending key d r) = cursor r" "sHeld (measurePending key d r) = sHeld r"
  by (simp_all add: measurePending_def cursor_def Let_def)

lemma step_law_checkpoint:
  assumes "world_ok key w" "i < length (wRips w)"
  shows "step_law key i w (fst (checkpointFlush key i cancelled drained during ok w))
           (snd (checkpointFlush key i cancelled drained during ok w))"
proof -
  obtain w1 b where due: "checkpoint_due key cancelled i w = (w1, b)" by fastforce
  have l1: "step_law key i w w1 []" and d1: "wDisk w1 = wDisk w"
    using due step_law_upd [OF assms, of "\<lambda>_. measurePending key (wDisk w) (wRips w ! i)"] step_law_upd [OF assms, of "\<lambda>r. r"]
    by (auto simp: checkpoint_due_def Let_def upd_rip_def split: if_splits)
  show ?thesis
  proof (cases b)
    case False
    with due l1 show ?thesis by (simp add: checkpointFlush_def)
  next
    case True
    have i1: "i < length (wRips w1)" using step_law_length [OF l1] assms(2) by simp
    let ?w2 = "fold (addPath key i) drained w1"
    note add2 = step_law_addPaths [OF step_law_world [OF l1] i1, of drained]
    have l2: "step_law key i w ?w2 []" using step_law_after [OF l1 d1] add2 by blast
    have i2: "i < length (wRips ?w2)" using step_law_length [OF l2] assms(2) by simp
    obtain w3 oc where chunk: "checkpoint_chunk key i ?w2 = (w3, oc)" by fastforce
    let ?r3 = "measurePending key (wDisk ?w2) (wRips ?w2 ! i)"
    have l23: "step_law key i ?w2 w3 []" and d3: "wDisk w3 = wDisk ?w2"
      using chunk step_law_upd [OF step_law_world [OF l2] i2, of "\<lambda>_. ?r3"]
        step_law_upd [OF step_law_world [OF l2] i2, of "\<lambda>_. ?r3\<lparr>sPendingBytes := 0\<rparr>"]
        step_law_upd [OF step_law_world [OF l2] i2, of "\<lambda>r. r"]
      by (auto simp: checkpoint_chunk_def Let_def upd_rip_def cursor_def measurePending_def split: if_splits)
    have dd: "wDisk ?w2 = wDisk w" using add2 d1 by simp
    have l3: "step_law key i w w3 []" by (rule step_law_after [OF l2 dd l23])
    have i3: "i < length (wRips w3)" using step_law_length [OF l3] assms(2) by simp
    show ?thesis
    proof (cases oc)
      case None
      with True due chunk l3 show ?thesis by (simp add: checkpointFlush_def)
    next
      case (Some c)
      then obtain part where c: "c = (drop (sFlushStart (wRips w3 ! i)) (sPaths (wRips w3 ! i)), length (sPaths (wRips w3 ! i)), part)"
        using chunk i2 by (auto simp: checkpoint_chunk_def Let_def split: if_splits)
      let ?w4 = "fold (addPath key i) during w3"
      note add4 = step_law_addPaths [OF step_law_world [OF l3] i3, of during]
      have l4: "step_law key i w ?w4 []" and d4: "wDisk ?w4 = wDisk w"
        using step_law_after [OF l3 _] add4 d3 dd by auto
      have i4: "i < length (wRips ?w4)" using step_law_length [OF l4] assms(2) by simp
      have run: "checkpointFlush key i cancelled drained during ok w = (checkpoint_finish key i ok c ?w4, if ok then fst c else [])"
        using True due chunk Some by (simp add: checkpointFlush_def)
      show ?thesis
      proof (cases ok)
        case False
        have "step_law key i ?w4 (upd_rip i (\<lambda>r. r\<lparr>sPendingBytes := 0\<rparr>) ?w4) []"
          by (rule step_law_upd [OF step_law_world [OF l4] i4]) (simp_all add: cursor_def)
        with False run c show ?thesis using step_law_after [OF l4 d4] by (simp add: checkpoint_finish_def)
      next
        case True
        have "step_law key i ?w4 (upd_rip i (flush_commit (length (sPaths (wRips w3 ! i))) part)
            (removeFlushedFiles key i (fst c) ?w4)) (fst c)"
          using add4 c world_okD(3) [OF step_law_world [OF l3] i3]
          by (intro step_law_commit [OF step_law_world [OF l4] i4, of _ during]) simp_all
        with True run c show ?thesis using step_law_after [OF l4 d4] by (simp add: checkpoint_finish_def)
      qed
    qed
  qed
qed

lemma step_law_boundary:
  assumes "world_ok key w" "i < length (wRips w)"
  shows "step_law key i w (fst (flushReleaseBoundary key i cancelled during ok w))
           (snd (flushReleaseBoundary key i cancelled during ok w))"
proof (cases "boundary_chunk cancelled (wRips w ! i)")
  case None
  then show ?thesis using step_law_upd [OF assms, of "\<lambda>r. r"] by (simp add: flushReleaseBoundary_def upd_rip_def)
next
  case (Some c)
  have start: "sFlushStart (wRips w ! i) \<le> length (sPaths (wRips w ! i))" by (rule world_okD(3) [OF assms])
  with Some obtain part where c: "c = (drop (sFlushStart (wRips w ! i)) (sPaths (wRips w ! i)), length (sPaths (wRips w ! i)), part)"
    by (auto simp: boundary_chunk_def remainderPaths_def Let_def split: if_splits)
  let ?w4 = "fold (addPath key i) during w"
  note add4 = step_law_addPaths [OF assms, of during]
  then have l4: "step_law key i w ?w4 []" and d4: "wDisk ?w4 = wDisk w" by blast+
  have i4: "i < length (wRips ?w4)" using step_law_length [OF l4] assms(2) by simp
  have "step_law key i ?w4 (upd_rip i (flush_commit (length (sPaths (wRips w ! i))) part)
      (removeFlushedFiles key i (fst c) ?w4)) (fst c)"
    using add4 c start by (intro step_law_commit [OF step_law_world [OF l4] i4, of _ during]) simp_all
  then show ?thesis
    using Some c l4 step_law_after [OF l4 d4] by (simp add: flushReleaseBoundary_def Let_def)
qed

lemma release_all_fold:
  assumes "image_mset key (mset ps) \<subseteq># wReg w" "[] \<notin> set ps"
  shows "fold (\<lambda>p w. snd (releaseInUse key p w)) ps w = w\<lparr>wReg := wReg w - image_mset key (mset ps)\<rparr>"
  using assms
proof (induction ps arbitrary: w)
  case (Cons p ps)
  obtain R where R: "wReg w = add_mset (key p) (image_mset key (mset ps) + R)"
    using Cons.prems(1) by (auto elim!: subset_mset.le_iff_add [THEN iffD1, THEN exE])
  then have one: "snd (releaseInUse key p w) = w\<lparr>wReg := image_mset key (mset ps) + R\<rparr>"
    using Cons.prems(2) by (auto simp: releaseInUse_def Let_def)
  show ?case using Cons.IH [of "w\<lparr>wReg := image_mset key (mset ps) + R\<rparr>"] Cons.prems(2) one R by simp
qed simp

lemma step_law_finished:
  assumes "world_ok key w" "i < length (wRips w)" "mset ps = sHeld (wRips w ! i)"
  shows "step_law key i w (releaseAllHeld key i ps w) []"
proof -
  let ?f = "\<lambda>r. r\<lparr>sHeld := {#}\<rparr>"
  let ?u = "upd_rip i ?f w"
  have all: "all_held w = all_held ?u + mset ps"
    using all_held_upd [OF assms(2), of ?f] assms(3) by simp
  then have reg: "wReg w = image_mset key (all_held ?u) + image_mset key (mset ps)"
    using world_okD(1) [OF assms(1)] by (simp add: reg_ok_def)
  have "[] \<notin> set ps" using world_okD(2) [OF assms(1,2)] assms(3) by (metis set_mset_mset)
  then have eq: "releaseAllHeld key i ps w = ?u\<lparr>wReg := image_mset key (all_held ?u)\<rparr>"
    using release_all_fold [of key ps ?u] reg by (simp add: releaseAllHeld_def)
  have "all_held (?u\<lparr>wReg := m\<rparr>) = all_held ?u" for m by (simp add: all_held_def)
  then have "reg_ok key (releaseAllHeld key i ps w)" unfolding eq by (simp add: reg_ok_def)
  moreover have "others_kept i w (releaseAllHeld key i ps w)" using assms(2) by (simp add: eq others_kept_def)
  ultimately have "world_ok key (releaseAllHeld key i ps w)"
    using assms(2) world_okD(3) [OF assms(1,2)] by (intro world_okI [OF assms(1), of _ i]) (simp_all add: eq)
  then show ?thesis using assms(2) by (simp add: step_law_def eq others_kept_def)
qed

lemma run_event_law:
  assumes "world_ok key w" "\<forall>M. mset (listing M) = M"
  shows "step_law key i w (fst (run_event key listing i e w)) (snd (run_event key listing i e w))
     \<or> \<not> i < length (wRips w) \<and> run_event key listing i e w = (w, [])"
proof (cases "i < length (wRips w)")
  case True
  with assms show ?thesis
    by (cases e) (simp_all add: run_event_def step_law_addPath step_law_checkpoint step_law_boundary step_law_finished)
qed (simp add: run_event_def)

lemma run_event_world_ok [step_inv]:
  "world_ok key w \<Longrightarrow> \<forall>M. mset (listing M) = M \<Longrightarrow> world_ok key (fst (run_event key listing i e w))"
  using run_event_law by (fastforce dest: step_law_world)

lemma run_event_others:
  assumes "world_ok key w" "\<forall>M. mset (listing M) = M" "j \<noteq> i"
  shows "wRips (fst (run_event key listing i e w)) ! j = wRips w ! j"
    and "length (wRips (fst (run_event key listing i e w))) = length (wRips w)"
  using run_event_law [OF assms(1,2), of i e] assms(3) by (auto simp: step_law_def others_kept_def)

subsection \<open>Files in use: the contract between the deleters and the rips\<close>

text \<open>
  What an owner of files relies on while others act: nobody else drops its references, and no
  action of another owner changes a file it references.
\<close>

locale use_registry =
  fixes ok :: "'s \<Rightarrow> bool"
    and holds :: "'s \<Rightarrow> 'o \<Rightarrow> 'f \<Rightarrow> bool"
    and content :: "'s \<Rightarrow> 'f \<Rightarrow> 'd"
    and act :: "'o \<Rightarrow> 'e \<Rightarrow> 's \<Rightarrow> 's"
  assumes act_ok: "ok s \<Longrightarrow> ok (act j e s)"
    and act_holds: "ok s \<Longrightarrow> i \<noteq> j \<Longrightarrow> holds s i f \<Longrightarrow> holds (act j e s) i f"
    and act_spares: "ok s \<Longrightarrow> i \<noteq> j \<Longrightarrow> holds s i f \<Longrightarrow> content (act j e s) f = content s f"

context use_registry begin

lemma held_file_survives:
  "ok s \<Longrightarrow> holds s i f \<Longrightarrow> \<forall>(j, e)\<in>set es. j \<noteq> i \<Longrightarrow>
     content (fold (\<lambda>(j, e). act j e) es s) f = content s f \<and> holds (fold (\<lambda>(j, e). act j e) es s) i f"
proof (induction es arbitrary: s)
  case (Cons x es)
  obtain j e where x: "x = (j, e)" by fastforce
  then have "i \<noteq> j" using Cons.prems(3) by auto
  then show ?case
    using Cons.IH [OF act_ok [OF Cons.prems(1)] act_holds [OF Cons.prems(1) \<open>i \<noteq> j\<close> Cons.prems(2)]]
      act_spares [OF Cons.prems(1) \<open>i \<noteq> j\<close> Cons.prems(2)] Cons.prems(3) x by simp
qed simp

end

definition holds_path :: "world \<Rightarrow> nat \<Rightarrow> string \<Rightarrow> bool" where
  "holds_path w i p = (i < length (wRips w) \<and> p \<in># sHeld (wRips w ! i))"

definition list_of_mset :: "string multiset \<Rightarrow> string list" where
  "list_of_mset M = sorted_list_of_multiset M"

lemma mset_list_of_mset [simp]: "mset (list_of_mset M) = M"
  by (simp add: list_of_mset_def)

lemma other_rip_spared:
  assumes "world_ok key w" "\<forall>M. mset (listing M) = M" "i \<noteq> j" "holds_path w i p"
  shows "holds_path (fst (run_event key listing j e w)) i p"
    and "wDisk (fst (run_event key listing j e w)) (key p) = wDisk w (key p)"
proof -
  let ?w = "fst (run_event key listing j e w)"
  show held: "holds_path ?w i p"
    using assms(4) run_event_others [OF assms(1-3)] by (simp add: holds_path_def)
  have "key p \<in># wReg ?w"
    using held held_in_reg [OF world_okD(1) [OF run_event_world_ok [OF assms(1,2)]], of i] by (simp add: holds_path_def)
  then show "wDisk ?w (key p) = wDisk w (key p)"
    using run_event_law [OF assms(1,2), of j e] by (auto simp: step_law_def)
qed

interpretation disk_use:
  use_registry "\<lambda>w. world_ok key w \<and> (\<forall>M. mset (listing M) = M)" holds_path "\<lambda>w p. wDisk w (key p)"
    "\<lambda>i e w. fst (run_event key listing i e w)"
  for key and listing :: "string multiset \<Rightarrow> string list"
  by unfold_locales (auto simp: run_event_world_ok other_rip_spared)

lemma run_events_fold:
  "fst (run_events key listing es w) = fold (\<lambda>(i, e) w. fst (run_event key listing i e w)) es w"
  by (induction key listing es w rule: run_events.induct) (auto simp: Let_def split: prod.split)


definition two_rips :: world where
  "two_rips = \<lparr>wRips = [newRipState\<lparr>sPaths := [''a''], sHeld := {#''a''#}, sHasFlush := True, sFlushThreshold := 1\<rparr>,
                        newRipState\<lparr>sPaths := [''a''], sHeld := {#''a''#}, sHasFlush := True, sFlushThreshold := 1\<rparr>],
               wReg = {#''a'', ''a''#}, wDisk = [''a'' \<mapsto> 9]\<rparr>"

lemma two_rips_ok: "world_ok (\<lambda>p. p) two_rips"
  by (simp add: world_ok_def reg_ok_def all_held_def two_rips_def newRipState_def less_Suc_eq numeral_2_eq_2)


subsection \<open>Every file is delivered once\<close>

lemma run_events_law:
  assumes "world_ok key w" "\<forall>M. mset (listing M) = M" "run_events key listing es w = (w', log)"
  shows "world_ok key w' \<and> length (wRips w') = length (wRips w) \<and>
    (\<forall>i<length (wRips w).
       take (sFlushStart (wRips w' ! i)) (sPaths (wRips w' ! i))
         = take (sFlushStart (wRips w ! i)) (sPaths (wRips w ! i)) @ delivered_by i log \<and>
       sFlushStageOnly (wRips w' ! i) = sFlushStageOnly (wRips w ! i) \<and>
       (sFlushStageOnly (wRips w ! i) \<longrightarrow> sFlushedAny (wRips w' ! i) = sFlushedAny (wRips w ! i))) \<and>
    (\<forall>k. wDisk w' k \<noteq> wDisk w k \<longrightarrow> (\<exists>(i, c)\<in>set log. k \<in> key ` set c))"
  using assms(1,3)
proof (induction es arbitrary: w log)
  case (Cons x es)
  obtain j e where x: "x = (j, e)" by fastforce
  obtain w1 c where w1: "run_event key listing j e w = (w1, c)" by fastforce
  obtain log' where log: "run_events key listing es w1 = (w', log')" "log = (j, c) # log'"
    using Cons.prems(2) w1 x by (auto split: prod.splits)
  have ok1: "world_ok key w1" using run_event_world_ok [OF Cons.prems(1) assms(2), of j e] w1 by simp
  note IH = Cons.IH [OF ok1 log(1)]
  have law: "step_law key j w w1 c \<or> \<not> j < length (wRips w) \<and> w1 = w \<and> c = []"
    using run_event_law [OF Cons.prems(1) assms(2), of j e] w1 by auto
  then have len: "length (wRips w1) = length (wRips w)" using step_law_length by blast
  have part: "take (sFlushStart (wRips w1 ! i)) (sPaths (wRips w1 ! i))
         = take (sFlushStart (wRips w ! i)) (sPaths (wRips w ! i)) @ (if j = i then c else []) \<and>
       sFlushStageOnly (wRips w1 ! i) = sFlushStageOnly (wRips w ! i) \<and>
       (sFlushStageOnly (wRips w ! i) \<longrightarrow> sFlushedAny (wRips w1 ! i) = sFlushedAny (wRips w ! i))" if "i < length (wRips w)" for i
    using law that by (cases "j = i") (auto simp: step_law_def others_kept_def)
  have disk: "\<exists>(i, c)\<in>set log. k \<in> key ` set c" if "wDisk w' k \<noteq> wDisk w k" for k
  proof (cases "wDisk w1 k = wDisk w k")
    case True
    with that IH log(2) show ?thesis by auto
  next
    case False
    with law have "k \<in> key ` set c" by (auto simp: step_law_def)
    with log(2) show ?thesis by auto
  qed
  show ?case using IH part len disk by (simp add: log(2))
qed simp

text \<open>
  C12: Delivery in parts neither repeats nor loses a file: for every interleaving of several
  rips' downloads, checkpoints, release boundaries, failed and successful deliveries, a rip's
  delivered chunks followed by the remainder left for the final delivery are exactly the files
  it registered, in order.
\<close>

theorem parts_and_remainder_partition:
  assumes "world_ok key w" "\<forall>M. mset (listing M) = M" "i < length (wRips w)" "sFlushStart (wRips w ! i) = 0"
    and "run_events key listing es w = (w', log)"
  shows "delivered_by i log @ remainderPaths (wRips w' ! i) = sPaths (wRips w' ! i)"
proof -
  note law = run_events_law [OF assms(1,2,5)]
  then have "take (sFlushStart (wRips w' ! i)) (sPaths (wRips w' ! i)) = delivered_by i log"
    using assms(3,4) by auto
  moreover have "\<not> length (sPaths (wRips w' ! i)) < sFlushStart (wRips w' ! i)"
    using law world_okD(3) [of key w' i] assms(3) by auto
  ultimately show ?thesis
    using append_take_drop_id [of "sFlushStart (wRips w' ! i)" "sPaths (wRips w' ! i)"]
    by (simp add: remainderPaths_def Let_def)
qed

theorem parts_and_remainder_partition_witness:
  "delivered_by 0 (snd (run_events (\<lambda>p. p) list_of_mset
      [(0, Checkpoint False [''b''] [] True), (1, Boundary False [] False), (0, Ripped ''c'')] two_rips))
    @ remainderPaths (wRips (fst (run_events (\<lambda>p. p) list_of_mset
      [(0, Checkpoint False [''b''] [] True), (1, Boundary False [] False), (0, Ripped ''c'')] two_rips)) ! 0)
   = sPaths (wRips (fst (run_events (\<lambda>p. p) list_of_mset
      [(0, Checkpoint False [''b''] [] True), (1, Boundary False [] False), (0, Ripped ''c'')] two_rips)) ! 0)"
  by (rule parts_and_remainder_partition [OF two_rips_ok _ _ _ prod.collapse [symmetric]])
     (simp_all add: two_rips_def newRipState_def)

text \<open>
  Nothing undelivered is deleted: in every such run a file that leaves the disk was in a chunk
  some rip delivered successfully; and in a staging run nothing counts as delivered, so the
  quota never sees the disk reclaimed for a dump as a delivery.
\<close>

theorem only_delivered_files_go:
  assumes "world_ok key w" "\<forall>M. mset (listing M) = M" "run_events key listing es w = (w', log)"
  shows "(\<forall>k. wDisk w k \<noteq> None \<longrightarrow> wDisk w' k = None \<longrightarrow> (\<exists>(i, chunk)\<in>set log. \<exists>p\<in>set chunk. key p = k)) \<and>
         (\<forall>i<length (wRips w). sFlushStageOnly (wRips w ! i) \<and> \<not> sFlushedAny (wRips w ! i) \<longrightarrow>
            \<not> flushedSomething (Some (wRips w' ! i)) \<and> deliveredReleases (Some (wRips w' ! i)) = 0)"
proof -
  note law = run_events_law [OF assms]
  then have "\<exists>(i, c)\<in>set log. \<exists>p\<in>set c. key p = k" if "wDisk w k \<noteq> None" "wDisk w' k = None" for k
  proof -
    have "wDisk w' k \<noteq> wDisk w k" using that by metis
    with law obtain x where "x \<in> set log" "k \<in> key ` set (snd x)" by (auto split: prod.splits)
    then show ?thesis by (intro bexI [of _ x]) (auto split: prod.split)
  qed
  with law show ?thesis by (simp add: flushedSomething_def deliveredReleases_def)
qed

theorem only_delivered_files_go_witness:
  "\<exists>(i, chunk)\<in>set (snd (run_events (\<lambda>p. p) list_of_mset
      [(0, Boundary False [] True), (1, Boundary False [] True)] two_rips)). \<exists>p\<in>set chunk. p = ''a''"
proof -
  let ?r = "run_events (\<lambda>p. p) list_of_mset [(0, Boundary False [] True), (1, Boundary False [] True)] two_rips"
  have gone: "wDisk (fst ?r) ''a'' = None"
    by (simp add: two_rips_def newRipState_def run_event_def flushReleaseBoundary_def boundary_chunk_def
        remainderPaths_def removeFlushedFiles_def removeFlushedFile_def releaseHeld_def releaseInUse_def
        upd_rip_def isInUse_def flush_commit_def Let_def)
  have "wDisk two_rips ''a'' \<noteq> None" by (simp add: two_rips_def)
  moreover have "\<forall>M. mset (list_of_mset M) = M" by simp
  note only_delivered_files_go [OF two_rips_ok this prod.collapse [symmetric],
      of "[(0, Boundary False [] True), (1, Boundary False [] True)]"]
  ultimately show ?thesis using gone by simp
qed

text \<open>
  Parts count as releases: in a per-release discography whose first release is so large that
  the byte threshold ships it in two parts, \<^verbatim>\<open>deliveredReleases\<close> is 2 before that release is
  complete, which of three releases is past the exemption threshold of more than half.
\<close>

theorem parts_count_as_releases:
  "(let w = \<lparr>wRips = [setFlush 5 True newRipState], wReg = {#}, wDisk = [''a'' \<mapsto> 9, ''b'' \<mapsto> 9]\<rparr>;
        r = run_events (\<lambda>p. p) list_of_mset [(0, Ripped ''a''), (0, Checkpoint False [] [] True),
               (0, Ripped ''b''), (0, Checkpoint False [] [] True)] w
    in map snd (snd r) = [[], [''a''], [], [''b'']] \<and> deliveredReleases (Some (wRips (fst r) ! 0)) = 2)"
  by (simp add: newRipState_def setFlush_def run_event_def checkpointFlush_def checkpoint_due_def checkpoint_chunk_def
      checkpoint_finish_def measurePending_def addPath_def retain_def retainInUse_def
      removeFlushedFiles_def removeFlushedFile_def releaseHeld_def releaseInUse_def
      upd_rip_def isInUse_def flush_commit_def deliveredReleases_def Let_def)

end
