(* ===== verification/Go_Path.thy ===== *)
theory Go_Path
  imports Go_Strings
begin

section \<open>Paths and names\<close>

text \<open>
  The parts of \<^verbatim>\<open>path/filepath\<close> the program uses (Unix), \<^verbatim>\<open>strings.NewReplacer\<close>, and the file
  name rules of \<^verbatim>\<open>bot/main.go\<close> (\<^verbatim>\<open>forbiddenNames\<close>, \<^verbatim>\<open>LimitString\<close>).
\<close>

definition slash :: char where "slash = CHR ''/''"
definition dot :: char where "dot = CHR ''.''"

fun clean_parts :: "bool \<Rightarrow> string list \<Rightarrow> string list \<Rightarrow> string list" where
  "clean_parts rooted out [] = rev out"
| "clean_parts rooted out (p # ps) =
     (if p = [] \<or> p = ''.'' then clean_parts rooted out ps
      else if p = ''..'' then
        (case out of
           [] \<Rightarrow> clean_parts rooted (if rooted then [] else [''..'']) ps
         | o1 # os \<Rightarrow> if o1 = ''..'' then clean_parts rooted (''..'' # out) ps else clean_parts rooted os ps)
      else clean_parts rooted (p # out) ps)"

definition path_clean :: "string \<Rightarrow> string" where
  "path_clean s =
     (if s = [] then ''.''
      else let rooted = has_prefix s ''/'';
               c = (if rooted then ''/'' else []) @ join_with ''/'' (clean_parts rooted [] (split_byte slash s))
           in if c = [] then ''.'' else c)"

text \<open>\<^verbatim>\<open>filepath.Join\<close> of two elements.\<close>

definition path_join :: "string \<Rightarrow> string \<Rightarrow> string" where
  "path_join d n = (if d \<noteq> [] then path_clean (d @ ''/'' @ n) else if n \<noteq> [] then path_clean n else [])"

definition path_ext :: "string \<Rightarrow> string" where
  "path_ext s =
     (let name = last (split_byte slash s)
      in case last_index_of name ''.'' of None \<Rightarrow> [] | Some i \<Rightarrow> drop i name)"

definition path_base :: "string \<Rightarrow> string" where
  "path_base s =
     (if s = [] then ''.''
      else let t = rev (dropWhile (\<lambda>c. c = slash) (rev s))
           in if t = [] then ''/'' else last (split_byte slash t))"

definition trim_suffix :: "string \<Rightarrow> string \<Rightarrow> string" where
  "trim_suffix s p = (if has_suffix s p then take (length s - length p) s else s)"

fun find_key :: "(string \<times> string) list \<Rightarrow> string \<Rightarrow> (string \<times> string) option" where
  "find_key [] s = None"
| "find_key ((k, v) # ps) s = (if k \<noteq> [] \<and> has_prefix s k then Some (k, v) else find_key ps s)"

lemma find_key_nonempty: "find_key ps s = Some (k, v) \<Longrightarrow> k \<noteq> []"
  by (induction ps s rule: find_key.induct) (auto split: if_splits)

function replacer :: "(string \<times> string) list \<Rightarrow> string \<Rightarrow> string" where
  "replacer ps [] = []"
| "replacer ps (c # cs) =
     (case find_key ps (c # cs) of
        None \<Rightarrow> c # replacer ps cs
      | Some (k, v) \<Rightarrow> v @ replacer ps (drop (length k) (c # cs)))"
  by pat_completeness auto
termination
proof (relation "measure (\<lambda>(ps, s). length s)", goal_cases)
  case (3 ps c cs kv k v)
  then have "find_key ps (c # cs) = Some (k, v)" by simp
  then have "k \<noteq> []" by (rule find_key_nonempty)
  then show ?case by (cases k) auto
qed auto

definition forbidden_chars :: string where
  "forbidden_chars = [CHR ''/'', CHR 0x5C, CHR ''<'', CHR ''>'', CHR '':'', CHR 0x22, CHR ''|'', CHR ''?'', CHR ''*'']"

text \<open>\<^verbatim>\<open>forbiddenNames.ReplaceAllString(s, "_")\<close>\<close>

definition safe_name :: "string \<Rightarrow> string" where
  "safe_name s = map (\<lambda>c. if c \<in> set forbidden_chars then CHR ''_'' else c) s"

text \<open>The first \<open>n\<close> runes of a valid UTF-8 string: a byte that continues a rune does not count.\<close>

definition rune_start :: "char \<Rightarrow> bool" where
  "rune_start c = (\<not> (128 \<le> (of_char c :: nat) \<and> (of_char c :: nat) < 192))"

fun take_runes :: "nat \<Rightarrow> string \<Rightarrow> string" where
  "take_runes n [] = []"
| "take_runes n (c # cs) =
     (if rune_start c then (case n of 0 \<Rightarrow> [] | Suc m \<Rightarrow> c # take_runes m cs) else c # take_runes n cs)"

definition rune_count :: "string \<Rightarrow> nat" where
  "rune_count s = length (filter rune_start s)"

definition LimitString :: "int \<Rightarrow> string \<Rightarrow> string" where
  "LimitString limitMax s = (if limitMax < int (rune_count s) then take_runes (nat limitMax) s else s)"

definition pad2 :: "int \<Rightarrow> string" where
  "pad2 n = (let s = itoa n in if length s < 2 then CHR ''0'' # s else s)"

lemma safe_name_no_slash: "slash \<notin> set (safe_name s)"
  by (auto simp: safe_name_def forbidden_chars_def slash_def)

lemma LimitString_runes: "0 \<le> limitMax \<Longrightarrow> int (rune_count (LimitString limitMax s)) \<le> limitMax"
proof -
  have "rune_count (take_runes n t) \<le> n" for n t
    by (induction n t rule: take_runes.induct) (auto simp: rune_count_def split: nat.split)
  then show "0 \<le> limitMax \<Longrightarrow> int (rune_count (LimitString limitMax s)) \<le> limitMax"
    by (auto simp: LimitString_def) (metis int_nat_eq of_nat_le_iff)
qed

end
