(* ===== verification/Rip_Track.thy ===== *)
theory Rip_Track
  imports Rip_Flush Go_Path
begin

section \<open>Ripping one track\<close>

text \<open>
  \<^verbatim>\<open>bot/main.go\<close>: \<^verbatim>\<open>withWrapperRetry\<close>, \<^verbatim>\<open>ripTrack\<close> with its conversion
  (\<^verbatim>\<open>bot/utils/convert.go\<close>) and music-video branch, \<^verbatim>\<open>runTrackAttempt\<close>, \<^verbatim>\<open>prepareTrackRetry\<close>.  An
  attempt works on the rips' world (registry and disk) and on the rip's counters; what the
  network, ffmpeg, the tagger and the lyrics service answer is the record \<open>track_io\<close>.  An attempt
  is one step.  The receiver is always a rip: the command line's globals are not modelled.
\<close>

subsection \<open>Counters and outcomes\<close>

record counter =
  ctUnavailable :: int
  ctNotSong :: int
  ctError :: int
  ctSuccess :: int
  ctTotal :: int

definition zero_counter :: counter where
  "zero_counter = \<lparr>ctUnavailable = 0, ctNotSong = 0, ctError = 0, ctSuccess = 0, ctTotal = 0\<rparr>"

definition ReconcileErrorRetry :: "counter \<Rightarrow> counter" where
  "ReconcileErrorRetry c =
     (let c1 = (if 0 < ctTotal c then c\<lparr>ctTotal := ctTotal c - 1\<rparr> else c)
      in if 0 < ctError c1 then c1\<lparr>ctError := ctError c1 - 1\<rparr> else c1)"

datatype track_outcome = TrackNotAttempted | TrackSucceeded | TrackRetryableFailure | TrackUnavailable | TrackCancelled

text \<open>The constants are \<^verbatim>\<open>iota\<close> on a \<^verbatim>\<open>uint8\<close>; their order is the order of their codes.\<close>

fun outcome_code :: "track_outcome \<Rightarrow> nat" where
  "outcome_code TrackNotAttempted = 0"
| "outcome_code TrackSucceeded = 1"
| "outcome_code TrackRetryableFailure = 2"
| "outcome_code TrackUnavailable = 3"
| "outcome_code TrackCancelled = 4"

lemma outcome_code_inj: "outcome_code a = outcome_code b \<Longrightarrow> a = b"
  by (cases a; cases b) simp_all

instantiation track_outcome :: linorder
begin

definition less_eq_track_outcome :: "track_outcome \<Rightarrow> track_outcome \<Rightarrow> bool" where
  "a \<le> b = (outcome_code a \<le> outcome_code b)"

definition less_track_outcome :: "track_outcome \<Rightarrow> track_outcome \<Rightarrow> bool" where
  "a < b = (outcome_code a < outcome_code b)"

instance
  by standard (auto simp: less_eq_track_outcome_def less_track_outcome_def intro: outcome_code_inj)

end

record ripping =
  rgWorld :: world
  rgCtr :: counter

abbreviation on_world :: "(world \<Rightarrow> world) \<Rightarrow> ripping \<Rightarrow> ripping" where
  "on_world f g \<equiv> g\<lparr>rgWorld := f (rgWorld g)\<rparr>"

abbreviation on_ctr :: "(counter \<Rightarrow> counter) \<Rightarrow> ripping \<Rightarrow> ripping" where
  "on_ctr f g \<equiv> g\<lparr>rgCtr := f (rgCtr g)\<rparr>"

definition inc_total :: "counter \<Rightarrow> counter" where "inc_total c = c\<lparr>ctTotal := ctTotal c + 1\<rparr>"
definition inc_error :: "counter \<Rightarrow> counter" where "inc_error c = c\<lparr>ctError := ctError c + 1\<rparr>"
definition inc_success :: "counter \<Rightarrow> counter" where "inc_success c = c\<lparr>ctSuccess := ctSuccess c + 1\<rparr>"
definition inc_unavailable :: "counter \<Rightarrow> counter" where "inc_unavailable c = c\<lparr>ctUnavailable := ctUnavailable c + 1\<rparr>"

subsection \<open>Retrying the wrapper\<close>

record wrap_err =
  weText :: string
  weNoKey :: bool

definition ctx_err :: wrap_err where "ctx_err = \<lparr>weText = ''context canceled'', weNoKey = False\<rparr>"

definition isTransientWrapperErr :: "wrap_err option \<Rightarrow> bool" where
  "isTransientWrapperErr err =
     (case err of
        None \<Rightarrow> False
      | Some e \<Rightarrow>
          let s = weText e
          in contains s ''no available instance'' \<or> contains s ''instance'' \<and> contains s ''busy'' \<or>
             contains s ''connection refused'' \<or> contains s ''Client.Timeout'' \<or>
             contains s ''context deadline exceeded'' \<or> contains s ''upstream error'' \<or>
             contains s ''connection reset by peer'' \<or> contains s ''EOF'' \<or>
             contains s ''server closed idle connection'')"

text \<open>
  \<open>stopped n\<close>: the context is done before attempt \<open>n\<close>; \<open>waking n\<close>: it ends during the wait after it.
  The result: the error, the waits in seconds, the state.
\<close>

fun retry_loop ::
  "(nat \<Rightarrow> bool) \<Rightarrow> (nat \<Rightarrow> bool) \<Rightarrow> (nat \<Rightarrow> 's \<Rightarrow> wrap_err option \<times> 's) \<Rightarrow> nat \<Rightarrow> nat \<Rightarrow> int \<Rightarrow> 's \<Rightarrow>
   wrap_err option \<times> int list \<times> 's" where
  "retry_loop stopped waking fn attempt 0 backoff s = (None, [], s)"
| "retry_loop stopped waking fn attempt (Suc k) backoff s =
     (if stopped attempt then (Some ctx_err, [], s)
      else case fn attempt s of
             (None, s1) \<Rightarrow> (None, [], s1)
           | (Some e, s1) \<Rightarrow>
               if weNoKey e \<or> \<not> isTransientWrapperErr (Some e) then (Some e, [], s1)
               else if k = 0 then (Some e, [], s1)
               else if waking attempt then (Some ctx_err, [], s1)
               else (case retry_loop stopped waking fn (attempt + 1) k (if backoff < 16 then backoff * 2 else backoff) s1 of
                       (err, waits, s2) \<Rightarrow> (err, backoff # waits, s2)))"

definition maxAttempts :: nat where "maxAttempts = 5"

definition withWrapperRetry ::
  "(nat \<Rightarrow> bool) \<Rightarrow> (nat \<Rightarrow> bool) \<Rightarrow> (nat \<Rightarrow> 's \<Rightarrow> wrap_err option \<times> 's) \<Rightarrow> 's \<Rightarrow> wrap_err option \<times> int list \<times> 's" where
  "withWrapperRetry stopped waking fn s = retry_loop stopped waking fn 1 maxAttempts 2 s"

subsection \<open>Tracks and configuration\<close>

record track =
  tkID :: string
  tkType :: string
  tkName :: string
  tkPreType :: string
  tkPreID :: string
  tkTaskNum :: int
  tkTaskTotal :: int
  tkWebM3u8 :: string
  tkCodec :: string
  tkSaveDir :: string
  tkSaveName :: string
  tkSavePath :: string
  tkQuality :: string
  tkRespName :: string
  tkRespArtist :: string
  tkDiscNumber :: int
  tkTrackNumber :: int
  tkDurationMillis :: int
  tkAlbumName :: string
  tkReleaseDate :: string
  tkContentRating :: string
  tkIsrc :: string
  tkMastered :: bool
  tkPlaylistName :: string
  tkPlaylistArtist :: string
  tkPlaylistArtworkURL :: string

record full_config = config +
  cExplicitChoice :: string
  cCleanChoice :: string
  cLrcFormat :: string
  cSongFileFormat :: string
  cLimitMax :: int
  cUseSongInfoForPlaylist :: bool
  cDlAlbumcoverForPlaylist :: bool
  cConvertSkipIfSourceMatch :: bool

definition fileExists :: "(string \<Rightarrow> string) \<Rightarrow> string \<Rightarrow> world \<Rightarrow> bool" where
  "fileExists key p w = (case wDisk w (key p) of None \<Rightarrow> False | Some n \<Rightarrow> 0 < n)"

definition remove_file :: "(string \<Rightarrow> string) \<Rightarrow> string \<Rightarrow> world \<Rightarrow> world" where
  "remove_file key p w = w\<lparr>wDisk := (wDisk w)(key p := None)\<rparr>"

text \<open>A write that may not have happened: \<open>None\<close> leaves the file alone.\<close>

definition put_file :: "(string \<Rightarrow> string) \<Rightarrow> string \<Rightarrow> int option \<Rightarrow> world \<Rightarrow> world" where
  "put_file key p n w = (case n of None \<Rightarrow> w | Some b \<Rightarrow> w\<lparr>wDisk := (wDisk w)(key p \<mapsto> b)\<rparr>)"

subsection \<open>Conversion (convert.go)\<close>

definition isLossySource :: "string \<Rightarrow> string \<Rightarrow> bool" where
  "isLossySource ext0 codec =
     (let ext = to_lower ext0
      in ext = ''.m4a'' \<and> (codec = ''AAC'' \<or> contains codec ''AAC'' \<or> contains codec ''ATMOS'') \<or>
         ext = ''.mp3'' \<or> ext = ''.opus'' \<or> ext = ''.ogg'')"

definition known_target :: "string \<Rightarrow> bool" where
  "known_target fmt = (fmt \<in> {''flac'', ''mp3'', ''opus'', ''wav'', ''copy''})"

text \<open>ffmpeg: is it found, does it succeed, what it writes, and can the source be removed.\<close>

record convert_io =
  cvFound :: bool
  cvRuns :: bool
  cvWrites :: "int option"
  cvRemoves :: bool

definition ConvertIfNeeded ::
  "(string \<Rightarrow> string) \<Rightarrow> convert_io \<Rightarrow> 'x full_config_scheme \<Rightarrow> track \<Rightarrow> world \<Rightarrow> track \<times> world" where
  "ConvertIfNeeded key cv cfg tk w =
     (let srcPath = tkSavePath tk; ext = to_lower (path_ext srcPath); targetFmt = to_lower (cConvertFormat cfg);
          outPath = trim_suffix srcPath ext @ ''.'' @ targetFmt
      in if \<not> cConvertAfterDownload cfg \<or> cConvertFormat cfg = [] \<or> srcPath = [] \<or> targetFmt = ''copy'' then (tk, w)
         else if cConvertSkipIfSourceMatch cfg \<and> ext = ''.'' @ targetFmt then (tk, w)
         else if (targetFmt = ''flac'' \<or> targetFmt = ''wav'') \<and> isLossySource ext (tkCodec tk) \<and> cConvertSkipLossyToLossless cfg
              then (tk, w)
         else if \<not> cvFound cv \<or> \<not> known_target targetFmt then (tk, w)
         else let w1 = put_file key outPath (cvWrites cv) w; tk1 = tk\<lparr>tkSavePath := outPath, tkSaveName := path_base outPath\<rparr>
              in if \<not> cvRuns cv then (tk, w1)
                 else if \<not> cConvertKeepOriginal cfg
                      then (if cvRemoves cv then (tk1, remove_file key srcPath w1) else (tk, w1))
                      else (tk1, w1))"


subsection \<open>What the outside answers during an attempt\<close>

record mv_info =
  mviName :: string
  mviArtist :: string
  mviDurationMillis :: int
  mviAlbum :: string
  mviReleaseDate :: string
  mviContentRating :: string

text \<open>
  A music video: what Apple says of it (\<open>None\<close>: the request failed; \<open>Some None\<close>: nothing found),
  the playback URL, the errors of the steps up to the audio download in the code's order, and what
  the muxer answers and writes.
\<close>

record mv_io =
  mvInfo :: "mv_info option option"
  mvUrl :: string
  mvSteps :: "wrap_err option list"
  mvMux :: "wrap_err option"
  mvWrites :: "int option"

record retry_io =
  roStopped :: "nat \<Rightarrow> bool"
  roWaking :: "nat \<Rightarrow> bool"
  roAnswer :: "nat \<Rightarrow> wrap_err option"

record track_io =
  ioCancelled :: bool
  ioAlbumPanics :: bool
  ioMv :: mv_io
  ioPlayback :: retry_io
  ioM3u8 :: retry_io
  ioExtract :: "(string \<times> string) option"
  ioUrl :: string
  ioLyrics :: "string option"
  ioLrcWrites :: "int option"
  ioDecrypt :: retry_io
  ioDecryptWrites :: "nat \<Rightarrow> int option"
  ioWidevine :: "wrap_err option"
  ioWidevineWrites :: "int option"
  ioRemuxOk :: bool
  ioRemuxWrites :: "int option"
  ioRenameOk :: bool
  ioCover :: "(string \<times> int) option"
  ioTags :: "wrap_err option"
  ioTagsWrites :: "int option"
  ioConvert :: convert_io
  ioProbe :: "string option"
  ioSearchMeta :: "audio_meta option"
  ioPlaylist :: "(string \<times> string \<times> string \<times> int) option"

subsection \<open>Recording a finished track\<close>

text \<open>ffprobe's output, \<open>None\<close> when it fails; the last \<^verbatim>\<open>codec_name\<close> line counts.\<close>

fun last_codec :: "string list \<Rightarrow> string \<Rightarrow> string" where
  "last_codec [] codec = codec"
| "last_codec (line # lines) codec =
     (let l = trim_space line
      in last_codec lines (if has_prefix l ''codec_name='' then to_lower (trim_space (trim_prefix l ''codec_name='')) else codec))"

definition probeAudioFormat :: "string \<Rightarrow> string option \<Rightarrow> string" where
  "probeAudioFormat path out =
     (if path = [] then []
      else case out of
             None \<Rightarrow> []
           | Some text \<Rightarrow>
               (let codec = last_codec (split_byte (CHR 0x0A) text) []
                in if codec = ''alac'' then ''alac''
                   else if codec = ''flac'' then ''flac''
                   else if contains codec ''eac3'' \<or> contains codec ''ec-3'' \<or> contains codec ''ac3'' then ''atmos''
                   else if contains codec ''aac'' then ''aac''
                   else []))"

definition track_meta_of :: "track_io \<Rightarrow> track \<Rightarrow> audio_meta" where
  "track_meta_of io tk =
     (let m0 = zero_audio_meta\<lparr>aTrackID := trim_space (tkID tk), aTitle := trim_space (tkRespName tk),
            aPerformer := trim_space (tkRespArtist tk), aDurationMillis := tkDurationMillis tk,
            aAlbumName := trim_space (tkAlbumName tk), aReleaseDate := trim_space (tkReleaseDate tk),
            aContentRating := trim_space (tkContentRating tk), aQuality := trim_space (tkQuality tk),
            aCodec := trim_space (tkCodec tk), aISRC := to_upper (trim_space (tkIsrc tk))\<rparr>;
          m1 = (if tkPreType tk = ''albums'' then m0\<lparr>aAlbumID := trim_space (tkPreID tk)\<rparr> else m0);
          m2 = (if tkPreType tk = ''playlists''
                then m1\<lparr>aPlaylistName := trim_space (tkPlaylistName tk), aPlaylistArtist := trim_space (tkPlaylistArtist tk),
                       aPlaylistArtworkURL := tkPlaylistArtworkURL tk, aPlaylistTrackCount := tkTaskTotal tk\<rparr> else m1);
          m3 = (case ioPlaylist io of None \<Rightarrow> m2
                | Some (name, artist, url, n) \<Rightarrow> m2\<lparr>aPlaylistName := name, aPlaylistArtist := artist,
                       aPlaylistArtworkURL := url, aPlaylistTrackCount := n\<rparr>);
          m4 = (case (if aTrackID m3 \<noteq> [] then ioSearchMeta io else None) of None \<Rightarrow> m3
                | Some o1 \<Rightarrow> m3\<lparr>aTitle := (if aTitle o1 \<noteq> [] then aTitle o1 else aTitle m3),
                                 aPerformer := (if aPerformer o1 \<noteq> [] then aPerformer o1 else aPerformer m3)\<rparr>)
      in m4\<lparr>aActualFormat := probeAudioFormat (tkSavePath tk) (ioProbe io)\<rparr>)"

definition put_titled_meta :: "string \<Rightarrow> audio_meta \<Rightarrow> rip \<Rightarrow> rip" where
  "put_titled_meta p m r = (if aTitle m \<noteq> [] \<or> aPerformer m \<noteq> [] then putMeta p m r else r)"

definition recordDownloadedTrack :: "(string \<Rightarrow> string) \<Rightarrow> nat \<Rightarrow> track_io \<Rightarrow> track \<Rightarrow> world \<Rightarrow> world" where
  "recordDownloadedTrack key i io tk w =
     (if tkSavePath tk = [] then w
      else upd_rip i (put_titled_meta (tkSavePath tk) (track_meta_of io tk)) (addPath key i (tkSavePath tk) w))"

definition finish_track :: "(string \<Rightarrow> string) \<Rightarrow> nat \<Rightarrow> track_io \<Rightarrow> track \<Rightarrow> ripping \<Rightarrow> ripping" where
  "finish_track key i io tk g =
     on_world (upd_rip i (markDone (tkPreID tk) (tkTaskNum tk)))
       (on_ctr inc_success (on_world (recordDownloadedTrack key i io tk) g))"

definition fail_track :: "nat \<Rightarrow> string \<Rightarrow> (counter \<Rightarrow> counter) \<Rightarrow> ripping \<Rightarrow> ripping" where
  "fail_track i msg inc g = on_ctr inc (on_world (upd_rip i (recordFailure msg)) g)"

subsection \<open>Music videos\<close>

definition mv_path :: "string \<Rightarrow> track \<Rightarrow> mv_info \<Rightarrow> string" where
  "mv_path saveDir tk info =
     path_join saveDir (safe_name (pad2 (tkTaskNum tk) @ ''. '' @ mviName info) @ ''.mp4'')"

definition registerMV :: "(string \<Rightarrow> string) \<Rightarrow> nat \<Rightarrow> string \<Rightarrow> mv_info \<Rightarrow> string \<Rightarrow> world \<Rightarrow> world" where
  "registerMV key i adamID info out w =
     upd_rip i (put_titled_meta out
        (zero_audio_meta\<lparr>aTrackID := trim_space adamID, aTitle := trim_space (mviName info),
           aPerformer := trim_space (mviArtist info), aDurationMillis := mviDurationMillis info,
           aAlbumName := trim_space (mviAlbum info), aReleaseDate := trim_space (mviReleaseDate info),
           aContentRating := trim_space (mviContentRating info), aCodec := ''MV''\<rparr>))
       (addPath key i out w)"

fun first_err :: "wrap_err option list \<Rightarrow> wrap_err option" where
  "first_err [] = None"
| "first_err (None # es) = first_err es"
| "first_err (Some e # es) = Some e"

definition mv_dir :: "track \<Rightarrow> string" where
  "mv_dir tk = trim_space (if has_suffix (tkSaveDir tk) ''.'' then filter (\<lambda>c. c \<noteq> dot) (tkSaveDir tk) else tkSaveDir tk)"

text \<open>The temporary audio, video and thumbnail files are removed on every path and not modelled.\<close>

definition mvDownloader :: "(string \<Rightarrow> string) \<Rightarrow> nat \<Rightarrow> mv_io \<Rightarrow> track \<Rightarrow> world \<Rightarrow> wrap_err option \<times> world" where
  "mvDownloader key i mv tk w =
     (let other = (\<lambda>s. Some \<lparr>weText = s, weNoKey = False\<rparr>) in
      case mvInfo mv of
        None \<Rightarrow> (other ''failed to get music video info'', w)
      | Some None \<Rightarrow> (other (''music video '' @ tkID tk @ '' not found or unavailable''), w)
      | Some (Some info) \<Rightarrow>
          let out = mv_path (mv_dir tk) tk info;
              w1 = (if sNoCache (wRips w ! i) \<and> fileExists key out w then remove_file key out w else w)
          in if fileExists key out w1 then (None, registerMV key i (tkID tk) info out w1)
             else if mvUrl mv = [] then (other ''media-user-token may be wrong or expired'', w1)
             else (case first_err (mvSteps mv) of
                     Some e \<Rightarrow> (Some e, w1)
                   | None \<Rightarrow>
                       let w2 = put_file key out (mvWrites mv) w1
                       in (case mvMux mv of
                             Some e \<Rightarrow> (Some e, w2)
                           | None \<Rightarrow> (None, registerMV key i (tkID tk) info out w2))))"

subsection \<open>The source and the name of a track\<close>

text \<open>The AAC-LC decision; \<open>None\<close> when Atmos is asked for and absent.\<close>

definition needs_aac_lc :: "'x full_config_scheme \<Rightarrow> rip \<Rightarrow> track \<Rightarrow> bool option" where
  "needs_aac_lc cfg r tk =
     (let need = (sAAC r \<or> tkCodec tk = ''AAC'') \<and> (cAacType cfg = ''aac-lc'' \<or> tkCodec tk = ''AAC'')
      in if tkWebM3u8 tk = [] \<and> \<not> need then (if sAtmos r then None else Some True) else Some need)"

definition ask_wrapper :: "retry_io \<Rightarrow> wrap_err option" where
  "ask_wrapper ro = fst (withWrapperRetry (roStopped ro) (roWaking ro) (\<lambda>n s. (roAnswer ro n, s)) ())"

definition kbps :: "int \<Rightarrow> string" where "kbps n = itoa n @ ''Kbps''"

text \<open>The quality shown in the name; \<open>None\<close> when the manifest cannot be read.\<close>

definition track_quality :: "'x full_config_scheme \<Rightarrow> rip \<Rightarrow> bool \<Rightarrow> track_io \<Rightarrow> string option" where
  "track_quality cfg r aacLc io =
     (if sAtmos r then Some (kbps (cAtmosMax cfg - 2000))
      else if aacLc then Some ''256Kbps''
      else map_option snd (ioExtract io))"

definition tag_string :: "'x full_config_scheme \<Rightarrow> track \<Rightarrow> string" where
  "tag_string cfg tk =
     join_with '' ''
       ((if tkMastered tk \<and> cAppleMasterChoice cfg \<noteq> [] then [cAppleMasterChoice cfg] else []) @
        (if tkContentRating tk = ''explicit'' \<and> cExplicitChoice cfg \<noteq> [] then [cExplicitChoice cfg] else []) @
        (if tkContentRating tk = ''clean'' \<and> cCleanChoice cfg \<noteq> [] then [cCleanChoice cfg] else []))"

definition song_name :: "'x full_config_scheme \<Rightarrow> 'x full_config_scheme \<Rightarrow> track \<Rightarrow> string \<Rightarrow> string" where
  "song_name gc cfg tk quality =
     replacer
       [(''{SongId}'', tkID tk), (''{SongNumer}'', pad2 (tkTaskNum tk)), (''{SongName}'', LimitString (cLimitMax gc) (tkRespName tk)),
        (''{ArtistName}'', LimitString (cLimitMax gc) (tkRespArtist tk)), (''{DiscNumber}'', itoa (tkDiscNumber tk)),
        (''{TrackNumber}'', itoa (tkTrackNumber tk)), (''{Quality}'', quality), (''{Tag}'', tag_string cfg tk), (''{Codec}'', tkCodec tk)]
       (cSongFileFormat gc)"

definition conversionEnabled :: "'x full_config_scheme \<Rightarrow> bool" where
  "conversionEnabled cfg = (cConvertAfterDownload cfg \<and> cConvertFormat cfg \<noteq> [] \<and> to_lower (cConvertFormat cfg) \<noteq> ''copy'')"

definition converted_path :: "'x full_config_scheme \<Rightarrow> string \<Rightarrow> string" where
  "converted_path cfg trackPath = trim_suffix trackPath (path_ext trackPath) @ ''.'' @ to_lower (cConvertFormat cfg)"


subsection \<open>An attempt\<close>

type_synonym attempt = "track_outcome option \<times> track \<times> ripping"

definition give_up :: "nat \<Rightarrow> track_outcome \<Rightarrow> string \<Rightarrow> track \<Rightarrow> ripping \<Rightarrow> attempt" where
  "give_up i outcome msg tk g =
     (Some outcome, tk, fail_track i (tkName tk @ '': '' @ msg) (if outcome = TrackUnavailable then inc_unavailable else inc_error) g)"

definition succeed :: "(string \<Rightarrow> string) \<Rightarrow> nat \<Rightarrow> track_io \<Rightarrow> track \<Rightarrow> ripping \<Rightarrow> attempt" where
  "succeed key i io tk g = (Some TrackSucceeded, tk, finish_track key i io tk g)"

definition move_file :: "(string \<Rightarrow> string) \<Rightarrow> string \<Rightarrow> string \<Rightarrow> world \<Rightarrow> world" where
  "move_file key a b w = w\<lparr>wDisk := (wDisk w)(key b := wDisk w (key a), key a := None)\<rparr>"

definition per_track_cover :: "'x full_config_scheme \<Rightarrow> 'x full_config_scheme \<Rightarrow> track \<Rightarrow> bool" where
  "per_track_cover gc cfg tk = (cEmbedCover cfg \<and> (contains (tkPreID tk) ''pl.'' \<or> contains (tkPreID tk) ''ra.'') \<and> cDlAlbumcoverForPlaylist gc)"

text \<open>From the downloaded file on: remux, cover, tags, conversion.\<close>

definition package_track ::
  "(string \<Rightarrow> string) \<Rightarrow> 'x full_config_scheme \<Rightarrow> 'x full_config_scheme \<Rightarrow> nat \<Rightarrow> track_io \<Rightarrow> track \<Rightarrow> string \<Rightarrow> ripping \<Rightarrow> attempt" where
  "package_track key gc cfg i io tk trackPath g =
     (let remuxPath = trackPath @ ''.remux.m4a''; g1 = on_world (put_file key remuxPath (ioRemuxWrites io)) g
      in if \<not> ioRemuxOk io then give_up i TrackRetryableFailure ''ffmpeg remux failed'' tk g1
         else if \<not> ioRenameOk io then give_up i TrackRetryableFailure ''rename failed'' tk g1
         else let g2 = on_world (move_file key remuxPath trackPath) g1;
                  cover = (if per_track_cover gc cfg tk then ioCover io else None);
                  g3 = (case cover of None \<Rightarrow> g2 | Some (p, n) \<Rightarrow> on_world (put_file key p (Some n)) g2);
                  tk1 = tk\<lparr>tkSavePath := trackPath\<rparr>;
                  g4 = on_world (put_file key trackPath (ioTagsWrites io)) g3
              in case ioTags io of
                   Some e \<Rightarrow> give_up i TrackRetryableFailure (''failed to write MP4 tags: '' @ weText e) tk1 g4
                 | None \<Rightarrow>
                     let g5 = (case cover of None \<Rightarrow> g4 | Some (p, n) \<Rightarrow> on_world (remove_file key p) g4)
                     in case ConvertIfNeeded key (ioConvert io) cfg tk1 (rgWorld g5) of
                          (tk2, w) \<Rightarrow> succeed key i io tk2 (g5\<lparr>rgWorld := w\<rparr>))"

definition download_track ::
  "(string \<Rightarrow> string) \<Rightarrow> 'x full_config_scheme \<Rightarrow> 'x full_config_scheme \<Rightarrow> nat \<Rightarrow> track_io \<Rightarrow> track \<Rightarrow> string \<Rightarrow> ripping \<Rightarrow> attempt" where
  "download_track key gc cfg i io tk trackPath g =
     (case withWrapperRetry (roStopped (ioDecrypt io)) (roWaking (ioDecrypt io))
             (\<lambda>n w. (roAnswer (ioDecrypt io) n, put_file key trackPath (ioDecryptWrites io n) w)) (rgWorld g) of
        (None, _, w) \<Rightarrow> package_track key gc cfg i io tk trackPath (g\<lparr>rgWorld := w\<rparr>)
      | (Some e, _, w) \<Rightarrow>
          if weNoKey e then
            (let g1 = g\<lparr>rgWorld := put_file key trackPath (ioWidevineWrites io) w\<rparr>
             in case ioWidevine io of
                  Some we \<Rightarrow> give_up i TrackUnavailable (''no FairPlay key; Widevine fallback failed: '' @ weText we) tk g1
                | None \<Rightarrow> package_track key gc cfg i io tk trackPath g1)
          else give_up i (if contains (weText e) ''Unavailable'' then TrackUnavailable else TrackRetryableFailure)
                 (''download/decrypt failed: '' @ weText e) tk (g\<lparr>rgWorld := w\<rparr>))"

definition save_lyrics ::
  "(string \<Rightarrow> string) \<Rightarrow> 'x full_config_scheme \<Rightarrow> track_io \<Rightarrow> string \<Rightarrow> ripping \<Rightarrow> ripping" where
  "save_lyrics key cfg io lrcPath g =
     (if (cEmbedLrc cfg \<or> cSaveLrcFile cfg) \<and> ioLyrics io \<noteq> None \<and> cSaveLrcFile cfg
      then on_world (put_file key lrcPath (ioLrcWrites io)) g else g)"

definition considerConverted :: "'x full_config_scheme \<Rightarrow> bool" where
  "considerConverted cfg = (conversionEnabled cfg \<and> \<not> cConvertKeepOriginal cfg)"

text \<open>\<^verbatim>\<open>--no-cache\<close>: drops the copies nobody is delivering; the flag says that the original was dropped.\<close>

definition drop_copies ::
  "(string \<Rightarrow> string) \<Rightarrow> 'x full_config_scheme \<Rightarrow> nat \<Rightarrow> string \<Rightarrow> world \<Rightarrow> bool \<times> world" where
  "drop_copies key cfg i trackPath w =
     (if sNoCache (wRips w ! i) \<and> \<not> isInUse key trackPath w
      then let v = remove_file key trackPath w; convertedPath = converted_path cfg trackPath
           in (True, if considerConverted cfg \<and> \<not> isInUse key convertedPath v then remove_file key convertedPath v else v)
      else (False, w))"

definition at_path :: "string \<Rightarrow> track \<Rightarrow> track" where
  "at_path p tk = tk\<lparr>tkSavePath := p, tkSaveName := path_base p\<rparr>"

definition reuse_original ::
  "(string \<Rightarrow> string) \<Rightarrow> 'x full_config_scheme \<Rightarrow> nat \<Rightarrow> track_io \<Rightarrow> track \<Rightarrow> string \<Rightarrow> ripping \<Rightarrow> attempt" where
  "reuse_original key cfg i io tk trackPath g =
     (if considerConverted cfg \<and> fileExists key (converted_path cfg trackPath) (rgWorld g)
      then succeed key i io (at_path (converted_path cfg trackPath) tk) g
      else if conversionEnabled cfg
      then (case ConvertIfNeeded key (ioConvert io) cfg (at_path trackPath tk) (rgWorld g) of
              (tk2, w2) \<Rightarrow> succeed key i io tk2 (g\<lparr>rgWorld := w2\<rparr>))
      else succeed key i io (at_path trackPath tk) g)"

text \<open>From the file's name on: lyrics, the copy that exists, or a download.\<close>

definition named_track :: "'x full_config_scheme \<Rightarrow> 'x full_config_scheme \<Rightarrow> track \<Rightarrow> string \<Rightarrow> track" where
  "named_track gc cfg tk quality = tk\<lparr>tkQuality := quality, tkSaveName := safe_name (song_name gc cfg tk quality) @ ''.m4a''\<rparr>"

definition track_path :: "track \<Rightarrow> string" where
  "track_path tk = path_join (tkSaveDir tk) (tkSaveName tk)"

definition rip_named ::
  "(string \<Rightarrow> string) \<Rightarrow> 'x full_config_scheme \<Rightarrow> 'x full_config_scheme \<Rightarrow> nat \<Rightarrow> track_io \<Rightarrow> track \<Rightarrow> string \<Rightarrow> ripping \<Rightarrow> attempt" where
  "rip_named key gc cfg i io tk0 quality g0 =
     (let tk = named_track gc cfg tk0 quality; trackPath = track_path tk;
          lrcPath = path_join (tkSaveDir tk) (safe_name (song_name gc cfg tk0 quality) @ ''.'' @ cLrcFormat cfg);
          g = save_lyrics key cfg io lrcPath g0
      in case drop_copies key cfg i trackPath (rgWorld g) of
           (dropped, w1) \<Rightarrow>
             if \<not> dropped \<and> fileExists key trackPath (rgWorld g)
             then reuse_original key cfg i io tk trackPath (g\<lparr>rgWorld := w1\<rparr>)
             else if considerConverted cfg \<and> fileExists key (converted_path cfg trackPath) w1
             then succeed key i io (at_path (converted_path cfg trackPath) tk) (g\<lparr>rgWorld := w1\<rparr>)
             else download_track key gc cfg i io tk trackPath (g\<lparr>rgWorld := w1\<rparr>))"

text \<open>\<open>None\<close> is a panic (\<^verbatim>\<open>resp.Data[0]\<close> of an empty answer in \<^verbatim>\<open>GetAlbumData\<close>).\<close>

definition ripTrack ::
  "(string \<Rightarrow> string) \<Rightarrow> 'x full_config_scheme \<Rightarrow> nat \<Rightarrow> track_io \<Rightarrow> track \<Rightarrow> ripping \<Rightarrow> attempt" where
  "ripTrack key gc i io tk g =
     (if ioCancelled io then (Some TrackCancelled, tk, g)
      else let g0 = on_ctr inc_total g; r = wRips (rgWorld g) ! i; cfg = ripConfig gc (Some r)
      in if tkPreType tk = ''playlists'' \<and> cUseSongInfoForPlaylist gc \<and> ioAlbumPanics io then (None, tk, g0)
         else if tkType tk = ''music-videos'' then
           (case mvDownloader key i (ioMv io) tk (rgWorld g0) of
              (Some e, w) \<Rightarrow> give_up i TrackRetryableFailure (''music video failed: '' @ weText e) tk (g0\<lparr>rgWorld := w\<rparr>)
            | (None, w) \<Rightarrow> (Some TrackSucceeded, tk, on_ctr inc_success (g0\<lparr>rgWorld := w\<rparr>)))
         else case needs_aac_lc cfg r tk of
                None \<Rightarrow> give_up i TrackUnavailable ''Dolby Atmos is unavailable'' tk g0
              | Some aacLc \<Rightarrow>
                  (case ask_wrapper (if aacLc then ioPlayback io else ioM3u8 io) of
                     Some e \<Rightarrow>
                       give_up i (if isTransientWrapperErr (Some e) then TrackRetryableFailure else TrackUnavailable)
                         ((if aacLc then ''AAC-LC WebPlayback failed: '' else ''ALAC/Atmos M3U8 failed: '') @ weText e) tk g0
                   | None \<Rightarrow>
                       (case track_quality cfg r aacLc io of
                          None \<Rightarrow> give_up i TrackRetryableFailure ''failed to read quality from manifest'' tk g0
                        | Some quality \<Rightarrow> rip_named key gc cfg i io tk quality g0)))"

definition runTrackAttempt ::
  "(string \<Rightarrow> string) \<Rightarrow> 'x full_config_scheme \<Rightarrow> nat \<Rightarrow> track_io \<Rightarrow> track \<Rightarrow> ripping \<Rightarrow> track_outcome \<times> track \<times> ripping" where
  "runTrackAttempt key gc i io tk g =
     (case ripTrack key gc i io tk g of
        (Some outcome, tk1, g1) \<Rightarrow> (outcome, tk1, g1)
      | (None, tk1, g1) \<Rightarrow> (TrackRetryableFailure, tk1, fail_track i (tkName tk @ '': internal error'') inc_error g1))"

definition prepareTrackRetry :: "(string \<Rightarrow> string) \<Rightarrow> 'x full_config_scheme \<Rightarrow> track \<Rightarrow> world \<Rightarrow> track \<times> world" where
  "prepareTrackRetry key cfg tk w =
     (if tkSaveDir tk = [] \<or> tkSaveName tk = [] then (tk, w)
      else let trackPath = path_join (tkSaveDir tk) (tkSaveName tk);
               w1 = (if \<not> isInUse key trackPath w
                     then remove_file key (trackPath @ ''.remux.m4a'') (remove_file key trackPath w) else w);
               convertedPath = converted_path cfg trackPath;
               w2 = (if conversionEnabled cfg \<and> \<not> isInUse key convertedPath w1 then remove_file key convertedPath w1 else w1)
           in (tk\<lparr>tkSavePath := []\<rparr>, w2))"


subsection \<open>Retries are bounded\<close>

definition hopeful :: "wrap_err option \<Rightarrow> bool" where
  "hopeful err = (isTransientWrapperErr err \<and> (case err of None \<Rightarrow> False | Some e \<Rightarrow> \<not> weNoKey e))"

fun counts_from :: "nat \<Rightarrow> nat list \<Rightarrow> bool" where
  "counts_from n [] = True"
| "counts_from n (c # cs) = (c = n \<and> counts_from (Suc n) cs)"

lemma counts_from_upt: "counts_from n cs \<Longrightarrow> [n..<n + length cs] = cs"
  by (induction n cs rule: counts_from.induct) (simp_all add: upt_conv_Cons del: upt_Suc)

text \<open>What a run of the loop leaves behind, with the backoffs \<open>bs\<close> it may still use.\<close>

definition trace_ok :: "(nat \<Rightarrow> wrap_err option) \<Rightarrow> nat \<Rightarrow> int list \<Rightarrow> wrap_err option \<Rightarrow> int list \<Rightarrow> nat list \<Rightarrow> bool" where
  "trace_ok answer attempt bs err waits calls =
     (waits = take (length waits) bs \<and> counts_from attempt calls \<and> length calls \<le> length bs + 1 \<and>
      length waits \<le> length calls \<and> length calls \<le> length waits + 1 \<and> list_all (\<lambda>n. hopeful (answer n)) (butlast calls) \<and>
      (case err of
         None \<Rightarrow> calls \<noteq> [] \<and> answer (last calls) = None
       | Some e \<Rightarrow> e = ctx_err \<or> calls \<noteq> [] \<and> answer (last calls) = Some e \<and> (length calls = length bs + 1 \<or> \<not> hopeful (Some e))))"

lemma retry_loop_calls:
  "retry_loop stopped waking (\<lambda>n calls. (answer n, calls @ [n])) attempt k b (pre @ calls) =
     (case retry_loop stopped waking (\<lambda>n calls. (answer n, calls @ [n])) attempt k b calls of (err, waits, cs) \<Rightarrow> (err, waits, pre @ cs))"
proof (induction k arbitrary: attempt b calls)
  case (Suc k)
  show ?case
    by (simp add: Suc.IH [of _ _ "calls @ [attempt]", simplified] split: option.split prod.split)
qed simp

lemma trace_ok_step:
  assumes "trace_ok answer (attempt + 1) bs err waits calls" "hopeful (answer attempt)"
  shows "trace_ok answer attempt (b # bs) err (b # waits) (attempt # calls)"
  using assms by (cases calls) (auto simp: trace_ok_def split: option.splits if_splits)

lemma retry_loop_trace:
  "retry_loop stopped waking (\<lambda>n calls. (answer n, calls @ [n])) attempt (Suc k) b [] = (err, waits, calls) \<Longrightarrow>
   bs = rec_nat (\<lambda>_. []) (\<lambda>_ f b. b # f (if b < 16 then b * 2 else b)) k b \<Longrightarrow> trace_ok answer attempt bs err waits calls"
proof (induction k arbitrary: attempt b bs err waits calls)
  case 0
  then have bs: "bs = []" by simp
  show ?case
  proof (cases "stopped attempt")
    case True
    then show ?thesis using 0 by (auto simp: trace_ok_def)
  next
    case False
    then have "err = answer attempt" "waits = []" "calls = [attempt]"
      using 0(1) by (cases "answer attempt"; auto split: if_splits)+
    then show ?thesis by (cases "answer attempt") (simp_all add: trace_ok_def bs)
  qed
next
  case (Suc k)
  let ?fn = "\<lambda>n calls. (answer n, calls @ [n])" and ?b = "if b < 16 then b * 2 else b"
  obtain err1 waits1 calls1 where r: "retry_loop stopped waking ?fn (attempt + 1) (Suc k) ?b [] = (err1, waits1, calls1)"
    by (rule prod_cases3)
  define bs1 where "bs1 = rec_nat (\<lambda>_. []) (\<lambda>_ f b. b # f (if b < 16 then b * 2 else b)) k ?b"
  have bs: "bs = b # bs1" using Suc.prems(2) by (simp add: bs1_def)
  have t: "trace_ok answer (attempt + 1) bs1 err1 waits1 calls1" by (rule Suc.IH [OF r bs1_def])
  have app: "retry_loop stopped waking ?fn (attempt + 1) (Suc k) ?b [attempt] = (err1, waits1, attempt # calls1)"
    using retry_loop_calls [of stopped waking answer "attempt + 1" "Suc k" ?b "[attempt]" "[]"] r by simp
  consider (stopped) "stopped attempt" | (ok) "\<not> stopped attempt" "answer attempt = None"
    | (halt) e where "\<not> stopped attempt" "answer attempt = Some e" "\<not> hopeful (Some e) \<or> waking attempt"
    | (more) e where "\<not> stopped attempt" "answer attempt = Some e" "hopeful (Some e)" "\<not> waking attempt"
    by fastforce
  then show ?case
  proof cases
    case stopped
    then show ?thesis using Suc.prems(1) by (auto simp: trace_ok_def)
  next
    case ok
    then show ?thesis using Suc.prems(1) by (auto simp: trace_ok_def)
  next
    case (halt e)
    then have "waits = [] \<and> calls = [attempt] \<and> (err = Some ctx_err \<or> err = Some e \<and> \<not> hopeful (Some e))"
      using Suc.prems(1) by (auto simp: hopeful_def split: if_splits)
    then show ?thesis using halt(2) by (auto simp: trace_ok_def)
  next
    case (more e)
    then have "(err, waits, calls) = (err1, b # waits1, attempt # calls1)"
      using Suc.prems(1) app by (simp add: hopeful_def del: retry_loop.simps(2)) (simp add: app)
    then show ?thesis using trace_ok_step [OF t, of b] more(2,3) by (simp add: bs)
  qed
qed

text \<open>
  Retrying is bounded: \<^verbatim>\<open>withWrapperRetry\<close> calls the wrapper at most five times, waits 2, 4, 8 and
  16 seconds in between, goes on only after a transient error, returns no error exactly when its
  last call made none, and otherwise returns the end of the context or the last call's error, which
  is then permanent or the fifth.
\<close>

theorem retry_bounded:
  assumes "withWrapperRetry stopped waking (\<lambda>n calls. (answer n, calls @ [n])) [] = (err, waits, calls)"
  shows "length calls \<le> 5 \<and> calls = [1..<1 + length calls] \<and> waits = take (length waits) [2, 4, 8, 16] \<and>
    length calls \<le> length waits + 1 \<and> list_all (\<lambda>n. hopeful (answer n)) (butlast calls) \<and>
    (case err of
       None \<Rightarrow> calls \<noteq> [] \<and> answer (last calls) = None
     | Some e \<Rightarrow> e = ctx_err \<or> calls \<noteq> [] \<and> answer (last calls) = Some e \<and> (length calls = 5 \<or> \<not> hopeful (Some e)))"
proof -
  have "retry_loop stopped waking (\<lambda>n calls. (answer n, calls @ [n])) 1 (Suc 4) 2 [] = (err, waits, calls)"
    using assms by (simp only: withWrapperRetry_def maxAttempts_def) (simp del: retry_loop.simps)
  then have "trace_ok answer 1 [2, 4, 8, 16] err waits calls"
    by (rule retry_loop_trace) (simp add: numeral_eq_Suc)
  then show ?thesis using counts_from_upt [of 1 calls] unfolding trace_ok_def
    by (cases err) (simp_all add: numeral_eq_Suc)
qed


theorem retry_bounded_witness:
  "withWrapperRetry (\<lambda>_. False) (\<lambda>_. False) (\<lambda>n calls. (if n < 3 then Some \<lparr>weText = ''unexpected EOF'', weNoKey = False\<rparr> else None, calls @ [n])) []
     = (None, [2, 4], [1, 2, 3])"
proof -
  let ?a = "\<lambda>n. if n < 3 then Some \<lparr>weText = ''unexpected EOF'', weNoKey = False\<rparr> else None"
  obtain err waits calls where e: "withWrapperRetry (\<lambda>_. False) (\<lambda>_. False) (\<lambda>n calls. (?a n, calls @ [n])) [] = (err, waits, calls)"
    by (rule prod_cases3)
  have "withWrapperRetry (\<lambda>_. False) (\<lambda>_. False) (\<lambda>n calls. (?a n, calls @ [n])) [] = (None, [2, 4], [1, 2, 3])"
    by (simp add: withWrapperRetry_def maxAttempts_def isTransientWrapperErr_def contains_def numeral_eq_Suc Let_def)
  with retry_bounded [OF e] e show ?thesis by simp
qed

subsection \<open>What an attempt does\<close>

lemma disk_ops_rips [simp]:
  "wRips (put_file key p n w) = wRips w" "wRips (remove_file key p w) = wRips w" "wRips (move_file key a b w) = wRips w"
  "wReg (put_file key p n w) = wReg w" "wReg (remove_file key p w) = wReg w" "wReg (move_file key a b w) = wReg w"
  by (simp_all add: put_file_def remove_file_def move_file_def split: option.split)

lemma convert_rips [simp]:
  "wRips (snd (ConvertIfNeeded key cv cfg tk w)) = wRips w" "wReg (snd (ConvertIfNeeded key cv cfg tk w)) = wReg w"
  by (simp_all add: ConvertIfNeeded_def Let_def)

lemma convert_path: "tkSavePath tk \<noteq> [] \<Longrightarrow> tkSavePath (fst (ConvertIfNeeded key cv cfg tk w)) \<noteq> []"
  "tkPreID (fst (ConvertIfNeeded key cv cfg tk w)) = tkPreID tk" "tkTaskNum (fst (ConvertIfNeeded key cv cfg tk w)) = tkTaskNum tk"
  by (simp_all add: ConvertIfNeeded_def Let_def)

text \<open>
  What a rip can tell of an attempt: its counters, its files, the tracks it has marked done and the
  failures it has recorded.
\<close>

definition seen :: "nat \<Rightarrow> ripping \<Rightarrow> counter \<times> string list \<times> (string \<rightharpoonup> int list) \<times> string list" where
  "seen i g = (rgCtr g, sPaths (wRips (rgWorld g) ! i), sOkDict (wRips (rgWorld g) ! i), sFailures (wRips (rgWorld g) ! i))"

text \<open>The three ways an attempt ends, over the state \<open>g\<close> in which it counted the track.\<close>

definition attempt_ok :: "nat \<Rightarrow> track \<Rightarrow> ripping \<Rightarrow> attempt \<Rightarrow> bool" where
  "attempt_ok i tk0 g a =
     (case a of (outcome, tk, g') \<Rightarrow>
       length (wRips (rgWorld g')) = length (wRips (rgWorld g)) \<and>
       (case seen i g of (c, paths, done0, fails) \<Rightarrow>
        (case outcome of
           None \<Rightarrow> seen i g' = (c, paths, done0, fails)
         | Some TrackSucceeded \<Rightarrow>
             (if tkType tk0 = ''music-videos'' then \<exists>p. seen i g' = (inc_success c, paths @ [p], done0, fails)
              else tkSavePath tk \<noteq> [] \<and>
                   seen i g' = (inc_success c, paths @ [tkSavePath tk], sOkDict (markDone (tkPreID tk0) (tkTaskNum tk0) (wRips (rgWorld g) ! i)), fails))
         | Some TrackRetryableFailure \<Rightarrow> (\<exists>msg. seen i g' = (inc_error c, paths, done0, sFailures (recordFailure msg (wRips (rgWorld g) ! i))))
         | Some TrackUnavailable \<Rightarrow> (\<exists>msg. seen i g' = (inc_unavailable c, paths, done0, sFailures (recordFailure msg (wRips (rgWorld g) ! i))))
         | _ \<Rightarrow> False)))"

lemma recordFailure_frame [simp]:
  "sPaths (recordFailure msg r) = sPaths r" "sOkDict (recordFailure msg r) = sOkDict r"
  by (simp_all add: recordFailure_def Let_def)

lemma markDone_frame [simp]: "sPaths (markDone p n r) = sPaths r" "sFailures (markDone p n r) = sFailures r"
  by (simp_all add: markDone_def)

lemma putMeta_frame [simp]:
  "sPaths (put_titled_meta p m r) = sPaths r" "sOkDict (put_titled_meta p m r) = sOkDict r" "sFailures (put_titled_meta p m r) = sFailures r"
  by (simp_all add: put_titled_meta_def putMeta_def)

lemma addPath_seen:
  assumes "i < length (wRips w)"
  shows "sPaths (wRips (addPath key i p w) ! i) = sPaths (wRips w ! i) @ [p]" "sOkDict (wRips (addPath key i p w) ! i) = sOkDict (wRips w ! i)"
    "sFailures (wRips (addPath key i p w) ! i) = sFailures (wRips w ! i)" "length (wRips (addPath key i p w)) = length (wRips w)"
  using assms by (simp_all add: addPath_eq)

lemma give_up_ok:
  assumes "wRips (rgWorld g1) = wRips (rgWorld g)" "rgCtr g1 = rgCtr g" "i < length (wRips (rgWorld g))"
    "outcome = TrackRetryableFailure \<or> outcome = TrackUnavailable"
  shows "attempt_ok i tk0 g (give_up i outcome msg tk g1)"
  using assms by (auto simp: attempt_ok_def give_up_def fail_track_def seen_def)

lemma succeed_ok:
  assumes "wRips (rgWorld g1) = wRips (rgWorld g)" "rgCtr g1 = rgCtr g" "i < length (wRips (rgWorld g))"
    "tkSavePath tk \<noteq> []" "tkPreID tk = tkPreID tk0" "tkTaskNum tk = tkTaskNum tk0" "tkType tk0 \<noteq> ''music-videos''"
  shows "attempt_ok i tk0 g (succeed key i io tk g1)"
proof -
  have len: "i < length (wRips (rgWorld g1))" using assms by simp
  show ?thesis
    using assms addPath_seen [OF len, of key "tkSavePath tk"]
    by (simp add: attempt_ok_def succeed_def finish_track_def recordDownloadedTrack_def seen_def markDone_def)
qed


text \<open>A state that differs only on the disk.\<close>

definition same_rips :: "ripping \<Rightarrow> ripping \<Rightarrow> bool" where
  "same_rips g g' = (wRips (rgWorld g') = wRips (rgWorld g) \<and> rgCtr g' = rgCtr g)"

lemma same_rips_simps [simp]:
  "same_rips g g" "same_rips g (g'\<lparr>rgWorld := put_file key p n (rgWorld g')\<rparr>) = same_rips g g'"
  "same_rips g (g'\<lparr>rgWorld := remove_file key p (rgWorld g')\<rparr>) = same_rips g g'"
  "same_rips g (g'\<lparr>rgWorld := move_file key a b (rgWorld g')\<rparr>) = same_rips g g'"
  "same_rips g (g'\<lparr>rgWorld := snd (ConvertIfNeeded key cv cfg tk (rgWorld g'))\<rparr>) = same_rips g g'"
  by (simp_all add: same_rips_def)

lemmas same_ok = give_up_ok succeed_ok

lemma package_ok:
  assumes "same_rips g g1" "i < length (wRips (rgWorld g))" "trackPath \<noteq> []"
    "tkPreID tk = tkPreID tk0" "tkTaskNum tk = tkTaskNum tk0" "tkType tk0 \<noteq> ''music-videos''"
  shows "attempt_ok i tk0 g (package_track key gc cfg i io tk trackPath g1)"
proof -
  have s: "wRips (rgWorld g1) = wRips (rgWorld g)" "rgCtr g1 = rgCtr g" using assms(1) by (simp_all add: same_rips_def)
  show ?thesis
    unfolding package_track_def Let_def
    by (auto simp: split_beta s convert_path assms intro!: give_up_ok succeed_ok split: option.split)
qed

lemma retry_state: "(\<And>n s. P s \<Longrightarrow> P (snd (fn n s))) \<Longrightarrow> P s \<Longrightarrow> P (snd (snd (retry_loop stopped waking fn n k b s)))"
  by (induction k arbitrary: n b s) (auto simp: split_beta split: option.split)

lemma download_ok:
  assumes "same_rips g g1" "i < length (wRips (rgWorld g))" "trackPath \<noteq> []"
    "tkPreID tk = tkPreID tk0" "tkTaskNum tk = tkTaskNum tk0" "tkType tk0 \<noteq> ''music-videos''"
  shows "attempt_ok i tk0 g (download_track key gc cfg i io tk trackPath g1)"
proof -
  let ?d = "withWrapperRetry (roStopped (ioDecrypt io)) (roWaking (ioDecrypt io))
    (\<lambda>n w. (roAnswer (ioDecrypt io) n, put_file key trackPath (ioDecryptWrites io n) w)) (rgWorld g1)"
  obtain err waits w where d: "?d = (err, waits, w)" by (rule prod_cases3)
  have "wRips (snd (snd ?d)) = wRips (rgWorld g1)"
    unfolding withWrapperRetry_def by (rule retry_state [where P = "\<lambda>w. wRips w = wRips (rgWorld g1)"]) simp_all
  then have w: "wRips w = wRips (rgWorld g1)" using d by simp
  have s: "wRips (rgWorld g1) = wRips (rgWorld g)" "rgCtr g1 = rgCtr g" using assms(1) by (simp_all add: same_rips_def)
  have p: "attempt_ok i tk0 g (package_track key gc cfg i io tk trackPath (g1\<lparr>rgWorld := v\<rparr>))" if "wRips v = wRips (rgWorld g1)" for v
    by (rule package_ok [OF _ assms(2-6)]) (simp add: same_rips_def that s)
  show ?thesis
    unfolding download_track_def d by (auto simp: Let_def w s assms(2) p intro!: give_up_ok split: option.split)
qed

lemma path_join_nonempty: "n \<noteq> [] \<Longrightarrow> path_join d n \<noteq> []"
  by (simp add: path_join_def path_clean_def Let_def)

lemma converted_nonempty: "converted_path cfg p \<noteq> []"
  by (simp add: converted_path_def)

lemma drop_copies_rips: "drop_copies key cfg i p w = (dropped, w1) \<Longrightarrow> wRips w1 = wRips w"
  by (auto simp: drop_copies_def Let_def split: if_splits)

lemma at_path_sel [simp]:
  "tkSavePath (at_path p tk) = p" "tkPreID (at_path p tk) = tkPreID tk" "tkTaskNum (at_path p tk) = tkTaskNum tk"
  by (simp_all add: at_path_def)

lemma named_track_sel [simp]:
  "tkPreID (named_track gc cfg tk q) = tkPreID tk" "tkTaskNum (named_track gc cfg tk q) = tkTaskNum tk"
  "tkSaveDir (named_track gc cfg tk q) = tkSaveDir tk" "tkName (named_track gc cfg tk q) = tkName tk"
  "track_path (named_track gc cfg tk q) \<noteq> []"
  by (simp_all add: named_track_def track_path_def path_join_nonempty)

lemma same_rips_to: "same_rips g g1 \<Longrightarrow> wRips v = wRips (rgWorld g1) \<Longrightarrow> same_rips g (g1\<lparr>rgWorld := v\<rparr>)"
  by (simp add: same_rips_def)

lemma save_lyrics_same: "same_rips g (save_lyrics key cfg io p g1) = same_rips g g1"
  by (simp add: save_lyrics_def)

lemma succeed_same:
  assumes "same_rips g g1" "i < length (wRips (rgWorld g))"
    "tkSavePath tk \<noteq> []" "tkPreID tk = tkPreID tk0" "tkTaskNum tk = tkTaskNum tk0" "tkType tk0 \<noteq> ''music-videos''"
  shows "attempt_ok i tk0 g (succeed key i io tk g1)"
  using assms unfolding same_rips_def by (intro succeed_ok) auto

lemma reuse_ok:
  assumes "same_rips g g1" "i < length (wRips (rgWorld g))" "trackPath \<noteq> []"
    "tkPreID tk = tkPreID tk0" "tkTaskNum tk = tkTaskNum tk0" "tkType tk0 \<noteq> ''music-videos''"
  shows "attempt_ok i tk0 g (reuse_original key cfg i io tk trackPath g1)"
  using assms unfolding reuse_original_def
  by (auto simp: split_beta converted_nonempty convert_path intro!: succeed_same)

lemma named_ok:
  assumes "same_rips g g0" "i < length (wRips (rgWorld g))" "tkPreID tk = tkPreID tk0" "tkTaskNum tk = tkTaskNum tk0" "tkType tk0 \<noteq> ''music-videos''"
  shows "attempt_ok i tk0 g (rip_named key gc cfg i io tk quality g0)"
proof -
  let ?tk = "named_track gc cfg tk quality"
  define gl where "gl = save_lyrics key cfg io (path_join (tkSaveDir tk) (safe_name (song_name gc cfg tk quality) @ ''.'' @ cLrcFormat cfg)) g0"
  have gl: "same_rips g gl" using assms(1) by (simp add: gl_def save_lyrics_same)
  obtain dropped w1 where d: "drop_copies key cfg i (track_path ?tk) (rgWorld gl) = (dropped, w1)" by fastforce
  have g1: "same_rips g (gl\<lparr>rgWorld := w1\<rparr>)" by (rule same_rips_to [OF gl drop_copies_rips [OF d]])
  note ok = reuse_ok [OF g1 assms(2)] succeed_same [OF g1 assms(2)] download_ok [OF g1 assms(2)]
  show ?thesis
    unfolding rip_named_def Let_def named_track_sel(3) gl_def [symmetric] d prod.case
    by (auto simp: assms(3-5) converted_nonempty intro!: ok)
qed

lemma mv_seen:
  assumes "i < length (wRips w)" "mvDownloader key i mv tk w = (err, w')"
  shows "length (wRips w') = length (wRips w)"
    "err \<noteq> None \<Longrightarrow> wRips w' = wRips w"
    "err = None \<Longrightarrow> \<exists>p. sPaths (wRips w' ! i) = sPaths (wRips w ! i) @ [p] \<and> sOkDict (wRips w' ! i) = sOkDict (wRips w ! i) \<and>
       sFailures (wRips w' ! i) = sFailures (wRips w ! i)"
proof -
  have reg: "length (wRips (registerMV key i a info out v)) = length (wRips v)"
    "sPaths (wRips (registerMV key i a info out v) ! i) = sPaths (wRips v ! i) @ [out]"
    "sOkDict (wRips (registerMV key i a info out v) ! i) = sOkDict (wRips v ! i)"
    "sFailures (wRips (registerMV key i a info out v) ! i) = sFailures (wRips v ! i)"
    if "i < length (wRips v)" for a info out v
    using that addPath_seen [OF that, of key out] by (simp_all add: registerMV_def)
  show "length (wRips w') = length (wRips w)" "err \<noteq> None \<Longrightarrow> wRips w' = wRips w"
    "err = None \<Longrightarrow> \<exists>p. sPaths (wRips w' ! i) = sPaths (wRips w ! i) @ [p] \<and> sOkDict (wRips w' ! i) = sOkDict (wRips w ! i) \<and>
       sFailures (wRips w' ! i) = sFailures (wRips w ! i)"
    using assms reg by (auto simp: mvDownloader_def Let_def split: option.splits if_splits)
qed

lemma ripTrack_ok:
  assumes "\<not> ioCancelled io" "i < length (wRips (rgWorld g))"
  shows "attempt_ok i tk (on_ctr inc_total g) (ripTrack key gc i io tk g)"
proof -
  let ?g0 = "on_ctr inc_total g" and ?r = "wRips (rgWorld g) ! i" and ?cfg = "ripConfig gc (Some (wRips (rgWorld g) ! i))"
  have len: "i < length (wRips (rgWorld ?g0))" using assms(2) by simp
  have give: "attempt_ok i tk ?g0 (give_up i oc msg tk ?g0)" if "oc = TrackRetryableFailure \<or> oc = TrackUnavailable" for oc msg
    by (rule give_up_ok [OF refl refl len that])
  have named: "tkType tk \<noteq> ''music-videos'' \<Longrightarrow> attempt_ok i tk ?g0 (rip_named key gc ?cfg i io tk q ?g0)" for q
    by (rule named_ok [OF same_rips_simps(1) len refl refl])
  obtain err w where m: "mvDownloader key i (ioMv io) tk (rgWorld ?g0) = (err, w)" by fastforce
  note mv = mv_seen [OF len m]
  have mvfail: "err = Some e \<Longrightarrow> attempt_ok i tk ?g0 (give_up i TrackRetryableFailure msg tk (?g0\<lparr>rgWorld := w\<rparr>))" for e msg
    by (rule give_up_ok) (use mv len in auto)
  have mvok: "err = None \<Longrightarrow> tkType tk = ''music-videos'' \<Longrightarrow>
      attempt_ok i tk ?g0 (Some TrackSucceeded, tk, on_ctr inc_success (?g0\<lparr>rgWorld := w\<rparr>))"
    using mv by (auto simp: attempt_ok_def seen_def)
  have panic: "attempt_ok i tk ?g0 (None, tk, ?g0)" by (simp add: attempt_ok_def split_beta)
  show ?thesis
    unfolding ripTrack_def Let_def
    using assms(1) give named mvfail mvok panic m by (auto simp: split: option.split)
qed

lemma attempt_length:
  assumes "i < length (wRips (rgWorld g))"
  shows "length (wRips (rgWorld (snd (snd (runTrackAttempt key gc i io tk g))))) = length (wRips (rgWorld g))"
proof (cases "ioCancelled io")
  case True
  then show ?thesis by (simp add: runTrackAttempt_def ripTrack_def)
next
  case False
  obtain oc tk1 g1 where r: "ripTrack key gc i io tk g = (oc, tk1, g1)" by (rule prod_cases3)
  then have "length (wRips (rgWorld g1)) = length (wRips (rgWorld g))"
    using ripTrack_ok [OF False assms, of tk key gc] by (simp add: attempt_ok_def)
  then show ?thesis by (simp add: runTrackAttempt_def r fail_track_def split: option.split)
qed

lemma attempt_seen:
  assumes "runTrackAttempt key gc i io tk g = (outcome, tk', g')" "i < length (wRips (rgWorld g))"
    and "seen i g = (c, paths, done0, fails)" "r = wRips (rgWorld g) ! i"
  shows "case outcome of
      TrackCancelled \<Rightarrow> ioCancelled io \<and> g' = g
    | TrackSucceeded \<Rightarrow>
        (if tkType tk = ''music-videos'' then \<exists>p. seen i g' = (inc_success (inc_total c), paths @ [p], done0, fails)
         else seen i g' = (inc_success (inc_total c), paths @ [tkSavePath tk'], sOkDict (markDone (tkPreID tk) (tkTaskNum tk) r), fails))
    | TrackRetryableFailure \<Rightarrow> \<exists>msg. seen i g' = (inc_error (inc_total c), paths, done0, sFailures (recordFailure msg r))
    | TrackUnavailable \<Rightarrow> \<exists>msg. seen i g' = (inc_unavailable (inc_total c), paths, done0, sFailures (recordFailure msg r))
    | TrackNotAttempted \<Rightarrow> False"
proof (cases "ioCancelled io")
  case True
  then show ?thesis using assms(1) by (auto simp: runTrackAttempt_def ripTrack_def)
next
  case False
  let ?g0 = "on_ctr inc_total g"
  have seen0: "seen i ?g0 = (inc_total c, paths, done0, fails)" using assms(3) by (simp add: seen_def)
  note ok = ripTrack_ok [OF False assms(2), of tk key gc]
  obtain oc tk1 g1 where r: "ripTrack key gc i io tk g = (oc, tk1, g1)" by (rule prod_cases3)
  show ?thesis
  proof (cases oc)
    case None
    then have "seen i g1 = (inc_total c, paths, done0, fails)" "length (wRips (rgWorld g1)) = length (wRips (rgWorld g))"
      using ok seen0 by (simp_all add: r attempt_ok_def)
    then show ?thesis using None r assms by (auto simp: runTrackAttempt_def fail_track_def seen_def recordFailure_def Let_def)
  next
    case (Some oc1)
    then have "outcome = oc1" "tk' = tk1" "g' = g1" using r assms(1) by (simp_all add: runTrackAttempt_def)
    then show ?thesis using ok seen0 Some r assms(4) by (cases oc1) (auto simp: attempt_ok_def)
  qed
qed


text \<open>A quiet outside: everything is answered, nothing fails, one call each.\<close>

definition calm_retry :: retry_io where
  "calm_retry = \<lparr>roStopped = (\<lambda>_. False), roWaking = (\<lambda>_. False), roAnswer = (\<lambda>_. None)\<rparr>"

definition calm_io :: track_io where
  "calm_io = \<lparr>ioCancelled = False, ioAlbumPanics = False,
     ioMv = \<lparr>mvInfo = Some (Some \<lparr>mviName = ''V'', mviArtist = [], mviDurationMillis = 0, mviAlbum = [], mviReleaseDate = [],
               mviContentRating = []\<rparr>), mvUrl = ''u'', mvSteps = [], mvMux = None, mvWrites = Some 9\<rparr>,
     ioPlayback = calm_retry, ioM3u8 = calm_retry, ioExtract = Some ([], ''24B''), ioUrl = ''u'', ioLyrics = None, ioLrcWrites = None,
     ioDecrypt = calm_retry, ioDecryptWrites = (\<lambda>_. Some 100), ioWidevine = None, ioWidevineWrites = None,
     ioRemuxOk = True, ioRemuxWrites = Some 90, ioRenameOk = True, ioCover = None, ioTags = None, ioTagsWrites = Some 95,
     ioConvert = \<lparr>cvFound = False, cvRuns = False, cvWrites = None, cvRemoves = False\<rparr>, ioProbe = Some ''codec_name=alac'',
     ioSearchMeta = None, ioPlaylist = None\<rparr>"

definition plain_config :: full_config where
  "plain_config = \<lparr>cConvertAfterDownload = False, cConvertFormat = [], cConvertKeepOriginal = False, cConvertSkipLossyToLossless = False,
     cSaveLrcFile = False, cLrcType = [], cEmbedLrc = False, cEmbedCover = False, cSaveAnimatedArtwork = False, cAlacMax = 192000,
     cAtmosMax = 2768, cAacType = ''aac-lc'', cCoverFormat = ''jpg'', cCoverSize = [], cLanguage = [], cMVMax = 0, cAppleMasterChoice = [],
     cExplicitChoice = [], cCleanChoice = [], cLrcFormat = ''lrc'', cSongFileFormat = ''{SongNumer}'', cLimitMax = 200,
     cUseSongInfoForPlaylist = False, cDlAlbumcoverForPlaylist = False, cConvertSkipIfSourceMatch = False\<rparr>"

definition plain_track :: "int \<Rightarrow> string \<Rightarrow> track" where
  "plain_track n ty = \<lparr>tkID = itoa n, tkType = ty, tkName = ''T'' @ itoa n, tkPreType = ''albums'', tkPreID = ''9'', tkTaskNum = n, tkTaskTotal = 2,
     tkWebM3u8 = ''w'', tkCodec = ''ALAC'', tkSaveDir = ''d'', tkSaveName = [], tkSavePath = [], tkQuality = [], tkRespName = [],
     tkRespArtist = [], tkDiscNumber = 1, tkTrackNumber = n, tkDurationMillis = 0, tkAlbumName = [], tkReleaseDate = [],
     tkContentRating = [], tkIsrc = [], tkMastered = False, tkPlaylistName = [], tkPlaylistArtist = [], tkPlaylistArtworkURL = []\<rparr>"

definition fresh_rip :: ripping where
  "fresh_rip = \<lparr>rgWorld = \<lparr>wRips = [newRipState, newRipState], wReg = {#}, wDisk = Map.empty\<rparr>, rgCtr = zero_counter\<rparr>"



subsection \<open>Files that stay behind\<close>

lemma download_fails:
  assumes "roStopped (ioDecrypt io) 1 = False" "roAnswer (ioDecrypt io) 1 = Some e" "\<not> hopeful (Some e)" "\<not> weNoKey e"
  shows "download_track key gc cfg i io tk p g =
    give_up i (if contains (weText e) ''Unavailable'' then TrackUnavailable else TrackRetryableFailure)
      (''download/decrypt failed: '' @ weText e) tk (on_world (put_file key p (ioDecryptWrites io 1)) g)"
  using assms by (simp add: download_track_def withWrapperRetry_def maxAttempts_def hopeful_def numeral_eq_Suc)

lemma rip_named_existing:
  assumes "fileExists key (track_path (named_track gc cfg tk q)) (rgWorld g)" "\<not> sNoCache (wRips (rgWorld g) ! i)"
    "\<not> conversionEnabled cfg" "\<not> cSaveLrcFile cfg"
  shows "rip_named key gc cfg i io tk q g =
    succeed key i io (at_path (track_path (named_track gc cfg tk q)) (named_track gc cfg tk q)) g"
  using assms by (simp add: rip_named_def Let_def save_lyrics_def drop_copies_def reuse_original_def considerConverted_def)

lemma succeed_disk:
  "i < length (wRips (rgWorld g)) \<Longrightarrow> wDisk (rgWorld (snd (snd (succeed key i io tk g)))) = wDisk (rgWorld g)"
  by (simp add: succeed_def finish_track_def recordDownloadedTrack_def addPath_frame(2))

text \<open>
  C39: What a failed download leaves is served as the track.  A download that breaks off with some
  bytes written (an error, or a \<^verbatim>\<open>/stop\<close>: the context's error) fails its rip and leaves the file; the
  next rip of the same track, by anybody who did not ask for \<^verbatim>\<open>--no-cache\<close>, takes the file for a
  finished copy, downloads nothing, succeeds, and registers those bytes for delivery.
\<close>

theorem broken_download_is_served:
  assumes "0 < n" "ioDecryptWrites io1 1 = Some n" "roStopped (ioDecrypt io1) 1 = False"
    "roAnswer (ioDecrypt io1) 1 = Some e" "\<not> hopeful (Some e)" "\<not> weNoKey e" "\<not> contains (weText e) ''Unavailable''"
    and "wDisk (rgWorld g) (key p) = None" "p = track_path (named_track gc cfg tk q)"
    and "\<not> conversionEnabled cfg" "\<not> cSaveLrcFile cfg" "i < length (wRips (rgWorld g))" "j < length (wRips (rgWorld g))"
    "j \<noteq> i" "\<not> sNoCache (wRips (rgWorld g) ! i)" "\<not> sNoCache (wRips (rgWorld g) ! j)"
    and "rip_named key gc cfg i io1 tk q g = (oc1, tk1, g1)" "rip_named key gc cfg j io2 tk q g1 = (oc2, tk2, g2)"
  shows "oc1 = Some TrackRetryableFailure \<and> oc2 = Some TrackSucceeded \<and> tkSavePath tk2 = p \<and>
    sPaths (wRips (rgWorld g2) ! j) = sPaths (wRips (rgWorld g) ! j) @ [p] \<and> wDisk (rgWorld g2) (key p) = Some n"
proof -
  let ?t = "named_track gc cfg tk q"
  have no: "\<not> fileExists key p (rgWorld g)" by (simp add: fileExists_def assms(8))
  have "rip_named key gc cfg i io1 tk q g = download_track key gc cfg i io1 ?t p g"
    using no assms(10,11,15) by (simp add: rip_named_def Let_def save_lyrics_def drop_copies_def considerConverted_def flip: assms(9))
  also have "\<dots> = give_up i TrackRetryableFailure (''download/decrypt failed: '' @ weText e) ?t (on_world (put_file key p (Some n)) g)"
    using download_fails [OF assms(3-6), of key gc cfg i ?t p g] assms(2,7) by simp
  finally have 1: "oc1 = Some TrackRetryableFailure" "wDisk (rgWorld g1) (key p) = Some n"
    "wRips (rgWorld g1) ! j = wRips (rgWorld g) ! j" "length (wRips (rgWorld g1)) = length (wRips (rgWorld g))"
    using assms(12,14,17) by (auto simp: give_up_def fail_track_def put_file_def)
  have j: "j < length (wRips (rgWorld g1))" using 1(4) assms(13) by simp
  have "fileExists key p (rgWorld g1)" using assms(1) 1(2) by (simp add: fileExists_def)
  with rip_named_existing [of key gc cfg tk q g1 j io2] 1(3) assms(9-11,16)
  have 2: "rip_named key gc cfg j io2 tk q g1 = succeed key j io2 (at_path p ?t) g1" by simp
  have "sPaths (wRips (rgWorld g2) ! j) = sPaths (wRips (rgWorld g1) ! j) @ [p]" "oc2 = Some TrackSucceeded" "tkSavePath tk2 = p"
    using 2 assms(9,18) j addPath_seen [OF j, of key p]
    by (auto simp: succeed_def finish_track_def recordDownloadedTrack_def)
  moreover have "wDisk (rgWorld g2) (key p) = Some n"
    using succeed_disk [OF j, of key io2 "at_path p ?t"] 2 assms(18) 1(2) by (metis snd_conv)
  ultimately show ?thesis using 1 by simp
qed

definition broken_io :: track_io where
  "broken_io = calm_io\<lparr>ioDecrypt := calm_retry\<lparr>roAnswer := (\<lambda>_. Some ctx_err)\<rparr>, ioDecryptWrites := (\<lambda>_. Some 4096)\<rparr>"

lemma ctx_err_final: "\<not> hopeful (Some ctx_err)" "\<not> weNoKey ctx_err" "\<not> contains (weText ctx_err) ''Unavailable''"
  by (simp_all add: hopeful_def isTransientWrapperErr_def ctx_err_def contains_def Let_def)

theorem broken_download_is_served_witness:
  "\<exists>tk1 tk2 g1 g2. rip_named (\<lambda>p. p) plain_config plain_config 0 broken_io (plain_track 1 ''songs'') ''24B'' fresh_rip = (Some TrackRetryableFailure, tk1, g1) \<and>
     rip_named (\<lambda>p. p) plain_config plain_config 1 calm_io (plain_track 1 ''songs'') ''24B'' g1 = (Some TrackSucceeded, tk2, g2) \<and>
     wDisk (rgWorld g2) (tkSavePath tk2) = Some 4096"
proof -
  let ?tk = "plain_track 1 ''songs''" and ?p = "track_path (named_track plain_config plain_config (plain_track 1 ''songs'') ''24B'')"
  obtain oc1 tk1 g1 where 1: "rip_named (\<lambda>p. p) plain_config plain_config 0 broken_io ?tk ''24B'' fresh_rip = (oc1, tk1, g1)" by (rule prod_cases3)
  obtain oc2 tk2 g2 where 2: "rip_named (\<lambda>p. p) plain_config plain_config 1 calm_io ?tk ''24B'' g1 = (oc2, tk2, g2)" by (rule prod_cases3)
  have io: "ioDecryptWrites broken_io 1 = Some 4096" "roStopped (ioDecrypt broken_io) 1 = False" "roAnswer (ioDecrypt broken_io) 1 = Some ctx_err"
    by (simp_all add: broken_io_def calm_retry_def)
  have c: "\<not> conversionEnabled plain_config" "\<not> cSaveLrcFile plain_config" by (simp_all add: conversionEnabled_def plain_config_def)
  have w: "wDisk (rgWorld fresh_rip) ?p = None" "0 < length (wRips (rgWorld fresh_rip))" "1 < length (wRips (rgWorld fresh_rip))"
    "\<not> sNoCache (wRips (rgWorld fresh_rip) ! 0)" "\<not> sNoCache (wRips (rgWorld fresh_rip) ! 1)"
    by (simp_all add: fresh_rip_def newRipState_def)
  note B = broken_download_is_served [where n = 4096 and key = "\<lambda>p. p", OF _ io ctx_err_final w(1) refl c w(2,3) _ w(4,5) 1 2]
  have "oc1 = Some TrackRetryableFailure \<and> oc2 = Some TrackSucceeded \<and> tkSavePath tk2 = ?p \<and> wDisk (rgWorld g2) ?p = Some 4096"
    using B by simp
  with 1 2 show ?thesis by metis
qed

text \<open>
  A retry starts from nothing: after \<^verbatim>\<open>prepareTrackRetry\<close>, unless another rip holds the file, no
  copy of the track is found, so the second attempt downloads it; a file in use is left alone.
\<close>

theorem retry_starts_fresh:
  assumes "prepareTrackRetry key cfg tk w = (tk', w')" "tkSaveDir tk \<noteq> []" "tkSaveName tk \<noteq> []" "\<not> isInUse key (track_path tk) w"
  shows "\<not> fileExists key (track_path tk) w' \<and> \<not> fileExists key (track_path tk @ ''.remux.m4a'') w' \<and>
    tkSavePath tk' = [] \<and> wReg w' = wReg w \<and> wRips w' = wRips w \<and>
    (let held = set_mset (wReg w) - {key (track_path tk @ ''.remux.m4a'')} in wDisk w' |` held = wDisk w |` held)"
proof -
  let ?p = "track_path tk" and ?c = "converted_path cfg (track_path tk)"
  have np: "?p \<noteq> []" using assms(3) by (simp add: track_path_def path_join_nonempty)
  define w1 where "w1 = remove_file key (?p @ ''.remux.m4a'') (remove_file key ?p w)"
  have 1: "w' = (if conversionEnabled cfg \<and> \<not> isInUse key ?c w1 then remove_file key ?c w1 else w1)" "tkSavePath tk' = []"
    using assms by (auto simp: prepareTrackRetry_def Let_def w1_def track_path_def)
  have cases: "w' = w1 \<or> w' = remove_file key ?c w1 \<and> key ?c \<notin># wReg w"
    using 1(1) by (auto simp: isInUse_def converted_nonempty w1_def)
  have "key ?p \<notin># wReg w" using assms(4) np by (simp add: isInUse_def)
  then have "wDisk w' x = wDisk w x" if "x \<in># wReg w" "x \<noteq> key (?p @ ''.remux.m4a'')" for x
    using cases that by (auto simp: w1_def remove_file_def)
  then have "wDisk w' |` (set_mset (wReg w) - {key (?p @ ''.remux.m4a'')}) = wDisk w |` (set_mset (wReg w) - {key (?p @ ''.remux.m4a'')})"
    by (auto simp: restrict_map_def fun_eq_iff)
  moreover have "wDisk w' (key ?p) = None" "wDisk w' (key (?p @ ''.remux.m4a'')) = None" "wReg w' = wReg w" "wRips w' = wRips w"
    using cases by (auto simp: w1_def remove_file_def)
  ultimately show ?thesis using 1(2) by (simp add: Let_def fileExists_def)
qed

theorem retry_starts_fresh_witness:
  "\<exists>tk' w'. prepareTrackRetry (\<lambda>p. p) plain_config ((plain_track 1 ''songs'')\<lparr>tkSaveName := ''x.m4a''\<rparr>)
     \<lparr>wRips = [newRipState], wReg = {#''other''#}, wDisk = [''d/x.m4a'' \<mapsto> 7, ''other'' \<mapsto> 3]\<rparr> = (tk', w') \<and>
   \<not> fileExists (\<lambda>p. p) (track_path ((plain_track 1 ''songs'')\<lparr>tkSaveName := ''x.m4a''\<rparr>)) w' \<and> wDisk w' ''other'' = Some 3"
proof -
  let ?tk = "(plain_track 1 ''songs'')\<lparr>tkSaveName := ''x.m4a''\<rparr>"
  let ?w = "\<lparr>wRips = [newRipState], wReg = {#''other''#}, wDisk = [''d/x.m4a'' \<mapsto> 7, ''other'' \<mapsto> 3]\<rparr>"
  obtain tk' w' where e: "prepareTrackRetry (\<lambda>p. p) plain_config ?tk ?w = (tk', w')" by fastforce
  have d: "tkSaveDir ?tk \<noteq> []" "tkSaveName ?tk \<noteq> []" by (simp_all add: plain_track_def)
  have p: "track_path ?tk = ''d/x.m4a''" by code_simp
  have u: "\<not> isInUse (\<lambda>p. p) (track_path ?tk) ?w" unfolding p by (simp add: isInUse_def)
  have r: "wDisk w' |` {''other''} = wDisk ?w |` {''other''}" "\<not> fileExists (\<lambda>p. p) (track_path ?tk) w'"
    using retry_starts_fresh [OF e d u] by (simp_all add: Let_def p)
  have "wDisk w' ''other'' = Some 3" using fun_cong [OF r(1), of "''other''"] by simp
  with e r(2) show ?thesis by metis
qed

text \<open>
  With \<^verbatim>\<open>--no-cache\<close> a music video that another rip still has to deliver is deleted from under it:
  \<^verbatim>\<open>ripTrack\<close> asks whether a song is in use before it drops the copy, \<^verbatim>\<open>mvDownloader\<close> does not ask.
  If the new download then fails, the other rip's file is gone while it is still registered.
\<close>

theorem mv_no_cache_unlinks_in_use:
  assumes "i < length (wRips w)" "sNoCache (wRips w ! i)" "mvInfo mv = Some (Some info)"
    and "out = mv_path (mv_dir tk) tk info"
    and "out \<noteq> []" "key out \<in># wReg w" "fileExists key out w" "mvUrl mv = [] \<or> first_err (mvSteps mv) \<noteq> None"
    and "mvDownloader key i mv tk w = (err, w')"
  shows "isInUse key out w' \<and> \<not> fileExists key out w' \<and> err \<noteq> None \<and> snd (drop_copies key cfg i out w) = w"
proof -
  let ?w1 = "remove_file key out w"
  have no: "\<not> fileExists key out ?w1" by (simp add: fileExists_def remove_file_def)
  have "mvDownloader key i mv tk w = (err, w') \<longleftrightarrow>
      (err, w') = (if mvUrl mv = [] then (Some \<lparr>weText = ''media-user-token may be wrong or expired'', weNoKey = False\<rparr>, ?w1) else (first_err (mvSteps mv), ?w1))"
    using assms(2,3,7,8) no by (auto simp: mvDownloader_def Let_def assms(4) split: option.split)
  then have "w' = ?w1" "err \<noteq> None" using assms(8,9) by (auto split: if_splits)
  moreover have "isInUse key out ?w1" using assms(5,6) by (simp add: isInUse_def)
  moreover have "isInUse key out w" using assms(5,6) by (simp add: isInUse_def)
  ultimately show ?thesis using no by (simp add: drop_copies_def Let_def)
qed

theorem mv_no_cache_unlinks_in_use_witness:
  "\<exists>tk mv w out w' err. mvDownloader (\<lambda>p. p) 0 mv tk w = (err, w') \<and> isInUse (\<lambda>p. p) out w \<and> fileExists (\<lambda>p. p) out w \<and>
     \<not> fileExists (\<lambda>p. p) out w' \<and> isInUse (\<lambda>p. p) out w'"
proof -
  let ?tk = "plain_track 1 ''music-videos''"
  let ?info = "\<lparr>mviName = ''V'', mviArtist = [], mviDurationMillis = 0, mviAlbum = [], mviReleaseDate = [], mviContentRating = []\<rparr>"
  let ?mv = "(ioMv calm_io)\<lparr>mvUrl := []\<rparr>" and ?out = "mv_path (mv_dir ?tk) ?tk ?info"
  let ?w = "\<lparr>wRips = [newRipState\<lparr>sNoCache := True\<rparr>, newRipState], wReg = {#?out#}, wDisk = [?out \<mapsto> 7]\<rparr>"
  obtain err w' where e: "mvDownloader (\<lambda>p. p) 0 ?mv ?tk ?w = (err, w')" by fastforce
  have ne: "?out \<noteq> []" by (simp add: mv_path_def path_join_nonempty)
  have 1: "mvInfo ?mv = Some (Some ?info)" "0 < length (wRips ?w)" "sNoCache (wRips ?w ! 0)" "?out \<in># wReg ?w" "fileExists (\<lambda>p. p) ?out ?w" "mvUrl ?mv = []"
    by (simp_all add: calm_io_def fileExists_def)
  have 2: "isInUse (\<lambda>p. p) ?out ?w" using ne by (simp add: isInUse_def)
  from mv_no_cache_unlinks_in_use [OF 1(2,3,1) refl ne 1(4,5) disjI1 [OF 1(6)] e] 2 1(5) e show ?thesis by blast
qed

end
