(* ===== verification/Rip_Release.thy ===== *)
theory Rip_Release
  imports Rip_Track
begin

section \<open>A release: the track pass and its reconciliation\<close>

text \<open>
  The last part of \<^verbatim>\<open>ripAlbum\<close> and of \<^verbatim>\<open>ripPlaylist\<close> and the whole of \<^verbatim>\<open>reconcileRelease\<close>
  (\<^verbatim>\<open>bot/main.go\<close>): one goroutine per track, bounded by a semaphore of the rip's wrapper budget,
  a drain before each mid-rip flush, then, for an album, one retry of the ordinary failures and a
  warning that names what is still missing.  A track's attempt is one step, at the moment it ends;
  other rips may change the shared disk and registry between any two steps.
\<close>

subsection \<open>The pass as a state machine\<close>

datatype phase =
    Look nat
  | Drain nat
  | Launch nat
  | Wait
  | Retry "nat list"
  | Report
  | Over

record release =
  rlAlbum :: bool
  rlID :: string
  rlName :: string
  rlSelected :: "int list"
  rlSem :: int

record pass =
  paG :: ripping
  paTracks :: "track list"
  paOutcomes :: "track_outcome list"
  paRunning :: "nat list"
  paPhase :: phase

text \<open>
  \<open>Advance c\<close>: the loop's goroutine takes its next step, with the context done or not; \<open>Flushed ok\<close>:
  the flush of a checkpoint answers; \<open>Finished k io\<close>: the attempt on track \<open>k\<close> ends; \<open>Outside w\<close>:
  other rips have left the shared world as \<open>w\<close>, this rip's own record apart.
\<close>

datatype pass_event =
    Advance bool
  | Flushed bool
  | Finished nat track_io
  | Outside world

definition on_rip :: "nat \<Rightarrow> (rip \<Rightarrow> rip) \<Rightarrow> ripping \<Rightarrow> ripping" where
  "on_rip i f g = g\<lparr>rgWorld := upd_rip i f (rgWorld g)\<rparr>"

definition isInArray :: "int list \<Rightarrow> int \<Rightarrow> bool" where
  "isInArray arr target = (target \<in> set arr)"

definition done_already :: "nat \<Rightarrow> release \<Rightarrow> ripping \<Rightarrow> int \<Rightarrow> bool" where
  "done_already i rl g taskNum = isDone (rlID rl) taskNum (wRips (rgWorld g) ! i)"

text \<open>What precedes the loop: the plan, the semaphore, the outcomes.\<close>

definition start_pass :: "int \<Rightarrow> nat \<Rightarrow> release \<Rightarrow> track list \<Rightarrow> ripping \<Rightarrow> release \<times> pass" where
  "start_pass managerCapacity i rl tracks g =
     (rl\<lparr>rlSem := wrapperBudget managerCapacity (Some (wRips (rgWorld g) ! i))\<rparr>,
      \<lparr>paG = on_rip i (planTracks (int (length (rlSelected rl)))) g, paTracks = tracks,
       paOutcomes = replicate (length tracks) TrackNotAttempted, paRunning = [], paPhase = Look 0\<rparr>)"

text \<open>One iteration of the loop over the tracks, up to the semaphore.\<close>

definition look_at :: "(string \<Rightarrow> string) \<Rightarrow> nat \<Rightarrow> release \<Rightarrow> bool \<Rightarrow> nat \<Rightarrow> pass \<Rightarrow> pass" where
  "look_at key i rl cancelled k pa =
     (if done_already i rl (paG pa) (int k + 1) then
        pa\<lparr>paG := on_ctr (\<lambda>c. inc_success (inc_total c)) (paG pa),
           paOutcomes := (if rlAlbum rl then (paOutcomes pa)[k := TrackSucceeded] else paOutcomes pa), paPhase := Look (Suc k)\<rparr>
      else if \<not> isInArray (rlSelected rl) (int k + 1) then pa\<lparr>paPhase := Look (Suc k)\<rparr>
      else case checkpoint_due key cancelled i (rgWorld (paG pa)) of
             (w, due) \<Rightarrow> pa\<lparr>paG := (paG pa)\<lparr>rgWorld := w\<rparr>, paPhase := (if due then Drain k else Launch k)\<rparr>)"

text \<open>The rest of a checkpoint, once every goroutine has ended.\<close>

definition flush_drained :: "(string \<Rightarrow> string) \<Rightarrow> nat \<Rightarrow> bool \<Rightarrow> world \<Rightarrow> world" where
  "flush_drained key i ok w =
     (case checkpoint_chunk key i w of (w1, None) \<Rightarrow> w1 | (w1, Some c) \<Rightarrow> checkpoint_finish key i ok c w1)"

subsection \<open>Reconciliation\<close>

definition completed :: "nat \<Rightarrow> release \<Rightarrow> ripping \<Rightarrow> nat" where
  "completed i rl g = length (filter (done_already i rl g) (rlSelected rl))"

definition retry_indexes :: "nat \<Rightarrow> release \<Rightarrow> pass \<Rightarrow> nat list" where
  "retry_indexes i rl pa =
     map (\<lambda>t. nat (t - 1))
       (filter (\<lambda>t. \<not> done_already i rl (paG pa) t \<and> 0 \<le> t - 1 \<and> t - 1 < int (length (paOutcomes pa)) \<and>
                    paOutcomes pa ! nat (t - 1) = TrackRetryableFailure) (rlSelected rl))"

definition prepare_one :: "(string \<Rightarrow> string) \<Rightarrow> 'x full_config_scheme \<Rightarrow> nat \<Rightarrow> pass \<Rightarrow> pass" where
  "prepare_one key cfg idx pa =
     (case prepareTrackRetry key cfg (paTracks pa ! idx) (rgWorld (paG pa)) of
        (tk, w) \<Rightarrow> pa\<lparr>paTracks := (paTracks pa)[idx := tk], paG := (paG pa)\<lparr>rgWorld := w\<rparr>\<rparr>)"

definition missing_name :: "track list \<Rightarrow> int \<Rightarrow> string" where
  "missing_name tracks taskNum =
     (if 0 \<le> taskNum - 1 \<and> taskNum - 1 < int (length tracks) \<and> trim_space (tkName (tracks ! nat (taskNum - 1))) \<noteq> []
      then pad2 taskNum @ '' '' @ trim_space (tkName (tracks ! nat (taskNum - 1)))
      else ''track '' @ itoa taskNum)"

definition missing_tracks :: "nat \<Rightarrow> release \<Rightarrow> pass \<Rightarrow> string list" where
  "missing_tracks i rl pa =
     map (missing_name (paTracks pa)) (filter (\<lambda>t. \<not> done_already i rl (paG pa) t) (rlSelected rl))"

definition release_warning :: "release \<Rightarrow> string list \<Rightarrow> string" where
  "release_warning rl missing =
     (let display = take 3 missing;
          detail = join_with '', '' display @
            (if length display < length missing then '', and '' @ itoa (int (length missing - length display)) @ '' more'' else []);
          name = (if trim_space (rlName rl) = [] then rlID rl else rlName rl)
      in name @ '': '' @ itoa (int (length missing)) @ ''/'' @ itoa (int (length (rlSelected rl))) @
         '' track(s) missing after release check ('' @ detail @ '')'')"

text \<open>\<^verbatim>\<open>reconcileRelease\<close>: up to the retries, what one retry changes, and the report.\<close>

definition reconcile_begin :: "(string \<Rightarrow> string) \<Rightarrow> 'x full_config_scheme \<Rightarrow> nat \<Rightarrow> release \<Rightarrow> bool \<Rightarrow> pass \<Rightarrow> pass" where
  "reconcile_begin key gc i rl cancelled pa =
     (if rlSelected rl = [] \<or> cancelled then pa\<lparr>paPhase := Over\<rparr>
      else let js = retry_indexes i rl pa
           in if js = [] \<and> completed i rl (paG pa) = length (rlSelected rl) then pa\<lparr>paPhase := Over\<rparr>
              else if js \<noteq> [] then
                (let cfg = ripConfig gc (Some (wRips (rgWorld (paG pa)) ! i))
                 in (fold (prepare_one key cfg) js pa)\<lparr>paPhase := Retry js\<rparr>)
              else pa\<lparr>paPhase := Report\<rparr>)"

definition settle_retry :: "nat \<Rightarrow> track_outcome \<Rightarrow> pass \<Rightarrow> pass" where
  "settle_retry idx outcome pa =
     (if outcome \<noteq> TrackCancelled
      then pa\<lparr>paG := on_ctr ReconcileErrorRetry (paG pa), paOutcomes := (paOutcomes pa)[idx := outcome]\<rparr> else pa)"

definition reconcile_report :: "nat \<Rightarrow> release \<Rightarrow> bool \<Rightarrow> pass \<Rightarrow> pass" where
  "reconcile_report i rl cancelled pa =
     (if cancelled then pa\<lparr>paPhase := Over\<rparr>
      else let missing = missing_tracks i rl pa
           in if missing = [] then pa\<lparr>paPhase := Over\<rparr>
              else pa\<lparr>paG := on_rip i (recordReleaseWarning (release_warning rl missing)) (paG pa), paPhase := Over\<rparr>)"

subsection \<open>Steps\<close>

definition may_launch :: "release \<Rightarrow> pass \<Rightarrow> bool" where
  "may_launch rl pa = (int (length (paRunning pa)) < rlSem rl)"

definition advance ::
  "(string \<Rightarrow> string) \<Rightarrow> 'x full_config_scheme \<Rightarrow> nat \<Rightarrow> release \<Rightarrow> bool \<Rightarrow> pass \<Rightarrow> pass option" where
  "advance key gc i rl cancelled pa =
     (case paPhase pa of
        Look k \<Rightarrow> Some (if k < length (paTracks pa) then look_at key i rl cancelled k pa else pa\<lparr>paPhase := Wait\<rparr>)
      | Launch k \<Rightarrow> if may_launch rl pa then Some (pa\<lparr>paRunning := paRunning pa @ [k], paPhase := Look (Suc k)\<rparr>) else None
      | Wait \<Rightarrow>
          if paRunning pa \<noteq> [] then None
          else Some (if rlAlbum rl then reconcile_begin key gc i rl cancelled pa else pa\<lparr>paPhase := Over\<rparr>)
      | Retry (j # js) \<Rightarrow> if may_launch rl pa then Some (pa\<lparr>paRunning := paRunning pa @ [j], paPhase := Retry js\<rparr>) else None
      | Retry [] \<Rightarrow> if paRunning pa = [] then Some (pa\<lparr>paPhase := Report\<rparr>) else None
      | Report \<Rightarrow> Some (reconcile_report i rl cancelled pa)
      | _ \<Rightarrow> None)"

definition retrying :: "phase \<Rightarrow> bool" where
  "retrying p = (case p of Retry js \<Rightarrow> True | _ \<Rightarrow> False)"

text \<open>The goroutine of track \<open>k\<close> ends: of the first pass, or of the retry pass.\<close>

definition finish_attempt ::
  "(string \<Rightarrow> string) \<Rightarrow> 'x full_config_scheme \<Rightarrow> nat \<Rightarrow> release \<Rightarrow> nat \<Rightarrow> track_io \<Rightarrow> pass \<Rightarrow> pass" where
  "finish_attempt key gc i rl k io pa =
     (case runTrackAttempt key gc i io (paTracks pa ! k) (paG pa) of
        (outcome, tk, g) \<Rightarrow>
          let pa1 = pa\<lparr>paG := g, paTracks := (paTracks pa)[k := tk], paRunning := remove1 k (paRunning pa)\<rparr>
          in if retrying (paPhase pa) then settle_retry k outcome pa1
             else pa1\<lparr>paOutcomes := (if rlAlbum rl then (paOutcomes pa)[k := outcome] else paOutcomes pa),
                      paG := on_rip i trackDone g\<rparr>)"

definition pass_step ::
  "(string \<Rightarrow> string) \<Rightarrow> 'x full_config_scheme \<Rightarrow> nat \<Rightarrow> release \<Rightarrow> pass_event \<Rightarrow> pass \<Rightarrow> pass option" where
  "pass_step key gc i rl e pa =
     (case e of
        Advance cancelled \<Rightarrow> advance key gc i rl cancelled pa
      | Flushed ok \<Rightarrow>
          (case paPhase pa of
             Drain k \<Rightarrow>
               if paRunning pa = [] then Some (pa\<lparr>paG := on_world (flush_drained key i ok) (paG pa), paPhase := Launch k\<rparr>) else None
           | _ \<Rightarrow> None)
      | Finished k io \<Rightarrow> if k \<in> set (paRunning pa) then Some (finish_attempt key gc i rl k io pa) else None
      | Outside w \<Rightarrow>
          if length (wRips w) = length (wRips (rgWorld (paG pa)))
          then Some (pa\<lparr>paG := on_world (\<lambda>v. w\<lparr>wRips := (wRips w)[i := wRips v ! i]\<rparr>) (paG pa)\<rparr>) else None)"

fun run_pass ::
  "(string \<Rightarrow> string) \<Rightarrow> 'x full_config_scheme \<Rightarrow> nat \<Rightarrow> release \<Rightarrow> pass_event list \<Rightarrow> pass \<Rightarrow> pass option" where
  "run_pass key gc i rl [] pa = Some pa"
| "run_pass key gc i rl (e # es) pa =
     (case pass_step key gc i rl e pa of None \<Rightarrow> None | Some pa1 \<Rightarrow> run_pass key gc i rl es pa1)"

subsection \<open>Counters and outcomes\<close>

abbreviation count_of :: "track_outcome \<Rightarrow> track_outcome list \<Rightarrow> int" where
  "count_of oc outs \<equiv> int (count_list outs oc)"

text \<open>The counters are those of the start of the pass and the tally of the outcomes.\<close>

definition tallied :: "counter \<Rightarrow> track_outcome list \<Rightarrow> counter \<Rightarrow> bool" where
  "tallied c0 outs c =
     (ctSuccess c = ctSuccess c0 + count_of TrackSucceeded outs \<and> ctError c = ctError c0 + count_of TrackRetryableFailure outs \<and>
      ctUnavailable c = ctUnavailable c0 + count_of TrackUnavailable outs \<and> ctNotSong c = ctNotSong c0 \<and>
      ctTotal c = ctTotal c0 + count_of TrackSucceeded outs + count_of TrackRetryableFailure outs + count_of TrackUnavailable outs)"

lemma count_list_update_nat:
  "k < length outs \<Longrightarrow> count_list (outs[k := y]) x + (if outs ! k = x then 1 else 0) = count_list outs x + (if y = x then 1 else 0)"
proof (induction outs arbitrary: k)
  case (Cons a outs)
  then show ?case
  proof (cases k)
    case (Suc m)
    with Cons.IH [of m] Cons.prems show ?thesis by (auto split: if_splits)
  qed auto
qed simp

lemma count_list_update:
  "k < length outs \<Longrightarrow> count_of x (outs[k := y]) = count_of x outs - (if outs ! k = x then 1 else 0) + (if y = x then 1 else 0)"
  using count_list_update_nat [of k outs y x] by (auto split: if_splits)

text \<open>What an attempt does to the counters, by its outcome.\<close>

definition count_outcome :: "track_outcome \<Rightarrow> counter \<Rightarrow> counter" where
  "count_outcome oc c =
     (case oc of TrackSucceeded \<Rightarrow> inc_success (inc_total c) | TrackRetryableFailure \<Rightarrow> inc_error (inc_total c)
      | TrackUnavailable \<Rightarrow> inc_unavailable (inc_total c) | _ \<Rightarrow> c)"

lemma attempt_counts:
  assumes "runTrackAttempt key gc i io tk g = (oc, tk', g')" "i < length (wRips (rgWorld g))"
  shows "rgCtr g' = count_outcome oc (rgCtr g)" "oc \<noteq> TrackNotAttempted"
    "oc = TrackCancelled \<Longrightarrow> g' = g \<and> ioCancelled io" "length (wRips (rgWorld g')) = length (wRips (rgWorld g))"
proof -
  obtain c paths done0 fails where s: "seen i g = (c, paths, done0, fails)" by (metis prod.collapse)
  then have c: "c = rgCtr g" by (simp add: seen_def)
  note a = attempt_seen [OF assms s refl]
  show "rgCtr g' = count_outcome oc (rgCtr g)"
    using a c by (cases oc) (auto simp: count_outcome_def seen_def split: if_splits)
  show "oc \<noteq> TrackNotAttempted" using a by auto
  show "oc = TrackCancelled \<Longrightarrow> g' = g \<and> ioCancelled io" using a by auto
  show "length (wRips (rgWorld g')) = length (wRips (rgWorld g))"
    using attempt_length [OF assms(2), of key gc io tk] assms(1) by simp
qed

lemma tallied_first:
  assumes "tallied c0 outs c" "k < length outs" "outs ! k = TrackNotAttempted"
  shows "tallied c0 (outs[k := oc]) (count_outcome oc c)"
  using assms by (cases oc) (simp_all add: tallied_def count_list_update count_outcome_def inc_success_def inc_total_def inc_error_def inc_unavailable_def)

lemma count_pos: "k < length outs \<Longrightarrow> outs ! k = x \<Longrightarrow> 0 < count_of x outs"
  by (metis count_notin neq0_conv nth_mem of_nat_0_less_iff count_list_0_iff)

lemma tallied_retry:
  assumes "tallied c0 outs c" "k < length outs" "outs ! k = TrackRetryableFailure" "0 \<le> ctTotal c0" "0 \<le> ctError c0" "oc \<noteq> TrackCancelled" "oc \<noteq> TrackNotAttempted"
  shows "tallied c0 (outs[k := oc]) (ReconcileErrorRetry (count_outcome oc c))"
  using assms count_pos [OF assms(2,3)]
  by (cases oc) (simp_all add: tallied_def count_list_update count_outcome_def inc_success_def inc_total_def inc_error_def inc_unavailable_def
      ReconcileErrorRetry_def Let_def)

subsection \<open>The invariant of the pass\<close>

text \<open>Where the loop stands: the tracks below \<open>frontier\<close> have been passed.\<close>

definition frontier :: "nat \<Rightarrow> phase \<Rightarrow> nat" where
  "frontier n p = (case p of Look k \<Rightarrow> k | Drain k \<Rightarrow> k | Launch k \<Rightarrow> k | _ \<Rightarrow> n)"

definition phase_ok :: "nat \<Rightarrow> phase \<Rightarrow> bool" where
  "phase_ok n p = (case p of Look k \<Rightarrow> k \<le> n | Drain k \<Rightarrow> k < n | Launch k \<Rightarrow> k < n | _ \<Rightarrow> True)"

text \<open>The tracks whose attempt has still to end, those waiting for their retry included.\<close>

definition owed :: "pass \<Rightarrow> nat list" where
  "owed pa = paRunning pa @ (case paPhase pa of Retry js \<Rightarrow> js | _ \<Rightarrow> [])"

definition ended_phase :: "phase \<Rightarrow> bool" where
  "ended_phase p = (case p of Report \<Rightarrow> True | Over \<Rightarrow> True | _ \<Rightarrow> False)"

definition pass_shape :: "nat \<Rightarrow> release \<Rightarrow> pass \<Rightarrow> bool" where
  "pass_shape i rl pa =
     (let n = length (paTracks pa) in
      phase_ok n (paPhase pa) \<and> i < length (wRips (rgWorld (paG pa))) \<and> length (paOutcomes pa) = n \<and>
      distinct (owed pa) \<and> set (owed pa) \<subseteq> {..<frontier n (paPhase pa)} \<and> int (length (paRunning pa)) \<le> rlSem rl \<and>
      (ended_phase (paPhase pa) \<longrightarrow> paRunning pa = []))"

definition outcomes_ok :: "pass \<Rightarrow> bool" where
  "outcomes_ok pa =
     (if retrying (paPhase pa) then \<forall>k \<in> set (owed pa). paOutcomes pa ! k = TrackRetryableFailure
      else (\<forall>k \<in> set (owed pa). paOutcomes pa ! k = TrackNotAttempted) \<and>
           (\<forall>k. frontier (length (paTracks pa)) (paPhase pa) \<le> k \<and> k < length (paTracks pa) \<longrightarrow> paOutcomes pa ! k = TrackNotAttempted))"

definition pass_inv :: "counter \<Rightarrow> nat \<Rightarrow> release \<Rightarrow> pass \<Rightarrow> bool" where
  "pass_inv c0 i rl pa = (pass_shape i rl pa \<and> (rlAlbum rl \<longrightarrow> outcomes_ok pa \<and> tallied c0 (paOutcomes pa) (rgCtr (paG pa))))"

text \<open>What each step does to the parts of the pass that the invariant reads.\<close>

lemma on_rip_sel [simp]:
  "rgCtr (on_rip i f g) = rgCtr g" "length (wRips (rgWorld (on_rip i f g))) = length (wRips (rgWorld g))"
  by (simp_all add: on_rip_def)

text \<open>The steps of a flush keep the number of rips and what this rip has marked done.\<close>

definition keeps :: "nat \<Rightarrow> world \<Rightarrow> world \<Rightarrow> bool" where
  "keeps i w w' = (length (wRips w') = length (wRips w) \<and> sOkDict (wRips w' ! i) = sOkDict (wRips w ! i))"

lemma keeps_refl [simp]: "keeps i w w"
  by (simp add: keeps_def)

lemma keeps_trans: "keeps i w v \<Longrightarrow> keeps i v u \<Longrightarrow> keeps i w u"
  by (simp add: keeps_def)

lemma keeps_upd: "i < length (wRips w) \<Longrightarrow> sOkDict (f (wRips w ! i)) = sOkDict (wRips w ! i) \<Longrightarrow> keeps i w (upd_rip i f w)"
  by (simp add: keeps_def)

lemma measurePending_okdict [simp]: "sOkDict (measurePending key disk r) = sOkDict r"
  by (simp add: measurePending_def Let_def)

lemma checkpoint_due_keeps: "i < length (wRips w) \<Longrightarrow> keeps i w (fst (checkpoint_due key c i w))"
  by (auto simp: checkpoint_due_def Let_def intro: keeps_upd)

lemma removeFlushedFile_keeps: "i < length (wRips w) \<Longrightarrow> keeps i w (removeFlushedFile key i p w)"
  by (simp add: removeFlushedFile_def releaseHeld_def releaseInUse_def keeps_def Let_def)

lemma removeFlushedFiles_keeps: "i < length (wRips w) \<Longrightarrow> keeps i w (removeFlushedFiles key i ps w)"
proof (induction ps arbitrary: w)
  case (Cons p ps)
  have 1: "keeps i w (removeFlushedFile key i p w)" by (rule removeFlushedFile_keeps [OF Cons.prems])
  then have "i < length (wRips (removeFlushedFile key i p w))" using Cons.prems by (simp add: keeps_def)
  from keeps_trans [OF 1 Cons.IH [OF this]] show ?case by (simp add: removeFlushedFiles_def)
qed (simp add: removeFlushedFiles_def)

lemma flush_drained_keeps:
  assumes "i < length (wRips w)"
  shows "keeps i w (flush_drained key i ok w)"
proof -
  obtain w1 c where c: "checkpoint_chunk key i w = (w1, c)" by fastforce
  have 1: "keeps i w w1" using c assms by (auto simp: checkpoint_chunk_def Let_def split: if_splits intro!: keeps_upd)
  show ?thesis
  proof (cases c)
    case None
    with c 1 show ?thesis by (simp add: flush_drained_def)
  next
    case (Some x)
    obtain chunk chunkEnd part where x: "x = (chunk, chunkEnd, part)" by (rule prod_cases3)
    have len: "i < length (wRips w1)" using 1 assms by (simp add: keeps_def)
    have 2: "keeps i w1 (removeFlushedFiles key i chunk w1)" by (rule removeFlushedFiles_keeps [OF len])
    then have len2: "i < length (wRips (removeFlushedFiles key i chunk w1))" using len by (simp add: keeps_def)
    have "keeps i w1 (checkpoint_finish key i ok x w1)"
      unfolding x checkpoint_finish_def
      by (auto simp: flush_commit_def intro: keeps_upd [OF len] keeps_trans [OF 2 keeps_upd [OF len2]])
    from keeps_trans [OF 1 this] c Some show ?thesis by (simp add: flush_drained_def)
  qed
qed

lemma prepare_keeps [simp]:
  "wRips (snd (prepareTrackRetry key cfg tk w)) = wRips w" "length (paTracks (prepare_one key cfg j pa)) = length (paTracks pa)"
  "rgCtr (paG (prepare_one key cfg j pa)) = rgCtr (paG pa)" "wRips (rgWorld (paG (prepare_one key cfg j pa))) = wRips (rgWorld (paG pa))"
  "paOutcomes (prepare_one key cfg j pa) = paOutcomes pa" "paRunning (prepare_one key cfg j pa) = paRunning pa" "paPhase (prepare_one key cfg j pa) = paPhase pa"
  by (simp_all add: prepareTrackRetry_def prepare_one_def Let_def split: prod.split)

lemma prepare_all [simp]:
  "length (paTracks (fold (prepare_one key cfg) js pa)) = length (paTracks pa)"
  "rgCtr (paG (fold (prepare_one key cfg) js pa)) = rgCtr (paG pa)" "wRips (rgWorld (paG (fold (prepare_one key cfg) js pa))) = wRips (rgWorld (paG pa))"
  "paOutcomes (fold (prepare_one key cfg) js pa) = paOutcomes pa" "paRunning (fold (prepare_one key cfg) js pa) = paRunning pa"
  by (induction js arbitrary: pa) simp_all

lemma retry_indexes_ok:
  assumes "distinct (rlSelected rl)"
  shows "distinct (retry_indexes i rl pa)" "set (retry_indexes i rl pa) \<subseteq> {..<length (paOutcomes pa)}"
    "k \<in> set (retry_indexes i rl pa) \<Longrightarrow> paOutcomes pa ! k = TrackRetryableFailure" "length (retry_indexes i rl pa) \<le> length (rlSelected rl)"
proof -
  show "distinct (retry_indexes i rl pa)"
    using assms by (auto simp: retry_indexes_def distinct_map inj_on_def)
  show "set (retry_indexes i rl pa) \<subseteq> {..<length (paOutcomes pa)}" by (auto simp: retry_indexes_def)
  show "k \<in> set (retry_indexes i rl pa) \<Longrightarrow> paOutcomes pa ! k = TrackRetryableFailure" by (auto simp: retry_indexes_def)
  show "length (retry_indexes i rl pa) \<le> length (rlSelected rl)" by (simp add: retry_indexes_def)
qed

lemmas inv_defs = pass_inv_def pass_shape_def outcomes_ok_def phase_ok_def frontier_def owed_def ended_phase_def retrying_def Let_def

lemma look_inv:
  assumes "pass_inv c0 i rl pa" "paPhase pa = Look k" "k < length (paTracks pa)"
  shows "pass_inv c0 i rl (look_at key i rl c k pa)"
proof -
  have i: "i < length (wRips (rgWorld (paG pa)))" using assms(1) by (simp add: inv_defs)
  obtain w due where w: "checkpoint_due key c i (rgWorld (paG pa)) = (w, due)" by fastforce
  have len: "length (wRips w) = length (wRips (rgWorld (paG pa)))"
    using checkpoint_due_keeps [OF i, of key c] w by (simp add: keeps_def)
  have "tallied c0 ((paOutcomes pa)[k := TrackSucceeded]) (inc_success (inc_total (rgCtr (paG pa))))"
    if "tallied c0 (paOutcomes pa) (rgCtr (paG pa))" "k < length (paOutcomes pa)" "paOutcomes pa ! k = TrackNotAttempted"
    using tallied_first [OF that, of TrackSucceeded] by (simp add: count_outcome_def)
  with assms show ?thesis
    by (auto simp: look_at_def w len inv_defs nth_list_update split: if_splits)
qed

lemma launch_inv:
  assumes "pass_inv c0 i rl pa" "paPhase pa = Launch k" "may_launch rl pa"
  shows "pass_inv c0 i rl (pa\<lparr>paRunning := paRunning pa @ [k], paPhase := Look (Suc k)\<rparr>)"
  using assms by (auto simp: inv_defs may_launch_def)

lemma relaunch_inv:
  assumes "pass_inv c0 i rl pa" "paPhase pa = Retry (j # js)" "may_launch rl pa"
  shows "pass_inv c0 i rl (pa\<lparr>paRunning := paRunning pa @ [j], paPhase := Retry js\<rparr>)"
  using assms by (auto simp: inv_defs may_launch_def)

lemma reconcile_inv:
  assumes "pass_inv c0 i rl pa" "paPhase pa = Wait" "paRunning pa = []" "distinct (rlSelected rl)"
  shows "pass_inv c0 i rl (reconcile_begin key gc i rl c pa)"
proof -
  let ?js = "retry_indexes i rl pa"
  have n: "length (paOutcomes pa) = length (paTracks pa)" using assms(1) by (simp add: inv_defs)
  note js = retry_indexes_ok [OF assms(4), where i = i and pa = pa, unfolded n]
  show ?thesis
    using assms js by (auto simp: reconcile_begin_def inv_defs)
qed

lemma attempt_inv:
  assumes "pass_inv c0 i rl pa" "k \<in> set (paRunning pa)" "0 \<le> ctTotal c0" "0 \<le> ctError c0"
  shows "pass_inv c0 i rl (finish_attempt key gc i rl k io pa)"
proof -
  obtain oc tk g where r: "runTrackAttempt key gc i io (paTracks pa ! k) (paG pa) = (oc, tk, g)" by (rule prod_cases3)
  have i: "i < length (wRips (rgWorld (paG pa)))" using assms(1) by (simp add: inv_defs)
  note a = attempt_counts [OF r i]
  have k: "k < length (paTracks pa)" "length (paOutcomes pa) = length (paTracks pa)"
    using assms(1,2) by (auto simp: inv_defs split: phase.splits)
  have d: "distinct (paRunning pa)" using assms(1) by (simp add: inv_defs)
  have rest: "set (owed (pa\<lparr>paRunning := remove1 k (paRunning pa)\<rparr>)) = set (owed pa) - {k}" "distinct (owed (pa\<lparr>paRunning := remove1 k (paRunning pa)\<rparr>))"
    using assms(1,2) by (auto simp: inv_defs set_remove1_eq split: phase.splits)
  have same: "owed (pa\<lparr>paG := g', paTracks := tks, paRunning := run, paOutcomes := outs\<rparr>) = owed (pa\<lparr>paRunning := run\<rparr>)" for g' tks run outs
    by (simp add: owed_def)
  have len: "length (remove1 k (paRunning pa)) \<le> length (paRunning pa)" by (simp add: length_remove1)
  have shape: "pass_shape i rl (pa\<lparr>paG := g', paTracks := (paTracks pa)[k := tk], paRunning := remove1 k (paRunning pa), paOutcomes := outs\<rparr>)"
    if "length (wRips (rgWorld g')) = length (wRips (rgWorld g))" "length outs = length (paTracks pa)" for g' outs
    using assms(1,2) that a(4) rest len by (auto simp: pass_inv_def pass_shape_def same Let_def)
  let ?outs = "(paOutcomes pa)[k := oc]"
  have other: "?outs ! j = paOutcomes pa ! j" if "j \<noteq> k" for j using that by simp
  show ?thesis
  proof (cases "retrying (paPhase pa)")
    case True
    let ?new = "pa\<lparr>paG := g', paTracks := (paTracks pa)[k := tk], paRunning := remove1 k (paRunning pa), paOutcomes := outs\<rparr>"
    have fin: "finish_attempt key gc i rl k io pa =
        pa\<lparr>paG := (if oc = TrackCancelled then g else on_ctr ReconcileErrorRetry g), paTracks := (paTracks pa)[k := tk],
          paRunning := remove1 k (paRunning pa), paOutcomes := (if oc = TrackCancelled then paOutcomes pa else ?outs)\<rparr>"
      using True by (simp add: finish_attempt_def r settle_retry_def Let_def)
    have o: "outcomes_ok (pa\<lparr>paG := g', paTracks := tks, paRunning := remove1 k (paRunning pa), paOutcomes := outs\<rparr>)"
      if "outcomes_ok pa" "outs = paOutcomes pa \<or> outs = ?outs" for g' outs tks
      using that True rest by (auto simp: outcomes_ok_def same)
    have t: "tallied c0 ?outs (ReconcileErrorRetry (count_outcome oc (rgCtr (paG pa))))"
      if "outcomes_ok pa" "tallied c0 (paOutcomes pa) (rgCtr (paG pa))" "oc \<noteq> TrackCancelled"
    proof (rule tallied_retry [OF that(2) _ _ assms(3,4) that(3) a(2)])
      show "k < length (paOutcomes pa)" using k by simp
      show "paOutcomes pa ! k = TrackRetryableFailure" using that(1) True assms(2) by (simp add: outcomes_ok_def owed_def)
    qed
    show ?thesis
      unfolding fin pass_inv_def
    proof (intro conjI impI)
      show "pass_shape i rl (pa\<lparr>paG := (if oc = TrackCancelled then g else on_ctr ReconcileErrorRetry g), paTracks := (paTracks pa)[k := tk],
          paRunning := remove1 k (paRunning pa), paOutcomes := (if oc = TrackCancelled then paOutcomes pa else ?outs)\<rparr>)"
        by (rule shape) (simp_all add: k)
    next
      assume al: "rlAlbum rl"
      show "outcomes_ok (pa\<lparr>paG := (if oc = TrackCancelled then g else on_ctr ReconcileErrorRetry g), paTracks := (paTracks pa)[k := tk],
          paRunning := remove1 k (paRunning pa), paOutcomes := (if oc = TrackCancelled then paOutcomes pa else ?outs)\<rparr>)"
        by (rule o) (use assms(1) al in \<open>simp_all add: pass_inv_def\<close>)
    next
      assume "rlAlbum rl"
      with t a(1,3) assms(1) show "tallied c0 (paOutcomes (pa\<lparr>paG := (if oc = TrackCancelled then g else on_ctr ReconcileErrorRetry g),
            paTracks := (paTracks pa)[k := tk], paRunning := remove1 k (paRunning pa), paOutcomes := (if oc = TrackCancelled then paOutcomes pa else ?outs)\<rparr>))
          (rgCtr (paG (pa\<lparr>paG := (if oc = TrackCancelled then g else on_ctr ReconcileErrorRetry g), paTracks := (paTracks pa)[k := tk],
            paRunning := remove1 k (paRunning pa), paOutcomes := (if oc = TrackCancelled then paOutcomes pa else ?outs)\<rparr>)))"
        by (simp add: pass_inv_def)
    qed
  next
    case False
    have fin: "finish_attempt key gc i rl k io pa =
        pa\<lparr>paG := on_rip i trackDone g, paTracks := (paTracks pa)[k := tk],
          paRunning := remove1 k (paRunning pa), paOutcomes := (if rlAlbum rl then ?outs else paOutcomes pa)\<rparr>"
      using False by (simp add: finish_attempt_def r Let_def)
    have front: "k < frontier (length (paTracks pa)) (paPhase pa)"
      using assms(1,2) by (auto simp: pass_inv_def pass_shape_def owed_def Let_def)
    have o: "outcomes_ok (pa\<lparr>paG := g', paTracks := (paTracks pa)[k := tk], paRunning := remove1 k (paRunning pa), paOutcomes := ?outs\<rparr>)"
      if "outcomes_ok pa" for g'
      using that False rest front by (auto simp: outcomes_ok_def same)
    have t: "tallied c0 ?outs (count_outcome oc (rgCtr (paG pa)))" if "outcomes_ok pa" "tallied c0 (paOutcomes pa) (rgCtr (paG pa))"
    proof (rule tallied_first [OF that(2)])
      show "k < length (paOutcomes pa)" using k by simp
      show "paOutcomes pa ! k = TrackNotAttempted" using that(1) False assms(2) by (simp add: outcomes_ok_def owed_def)
    qed
    show ?thesis
      unfolding fin using assms(1) a(1) k(2) shape [of "on_rip i trackDone g" "paOutcomes pa"]
      by (cases "rlAlbum rl") (auto simp: pass_inv_def intro!: shape o t)
  qed
qed

lemma step_inv:
  assumes "pass_inv c0 i rl pa" "pass_step key gc i rl e pa = Some pa'" "0 \<le> ctTotal c0" "0 \<le> ctError c0" "distinct (rlSelected rl)"
  shows "pass_inv c0 i rl pa'"
proof (cases e)
  case (Advance c)
  then have adv: "advance key gc i rl c pa = Some pa'" using assms(2) by (simp add: pass_step_def)
  show ?thesis
  proof (cases "paPhase pa")
    case (Look k)
    show ?thesis
    proof (cases "k < length (paTracks pa)")
      case True
      with adv Look look_inv [OF assms(1) Look True] show ?thesis by (auto simp: advance_def)
    next
      case False
      with adv Look assms(1) show ?thesis by (auto simp: advance_def inv_defs)
    qed
  next
    case (Launch k)
    with adv launch_inv [OF assms(1) Launch] show ?thesis by (auto simp: advance_def split: if_splits)
  next
    case Wait
    have run: "paRunning pa = []" and pa': "pa' = (if rlAlbum rl then reconcile_begin key gc i rl c pa else pa\<lparr>paPhase := Over\<rparr>)"
      using adv Wait by (auto simp: advance_def split: if_splits)
    have "pass_inv c0 i rl (pa\<lparr>paPhase := Over\<rparr>)" if "\<not> rlAlbum rl"
      using assms(1) run Wait that by (simp add: inv_defs)
    with pa' reconcile_inv [OF assms(1) Wait run assms(5), of key gc c] show ?thesis by simp
  next
    case (Retry js)
    show ?thesis
    proof (cases js)
      case Nil
      with Retry adv have "paRunning pa = []" "pa' = pa\<lparr>paPhase := Report\<rparr>" by (auto simp: advance_def split: if_splits)
      with Nil Retry assms(1) show ?thesis by (auto simp: inv_defs)
    next
      case (Cons j js1)
      with Retry adv have "may_launch rl pa" "pa' = pa\<lparr>paRunning := paRunning pa @ [j], paPhase := Retry js1\<rparr>"
        by (auto simp: advance_def split: if_splits)
      with relaunch_inv [OF assms(1)] Cons Retry show ?thesis by simp
    qed
  next
    case Report
    then have run: "paRunning pa = []" using assms(1) by (simp add: inv_defs)
    have "pass_inv c0 i rl (pa\<lparr>paG := g, paPhase := Over\<rparr>)"
      if "rgCtr g = rgCtr (paG pa)" "length (wRips (rgWorld g)) = length (wRips (rgWorld (paG pa)))" for g
      using assms(1) Report run that by (simp add: inv_defs)
    from this [of "paG pa"] this [of "on_rip i f (paG pa)" for f] adv Report show ?thesis
      by (auto simp: advance_def reconcile_report_def Let_def split: if_splits)
  qed (use adv in \<open>simp_all add: advance_def\<close>)
next
  case (Flushed ok)
  with assms(2) obtain k where k: "paPhase pa = Drain k" "paRunning pa = []"
    "pa' = pa\<lparr>paG := on_world (flush_drained key i ok) (paG pa), paPhase := Launch k\<rparr>"
    by (auto simp: pass_step_def split: phase.splits if_splits)
  have "i < length (wRips (rgWorld (paG pa)))" using assms(1) by (simp add: inv_defs)
  from flush_drained_keeps [OF this, of key ok] k assms(1) show ?thesis by (auto simp: inv_defs keeps_def)
next
  case (Finished k io)
  with assms(2) attempt_inv [OF assms(1) _ assms(3,4)] show ?thesis by (auto simp: pass_step_def split: if_splits)
next
  case (Outside w)
  have owed: "owed (pa\<lparr>paG := g\<rparr>) = owed pa" for g by (simp add: owed_def)
  from Outside assms(2) have w: "length (wRips w) = length (wRips (rgWorld (paG pa)))"
    "pa' = pa\<lparr>paG := on_world (\<lambda>v. w\<lparr>wRips := (wRips w)[i := wRips v ! i]\<rparr>) (paG pa)\<rparr>"
    by (simp_all add: pass_step_def split: if_splits)
  with assms(1) show ?thesis by (simp add: pass_inv_def pass_shape_def outcomes_ok_def Let_def owed)
qed

lemma run_inv:
  "pass_inv c0 i rl pa \<Longrightarrow> run_pass key gc i rl es pa = Some pa' \<Longrightarrow> 0 \<le> ctTotal c0 \<Longrightarrow> 0 \<le> ctError c0 \<Longrightarrow>
   distinct (rlSelected rl) \<Longrightarrow> pass_inv c0 i rl pa'"
  by (induction es arbitrary: pa) (auto split: option.splits intro: step_inv)

lemma wrapperBudget_pos: "1 \<le> wrapperBudget n rs"
  by (auto simp: wrapperBudget_def poolSize_def Let_def split: option.split)

lemma start_inv:
  assumes "start_pass cap i rl tracks g = (rl', pa)" "i < length (wRips (rgWorld g))"
  shows "pass_inv (rgCtr g) i rl' pa" "1 \<le> rlSem rl'" "rlSelected rl' = rlSelected rl" "rlAlbum rl' = rlAlbum rl" "paTracks pa = tracks"
  using assms wrapperBudget_pos [of cap "Some (wRips (rgWorld g) ! i)"]
  by (auto simp: start_pass_def inv_defs tallied_def count_list_0_iff)


subsection \<open>A pass ends\<close>

definition own_event :: "pass_event \<Rightarrow> bool" where
  "own_event e = (case e of Outside w \<Rightarrow> False | _ \<Rightarrow> True)"

definition phase_weight :: "nat \<Rightarrow> nat \<Rightarrow> phase \<Rightarrow> nat" where
  "phase_weight n m p =
     (let r = 2 * m + 5
      in case p of Look k \<Rightarrow> 4 * (n - k) + r | Drain k \<Rightarrow> 4 * (n - k) + r - 1 | Launch k \<Rightarrow> 4 * (n - k) + r - 2
         | Wait \<Rightarrow> r - 1 | Retry js \<Rightarrow> 2 * length js + 3 | Report \<Rightarrow> 1 | Over \<Rightarrow> 0)"

definition work_left :: "release \<Rightarrow> pass \<Rightarrow> nat" where
  "work_left rl pa = phase_weight (length (paTracks pa)) (length (rlSelected rl)) (paPhase pa) + length (paRunning pa)"

lemma finish_frame:
  "paPhase (finish_attempt key gc i rl k io pa) = paPhase pa" "length (paTracks (finish_attempt key gc i rl k io pa)) = length (paTracks pa)"
  "paRunning (finish_attempt key gc i rl k io pa) = remove1 k (paRunning pa)"
  by (simp_all add: finish_attempt_def settle_retry_def Let_def split: prod.split)

lemma look_frame:
  "length (paTracks (look_at key i rl c k pa)) = length (paTracks pa)" "paRunning (look_at key i rl c k pa) = paRunning pa"
  "paPhase (look_at key i rl c k pa) \<in> {Look (Suc k), Drain k, Launch k}"
  by (auto simp: look_at_def split: prod.split)

lemma reconcile_frame:
  "length (paTracks (reconcile_begin key gc i rl c pa)) = length (paTracks pa)" "paRunning (reconcile_begin key gc i rl c pa) = paRunning pa"
  "paPhase (reconcile_begin key gc i rl c pa) \<in> {Over, Report, Retry (retry_indexes i rl pa)}"
  by (auto simp: reconcile_begin_def Let_def)

lemma report_frame:
  "length (paTracks (reconcile_report i rl c pa)) = length (paTracks pa)" "paRunning (reconcile_report i rl c pa) = paRunning pa"
  "paPhase (reconcile_report i rl c pa) = Over"
  by (simp_all add: reconcile_report_def Let_def)

lemma step_work:
  assumes "pass_step key gc i rl e pa = Some pa'" "pass_inv c0 i rl pa"
  shows "length (paTracks pa') = length (paTracks pa) \<and>
    (if own_event e then work_left rl pa' < work_left rl pa else work_left rl pa' = work_left rl pa)"
proof (cases e)
  case (Advance c)
  then have adv: "advance key gc i rl c pa = Some pa'" using assms(1) by (simp add: pass_step_def)
  have own: "own_event e" using Advance by (simp add: own_event_def)
  show ?thesis
  proof (cases "paPhase pa")
    case (Look k)
    then have "k \<le> length (paTracks pa)" using assms(2) by (simp add: inv_defs)
    then show ?thesis
      using adv Look own look_frame [of key i rl c k pa]
      by (cases "k < length (paTracks pa)") (auto simp: advance_def work_left_def phase_weight_def Let_def)
  next
    case (Launch k)
    then have "k < length (paTracks pa)" using assms(2) by (simp add: inv_defs)
    then show ?thesis using adv Launch own by (auto simp: advance_def work_left_def phase_weight_def Let_def split: if_splits)
  next
    case Wait
    have "length (retry_indexes i rl pa) \<le> length (rlSelected rl)" by (simp add: retry_indexes_def)
    then show ?thesis
      using adv Wait own reconcile_frame [of key gc i rl c pa]
      by (auto simp: advance_def work_left_def phase_weight_def Let_def split: if_splits)
  next
    case (Retry js)
    then show ?thesis using adv own by (cases js) (auto simp: advance_def work_left_def phase_weight_def Let_def split: if_splits)
  next
    case Report
    then show ?thesis using adv own report_frame [of i rl c pa] by (auto simp: advance_def work_left_def phase_weight_def Let_def)
  qed (use adv in \<open>simp_all add: advance_def\<close>)
next
  case (Flushed ok)
  with assms(1) show ?thesis
    by (auto simp: pass_step_def own_event_def work_left_def phase_weight_def Let_def split: phase.splits if_splits)
next
  case (Finished k io)
  with assms(1) have "k \<in> set (paRunning pa)" "pa' = finish_attempt key gc i rl k io pa" by (auto simp: pass_step_def split: if_splits)
  then show ?thesis using Finished length_pos_if_in_set [of k "paRunning pa"]
    by (auto simp: own_event_def work_left_def finish_frame length_remove1)
next
  case (Outside w)
  with assms(1) show ?thesis by (auto simp: pass_step_def own_event_def work_left_def split: if_splits)
qed

lemma run_work:
  "run_pass key gc i rl es pa = Some pa' \<Longrightarrow> pass_inv c0 i rl pa \<Longrightarrow> 0 \<le> ctTotal c0 \<Longrightarrow> 0 \<le> ctError c0 \<Longrightarrow> distinct (rlSelected rl) \<Longrightarrow>
   length (filter own_event es) + work_left rl pa' \<le> work_left rl pa"
proof (induction es arbitrary: pa)
  case (Cons e es)
  then obtain pa1 where s: "pass_step key gc i rl e pa = Some pa1" "run_pass key gc i rl es pa1 = Some pa'"
    by (auto split: option.splits)
  have "pass_inv c0 i rl pa1" by (rule step_inv [OF Cons.prems(2) s(1) Cons.prems(3-5)])
  with Cons.IH [OF s(2)] Cons.prems step_work [OF s(1) Cons.prems(2)] show ?case by (auto split: if_splits)
qed simp

text \<open>
  C22: A release is always finished with: a pass makes at most \<open>4 n + 2 m + 5\<close> steps over \<open>n\<close> tracks of
  which \<open>m\<close> are selected, and until it is over one of its own steps is possible, whatever the flushes
  and the attempts answer; when it is over no attempt is running.
\<close>

theorem release_pass_ends:
  assumes "start_pass cap i rl tracks g = (rl', pa)" "distinct (rlSelected rl)" "i < length (wRips (rgWorld g))"
    and "0 \<le> ctTotal (rgCtr g)" "0 \<le> ctError (rgCtr g)" "run_pass key gc i rl' es pa = Some pa'"
  shows "length (filter own_event es) \<le> 4 * length tracks + 2 * length (rlSelected rl) + 5 \<and>
    (if paPhase pa' = Over then paRunning pa' = []
     else \<exists>e. own_event e \<and> pass_step key gc i rl' e pa' \<noteq> None)"
proof -
  note s = start_inv [OF assms(1,3)]
  have d: "distinct (rlSelected rl')" using s(3) assms(2) by simp
  have inv: "pass_inv (rgCtr g) i rl' pa'" by (rule run_inv [OF s(1) assms(6,4,5) d])
  have "work_left rl' pa = 4 * length tracks + 2 * length (rlSelected rl) + 5"
    using assms(1) by (auto simp: start_pass_def work_left_def phase_weight_def Let_def)
  moreover have "length (filter own_event es) + work_left rl' pa' \<le> work_left rl' pa"
    by (rule run_work [OF assms(6) s(1) assms(4,5) d])
  moreover have "\<exists>e. own_event e \<and> pass_step key gc i rl' e pa' \<noteq> None" if "paPhase pa' \<noteq> Over"
  proof (cases "paRunning pa'")
    case (Cons k ks)
    then have "pass_step key gc i rl' (Finished k calm_io) pa' \<noteq> None" by (simp add: pass_step_def)
    then show ?thesis by (intro exI [of _ "Finished k calm_io"]) (simp add: own_event_def)
  next
    case Nil
    then have sem: "may_launch rl' pa'" using s(2) by (simp add: may_launch_def)
    have "pass_step key gc i rl' (case paPhase pa' of Drain k \<Rightarrow> Flushed True | _ \<Rightarrow> Advance False) pa' \<noteq> None"
      using that Nil sem by (cases "paPhase pa'") (auto simp: pass_step_def advance_def split: list.split)
    then show ?thesis by (intro exI conjI) (auto simp: own_event_def split: phase.split)
  qed
  moreover have "paRunning pa' = []" if "paPhase pa' = Over" using inv that by (simp add: inv_defs)
  ultimately show ?thesis by auto
qed

text \<open>An Atmos rip of an album whose one track has no Atmos stream.\<close>

definition atmos_rip :: ripping where
  "atmos_rip = fresh_rip\<lparr>rgWorld := (rgWorld fresh_rip)\<lparr>wRips := [newRipState\<lparr>sAtmos := True\<rparr>]\<rparr>\<rparr>"

definition flat_track :: track where
  "flat_track = (plain_track 1 ''songs'')\<lparr>tkWebM3u8 := [], tkCodec := []\<rparr>"

definition small_album :: release where
  "small_album = \<lparr>rlAlbum = True, rlID = ''9'', rlName = ''LP'', rlSelected = [1], rlSem = 0\<rparr>"

definition small_run :: "pass_event list" where
  "small_run = [Advance False, Advance False, Finished 0 calm_io, Advance False, Advance False, Advance False]"

definition small_start :: "release \<times> pass" where
  "small_start = start_pass 2 0 small_album [flat_track] atmos_rip"

definition small_end :: "pass option" where
  "small_end = run_pass (\<lambda>p. p) plain_config 0 (fst small_start) small_run (snd small_start)"

lemma small_end:
  "map_option (\<lambda>pa. (paPhase pa, paOutcomes pa, rgCtr (paG pa), sReleaseWarnings (wRips (rgWorld (paG pa)) ! 0))) small_end =
   Some (Over, [TrackUnavailable], \<lparr>ctUnavailable = 1, ctNotSong = 0, ctError = 0, ctSuccess = 0, ctTotal = 1\<rparr>,
     [''LP: 1/1 track(s) missing after release check (01 T1)''])"
  by code_simp

lemma small_facts:
  "rlAlbum small_album" "distinct (rlSelected small_album)" "0 < length (wRips (rgWorld atmos_rip))" "0 \<le> ctTotal (rgCtr atmos_rip)"
  "0 \<le> ctError (rgCtr atmos_rip)" "length (filter own_event small_run) = 6"
  by (simp_all add: small_album_def atmos_rip_def fresh_rip_def zero_counter_def small_run_def own_event_def)


theorem release_pass_ends_witness:
  "\<exists>pa. small_end = Some pa \<and> length (filter own_event small_run) \<le> 4 * 1 + 2 * 1 + 5 \<and> paPhase pa = Over \<and> paRunning pa = []"
proof -
  obtain pa where pa: "small_end = Some pa" "paPhase pa = Over" using small_end by auto
  obtain rl' p0 where s: "start_pass 2 0 small_album [flat_track] atmos_rip = (rl', p0)" by fastforce
  then have "run_pass (\<lambda>p. p) plain_config 0 rl' small_run p0 = Some pa" using pa(1) by (simp add: small_end_def small_start_def)
  from release_pass_ends [OF s small_facts(2-5) this] pa show ?thesis by (auto simp: small_album_def)
qed

subsection \<open>At most one retry\<close>

definition finishes :: "nat \<Rightarrow> pass_event \<Rightarrow> bool" where
  "finishes j e = (case e of Finished k io \<Rightarrow> k = j | _ \<Rightarrow> False)"

definition attempts_left :: "nat \<Rightarrow> pass \<Rightarrow> nat" where
  "attempts_left j pa =
     (if retrying (paPhase pa) then (if j \<in> set (owed pa) then 1 else 0)
      else if ended_phase (paPhase pa) then 0
      else if j \<in> set (paRunning pa) \<or> frontier (length (paTracks pa)) (paPhase pa) \<le> j then 2 else 1)"

lemmas left_defs = attempts_left_def owed_def retrying_def ended_phase_def frontier_def

lemma step_attempts:
  assumes "pass_step key gc i rl e pa = Some pa'" "pass_inv c0 i rl pa" "j < length (paTracks pa)"
  shows "(if finishes j e then 1 else 0) + attempts_left j pa' \<le> attempts_left j pa"
proof (cases e)
  case (Advance c)
  then have adv: "advance key gc i rl c pa = Some pa'" and nf: "\<not> finishes j e" using assms(1) by (simp_all add: pass_step_def finishes_def)
  show ?thesis
  proof (cases "paPhase pa")
    case (Look k)
    then have k: "k \<le> length (paTracks pa)" using assms(2) by (simp add: inv_defs)
    show ?thesis
    proof (cases "k < length (paTracks pa)")
      case True
      then have "pa' = look_at key i rl c k pa" using adv Look by (simp add: advance_def)
      then show ?thesis using Look nf look_frame [of key i rl c k pa] by (auto simp: left_defs)
    next
      case False
      then show ?thesis using adv Look nf k assms(3) by (auto simp: advance_def left_defs)
    qed
  next
    case (Launch k)
    then show ?thesis using adv nf by (auto simp: advance_def left_defs split: if_splits)
  next
    case Wait
    then have "paRunning pa = []" "pa' = (if rlAlbum rl then reconcile_begin key gc i rl c pa else pa\<lparr>paPhase := Over\<rparr>)"
      using adv by (auto simp: advance_def split: if_splits)
    then have "paRunning pa' = []" "paPhase pa' \<in> {Over, Report, Retry (retry_indexes i rl pa)}"
      using reconcile_frame [of key gc i rl c pa] by auto
    then have "attempts_left j pa' \<le> 1" by (auto simp: attempts_left_def retrying_def ended_phase_def)
    moreover have "attempts_left j pa = 1" using Wait \<open>paRunning pa = []\<close> assms(3) by (simp add: left_defs)
    ultimately show ?thesis using nf by simp
  next
    case (Retry js)
    then have "paPhase pa' \<in> {Report} \<union> range Retry" "set (owed pa') \<subseteq> set (owed pa)"
      using adv by (cases js; force simp: advance_def owed_def split: if_splits)+
    with Retry nf show ?thesis by (auto simp: attempts_left_def retrying_def ended_phase_def)
  next
    case Report
    then show ?thesis using adv nf report_frame [of i rl c pa] by (auto simp: advance_def left_defs)
  qed (use adv in \<open>simp_all add: advance_def\<close>)
next
  case (Flushed ok)
  with assms(1) obtain k where "paPhase pa = Drain k" "paRunning pa = []"
    "pa' = pa\<lparr>paG := on_world (flush_drained key i ok) (paG pa), paPhase := Launch k\<rparr>"
    by (auto simp: pass_step_def split: phase.splits if_splits)
  then show ?thesis using Flushed by (simp add: left_defs finishes_def)
next
  case (Finished k io)
  with assms(1) have k: "k \<in> set (paRunning pa)" and pa': "pa' = finish_attempt key gc i rl k io pa" by (auto simp: pass_step_def split: if_splits)
  have dist: "distinct (owed pa)" using assms(2) by (simp add: pass_inv_def pass_shape_def Let_def)
  have o: "set (owed pa') = set (owed pa) - {k}" "set (paRunning pa') = set (paRunning pa) - {k}"
    using dist k by (cases "paPhase pa", auto simp: pa' owed_def finish_frame set_remove1_eq)
  have f: "k < frontier (length (paTracks pa)) (paPhase pa)" "k \<in> set (owed pa)" "ended_phase (paPhase pa) \<Longrightarrow> False"
    using assms(2) k by (auto simp: pass_inv_def pass_shape_def owed_def Let_def)
  have p: "paPhase pa' = paPhase pa" "length (paTracks pa') = length (paTracks pa)" by (simp_all add: pa' finish_frame)
  show ?thesis using Finished f k by (auto simp: finishes_def attempts_left_def o p)
next
  case (Outside w)
  with assms(1) have "pa' = pa\<lparr>paG := on_world (\<lambda>v. w\<lparr>wRips := (wRips w)[i := wRips v ! i]\<rparr>) (paG pa)\<rparr>"
    by (simp add: pass_step_def split: if_splits)
  then show ?thesis using Outside by (simp add: finishes_def attempts_left_def owed_def)
qed

lemma run_attempts:
  "run_pass key gc i rl es pa = Some pa' \<Longrightarrow> pass_inv c0 i rl pa \<Longrightarrow> 0 \<le> ctTotal c0 \<Longrightarrow> 0 \<le> ctError c0 \<Longrightarrow> distinct (rlSelected rl) \<Longrightarrow>
   j < length (paTracks pa) \<Longrightarrow> length (filter (finishes j) es) + attempts_left j pa' \<le> attempts_left j pa"
proof (induction es arbitrary: pa)
  case (Cons e es)
  then obtain pa1 where s: "pass_step key gc i rl e pa = Some pa1" "run_pass key gc i rl es pa1 = Some pa'"
    by (auto split: option.splits)
  have inv: "pass_inv c0 i rl pa1" by (rule step_inv [OF Cons.prems(2) s(1) Cons.prems(3-5)])
  have len: "j < length (paTracks pa1)" using step_work [OF s(1) Cons.prems(2)] Cons.prems(6) by simp
  from Cons.IH [OF s(2) inv Cons.prems(3-5) len] step_attempts [OF s(1) Cons.prems(2,6)] show ?case by (auto split: if_splits)
qed simp

text \<open>
  No track is attempted more than twice, and only an ordinary failure is attempted again: whatever
  the reconciliation has still to attempt or is attempting has failed with a retryable outcome, never
  a track that is unavailable, was cancelled or is complete.
\<close>

theorem retried_once:
  assumes "start_pass cap i rl tracks g = (rl', pa)" "rlAlbum rl" "distinct (rlSelected rl)" "i < length (wRips (rgWorld g))"
    and "0 \<le> ctTotal (rgCtr g)" "0 \<le> ctError (rgCtr g)" "run_pass key gc i rl' es pa = Some pa'" "j < length tracks"
  shows "length (filter (finishes j) es) \<le> 2 \<and>
    (retrying (paPhase pa') \<longrightarrow> (\<forall>k \<in> set (owed pa'). paOutcomes pa' ! k = TrackRetryableFailure))"
proof -
  note s = start_inv [OF assms(1,4)]
  have d: "distinct (rlSelected rl')" using s(3) assms(3) by simp
  have inv: "pass_inv (rgCtr g) i rl' pa'" by (rule run_inv [OF s(1) assms(7,5,6) d])
  have "length (filter (finishes j) es) + attempts_left j pa' \<le> attempts_left j pa"
    by (rule run_attempts [OF assms(7) s(1) assms(5,6) d]) (use s assms in simp)
  moreover have "attempts_left j pa \<le> 2" by (simp add: attempts_left_def)
  ultimately show ?thesis using inv s(4) assms(2) by (simp add: pass_inv_def outcomes_ok_def)
qed

theorem retried_once_witness:
  "length (filter (finishes 0) small_run) = 1 \<and> length (filter (finishes 0) small_run) \<le> 2"
proof -
  obtain pa where pa: "small_end = Some pa" using small_end by auto
  obtain rl' p0 where s: "start_pass 2 0 small_album [flat_track] atmos_rip = (rl', p0)" by fastforce
  then have "run_pass (\<lambda>p. p) plain_config 0 rl' small_run p0 = Some pa" using pa by (simp add: small_end_def small_start_def)
  from retried_once [OF s small_facts(1-5) this, of 0] show ?thesis by (simp add: small_run_def finishes_def)
qed

subsection \<open>Music videos and the release check\<close>

text \<open>
  A music video that has been downloaded is reported missing: its attempt succeeds and counts as
  a success, but \<^verbatim>\<open>ripTrack\<close> returns without marking it done, so the release check of its album
  lists it among the missing tracks.
\<close>

theorem mv_success_reported_missing:
  assumes "tkType (paTracks pa ! k) = ''music-videos''" "rlAlbum rl" "k < length (paOutcomes pa)" "i < length (wRips (rgWorld (paG pa)))"
    and "int k + 1 \<in> set (rlSelected rl)" "\<not> done_already i rl (paG pa) (int k + 1)" "paOutcomes pa ! k \<noteq> TrackSucceeded"
    and "finish_attempt key gc i rl k io pa = pa'" "paOutcomes pa' ! k = TrackSucceeded"
  shows "ctSuccess (rgCtr (paG pa')) = ctSuccess (rgCtr (paG pa)) + 1 \<and> \<not> done_already i rl (paG pa') (int k + 1) \<and>
    missing_name (paTracks pa') (int k + 1) \<in> set (missing_tracks i rl pa')"
proof -
  obtain oc tk g where r: "runTrackAttempt key gc i io (paTracks pa ! k) (paG pa) = (oc, tk, g)" by (rule prod_cases3)
  have oc: "oc = TrackSucceeded" and pa': "paG pa' \<in> {on_rip i trackDone g, on_ctr ReconcileErrorRetry g}"
    using assms(2,3,7,8,9) by (auto simp: finish_attempt_def r settle_retry_def Let_def split: if_splits)
  obtain c paths done0 fails where s: "seen i (paG pa) = (c, paths, done0, fails)" by (metis prod.collapse)
  have a: "\<exists>p. seen i g = (inc_success (inc_total c), paths @ [p], done0, fails)"
    using attempt_seen [OF r assms(4) s refl] assms(1) oc by simp
  have "length (wRips (rgWorld g)) = length (wRips (rgWorld (paG pa)))" by (rule attempt_counts(4) [OF r assms(4)])
  with assms(4) have len: "i < length (wRips (rgWorld g))" by simp
  have "sOkDict (wRips (rgWorld (paG pa')) ! i) = sOkDict (wRips (rgWorld (paG pa)) ! i)"
    using pa' a s len by (auto simp: seen_def on_rip_def trackDone_def)
  then have d: "\<not> done_already i rl (paG pa') (int k + 1)" using assms(6) by (simp add: done_already_def isDone_def)
  have "ctSuccess (rgCtr (paG pa')) = ctSuccess (rgCtr (paG pa)) + 1"
    using pa' a s by (auto simp: seen_def on_rip_def ReconcileErrorRetry_def Let_def inc_success_def inc_total_def)
  with d assms(5) show ?thesis by (simp add: missing_tracks_def)
qed

text \<open>An album that is one music video, downloaded at the first attempt.\<close>

definition mv_start :: "release \<times> pass" where
  "mv_start = start_pass 2 0 small_album [plain_track 1 ''music-videos''] fresh_rip"

definition mv_launched :: "pass option" where
  "mv_launched = run_pass (\<lambda>p. p) plain_config 0 (fst mv_start) [Advance False, Advance False] (snd mv_start)"

definition mv_view :: "pass option \<Rightarrow> (track_outcome list \<times> counter \<times> string list) option" where
  "mv_view x = map_option (\<lambda>pa. (paOutcomes pa, rgCtr (paG pa), sReleaseWarnings (wRips (rgWorld (paG pa)) ! 0))) x"

lemma mv_run:
  "mv_view (case mv_launched of None \<Rightarrow> None
     | Some pa \<Rightarrow> run_pass (\<lambda>p. p) plain_config 0 (fst mv_start) [Finished 0 calm_io, Advance False, Advance False, Advance False] pa) =
   Some ([TrackSucceeded], \<lparr>ctUnavailable = 0, ctNotSong = 0, ctError = 0, ctSuccess = 1, ctTotal = 1\<rparr>,
     [''LP: 1/1 track(s) missing after release check (01 T1)''])"
  by code_simp

lemma mv_before:
  "map_option (\<lambda>pa. (map tkType (paTracks pa), paOutcomes pa, length (wRips (rgWorld (paG pa))), paPhase pa, paRunning pa,
     done_already 0 small_album (paG pa) 1, paOutcomes (finish_attempt (\<lambda>p. p) plain_config 0 small_album 0 calm_io pa))) mv_launched =
   Some ([''music-videos''], [TrackNotAttempted], 2, Look 1, [0], False, [TrackSucceeded])"
  by code_simp

theorem mv_success_reported_missing_witness:
  "\<exists>pa pa'. mv_launched = Some pa \<and> finish_attempt (\<lambda>p. p) plain_config 0 small_album 0 calm_io pa = pa' \<and>
     paOutcomes pa' = [TrackSucceeded] \<and> missing_name (paTracks pa') 1 \<in> set (missing_tracks 0 small_album pa')"
proof -
  obtain pa where pa: "mv_launched = Some pa" "map tkType (paTracks pa) = [''music-videos'']" "paOutcomes pa = [TrackNotAttempted]"
    "length (wRips (rgWorld (paG pa))) = 2" "\<not> done_already 0 small_album (paG pa) 1"
    "paOutcomes (finish_attempt (\<lambda>p. p) plain_config 0 small_album 0 calm_io pa) = [TrackSucceeded]"
    using mv_before by (auto simp del: map_eq_Cons_conv)
  have t: "tkType (paTracks pa ! 0) = ''music-videos''" using pa(2) by (auto simp: map_eq_Cons_conv)
  have "missing_name (paTracks (finish_attempt (\<lambda>p. p) plain_config 0 small_album 0 calm_io pa)) (int 0 + 1) \<in>
      set (missing_tracks 0 small_album (finish_attempt (\<lambda>p. p) plain_config 0 small_album 0 calm_io pa))"
    using mv_success_reported_missing [OF t _ _ _ _ _ _ refl, of small_album 0 "\<lambda>p. p" plain_config calm_io] pa
    by (simp add: small_album_def)
  with pa show ?thesis by (simp add: small_album_def) metis
qed

end
