(* ===== verification/Catalog_Crawl.thy ===== *)
theory Catalog_Crawl
  imports Catalog_Db
begin

section \<open>Crawling a dump channel into the catalog\<close>

text \<open>
  \<^verbatim>\<open>bot/catalog/indexer.go\<close> (\<^verbatim>\<open>IndexDump\<close>) and the fetcher behind it,
  \<^verbatim>\<open>bot/dump_index.go\<close> (\<^verbatim>\<open>FetchOlder\<close>).  The crawler relies on its fetcher through the locale
  \<open>message_fetcher\<close>; the fetcher over a channel's history is shown to be one.  Cancellation is
  an argument: \<open>stop off\<close> and \<open>pause_stop off\<close> say whether the context is done at the top of
  the page that starts below \<open>off\<close>, and during the pause after it.
\<close>

subsection \<open>Messages and the fetcher (dump\_index.go)\<close>

record crawled =
  cmID :: int
  cmCaption :: string
  cmFileUnique :: string
  cmFileName :: string
  cmSize :: int

text \<open>A raw channel message: \<^verbatim>\<open>*tg.Message\<close> or a service message, perhaps with a document.\<close>

record tg_document =
  docID :: int
  docSize :: int
  docFileNames :: "string list"

record raw_msg =
  rawID :: int
  rawIsMessage :: bool
  rawText :: string
  rawDoc :: "tg_document option"

datatype history_resp = HistoryError | HistoryNotModified | HistoryMessages "raw_msg list"

definition historyMessages :: "history_resp \<Rightarrow> raw_msg list option" where
  "historyMessages res = (case res of HistoryMessages ms \<Rightarrow> Some ms | _ \<Rightarrow> None)"

definition filenameOf :: "tg_document \<Rightarrow> string" where
  "filenameOf d = (case docFileNames d of [] \<Rightarrow> [] | n # _ \<Rightarrow> n)"

definition to_crawled :: "raw_msg \<Rightarrow> crawled" where
  "to_crawled mc =
     (let cm = \<lparr>cmID = rawID mc, cmCaption = [], cmFileUnique = [], cmFileName = [], cmSize = 0\<rparr>
      in if rawIsMessage mc then
           (let cm1 = cm\<lparr>cmCaption := rawText mc\<rparr>
            in case rawDoc mc of
                 None \<Rightarrow> cm1
               | Some d \<Rightarrow> cm1\<lparr>cmFileUnique := itoa (docID d), cmSize := docSize d,
                               cmFileName := filenameOf d\<rparr>)
         else cm)"

definition FetchOlder ::
  "bool \<Rightarrow> (int \<Rightarrow> nat \<Rightarrow> history_resp) \<Rightarrow> int \<Rightarrow> nat \<Rightarrow> crawled list option" where
  "FetchOlder ready getHistory offsetID limit =
     (if \<not> ready then None
      else case getHistory offsetID limit of
             HistoryError \<Rightarrow> None
           | res \<Rightarrow> (case historyMessages res of
                       None \<Rightarrow> Some []
                     | Some raw \<Rightarrow> Some (map to_crawled raw)))"

lemma cmID_to_crawled [simp]: "cmID (to_crawled r) = rawID r"
  by (simp add: to_crawled_def Let_def split: option.split)

subsection \<open>The crawl (indexer.go)\<close>

definition crawlPageSize :: nat where "crawlPageSize = 100"

record crawl =
  wCat :: catalog
  wIndexed :: nat
  wNewest :: int
  wOffset :: int

datatype crawl_error = CrawlCancelled | CrawlFetch | CrawlDb

definition crawl_meta :: "crawled \<Rightarrow> track_meta \<Rightarrow> track_meta" where
  "crawl_meta msg m = (if mSizeBytes m = 0 then m\<lparr>mSizeBytes := cmSize msg\<rparr> else m)"

text \<open>The body of the loop over one page, for a message above the checkpoint.\<close>

definition index_msg :: "bool \<Rightarrow> int \<Rightarrow> int \<Rightarrow> crawled \<Rightarrow> crawl \<Rightarrow> crawl_error + crawl" where
  "index_msg up now dumpID msg w =
     (case ParseCaption (cmCaption msg) of
        None \<Rightarrow> Inr w
      | Some meta \<Rightarrow>
          (case UpsertTrack up now (wCat w) dumpID (cmID msg) (crawl_meta msg meta)
                  (cmFileUnique msg) (cmCaption msg) of
             Inl e \<Rightarrow> Inl CrawlDb
           | Inr c \<Rightarrow> Inr (w\<lparr>wCat := c, wIndexed := Suc (wIndexed w)\<rparr>)))"

definition see_newest :: "crawled \<Rightarrow> crawl \<Rightarrow> crawl" where
  "see_newest msg w = (if wNewest w < cmID msg then w\<lparr>wNewest := cmID msg\<rparr> else w)"

text \<open>One page: the state after it, whether the checkpoint was reached, or the error and the state so far.\<close>

fun index_page ::
  "(int \<Rightarrow> bool) \<Rightarrow> (int \<Rightarrow> int) \<Rightarrow> int \<Rightarrow> int \<Rightarrow> crawled list \<Rightarrow> crawl \<Rightarrow> (crawl_error \<times> crawl) + (crawl \<times> bool)" where
  "index_page up now dumpID checkpoint [] w = Inr (w, False)"
| "index_page up now dumpID checkpoint (msg # msgs) w =
     (let w1 = w\<lparr>wOffset := cmID msg\<rparr>
      in if cmID msg \<le> checkpoint then Inr (w1, True)
         else case index_msg (up (cmID msg)) (now (cmID msg)) dumpID msg w1 of
                Inl e \<Rightarrow> Inl (e, w1)
              | Inr w2 \<Rightarrow> index_page up now dumpID checkpoint msgs (see_newest msg w2))"

text \<open>The page loop, with fuel: \<^const>\<open>None\<close> is a crawl that has not ended within the fuel.\<close>

fun crawl_loop ::
  "nat \<Rightarrow> (int \<Rightarrow> nat \<Rightarrow> crawled list option) \<Rightarrow> (int \<Rightarrow> bool) \<Rightarrow> (int \<Rightarrow> bool) \<Rightarrow> (int \<Rightarrow> bool) \<Rightarrow> (int \<Rightarrow> int) \<Rightarrow>
   int \<Rightarrow> int \<Rightarrow> crawl \<Rightarrow> (crawl_error option \<times> crawl) option" where
  "crawl_loop 0 fetch stop pause_stop up now dumpID checkpoint w = None"
| "crawl_loop (Suc n) fetch stop pause_stop up now dumpID checkpoint w =
     (if stop (wOffset w) then Some (Some CrawlCancelled, w)
      else case fetch (wOffset w) crawlPageSize of
             None \<Rightarrow> Some (Some CrawlFetch, w)
           | Some [] \<Rightarrow> Some (None, w)
           | Some msgs \<Rightarrow>
               (case index_page up now dumpID checkpoint msgs w of
                  Inl (e, w') \<Rightarrow> Some (Some e, w')
                | Inr (w', reached) \<Rightarrow>
                    if reached then Some (None, w')
                    else if pause_stop (wOffset w') then Some (Some CrawlCancelled, w')
                    else crawl_loop n fetch stop pause_stop up now dumpID checkpoint w'))"

text \<open>The whole of \<^verbatim>\<open>IndexDump\<close>: the error, the number indexed, and the catalog it leaves.\<close>

definition IndexDump ::
  "nat \<Rightarrow> (int \<Rightarrow> nat \<Rightarrow> crawled list option) \<Rightarrow> (int \<Rightarrow> bool) \<Rightarrow> (int \<Rightarrow> bool) \<Rightarrow> (int \<Rightarrow> bool) \<Rightarrow> (int \<Rightarrow> int) \<Rightarrow>
   bool \<Rightarrow> bool \<Rightarrow> int \<Rightarrow> catalog \<Rightarrow> (crawl_error option \<times> nat \<times> catalog) option" where
  "IndexDump fuel fetch stop pause_stop up now up_read up_write dumpID c =
     (case dumpCheckpoint up_read c dumpID of
        Inl e \<Rightarrow> Some (Some CrawlDb, 0, c)
      | Inr checkpoint \<Rightarrow>
          (case crawl_loop fuel fetch stop pause_stop up now dumpID checkpoint
                  \<lparr>wCat = c, wIndexed = 0, wNewest = checkpoint, wOffset = 0\<rparr> of
             None \<Rightarrow> None
           | Some (Some e, w) \<Rightarrow> Some (Some e, wIndexed w, wCat w)
           | Some (None, w) \<Rightarrow>
               if checkpoint < wNewest w then
                 (case setDumpCheckpoint up_write (wCat w) dumpID (wNewest w) of
                    Inl e \<Rightarrow> Some (Some CrawlDb, wIndexed w, wCat w)
                  | Inr c' \<Rightarrow> Some (None, wIndexed w, c'))
               else Some (None, wIndexed w, wCat w)))"

subsection \<open>What one pass over the new messages does\<close>

definition index_one :: "(int \<Rightarrow> int) \<Rightarrow> int \<Rightarrow> crawl \<Rightarrow> crawled \<Rightarrow> crawl" where
  "index_one now dumpID w msg =
     (case index_msg True (now (cmID msg)) dumpID msg (w\<lparr>wOffset := cmID msg\<rparr>) of
        Inl e \<Rightarrow> w | Inr w' \<Rightarrow> see_newest msg w')"

definition index_all :: "(int \<Rightarrow> int) \<Rightarrow> int \<Rightarrow> crawled list \<Rightarrow> crawl \<Rightarrow> crawl" where
  "index_all now dumpID msgs w = foldl (index_one now dumpID) w msgs"

lemma index_msg_up: "\<exists>w'. index_msg True now d msg w = Inr w'"
  by (auto simp: index_msg_def UpsertTrack_def Let_def split: option.split)

lemma index_all_simps [simp]:
  "index_all now d [] w = w"
  "index_all now d (m # ms) w = index_all now d ms (index_one now d w m)"
  "index_all now d (xs @ ys) w = index_all now d ys (index_all now d xs w)"
  by (simp_all add: index_all_def)

lemma wOffset_index_msg: "index_msg up now d msg w = Inr w' \<Longrightarrow> wOffset w' = wOffset w"
  by (auto simp: index_msg_def split: option.splits sum.splits)

lemma wOffset_index_one [simp]: "wOffset (index_one now d w m) = cmID m"
proof -
  obtain w' where w': "index_msg True (now (cmID m)) d m (w\<lparr>wOffset := cmID m\<rparr>) = Inr w'"
    using index_msg_up by blast
  with wOffset_index_msg [OF w'] show ?thesis by (simp add: index_one_def see_newest_def)
qed

lemma wOffset_index_all: "ms \<noteq> [] \<Longrightarrow> wOffset (index_all now d ms w) = cmID (last ms)"
  by (induction ms arbitrary: w) auto

lemma index_page_all:
  assumes "\<forall>m\<in>set ms. cp < cmID m"
  shows "index_page (\<lambda>_. True) now d cp ms w = Inr (index_all now d ms w, False)"
  using assms
proof (induction ms arbitrary: w)
  case (Cons m ms)
  obtain w' where "index_msg True (now (cmID m)) d m (w\<lparr>wOffset := cmID m\<rparr>) = Inr w'"
    using index_msg_up by blast
  with Cons show ?case by (simp add: Let_def index_one_def)
qed simp

lemma index_page_reached:
  assumes "\<forall>m\<in>set ms. cp < cmID m" "cmID x \<le> cp"
  shows "index_page (\<lambda>_. True) now d cp (ms @ x # ys) w
     = Inr ((index_all now d ms w)\<lparr>wOffset := cmID x\<rparr>, True)"
  using assms
proof (induction ms arbitrary: w)
  case (Cons m ms)
  obtain w' where "index_msg True (now (cmID m)) d m (w\<lparr>wOffset := cmID m\<rparr>) = Inr w'"
    using index_msg_up by blast
  with Cons show ?case by (simp add: Let_def index_one_def)
qed simp

subsection \<open>The fetcher's contract and the crawl over it\<close>

text \<open>
  What \<^verbatim>\<open>IndexDump\<close> expects of a fetcher: pages of at most the limit, newest first, of the
  messages older than the offset (all of them for offset 0), over a history \<open>hist\<close> with
  positive ids in strictly descending order.
\<close>

locale message_fetcher =
  fixes fetch :: "int \<Rightarrow> nat \<Rightarrow> crawled list option"
    and hist :: "crawled list"
  assumes fetch_page: "fetch off lim = Some (take lim (filter (\<lambda>m. off = 0 \<or> cmID m < off) hist))"
    and hist_desc: "sorted_wrt (\<lambda>a b. cmID b < cmID a) hist"
    and hist_pos: "\<forall>m\<in>set hist. 0 < cmID m"

context message_fetcher begin

lemma older_than_split:
  assumes "hist = xs @ x # ys"
  shows "filter (\<lambda>m. cmID m < cmID x) hist = ys"
proof -
  from hist_desc assms have "\<forall>m\<in>set xs. cmID x < cmID m" "\<forall>m\<in>set ys. cmID m < cmID x"
    by (auto simp: sorted_wrt_append)
  then show ?thesis using assms by (fastforce simp: filter_empty_conv filter_id_conv)
qed

lemma fetch_rest:
  assumes "hist = pre @ rest" and "w0 = (if pre = [] then 0 else cmID (last pre))"
  shows "fetch w0 lim = Some (take lim rest)"
proof (cases pre rule: rev_cases)
  case Nil
  with assms show ?thesis by (simp add: fetch_page)
next
  case (snoc xs x)
  with assms have "cmID x \<noteq> 0" using hist_pos by auto
  with snoc assms older_than_split [of xs x rest] show ?thesis by (simp add: fetch_page)
qed

lemma crawl_loop_rest:
  assumes "hist = pre @ rest" "wOffset w = (if pre = [] then 0 else cmID (last pre))"
    and "length rest < fuel"
  shows "\<exists>w'. crawl_loop fuel fetch (\<lambda>_. False) (\<lambda>_. False) (\<lambda>_. True) now d cp w = Some (None, w') \<and>
     w'\<lparr>wOffset := 0\<rparr> = (index_all now d (takeWhile (\<lambda>m. cp < cmID m) rest) w)\<lparr>wOffset := 0\<rparr>"
  using assms
proof (induction fuel arbitrary: pre rest w)
  case (Suc n)
  let ?page = "take crawlPageSize rest"
  have f: "fetch (wOffset w) crawlPageSize = Some ?page"
    by (rule fetch_rest [OF Suc.prems(1,2)])
  show ?case
  proof (cases "rest = []")
    case True
    with f show ?thesis by simp
  next
    case False
    then obtain p ps where page: "?page = p # ps" by (cases rest) (auto simp: crawlPageSize_def)
    show ?thesis
    proof (cases "\<forall>m\<in>set ?page. cp < cmID m")
      case True
      let ?w = "index_all now d ?page w"
      have tw: "takeWhile (\<lambda>m. cp < cmID m) rest
          = ?page @ takeWhile (\<lambda>m. cp < cmID m) (drop crawlPageSize rest)"
        using takeWhile_append2 [of ?page "\<lambda>m. cp < cmID m" "drop crawlPageSize rest"] True by simp
      have "wOffset ?w = cmID (last ?page)"
        using page by (intro wOffset_index_all) simp
      then have off: "wOffset ?w = (if pre @ ?page = [] then 0 else cmID (last (pre @ ?page)))"
        using page by simp
      have len: "length (drop crawlPageSize rest) < n"
        using Suc.prems(3) False by (cases rest) (auto simp: crawlPageSize_def)
      have app: "hist = (pre @ ?page) @ drop crawlPageSize rest" using Suc.prems(1) by simp
      obtain w' where "crawl_loop n fetch (\<lambda>_. False) (\<lambda>_. False) (\<lambda>_. True) now d cp ?w = Some (None, w')"
        "w'\<lparr>wOffset := 0\<rparr> = (index_all now d (takeWhile (\<lambda>m. cp < cmID m) (drop crawlPageSize rest)) ?w)\<lparr>wOffset := 0\<rparr>"
        using Suc.IH [OF app off len] by blast
      with f page index_page_all [OF True, of now d w] tw show ?thesis by simp
    next
      case False
      then obtain xs x ys where split: "?page = xs @ x # ys" "\<forall>m\<in>set xs. cp < cmID m" "\<not> cp < cmID x"
        using split_list_first_prop [of ?page "\<lambda>m. \<not> cp < cmID m"] by auto
      obtain zs where zs: "rest = xs @ x # zs"
        using split(1) append_take_drop_id [of crawlPageSize rest] by (metis append_Cons append_assoc)
      then have tw: "takeWhile (\<lambda>m. cp < cmID m) rest = xs"
        using takeWhile_split [OF split(2,3)] by simp
      with f page index_page_reached [OF split(2), of x now d ys w] split(1,3)
      show ?thesis by simp
    qed
  qed
qed simp

text \<open>The paged crawl is one pass over the messages above the checkpoint.\<close>

lemma crawl_loop_complete:
  assumes "wOffset w = 0" "length hist < fuel"
  shows "\<exists>w'. crawl_loop fuel fetch (\<lambda>_. False) (\<lambda>_. False) (\<lambda>_. True) now d cp w = Some (None, w') \<and>
     w'\<lparr>wOffset := 0\<rparr> = (index_all now d (filter (\<lambda>m. cp < cmID m) hist) w)\<lparr>wOffset := 0\<rparr>"
proof -
  have "takeWhile (\<lambda>m. cp < cmID m) hist = filter (\<lambda>m. cp < cmID m) hist"
    using hist_desc by (induction hist) (auto intro!: filter_False [symmetric])
  then show ?thesis using crawl_loop_rest [of "[]" hist w fuel now d cp] assms by simp
qed

end

subsection \<open>A channel's history behind the fetcher\<close>

text \<open>
  \<^verbatim>\<open>messages.getHistory\<close> of a channel, as documented: up to \<^verbatim>\<open>limit\<close> messages with an id
  below the offset, newest first.  The channel is the messages posted, kept newest first.
\<close>

fun post_msg :: "raw_msg \<Rightarrow> raw_msg list \<Rightarrow> raw_msg list" where
  "post_msg r [] = (if 0 < rawID r then [r] else [])"
| "post_msg r (x # xs) =
     (if rawID x < rawID r then (if 0 < rawID r then r # x # xs else x # xs)
      else if rawID x = rawID r then x # xs else x # post_msg r xs)"

definition channel :: "raw_msg list \<Rightarrow> raw_msg list" where
  "channel posts = fold post_msg posts []"

definition tg_history :: "raw_msg list \<Rightarrow> int \<Rightarrow> nat \<Rightarrow> history_resp" where
  "tg_history ch off lim = HistoryMessages (take lim (filter (\<lambda>r. off = 0 \<or> rawID r < off) ch))"

definition channel_ok :: "raw_msg list \<Rightarrow> bool" where
  "channel_ok ch = (sorted_wrt (\<lambda>a b. rawID b < rawID a) ch \<and> (\<forall>r\<in>set ch. 0 < rawID r))"

lemma set_post_msg: "set (post_msg r ch) \<subseteq> insert r (set ch)"
  by (induction ch) auto

lemma post_msg_ok: "channel_ok ch \<Longrightarrow> channel_ok (post_msg r ch)"
proof (induction ch)
  case (Cons x xs)
  then have "channel_ok (post_msg r xs)" by (simp add: channel_ok_def)
  then show ?case
    using Cons.prems set_post_msg [of r xs] by (force simp: channel_ok_def)
qed (simp add: channel_ok_def)

lemma channel_ok: "channel_ok (channel posts)"
proof -
  have "channel_ok ch \<Longrightarrow> channel_ok (fold post_msg posts ch)" for ch
    by (induction posts arbitrary: ch) (auto simp: post_msg_ok)
  moreover have "channel_ok []" by (simp add: channel_ok_def)
  ultimately show ?thesis by (simp add: channel_def)
qed

lemma FetchOlder_history:
  "FetchOlder True (tg_history ch) off lim
     = Some (take lim (filter (\<lambda>m. off = 0 \<or> cmID m < off) (map to_crawled ch)))"
  by (simp add: FetchOlder_def tg_history_def historyMessages_def take_map filter_map comp_def)

interpretation dump_history:
  message_fetcher "FetchOlder True (tg_history (channel posts))" "map to_crawled (channel posts)"
  for posts
  using channel_ok [of posts]
  by unfold_locales (auto simp: FetchOlder_history channel_ok_def sorted_wrt_map)

lemma message_fetcher_api:
  assumes "channel_ok ch" "\<forall>off lim. api off lim = tg_history ch off lim"
  shows "message_fetcher (FetchOlder True api) (map to_crawled ch)"
proof -
  have "api = tg_history ch" using assms(2) by blast
  then show ?thesis
    using assms(1) by unfold_locales (auto simp: FetchOlder_history channel_ok_def sorted_wrt_map)
qed

subsection \<open>The rows a complete crawl leaves\<close>

definition crawled_row :: "(int \<Rightarrow> int) \<Rightarrow> int \<Rightarrow> crawled \<Rightarrow> track_row option" where
  "crawled_row now d msg =
     (case ParseCaption (cmCaption msg) of
        None \<Rightarrow> None
      | Some meta \<Rightarrow>
          let s = stored_meta (crawl_meta msg meta)
          in if mVariant s = [] then None
             else Some (row_of (now (cmID msg)) d (cmID msg) s (cmFileUnique msg) (cmCaption msg)))"

lemma wCat_index_one:
  assumes "cEnabled (wCat w)"
  shows "wCat (index_one now d w msg) =
     (case crawled_row now d msg of
        None \<Rightarrow> wCat w
      | Some r \<Rightarrow> (wCat w)\<lparr>cTracks := put_row r (cTracks (wCat w))\<rparr>)"
  using assms
  by (auto simp: index_one_def index_msg_def crawled_row_def UpsertTrack_def see_newest_def Let_def
      split: option.split)

lemma wNewest_index_one [simp]: "wNewest (index_one now d w m) = max (wNewest w) (cmID m)"
proof -
  obtain w' where w': "index_msg True (now (cmID m)) d m (w\<lparr>wOffset := cmID m\<rparr>) = Inr w'"
    using index_msg_up by blast
  then have "wNewest w' = wNewest w"
    by (auto simp: index_msg_def split: option.splits sum.splits)
  with w' show ?thesis by (simp add: index_one_def see_newest_def)
qed

lemma wNewest_index_all: "wNewest (index_all now d ms w) = foldl max (wNewest w) (map cmID ms)"
  by (induction ms arbitrary: w) auto

lemma cEnabled_index_all:
  "cEnabled (wCat w) \<Longrightarrow> cEnabled (wCat (index_all now d ms w)) \<and> cDumps (wCat (index_all now d ms w)) = cDumps (wCat w)"
proof (induction ms arbitrary: w)
  case (Cons m ms)
  have "cEnabled (wCat (index_one now d w m)) \<and> cDumps (wCat (index_one now d w m)) = cDumps (wCat w)"
    using Cons.prems by (simp add: wCat_index_one split: option.split)
  with Cons.IH [of "index_one now d w m"] show ?case by simp
qed simp

lemma crawled_row_key: "crawled_row now d m = Some r \<Longrightarrow> row_key r = (d, cmID m)"
  by (auto simp: crawled_row_def row_key_def row_of_def Let_def split: option.splits if_splits)

lemma index_all_rows:
  assumes "cEnabled (wCat w)" "distinct (map cmID ms)" "m \<in> set ms" "crawled_row now d m = Some r"
  shows "r \<in> set (cTracks (wCat (index_all now d ms w)))"
  using assms
proof (induction ms rule: rev_induct)
  case (snoc x ms)
  let ?w = "index_all now d ms w"
  have en: "cEnabled (wCat ?w)" using snoc.prems(1) cEnabled_index_all by blast
  show ?case
  proof (cases "m = x")
    case True
    with snoc.prems(4) put_row_mem [of r] show ?thesis by (simp add: wCat_index_one [OF en])
  next
    case False
    with snoc have old: "r \<in> set (cTracks (wCat ?w))" by simp
    show ?thesis
    proof (cases "crawled_row now d x")
      case None
      with old show ?thesis by (simp add: wCat_index_one [OF en])
    next
      case (Some s)
      have "row_key r \<noteq> row_key s"
        using crawled_row_key [OF snoc.prems(4)] crawled_row_key [OF Some] snoc.prems(2,3) False
        by (auto simp: image_iff)
      with old Some put_row_other [of r s] show ?thesis by (simp add: wCat_index_one [OF en])
    qed
  qed
qed simp

lemma index_all_other_dump:
  assumes "cEnabled (wCat w)" "rDump r \<noteq> d"
  shows "r \<in> set (cTracks (wCat (index_all now d ms w))) \<longleftrightarrow> r \<in> set (cTracks (wCat w))"
  using assms
proof (induction ms arbitrary: w)
  case (Cons m ms)
  have "cEnabled (wCat (index_one now d w m))"
    using Cons.prems by (simp add: wCat_index_one split: option.split)
  moreover have "r \<in> set (cTracks (wCat (index_one now d w m))) \<longleftrightarrow> r \<in> set (cTracks (wCat w))"
  proof (cases "crawled_row now d m")
    case (Some s)
    have "row_key r \<noteq> row_key s"
      using crawled_row_key [OF Some] Cons.prems(2) by (simp add: row_key_def)
    then show ?thesis using Some Cons.prems(1) by (simp add: wCat_index_one put_row_other)
  qed (simp add: wCat_index_one Cons.prems(1))
  ultimately show ?case using Cons.IH [of "index_one now d w m"] Cons.prems by simp
qed simp

lemma foldl_max_mono: "(x::int) \<le> foldl max x xs"
proof (induction xs arbitrary: x)
  case (Cons z zs)
  have "x \<le> max x z" by simp
  also have "\<dots> \<le> foldl max (max x z) zs" by (rule Cons.IH)
  finally show ?case by simp
qed simp

lemma foldl_max_ge: "y \<in> set xs \<Longrightarrow> y \<le> foldl max (x::int) xs"
proof (induction xs arbitrary: x)
  case (Cons z zs)
  then show ?case using foldl_max_mono [of "max x z" zs] by auto
qed simp

lemma foldl_max_in: "foldl max (x::int) xs \<in> insert x (set xs)"
proof (induction xs arbitrary: x)
  case (Cons z zs)
  from Cons [of "max x z"] show ?case by (auto simp: max_def split: if_splits)
qed simp

lemma IndexDump_up:
  assumes "message_fetcher fetch hist" "length hist < fuel" "cEnabled c" "cDumps c d = Some dr"
  shows "\<exists>n w. IndexDump fuel fetch (\<lambda>_. False) (\<lambda>_. False) (\<lambda>_. True) now True True d c
             = Some (None, n, (wCat w)\<lparr>cDumps := (cDumps c)(d \<mapsto> dr\<lparr>dLastMsg := wNewest w\<rparr>)\<rparr>) \<and>
           w = index_all now d (filter (\<lambda>m. dLastMsg dr < cmID m) hist)
                 \<lparr>wCat = c, wIndexed = 0, wNewest = dLastMsg dr, wOffset = 0\<rparr>"
proof -
  let ?start = "\<lparr>wCat = c, wIndexed = 0, wNewest = dLastMsg dr, wOffset = 0\<rparr>"
  let ?ms = "filter (\<lambda>m. dLastMsg dr < cmID m) hist"
  let ?w = "index_all now d ?ms ?start"
  have off0: "wOffset ?start = 0" by simp
  obtain w' where w': "crawl_loop fuel fetch (\<lambda>_. False) (\<lambda>_. False) (\<lambda>_. True) now d (dLastMsg dr) ?start = Some (None, w')"
    "w'\<lparr>wOffset := 0\<rparr> = ?w\<lparr>wOffset := 0\<rparr>"
    using message_fetcher.crawl_loop_complete [OF assms(1) off0 assms(2), of now d "dLastMsg dr"] by blast
  from w'(2) have eq: "wCat w' = wCat ?w" "wNewest w' = wNewest ?w" "wIndexed w' = wIndexed ?w"
    by (metis crawl.select_convs(1-3) crawl.surjective crawl.update_convs(4))+
  have en: "cEnabled (wCat ?w)" "cDumps (wCat ?w) = cDumps c"
    using cEnabled_index_all [of ?start] assms(3) by simp_all
  have ge: "dLastMsg dr \<le> wNewest ?w"
    using foldl_max_mono [of "dLastMsg dr"] by (simp add: wNewest_index_all)
  have same: "(wCat ?w) = (wCat ?w)\<lparr>cDumps := (cDumps c)(d \<mapsto> dr\<lparr>dLastMsg := wNewest ?w\<rparr>)\<rparr>"
    if "\<not> dLastMsg dr < wNewest ?w"
  proof -
    have "wNewest ?w = dLastMsg dr" using that ge by simp
    then have "(cDumps c)(d \<mapsto> dr\<lparr>dLastMsg := wNewest ?w\<rparr>) = cDumps (wCat ?w)"
      using assms(4) en(2) by (simp add: map_upd_triv)
    then show ?thesis by (simp del: fun_upd_apply)
  qed
  show ?thesis
    using assms(3,4) w'(1) eq en same
    by (auto simp: IndexDump_def dumpCheckpoint_def setDumpCheckpoint_def)
qed


text \<open>A channel of one service message and one captioned track, crawled from an empty catalog.\<close>

definition sample_channel :: "raw_msg list" where
  "sample_channel =
     [\<lparr>rawID = 9, rawIsMessage = True, rawText = FormatCaption sample_meta,
       rawDoc = Some \<lparr>docID = 4, docSize = 10, docFileNames = [''a.m4a'']\<rparr>\<rparr>,
      \<lparr>rawID = 8, rawIsMessage = False, rawText = [], rawDoc = None\<rparr>]"

definition one_dump :: catalog where
  "one_dump = empty_catalog\<lparr>cDumps := [1 \<mapsto> \<lparr>dAccessHash = 2, dTitle = ''d'', dKind = ''own'', dLastMsg = 0\<rparr>]\<rparr>"


end
