(* ===== verification/Quota_Mirror.thy ===== *)
theory Quota_Mirror
  imports Quota
begin

section \<open>What the quota mirror gives back after a restart\<close>

text \<open>
  The rows of \<^verbatim>\<open>catalog/quota.go\<close> against the memory of \<^verbatim>\<open>quota.go\<close>: as long as the inserts
  reach the database, every charge that counts has a row that counts, whatever happens to the
  asynchronous commit and refund writes, so \<^verbatim>\<open>quotaLoadBoot\<close> restores at least the usage
  that was enforced.  A lost insert is forgotten at the next restart.
\<close>

definition mirrored :: "catalog \<Rightarrow> string \<Rightarrow> charge \<Rightarrow> bool" where
  "mirrored c i ch = (\<exists>r\<in>set (cQuota c). qChargeID r = i \<and> qUserID r = chUser ch \<and> qKind r = chKind ch \<and>
     qDay r = chDay ch \<and> qState r \<noteq> quotaRefunded)"

definition pending_ok :: "ledger \<Rightarrow> bool" where
  "pending_ok q = (\<forall>(i, st, d)\<in>set (lgPending q). st \<in> {quotaCommitted, quotaRefunded} \<and>
     (case lgCharges q i of None \<Rightarrow> True | Some ch \<Rightarrow> chState ch = st))"

definition mirror_ok :: "ledger \<Rightarrow> bool" where
  "mirror_ok q = (\<exists>c. lgCat q = Some c \<and> cEnabled c \<and> quota_rows_ok c \<and>
     (\<forall>i ch. lgCharges q i = Some ch \<longrightarrow> chState ch \<noteq> quotaRefunded \<longrightarrow> mirrored c i ch))"

text \<open>The finalising update keeps a row that counts unless it is the refund of that very charge.\<close>

lemma mirrored_finalize:
  assumes "mirrored c i ch" "quotaFinalize up c j st d = Inr c'" "st = quotaRefunded \<longrightarrow> j \<noteq> i"
  shows "mirrored c' i ch"
proof -
  from assms(1) obtain r where r: "r \<in> set (cQuota c)" "qChargeID r = i" "qUserID r = chUser ch"
    "qKind r = chKind ch" "qDay r = chDay ch" "qState r \<noteq> quotaRefunded"
    by (auto simp: mirrored_def)
  let ?f = "\<lambda>r. if qChargeID r = j \<and> qState r = ''open'' then r\<lparr>qState := st, qDelivered := d\<rparr> else r"
  have "c' = c \<or> c' = c\<lparr>cQuota := map ?f (cQuota c)\<rparr>"
    using assms(2) by (auto simp: quotaFinalize_def split: if_splits)
  then show ?thesis
  proof
    assume c': "c' = c\<lparr>cQuota := map ?f (cQuota c)\<rparr>"
    have "?f r \<in> set (cQuota c')" using r(1) c' by simp
    moreover have "qState (?f r) \<noteq> quotaRefunded" using r assms(3) by auto
    ultimately show ?thesis using r unfolding mirrored_def by (intro bexI [of _ "?f r"]) auto
  qed (use assms(1) in simp)
qed

lemma mirrored_insert: "mirrored c i ch \<Longrightarrow> QuotaInsertCharge up c j u k d n = Inr c' \<Longrightarrow> mirrored c' i ch"
  by (auto simp: mirrored_def QuotaInsertCharge_def split: if_splits)

lemma mirrored_prune:
  "mirrored c i ch \<Longrightarrow> QuotaPruneBefore up c d = Inr c' \<Longrightarrow> d \<le> chDay ch \<Longrightarrow> mirrored c' i ch"
  by (auto simp: mirrored_def QuotaPruneBefore_def split: if_splits)

lemma persist_mirror:
  assumes "lgCat q = Some c" "cEnabled c" "quota_rows_ok c" "st \<in> {quotaCommitted, quotaRefunded}"
  shows "\<exists>c'. lgCat (persist up (i, st, d) q) = Some c' \<and> cEnabled c' \<and> quota_rows_ok c' \<and>
     (\<forall>j ch. mirrored c j ch \<longrightarrow> (st = quotaRefunded \<longrightarrow> j \<noteq> i) \<longrightarrow> mirrored c' j ch)"
proof -
  let ?r = "quotaFinalize up c i st d"
  have r: "(if st = quotaRefunded then QuotaMarkRefunded up c i d else QuotaMarkCommitted up c i d) = ?r"
    using assms(4) by (auto simp: QuotaMarkRefunded_def QuotaMarkCommitted_def quotaRefunded_def quotaCommitted_def)
  show ?thesis
  proof (cases ?r)
    case (Inl e)
    then show ?thesis using assms by (simp add: persist_def r)
  next
    case (Inr c')
    have "st \<in> {''committed'', ''refunded''}" using assms(4) by (simp add: quotaCommitted_def quotaRefunded_def)
    then have "quota_rows_ok c'" using quotaFinalize_ok [OF assms(3) _ Inr] by simp
    moreover have "cEnabled c'" using Inr assms(2) by (auto simp: quotaFinalize_def split: if_splits)
    moreover have "mirrored c' j ch" if "mirrored c j ch" "st = quotaRefunded \<longrightarrow> j \<noteq> i" for j ch
      using mirrored_finalize [OF that(1) Inr] that(2) by blast
    ultimately show ?thesis using Inr assms(1) by (simp add: persist_def r)
  qed
qed

lemma persist_mirror_ok:
  assumes "mirror_ok q" "st \<in> {quotaCommitted, quotaRefunded}"
    and "case lgCharges q i of None \<Rightarrow> True | Some ch \<Rightarrow> chState ch = st"
  shows "mirror_ok (persist up (i, st, d) q)"
proof -
  obtain c where c: "lgCat q = Some c" "cEnabled c" "quota_rows_ok c"
    "\<forall>i ch. lgCharges q i = Some ch \<longrightarrow> chState ch \<noteq> quotaRefunded \<longrightarrow> mirrored c i ch"
    using assms(1) by (auto simp: mirror_ok_def)
  obtain c' where c': "lgCat (persist up (i, st, d) q) = Some c'" "cEnabled c'" "quota_rows_ok c'"
    "\<forall>j ch. mirrored c j ch \<longrightarrow> (st = quotaRefunded \<longrightarrow> j \<noteq> i) \<longrightarrow> mirrored c' j ch"
    using persist_mirror [OF c(1-3) assms(2)] by blast
  have "mirrored c' j ch" if "lgCharges q j = Some ch" "chState ch \<noteq> quotaRefunded" for j ch
    using c(4) c'(4) that assms(3) by fastforce
  with c' show ?thesis by (simp add: mirror_ok_def frame_simps)
qed

lemma charge_mirror_ok:
  assumes "mirror_ok q" "pending_ok q" "new_id gid q"
  shows "mirror_ok (snd (quotaCheckAndCharge gid now True s u username kind q)) \<and>
         pending_ok (snd (quotaCheckAndCharge gid now True s u username kind q))"
proof (cases "snd (quotaCheckAndCharge gid now True s u username kind q) = q")
  case True
  with assms show ?thesis by simp
next
  case False
  obtain c where c: "lgCat q = Some c" "cEnabled c" "quota_rows_ok c"
    "\<forall>i ch. lgCharges q i = Some ch \<longrightarrow> chState ch \<noteq> quotaRefunded \<longrightarrow> mirrored c i ch"
    using assms(1) by (auto simp: mirror_ok_def)
  let ?ch = "\<lparr>chUser = u, chKind = kind, chDay = quotaDay now, chState = quotaOpen\<rparr>"
  let ?row = "\<lparr>qChargeID = gid, qUserID = u, qKind = kind, qDay = quotaDay now, qState = ''open'',
               qReleases = 0, qDelivered = 0\<rparr>"
  let ?c = "c\<lparr>cQuota := cQuota c @ [?row]\<rparr>"
  let ?q = "snd (quotaCheckAndCharge gid now True s u username kind q)"
  have fresh: "gid \<notin> qChargeID ` set (cQuota c)" "lgCharges q gid = None" "gid \<notin> fst ` set (lgPending q)"
    using assms(3) c(1) by (auto simp: new_id_def)
  then have ins: "QuotaInsertCharge True c gid u kind (quotaDay now) 0 = Inr ?c"
    using c(2) by (auto simp: QuotaInsertCharge_def image_iff)
  have q: "lgCat ?q = Some ?c" "lgCharges ?q = (lgCharges q)(gid \<mapsto> ?ch)" "lgPending ?q = lgPending q"
    using False ins c(1)
    by (auto simp: quotaCheckAndCharge_def Let_def frame_simps split: if_splits) (simp add: insert_charge_def)
  have rows: "quota_rows_ok ?c" using c(3) fresh(1) by (auto simp: quota_rows_ok_def)
  have "mirrored ?c i ch" if "lgCharges ?q i = Some ch" "chState ch \<noteq> quotaRefunded" for i ch
  proof (cases "i = gid")
    case True
    with that q(2) show ?thesis by (auto simp: mirrored_def quotaRefunded_def)
  next
    case False
    with that q(2) c(4) show ?thesis using mirrored_insert [OF _ ins] by auto
  qed
  then have "mirror_ok ?q" using q c(2) rows by (simp add: mirror_ok_def)
  moreover have "lgCharges ?q (fst w) = lgCharges q (fst w)" if "w \<in> set (lgPending q)" for w
    using that fresh(3) by (auto simp: q)
  then have "pending_ok ?q"
    using assms(2) unfolding pending_ok_def q(3) by (auto simp del: q(2))
  ultimately show ?thesis ..
qed

lemma settle_mirror_ok:
  assumes "mirror_ok q" "pending_ok q" "st \<in> {quotaCommitted, quotaRefunded}"
  shows "mirror_ok (quotaSetState up i st d sync q) \<and> pending_ok (quotaSetState up i st d sync q)"
proof (cases "settle i st q")
  case None
  with assms show ?thesis by (simp add: quotaSetState_def)
next
  case (Some q1)
  obtain c where c: "lgCharges q i = Some c" "chState c = quotaOpen"
    "lgCharges q1 = (lgCharges q)(i \<mapsto> c\<lparr>chState := st\<rparr>)" "lgCat q1 = lgCat q" "lgPending q1 = lgPending q"
    using settle_charges [OF Some] by blast
  have not_pending: "i \<notin> fst ` set (lgPending q)"
    using assms(2) c(1,2) by (fastforce simp: pending_ok_def)
  have m1: "mirror_ok q1"
    using assms(1) c assms(3) by (fastforce simp: mirror_ok_def mirrored_def split: if_splits)
  have p1: "pending_ok q1"
    using assms(2) not_pending c(3,5) by (fastforce simp: pending_ok_def image_iff split: option.splits)
  show ?thesis
  proof (cases sync)
    case True
    have "mirror_ok (persist up (i, st, d) q1)"
      using assms(3) c(3) by (intro persist_mirror_ok [OF m1]) simp_all
    with True Some p1 show ?thesis by (simp add: quotaSetState_def pending_ok_def frame_simps)
  next
    case False
    have "pending_ok (q1\<lparr>lgPending := lgPending q1 @ [(i, st, d)]\<rparr>)"
      using p1 assms(3) c(3) by (auto simp: pending_ok_def)
    with False Some m1 show ?thesis by (simp add: quotaSetState_def mirror_ok_def)
  qed
qed

lemma quotaPrune_mirror_ok:
  assumes "mirror_ok q"
  shows "mirror_ok (quotaPrune up now q)"
proof -
  obtain c where c: "lgCat q = Some c" "cEnabled c" "quota_rows_ok c"
    "\<forall>i ch. lgCharges q i = Some ch \<longrightarrow> chState ch \<noteq> quotaRefunded \<longrightarrow> mirrored c i ch"
    using assms by (auto simp: mirror_ok_def)
  let ?day = "quotaDay now" and ?q = "quotaPrune up now q"
  obtain c' where c': "lgCat ?q = Some c'" "cEnabled c'" "quota_rows_ok c'"
    "\<And>i ch. mirrored c i ch \<Longrightarrow> chDay ch = ?day \<Longrightarrow> mirrored c' i ch"
  proof (cases "QuotaPruneBefore up c ?day")
    case (Inl e)
    then have "lgCat ?q = Some c" using c(1) by (simp add: quotaPrune_def Let_def)
    with c that show thesis by blast
  next
    case (Inr c')
    then have "lgCat ?q = Some c'" using c(1) by (simp add: quotaPrune_def Let_def)
    moreover have "cEnabled c'" using Inr c(2) by (auto simp: QuotaPruneBefore_def split: if_splits)
    moreover have "quota_rows_ok c'" by (rule QuotaPruneBefore_ok [OF c(3) Inr])
    moreover have "\<And>i ch. mirrored c i ch \<Longrightarrow> chDay ch = ?day \<Longrightarrow> mirrored c' i ch"
      using mirrored_prune [OF _ Inr] by simp
    ultimately show thesis using that by blast
  qed
  have "mirrored c' i ch" if "lgCharges ?q i = Some ch" "chState ch \<noteq> quotaRefunded" for i ch
    using that c(4) c'(4) by (auto simp: frame_simps split: option.splits if_splits)
  with c'(1-3) show ?thesis by (simp add: mirror_ok_def)
qed

lemma quotaPrune_pending: "pending_ok q \<Longrightarrow> pending_ok (quotaPrune up now q)"
  by (fastforce simp: pending_ok_def frame_simps split: option.splits)

lemma ledger_step_mirror:
  assumes "ledger_step True q q'" "mirror_ok q" "pending_ok q"
  shows "mirror_ok q' \<and> pending_ok q'"
  using assms
proof (cases rule: ledger_step.cases)
  case (Charge gid up now s u username kind)
  then show ?thesis using charge_mirror_ok [OF assms(2,3)] by simp
next
  case (Settle st up cid delivered sync)
  then show ?thesis using settle_mirror_ok [OF assms(2,3)] by simp
next
  case (Persist w up)
  obtain i st d where w: "w = (i, st, d)" by (cases w) auto
  let ?q = "q\<lparr>lgPending := remove1 w (lgPending q)\<rparr>"
  have m: "mirror_ok ?q" using assms(2) by (simp add: mirror_ok_def)
  have ok: "st \<in> {quotaCommitted, quotaRefunded}" "case lgCharges q i of None \<Rightarrow> True | Some ch \<Rightarrow> chState ch = st"
    using assms(3) Persist(2) w by (auto simp: pending_ok_def)
  have "mirror_ok (persist up (i, st, d) ?q)"
    using ok by (intro persist_mirror_ok [OF m]) simp_all
  moreover have "pending_ok ?q" using assms(3) set_remove1_subset [of w] by (fastforce simp: pending_ok_def)
  ultimately show ?thesis using Persist(1) w by (simp add: pending_ok_def frame_simps)
next
  case (Prune up now)
  then show ?thesis using quotaPrune_mirror_ok [OF assms(2)] quotaPrune_pending [OF assms(3)] by simp
qed

subsection \<open>The restored tally\<close>

lemma restore_usage:
  "cget (lgUsage (fold (restore_charge day live) rs q)) k =
     cget (lgUsage q) k + int (length (filter (\<lambda>r. qState r \<noteq> quotaRefunded \<and> (qUserID r, day, qKind r) = k) rs))"
  by (induction rs arbitrary: q) (auto simp: restore_charge_def Let_def cget_cadd)

text \<open>
  C18: A restart never lowers what a user has used today: in every run in which the charge inserts
  reach the database, whatever became of the commit and refund writes, restoring today's
  rows at boot gives each user and kind at least the tally that was enforced before.
\<close>

theorem restart_keeps_usage:
  assumes "(ledger_step True)\<^sup>*\<^sup>* (no_charges (Some c0)) q" "cEnabled c0" "quota_rows_ok c0"
    and "lgCat q = Some c"
  shows "quotaUsageFor now u kind q \<le> quotaUsageFor now u kind (quotaLoadBoot True now s (no_charges (Some c)))"
proof -
  have "ledger_ok q \<and> mirror_ok q \<and> pending_ok q"
    using assms(1)
  proof (induction rule: rtranclp_induct)
    case base
    show ?case using assms(2,3) by (simp add: mirror_ok_def pending_ok_def) (simp add: no_charges_def)
  next
    case (step q q')
    then show ?case using ledger_step_ok ledger_step_mirror by blast
  qed
  then have ok: "ledger_ok q" and rows: "quota_rows_ok c" "cEnabled c"
    and mir: "\<forall>i ch. lgCharges q i = Some ch \<longrightarrow> chState ch \<noteq> quotaRefunded \<longrightarrow> mirrored c i ch"
    using assms(4) by (auto simp: mirror_ok_def)
  let ?day = "quotaDay now" and ?k = "(u, quotaDay now, kind)"
  let ?rs = "filter (\<lambda>r. qState r \<noteq> quotaRefunded \<and> (qUserID r, ?day, qKind r) = ?k)
               (filter (\<lambda>r. qDay r = ?day) (cQuota c))"
  have "counted q ?k \<subseteq> qChargeID ` set ?rs"
  proof
    fix i
    assume "i \<in> counted q ?k"
    then obtain ch where "lgCharges q i = Some ch" "charge_key ch = ?k" "chState ch \<noteq> quotaRefunded"
      by (auto simp: counted_def)
    moreover from this mir have "mirrored c i ch" by blast
    ultimately show "i \<in> qChargeID ` set ?rs" by (force simp: mirrored_def charge_key_def)
  qed
  then have "card (counted q ?k) \<le> card (qChargeID ` set ?rs)" by (intro card_mono) auto
  also have "\<dots> \<le> length ?rs" using card_image_le [of "set ?rs" qChargeID] card_length [of ?rs] by simp
  finally show ?thesis
    using ledger_tally [OF ok] rows(2)
    by (simp add: quotaUsageFor_def quotaLoadBoot_def QuotaLoadDay_def Let_def restore_usage no_charges_def)
qed

theorem restart_keeps_usage_witness:
  "1 \<le> quotaUsageFor 0 7 ''artist'' (quotaLoadBoot True 0 plain_users (no_charges
     (lgCat (snd (quotaCheckAndCharge ''a1'' 0 True plain_users 7 [] ''artist'' (no_charges (Some empty_catalog)))))))"
proof -
  let ?q = "snd (quotaCheckAndCharge ''a1'' 0 True plain_users 7 [] ''artist'' (no_charges (Some empty_catalog)))"
  have adm: "quotaUsageFor 0 7 ''artist'' ?q = 1"
    by (simp add: quotaCheckAndCharge_def quotaUsageFor_def plain_users_def no_users_def ripLimit_def
        isRestricted_def isUserDonor_def heavyRipLimit_def no_charges_def frame_simps Let_def)
  have step: "ledger_step True (no_charges (Some empty_catalog)) ?q"
    by (rule ledger_step.Charge) (simp_all add: new_id_def no_charges_def empty_catalog_def)
  have c0: "cEnabled empty_catalog" "quota_rows_ok empty_catalog"
    by (simp_all add: empty_catalog_def quota_rows_ok_def)
  obtain c where c: "lgCat ?q = Some c"
    using ledger_step_mirror [OF step] c0
    by (auto simp: mirror_ok_def pending_ok_def) (auto simp: no_charges_def)
  show ?thesis
    using restart_keeps_usage [OF r_into_rtranclp [where r = "ledger_step True", OF step] c0 c,
        of 0 7 "''artist''" plain_users] adm c by simp
qed

text \<open>
  A lost insert is forgotten: when the row of an admitted charge does not reach the database,
  a restart gives the user that slot again, so the limit of one discography per day admits two.
  (\<^verbatim>\<open>quota.go\<close> and \<^verbatim>\<open>catalog/quota.go\<close> say that forgotten usage fails toward the limit.)
\<close>

theorem lost_insert_lifts_limit:
  "(let q1 = snd (quotaCheckAndCharge ''a1'' 0 False plain_users 7 [] ''artist'' (no_charges (Some empty_catalog)));
        q2 = quotaLoadBoot True 60 plain_users (no_charges (lgCat q1))
    in ripLimit plain_users ''artist'' False = 1 \<and> quotaUsageFor 0 7 ''artist'' q1 = 1 \<and>
       snd (fst (quotaCheckAndCharge ''a2'' 60 True plain_users 7 [] ''artist'' q2)) \<and> quotaDay 0 = quotaDay 60)"
  by (simp add: quotaCheckAndCharge_def quotaUsageFor_def plain_users_def no_users_def ripLimit_def
      isRestricted_def isUserDonor_def heavyRipLimit_def no_charges_def insert_charge_def QuotaInsertCharge_def
      quotaLoadBoot_def QuotaLoadDay_def empty_catalog_def quotaDay_def dhaka_offset_def quotaResetHourDhaka_def Let_def)

end
