(* ===== verification/Upload_Pool.thy ===== *)
theory Upload_Pool
  imports Catalog_Meta
begin

section \<open>The upload pool: least-loaded helper accounts\<close>

text \<open>
  \<^verbatim>\<open>bot/pool.go\<close>.  A pool is its helpers in order, each with a load (uploads assigned to it);
  whether a helper's or the main connection is ready is an argument, sampled when it is asked.
  Booting and closing the clients is not modelled.
\<close>

record helper =
  hpLoad :: int

record pool =
  plHasMain :: bool
  plDumpChatID :: int
  plHelpers :: "helper list"

definition Ready :: "bool \<Rightarrow> (nat \<Rightarrow> bool) \<Rightarrow> pool option \<Rightarrow> bool" where
  "Ready main_ready ready p =
     (case p of
        None \<Rightarrow> False
      | Some q \<Rightarrow> plHasMain q \<and> plHelpers q \<noteq> [] \<and> main_ready \<and> (\<exists>i\<in>set [0..<length (plHelpers q)]. ready i))"

definition Size :: "pool option \<Rightarrow> nat" where
  "Size p = (case p of None \<Rightarrow> 0 | Some q \<Rightarrow> length (plHelpers q))"

definition DumpID :: "pool option \<Rightarrow> int" where
  "DumpID p = (case p of None \<Rightarrow> 0 | Some q \<Rightarrow> plDumpChatID q)"

text \<open>The scan over the helpers from index \<open>i\<close>: keep the best so far unless this one is strictly less loaded.\<close>

fun scan_ready :: "(nat \<Rightarrow> bool) \<Rightarrow> helper list \<Rightarrow> nat \<Rightarrow> (nat \<times> int) option \<Rightarrow> (nat \<times> int) option" where
  "scan_ready ready [] i best = best"
| "scan_ready ready (h # hs) i best =
     scan_ready ready hs (Suc i)
       (if \<not> ready i then best
        else case best of
               None \<Rightarrow> Some (i, hpLoad h)
             | Some (b, m) \<Rightarrow> if hpLoad h < m then Some (i, hpLoad h) else Some (b, m))"

definition pick_helper :: "(nat \<Rightarrow> bool) \<Rightarrow> helper list \<Rightarrow> nat" where
  "pick_helper ready hs =
     (case scan_ready ready hs 0 None of
        Some (b, m) \<Rightarrow> b
      | None \<Rightarrow> (case scan_ready (\<lambda>_. True) hs 0 None of Some (b, m) \<Rightarrow> b | None \<Rightarrow> 0))"

definition add_load :: "nat \<Rightarrow> int \<Rightarrow> pool \<Rightarrow> pool" where
  "add_load i d p = p\<lparr>plHelpers := (plHelpers p)[i := (plHelpers p ! i)\<lparr>hpLoad := hpLoad (plHelpers p ! i) + d\<rparr>]\<rparr>"

definition Acquire :: "(nat \<Rightarrow> bool) \<Rightarrow> pool \<Rightarrow> nat \<times> pool" where
  "Acquire ready p = (let b = pick_helper ready (plHelpers p) in (b, add_load b 1 p))"

definition Release :: "nat \<Rightarrow> pool \<Rightarrow> pool" where
  "Release i p = add_load i (-1) p"

datatype upload_kind = AudioUpload string | DocumentUpload string

text \<open>
  \<open>send i up\<close> is the helper's upload RPC with the caption: the message id, or an error.
  \<^verbatim>\<open>defer p.Release(idx)\<close> runs on both returns.
\<close>

definition uploadToDump ::
  "(nat \<Rightarrow> bool) \<Rightarrow> (nat \<Rightarrow> upload_kind \<Rightarrow> int option) \<Rightarrow> track_meta \<Rightarrow> pool option \<Rightarrow> (int \<times> int) option \<times> pool option" where
  "uploadToDump ready send m p =
     (case p of
        None \<Rightarrow> (None, None)
      | Some q \<Rightarrow>
          if plHelpers q = [] then (None, Some q)
          else let (i, q1) = Acquire ready q;
                   caption = FormatCaption m;
                   mid = (if mKind m = [] \<or> mKind m = KindTrack then send i (AudioUpload caption)
                          else send i (DocumentUpload caption));
                   q2 = Release i q1
               in (case mid of None \<Rightarrow> (None, Some q2) | Some n \<Rightarrow> (Some (plDumpChatID q, n), Some q2)))"

definition best_of :: "(nat \<Rightarrow> bool) \<Rightarrow> helper list \<Rightarrow> nat \<Rightarrow> int \<Rightarrow> bool" where
  "best_of ready hs b m = (b < length hs \<and> ready b \<and> m = hpLoad (hs ! b) \<and>
     (\<forall>j<length hs. ready j \<longrightarrow> m \<le> hpLoad (hs ! j) \<and> (j < b \<longrightarrow> m < hpLoad (hs ! j))))"

lemma scan_ready_best:
  assumes "case best of None \<Rightarrow> \<forall>j<length pre. \<not> ready j | Some (b, m) \<Rightarrow> best_of ready pre b m"
  shows "case scan_ready ready hs (length pre) best of
           None \<Rightarrow> \<forall>j<length (pre @ hs). \<not> ready j | Some (b, m) \<Rightarrow> best_of ready (pre @ hs) b m"
  using assms
proof (induction hs arbitrary: pre best)
  case (Cons h hs)
  let ?best = "if \<not> ready (length pre) then best
     else case best of None \<Rightarrow> Some (length pre, hpLoad h)
        | Some (b, m) \<Rightarrow> if hpLoad h < m then Some (length pre, hpLoad h) else Some (b, m)"
  have "case ?best of None \<Rightarrow> \<forall>j<length (pre @ [h]). \<not> ready j | Some (b, m) \<Rightarrow> best_of ready (pre @ [h]) b m"
  proof (cases best)
    case None
    with Cons.prems show ?thesis by (auto simp: best_of_def nth_append less_Suc_eq)
  next
    case (Some bm)
    then obtain b m where "best = Some (b, m)" by (cases bm) auto
    with Cons.prems have old: "best_of ready pre b m" by simp
    then have "best_of ready (pre @ [h]) (length pre) (hpLoad h)" if "ready (length pre)" "hpLoad h < m"
      using that by (auto simp: best_of_def nth_append less_Suc_eq intro: less_le_trans)
    moreover have "best_of ready (pre @ [h]) b m" if "\<not> (ready (length pre) \<and> hpLoad h < m)"
      using that old by (auto simp: best_of_def nth_append less_Suc_eq)
    ultimately show ?thesis using \<open>best = Some (b, m)\<close> by auto
  qed
  note IH = Cons.IH [OF this]
  have step: "scan_ready ready (h # hs) (length pre) best = scan_ready ready hs (length (pre @ [h])) ?best" by simp
  have app: "pre @ h # hs = (pre @ [h]) @ hs" by simp
  show ?case unfolding step app by (rule IH)
next
  case Nil
  then show ?case by (simp only: scan_ready.simps append_Nil2)
qed

text \<open>
  An upload goes to the least-loaded account that is connected, the first among equals; only
  when none is connected does it go to the least-loaded of all.
\<close>

theorem acquire_least_loaded:
  assumes "plHelpers p \<noteq> []" "Acquire ready p = (b, p')"
  shows "b < length (plHelpers p) \<and>
    (\<forall>j<length (plHelpers p). (ready j \<or> (\<forall>k<length (plHelpers p). \<not> ready k)) \<longrightarrow>
       hpLoad (plHelpers p ! b) \<le> hpLoad (plHelpers p ! j) \<and> (j < b \<longrightarrow> hpLoad (plHelpers p ! b) < hpLoad (plHelpers p ! j))) \<and>
    (ready b \<or> (\<forall>k<length (plHelpers p). \<not> ready k)) \<and>
    hpLoad (plHelpers p' ! b) = hpLoad (plHelpers p ! b) + 1"
proof -
  let ?hs = "plHelpers p"
  have b: "b = pick_helper ready ?hs" "p' = add_load b 1 p" using assms(2) by (auto simp: Acquire_def Let_def)
  note s = scan_ready_best [where best = None and pre = "[]" and ready = ready and hs = ?hs]
    and t = scan_ready_best [where best = None and pre = "[]" and ready = "\<lambda>_. True" and hs = ?hs]
  have "(\<exists>m. best_of ready ?hs b m) \<or> (\<forall>k<length ?hs. \<not> ready k) \<and> (\<exists>m. best_of (\<lambda>_. True) ?hs b m)"
    using s t assms(1) b(1) by (auto simp: pick_helper_def split: option.splits prod.splits)
  then show ?thesis by (auto simp: best_of_def b(2) add_load_def)
qed

theorem acquire_least_loaded_witness:
  "fst (Acquire (\<lambda>i. i \<noteq> 1) \<lparr>plHasMain = True, plDumpChatID = 5, plHelpers = [\<lparr>hpLoad = 2\<rparr>, \<lparr>hpLoad = 0\<rparr>, \<lparr>hpLoad = 1\<rparr>]\<rparr>) = 2"
proof -
  let ?p = "\<lparr>plHasMain = True, plDumpChatID = 5, plHelpers = [\<lparr>hpLoad = 2\<rparr>, \<lparr>hpLoad = 0\<rparr>, \<lparr>hpLoad = 1\<rparr>]\<rparr>"
  obtain b p' where a: "Acquire (\<lambda>i. i \<noteq> 1) ?p = (b, p')" by fastforce
  have "plHelpers ?p \<noteq> []" by simp
  note A = acquire_least_loaded [OF this a]
  have len: "length (plHelpers ?p) = 3" by simp
  have "b < 3" using A len by simp
  moreover have "b \<noteq> 1"
  proof
    assume "b = 1"
    with A have "\<forall>k<length (plHelpers ?p). \<not> k \<noteq> 1" by blast
    then have "\<not> (0::nat) \<noteq> 1" unfolding len by (metis zero_less_numeral)
    then show False by simp
  qed
  moreover have "hpLoad (plHelpers ?p ! b) \<le> hpLoad (plHelpers ?p ! 2)"
    using A len by (metis lessI numeral_2_eq_2 numeral_3_eq_3 one_eq_numeral_iff semiring_norm(85))
  then have "b \<noteq> 0" by (cases "b = 0") simp_all
  ultimately have "b = 2" by linarith
  with a show ?thesis by simp
qed

text \<open>An upload leaves every load as it was, on success and on error.\<close>

lemma upload_returns_load:
  "snd (uploadToDump ready send m p) = p"
proof (cases p)
  case (Some q)
  have "Release i (add_load i 1 q) = q" if "i < length (plHelpers q)" for i
    using that by (simp add: Release_def add_load_def)
  moreover have "pick_helper ready (plHelpers q) < length (plHelpers q)" if "plHelpers q \<noteq> []"
    using that scan_ready_best [where best = None and pre = "[]" and ready = ready and hs = "plHelpers q"]
      scan_ready_best [where best = None and pre = "[]" and ready = "\<lambda>_. True" and hs = "plHelpers q"]
    by (auto simp: pick_helper_def best_of_def split: option.splits prod.splits)
  ultimately show ?thesis
    using Some by (auto simp: uploadToDump_def Acquire_def Let_def split: option.splits)
qed (simp add: uploadToDump_def)

end
