(* ===== verification/Stopping.thy ===== *)
theory Stopping
  imports Scheduler_Slots
begin

section \<open>Stopping queued tasks, one and all\<close>

text \<open>
  What \<^verbatim>\<open>/stop\<close> does to a waiting task, the order it keeps when no worker receives meanwhile and
  loses when one does, and what \<^verbatim>\<open>/stopall\<close> counts.
\<close>

lemma pending_not_running:
  assumes "unique (live s)" "r \<in> set (pending s)" "n \<in> set (qRun s)"
  shows "rqTask r \<noteq> run_id n"
proof -
  obtain xs ys where "pending s = xs @ r # ys" using split_list [OF assms(2)] by blast
  then have "live s = add_mset r (mset xs + mset ys + mset (map rnReq (qRun s)))" by (simp add: live_def)
  with assms(1) have "rqTask r \<notin> rqTask ` set_mset (mset xs + mset ys + mset (map rnReq (qRun s)))"
    by (simp add: unique_add)
  with assms(3) show ?thesis by auto
qed

lemma not_a_slot:
  assumes "slots_ok s" "unique (live s)" "r \<in> set (pending s)"
  shows "\<not> is_task (rqTask r) (qActive s)" "\<not> is_task (rqTask r) (qBorrow s)" "qUploading s (rqTask r) = None"
proof -
  note p = pending_not_running [OF assms(2,3)]
  show "\<not> is_task (rqTask r) (qActive s)"
    using slots_active [OF assms(1)] p by (force simp: is_task_def split: option.splits)
  show "\<not> is_task (rqTask r) (qBorrow s)"
    using slots_borrow [OF assms(1)] p by (force simp: is_task_def split: option.splits)
  show "qUploading s (rqTask r) = None"
    using slots_upload [OF assms(1), of "rqTask r"] p by (cases "qUploading s (rqTask r)") force+
qed

text \<open>In a queue without repeated ids a stop judges one request.\<close>

lemma filter_one:
  assumes "distinct (map rqTask xs)" "r \<in> set xs"
  shows "filter (\<lambda>x. rqTask x = rqTask r) xs = [r]" "filter (\<lambda>x. rqTask x \<noteq> rqTask r) xs = remove1 r xs"
proof -
  obtain ys zs where xs: "xs = ys @ r # zs" using split_list [OF assms(2)] by blast
  then have n: "\<forall>x\<in>set ys. rqTask x \<noteq> rqTask r" "\<forall>x\<in>set zs. rqTask x \<noteq> rqTask r"
    using assms(1) by (auto simp: xs) (metis image_eqI)+
  then have "r \<notin> set ys" by blast
  with n show "filter (\<lambda>x. rqTask x = rqTask r) xs = [r]" "filter (\<lambda>x. rqTask x \<noteq> rqTask r) xs = remove1 r xs"
    by (simp_all add: xs remove1_append filter_empty_conv)
qed

text \<open>
  A stop of a waiting task by its requester or an admin takes out that task and no other,
  keeps the order of the rest, releases its pending count and hands back its quota slot; by
  anyone else it changes nothing.  This is for a stop no worker interferes with.
\<close>

theorem queued_stop:
  assumes "reachable race s" "r \<in> set (qChan s)" "stop_task us issuer (rqTask r) None s = (reply, s')"
  shows "if may_stop us issuer r
    then reply = QueuedStopped (rqTask r) \<and> qChan s' = remove1 r (qChan s) \<and> qRun s' = qRun s \<and>
         qTasks s' = uncount_task (rqUser r) (qTasks s) \<and> qLedger s' = quotaRefund (rqCharge r) 0 (qLedger s)
    else reply = NotYours \<and> s' = s"
proof -
  have ok: "slots_ok s" "unique (live s)" using assms(1) reachable_slots reachable_unique by blast+
  have p: "r \<in> set (pending s)" using assms(2) by (simp add: pending_def)
  have d: "distinct (map rqTask (qChan s))" using unique_pending [OF ok(2)] by (simp add: pending_def)
  have "rqTask r \<in> task_ids s" using p by (auto simp: task_ids_def live_def)
  moreover have "[] \<notin> task_ids s" using reachable_queue [OF assms(1)] by (simp add: queue_ok_def)
  ultimately have ne: "rqTask r \<noteq> []" by metis
  let ?v = "stop_verdict us issuer (rqTask r)"
  have same: "x = r" if "x \<in> set (qChan s)" "rqTask x = rqTask r" for x
    using d that assms(2) by (auto simp: distinct_map inj_on_def)
  have e: "(reply, s') = (case drain ?v (\<lambda>i. quotaRefund i 0) None (length (qChan s)) s of
      ((ds, denied), s1) \<Rightarrow> (if ds \<noteq> [] then QueuedStopped (rqTask r) else if denied then NotYours else TaskNotFound (rqTask r), s1))"
    using assms(3) not_a_slot [OF ok p] ne by (simp add: stop_task_def)
  show ?thesis
  proof (cases "may_stop us issuer r")
    case True
    have "filter (\<lambda>x. ?v x = Drop) (qChan s) = filter (\<lambda>x. rqTask x = rqTask r) (qChan s)"
      using same True by (intro filter_cong) (auto simp: stop_verdict_def)
    moreover have "filter (\<lambda>x. ?v x \<noteq> Drop) (qChan s) = filter (\<lambda>x. rqTask x \<noteq> rqTask r) (qChan s)"
      using same True by (intro filter_cong) (auto simp: stop_verdict_def)
    ultimately show ?thesis
      using True e drain_None [of s "qChan s" "[]" ?v "\<lambda>i. quotaRefund i 0"] filter_one [OF d assms(2)] by simp
  next
    case False
    have "filter (\<lambda>x. ?v x = Drop) (qChan s) = []" "filter (\<lambda>x. ?v x \<noteq> Drop) (qChan s) = qChan s"
      using same False by (auto simp: stop_verdict_def filter_empty_conv intro!: filter_True)
    moreover have "\<exists>x\<in>set (qChan s). ?v x = Deny" using assms(2) False by (auto simp: stop_verdict_def)
    ultimately show ?thesis
      using False e drain_None [of s "qChan s" "[]" ?v "\<lambda>i. quotaRefund i 0"] by simp
  qed
qed

theorem queued_stop_witness:
  "fst (stop_task plain_users 7 ''t1'' None one_queued) = QueuedStopped ''t1'' \<and>
   qChan (snd (stop_task plain_users 7 ''t1'' None one_queued)) = []"
proof -
  let ?r = "album_request ''t1'' 7 []"
  have q: "qChan one_queued = [?r]" by (simp add: one_queued_def enqueueDownloadWithAfter_def empty_sched_def)
  then have "?r \<in> set (qChan one_queued)" by simp
  from queued_stop [OF one_queued_reachable this prod.collapse [symmetric], of plain_users 7]
  show ?thesis by (simp add: q may_stop_def album_request_def)
qed

subsection \<open>The race with the worker\<close>

definition queue_of :: "request list \<Rightarrow> sched" where
  "queue_of rs = fold (\<lambda>r s. snd (enqueueDownloadWithAfter (\<lambda>_. False) r s)) rs (empty_sched True 20 (no_charges None))"

definition three_albums :: "request list" where
  "three_albums = [album_request ''t1'' 1 [], album_request ''t2'' 2 [], album_request ''t3'' 3 []]"

lemma enqueue_reachable:
  assumes "reachable race s" "rqCharge r = []" "rqTask r \<noteq> []" "rqTask r \<notin> task_ids s" "qHeld s = {}"
  shows "reachable race (snd (enqueueDownloadWithAfter (\<lambda>_. False) r s))"
proof -
  obtain ok reply s1 where e: "enqueueDownloadWithAfter (\<lambda>_. False) r s = ((ok, reply), s1)" by (metis prod.collapse)
  have "rqCharge r = [] \<or> rqCharge r \<in> qHeld s \<and> rqAfter r \<noteq> NoAfter" using assms(2) by simp
  from sched_step.Enqueue [OF this assms(3,4) e, of race]
  have "sched_step race s (if ok then s1\<lparr>qHeld := qHeld s - {rqCharge r}\<rparr> else s1)" .
  moreover have "qHeld s1 = {}" using live_enqueue(4) [OF e] assms(5) by simp
  then have "s1\<lparr>qHeld := qHeld s - {rqCharge r}\<rparr> = s1" using assms(5) by simp
  ultimately have "sched_step race s s1" by (metis (full_types))
  then show ?thesis using reachable_step [OF assms(1)] e by simp
qed

lemma queue_of_reachable:
  assumes "distinct (map rqTask rs)" "\<forall>r\<in>set rs. rqCharge r = [] \<and> rqTask r \<noteq> []"
  shows "reachable race (queue_of rs) \<and> set (pending (queue_of rs)) \<subseteq> set rs \<and> qRun (queue_of rs) = [] \<and> qHeld (queue_of rs) = {}"
  using assms
proof (induction rs rule: rev_induct)
  case Nil
  have "reachable race (empty_sched True 20 (no_charges None))" unfolding reachable_def by blast
  then show ?case by (simp add: queue_of_def empty_sched_def pending_def)
next
  case (snoc r rs)
  let ?e = "enqueueDownloadWithAfter (\<lambda>_. False) r (queue_of rs)"
  have IH: "reachable race (queue_of rs)" "set (pending (queue_of rs)) \<subseteq> set rs" "qRun (queue_of rs) = []" "qHeld (queue_of rs) = {}"
    using snoc by auto
  obtain ok reply s1 where e: "?e = ((ok, reply), s1)" by (metis prod.collapse)
  have q: "queue_of (rs @ [r]) = snd ?e" by (simp add: queue_of_def)
  have "rqTask r \<notin> task_ids (queue_of rs)" using IH snoc.prems(1) by (auto simp: task_ids_def live_def)
  then have "reachable race (snd ?e)" using IH snoc.prems(2) by (intro enqueue_reachable) auto
  then show ?case using live_enqueue [OF e] IH by (simp add: q e) blast
qed

lemma three_albums_reachable: "reachable race (queue_of three_albums)"
  using queue_of_reachable [of three_albums race] by (simp add: three_albums_def album_request_def)

text \<open>
  A stop can overtake the queue.  The drain rotates the channel while the idle worker may
  receive from it without the lock: with the first, second and third task waiting, a stop of the
  third during which the worker receives lets the second task start before the first, and the
  list shown to users no longer agrees with the queue; without that receive, the first starts.
\<close>

theorem stop_overtakes_queue:
  "reachable True (queue_of three_albums) \<and> map rqTask (qChan (queue_of three_albums)) = [''t1'', ''t2'', ''t3''] \<and>
   (\<exists>s'. snd (stop_task plain_users 3 ''t3'' (Some 1) (queue_of three_albums)) = s' \<and>
      map (\<lambda>h. rqTask (fst h)) (case qHand s' of None \<Rightarrow> [] | Some h \<Rightarrow> [h]) = [''t2''] \<and>
      map rqTask (qChan s') = [''t1''] \<and> map rqTask (qMirror s') = [''t1'', ''t2'']) \<and>
   map rqTask (qChan (receive (snd (stop_task plain_users 3 ''t3'' None (queue_of three_albums))))) = [''t2'']"
proof -
  define s where "s = queue_of three_albums"
  have s: "qChan s = three_albums" "qMirror s = three_albums" "qHand s = None" "qWait s = None" "qLend s = None"
    "qActive s = None" "qBorrow s = None" "qUploading s = Map.empty"
    by (simp_all add: s_def queue_of_def three_albums_def enqueueDownloadWithAfter_def empty_sched_def)
  have v: "stop_verdict plain_users 3 ''t3'' r = (if rqTask r = ''t3'' then Drop else Keep)" if "r \<in> set three_albums" for r
    using that by (auto simp: stop_verdict_def may_stop_def three_albums_def album_request_def)
  have l: "length (qChan s) = Suc (Suc (Suc 0))" by (simp add: s three_albums_def)
  show ?thesis
    using three_albums_reachable [of True] unfolding s_def [symmetric]
    by (simp add: stop_task_def s l receive_def idle_def three_albums_def album_request_def is_task_def
        stop_verdict_def may_stop_def drop_queued_def)
qed

subsection \<open>Stopping everything\<close>

definition slot_list :: "string list \<Rightarrow> sched \<Rightarrow> request list" where
  "slot_list order s = (case qActive s of None \<Rightarrow> [] | Some r \<Rightarrow> [r]) @ (case qBorrow s of None \<Rightarrow> [] | Some r \<Rightarrow> [r]) @
     map (\<lambda>t. the (qUploading s t)) order"

lemma fold_cancel_slots:
  "qRun (fold (cancel_slot f) rs s) = map (\<lambda>m. if run_id m \<in> rqTask ` set rs then m\<lparr>rnCancelled := True\<rparr> else m) (qRun s)"
proof (induction rs arbitrary: s)
  case (Cons r rs)
  have "qRun (cancel_slot f r s) = map (\<lambda>m. if run_id m = rqTask r then m\<lparr>rnCancelled := True\<rparr> else m) (qRun s)"
    by (simp add: cancel_slot_def cancel_run_def frame_simps)
  then show ?case by (simp add: Cons.IH comp_def)
qed simp

lemma run_has_slot:
  assumes "slots_ok s" "n \<in> set (qRun s)" "set order = dom (qUploading s)"
  shows "rnReq n \<in> set (slot_list order s)"
proof (cases "rnDone n")
  case True
  have u: "qUploading s (run_id n) = Some (rnReq n)" by (rule slots_uploading [OF assms(1,2) True])
  then have "run_id n \<in> set order" using assms(3) by blast
  then have "the (qUploading s (run_id n)) \<in> set (map (\<lambda>t. the (qUploading s t)) order)" by simp
  then show ?thesis using u by (simp add: slot_list_def)
next
  case False
  then have "qActive s = Some (rnReq n) \<or> qBorrow s = Some (rnReq n)"
    using slots_head [OF assms(1,2)] slots_borrower [OF assms(1,2)] by blast
  then show ?thesis by (auto simp: slot_list_def)
qed

lemma refunder_fold_closes: "refunder f \<Longrightarrow> ledger_ok q \<Longrightarrow> i \<in> set is \<Longrightarrow> open_key (fold f is q) i = None"
proof (induction "is" arbitrary: q)
  case (Cons j js)
  have ok: "ledger_ok (f j q)" using refunderD(1) [OF Cons.prems(1,2)] .
  show ?case
  proof (cases "i \<in> set js")
    case True
    then show ?thesis using Cons.IH [OF Cons.prems(1) ok] by simp
  next
    case False
    then have "i = j" using Cons.prems(3) by simp
    then have "open_key (f j q) i = None" using refunderD(2) [OF Cons.prems(1,2)] by simp
    moreover have "open_key (fold f js (f j q)) i \<noteq> None \<Longrightarrow> open_key (f j q) i \<noteq> None"
      using refunder_fold [OF Cons.prems(1) ok, of js] by blast
    ultimately show ?thesis by (cases "open_key (fold f js (f j q)) i") auto
  qed
qed simp

lemma stop_all_result:
  fixes syncDB up
  defines "refund \<equiv> \<lambda>i. if syncDB then quotaRefundSync up i 0 else quotaRefund i 0"
  shows "cancelAllTasksLocked syncDB up order None s =
    (length (slot_list order s) + length (qChan s),
     (fold (cancel_slot refund) (slot_list order s) s)\<lparr>qChan := [],
        qMirror := fold (\<lambda>r. removeQueuedReqLocked (rqTask r)) (qChan s) (qMirror s),
        qTasks := fold (\<lambda>r. uncount_task (rqUser r)) (qChan s) (qTasks s),
        qLedger := fold refund (map rqCharge (slot_list order s @ qChan s)) (qLedger s)\<rparr>)"
proof -
  let ?s = "fold (cancel_slot refund) (slot_list order s) s"
  have c: "qChan ?s = qChan s @ []" by (simp add: frame_simps)
  show ?thesis
    using drain_None [OF c, of "\<lambda>_. Drop" refund]
    unfolding cancelAllTasksLocked_def Let_def slot_list_def [symmetric] refund_def [symmetric]
    by (simp add: frame_simps)
qed



lemma length_one:
  assumes "distinct (map f xs)" "x \<in> set xs"
  shows "length (filter (\<lambda>y. f y = f x) xs) = 1"
proof -
  have "filter (\<lambda>y. f y = f x) xs = filter (\<lambda>y. y = x) xs"
    using assms by (intro filter_cong) (auto simp: distinct_map inj_on_def)
  also have "\<dots> = [x]"
  proof -
    obtain ys zs where xs: "xs = ys @ x # zs" using split_list [OF assms(2)] by blast
    then have "filter (\<lambda>y. y = x) ys = []" "filter (\<lambda>y. y = x) zs = []" using assms(1) by (auto simp: filter_empty_conv)
    then show ?thesis by (simp add: xs)
  qed
  finally have "filter (\<lambda>y. f y = f x) xs = [x]" .
  then show ?thesis by simp
qed

lemma three_counts:
  "\<forall>m\<in>set xs. (A m \<or> B m \<or> D m) \<and> \<not> (A m \<and> B m) \<Longrightarrow>
   length (filter A xs) + length (filter B xs) + length (filter D xs) = length xs + length (filter (\<lambda>m. D m \<and> (A m \<or> B m)) xs)"
  by (induction xs) auto

text \<open>
  What \<^verbatim>\<open>/stopall\<close> reports: the number of waiting and started tasks, and on top of it, once
  more, every task that uploads while it still holds the head's or the borrower's slot; such a
  task is counted twice.
\<close>

theorem stop_all_counts_twice:
  assumes "reachable race s" "set order = dom (qUploading s)" "distinct order"
  shows "fst (cancelAllTasksLocked syncDB up order None s) = length (qChan s) + length (qRun s) +
    length (filter (\<lambda>m. rnDone m \<and> (qActive s = Some (rnReq m) \<or> qBorrow s = Some (rnReq m))) (qRun s))"
proof -
  have ok: "slots_ok s" and un: "unique (live s)" using assms(1) reachable_slots reachable_unique by blast+
  have d: "distinct (map run_id (qRun s))" by (rule unique_running [OF un])
  then have dr: "distinct (map rnReq (qRun s))" by (auto simp: distinct_map inj_on_def)
  have one: "length (case x of None \<Rightarrow> [] | Some r \<Rightarrow> [r]) = length (filter (\<lambda>m. x = Some (rnReq m)) (qRun s))"
    if found: "\<And>r. x = Some r \<Longrightarrow> \<exists>n\<in>set (qRun s). rnReq n = r" for x
  proof (cases x)
    case (Some r)
    then obtain n where "n \<in> set (qRun s)" "rnReq n = r" using found by blast
    with length_one [OF dr, of n] Some show ?thesis by (simp add: eq_commute [of r])
  qed simp
  have a: "length (case qActive s of None \<Rightarrow> [] | Some r \<Rightarrow> [r]) = length (filter (\<lambda>m. qActive s = Some (rnReq m)) (qRun s))"
    by (rule one) (use slots_active [OF ok] in blast)
  have b: "length (case qBorrow s of None \<Rightarrow> [] | Some r \<Rightarrow> [r]) = length (filter (\<lambda>m. qBorrow s = Some (rnReq m)) (qRun s))"
    by (rule one) (use slots_borrow [OF ok] in blast)
  have dom: "dom (qUploading s) = set (map run_id (filter rnDone (qRun s)))"
    using slots_upload [OF ok] slots_uploading [OF ok] by (auto simp: dom_def image_iff)
  have "length order = card (dom (qUploading s))" using distinct_card [OF assms(3)] assms(2) by simp
  also have "\<dots> = length (filter rnDone (qRun s))"
    unfolding dom using distinct_card [OF distinct_map_filter [OF d, of rnDone]] by simp
  finally have u: "length order = length (filter rnDone (qRun s))" .
  have "\<forall>m\<in>set (qRun s). (qActive s = Some (rnReq m) \<or> qBorrow s = Some (rnReq m) \<or> rnDone m) \<and>
      \<not> (qActive s = Some (rnReq m) \<and> qBorrow s = Some (rnReq m))"
  proof
    fix m assume m: "m \<in> set (qRun s)"
    have "\<not> (qActive s = Some (rnReq m) \<and> qBorrow s = Some (rnReq m))"
    proof
      assume "qActive s = Some (rnReq m) \<and> qBorrow s = Some (rnReq m)"
      then obtain n k where "n \<in> set (qRun s)" "rnReq n = rnReq m" "rnRole n \<noteq> Borrower"
        "k \<in> set (qRun s)" "rnReq k = rnReq m" "rnRole k = Borrower"
        using slots_active [OF ok] slots_borrow [OF ok] by metis
      then show False using run_unique [OF un, of n k] by simp
    qed
    then show "(qActive s = Some (rnReq m) \<or> qBorrow s = Some (rnReq m) \<or> rnDone m) \<and>
      \<not> (qActive s = Some (rnReq m) \<and> qBorrow s = Some (rnReq m))"
      using slots_head [OF ok m] slots_borrower [OF ok m] by blast
  qed
  from three_counts [OF this] show ?thesis
    by (simp add: stop_all_result slot_list_def a b u)
qed

definition one_uploading :: sched where
  "one_uploading = onDownloadComplete (hd (qRun one_running)) one_running"

theorem stop_all_counts_twice_witness:
  "length (qRun one_uploading) = 1 \<and> fst (cancelAllTasksLocked False True [''t1''] None one_uploading) = 2"
proof -
  have r: "reachable True one_uploading"
    unfolding one_uploading_def
    by (rule reachable_step [OF one_running_reachable sched_step.Download_Done])
      (use one_running_runs in \<open>cases "qRun one_running"; simp\<close>)
  have u: "set [''t1''] = dom (qUploading one_uploading)"
    by (simp add: one_uploading_def one_running_def one_queued_def receive_def enqueueDownloadWithAfter_def empty_sched_def idle_def
      start_hand_def startTask_def Let_def onDownloadComplete_def upd_run_def album_request_def)
  show ?thesis
    using stop_all_counts_twice [OF r u, of False True]
    by (simp add: one_uploading_def one_running_def one_queued_def receive_def enqueueDownloadWithAfter_def empty_sched_def idle_def
      start_hand_def startTask_def Let_def onDownloadComplete_def upd_run_def album_request_def)
qed

end
