(* ===== verification/Disk_Space.thy ===== *)
theory Disk_Space
  imports Rip_Track
begin

section \<open>The download folders: cleanup and purge\<close>

text \<open>
  \<^verbatim>\<open>cleanupDownloadsIfNeeded\<close> and \<^verbatim>\<open>scanDownloadFolder\<close>, run after every rip, the twelve-hourly
  \<^verbatim>\<open>purgeDownloadCaches\<close> (\<^verbatim>\<open>bot/telegram_bot.go\<close>).  What the file system lists is an argument; the disk and the in-use registry
  are those of the rips.
\<close>

subsection \<open>Cleanup after a rip\<close>

record node =
  ndPath :: string
  ndRegular :: bool
  ndSize :: int
  ndTime :: int

record file_entry =
  enPath :: string
  enSize :: int
  enTime :: int

definition defaultTelegramDownloadMaxGB :: int where "defaultTelegramDownloadMaxGB = 22"
definition defaultRipFlushThresholdGB :: int where "defaultRipFlushThresholdGB = 20"

definition telegramDownloadMaxBytes :: "int \<Rightarrow> int" where
  "telegramDownloadMaxBytes gb = (if gb \<le> 0 then defaultTelegramDownloadMaxGB else gb) * 1024 * 1024 * 1024"

definition ripFlushThresholdBytes :: "int \<Rightarrow> int" where
  "ripFlushThresholdBytes gb =
     (if gb < 0 then -1 else (if gb = 0 then defaultRipFlushThresholdGB else gb) * 1024 * 1024 * 1024)"

text \<open>The walk's nodes, in its order; \<open>None\<close> when it stops with an error.\<close>

definition scanDownloadFolder :: "string \<Rightarrow> node list option \<Rightarrow> (int \<times> file_entry list) option" where
  "scanDownloadFolder cacheFile walked =
     (case walked of
        None \<Rightarrow> None
      | Some nodes \<Rightarrow>
          (let cachePath = (if cacheFile \<noteq> [] then path_clean cacheFile else []);
               kept = filter (\<lambda>nd. ndRegular nd \<and> \<not> (cachePath \<noteq> [] \<and> path_clean (ndPath nd) = cachePath)) nodes
           in Some (sum_list (map ndSize kept), map (\<lambda>nd. \<lparr>enPath = ndPath nd, enSize = ndSize nd, enTime = ndTime nd\<rparr>) kept)))"

fun reclaim :: "(string \<Rightarrow> string) \<Rightarrow> (string \<Rightarrow> bool) \<Rightarrow> int \<Rightarrow> file_entry list \<Rightarrow> int \<Rightarrow> world \<Rightarrow> int \<times> world" where
  "reclaim key removable maxBytes [] totalSize w = (totalSize, w)"
| "reclaim key removable maxBytes (e # es) totalSize w =
     (if totalSize \<le> maxBytes then (totalSize, w)
      else if isInUse key (enPath e) w then reclaim key removable maxBytes es totalSize w
      else if \<not> removable (enPath e) then reclaim key removable maxBytes es totalSize w
      else reclaim key removable maxBytes es (totalSize - enSize e) (remove_file key (enPath e) w))"

text \<open>
  \<open>isDir\<close> says what stat finds at the root (\<open>None\<close>: nothing, or an error), \<open>order\<close> is \<^verbatim>\<open>sort.Slice\<close>
  by modification time, which need not be stable.
\<close>

definition cleanup_root :: "string \<Rightarrow> string option" where
  "cleanup_root folder =
     (let root = trim_space folder; cleanRoot = path_clean root
      in if root = [] \<or> cleanRoot = ''.'' \<or> cleanRoot = ''/'' then None else Some cleanRoot)"

definition cleanupDownloadsIfNeeded ::
  "(string \<Rightarrow> string) \<Rightarrow> (string \<Rightarrow> bool) \<Rightarrow> (file_entry list \<Rightarrow> file_entry list) \<Rightarrow> (string \<Rightarrow> bool option) \<Rightarrow> (string \<Rightarrow> node list option) \<Rightarrow>
   string \<Rightarrow> string \<Rightarrow> int \<Rightarrow> world \<Rightarrow> world" where
  "cleanupDownloadsIfNeeded key removable order isDir walk alacFolder cacheFile maxGB w =
     (case cleanup_root alacFolder of
        None \<Rightarrow> w
      | Some root \<Rightarrow>
          if isDir root \<noteq> Some True then w
          else (case scanDownloadFolder cacheFile (walk root) of
                  None \<Rightarrow> w
                | Some (totalSize, files) \<Rightarrow>
                    if totalSize \<le> telegramDownloadMaxBytes maxGB then w
                    else snd (reclaim key removable (telegramDownloadMaxBytes maxGB) (order files) totalSize w)))"

subsection \<open>The periodic purge\<close>

text \<open>\<open>under p k\<close>: the file \<open>k\<close> is \<open>p\<close> or lies below it; \<open>stuck k\<close>: it cannot be removed.\<close>

definition under :: "string \<Rightarrow> string \<Rightarrow> bool" where
  "under p k = (k = p \<or> has_prefix k (p @ ''/''))"

definition remove_all :: "(string \<Rightarrow> string) \<Rightarrow> (string \<Rightarrow> bool) \<Rightarrow> string \<Rightarrow> world \<Rightarrow> world" where
  "remove_all key stuck p w = w\<lparr>wDisk := (\<lambda>k. if under (key p) k \<and> \<not> stuck k then None else wDisk w k)\<rparr>"

definition purgeFolderContents ::
  "(string \<Rightarrow> string) \<Rightarrow> (string \<Rightarrow> bool) \<Rightarrow> (string \<Rightarrow> string list option) \<Rightarrow> string \<Rightarrow> string \<Rightarrow> world \<Rightarrow> world" where
  "purgeFolderContents key stuck readdir cacheFile dir w =
     (case readdir dir of
        None \<Rightarrow> w
      | Some names \<Rightarrow>
          fold (\<lambda>name w. let p = path_join dir name
                         in if cacheFile \<noteq> [] \<and> path_clean p = cacheFile then w else remove_all key stuck p w) names w)"

fun purge_roots ::
  "(string \<Rightarrow> string) \<Rightarrow> (string \<Rightarrow> bool) \<Rightarrow> (string \<Rightarrow> string list option) \<Rightarrow> string \<Rightarrow> string list \<Rightarrow> string list \<Rightarrow> world \<Rightarrow> world" where
  "purge_roots key stuck readdir cacheFile already [] w = w"
| "purge_roots key stuck readdir cacheFile already (folder # folders) w =
     (case cleanup_root folder of
        None \<Rightarrow> purge_roots key stuck readdir cacheFile already folders w
      | Some root \<Rightarrow>
          if root \<in> set already then purge_roots key stuck readdir cacheFile already folders w
          else purge_roots key stuck readdir cacheFile (root # already) folders
                 (purgeFolderContents key stuck readdir cacheFile root w))"

definition purgeDownloadCaches ::
  "(string \<Rightarrow> string) \<Rightarrow> (string \<Rightarrow> bool) \<Rightarrow> (string \<Rightarrow> string list option) \<Rightarrow> string \<Rightarrow> string list \<Rightarrow> bool \<Rightarrow> world \<Rightarrow> world" where
  "purgeDownloadCaches key stuck readdir cacheFile folders inProgress w =
     (if inProgress \<or> anyInUse w then w
      else let cf = trim_space cacheFile
           in purge_roots key stuck readdir (if cf \<noteq> [] then path_clean cf else []) [] folders w)"

subsection \<open>What a cleanup removes\<close>

definition free_entry :: "(string \<Rightarrow> string) \<Rightarrow> (string \<Rightarrow> bool) \<Rightarrow> world \<Rightarrow> file_entry \<Rightarrow> bool" where
  "free_entry key removable w e = (\<not> isInUse key (enPath e) w \<and> removable (enPath e))"

abbreviation freed :: "(string \<Rightarrow> string) \<Rightarrow> (string \<Rightarrow> bool) \<Rightarrow> world \<Rightarrow> file_entry list \<Rightarrow> int" where
  "freed key removable w es \<equiv> sum_list (map enSize (filter (free_entry key removable w) es))"

abbreviation remove_entries :: "(string \<Rightarrow> string) \<Rightarrow> file_entry list \<Rightarrow> world \<Rightarrow> world" where
  "remove_entries key es w \<equiv> fold (\<lambda>e. remove_file key (enPath e)) es w"

lemma isInUse_remove [simp]: "isInUse key p (remove_file key q w) = isInUse key p w"
  by (simp add: isInUse_def)

lemma free_entry_remove [simp]: "free_entry key removable (remove_file key q w) = free_entry key removable w"
  by (simp add: free_entry_def fun_eq_iff)

lemma remove_entries_frame:
  "wReg (remove_entries key es w) = wReg w" "wRips (remove_entries key es w) = wRips w"
  "wDisk (remove_entries key es w) k = (if k \<in> key ` enPath ` set es then None else wDisk w k)"
  by (induction es arbitrary: w) (auto simp: remove_file_def)

text \<open>The loop removes the free files of a prefix of its list, the shortest that gets under the limit.\<close>

lemma reclaim_prefix:
  assumes "reclaim key removable maxBytes es tot w = (tot', w')"
  shows "\<exists>n \<le> length es. w' = remove_entries key (filter (free_entry key removable w) (take n es)) w \<and>
    tot' = tot - freed key removable w (take n es) \<and> (tot' \<le> maxBytes \<or> n = length es) \<and>
    (\<forall>m < n. maxBytes < tot - freed key removable w (take m es))"
  using assms
proof (induction es arbitrary: tot w)
  case (Cons e es)
  show ?case
  proof (cases "tot \<le> maxBytes")
    case True
    then show ?thesis using Cons.prems by (intro exI [of _ 0]) simp
  next
    case over: False
    let ?f = "free_entry key removable w e"
    let ?t = "if ?f then tot - enSize e else tot" and ?w = "if ?f then remove_file key (enPath e) w else w"
    have free: "free_entry key removable ?w = free_entry key removable w" by simp
    have "reclaim key removable maxBytes es ?t ?w = (tot', w')"
      using Cons.prems over by (auto simp: free_entry_def split: if_splits)
    from Cons.IH [OF this] free obtain n where n: "n \<le> length es"
      "w' = remove_entries key (filter (free_entry key removable w) (take n es)) ?w"
      "tot' = ?t - freed key removable w (take n es)" "tot' \<le> maxBytes \<or> n = length es"
      "\<forall>m < n. maxBytes < ?t - freed key removable w (take m es)"
      by auto
    have "maxBytes < tot - freed key removable w (take m (e # es))" if "m < Suc n" for m
      using n(5) over that by (cases m) (auto split: if_splits)
    with n show ?thesis by (intro exI [of _ "Suc n"]) (auto split: if_splits)
  qed
qed auto

lemma filter_take_last:
  assumes "filter P (take n es) \<noteq> []"
  shows "\<exists>m < n. filter P (take m es) = butlast (filter P (take n es))"
  using assms
proof (induction n)
  case (Suc n)
  show ?case
  proof (cases "n < length es \<and> P (es ! n)")
    case True
    then have "filter P (take (Suc n) es) = filter P (take n es) @ [es ! n]" by (simp add: take_Suc_conv_app_nth)
    then show ?thesis by (intro exI [of _ n]) simp
  next
    case False
    then have "filter P (take (Suc n) es) = filter P (take n es)"
      by (cases "n < length es") (simp_all add: take_Suc_conv_app_nth)
    with Suc show ?thesis by (metis less_Suc_eq)
  qed
qed simp

lemma sorted_prefix_older:
  assumes "sorted (map enTime es)" "e \<in> set (take n es)" "f \<in> set es" "enTime f < enTime e"
  shows "f \<in> set (take n es)"
proof -
  obtain i where i: "i < n" "i < length es" "es ! i = e" using assms(2) by (auto simp: in_set_conv_nth)
  obtain j where j: "j < length es" "es ! j = f" using assms(3) by (auto simp: in_set_conv_nth)
  have "j < i"
  proof (rule ccontr)
    assume "\<not> j < i"
    then have "enTime (es ! i) \<le> enTime (es ! j)" using assms(1) j(1) by (auto simp: sorted_iff_nth_mono)
    with assms(4) i j show False by simp
  qed
  with i j show ?thesis by (auto simp: in_set_conv_nth intro!: exI [of _ j])
qed

lemma in_use_not_removed:
  assumes "isInUse key p w" "\<forall>e \<in> set es. \<not> isInUse key (enPath e) w \<and> enPath e \<noteq> []"
  shows "wDisk (remove_entries key es w) (key p) = wDisk w (key p)"
  using assms by (auto simp: remove_entries_frame isInUse_def)

text \<open>The entries a cleanup looks at, and those it removes.\<close>

definition scanned :: "string \<Rightarrow> node list option \<Rightarrow> file_entry list" where
  "scanned cacheFile walked = (case scanDownloadFolder cacheFile walked of None \<Rightarrow> [] | Some (n, es) \<Rightarrow> es)"

lemma scanned_total: "scanDownloadFolder cacheFile walked = Some (n, es) \<Longrightarrow> n = sum_list (map enSize es)"
  by (auto simp: scanDownloadFolder_def Let_def comp_def split: option.splits)

lemma cleanup_result:
  assumes "cleanup_root folder = Some root" "isDir root = Some True" "scanDownloadFolder cacheFile (walk root) = Some (n, es)"
    and "mset (order es) = mset es" "sorted (map enTime (order es))" "w' = cleanupDownloadsIfNeeded key removable order isDir walk folder cacheFile gb w"
    and "limit = telegramDownloadMaxBytes gb"
  shows "\<exists>gone. w' = remove_entries key gone w \<and> mset gone \<subseteq># mset es \<and> (\<forall>e \<in> set gone. free_entry key removable w e) \<and>
    (n - sum_list (map enSize gone) \<le> limit \<or> mset gone = mset (filter (free_entry key removable w) es)) \<and>
    (gone \<noteq> [] \<longrightarrow> limit < n - sum_list (map enSize (butlast gone))) \<and>
    (\<forall>e \<in> set gone. \<forall>f \<in> set es. free_entry key removable w f \<and> enTime f < enTime e \<longrightarrow> f \<in> set gone)"
proof (cases "n \<le> limit")
  case True
  then have "w' = w" using assms by (simp add: cleanupDownloadsIfNeeded_def)
  then show ?thesis using True by (intro exI [of _ "[]"]) simp
next
  case False
  let ?P = "free_entry key removable w" and ?es = "order es"
  obtain tot' w1 where r: "reclaim key removable limit ?es n w = (tot', w1)" by fastforce
  then have w': "w' = w1" using assms False by (simp add: cleanupDownloadsIfNeeded_def)
  obtain m where m: "m \<le> length ?es" "w' = remove_entries key (filter ?P (take m ?es)) w"
    "tot' = n - freed key removable w (take m ?es)" "tot' \<le> limit \<or> m = length ?es"
    "\<forall>k < m. limit < n - freed key removable w (take k ?es)"
    using reclaim_prefix [OF r] w' by auto
  let ?gone = "filter ?P (take m ?es)"
  have set: "set ?es = set es" using assms(4) by (metis set_mset_mset)
  have "mset (filter ?P ?es) = mset (filter ?P es)" using assms(4) by simp
  moreover have "mset ?gone \<subseteq># mset es"
  proof -
    have "mset (take m ?es) \<subseteq># mset ?es" by (metis append_take_drop_id mset_append mset_subset_eq_add_left)
    then show ?thesis using assms(4) by (metis multiset_filter_subset mset_filter subset_mset.order_trans)
  qed
  moreover have "limit < n - sum_list (map enSize (butlast ?gone))" if "?gone \<noteq> []"
    using filter_take_last [OF that] m(5) by metis
  moreover have "f \<in> set ?gone" if "e \<in> set ?gone" "f \<in> set es" "?P f" "enTime f < enTime e" for e f
    using sorted_prefix_older [OF assms(5), of e m f] that set by auto
  ultimately show ?thesis using m by (intro exI [of _ ?gone]) auto
qed

text \<open>
  C27: A cleanup takes what it may and no more than it must: it removes scanned files only, never one
  a rip still has to deliver, the oldest first, and stops as soon as the folder fits; when it cannot
  make it fit, every file it may remove is gone.  A file in use keeps its content, and the registry
  is untouched.
\<close>

theorem cleanup_spares_files_in_use:
  assumes "cleanup_root folder = Some root" "isDir root = Some True" "scanDownloadFolder cacheFile (walk root) = Some (n, es)"
    and "mset (order es) = mset es" "sorted (map enTime (order es))" "w' = cleanupDownloadsIfNeeded key removable order isDir walk folder cacheFile gb w"
    and "limit = telegramDownloadMaxBytes gb" "\<forall>e \<in> set es. enPath e \<noteq> []"
  shows "\<exists>gone. w' = remove_entries key gone w \<and> mset gone \<subseteq># mset es \<and>
    (n - sum_list (map enSize gone) \<le> limit \<or> mset gone = mset (filter (free_entry key removable w) es)) \<and>
    (gone \<noteq> [] \<longrightarrow> limit < n - sum_list (map enSize (butlast gone))) \<and>
    (\<forall>e \<in> set gone. \<forall>f \<in> set es. free_entry key removable w f \<and> enTime f < enTime e \<longrightarrow> f \<in> set gone) \<and>
    (\<forall>p. isInUse key p w \<longrightarrow> isInUse key p w' \<and> wDisk w' (key p) = wDisk w (key p))"
proof -
  obtain gone where g: "w' = remove_entries key gone w" "mset gone \<subseteq># mset es" "\<forall>e \<in> set gone. free_entry key removable w e"
    "n - sum_list (map enSize gone) \<le> limit \<or> mset gone = mset (filter (free_entry key removable w) es)"
    "gone \<noteq> [] \<longrightarrow> limit < n - sum_list (map enSize (butlast gone))"
    "\<forall>e \<in> set gone. \<forall>f \<in> set es. free_entry key removable w f \<and> enTime f < enTime e \<longrightarrow> f \<in> set gone"
    using cleanup_result [OF assms(1-7)] by blast
  have "set gone \<subseteq> set es" using g(2) by (metis set_mset_mono set_mset_mset)
  then have free: "\<forall>e \<in> set gone. \<not> isInUse key (enPath e) w \<and> enPath e \<noteq> []" using g(3) assms(8) by (auto simp: free_entry_def)
  have "isInUse key p w' \<and> wDisk w' (key p) = wDisk w (key p)" if "isInUse key p w" for p
    using in_use_not_removed [OF that free] that g(1) by (simp add: isInUse_def remove_entries_frame)
  with g show ?thesis by blast
qed

text \<open>Two albums: the older one is being delivered, the newer one is not in use.\<close>

definition over_full :: "node list" where
  "over_full = [\<lparr>ndPath = ''d/a'', ndRegular = True, ndSize = 30 * 1024 * 1024 * 1024, ndTime = 1\<rparr>,
                \<lparr>ndPath = ''d/b'', ndRegular = True, ndSize = 7, ndTime = 2\<rparr>]"

definition over_full_world :: world where
  "over_full_world = \<lparr>wRips = [newRipState], wReg = {#''d/a''#}, wDisk = [''d/a'' \<mapsto> 30 * 1024 * 1024 * 1024, ''d/b'' \<mapsto> 7]\<rparr>"

lemma over_full_facts:
  "cleanup_root ''d'' = Some ''d''" "path_clean ''d/a'' = ''d/a''" "path_clean ''d/b'' = ''d/b''"
  by code_simp+

lemma over_full_scan:
  "scanDownloadFolder [] (Some over_full) =
     Some (32212254727, [\<lparr>enPath = ''d/a'', enSize = 32212254720, enTime = 1\<rparr>, \<lparr>enPath = ''d/b'', enSize = 7, enTime = 2\<rparr>])"
  by (simp add: scanDownloadFolder_def over_full_def Let_def)

theorem cleanup_spares_files_in_use_witness:
  "wDisk (cleanupDownloadsIfNeeded (\<lambda>p. p) (\<lambda>_. True) (\<lambda>es. es) (\<lambda>_. Some True) (\<lambda>_. Some over_full) ''d'' [] 0 over_full_world) ''d/a'' =
     Some 32212254720"
proof -
  let ?w' = "cleanupDownloadsIfNeeded (\<lambda>p. p) (\<lambda>_. True) (\<lambda>es. es) (\<lambda>_. Some True) (\<lambda>_. Some over_full) ''d'' [] 0 over_full_world"
  have u: "isInUse (\<lambda>p. p) ''d/a'' over_full_world" by (simp add: isInUse_def over_full_world_def)
  have "\<forall>p. isInUse (\<lambda>p. p) p over_full_world \<longrightarrow> isInUse (\<lambda>p. p) p ?w' \<and> wDisk ?w' p = wDisk over_full_world p"
    using cleanup_spares_files_in_use [where walk = "\<lambda>_. Some over_full" and isDir = "\<lambda>_. Some True" and order = "\<lambda>es. es" and gb = 0
        and key = "\<lambda>p. p" and removable = "\<lambda>_. True" and w = over_full_world, OF over_full_facts(1) refl over_full_scan _ _ refl refl]
    by simp blast
  with u show ?thesis by (simp add: over_full_world_def)
qed

lemma sizes_mono:
  assumes "mset gone \<subseteq># mset es" "\<forall>e \<in> set gone. P e" "\<forall>e \<in> set es. 0 \<le> enSize e"
  shows "sum_list (map enSize gone) \<le> sum_list (map enSize (filter P es))"
proof -
  have "filter_mset P (mset gone) = mset gone" using assms(2) by (simp add: filter_mset_eq_conv)
  then have "mset gone \<subseteq># mset (filter P es)" using multiset_filter_mono [OF assms(1), of P] by simp
  then obtain D where D: "mset (filter P es) = mset gone + D" by (metis subset_mset.le_iff_add)
  have "0 \<le> sum_mset (image_mset enSize D)"
  proof -
    have "\<forall>e \<in># D. 0 \<le> enSize e" using assms(3) D by (metis filter_is_subset set_mset_mset subsetD union_iff)
    then show ?thesis by (induction D) auto
  qed
  then have "sum_mset (image_mset enSize (mset gone)) \<le> sum_mset (image_mset enSize (mset (filter P es)))" using D by simp
  then show ?thesis by (simp only: mset_map [symmetric] sum_mset_sum_list)
qed

text \<open>
  A cleanup takes downloads in progress: the registry holds a file only once its track is
  finished, so a file that another rip is still writing is as free as any other; when the files in
  use alone exceed the limit, it is removed, however new it is.
\<close>

theorem cleanup_takes_downloads_in_progress:
  assumes "cleanup_root folder = Some root" "isDir root = Some True" "scanDownloadFolder cacheFile (walk root) = Some (n, es)"
    and "mset (order es) = mset es" "sorted (map enTime (order es))"
    and "w = put_file key p (ioDecryptWrites io k) v" "\<not> isInUse key p v" "e \<in> set es" "enPath e = p" "removable p" "\<forall>e \<in> set es. 0 \<le> enSize e"
    and "telegramDownloadMaxBytes gb < n - freed key removable w es"
    and "w' = cleanupDownloadsIfNeeded key removable order isDir walk folder cacheFile gb w"
  shows "wDisk w' (key p) = None"
proof -
  obtain gone where g: "w' = remove_entries key gone w"
    "n - sum_list (map enSize gone) \<le> telegramDownloadMaxBytes gb \<or> mset gone = mset (filter (free_entry key removable w) es)"
    "mset gone \<subseteq># mset es" "\<forall>e \<in> set gone. free_entry key removable w e"
    using cleanup_result [OF assms(1-5,13) refl] by blast
  have "mset gone = mset (filter (free_entry key removable w) es)"
  proof (rule disjE [OF g(2)])
    assume le: "n - sum_list (map enSize gone) \<le> telegramDownloadMaxBytes gb"
    with sizes_mono [OF g(3,4) assms(11)] assms(12) show ?thesis by linarith
  qed
  moreover have "free_entry key removable w e" using assms(6,7,9,10) by (simp add: free_entry_def isInUse_def)
  moreover have "e \<in># mset (filter (free_entry key removable w) es)" if "free_entry key removable w e" using assms(8) that by simp
  ultimately have "e \<in># mset gone" by (simp only:)
  then have "e \<in> set gone" by simp
  then have "key p \<in> key ` enPath ` set gone" using assms(9) by blast
  then show ?thesis unfolding g(1) by (simp add: remove_entries_frame)
qed

theorem cleanup_takes_downloads_in_progress_witness:
  "wDisk (cleanupDownloadsIfNeeded (\<lambda>p. p) (\<lambda>_. True) (\<lambda>es. es) (\<lambda>_. Some True) (\<lambda>_. Some over_full) ''d'' [] 0
     (put_file (\<lambda>p. p) ''d/b'' (ioDecryptWrites broken_io 1) over_full_world)) ''d/b'' = None"
proof -
  let ?e = "\<lparr>enPath = ''d/b'', enSize = 7, enTime = 2\<rparr>" and ?w = "put_file (\<lambda>p. p) ''d/b'' (ioDecryptWrites broken_io 1) over_full_world"
  have u: "\<not> isInUse (\<lambda>p. p) ''d/b'' over_full_world" "isInUse (\<lambda>p. p) ''d/a'' ?w" "\<not> isInUse (\<lambda>p. p) ''d/b'' ?w"
    by (simp_all add: isInUse_def over_full_world_def)
  show ?thesis
    by (rule cleanup_takes_downloads_in_progress [where walk = "\<lambda>_. Some over_full" and isDir = "\<lambda>_. Some True" and order = "\<lambda>es. es" and e = ?e,
          OF over_full_facts(1) refl over_full_scan _ _ refl u(1) _ _ _ _ _ refl])
      (use u in \<open>simp_all add: free_entry_def telegramDownloadMaxBytes_def defaultTelegramDownloadMaxGB_def\<close>)
qed

subsection \<open>What a purge removes\<close>

text \<open>The files a purge of the folders takes.\<close>

definition purges ::
  "(string \<Rightarrow> string) \<Rightarrow> (string \<Rightarrow> bool) \<Rightarrow> (string \<Rightarrow> string list option) \<Rightarrow> string \<Rightarrow> string \<Rightarrow> string \<Rightarrow> bool" where
  "purges key stuck readdir cacheFile folder k =
     (case cleanup_root folder of
        None \<Rightarrow> False
      | Some root \<Rightarrow>
          (case readdir root of
             None \<Rightarrow> False
           | Some names \<Rightarrow>
               list_ex (\<lambda>name. let p = path_join root name
                               in \<not> (cacheFile \<noteq> [] \<and> path_clean p = cacheFile) \<and> under (key p) k \<and> \<not> stuck k) names))"

lemma purge_folder_disk:
  "wReg (purgeFolderContents key stuck readdir cf dir w) = wReg w" "wRips (purgeFolderContents key stuck readdir cf dir w) = wRips w"
  "cleanup_root folder = Some dir \<Longrightarrow>
   wDisk (purgeFolderContents key stuck readdir cf dir w) k = (if purges key stuck readdir cf folder k then None else wDisk w k)"
proof -
  let ?step = "\<lambda>name w. let p = path_join dir name in if cf \<noteq> [] \<and> path_clean p = cf then w else remove_all key stuck p w"
  have f: "wReg (fold ?step names w) = wReg w \<and> wRips (fold ?step names w) = wRips w \<and>
    wDisk (fold ?step names w) k =
      (if list_ex (\<lambda>name. let p = path_join dir name in \<not> (cf \<noteq> [] \<and> path_clean p = cf) \<and> under (key p) k \<and> \<not> stuck k) names
       then None else wDisk w k)" for names
    by (induction names arbitrary: w) (simp_all add: remove_all_def Let_def)
  show "wReg (purgeFolderContents key stuck readdir cf dir w) = wReg w" "wRips (purgeFolderContents key stuck readdir cf dir w) = wRips w"
    using f by (simp_all add: purgeFolderContents_def split: option.split)
  show "wDisk (purgeFolderContents key stuck readdir cf dir w) k = (if purges key stuck readdir cf folder k then None else wDisk w k)"
    if "cleanup_root folder = Some dir"
    using f that by (simp add: purgeFolderContents_def purges_def split: option.split)
qed

lemma purge_roots_disk:
  assumes "\<And>root. root \<in> set already \<Longrightarrow> \<exists>folder. cleanup_root folder = Some root \<and> (\<forall>k. purges key stuck readdir cf folder k \<longrightarrow> wDisk w k = None)"
  shows "wReg (purge_roots key stuck readdir cf already folders w) = wReg w \<and> wRips (purge_roots key stuck readdir cf already folders w) = wRips w \<and>
    wDisk (purge_roots key stuck readdir cf already folders w) k =
      (if list_ex (\<lambda>folder. purges key stuck readdir cf folder k) folders then None else wDisk w k)"
  using assms
proof (induction folders arbitrary: already w)
  case (Cons folder folders)
  note IH = Cons.IH
  show ?case
  proof (cases "cleanup_root folder")
    case None
    then show ?thesis using IH [OF Cons.prems] by (simp add: purges_def)
  next
    case (Some root)
    have same: "purges key stuck readdir cf f k = purges key stuck readdir cf folder k" if "cleanup_root f = Some root" for f k
      using that Some by (simp add: purges_def)
    show ?thesis
    proof (cases "root \<in> set already")
      case True
      from Cons.prems [OF this] have "\<forall>k. purges key stuck readdir cf folder k \<longrightarrow> wDisk w k = None" using same by blast
      then show ?thesis using IH [OF Cons.prems] True Some by simp
    next
      case False
      let ?w = "purgeFolderContents key stuck readdir cf root w"
      have "\<exists>f. cleanup_root f = Some r \<and> (\<forall>k. purges key stuck readdir cf f k \<longrightarrow> wDisk ?w k = None)" if "r \<in> set (root # already)" for r
        using that Cons.prems [of r] Some by (auto simp: purge_folder_disk(3) [OF Some])
      then have i: "wReg (purge_roots key stuck readdir cf (root # already) folders ?w) = wReg ?w"
          "wRips (purge_roots key stuck readdir cf (root # already) folders ?w) = wRips ?w"
          "wDisk (purge_roots key stuck readdir cf (root # already) folders ?w) k =
            (if list_ex (\<lambda>folder. purges key stuck readdir cf folder k) folders then None else wDisk ?w k)"
        using IH [of "root # already" ?w] by blast+
      have "purge_roots key stuck readdir cf already (folder # folders) w = purge_roots key stuck readdir cf (root # already) folders ?w"
        using False Some by simp
      then show ?thesis by (simp add: i purge_folder_disk(1,2) purge_folder_disk(3) [OF Some])
    qed
  qed
qed simp

text \<open>
  A purge is all or nothing: while a transfer runs or any file is in use it does nothing;
  otherwise it removes exactly the removable files below the entries of the configured folders,
  sparing the folders that are empty, the working directory or the file system's root, and an entry
  that is the cache file itself.
\<close>

theorem purge_spares_busy_rips:
  "if inProgress \<or> anyInUse w then purgeDownloadCaches key stuck readdir cacheFile folders inProgress w = w
   else wDisk (purgeDownloadCaches key stuck readdir cacheFile folders inProgress w) k =
     (if list_ex (\<lambda>folder. purges key stuck readdir (if trim_space cacheFile = [] then [] else path_clean (trim_space cacheFile)) folder k) folders
      then None else wDisk w k)"
  using purge_roots_disk [of "[]"] by (simp add: purgeDownloadCaches_def Let_def)

text \<open>
  The purge spares the Telegram cache file only where it lies directly in a download folder: kept
  one level down, it is deleted with the subfolder.
\<close>

theorem purge_takes_nested_cache:
  assumes "\<not> inProgress" "\<not> anyInUse w" "folder \<in> set folders" "cleanup_root folder = Some root" "readdir root = Some names" "name \<in> set names"
    and "under (key (path_join root name)) (key cacheFile)" "path_clean (path_join root name) \<noteq> path_clean (trim_space cacheFile)" "\<not> stuck (key cacheFile)"
  shows "wDisk (purgeDownloadCaches key stuck readdir cacheFile folders inProgress w) (key cacheFile) = None"
proof -
  have "purges key stuck readdir (if trim_space cacheFile = [] then [] else path_clean (trim_space cacheFile)) folder (key cacheFile)"
    using assms(4-9) by (auto simp: purges_def list_ex_iff Let_def)
  then have "list_ex (\<lambda>folder. purges key stuck readdir (if trim_space cacheFile = [] then [] else path_clean (trim_space cacheFile)) folder (key cacheFile)) folders"
    using assms(3) by (auto simp: list_ex_iff)
  then show ?thesis
    using purge_roots_disk [of "[]"] assms(1,2)
    by (cases "trim_space cacheFile = []") (simp_all add: purgeDownloadCaches_def Let_def)
qed

theorem purge_takes_nested_cache_witness:
  "wDisk (purgeDownloadCaches (\<lambda>p. p) (\<lambda>_. False) (\<lambda>d. if d = ''dl'' then Some [''bot''] else None) ''dl/bot/cache.json'' [''dl''] False
     \<lparr>wRips = [], wReg = {#}, wDisk = [''dl/bot/cache.json'' \<mapsto> 12]\<rparr>) ''dl/bot/cache.json'' = None"
proof -
  have 1: "cleanup_root ''dl'' = Some ''dl''" "under (path_join ''dl'' ''bot'') ''dl/bot/cache.json''"
    "path_clean (path_join ''dl'' ''bot'') \<noteq> path_clean (trim_space ''dl/bot/cache.json'')"
    by code_simp+
  show ?thesis
    by (rule purge_takes_nested_cache [where key = "\<lambda>p. p" and name = "''bot''" and names = "[''bot'']" and root = "''dl''", OF _ _ _ 1(1) _ _ 1(2,3)])
      (simp_all add: anyInUse_def)
qed

end
