(* ===== verification/Media_Cache.thy ===== *)
theory Media_Cache
  imports Submission
begin

section \<open>The Telegram file cache\<close>

text \<open>
  The JSON cache of uploaded files in \<^verbatim>\<open>bot/telegram_bot.go\<close>: its keys, \<^verbatim>\<open>loadCache\<close> with the migration
  of older files, \<^verbatim>\<open>storeCachedAudio\<close>, \<^verbatim>\<open>getCachedAudio\<close>, \<^verbatim>\<open>enrichCachedAudio\<close>, the document entries,
  and the requests answered from it.  An entry's bitrate and update time decide nothing and are
  left out; what Telegram and Apple answer is an argument.
\<close>

subsection \<open>Entries and keys\<close>

record cached_audio =
  caFileID :: string
  caFileSize :: int
  caCompressed :: bool
  caFormat :: string
  caSizeBytes :: int
  caDurationMillis :: int
  caTitle :: string
  caPerformer :: string

record cached_document =
  cdFileID :: string
  cdFileSize :: int

text \<open>A cache file as parsed; \<open>None\<close> for an absent map.\<close>

record cache_file =
  cfVersion :: int
  cfItems :: "(string \<rightharpoonup> cached_audio) option"
  cfDocuments :: "(string \<rightharpoonup> cached_document) option"

text \<open>The state: the two maps, the file's name and its content (\<open>None\<close>: absent or unreadable).\<close>

record media_cache =
  mcAudio :: "string \<rightharpoonup> cached_audio"
  mcDocs :: "string \<rightharpoonup> cached_document"
  mcPath :: string
  mcFile :: "cache_file option"

definition telegramFormatAlac :: string where "telegramFormatAlac = ''alac''"
definition telegramFormatFlac :: string where "telegramFormatFlac = ''flac''"
definition defaultTelegramFormat :: string where "defaultTelegramFormat = ''alac''"

definition normalizeTelegramFormat :: "string \<Rightarrow> string" where
  "normalizeTelegramFormat format =
     (let f = to_lower (trim_space format)
      in if f = telegramFormatAlac then telegramFormatAlac else if f = telegramFormatFlac then telegramFormatFlac else [])"

definition bool_text :: "bool \<Rightarrow> string" where
  "bool_text b = (if b then ''true'' else ''false'')"

definition or_flac :: "string \<Rightarrow> string" where
  "or_flac format = (if format = [] then telegramFormatFlac else format)"

definition cacheKey :: "string \<Rightarrow> string \<Rightarrow> bool \<Rightarrow> string" where
  "cacheKey trackID format compressed =
     trackID @ ''|'' @ or_flac (normalizeTelegramFormat format) @ ''|'' @ bool_text compressed"

definition albumZipCacheKey :: "string \<Rightarrow> string \<Rightarrow> string" where
  "albumZipCacheKey albumID format =
     (let n = normalizeTelegramFormat format
      in ''album:'' @ albumID @ ''|'' @ (if n = [] then defaultTelegramFormat else n) @ ''|zip'')"

text \<open>\<^verbatim>\<open>strconv.ParseBool\<close>\<close>

definition parse_bool :: "string \<Rightarrow> bool option" where
  "parse_bool s =
     (if s \<in> {''1'', ''t'', ''T'', ''TRUE'', ''true'', ''True''} then Some True
      else if s \<in> {''0'', ''f'', ''F'', ''FALSE'', ''false'', ''False''} then Some False else None)"

subsection \<open>Saving and loading\<close>

text \<open>\<open>ok\<close>: the temporary file could be written and renamed.\<close>

definition saveCacheLocked :: "bool \<Rightarrow> media_cache \<Rightarrow> media_cache" where
  "saveCacheLocked ok mc =
     (if mcPath mc = [] \<or> \<not> ok then mc
      else mc\<lparr>mcFile := Some \<lparr>cfVersion = 3, cfItems = Some (mcAudio mc), cfDocuments = Some (mcDocs mc)\<rparr>\<rparr>)"

definition bar :: char where "bar = CHR ''|''"

text \<open>One item of a file older than version 2: its new key and entry, or nothing.\<close>

definition migrate_item :: "string \<Rightarrow> cached_audio \<Rightarrow> (string \<times> cached_audio) option" where
  "migrate_item key ent =
     (case split_byte bar key of
        [trackID, b] \<Rightarrow>
          (case parse_bool b of
             None \<Rightarrow> None
           | Some compressed \<Rightarrow>
               (let e = ent\<lparr>caCompressed := compressed, caFormat := or_flac (caFormat ent)\<rparr>
                in Some (cacheKey trackID (caFormat e) compressed, e)))
      | trackID # f # b # _ \<Rightarrow>
          (case parse_bool b of
             None \<Rightarrow> None
           | Some compressed \<Rightarrow>
               (let format = or_flac (normalizeTelegramFormat f);
                    e = ent\<lparr>caCompressed := compressed, caFormat := (if caFormat ent = [] then format else caFormat ent)\<rparr>
                in Some (cacheKey trackID format compressed, e)))
      | _ \<Rightarrow> None)"

fun migrate :: "(string \<rightharpoonup> cached_audio) \<Rightarrow> string list \<Rightarrow> (string \<rightharpoonup> cached_audio) \<Rightarrow> (string \<rightharpoonup> cached_audio)" where
  "migrate items [] migrated = migrated"
| "migrate items (key # keys) migrated =
     (case items key of
        None \<Rightarrow> migrate items keys migrated
      | Some ent \<Rightarrow>
          (case migrate_item key ent of
             None \<Rightarrow> migrate items keys migrated
           | Some (k, e) \<Rightarrow> migrate items keys (migrated(k \<mapsto> e))))"

definition fix_format :: "string \<Rightarrow> cached_audio \<Rightarrow> cached_audio" where
  "fix_format key ent =
     (if caFormat ent = []
      then (let parts = split_byte bar key
            in ent\<lparr>caFormat := or_flac (if 2 \<le> length parts then normalizeTelegramFormat (parts ! 1) else [])\<rparr>)
      else ent)"

text \<open>\<open>keys\<close> is the order in which Go lists the items of an old file.\<close>

definition loadCache :: "string list \<Rightarrow> bool \<Rightarrow> media_cache \<Rightarrow> media_cache" where
  "loadCache keys ok mc0 =
     (let mc = mc0\<lparr>mcAudio := Map.empty, mcDocs := Map.empty\<rparr>
      in if mcPath mc = [] then mc
         else case mcFile mc of
                None \<Rightarrow> mc
              | Some payload \<Rightarrow>
                  (let mc1 = (case cfDocuments payload of None \<Rightarrow> mc | Some d \<Rightarrow> mc\<lparr>mcDocs := d\<rparr>)
                   in case cfItems payload of
                        None \<Rightarrow> if 0 < cfVersion payload \<and> cfVersion payload < 3 then saveCacheLocked ok mc1 else mc1
                      | Some items \<Rightarrow>
                          if cfVersion payload < 2 then saveCacheLocked ok (mc1\<lparr>mcAudio := migrate items keys Map.empty\<rparr>)
                          else let mc2 = mc1\<lparr>mcAudio := (\<lambda>k. map_option (fix_format k) (items k))\<rparr>
                               in if cfVersion payload < 3 then saveCacheLocked ok mc2 else mc2))"

subsection \<open>Storing, finding and forgetting\<close>

definition storeCachedAudio :: "bool \<Rightarrow> string \<Rightarrow> cached_audio \<Rightarrow> media_cache \<Rightarrow> media_cache" where
  "storeCachedAudio ok trackID ent mc =
     (if trackID = [] \<or> caFileID ent = [] then mc
      else let e = ent\<lparr>caFormat := or_flac (normalizeTelegramFormat (caFormat ent))\<rparr>
           in saveCacheLocked ok (mc\<lparr>mcAudio := (mcAudio mc)(cacheKey trackID (caFormat e) (caCompressed e) \<mapsto> e)\<rparr>))"

definition deleteCachedAudio :: "bool \<Rightarrow> string \<Rightarrow> string \<Rightarrow> bool \<Rightarrow> media_cache \<Rightarrow> media_cache" where
  "deleteCachedAudio ok trackID format compressed mc =
     (if trackID = [] then mc
      else saveCacheLocked ok (mc\<lparr>mcAudio := (mcAudio mc)(cacheKey trackID format compressed := None)\<rparr>))"

definition storeCachedDocument :: "bool \<Rightarrow> string \<Rightarrow> cached_document \<Rightarrow> media_cache \<Rightarrow> media_cache" where
  "storeCachedDocument ok key ent mc =
     (if key = [] \<or> cdFileID ent = [] then mc
      else saveCacheLocked ok (mc\<lparr>mcDocs := (mcDocs mc)(key \<mapsto> ent)\<rparr>))"

definition getCachedDocument :: "string \<Rightarrow> media_cache \<Rightarrow> cached_document option" where
  "getCachedDocument key mc = (if key = [] then None else mcDocs mc key)"

definition deleteCachedDocument :: "bool \<Rightarrow> string \<Rightarrow> media_cache \<Rightarrow> media_cache" where
  "deleteCachedDocument ok key mc =
     (if key = [] then mc else saveCacheLocked ok (mc\<lparr>mcDocs := (mcDocs mc)(key := None)\<rparr>))"

definition entry_size :: "cached_audio \<Rightarrow> int" where
  "entry_size e = (if caSizeBytes e \<le> 0 then caFileSize e else caSizeBytes e)"

definition too_big :: "int \<Rightarrow> cached_audio \<Rightarrow> bool" where
  "too_big maxBytes e = (0 < maxBytes \<and> 0 < entry_size e \<and> maxBytes < entry_size e)"

fun pick_best :: "int \<Rightarrow> cached_audio option \<Rightarrow> cached_audio list \<Rightarrow> cached_audio option" where
  "pick_best maxBytes best [] = best"
| "pick_best maxBytes best (e # es) =
     (if too_big maxBytes e then pick_best maxBytes best es
      else case best of
             None \<Rightarrow> pick_best maxBytes (Some e) es
           | Some b \<Rightarrow>
               if caCompressed b \<and> \<not> caCompressed e then pick_best maxBytes (Some e) es
               else if caCompressed b = caCompressed e \<and> entry_size b < entry_size e then pick_best maxBytes (Some e) es
               else pick_best maxBytes best es)"

definition listed_entry :: "string \<Rightarrow> cached_audio \<Rightarrow> cached_audio" where
  "listed_entry key ent =
     (if caFormat ent = []
      then (let parts = split_byte bar key
            in ent\<lparr>caFormat := or_flac (if 3 \<le> length parts then normalizeTelegramFormat (parts ! 1) else [])\<rparr>)
      else ent)"

text \<open>\<open>keys\<close> is the order in which Go lists the cache.\<close>

definition candidates :: "string list \<Rightarrow> string \<Rightarrow> string \<Rightarrow> media_cache \<Rightarrow> cached_audio list" where
  "candidates keys trackID format mc =
     (let n = normalizeTelegramFormat format in
      if n \<noteq> [] then
        map (\<lambda>e. if caFormat e = [] then e\<lparr>caFormat := n\<rparr> else e)
          (List.map_filter (mcAudio mc) [cacheKey trackID n False, cacheKey trackID n True])
      else List.map_filter (\<lambda>k. map_option (listed_entry k) (mcAudio mc k)) (filter (\<lambda>k. has_prefix k (trackID @ ''|'')) keys))"

definition getCachedAudio :: "string list \<Rightarrow> string \<Rightarrow> int \<Rightarrow> string \<Rightarrow> media_cache \<Rightarrow> cached_audio option" where
  "getCachedAudio keys trackID maxBytes format mc =
     (if trackID = [] then None else pick_best maxBytes None (candidates keys trackID format mc))"

text \<open>\<open>meta\<close> is the title, performer and duration \<^verbatim>\<open>fetchTrackMeta\<close> answers; a new bitrate alone also saves.\<close>

definition enrich_entry :: "(string \<times> string \<times> int) option \<Rightarrow> string \<Rightarrow> cached_audio \<Rightarrow> cached_audio" where
  "enrich_entry meta trackID ent =
     (let e1 = (if caSizeBytes ent \<le> 0 \<and> 0 < caFileSize ent then ent\<lparr>caSizeBytes := caFileSize ent\<rparr> else ent)
      in if trackID \<noteq> [] \<and> (caDurationMillis e1 \<le> 0 \<or> caTitle e1 = [] \<or> caPerformer e1 = [])
         then (case meta of
                 None \<Rightarrow> e1
               | Some (title, performer, dur) \<Rightarrow>
                   e1\<lparr>caDurationMillis := (if caDurationMillis e1 \<le> 0 \<and> 0 < dur then dur else caDurationMillis e1),
                      caTitle := (if caTitle e1 = [] then title else caTitle e1),
                      caPerformer := (if caPerformer e1 = [] then performer else caPerformer e1)\<rparr>)
         else e1)"

definition enrichCachedAudio ::
  "bool \<Rightarrow> bool \<Rightarrow> (string \<times> string \<times> int) option \<Rightarrow> string \<Rightarrow> cached_audio \<Rightarrow> media_cache \<Rightarrow> cached_audio \<times> media_cache" where
  "enrichCachedAudio ok newBitrate meta trackID ent mc =
     (let e = enrich_entry meta trackID ent
      in (e, if (e \<noteq> ent \<or> newBitrate) \<and> trackID \<noteq> [] then storeCachedAudio ok trackID e mc else mc))"

subsection \<open>Requests answered from the cache\<close>

text \<open>\<open>send\<close> tells whether Telegram accepts the file id; the message sent is the entry's file.\<close>

definition trySendCachedTrack ::
  "bool \<Rightarrow> string list \<Rightarrow> int \<Rightarrow> (string \<times> string \<times> int) option \<Rightarrow> bool \<Rightarrow> (string \<Rightarrow> bool) \<Rightarrow> string \<Rightarrow> string \<Rightarrow> media_cache \<Rightarrow>
   cached_audio option \<times> media_cache" where
  "trySendCachedTrack ok keys maxFileBytes meta newBitrate send trackID format mc =
     (case getCachedAudio keys trackID maxFileBytes format mc of
        None \<Rightarrow> (None, mc)
      | Some ent \<Rightarrow>
          (case enrichCachedAudio ok newBitrate meta trackID ent mc of
             (e, mc1) \<Rightarrow>
               if send (caFileID e) then (Some e, mc1)
               else (None, deleteCachedAudio ok trackID (caFormat ent) (caCompressed ent) mc1)))"

definition trySendCachedAlbumZip :: "bool \<Rightarrow> (string \<Rightarrow> bool) \<Rightarrow> string \<Rightarrow> string \<Rightarrow> media_cache \<Rightarrow> string option \<times> media_cache" where
  "trySendCachedAlbumZip ok send albumID format mc =
     (if albumID = [] then (None, mc)
      else let key = albumZipCacheKey albumID format
           in case getCachedDocument key mc of
                None \<Rightarrow> (None, mc)
              | Some ent \<Rightarrow>
                  if cdFileID ent \<noteq> [] \<and> send (cdFileID ent) then (Some (cdFileID ent), mc)
                  else (None, deleteCachedDocument ok key mc))"

datatype song_reply =
    EmptySong
  | SentCached cached_audio
  | SentFromCatalog "int \<times> int"
  | PromptMode

text \<open>\<^verbatim>\<open>queueDownloadSongWithReply\<close>; \<open>fromCatalog\<close> is \<^verbatim>\<open>catalogTryServeTrack\<close> on the bot's catalog.\<close>

definition queueDownloadSongWithReply ::
  "bool \<Rightarrow> string list \<Rightarrow> int \<Rightarrow> (string \<times> string \<times> int) option \<Rightarrow> bool \<Rightarrow> (string \<Rightarrow> bool) \<Rightarrow> (string \<Rightarrow> string \<Rightarrow> (int \<times> int) option) \<Rightarrow>
   string \<Rightarrow> string \<Rightarrow> bool \<Rightarrow> bool \<Rightarrow> bool \<Rightarrow> media_cache \<Rightarrow> song_reply \<times> media_cache" where
  "queueDownloadSongWithReply ok keys maxFileBytes meta newBitrate send fromCatalog songID format forceAAC forceAtmos noCache mc =
     (if songID = [] then (EmptySong, mc)
      else if noCache then (PromptMode, mc)
      else case trySendCachedTrack ok keys maxFileBytes meta newBitrate send songID format mc of
             (Some e, mc1) \<Rightarrow> (SentCached e, mc1)
           | (None, mc1) \<Rightarrow>
               (case fromCatalog songID (effectiveCatalogFormat format forceAAC forceAtmos) of
                  Some h \<Rightarrow> (SentFromCatalog h, mc1)
                | None \<Rightarrow> (PromptMode, mc1)))"

text \<open>What \<^verbatim>\<open>sendAudioFile\<close> records of an upload: the format asked for, whatever the rip produced.\<close>

definition record_upload :: "bool \<Rightarrow> string \<Rightarrow> audio_meta option \<Rightarrow> string \<Rightarrow> int \<Rightarrow> bool \<Rightarrow> int \<Rightarrow> int \<Rightarrow> media_cache \<Rightarrow> media_cache" where
  "record_upload ok format0 meta fileID fileSize compressed sizeBytes durationMillis mc =
     (let n = normalizeTelegramFormat format0; format = (if n = [] then defaultTelegramFormat else n)
      in case meta of
           None \<Rightarrow> mc
         | Some m \<Rightarrow>
             if aTrackID m \<noteq> [] \<and> fileID \<noteq> [] then
               storeCachedAudio ok (aTrackID m)
                 \<lparr>caFileID = fileID, caFileSize = fileSize, caCompressed = compressed, caFormat = format, caSizeBytes = sizeBytes,
                  caDurationMillis = durationMillis, caTitle = aTitle m, caPerformer = aPerformer m\<rparr> mc
             else mc)"

subsection \<open>The best copy is served\<close>

text \<open>\<open>better a b\<close>: \<open>b\<close> is no improvement on \<open>a\<close>.\<close>

definition no_better :: "cached_audio \<Rightarrow> cached_audio \<Rightarrow> bool" where
  "no_better a b = (if caCompressed a then caCompressed b \<and> entry_size b \<le> entry_size a
                    else caCompressed b \<or> entry_size b \<le> entry_size a)"

lemma no_better_refl: "no_better a a"
  by (simp add: no_better_def)

lemma no_better_trans: "no_better a b \<Longrightarrow> no_better b c \<Longrightarrow> no_better a c"
  by (auto simp: no_better_def split: if_splits)

definition best_of :: "cached_audio set \<Rightarrow> cached_audio option \<Rightarrow> bool" where
  "best_of S r = (case r of None \<Rightarrow> S = {} | Some b \<Rightarrow> b \<in> S \<and> (\<forall>e \<in> S. no_better b e))"

lemma best_of_better: "best_of S (Some b) \<Longrightarrow> no_better e b \<Longrightarrow> best_of (insert e S) (Some e)"
  unfolding best_of_def by (auto intro: no_better_refl no_better_trans [of e b])

lemma best_of_keep: "best_of S (Some b) \<Longrightarrow> no_better b e \<Longrightarrow> best_of (insert e S) (Some b)"
  by (simp add: best_of_def)

lemma best_of_first: "best_of S None \<Longrightarrow> best_of (insert e S) (Some e)"
  by (simp add: best_of_def no_better_refl)

lemma pick_best_of: "best_of S best \<Longrightarrow> best_of (S \<union> {e \<in> set es. \<not> too_big maxBytes e}) (pick_best maxBytes best es)"
proof (induction es arbitrary: S best)
  case (Cons e es)
  have split: "S \<union> {x \<in> set (e # es). \<not> too_big maxBytes x} =
      (if too_big maxBytes e then S else insert e S) \<union> {x \<in> set es. \<not> too_big maxBytes x}"
    by auto
  show ?case
  proof (cases "too_big maxBytes e")
    case True
    then show ?thesis unfolding split using Cons by simp
  next
    case small: False
    show ?thesis
    proof (cases best)
      case None
      with Cons.IH [OF best_of_first] Cons.prems small show ?thesis unfolding split by simp
    next
      case (Some b)
      have prem: "best_of S (Some b)" using Cons.prems Some by simp
      show ?thesis
      proof (cases "no_better b e")
        case True
        then have "pick_best maxBytes best (e # es) = pick_best maxBytes (Some b) es"
          using small Some by (auto simp: no_better_def split: if_splits)
        with Cons.IH [OF best_of_keep [OF prem True]] small show ?thesis unfolding split by simp
      next
        case False
        then have better: "no_better e b" by (auto simp: no_better_def split: if_splits)
        have "pick_best maxBytes best (e # es) = pick_best maxBytes (Some e) es"
          using False small Some by (auto simp: no_better_def split: if_splits)
        with Cons.IH [OF best_of_better [OF prem better]] small show ?thesis unfolding split by simp
      qed
    qed
  qed
qed simp

text \<open>
  The best cached copy is served: a lookup finds nothing only when every copy of the track in the
  format exceeds the size limit, and otherwise a copy that fits it, uncompressed if any such fits,
  and the largest of those.
\<close>

theorem best_copy_served:
  assumes "getCachedAudio keys trackID maxBytes format mc = r" "trackID \<noteq> []"
  shows "case r of
      None \<Rightarrow> list_all (too_big maxBytes) (candidates keys trackID format mc)
    | Some b \<Rightarrow> \<not> too_big maxBytes b \<and> b \<in> set (candidates keys trackID format mc) \<and>
        (if caCompressed b then list_all (\<lambda>e. too_big maxBytes e \<or> caCompressed e) (candidates keys trackID format mc) else True) \<and>
        list_all (\<lambda>e. too_big maxBytes e \<or> caCompressed e \<noteq> caCompressed b \<or> entry_size e \<le> entry_size b) (candidates keys trackID format mc)"
proof -
  have "best_of ({} \<union> {e \<in> set (candidates keys trackID format mc). \<not> too_big maxBytes e}) r"
    using pick_best_of [where S = "{}" and best = None and maxBytes = maxBytes and es = "candidates keys trackID format mc"] assms
    by (simp add: best_of_def getCachedAudio_def)
  then show ?thesis
    by (auto simp: best_of_def list_all_iff no_better_def split: option.splits if_splits)
qed

definition a_copy :: "string \<Rightarrow> bool \<Rightarrow> int \<Rightarrow> cached_audio" where
  "a_copy fid compressed n =
     \<lparr>caFileID = fid, caFileSize = n, caCompressed = compressed, caFormat = ''flac'', caSizeBytes = n, caDurationMillis = 1, caTitle = ''t'', caPerformer = ''p''\<rparr>"

definition two_copies :: media_cache where
  "two_copies = storeCachedAudio True ''7'' (a_copy ''small'' True 40) (storeCachedAudio True ''7'' (a_copy ''big'' False 90)
     \<lparr>mcAudio = Map.empty, mcDocs = Map.empty, mcPath = ''c.json'', mcFile = None\<rparr>)"

lemma two_copies_found: "getCachedAudio [] ''7'' 50 ''flac'' two_copies = Some (a_copy ''small'' True 40)"
  by code_simp

theorem best_copy_served_witness:
  "getCachedAudio [] ''7'' 50 ''flac'' two_copies = Some (a_copy ''small'' True 40) \<and>
   list_all (\<lambda>e. too_big 50 e \<or> caCompressed e) (candidates [] ''7'' ''flac'' two_copies)"
  using best_copy_served [OF two_copies_found] two_copies_found by (simp add: a_copy_def)

subsection \<open>Restarts\<close>

datatype cache_op =
    StoreAudio string cached_audio
  | DropAudio string string bool
  | StoreDoc string cached_document
  | DropDoc string

fun cache_step :: "cache_op \<Rightarrow> media_cache \<Rightarrow> media_cache" where
  "cache_step (StoreAudio t e) mc = storeCachedAudio True t e mc"
| "cache_step (DropAudio t f c) mc = deleteCachedAudio True t f c mc"
| "cache_step (StoreDoc k e) mc = storeCachedDocument True k e mc"
| "cache_step (DropDoc k) mc = deleteCachedDocument True k mc"

definition cache_ok :: "media_cache \<Rightarrow> bool" where
  "cache_ok mc =
     (mcPath mc \<noteq> [] \<and> mcFile mc = Some \<lparr>cfVersion = 3, cfItems = Some (mcAudio mc), cfDocuments = Some (mcDocs mc)\<rparr> \<and>
      (\<forall>k e. mcAudio mc k = Some e \<longrightarrow> caFormat e \<noteq> []))"

lemma or_flac_nonempty [simp]: "or_flac f \<noteq> []"
  by (simp add: or_flac_def telegramFormatFlac_def)

lemma cache_step_ok: "cache_ok mc \<Longrightarrow> cache_ok (cache_step op1 mc)"
  by (cases op1) (auto simp: cache_ok_def storeCachedAudio_def deleteCachedAudio_def storeCachedDocument_def deleteCachedDocument_def
      saveCacheLocked_def Let_def)

lemma cache_steps_ok: "cache_ok mc \<Longrightarrow> cache_ok (fold cache_step ops mc)"
  by (induction ops arbitrary: mc) (simp_all add: cache_step_ok)

lemma loadCache_ok:
  assumes "cache_ok mc" "mcPath mc0 = mcPath mc" "mcFile mc0 = mcFile mc"
  shows "loadCache keys ok mc0 = mc"
proof -
  have "map_option (fix_format k) (mcAudio mc k) = mcAudio mc k" for k
    using assms(1) by (cases "mcAudio mc k") (auto simp: cache_ok_def fix_format_def)
  then show ?thesis using assms by (simp add: cache_ok_def loadCache_def Let_def)
qed



subsection \<open>Formats and tiers\<close>

lemma cacheKey_compressed: "cacheKey t f True \<noteq> cacheKey t f False"
  by (simp add: cacheKey_def bool_text_def)

lemma normalize_formats [simp]:
  "normalizeTelegramFormat ''alac'' = ''alac''" "normalizeTelegramFormat ''flac'' = ''flac''"
  by code_simp+

lemma enrich_file: "caFileID (fst (enrichCachedAudio ok nb meta t e mc)) = caFileID e"
  by (simp add: enrichCachedAudio_def enrich_entry_def Let_def split: option.split)

text \<open>
  The file cache ignores the quality asked for: its key holds the container format only, so an
  upload of an Atmos or AAC rip recorded under \<^verbatim>\<open>alac\<close> answers the next request for the song,
  whatever tier that asks for, although the catalog's own lookup distinguishes the tiers.
\<close>

theorem cached_song_crosses_tiers:
  assumes "mcAudio mc (cacheKey (aTrackID m) ''alac'' (\<not> compressed)) = None" "aTrackID m \<noteq> []" "fid \<noteq> []" "send fid" "0 < sz" "sz \<le> maxBytes"
    and "mc1 = record_upload ok ''alac'' (Some m) fid sz compressed sz dur mc"
  shows "\<exists>e mc2. queueDownloadSongWithReply ok keys maxBytes meta nb send fromCatalog (aTrackID m) ''alac'' forceAAC forceAtmos False mc1 =
    (SentCached e, mc2) \<and> caFileID e = fid"
proof -
  let ?e = "\<lparr>caFileID = fid, caFileSize = sz, caCompressed = compressed, caFormat = ''alac'', caSizeBytes = sz,
             caDurationMillis = dur, caTitle = aTitle m, caPerformer = aPerformer m\<rparr>"
  have a: "mcAudio mc1 = (mcAudio mc)(cacheKey (aTrackID m) ''alac'' compressed \<mapsto> ?e)"
    using assms(2,3,7) by (simp add: record_upload_def storeCachedAudio_def saveCacheLocked_def or_flac_def Let_def)
  have "candidates keys (aTrackID m) ''alac'' mc1 = [?e]"
    using assms(1) cacheKey_compressed [of "aTrackID m" "''alac''"]
    by (cases compressed) (simp_all add: candidates_def a map_filter_def Let_def)
  then have g: "getCachedAudio keys (aTrackID m) maxBytes ''alac'' mc1 = Some ?e"
    using assms(2,5,6) by (simp add: getCachedAudio_def too_big_def entry_size_def)
  obtain e mc2 where en: "enrichCachedAudio ok nb meta (aTrackID m) ?e mc1 = (e, mc2)" by fastforce
  then have "caFileID e = fid" using enrich_file [of ok nb meta "aTrackID m" ?e mc1] by simp
  then show ?thesis
    using assms(2,4) g en by (simp add: queueDownloadSongWithReply_def trySendCachedTrack_def)
qed

theorem cached_song_crosses_tiers_witness:
  "\<exists>e mc2. queueDownloadSongWithReply True [] 50 None False (\<lambda>_. True) (\<lambda>_ _. None) ''7'' ''alac'' False False False
     (record_upload True ''alac'' (Some (zero_audio_meta\<lparr>aTrackID := ''7'', aCodec := ''ATMOS''\<rparr>)) ''f'' 9 False 9 1
        \<lparr>mcAudio = Map.empty, mcDocs = Map.empty, mcPath = [], mcFile = None\<rparr>) = (SentCached e, mc2) \<and> caFileID e = ''f''"
  using cached_song_crosses_tiers [where m = "zero_audio_meta\<lparr>aTrackID := ''7'', aCodec := ''ATMOS''\<rparr>" and compressed = False and fid = "''f''" and
      send = "\<lambda>_. True" and sz = 9 and maxBytes = 50 and mc = "\<lparr>mcAudio = Map.empty, mcDocs = Map.empty, mcPath = [], mcFile = None\<rparr>"
      and ok = True and dur = 1, OF _ _ _ _ _ _ refl]
  by simp

end
