(* ===== verification/Delivery.thy ===== *)
theory Delivery
  imports Scheduler Rip_Track
begin

section \<open>Delivering the files of a rip\<close>

text \<open>
  The delivery half of \<^verbatim>\<open>bot/telegram_bot.go\<close>: uploads to Telegram (Bot API, MTProto, the helper
  pool) and to Gofile, with their fallbacks.  A delivery is a function on the log of what it did;
  the outside world answers each call as a function of the log so far.  Message texts around a link,
  captions, thumbnails and the cover post carry no decision and are left out; board phases that
  quote sizes are abbreviated.  \<^verbatim>\<open>Recorded\<close> stands for \<^verbatim>\<open>recordGofileDelivery\<close>.
\<close>

subsection \<open>Calls, answers and the log\<close>

datatype err = Canceled | Err string

primrec err_text :: "err \<Rightarrow> string" where
  "err_text Canceled = ''context canceled''"
| "err_text (Err t) = t"

datatype call =
    BotVideo string | BotPhoto string | BotDocument string | BotAudio string
  | MtVideo string | MtDocument string | MtAudio string | MtGroup "string list"
  | Gofile string | GofileAs string string
  | CopyFromDump int "(string \<times> int) list"

datatype closing = LeftToOthers | KeptOnScreen | Removed

datatype event =
    Did call "err option"
  | Dumped string "err + int \<times> int"
  | Indexed string int int
  | Recorded string
  | Zipped "string list" "err + string \<times> string"
  | Board string
  | Told string
  | Link string
  | Summary "string list"
  | Closed closing

record env =
  eCancelled :: "event list \<Rightarrow> bool"
  eMtproto :: "event list \<Rightarrow> bool"
  ePool :: "event list \<Rightarrow> bool"
  eCatalog :: bool
  eOthers :: "event list \<Rightarrow> bool"
  eShows :: "event list \<Rightarrow> call \<Rightarrow> string list"
  eDo :: "event list \<Rightarrow> call \<Rightarrow> err option"
  eDump :: "event list \<Rightarrow> string \<Rightarrow> err + int \<times> int"
  eZip :: "event list \<Rightarrow> string list \<Rightarrow> err + string \<times> string"
  eTitle :: "string \<Rightarrow> string"
  eSize :: "event list \<Rightarrow> string \<Rightarrow> err + int"
  eOrder :: "nat \<Rightarrow> nat list"

text \<open>
  \<open>eShows\<close>: the phases a transfer puts on the board itself; \<open>eOrder n\<close>: the order in which \<open>n\<close>
  parallel uploads finish; \<open>eTitle\<close>: a track's recorded title, or its base name.  \<^verbatim>\<open>UpdateSync\<close> and \<^verbatim>\<open>Update\<close> set the phase of the task's board.
\<close>

definition UpdateSync :: "string \<Rightarrow> event list \<Rightarrow> event list" where
  "UpdateSync phase h = h @ [Board (let t = trim_space phase in if t = [] then ''Working'' else t)]"

definition attempt :: "env \<Rightarrow> call \<Rightarrow> event list \<Rightarrow> err option \<times> event list" where
  "attempt e c h = (let h1 = fold UpdateSync (eShows e h c) h; r = eDo e h1 c in (r, h1 @ [Did c r]))"

fun latestPhase :: "event list \<Rightarrow> string" where
  "latestPhase [] = []"
| "latestPhase (ev # h) = (let p = latestPhase h in if p = [] then (case ev of Board t \<Rightarrow> t | _ \<Rightarrow> []) else p)"

definition finishedAsFailure :: "string \<Rightarrow> bool" where
  "finishedAsFailure phase =
     (let p = to_lower (trim_space phase) in contains p ''fail'' \<or> contains p ''cancel'' \<or> has_prefix p ''no files'')"

text \<open>\<^verbatim>\<open>retireBoard\<close>, and \<^verbatim>\<open>Stop\<close>, its alias: only the first has an effect.\<close>

definition board_closed :: "event list \<Rightarrow> bool" where
  "board_closed h = list_ex (\<lambda>ev. case ev of Closed c \<Rightarrow> True | _ \<Rightarrow> False) h"

definition retireBoard :: "env \<Rightarrow> event list \<Rightarrow> event list" where
  "retireBoard e h =
     (if board_closed h then h
      else h @ [Closed (if eOthers e h then LeftToOthers else if finishedAsFailure (latestPhase h) then KeptOnScreen else Removed)])"

definition cross_mark :: string where "cross_mark = [CHR 0xE2, CHR 0x9D, CHR 0x8C]"
definition no_entry :: string where "no_entry = [CHR 0xE2, CHR 0x9B, CHR 0x94]"
definition ellipsis :: string where "ellipsis = [CHR 0xE2, CHR 0x80, CHR 0xA6]"
definition check_mark :: string where "check_mark = [CHR 0xE2, CHR 0x9C, CHR 0x85]"

definition first_line :: "string \<Rightarrow> string" where
  "first_line s = (if list_ex (\<lambda>c. c = CHR 0x0A \<or> c = CHR 0x0D) s
                   then trim_space (takeWhile (\<lambda>c. c \<noteq> CHR 0x0A \<and> c \<noteq> CHR 0x0D) s) else s)"

definition friendlyTaskError :: "string \<Rightarrow> err option \<Rightarrow> string" where
  "friendlyTaskError prefix er =
     (case er of
        None \<Rightarrow> prefix
      | Some Canceled \<Rightarrow> no_entry @ '' Cancelled.''
      | Some (Err t) \<Rightarrow>
          (let msg = first_line (trim_space t);
               msg = (if 180 < length msg then take 180 msg @ ellipsis else msg)
           in if msg = [] then cross_mark @ '' '' @ prefix @ ''.'' else cross_mark @ '' '' @ prefix @ '': '' @ msg))"

definition reportDeliveryFailure :: "env \<Rightarrow> err option \<Rightarrow> event list \<Rightarrow> event list" where
  "reportDeliveryFailure e lastErr h =
     (if lastErr = Some Canceled then UpdateSync ''Cancelled'' h
      else let detail = (case lastErr of None \<Rightarrow> ''delivery failed'' | Some x \<Rightarrow> err_text x)
           in retireBoard e (UpdateSync (''Failed: '' @ detail) h) @ [Told detail])"

definition sendDeliverySummary :: "string list \<Rightarrow> event list \<Rightarrow> event list" where
  "sendDeliverySummary paths h = (if length paths < 2 then h else h @ [Summary paths])"

definition finish_sent :: "env \<Rightarrow> string list \<Rightarrow> event list \<Rightarrow> event list" where
  "finish_sent e paths h = sendDeliverySummary paths (retireBoard e h)"

subsection \<open>Single files\<close>

definition isVideoFile :: "string \<Rightarrow> bool" where
  "isVideoFile path = (to_lower (path_ext path) \<in> {''.mp4'', ''.m4v'', ''.mov''})"

definition isAnimatedArtwork :: "string \<Rightarrow> bool" where
  "isAnimatedArtwork path = (path_base path \<in> {''square_animated_artwork.mp4'', ''tall_animated_artwork.mp4''})"

definition mtprotoMaxBytes :: int where "mtprotoMaxBytes = 2 * 1000 * 1000 * 1024"

definition size_or_0 :: "env \<Rightarrow> string \<Rightarrow> event list \<Rightarrow> int" where
  "size_or_0 e path h = (case eSize e h path of Inl x \<Rightarrow> 0 | Inr n \<Rightarrow> n)"

definition try_video :: "env \<Rightarrow> string \<Rightarrow> event list \<Rightarrow> err option \<times> event list" where
  "try_video e path h =
     (case attempt e (MtVideo path) h of
        (None, h1) \<Rightarrow> (None, h1)
      | (Some x, h1) \<Rightarrow>
          if eCancelled e h1 then (Some Canceled, h1)
          else (case attempt e (MtDocument path) (UpdateSync (warn_glyph @ '' Video send failed: '' @ err_text x @ ''. Sending as document...'') h1) of
                  (None, h2) \<Rightarrow> (None, h2)
                | (Some y, h2) \<Rightarrow> if eCancelled e h2 then (Some Canceled, h2) else (Some y, h2)))"

definition sendVideoFileMTProto :: "env \<Rightarrow> string \<Rightarrow> event list \<Rightarrow> err option \<times> event list" where
  "sendVideoFileMTProto e path h =
     (if eCancelled e h then (Some Canceled, h)
      else if \<not> eMtproto e h then (Some (Err ''mtproto not ready''), h)
      else if mtprotoMaxBytes < size_or_0 e path h then (Some (Err ''file exceeds MTProto size ceiling''), h)
      else try_video e path h)"

text \<open>Upload to Gofile and post the link, as every fallback does.\<close>

definition gofile_link :: "env \<Rightarrow> string \<Rightarrow> event list \<Rightarrow> err option \<times> event list" where
  "gofile_link e path h =
     (case attempt e (Gofile path) h of (None, h1) \<Rightarrow> (None, h1 @ [Link path]) | (Some x, h1) \<Rightarrow> (Some x, h1))"

definition deliverSingleTrackFallback :: "env \<Rightarrow> string \<Rightarrow> event list \<Rightarrow> bool \<times> event list" where
  "deliverSingleTrackFallback e path h =
     (if eCancelled e h then (False, h)
      else if eMtproto e h then
        (case attempt e (MtAudio path) h of
           (None, h1) \<Rightarrow> (True, h1)
         | (Some x, h1) \<Rightarrow>
             if eCancelled e h1 then (False, h1)
             else (case gofile_link e path h1 of (r, h2) \<Rightarrow> (r = None, h2)))
      else (case gofile_link e path h of (r, h1) \<Rightarrow> (r = None, h1)))"

text \<open>The animated artwork goes out first, through the Bot API; the rest is kept for the tracks' route.\<close>

fun send_artwork :: "env \<Rightarrow> string list \<Rightarrow> bool \<Rightarrow> event list \<Rightarrow> bool \<times> event list" where
  "send_artwork e [] sentAny h = (sentAny, h)"
| "send_artwork e (p # ps) sentAny h =
     (if isAnimatedArtwork p
      then (case attempt e (BotVideo p) h of (r, h1) \<Rightarrow> send_artwork e ps (sentAny \<or> r = None) h1)
      else send_artwork e ps sentAny h)"

abbreviation remaining :: "string list \<Rightarrow> string list" where
  "remaining paths \<equiv> filter (\<lambda>p. \<not> isAnimatedArtwork p) paths"

abbreviation cancelled_here :: "event list \<Rightarrow> event list" where
  "cancelled_here h \<equiv> UpdateSync ''Cancelled'' h"

text \<open>The music videos of a collection; the first component: the delivery ends here, cancelled.\<close>

fun send_videos :: "env \<Rightarrow> string list \<Rightarrow> bool \<Rightarrow> event list \<Rightarrow> bool \<times> bool \<times> event list" where
  "send_videos e [] sentAny h = (False, sentAny, h)"
| "send_videos e (p # ps) sentAny h =
     (if \<not> isVideoFile p then send_videos e ps sentAny h
      else if eCancelled e h then (True, sentAny, cancelled_here h)
      else (case sendVideoFileMTProto e p h of
              (None, h1) \<Rightarrow> send_videos e ps True h1
            | (Some Canceled, h1) \<Rightarrow> (True, sentAny, cancelled_here h1)
            | (Some (Err t), h1) \<Rightarrow>
                (case gofile_link e p h1 of (r, h2) \<Rightarrow> send_videos e ps (sentAny \<or> r = None) h2)))"

subsection \<open>Through the upload pool\<close>

text \<open>
  Phase A: the uploads in the order in which they finish, each result kept under its track's index.
  An upload that starts after a cancel has the context's error.
\<close>

fun dump_all :: "env \<Rightarrow> string list \<Rightarrow> nat list \<Rightarrow> (nat \<Rightarrow> err + int \<times> int) \<Rightarrow> nat \<Rightarrow> event list \<Rightarrow> (nat \<Rightarrow> err + int \<times> int) \<times> event list" where
  "dump_all e paths [] res n h = (res, h)"
| "dump_all e paths (i # is) res n h =
     (if eCancelled e h then dump_all e paths is (res(i := Inl Canceled)) n h
      else let r = eDump e h (paths ! i);
               h1 = UpdateSync (''Uploading '' @ itoa (int (Suc n)) @ ''/'' @ itoa (int (length paths))) (h @ [Dumped (paths ! i) r])
           in dump_all e paths is (res(i := r)) (Suc n) h1)"

text \<open>The tracks that reached the dump, in track order, recorded in the catalog on the way.\<close>

definition in_dump :: "err + int \<times> int \<Rightarrow> (int \<times> int) option" where
  "in_dump r = (case r of Inl x \<Rightarrow> None | Inr (d, m) \<Rightarrow> if m = 0 then None else Some (d, m))"

fun index_dumped :: "env \<Rightarrow> string list \<Rightarrow> (nat \<Rightarrow> err + int \<times> int) \<Rightarrow> nat list \<Rightarrow> int \<Rightarrow> (nat \<times> int) list \<Rightarrow> event list \<Rightarrow>
    int \<times> (nat \<times> int) list \<times> event list" where
  "index_dumped e paths res [] dumpID ids h = (dumpID, ids, h)"
| "index_dumped e paths res (i # is) dumpID ids h =
     (case in_dump (res i) of
        None \<Rightarrow> index_dumped e paths res is dumpID ids h
      | Some (d, m) \<Rightarrow> index_dumped e paths res is d (ids @ [(i, m)]) (if eCatalog e then h @ [Indexed (paths ! i) d m] else h))"

definition fwdChunk :: nat where "fwdChunk = 90"

text \<open>Phase B: forwards of at most 90 messages; a refused one leaves its tracks undelivered and goes on.\<close>

function forward_chunks :: "env \<Rightarrow> string list \<Rightarrow> int \<Rightarrow> (nat \<times> int) list \<Rightarrow> nat set \<Rightarrow> event list \<Rightarrow> nat set \<times> event list" where
  "forward_chunks e paths dumpID ids delivered h =
     (if ids = [] then (delivered, h)
      else let chunk = take fwdChunk ids
           in case attempt e (CopyFromDump dumpID (map (\<lambda>(i, m). (paths ! i, m)) chunk)) h of
                (None, h1) \<Rightarrow> forward_chunks e paths dumpID (drop fwdChunk ids) (delivered \<union> fst ` set chunk) h1
              | (Some x, h1) \<Rightarrow> forward_chunks e paths dumpID (drop fwdChunk ids) delivered h1)"
  by pat_completeness auto
termination by (relation "measure (\<lambda>(e, ps, d, ids, s, h). length ids)") (auto simp: fwdChunk_def)

declare forward_chunks.simps [simp del]

fun fallback_rest :: "env \<Rightarrow> string list \<Rightarrow> nat set \<Rightarrow> nat list \<Rightarrow> bool \<Rightarrow> event list \<Rightarrow> bool \<times> event list" where
  "fallback_rest e paths delivered [] sentAny h = (sentAny, h)"
| "fallback_rest e paths delivered (i # is) sentAny h =
     (if eCancelled e h then (sentAny, cancelled_here h)
      else if i \<in> delivered then fallback_rest e paths delivered is sentAny h
      else (case deliverSingleTrackFallback e (paths ! i) h of
              (ok, h1) \<Rightarrow> fallback_rest e paths delivered is (sentAny \<or> ok) h1))"

definition forward_dumped :: "env \<Rightarrow> string list \<Rightarrow> int \<Rightarrow> (nat \<times> int) list \<Rightarrow> event list \<Rightarrow> nat set \<times> event list" where
  "forward_dumped e paths dumpID ids h = (if ids = [] \<or> eCancelled e h then ({}, h) else forward_chunks e paths dumpID ids {} h)"

definition deliverAudioViaPool :: "env \<Rightarrow> string list \<Rightarrow> event list \<Rightarrow> bool \<times> event list" where
  "deliverAudioViaPool e audioPaths h =
     (let n = length audioPaths;
          (res, h1) = dump_all e audioPaths (eOrder e n) (\<lambda>i. Inr (0, 0)) 0 h;
          (dumpID, ids, h2) = index_dumped e audioPaths res [0..<n] 0 [] h1;
          (delivered, h3) = forward_dumped e audioPaths dumpID ids h2
      in fallback_rest e audioPaths delivered [0..<n] (delivered \<noteq> {}) h3)"

subsection \<open>Track by track\<close>

fun send_each :: "env \<Rightarrow> string list \<Rightarrow> bool \<Rightarrow> event list \<Rightarrow> bool \<times> bool \<times> event list" where
  "send_each e [] sentAny h = (False, sentAny, h)"
| "send_each e (p # ps) sentAny h =
     (if eCancelled e h then (True, sentAny, cancelled_here h)
      else (case attempt e (MtAudio p) h of
              (None, h1) \<Rightarrow> send_each e ps True h1
            | (Some x, h1) \<Rightarrow>
                (case gofile_link e p (UpdateSync (''Upload failed for '' @ eTitle e p @ '': '' @ err_text x @ ''. Uploading to Gofile...'') h1) of
                   (r, h2) \<Rightarrow> send_each e ps (sentAny \<or> r = None) h2)))"

definition maxGroupSize :: nat where "maxGroupSize = 10"

function send_groups :: "env \<Rightarrow> string list \<Rightarrow> bool \<Rightarrow> event list \<Rightarrow> bool \<times> bool \<times> event list" where
  "send_groups e paths sentAny h =
     (if paths = [] then (False, sentAny, h)
      else if eCancelled e h then (True, sentAny, cancelled_here h)
      else let chunk = take maxGroupSize paths; rest = drop maxGroupSize paths
           in case attempt e (MtGroup chunk) h of
                (None, h1) \<Rightarrow> send_groups e rest True h1
              | (Some x, h1) \<Rightarrow>
                  if eCancelled e h1 then (True, sentAny, cancelled_here h1)
                  else (case send_each e chunk sentAny (UpdateSync (warn_glyph @ '' Group upload failed: '' @ err_text x @ ''. Sending individually via MTProto...'') h1) of
                          (True, sent, h2) \<Rightarrow> (True, sent, h2)
                        | (False, sent, h2) \<Rightarrow> send_groups e rest sent h2))"
  by pat_completeness auto
termination by (relation "measure (\<lambda>(e, ps, s, h). length ps)") (auto simp: maxGroupSize_def)

declare send_groups.simps [simp del]

text \<open>Without MTProto: the Bot API up to its limit, then Gofile.  The third component is the last error.\<close>

fun send_small :: "env \<Rightarrow> int \<Rightarrow> string list \<Rightarrow> bool \<Rightarrow> err option \<Rightarrow> event list \<Rightarrow> bool \<times> bool \<times> err option \<times> event list" where
  "send_small e maxFileBytes [] sentAny lastErr h = (False, sentAny, lastErr, h)"
| "send_small e maxFileBytes (p # ps) sentAny lastErr h =
     (if eCancelled e h then (True, sentAny, lastErr, cancelled_here h)
      else (case eSize e h p of
              Inl x \<Rightarrow> send_small e maxFileBytes ps sentAny (Some x) h
            | Inr n \<Rightarrow>
                (case (if n \<le> maxFileBytes then attempt e (BotAudio p) h else (Some (Err []), h)) of
                   (None, h1) \<Rightarrow> send_small e maxFileBytes ps True lastErr h1
                 | (Some x, h1) \<Rightarrow>
                     if eCancelled e h1 then (True, sentAny, lastErr, cancelled_here h1)
                     else (case gofile_link e p (UpdateSync ''Uploading to Gofile...'' h1) of
                             (None, h2) \<Rightarrow> send_small e maxFileBytes ps True lastErr h2
                           | (Some y, h2) \<Rightarrow> send_small e maxFileBytes ps sentAny (Some y) (UpdateSync (''Gofile upload failed: '' @ err_text y) h2)))))"

definition close_delivery :: "env \<Rightarrow> string list \<Rightarrow> bool \<Rightarrow> err option \<Rightarrow> event list \<Rightarrow> event list" where
  "close_delivery e paths sentAny lastErr h = (if sentAny then finish_sent e paths h else reportDeliveryFailure e lastErr h)"

definition deliverTelegramIndividualFallback :: "env \<Rightarrow> int \<Rightarrow> string list \<Rightarrow> event list \<Rightarrow> event list" where
  "deliverTelegramIndividualFallback e maxFileBytes paths h =
     (case send_artwork e paths False h of
        (sentAny, h1) \<Rightarrow>
          (case send_small e maxFileBytes (remaining paths) sentAny None h1 of
             (True, sent, lastErr, h2) \<Rightarrow> h2
           | (False, sent, lastErr, h2) \<Rightarrow> close_delivery e (remaining paths) sent lastErr h2))"

abbreviation audio_of :: "string list \<Rightarrow> string list" where
  "audio_of paths \<equiv> filter (\<lambda>p. \<not> isVideoFile p) (remaining paths)"

definition deliver_audio :: "env \<Rightarrow> string list \<Rightarrow> bool \<Rightarrow> event list \<Rightarrow> bool \<times> bool \<times> event list" where
  "deliver_audio e audioPaths sentAny h =
     (if ePool e h \<and> audioPaths \<noteq> []
      then (case deliverAudioViaPool e audioPaths h of (ok, h1) \<Rightarrow> (False, sentAny \<or> ok, h1))
      else send_groups e audioPaths sentAny h)"

definition deliverTelegramIndividual :: "env \<Rightarrow> int \<Rightarrow> string list \<Rightarrow> event list \<Rightarrow> event list" where
  "deliverTelegramIndividual e maxFileBytes paths h =
     (if eCancelled e h then cancelled_here h
      else if \<not> eMtproto e h then deliverTelegramIndividualFallback e maxFileBytes paths h
      else (case send_artwork e paths False h of
              (sent0, h1) \<Rightarrow>
                (case send_videos e (remaining paths) sent0 h1 of
                   (True, sent1, h2) \<Rightarrow> h2
                 | (False, sent1, h2) \<Rightarrow>
                     (case deliver_audio e (audio_of paths) sent1 h2 of
                        (True, sent2, h3) \<Rightarrow> h3
                      | (False, sent2, h3) \<Rightarrow> if sent2 then finish_sent e (remaining paths) h3 else h3))))"

subsection \<open>ZIP archives, music videos, artwork\<close>

text \<open>\<open>shown\<close> is the rip's display name (\<^verbatim>\<open>flushDisplayName\<close>), empty when none is set.\<close>

definition maxTelegramZipBytes :: int where "maxTelegramZipBytes = 1900 * 1024 * 1024"

definition deliverGofileZipFromPath :: "env \<Rightarrow> string \<Rightarrow> string \<Rightarrow> string \<Rightarrow> event list \<Rightarrow> event list" where
  "deliverGofileZipFromPath e shown zipPath displayName h =
     (if eCancelled e h then cancelled_here h
      else let name = (if shown \<noteq> [] then safe_name shown @ ''.zip'' else displayName)
           in case attempt e (GofileAs zipPath name) (UpdateSync ''Uploading to Gofile...'' h) of
                (Some x, h1) \<Rightarrow> reportDeliveryFailure e (Some x) h1
              | (None, h1) \<Rightarrow> retireBoard e (h1 @ [Recorded (trim_suffix name ''.zip''), Link name]))"

text \<open>\<^verbatim>\<open>createZipFromPaths\<close>: the archive and its display name.\<close>

definition make_zip :: "env \<Rightarrow> string list \<Rightarrow> event list \<Rightarrow> (err + string \<times> string) \<times> event list" where
  "make_zip e paths h = (let r = (if paths = [] then Inl (Err ''no files to zip'') else eZip e h paths) in (r, h @ [Zipped paths r]))"

definition send_zip_pool :: "env \<Rightarrow> string \<Rightarrow> string \<Rightarrow> string \<Rightarrow> string list \<Rightarrow> event list \<Rightarrow> event list" where
  "send_zip_pool e shown zipPath displayName paths h =
     (let r = eDump e h zipPath; h1 = h @ [Dumped zipPath r]
      in case r of
           Inr (dumpID, msgID) \<Rightarrow>
             (case attempt e (CopyFromDump dumpID [(zipPath, msgID)]) h1 of
                (None, h2) \<Rightarrow> finish_sent e paths h2
              | (Some x, h2) \<Rightarrow> deliverGofileZipFromPath e shown zipPath displayName h2)
         | Inl x \<Rightarrow> if eCancelled e h1 then cancelled_here h1 else deliverGofileZipFromPath e shown zipPath displayName h1)"

definition send_zip_mtproto :: "env \<Rightarrow> string \<Rightarrow> string \<Rightarrow> string \<Rightarrow> string list \<Rightarrow> event list \<Rightarrow> event list" where
  "send_zip_mtproto e shown zipPath displayName paths h =
     (if eMtproto e h
      then (case attempt e (MtDocument zipPath) h of
              (None, h1) \<Rightarrow> finish_sent e paths h1
            | (Some x, h1) \<Rightarrow> if eCancelled e h1 then cancelled_here h1 else deliverGofileZipFromPath e shown zipPath displayName h1)
      else deliverGofileZipFromPath e shown zipPath displayName h)"

definition deliverTelegramZip :: "env \<Rightarrow> string \<Rightarrow> string list \<Rightarrow> event list \<Rightarrow> event list" where
  "deliverTelegramZip e shown paths h =
     (if eCancelled e h then cancelled_here h
      else case make_zip e paths (UpdateSync ''Zipping'' h) of
             (Inl x, h1) \<Rightarrow> reportDeliveryFailure e (Some x) h1
           | (Inr (zipPath, displayName), h1) \<Rightarrow>
               if maxTelegramZipBytes < size_or_0 e zipPath h1
               then deliverGofileZipFromPath e shown zipPath displayName (UpdateSync ''ZIP is over 1.90 GB, uploading to Gofile instead.'' h1)
               else if eCancelled e h1 then cancelled_here h1
               else if ePool e h1 then send_zip_pool e shown zipPath displayName paths h1
               else send_zip_mtproto e shown zipPath displayName paths h1)"

fun gofile_each :: "env \<Rightarrow> string list \<Rightarrow> bool \<Rightarrow> err option \<Rightarrow> event list \<Rightarrow> bool \<times> bool \<times> err option \<times> event list" where
  "gofile_each e [] sentAny lastErr h = (False, sentAny, lastErr, h)"
| "gofile_each e (p # ps) sentAny lastErr h =
     (if eCancelled e h then (True, sentAny, lastErr, cancelled_here h)
      else (case gofile_link e p (UpdateSync ''Uploading to Gofile...'' h) of
              (None, h1) \<Rightarrow> gofile_each e ps True lastErr h1
            | (Some x, h1) \<Rightarrow> gofile_each e ps sentAny (Some x) (UpdateSync (''Gofile upload failed: '' @ err_text x) h1)))"

definition deliverGofileZip :: "env \<Rightarrow> string \<Rightarrow> string list \<Rightarrow> bool \<Rightarrow> event list \<Rightarrow> event list" where
  "deliverGofileZip e shown paths single h =
     (if eCancelled e h then cancelled_here h
      else if single then
        (case send_artwork e paths False h of
           (sentAny, h1) \<Rightarrow>
             (case gofile_each e (remaining paths) sentAny None h1 of
                (True, sent, lastErr, h2) \<Rightarrow> h2
              | (False, sent, lastErr, h2) \<Rightarrow> if sent then retireBoard e h2 else reportDeliveryFailure e lastErr h2))
      else (case make_zip e paths (UpdateSync ''Zipping'' h) of
              (Inl x, h1) \<Rightarrow> reportDeliveryFailure e (Some x) h1
            | (Inr (zipPath, displayName), h1) \<Rightarrow> deliverGofileZipFromPath e shown zipPath displayName h1))"

definition deliverMvGofile :: "env \<Rightarrow> string \<Rightarrow> event list \<Rightarrow> event list" where
  "deliverMvGofile e path h =
     (if eCancelled e h then cancelled_here h
      else case gofile_link e path (UpdateSync ''Uploading to Gofile...'' h) of
             (Some x, h1) \<Rightarrow> reportDeliveryFailure e (Some x) h1
           | (None, h1) \<Rightarrow> retireBoard e h1)"

definition deliverMusicVideo :: "env \<Rightarrow> string \<Rightarrow> event list \<Rightarrow> event list" where
  "deliverMusicVideo e path h =
     (if eCancelled e h then cancelled_here h
      else if eMtproto e h \<and> size_or_0 e path h \<le> mtprotoMaxBytes
      then (case sendVideoFileMTProto e path h of
              (None, h1) \<Rightarrow> retireBoard e h1
            | (Some x, h1) \<Rightarrow> if x = Canceled \<or> eCancelled e h1 then cancelled_here h1 else deliverMvGofile e path h1)
      else deliverMvGofile e path h)"

text \<open>Artwork: images as photos, or as documents when the user prefers that, motion artwork as video.\<close>

definition art_call :: "bool \<Rightarrow> string \<Rightarrow> call" where
  "art_call preferDoc p =
     (let ext = to_lower (path_ext p)
      in if ext \<in> {''.mp4'', ''.mov'', ''.m4v''} then BotVideo p
         else if ext \<in> {''.jpg'', ''.jpeg'', ''.png'', ''.webp''} then (if preferDoc then BotDocument p else BotPhoto p)
         else BotPhoto p)"

fun send_art :: "env \<Rightarrow> bool \<Rightarrow> string list \<Rightarrow> bool \<Rightarrow> err option \<Rightarrow> event list \<Rightarrow> bool \<times> bool \<times> err option \<times> event list" where
  "send_art e preferDoc [] sentAny lastErr h = (False, sentAny, lastErr, h)"
| "send_art e preferDoc (p # ps) sentAny lastErr h =
     (if eCancelled e h then (True, sentAny, lastErr, cancelled_here h)
      else (case attempt e (art_call preferDoc p) h of
              (None, h1) \<Rightarrow> send_art e preferDoc ps True lastErr h1
            | (Some x, h1) \<Rightarrow>
                (case attempt e (BotDocument p) h1 of
                   (None, h2) \<Rightarrow> send_art e preferDoc ps True lastErr h2
                 | (Some y, h2) \<Rightarrow> send_art e preferDoc ps sentAny (Some y) h2)))"

definition deliverArtwork :: "env \<Rightarrow> bool \<Rightarrow> string list \<Rightarrow> event list \<Rightarrow> event list" where
  "deliverArtwork e preferDoc paths h =
     (if eCancelled e h then cancelled_here h
      else case send_art e preferDoc paths False None (UpdateSync ''Uploading artwork...'' h) of
             (True, sent, lastErr, h1) \<Rightarrow> h1
           | (False, sent, lastErr, h1) \<Rightarrow> if sent then retireBoard e h1 else reportDeliveryFailure e lastErr h1)"

text \<open>\<^verbatim>\<open>flushChunkToGofile\<close>, the callback of the mid-rip flush: a part, or a release under its label.\<close>

definition flush_name :: "string \<Rightarrow> string \<Rightarrow> int \<Rightarrow> string \<Rightarrow> string" where
  "flush_name shown base part label =
     (if label \<noteq> [] then safe_name label @ ''.zip''
      else (if shown \<noteq> [] then safe_name shown else trim_suffix base ''.zip'') @ '' (Part '' @ itoa part @ '').zip'')"

definition flushChunkToGofile :: "env \<Rightarrow> string \<Rightarrow> string list \<Rightarrow> int \<Rightarrow> string \<Rightarrow> event list \<Rightarrow> err option \<times> event list" where
  "flushChunkToGofile e shown paths part label h =
     (if eCancelled e h then (Some Canceled, h)
      else let zipping = (if label \<noteq> [] then ''Zipping '' @ label else ''Reached the threshold, zipping part '' @ itoa part)
           in case make_zip e paths (UpdateSync zipping h) of
                (Inl x, h1) \<Rightarrow> (Some x, h1)
              | (Inr (zipPath, base), h1) \<Rightarrow>
                  let name = flush_name shown base part label
                  in case attempt e (GofileAs zipPath name) (UpdateSync (''Uploading '' @ name @ '' to Gofile'') h1) of
                       (Some x, h2) \<Rightarrow> (Some x, h2)
                     | (None, h2) \<Rightarrow> (None, h2 @ [Recorded (trim_suffix name ''.zip''), Link name]))"

subsection \<open>What is done with the files of a rip\<close>

definition transferModeZip :: string where "transferModeZip = ''zip''"
definition transferModeMv :: string where "transferModeMv = ''mv''"
definition transferModeArt :: string where "transferModeArt = ''art''"

datatype route = ToGofileZip bool | ToVideo | ToMvGofile | ToArtwork | ToIndividual | ToTelegramZip

definition largePlaylistThreshold :: nat where "largePlaylistThreshold = 100"

definition gofile_for_size :: "string \<Rightarrow> bool" where
  "gofile_for_size transferMode =
     (transferMode \<notin> {transferModeTelegramIndividual, transferModeGofileZip, transferModeMv, transferModeMvGofile, transferModeArt})"

definition route_of :: "string \<Rightarrow> string \<Rightarrow> bool \<Rightarrow> bool \<Rightarrow> nat \<Rightarrow> route" where
  "route_of transferMode albumID single flushed n =
     (if flushed then ToGofileZip False
      else if has_prefix albumID ''pl.'' \<and> largePlaylistThreshold < n \<and> gofile_for_size transferMode
      then ToGofileZip single
      else if transferMode = transferModeMv then ToVideo
      else if transferMode = transferModeMvGofile then ToMvGofile
      else if transferMode = transferModeArt then ToArtwork
      else if transferMode = transferModeTelegramIndividual then ToIndividual
      else if transferMode = transferModeTelegramZip then ToTelegramZip
      else if transferMode = transferModeGofileZip then ToGofileZip single
      else if transferMode = transferModeZip then ToGofileZip single
      else ToIndividual)"

record rip_end =
  xMode :: string
  xAlbumID :: string
  xSingle :: bool
  xMaxFileBytes :: int
  xCounter :: counter

definition nothing_to_deliver :: "env \<Rightarrow> rip \<Rightarrow> counter \<Rightarrow> event list \<Rightarrow> event list" where
  "nothing_to_deliver e r ctr h =
     (if flushedSomething (Some r)
      then retireBoard e (UpdateSync (check_mark @ '' Delivered in '' @ itoa (sFlushSeq r) @ '' part(s) to Gofile.'') h)
      else if failureSummary r \<noteq> [] then UpdateSync (''No files were downloaded: '' @ failureSummary r) h
      else if 0 < ctError ctr \<or> 0 < ctUnavailable ctr
      then UpdateSync (''No files were downloaded. Errors: '' @ itoa (ctError ctr) @ '', unavailable: '' @ itoa (ctUnavailable ctr) @ ''.'') h
      else UpdateSync ''No files were downloaded.'' h)"

definition prefers_document :: "rip \<Rightarrow> bool" where
  "prefers_document r = (case sPrefs r of None \<Rightarrow> False | Some p \<Rightarrow> pCoverDelivery p = ''document'')"

fun deliver_route :: "env \<Rightarrow> rip_end \<Rightarrow> rip \<Rightarrow> route \<Rightarrow> string list \<Rightarrow> event list \<Rightarrow> event list" where
  "deliver_route e x r (ToGofileZip single) paths h = deliverGofileZip e (flushDisplayName (Some r)) paths single h"
| "deliver_route e x r ToVideo paths h = deliverMusicVideo e (hd paths) h"
| "deliver_route e x r ToMvGofile paths h = deliverMvGofile e (hd paths) h"
| "deliver_route e x r ToArtwork paths h = deliverArtwork e (prefers_document r) paths h"
| "deliver_route e x r ToIndividual paths h = deliverTelegramIndividual e (xMaxFileBytes x) paths h"
| "deliver_route e x r ToTelegramZip paths h = deliverTelegramZip e (flushDisplayName (Some r)) paths h"

definition announce_route :: "rip_end \<Rightarrow> rip \<Rightarrow> nat \<Rightarrow> event list \<Rightarrow> event list" where
  "announce_route x r n h =
     (if flushedSomething (Some r) then UpdateSync (''Uploading final part '' @ itoa (sFlushSeq r + 1) @ '' to Gofile'' @ ellipsis) h
      else if has_prefix (xAlbumID x) ''pl.'' \<and> largePlaylistThreshold < n \<and> gofile_for_size (xMode x)
      then UpdateSync (''Large playlist ('' @ itoa (int n) @ '' tracks), routing to Gofile.'') h
      else h)"

text \<open>From the end of the rip function to the end of \<^verbatim>\<open>runDownload\<close>, for a rip no catalog plan took over.\<close>

definition deliver_rip :: "env \<Rightarrow> rip_end \<Rightarrow> rip \<Rightarrow> event list \<Rightarrow> event list" where
  "deliver_rip e x r h =
     (let paths = remainderPaths r; n = length paths
      in if paths = [] then nothing_to_deliver e r (xCounter x) h
         else deliver_route e x r (route_of (xMode x) (xAlbumID x) (xSingle x) (flushedSomething (Some r)) n) paths (announce_route x r n h))"

definition finish_rip :: "env \<Rightarrow> rip_end \<Rightarrow> err option \<Rightarrow> rip \<Rightarrow> event list \<Rightarrow> event list" where
  "finish_rip e x fnErr r h =
     retireBoard e
       (if fnErr \<noteq> None then UpdateSync (friendlyTaskError ''Download failed'' fnErr) h
        else let warning = releaseWarningSummary r
             in deliver_rip e x r (if warning \<noteq> [] then h @ [Told warning] else h))"

subsection \<open>What a delivery achieves\<close>

text \<open>The files that reached the chat, in order; the files given up; a delivery that was stopped.\<close>

primrec call_files :: "call \<Rightarrow> string list" where
  "call_files (BotVideo p) = [p]"
| "call_files (BotPhoto p) = [p]"
| "call_files (BotDocument p) = [p]"
| "call_files (BotAudio p) = [p]"
| "call_files (MtVideo p) = [p]"
| "call_files (MtDocument p) = [p]"
| "call_files (MtAudio p) = [p]"
| "call_files (MtGroup ps) = ps"
| "call_files (Gofile p) = [p]"
| "call_files (GofileAs z name) = [z]"
| "call_files (CopyFromDump d items) = map fst items"

fun got :: "event \<Rightarrow> string list" where
  "got (Did c None) = call_files c"
| "got _ = []"

definition got_all :: "event list \<Rightarrow> string list" where
  "got_all h = concat (map got h)"

definition given_up :: "env \<Rightarrow> event list \<Rightarrow> event list \<Rightarrow> string \<Rightarrow> bool" where
  "given_up e h new p =
     ((\<exists>x. Did (Gofile p) (Some x) \<in> set new) \<or> (\<exists>x. Did (BotVideo p) (Some x) \<in> set new) \<or>
      (\<exists>k \<le> length new. \<exists>x. eSize e (h @ take k new) p = Inl x))"

definition stopped :: "env \<Rightarrow> event list \<Rightarrow> event list \<Rightarrow> bool" where
  "stopped e h new = ((\<exists>k \<le> length new. eCancelled e (h @ take k new)) \<or> (\<exists>c. Did c (Some Canceled) \<in> set new))"

text \<open>From \<open>h\<close> to \<open>h'\<close> each file of \<open>ps\<close> was sent once or given up, unless the delivery was stopped; \<open>sent\<close>: any was.\<close>

definition served :: "env \<Rightarrow> event list \<Rightarrow> event list \<Rightarrow> bool \<Rightarrow> string list \<Rightarrow> bool" where
  "served e h h' sent ps =
     (\<exists>new. h' = h @ new \<and> mset (got_all new) \<subseteq># mset ps \<and> sent = (got_all new \<noteq> []) \<and>
        (stopped e h new \<or> list_all (\<lambda>p. p \<in> set (got_all new) \<or> given_up e h new p) ps))"

lemma got_all_simps [simp]:
  "got_all [] = []" "got_all (ev # h) = got ev @ got_all h" "got_all (h @ k) = got_all h @ got_all k"
  by (simp_all add: got_all_def)

lemma got_failed [simp]: "got (Did c (Some x)) = []"
  by simp


lemma stopped_append1: "stopped e h a \<Longrightarrow> stopped e h (a @ b)"
  unfolding stopped_def
proof (elim disjE exE conjE)
  fix k assume "k \<le> length a" "eCancelled e (h @ take k a)"
  then show "(\<exists>k \<le> length (a @ b). eCancelled e (h @ take k (a @ b))) \<or> (\<exists>c. Did c (Some Canceled) \<in> set (a @ b))"
    by (intro disjI1 exI [of _ k]) simp
qed auto

lemma stopped_append2: "stopped e (h @ a) b \<Longrightarrow> stopped e h (a @ b)"
  unfolding stopped_def
proof (elim disjE exE conjE)
  fix k assume "k \<le> length b" "eCancelled e ((h @ a) @ take k b)"
  then show "(\<exists>k \<le> length (a @ b). eCancelled e (h @ take k (a @ b))) \<or> (\<exists>c. Did c (Some Canceled) \<in> set (a @ b))"
    by (intro disjI1 exI [of _ "length a + k"]) simp
qed auto

lemma given_up_append1: "given_up e h a p \<Longrightarrow> given_up e h (a @ b) p"
  unfolding given_up_def
proof (elim disjE exE conjE, goal_cases)
  case (3 k x)
  then show ?case by (intro disjI2 exI [of _ k]) auto
qed auto

lemma given_up_append2: "given_up e (h @ a) b p \<Longrightarrow> given_up e h (a @ b) p"
  unfolding given_up_def
proof (elim disjE exE conjE, goal_cases)
  case (3 k x)
  then show ?case by (intro disjI2 exI [of _ "length a + k"]) auto
qed auto

lemma served_refl [simp]: "served e h h False []"
  unfolding served_def by (intro exI [of _ "[]"]) simp

lemma served_trans:
  assumes "served e h h1 a ps" "served e h1 h2 b qs" "c = (a \<or> b)" "mset rs = mset ps + mset qs"
  shows "served e h h2 c rs"
proof -
  obtain m where m: "h1 = h @ m" "mset (got_all m) \<subseteq># mset ps" "a = (got_all m \<noteq> [])"
    "stopped e h m \<or> list_all (\<lambda>p. p \<in> set (got_all m) \<or> given_up e h m p) ps"
    using assms(1) by (auto simp: served_def)
  obtain n where n: "h2 = h1 @ n" "mset (got_all n) \<subseteq># mset qs" "b = (got_all n \<noteq> [])"
    "stopped e h1 n \<or> list_all (\<lambda>p. p \<in> set (got_all n) \<or> given_up e h1 n p) qs"
    using assms(2) by (auto simp: served_def)
  have set: "set rs = set ps \<union> set qs" using assms(4) by (metis set_mset_mset set_mset_union)
  have "stopped e h (m @ n) \<or> list_all (\<lambda>p. p \<in> set (got_all (m @ n)) \<or> given_up e h (m @ n) p) rs"
  proof (cases "stopped e h m \<or> stopped e h1 n")
    case True
    then show ?thesis using stopped_append1 stopped_append2 m(1) by blast
  next
    case False
    then have "p \<in> set (got_all (m @ n)) \<or> given_up e h (m @ n) p" if "p \<in> set rs" for p
      using m(1,4) n(4) set that given_up_append1 [of e h m p n] given_up_append2 [of e h m n p]
      by (auto simp: list_all_iff)
    then show ?thesis by (simp add: list_all_iff)
  qed
  then show ?thesis unfolding served_def
    using m n assms(3,4) by (intro exI [of _ "m @ n"]) (auto intro: subset_mset.add_mono)
qed

lemma served_more: "served e h h1 a [] \<Longrightarrow> served e h1 h2 b ps \<Longrightarrow> served e h h2 (a \<or> b) ps"
  by (erule served_trans) auto

lemma served_quiet: "got_all new = [] \<Longrightarrow> served e h (h @ new) False []"
  unfolding served_def by (intro exI [of _ new]) simp

lemma served_then_quiet: "served e h h1 a ps \<Longrightarrow> served e h1 h2 False [] \<Longrightarrow> served e h h2 a ps"
  by (erule served_trans) auto

lemma served_quiet_then: "served e h h1 False [] \<Longrightarrow> served e h1 h2 a ps \<Longrightarrow> served e h h2 a ps"
  by (erule served_trans) auto

text \<open>A delivery that stops owes nothing.\<close>

lemma served_halt:
  assumes "eCancelled e h" "got_all new = []"
  shows "served e h (h @ new) False ps"
proof -
  have "stopped e h new" unfolding stopped_def using assms(1) by (intro disjI1 exI [of _ 0]) simp
  then show ?thesis unfolding served_def using assms(2) by (intro exI [of _ new]) simp
qed

lemma served_stop_here: "eCancelled e h \<Longrightarrow> served e h (cancelled_here h) False ps"
  unfolding UpdateSync_def by (rule served_halt) auto

lemma UpdateSync_quiet [simp]: "served e h (UpdateSync t h) False []"
  unfolding UpdateSync_def by (rule served_quiet) simp

lemma fold_UpdateSync: "\<exists>new. fold UpdateSync ts h = h @ new \<and> got_all new = []"
proof (induction ts arbitrary: h)
  case (Cons t ts)
  obtain new where "fold UpdateSync ts (UpdateSync t h) = UpdateSync t h @ new" "got_all new = []" using Cons.IH by blast
  moreover obtain b where "UpdateSync t h = h @ [Board b]" by (simp add: UpdateSync_def)
  ultimately show ?case by (intro exI [of _ "Board b # new"]) simp
qed simp

lemma attempt_log:
  assumes "attempt e c h = (r, h1)"
  obtains new where "h1 = h @ new @ [Did c r]" "got_all new = []"
proof -
  obtain new where n: "fold UpdateSync (eShows e h c) h = h @ new" "got_all new = []" using fold_UpdateSync by blast
  have "h1 = h @ new @ [Did c r]" using assms by (simp add: attempt_def Let_def n(1)) (metis append_assoc)
  with n(2) that show ?thesis by blast
qed

lemma served_ok: "attempt e c h = (None, h1) \<Longrightarrow> call_files c = ps \<Longrightarrow> ps \<noteq> [] \<Longrightarrow> served e h h1 True ps"
  by (erule attempt_log, unfold served_def) (auto simp: list_all_iff)

lemma served_failed: "attempt e c h = (Some x, h1) \<Longrightarrow> served e h h1 False []"
  by (erule attempt_log, unfold served_def) auto

lemma served_refused:
  assumes "attempt e c h = (Some x, h1)" "c = Gofile p \<or> c = BotVideo p"
  shows "served e h h1 False [p]"
  using assms(1)
proof (rule attempt_log)
  fix new assume n: "h1 = h @ new @ [Did c (Some x)]" "got_all new = []"
  have "given_up e h (new @ [Did c (Some x)]) p" using assms(2) unfolding given_up_def by (elim disjE) auto
  with n show ?thesis unfolding served_def by (intro exI [of _ "new @ [Did c (Some x)]"]) auto
qed

lemma served_attempt_one: "attempt e c h = (r, h1) \<Longrightarrow> c = Gofile p \<or> c = BotVideo p \<Longrightarrow> served e h h1 (r = None) [p]"
  using served_refused [of e c h _ h1 p] served_ok [of e c h h1 "[p]"] by (cases r) auto

lemma gofile_link_served: "gofile_link e p h = (r, h1) \<Longrightarrow> served e h h1 (r = None) [p]"
proof -
  assume g: "gofile_link e p h = (r, h1)"
  obtain r' h' where a: "attempt e (Gofile p) h = (r', h')" by fastforce
  have s: "served e h h' (r' = None) [p]" by (rule served_attempt_one [OF a]) simp
  have q: "served e h' (h' @ [Link p]) False []" by (rule served_quiet) simp
  from g a show ?thesis using s served_then_quiet [OF s q] by (cases r') (auto simp: gofile_link_def)
qed

lemma retireBoard_quiet [simp]: "served e h (retireBoard e h) False []"
  by (auto simp: retireBoard_def intro: served_quiet)

lemma finish_sent_quiet [simp]: "served e h (finish_sent e paths h) False []"
  unfolding finish_sent_def sendDeliverySummary_def
  by (auto intro: served_then_quiet [OF retireBoard_quiet served_quiet])

lemma reportDeliveryFailure_quiet [simp]: "served e h (reportDeliveryFailure e er h) False []"
proof -
  have "served e h (retireBoard e (UpdateSync t h) @ [Told u]) False []" for t u
    by (rule served_then_quiet [OF served_then_quiet [OF UpdateSync_quiet retireBoard_quiet] served_quiet]) simp
  then show ?thesis by (simp add: reportDeliveryFailure_def Let_def)
qed

lemma served_cancel_error:
  assumes "attempt e c h = (Some Canceled, h1)"
  shows "served e h h1 False ps"
  using assms
proof (rule attempt_log)
  fix new assume n: "h1 = h @ new @ [Did c (Some Canceled)]" "got_all new = []"
  then have "stopped e h (new @ [Did c (Some Canceled)])" unfolding stopped_def by auto
  with n show ?thesis unfolding served_def by (intro exI [of _ "new @ [Did c (Some Canceled)]"]) auto
qed

lemma served_halted: "served e h h1 False [] \<Longrightarrow> eCancelled e h1 \<Longrightarrow> served e h h1 False ps"
  using served_quiet_then [of e h h1 h1 False ps] served_halt [of e h1 "[]" ps] by simp

lemma served_halted_here: "served e h h1 a [] \<Longrightarrow> eCancelled e h1 \<Longrightarrow> served e h (cancelled_here h1) a ps"
  by (rule served_trans [OF _ served_stop_here]) auto

lemma sendVideo_served:
  assumes "sendVideoFileMTProto e p h = (r, h1)"
  shows "case r of None \<Rightarrow> served e h h1 True [p] | Some Canceled \<Rightarrow> served e h h1 False ps | Some (Err t) \<Rightarrow> served e h h1 False []"
proof (cases "eCancelled e h \<or> \<not> eMtproto e h \<or> mtprotoMaxBytes < size_or_0 e p h")
  case True
  then show ?thesis using assms served_halt [of e h "[]" ps] by (auto simp: sendVideoFileMTProto_def split: if_splits)
next
  case False
  obtain r1 g1 where v: "attempt e (MtVideo p) h = (r1, g1)" by fastforce
  show ?thesis
  proof (cases r1)
    case None
    then show ?thesis using assms False v served_ok [of e "MtVideo p" h g1 "[p]"]
      by (auto simp: sendVideoFileMTProto_def try_video_def)
  next
    case (Some x)
    then have sv: "served e h g1 False []" using v served_failed by blast
    let ?t = "warn_glyph @ '' Video send failed: '' @ err_text x @ ''. Sending as document...''"
    obtain r2 g2 where d: "attempt e (MtDocument p) (UpdateSync ?t g1) = (r2, g2)" by fastforce
    have st: "served e h (UpdateSync ?t g1) False []" by (rule served_quiet_then [OF sv UpdateSync_quiet])
    show ?thesis
    proof (cases "eCancelled e g1")
      case True
      then show ?thesis using assms False v Some served_halted [OF sv] by (auto simp: sendVideoFileMTProto_def try_video_def)
    next
      case nc: False
      show ?thesis
      proof (cases r2)
        case None
        then have "served e h g2 True [p]" using d by (intro served_quiet_then [OF st] served_ok) auto
        then show ?thesis using assms False v Some nc d None by (auto simp: sendVideoFileMTProto_def try_video_def)
      next
        case (Some y)
        then have f: "served e h g2 False []" using d by (blast intro: served_quiet_then [OF st] served_failed)
        have "served e h g2 False ps" if "y = Canceled"
          using d Some that by (blast intro: served_quiet_then [OF st] served_cancel_error)
        then show ?thesis using assms False v \<open>r1 = Some x\<close> nc d Some f served_halted [OF f]
          by (auto simp: sendVideoFileMTProto_def try_video_def split: err.split if_splits)
      qed
    qed
  qed
qed

text \<open>A loop carries the flag \<open>sentAny\<close>.\<close>

definition serves :: "env \<Rightarrow> event list \<Rightarrow> event list \<Rightarrow> bool \<Rightarrow> bool \<Rightarrow> string list \<Rightarrow> bool" where
  "serves e h h' s s' ps = (\<exists>sent. s' = (s \<or> sent) \<and> served e h h' sent ps)"

lemma serves_nil [simp]: "serves e h h s s []"
  unfolding serves_def by (intro exI [of _ False]) simp

lemma serves_halt: "eCancelled e h \<Longrightarrow> serves e h (cancelled_here h) s s ps"
  unfolding serves_def by (intro exI [of _ False]) (simp add: served_stop_here)

lemma serves_then:
  assumes "served e h h1 a ps" "serves e h1 h2 t s' qs" "t = (s \<or> a)" "mset rs = mset ps + mset qs"
  shows "serves e h h2 s s' rs"
proof -
  obtain b where "s' = (t \<or> b)" "served e h1 h2 b qs" using assms(2) by (auto simp: serves_def)
  with assms show ?thesis unfolding serves_def by (intro exI [of _ "a \<or> b"]) (auto intro: served_trans)
qed

lemma serves_trans:
  "serves e h h1 s t ps \<Longrightarrow> serves e h1 h2 t s' qs \<Longrightarrow> mset rs = mset ps + mset qs \<Longrightarrow> serves e h h2 s s' rs"
  unfolding serves_def [of e h h1] by (elim exE conjE) (rule serves_then)

lemma serves_first: "served e h h1 False [] \<Longrightarrow> serves e h1 h2 s s' ps \<Longrightarrow> serves e h h2 s s' ps"
  by (erule serves_then) auto

lemma serves_one: "served e h h1 a [p] \<Longrightarrow> serves e h1 h2 (s \<or> a) s' ps \<Longrightarrow> serves e h h2 s s' (p # ps)"
  by (erule serves_then) auto

lemma served_serves: "served e h h1 a ps \<Longrightarrow> serves e h h1 s (s \<or> a) ps"
  unfolding serves_def by blast

lemma serves_same: "served e h h1 False ps \<Longrightarrow> serves e h h1 s s ps"
  unfolding serves_def by (intro exI [of _ False]) simp

lemma send_artwork_serves: "send_artwork e ps s h = (s', h') \<Longrightarrow> serves e h h' s s' (filter isAnimatedArtwork ps)"
proof (induction ps arbitrary: s h)
  case (Cons p ps)
  obtain r h1 where a: "attempt e (BotVideo p) h = (r, h1)" by fastforce
  have "served e h h1 (r = None) [p]" by (rule served_attempt_one [OF a]) simp
  with Cons a show ?case by (auto intro: serves_one split: if_splits)
qed auto

text \<open>A loop that halts owes nothing of what would have come later.\<close>

abbreviation owed :: "bool \<Rightarrow> string list \<Rightarrow> string list" where
  "owed halted rest \<equiv> (if halted then rest else [])"

lemma send_videos_serves:
  "send_videos e ps s h = (halted, s', h') \<Longrightarrow> serves e h h' s s' (filter isVideoFile ps @ owed halted rest)"
proof (induction ps arbitrary: s h)
  case (Cons p ps)
  consider "\<not> isVideoFile p" | "isVideoFile p" "eCancelled e h" | "isVideoFile p" "\<not> eCancelled e h" by blast
  then show ?case
  proof cases
    case 1
    with Cons show ?thesis by auto
  next
    case 2
    with Cons.prems show ?thesis by (auto simp: serves_halt)
  next
    case 3
    obtain r h1 where v: "sendVideoFileMTProto e p h = (r, h1)" by fastforce
    note sv = sendVideo_served [OF v]
    show ?thesis
    proof (cases r)
      case None
      with 3 v Cons sv [of "[]"] show ?thesis by (auto intro: serves_one)
    next
      case (Some x)
      show ?thesis
      proof (cases x)
        case Canceled
        have "served e h (cancelled_here h1) False ps'" for ps'
          using sv [of ps'] Some Canceled served_then_quiet [OF _ UpdateSync_quiet] by simp
        with 3 v Some Canceled Cons.prems show ?thesis by (auto intro: serves_same)
      next
        case (Err t)
        obtain r2 h2 where g: "gofile_link e p h1 = (r2, h2)" by fastforce
        have f: "served e h h1 False []" using sv [of "[]"] Some Err by simp
        have "served e h h2 (r2 = None) [p]" by (rule served_quiet_then [OF f gofile_link_served [OF g]])
        with 3 v Some Err g Cons show ?thesis by (auto intro: serves_one)
      qed
    qed
  qed
qed auto

lemma send_each_serves:
  "send_each e ps s h = (halted, s', h') \<Longrightarrow> serves e h h' s s' (ps @ owed halted rest)"
proof (induction ps arbitrary: s h)
  case (Cons p ps)
  show ?case
  proof (cases "eCancelled e h")
    case True
    with Cons.prems show ?thesis by (auto simp: serves_halt)
  next
    case False
    obtain r h1 where a: "attempt e (MtAudio p) h = (r, h1)" by fastforce
    show ?thesis
    proof (cases r)
      case None
      have "served e h h1 True [p]" using a None by (intro served_ok) auto
      with None a Cons False show ?thesis by (auto intro: serves_one)
    next
      case (Some x)
      let ?u = "UpdateSync (''Upload failed for '' @ eTitle e p @ '': '' @ err_text x @ ''. Uploading to Gofile...'') h1"
      obtain r2 h2 where g: "gofile_link e p ?u = (r2, h2)" by fastforce
      have "served e h ?u False []" using a Some served_quiet_then [OF served_failed UpdateSync_quiet] by blast
      then have one: "served e h h2 (r2 = None) [p]" using gofile_link_served [OF g] served_quiet_then by blast
      have "send_each e ps (s \<or> r2 = None) h2 = (halted, s', h')" using Cons.prems False a Some g by simp
      from Cons.IH [OF this] one show ?thesis by (auto intro: serves_one)
    qed
  qed
qed auto

lemma send_groups_steps:
  "send_groups e [] s h = (False, s, h)"
  "ps \<noteq> [] \<Longrightarrow> eCancelled e h \<Longrightarrow> send_groups e ps s h = (True, s, cancelled_here h)"
  "ps \<noteq> [] \<Longrightarrow> \<not> eCancelled e h \<Longrightarrow> attempt e (MtGroup (take maxGroupSize ps)) h = (None, h1) \<Longrightarrow>
   send_groups e ps s h = send_groups e (drop maxGroupSize ps) True h1"
  "ps \<noteq> [] \<Longrightarrow> \<not> eCancelled e h \<Longrightarrow> attempt e (MtGroup (take maxGroupSize ps)) h = (Some x, h1) \<Longrightarrow> eCancelled e h1 \<Longrightarrow>
   send_groups e ps s h = (True, s, cancelled_here h1)"
  "ps \<noteq> [] \<Longrightarrow> \<not> eCancelled e h \<Longrightarrow> attempt e (MtGroup (take maxGroupSize ps)) h = (Some x, h1) \<Longrightarrow> \<not> eCancelled e h1 \<Longrightarrow>
   send_each e (take maxGroupSize ps) s (UpdateSync (warn_glyph @ '' Group upload failed: '' @ err_text x @ ''. Sending individually via MTProto...'') h1) = (hl, s2, h2) \<Longrightarrow>
   send_groups e ps s h = (if hl then (True, s2, h2) else send_groups e (drop maxGroupSize ps) s2 h2)"
  by (subst send_groups.simps, simp add: Let_def)+

lemma send_groups_serves:
  "send_groups e ps s h = (halted, s', h') \<Longrightarrow> serves e h h' s s' (ps @ owed halted rest)"
proof (induction "length ps" arbitrary: ps s h rule: less_induct)
  case less
  let ?chunk = "take maxGroupSize ps" and ?rest = "drop maxGroupSize ps"
  have split: "mset ps = mset ?chunk + mset ?rest" by (metis append_take_drop_id mset_append)
  consider "ps = []" | "ps \<noteq> []" "eCancelled e h" | "ps \<noteq> []" "\<not> eCancelled e h" by blast
  then show ?case
  proof cases
    case 1
    with less.prems show ?thesis by (auto simp: send_groups_steps)
  next
    case 2
    with less.prems show ?thesis by (auto simp: send_groups_steps(2) serves_halt)
  next
    case 3
    then have ne: "?chunk \<noteq> []" and lt: "length ?rest < length ps" by (auto simp: maxGroupSize_def)
    obtain r h1 where a: "attempt e (MtGroup ?chunk) h = (r, h1)" by fastforce
    show ?thesis
    proof (cases r)
      case None
      have s1: "served e h h1 True ?chunk" using a None ne by (intro served_ok) auto
      have "send_groups e ?rest True h1 = (halted, s', h')"
        using less.prems send_groups_steps(3) [OF 3, of h1 s] a None by simp
      from serves_then [OF s1 less.hyps [OF lt this]] split show ?thesis by simp
    next
      case (Some x)
      have f: "served e h h1 False []" using a Some served_failed by blast
      show ?thesis
      proof (cases "eCancelled e h1")
        case True
        then have "(halted, s', h') = (True, s, cancelled_here h1)"
          using less.prems send_groups_steps(4) [OF 3] a Some by simp
        then show ?thesis using served_then_quiet [OF served_halted [OF f True] UpdateSync_quiet] by (simp add: serves_same)
      next
        case nc: False
        let ?u = "UpdateSync (warn_glyph @ '' Group upload failed: '' @ err_text x @ ''. Sending individually via MTProto...'') h1"
        have u: "served e h ?u False []" by (rule served_quiet_then [OF f UpdateSync_quiet])
        obtain hl s2 h2 where e: "send_each e ?chunk s ?u = (hl, s2, h2)" by (cases "send_each e ?chunk s ?u") auto
        note step = send_groups_steps(5) [OF 3 a [unfolded Some] nc e]
        show ?thesis
        proof (cases hl)
          case True
          then have "(halted, s', h') = (True, s2, h2)" using less.prems step by simp
          moreover have "serves e h h2 s s2 (?chunk @ (?rest @ rest))"
            using send_each_serves [OF e, of "?rest @ rest"] True serves_first [OF u] by simp
          ultimately show ?thesis by (simp flip: append_assoc)
        next
          case False
          then have "send_groups e ?rest s2 h2 = (halted, s', h')" using less.prems step by simp
          note later = less.hyps [OF lt this]
          have "serves e h h2 s s2 ?chunk" using send_each_serves [OF e, of "[]"] False serves_first [OF u] by simp
          from serves_trans [OF this later] split show ?thesis by simp
        qed
      qed
    qed
  qed
qed

lemma single_track_served:
  assumes "deliverSingleTrackFallback e p h = (ok, h1)"
  shows "served e h h1 ok [p]"
proof (cases "eCancelled e h")
  case True
  then show ?thesis using assms served_halt [of e h "[]" "[p]"] by (auto simp: deliverSingleTrackFallback_def)
next
  case nc: False
  obtain r g where a: "attempt e (MtAudio p) h = (r, g)" by fastforce
  obtain r2 h2 where l: "gofile_link e p g = (r2, h2)" by fastforce
  obtain r3 h3 where d: "gofile_link e p h = (r3, h3)" by fastforce
  consider "\<not> eMtproto e h" | "eMtproto e h" "r = None" | x where "eMtproto e h" "r = Some x" by (cases r) auto
  then show ?thesis
  proof cases
    case 1
    with assms nc d gofile_link_served [OF d] show ?thesis by (auto simp: deliverSingleTrackFallback_def)
  next
    case 2
    with assms nc a served_ok [of e "MtAudio p" h g "[p]"] show ?thesis by (auto simp: deliverSingleTrackFallback_def)
  next
    case 3
    then have f: "served e h g False []" using a served_failed by blast
    from assms nc a 3 l gofile_link_served [OF l] served_quiet_then [OF f] served_halted [OF f] show ?thesis
      by (auto simp: deliverSingleTrackFallback_def split: if_splits)
  qed
qed

lemma dump_all_quiet: "dump_all e paths is res n h = (res', h') \<Longrightarrow> served e h h' False []"
proof (induction "is" arbitrary: res n h)
  case (Cons i "is")
  show ?case
  proof (cases "eCancelled e h")
    case True
    with Cons show ?thesis by auto
  next
    case False
    let ?g = "h @ [Dumped (paths ! i) (eDump e h (paths ! i))]"
    let ?u = "UpdateSync (''Uploading '' @ itoa (int (Suc n)) @ ''/'' @ itoa (int (length paths))) ?g"
    have "served e h ?g False []" by (rule served_quiet) simp
    then have "served e h ?u False []" by (rule served_quiet_then) simp
    moreover have "served e ?u h' False []" using Cons False by (simp add: Let_def)
    ultimately show ?thesis by (rule served_quiet_then)
  qed
qed simp

lemma index_dumped_quiet:
  "index_dumped e paths res is d ids h = (d', ids', h') \<Longrightarrow>
   served e h h' False [] \<and> map fst ids' = map fst ids @ filter (\<lambda>i. in_dump (res i) \<noteq> None) is"
proof (induction "is" arbitrary: d ids h)
  case (Cons i "is")
  show ?case
  proof (cases "in_dump (res i)")
    case None
    with Cons show ?thesis by auto
  next
    case (Some dm)
    then obtain d1 m where dm: "in_dump (res i) = Some (d1, m)" by (cases dm) auto
    let ?h = "if eCatalog e then h @ [Indexed (paths ! i) d1 m] else h"
    have "served e h ?h False []" by (auto intro: served_quiet)
    moreover have "served e ?h h' False [] \<and> map fst ids' = map fst (ids @ [(i, m)]) @ filter (\<lambda>i. in_dump (res i) \<noteq> None) is"
      by (rule Cons.IH) (use Cons.prems dm in simp)
    ultimately show ?thesis using dm by (auto intro: served_quiet_then)
  qed
qed simp

abbreviation files_at :: "string list \<Rightarrow> (nat \<times> int) list \<Rightarrow> string list" where
  "files_at paths ids \<equiv> map (\<lambda>i. paths ! i) (map fst ids)"

lemma forward_chunks_steps:
  "forward_chunks e paths d [] del h = (del, h)"
  "ids \<noteq> [] \<Longrightarrow> attempt e (CopyFromDump d (map (\<lambda>(i, m). (paths ! i, m)) (take fwdChunk ids))) h = (r, h1) \<Longrightarrow>
   forward_chunks e paths d ids del h =
     forward_chunks e paths d (drop fwdChunk ids) (if r = None then del \<union> fst ` set (take fwdChunk ids) else del) h1"
  by (subst forward_chunks.simps, simp add: Let_def split: option.split)+

lemma forward_chunks_served:
  "forward_chunks e paths d ids del h = (del', h') \<Longrightarrow>
   \<exists>sel. mset sel \<subseteq># mset ids \<and> del' = del \<union> fst ` set sel \<and> served e h h' (sel \<noteq> []) (files_at paths sel)"
proof (induction "length ids" arbitrary: ids del h rule: less_induct)
  case less
  show ?case
  proof (cases "ids = []")
    case True
    with less.prems show ?thesis by (intro exI [of _ "[]"]) (simp add: forward_chunks_steps)
  next
    case False
    let ?chunk = "take fwdChunk ids"
    have lt: "length (drop fwdChunk ids) < length ids" and ne: "?chunk \<noteq> []" using False by (auto simp: fwdChunk_def)
    have split: "mset ids = mset ?chunk + mset (drop fwdChunk ids)" by (metis append_take_drop_id mset_append)
    obtain r h1 where a: "attempt e (CopyFromDump d (map (\<lambda>(i, m). (paths ! i, m)) ?chunk)) h = (r, h1)" by fastforce
    note IH = less.hyps [OF lt, of "if r = None then del \<union> fst ` set ?chunk else del" h1]
    then obtain sel where sel: "mset sel \<subseteq># mset (drop fwdChunk ids)"
      "del' = (if r = None then del \<union> fst ` set ?chunk else del) \<union> fst ` set sel" "served e h1 h' (sel \<noteq> []) (files_at paths sel)"
      using less.prems forward_chunks_steps(2) [OF False a] by auto
    show ?thesis
    proof (cases r)
      case None
      have "served e h h1 True (files_at paths ?chunk)"
        using a None ne by (intro served_ok) (auto simp: case_prod_beta comp_def)
      from served_trans [OF this sel(3)] have "served e h h' True (files_at paths (?chunk @ sel))" by simp
      then show ?thesis using sel(1,2) None split ne by (intro exI [of _ "?chunk @ sel"]) auto
    next
      case (Some x)
      then have "served e h h1 False []" using a served_failed by blast
      then show ?thesis using sel Some split
        by (intro exI [of _ sel]) (auto intro: served_quiet_then subset_mset.order_trans [OF sel(1)])
    qed
  qed
qed

lemma fallback_rest_serves:
  "fallback_rest e paths del is s h = (s', h') \<Longrightarrow> serves e h h' s s' (map ((!) paths) (filter (\<lambda>i. i \<notin> del) is))"
proof (induction "is" arbitrary: s h)
  case (Cons i "is")
  consider "eCancelled e h" | "\<not> eCancelled e h" "i \<in> del" | "\<not> eCancelled e h" "i \<notin> del" by blast
  then show ?case
  proof cases
    case 1
    with Cons.prems show ?thesis by (auto intro: serves_halt)
  next
    case 2
    with Cons show ?thesis by simp
  next
    case 3
    obtain ok h1 where d: "deliverSingleTrackFallback e (paths ! i) h = (ok, h1)" by fastforce
    with 3 Cons single_track_served [OF d] show ?thesis by (auto intro: serves_one)
  qed
qed simp

lemma distinct_submset: "mset xs \<subseteq># mset ys \<Longrightarrow> distinct ys \<Longrightarrow> distinct xs"
proof -
  assume sub: "mset xs \<subseteq># mset ys" and d: "distinct ys"
  have "count (mset xs) a = (if a \<in> set xs then 1 else 0)" for a
  proof -
    have le: "count (mset xs) a \<le> 1"
    proof (rule order_trans [OF mset_subset_eq_count [OF sub]])
      show "count (mset ys) a \<le> 1" using d by (cases "a \<in> set ys") (simp_all add: distinct_count_atmost_1 count_eq_zero_iff)
    qed
    show ?thesis
    proof (cases "a \<in> set xs")
      case True
      then have "count (mset xs) a \<noteq> 0" by (simp add: count_eq_zero_iff)
      with le have "count (mset xs) a = 1" by linarith
      with True show ?thesis by simp
    next
      case False
      then show ?thesis by (simp add: count_eq_zero_iff)
    qed
  qed
  then show ?thesis by (simp add: distinct_count_atmost_1)
qed

lemma settle_once:
  assumes "distinct (map fst ids)" "fst ` set ids \<subseteq> set [0..<n]" "mset sel \<subseteq># mset ids"
  shows "mset (map fst sel @ filter (\<lambda>i. i \<notin> fst ` set sel) [0..<n]) = mset [0..<n]"
proof (subst set_eq_iff_mset_eq_distinct [symmetric])
  have "mset (map fst sel) \<subseteq># mset (map fst ids)" using assms(3) by (simp add: image_mset_subseteq_mono)
  then show "distinct (map fst sel @ filter (\<lambda>i. i \<notin> fst ` set sel) [0..<n])"
    using distinct_submset [OF _ assms(1)] by auto
  show "set (map fst sel @ filter (\<lambda>i. i \<notin> fst ` set sel) [0..<n]) = set [0..<n]"
    using assms(2) mset_subset_eqD [OF assms(3)] by auto
qed simp

lemma pool_served:
  assumes "deliverAudioViaPool e paths h = (sent, h')"
  shows "served e h h' sent paths"
proof -
  let ?n = "length paths"
  obtain res h1 where dump: "dump_all e paths (eOrder e ?n) (\<lambda>i. Inr (0, 0)) 0 h = (res, h1)" by fastforce
  obtain d ids h2 where ind: "index_dumped e paths res [0..<?n] 0 [] h1 = (d, ids, h2)" by (metis prod_cases3)
  obtain del h3 where fw: "forward_dumped e paths d ids h2 = (del, h3)" by fastforce
  have rest: "fallback_rest e paths del [0..<?n] (del \<noteq> {}) h3 = (sent, h')"
    using assms dump ind fw by (simp add: deliverAudioViaPool_def Let_def)
  have q: "served e h h2 False []"
    using served_quiet_then [OF dump_all_quiet [OF dump]] index_dumped_quiet [OF ind] by blast
  have ids: "map fst ids = filter (\<lambda>i. in_dump (res i) \<noteq> None) [0..<?n]" using index_dumped_quiet [OF ind] by simp
  obtain sel where sel: "mset sel \<subseteq># mset ids" "del = fst ` set sel" "served e h2 h3 (sel \<noteq> []) (files_at paths sel)"
  proof (cases "ids = [] \<or> eCancelled e h2")
    case True
    then show ?thesis using fw that [of "[]"] by (auto simp: forward_dumped_def)
  next
    case False
    then show ?thesis using fw forward_chunks_served [of e paths d ids "{}" h2 del h3] that by (auto simp: forward_dumped_def)
  qed
  have one: "mset (map fst sel @ filter (\<lambda>i. i \<notin> del) [0..<?n]) = mset [0..<?n]"
  proof -
    have "fst ` set ids = set (map fst ids)" by simp
    then show ?thesis unfolding sel(2) by (intro settle_once [OF _ _ sel(1)]) (auto simp: ids)
  qed
  have all: "mset paths = mset (files_at paths sel) + mset (map ((!) paths) (filter (\<lambda>i. i \<notin> del) [0..<?n]))"
  proof -
    have "mset paths = image_mset ((!) paths) (mset [0..<?n])" by (metis map_nth mset_map)
    then show ?thesis unfolding one [symmetric] by (simp only: mset_map mset_append image_mset_union)
  qed
  have "serves e h2 h' False sent paths"
    by (rule serves_then [OF sel(3) fallback_rest_serves [OF rest] _ all]) (simp add: sel(2))
  then have "served e h2 h' sent paths" by (auto simp: serves_def)
  with q show ?thesis by (rule served_quiet_then)
qed

lemma served_unreadable: "eSize e h p = Inl x \<Longrightarrow> served e h h False [p]"
  unfolding served_def given_up_def by (intro exI [of _ "[]"]) auto

lemma served_log: "h1 = h @ new \<Longrightarrow> got_all new = [] \<Longrightarrow> served e h h1 False []"
  using served_quiet by blast

lemma serves_skip: "served e h h1 False [p] \<Longrightarrow> serves e h1 h2 s s' ps \<Longrightarrow> serves e h h2 s s' (p # ps)"
  by (erule serves_then) auto

lemma send_small_serves:
  "send_small e mx ps s er h = (halted, s', er', h') \<Longrightarrow> serves e h h' s s' (ps @ owed halted rest)"
proof (induction ps arbitrary: s er h)
  case (Cons p ps)
  consider "eCancelled e h" | x where "\<not> eCancelled e h" "eSize e h p = Inl x" | n where "\<not> eCancelled e h" "eSize e h p = Inr n"
    by (cases "eSize e h p") auto
  then show ?case
  proof cases
    case 1
    with Cons.prems show ?thesis by (auto simp: serves_halt)
  next
    case 2
    with Cons served_unreadable [OF 2(2)] show ?thesis by (auto intro: serves_one)
  next
    case 3
    obtain r h1 where b: "(if n \<le> mx then attempt e (BotAudio p) h else (Some (Err []), h)) = (r, h1)" by fastforce
    show ?thesis
    proof (cases r)
      case None
      then have "served e h h1 True [p]" using b by (intro served_ok) (auto split: if_splits)
      with None b 3 Cons show ?thesis by (auto intro: serves_one)
    next
      case (Some x)
      then have f: "served e h h1 False []" using b served_failed by (auto split: if_splits)
      show ?thesis
      proof (cases "eCancelled e h1")
        case True
        with Cons.prems 3 b Some show ?thesis
          using served_then_quiet [OF served_halted [OF f True] UpdateSync_quiet] by (auto intro: serves_same)
      next
        case False
        let ?u = "UpdateSync ''Uploading to Gofile...'' h1"
        obtain r2 h2 where g: "gofile_link e p ?u = (r2, h2)" by fastforce
        have one: "served e h h2 (r2 = None) [p]"
          by (rule served_quiet_then [OF served_quiet_then [OF f UpdateSync_quiet] gofile_link_served [OF g]])
        then have two: "served e h (UpdateSync t h2) (r2 = None) [p]" for t by (rule served_then_quiet) simp
        show ?thesis
        proof (cases r2)
          case None
          with Cons.prems False 3 b Some g have "send_small e mx ps True er h2 = (halted, s', er', h')" by simp
          from Cons.IH [OF this] one None show ?thesis by (auto intro: serves_one)
        next
          case r2: (Some y)
          with Cons.prems False 3 b Some g
          have "send_small e mx ps s (Some y) (UpdateSync (''Gofile upload failed: '' @ err_text y) h2) = (halted, s', er', h')" by simp
          note later = Cons.IH [OF this]
          have "served e h (UpdateSync t h2) False [p]" for t using two r2 by simp
          from serves_skip [OF this later] show ?thesis by simp
        qed
      qed
    qed
  qed
qed auto

lemma artwork_split: "mset ps = mset (filter isAnimatedArtwork ps) + mset (remaining ps)"
  unfolding mset_filter by (rule multiset_partition)

lemma video_split: "mset (remaining ps) = mset (filter isVideoFile (remaining ps)) + mset (audio_of ps)"
  unfolding mset_filter [of _ "remaining ps"] by (rule multiset_partition)

lemma serves_done: "serves e h h' False s' ps \<Longrightarrow> served e h h' s' ps"
  by (auto simp: serves_def)

lemma fallback_served: "\<exists>sent. served e h (deliverTelegramIndividualFallback e mx paths h) sent paths"
proof -
  obtain s0 h1 where a: "send_artwork e paths False h = (s0, h1)" by fastforce
  obtain halted s1 er h2 where b: "send_small e mx (remaining paths) s0 None h1 = (halted, s1, er, h2)" by (metis prod_cases4)
  have "serves e h h2 False s1 paths"
    by (rule serves_trans [OF send_artwork_serves [OF a] send_small_serves [OF b, of "[]"]]) (simp only: append_Nil2 if_cancel, rule artwork_split)
  then have s: "served e h h2 s1 paths" by (rule serves_done)
  have "served e h2 (close_delivery e qs s1 er h2) False []" for qs by (simp add: close_delivery_def)
  with s a b show ?thesis
    by (cases halted) (auto simp: deliverTelegramIndividualFallback_def intro: served_then_quiet)
qed

lemma deliver_audio_serves:
  assumes "deliver_audio e ps s h = (halted, s', h')"
  shows "serves e h h' s s' ps"
proof (cases "ePool e h \<and> ps \<noteq> []")
  case True
  obtain ok h1 where p: "deliverAudioViaPool e ps h = (ok, h1)" by fastforce
  show ?thesis using assms True p served_serves [OF pool_served [OF p]] by (auto simp: deliver_audio_def)
next
  case False
  have "send_groups e ps s h = (halted, s', h')" using assms unfolding deliver_audio_def if_not_P [OF False] .
  from send_groups_serves [OF this, of "[]"] show ?thesis by simp
qed

lemma individual_served: "\<exists>sent. served e h (deliverTelegramIndividual e mx paths h) sent paths"
proof (cases "eCancelled e h \<or> \<not> eMtproto e h")
  case True
  then show ?thesis using served_stop_here [of e h] fallback_served [of e h mx paths] by (auto simp: deliverTelegramIndividual_def)
next
  case False
  obtain s0 h1 where a: "send_artwork e paths False h = (s0, h1)" by fastforce
  obtain halted s1 h2 where v: "send_videos e (remaining paths) s0 h1 = (halted, s1, h2)" by (metis prod_cases3)
  obtain halted' s2 h3 where d: "deliver_audio e (audio_of paths) s1 h2 = (halted', s2, h3)" by (metis prod_cases3)
  note art = send_artwork_serves [OF a]
  note vid = send_videos_serves [OF v, of "audio_of paths"]
  show ?thesis
  proof (cases halted)
    case True
    have "serves e h h2 False s1 paths"
      by (rule serves_trans [OF art vid]) (simp only: True if_True mset_append artwork_split [of paths] flip: video_split)
    then show ?thesis using False a v True by (auto simp: deliverTelegramIndividual_def dest: serves_done)
  next
    case nh: False
    have "serves e h1 h3 s0 s2 (remaining paths)"
      by (rule serves_trans [OF vid deliver_audio_serves [OF d]]) (simp only: nh if_False append_Nil2, rule video_split)
    then have "serves e h h3 False s2 paths" by (rule serves_trans [OF art]) (rule artwork_split)
    then have s: "served e h h3 s2 paths" by (rule serves_done)
    then have "served e h (finish_sent e (remaining paths) h3) s2 paths" by (rule served_then_quiet) simp
    with s False a v nh d show ?thesis by (cases halted') (auto simp: deliverTelegramIndividual_def)
  qed
qed


end
