(* ===== verification/Delivery_Answers.thy ===== *)
theory Delivery_Answers
  imports Delivery
begin

section \<open>Nobody is left without an answer\<close>

text \<open>
  The board of a rip is removed when the rip ends, unless its last phase names a failure
  (\<^verbatim>\<open>finishedAsFailure\<close>).  Hence a delivery that sends nothing must say so: which routes do, and the
  one that does not.
\<close>

subsection \<open>Trimming keeps the words\<close>

definition space_byte :: "char \<Rightarrow> bool" where
  "space_byte c = list_ex (\<lambda>e. c \<in> set e) go_spaces"

lemma strip_one_keeps:
  assumes "list_all (\<lambda>e. c \<notin> set e) es" "strip_one es (x @ c # y) = Some r"
  shows "\<exists>x'. r = x' @ c # y \<and> length x' \<le> length x"
  using assms
proof (induction es)
  case (Cons e es)
  show ?case
  proof (cases "e \<noteq> [] \<and> has_prefix (x @ c # y) e")
    case True
    then obtain z where z: "x @ c # y = e @ z" by (auto simp: has_prefix_iff)
    have "length e \<le> length x"
    proof (rule ccontr)
      assume "\<not> length e \<le> length x"
      then have "(e @ z) ! length x = e ! length x" by (simp add: nth_append)
      then have "c = e ! length x" using z by (metis nth_append_length)
      moreover have "e ! length x \<in> set e" using \<open>\<not> length e \<le> length x\<close> by simp
      ultimately show False using Cons.prems(1) by simp
    qed
    then have "r = drop (length e) x @ c # y" using True Cons.prems(2) by auto
    then show ?thesis by (intro exI [of _ "drop (length e) x"]) simp
  next
    case False
    then have "strip_one es (x @ c # y) = Some r" using Cons.prems(2) by (auto split: if_splits)
    with Cons show ?thesis by simp
  qed
qed simp

lemma strip_all_keeps:
  "list_all (\<lambda>e. c \<notin> set e) es \<Longrightarrow> \<exists>x'. strip_all es (x @ c # y) = x' @ c # y \<and> length x' \<le> length x"
proof (induction "length x" arbitrary: x rule: less_induct)
  case less
  show ?case
  proof (cases "strip_one es (x @ c # y)")
    case None
    then show ?thesis by (intro exI [of _ x]) (simp add: strip_all.simps [of es "x @ c # y"])
  next
    case (Some r)
    obtain x' where x': "r = x' @ c # y" "length x' \<le> length x" using strip_one_keeps [OF less.prems Some] by blast
    have "length x' < length x" using strip_one_shorter [OF Some] x' by simp
    from less.hyps [OF this less.prems] x' Some show ?thesis
      by (auto simp: strip_all.simps [of es "x @ c # y"] intro: order_trans)
  qed
qed

lemma trim_space_keeps:
  assumes "w \<noteq> []" "\<not> space_byte (hd w)" "\<not> space_byte (last w)"
  shows "\<exists>a' b'. trim_space (a @ w @ b) = a' @ w @ b' \<and> length a' \<le> length a"
proof -
  obtain c u where w: "w = c # u" using assms(1) by (cases w) auto
  obtain v d where wd: "w = v @ [d]" using assms(1) by (cases w rule: rev_cases) auto
  have c: "list_all (\<lambda>e. c \<notin> set e) go_spaces" using assms(2) by (simp add: w space_byte_def list_all_iff list_ex_iff)
  have d: "list_all (\<lambda>e. d \<notin> set e) (map rev go_spaces)" using assms(3) by (simp add: wd space_byte_def list_all_iff list_ex_iff)
  obtain a' where a': "trim_left (a @ w @ b) = a' @ w @ b" "length a' \<le> length a"
    using strip_all_keeps [OF c, of a "u @ b"] by (auto simp: trim_left_def w)
  have "rev (a' @ w @ b) = rev b @ d # rev (a' @ v)" by (simp add: wd)
  then obtain b' where "strip_all (map rev go_spaces) (rev (a' @ w @ b)) = b' @ d # rev (a' @ v)"
    using strip_all_keeps [OF d, of "rev b" "rev (a' @ v)"] by auto
  then have "trim_right (a' @ w @ b) = a' @ w @ rev b'" by (simp add: trim_right_def wd)
  with a' show ?thesis by (auto simp: trim_space_def)
qed

lemma contains_iff: "contains s w \<longleftrightarrow> (\<exists>a b. s = a @ w @ b)"
  unfolding contains_def
proof (induction s)
  case (Cons c s)
  show ?case
  proof (cases "has_prefix (c # s) w")
    case True
    then obtain r where "c # s = [] @ w @ r" by (auto simp: has_prefix_iff)
    moreover have "index_of (c # s) w \<noteq> None" using True by simp
    ultimately show ?thesis by blast
  next
    case False
    then have "(\<exists>a b. c # s = a @ w @ b) \<longleftrightarrow> (\<exists>a b. s = a @ w @ b)"
      by (metis Cons_eq_append_conv append_Cons has_prefix_append)
    with False Cons show ?thesis by simp
  qed
qed auto

lemma trim_space_twice [simp]: "trim_space (trim_space s) = trim_space s"
  using trim_space_trimmed trimmed_trim_space by blast

text \<open>A phase with one of the failing words is a failing phase, however it is trimmed.\<close>

lemma failing_word:
  assumes "t = a @ w @ b" "w = ''fail'' \<or> w = ''Cancel''"
  shows "finishedAsFailure (trim_space t)"
proof -
  have "w \<noteq> [] \<and> \<not> space_byte (hd w) \<and> \<not> space_byte (last w)"
    using assms(2) by (auto simp: space_byte_def go_spaces_def)
  then obtain a' b' where "trim_space t = a' @ w @ b'" using trim_space_keeps [of w a b] assms(1) by auto
  then have "to_lower (trim_space t) = to_lower a' @ to_lower w @ to_lower b'" by (simp add: to_lower_def)
  then have "contains (to_lower (trim_space t)) (to_lower w)" unfolding contains_iff by blast
  moreover have "to_lower ''fail'' = ''fail''" "to_lower ''Cancel'' = ''cancel''" by code_simp+
  ultimately show ?thesis using assms(2) by (auto simp: finishedAsFailure_def)
qed

lemma failing_phases:
  "finishedAsFailure (trim_space ''Cancelled'')"
  "finishedAsFailure (trim_space (friendlyTaskError ''Download failed'' (Some x)))"
proof -
  show "finishedAsFailure (trim_space ''Cancelled'')" by (rule failing_word [of _ "[]" "''Cancel''" "''led''"]) simp_all
  show "finishedAsFailure (trim_space (friendlyTaskError ''Download failed'' (Some x)))"
  proof (cases x)
    case Canceled
    then show ?thesis by (intro failing_word [of _ "no_entry @ '' ''" "''Cancel''" "''led.''"]) (simp_all add: friendlyTaskError_def)
  next
    case (Err t)
    let ?m = "let msg = first_line (trim_space t) in if 180 < length msg then take 180 msg @ ellipsis else msg"
    have "friendlyTaskError ''Download failed'' (Some x) =
        (cross_mark @ '' Download '') @ ''fail'' @ ''ed'' @ (if ?m = [] then ''.'' else '': '' @ ?m)"
      by (simp add: friendlyTaskError_def Err Let_def)
    then show ?thesis by (rule failing_word) simp
  qed
qed

lemma failing_prefix: "finishedAsFailure (trim_space (''No files'' @ b))"
proof -
  have "\<not> space_byte CHR ''N'' \<and> \<not> space_byte CHR ''s''" by (auto simp: space_byte_def go_spaces_def)
  then obtain b' where "trim_space (''No files'' @ b) = ''No files'' @ b'"
    using trim_space_keeps [of "''No files''" "[]" b] by auto
  moreover have "to_lower ''No files'' = ''no files''" by code_simp
  ultimately have "to_lower (trim_space (''No files'' @ b)) = ''no files'' @ to_lower b'" by (simp add: to_lower_def)
  then have "has_prefix (to_lower (trim_space (''No files'' @ b))) ''no files''" by (simp only: has_prefix_append)
  then show ?thesis by (simp only: finishedAsFailure_def Let_def trim_space_twice simp_thms)
qed

lemma failing_no_files: "t = ''No files'' @ b \<Longrightarrow> finishedAsFailure (trim_space t)"
  using failing_prefix [of b] by simp

subsection \<open>Answers\<close>

fun tells :: "event \<Rightarrow> bool" where
  "tells (Told t) = True"
| "tells (Link n) = True"
| "tells (Closed KeptOnScreen) = True"
| "tells ev = (got ev \<noteq> [])"

definition told :: "event list \<Rightarrow> event list \<Rightarrow> bool" where
  "told h h' = (\<exists>new. h' = h @ new \<and> list_ex tells new)"

text \<open>Steps that leave the board open.\<close>

definition goes_on :: "event list \<Rightarrow> event list \<Rightarrow> bool" where
  "goes_on h h' = (\<exists>new. h' = h @ new \<and> \<not> board_closed new)"

definition answered :: "event list \<Rightarrow> event list \<Rightarrow> bool" where
  "answered h h' = (told h h' \<or> goes_on h h' \<and> finishedAsFailure (latestPhase h'))"

lemma board_closed_simps [simp]:
  "board_closed [] = False" "board_closed (h @ k) = (board_closed h \<or> board_closed k)"
  "board_closed (Board t # h) = board_closed h" "board_closed (Did c r # h) = board_closed h"
  "board_closed (Dumped p u # h) = board_closed h" "board_closed (Zipped ps z # h) = board_closed h"
  "board_closed (Told t # h) = board_closed h" "board_closed (Link n # h) = board_closed h"
  "board_closed (Indexed p d m # h) = board_closed h" "board_closed (Recorded n # h) = board_closed h"
  by (simp_all add: board_closed_def)

lemma latestPhase_append: "latestPhase (h @ k) = (if latestPhase k = [] then latestPhase h else latestPhase k)"
  by (induction h) (auto simp: Let_def)

lemma goes_on_refl [simp]: "goes_on h h"
  unfolding goes_on_def by (intro exI [of _ "[]"]) simp

lemma goes_on_trans: "goes_on h h1 \<Longrightarrow> goes_on h1 h2 \<Longrightarrow> goes_on h h2"
  unfolding goes_on_def by force

lemma goes_on_append: "\<not> board_closed new \<Longrightarrow> goes_on h (h @ new)"
  unfolding goes_on_def by blast

lemma goes_on_more: "goes_on h h1 \<Longrightarrow> \<not> board_closed new \<Longrightarrow> goes_on h (h1 @ new)"
  using goes_on_trans goes_on_append by blast

lemma goes_on_UpdateSync: "goes_on h h1 \<Longrightarrow> goes_on h (UpdateSync t h1)"
  unfolding UpdateSync_def by (rule goes_on_more) simp_all

lemma goes_on_attempt: "goes_on h h1 \<Longrightarrow> attempt e c h1 = (r, h2) \<Longrightarrow> goes_on h h2"
proof -
  assume g: "goes_on h h1" and a: "attempt e c h1 = (r, h2)"
  have "goes_on h (fold UpdateSync ts h1)" for ts using g by (induction ts arbitrary: h1) (auto intro: goes_on_UpdateSync)
  then have "goes_on h (fold UpdateSync (eShows e h1 c) h1 @ [Did c r])" by (rule goes_on_more) simp
  with a show ?thesis by (auto simp: attempt_def Let_def)
qed

lemma goes_on_gofile: "goes_on h h1 \<Longrightarrow> gofile_link e p h1 = (r, h2) \<Longrightarrow> goes_on h h2"
proof -
  assume g: "goes_on h h1" and l: "gofile_link e p h1 = (r, h2)"
  obtain r' h' where a: "attempt e (Gofile p) h1 = (r', h')" by fastforce
  show ?thesis using l a goes_on_attempt [OF g a] by (cases r') (auto simp: gofile_link_def intro: goes_on_more)
qed

lemma told_then: "told h h1 \<Longrightarrow> goes_on h1 h2 \<Longrightarrow> told h h2"
  unfolding told_def goes_on_def by (elim exE conjE) simp

lemma told_later: "goes_on h h1 \<Longrightarrow> told h1 h2 \<Longrightarrow> told h h2"
  unfolding told_def goes_on_def by (elim exE conjE) simp

lemma told_append: "told h h1 \<Longrightarrow> told h (h1 @ new)"
  unfolding told_def by (elim exE conjE) simp

lemma told_event: "goes_on h h1 \<Longrightarrow> list_ex tells new \<Longrightarrow> told h (h1 @ new)"
  unfolding told_def goes_on_def by (elim exE conjE) simp

lemma told_ok: "goes_on h h1 \<Longrightarrow> attempt e c h1 = (None, h2) \<Longrightarrow> call_files c \<noteq> [] \<Longrightarrow> told h h2"
  by (erule attempt_log) (auto intro!: told_event)

lemma told_gofile: "goes_on h h1 \<Longrightarrow> gofile_link e p h1 = (None, h2) \<Longrightarrow> told h h2"
proof -
  assume g: "goes_on h h1" and l: "gofile_link e p h1 = (None, h2)"
  obtain r h' where a: "attempt e (Gofile p) h1 = (r, h')" by fastforce
  show ?thesis using l a told_ok [OF g, of e "Gofile p" h'] by (cases r) (auto simp: gofile_link_def intro: told_append)
qed

lemma told_retire: "told h h1 \<Longrightarrow> told h (retireBoard e h1)"
  by (auto simp: retireBoard_def intro: told_append)

lemma told_finish: "told h h1 \<Longrightarrow> told h (finish_sent e paths h1)"
  by (auto simp: finish_sent_def sendDeliverySummary_def intro: told_append told_retire)

lemma answered_phase: "goes_on h h1 \<Longrightarrow> finishedAsFailure (trim_space t) \<Longrightarrow> answered h (UpdateSync t h1)"
proof -
  assume g: "goes_on h h1" and f: "finishedAsFailure (trim_space t)"
  have "trim_space t \<noteq> []"
  proof
    assume "trim_space t = []"
    moreover have "\<not> finishedAsFailure []" by code_simp
    ultimately show False using f by simp
  qed
  then have "latestPhase (UpdateSync t h1) = trim_space t" by (simp add: UpdateSync_def latestPhase_append)
  with g f show ?thesis by (auto simp: answered_def intro: goes_on_UpdateSync)
qed

lemma answered_cancelled: "goes_on h h1 \<Longrightarrow> answered h (cancelled_here h1)"
  by (rule answered_phase) (simp_all add: failing_phases)

lemma answered_told: "told h h1 \<Longrightarrow> answered h h1"
  by (simp add: answered_def)

lemma answered_report: "goes_on h h1 \<Longrightarrow> answered h (reportDeliveryFailure e er h1)"
proof (cases "er = Some Canceled")
  case True
  moreover assume "goes_on h h1"
  ultimately show ?thesis by (simp add: reportDeliveryFailure_def answered_cancelled)
next
  case False
  assume g: "goes_on h h1"
  have "told h (retireBoard e (UpdateSync t h1) @ [Told d])" for t d
    using told_event [OF goes_on_UpdateSync [OF g, of t], of "[Told d]"] told_event [OF goes_on_UpdateSync [OF g, of t], of "[Closed c, Told d]" for c]
    by (auto simp: retireBoard_def)
  with False show ?thesis by (simp add: reportDeliveryFailure_def Let_def answered_told)
qed

text \<open>What a loop over files leaves: the flag is right, and a loop that halts has said so.\<close>

definition loop_ok :: "event list \<Rightarrow> event list \<Rightarrow> bool \<Rightarrow> bool \<Rightarrow> bool \<Rightarrow> bool" where
  "loop_ok h h' s s' halted = (goes_on h h' \<and> (s' \<longrightarrow> s \<or> told h h') \<and> (halted \<longrightarrow> answered h h'))"

lemma loop_ok_end [simp]: "loop_ok h h s s False"
  by (simp add: loop_ok_def)

lemma loop_ok_halt: "loop_ok h (cancelled_here h) s s True"
  by (simp add: loop_ok_def answered_cancelled goes_on_UpdateSync)

lemma loop_ok_step:
  assumes "goes_on h h1" "loop_ok h1 h' t s' halted" "t \<Longrightarrow> s \<or> told h h1"
  shows "loop_ok h h' s s' halted"
proof -
  have g: "goes_on h1 h'" using assms(2) by (simp add: loop_ok_def)
  have "answered h h'" if "answered h1 h'"
    using that assms(1) by (auto simp: answered_def intro: told_later goes_on_trans)
  moreover have "s \<or> told h h'" if s': "s'"
  proof (cases t)
    case True
    then show ?thesis using assms(3) told_then [OF _ g] by blast
  next
    case False
    then show ?thesis using assms(2) s' told_later [OF assms(1)] by (auto simp: loop_ok_def)
  qed
  ultimately show ?thesis using assms(1,2) g by (auto simp: loop_ok_def intro: goes_on_trans)
qed

lemma send_artwork_ok: "send_artwork e ps s h = (s', h') \<Longrightarrow> loop_ok h h' s s' False"
proof (induction ps arbitrary: s h)
  case (Cons p ps)
  obtain r h1 where a: "attempt e (BotVideo p) h = (r, h1)" by fastforce
  have g: "goes_on h h1" by (rule goes_on_attempt [OF goes_on_refl a])
  show ?case
  proof (cases "isAnimatedArtwork p")
    case True
    have "s \<or> told h h1" if "s \<or> r = None"
      using that told_ok [OF goes_on_refl, of e "BotVideo p" h h1] a by auto
    with Cons.IH [of "s \<or> r = None" h1] Cons.prems True a show ?thesis by (auto intro: loop_ok_step [OF g])
  qed (use Cons in simp)
qed simp

lemma gofile_each_ok: "gofile_each e ps s er h = (halted, s', er', h') \<Longrightarrow> loop_ok h h' s s' halted"
proof (induction ps arbitrary: s er h)
  case (Cons p ps)
  show ?case
  proof (cases "eCancelled e h")
    case True
    with Cons.prems show ?thesis by (auto simp: loop_ok_halt)
  next
    case False
    let ?u = "UpdateSync ''Uploading to Gofile...'' h"
    have u: "goes_on h ?u" by (rule goes_on_UpdateSync) simp
    obtain r h1 where l: "gofile_link e p ?u = (r, h1)" by fastforce
    have g: "goes_on h h1" by (rule goes_on_gofile [OF u l])
    show ?thesis
    proof (cases r)
      case None
      then have "told h h1" using told_gofile [OF u] l by blast
      with Cons False l None show ?thesis by (auto intro: loop_ok_step [OF g])
    next
      case (Some x)
      let ?v = "UpdateSync (''Gofile upload failed: '' @ err_text x) h1"
      have "gofile_each e ps s (Some x) ?v = (halted, s', er', h')" using Cons.prems False l Some by simp
      from loop_ok_step [OF goes_on_UpdateSync [OF g] Cons.IH [OF this]] show ?thesis by blast
    qed
  qed
qed simp

lemma send_small_ok: "send_small e mx ps s er h = (halted, s', er', h') \<Longrightarrow> loop_ok h h' s s' halted"
proof (induction ps arbitrary: s er h)
  case (Cons p ps)
  consider "eCancelled e h" | x where "\<not> eCancelled e h" "eSize e h p = Inl x" | n where "\<not> eCancelled e h" "eSize e h p = Inr n"
    by (cases "eSize e h p") auto
  then show ?case
  proof cases
    case 3
    obtain r h1 where b: "(if n \<le> mx then attempt e (BotAudio p) h else (Some (Err []), h)) = (r, h1)" by fastforce
    have g1: "goes_on h h1" using b goes_on_attempt [OF goes_on_refl, of e "BotAudio p" h] by (auto split: if_splits)
    show ?thesis
    proof (cases r)
      case None
      then have "told h h1" using b told_ok [OF goes_on_refl, of e "BotAudio p" h h1] by (auto split: if_splits)
      with None b 3 Cons show ?thesis by (auto intro: loop_ok_step [OF g1])
    next
      case (Some x)
      show ?thesis
      proof (cases "eCancelled e h1")
        case True
        with Cons.prems 3 b Some show ?thesis by (auto intro: loop_ok_step [OF g1 loop_ok_halt])
      next
        case False
        let ?u = "UpdateSync ''Uploading to Gofile...'' h1"
        have u: "goes_on h ?u" by (rule goes_on_UpdateSync [OF g1])
        obtain r2 h2 where l: "gofile_link e p ?u = (r2, h2)" by fastforce
        have g2: "goes_on h h2" by (rule goes_on_gofile [OF u l])
        show ?thesis
        proof (cases r2)
          case None
          then have "told h h2" using told_gofile [OF u] l by blast
          with Cons False 3 b Some l None show ?thesis by (auto intro: loop_ok_step [OF g2])
        next
          case r2: (Some y)
          let ?v = "UpdateSync (''Gofile upload failed: '' @ err_text y) h2"
          have "send_small e mx ps s (Some y) ?v = (halted, s', er', h')" using Cons.prems False 3 b Some l r2 by simp
          from loop_ok_step [OF goes_on_UpdateSync [OF g2] Cons.IH [OF this]] show ?thesis by blast
        qed
      qed
    qed
  qed (use Cons in \<open>auto simp: loop_ok_halt\<close>)
qed simp

lemma send_art_ok: "send_art e d ps s er h = (halted, s', er', h') \<Longrightarrow> loop_ok h h' s s' halted"
proof (induction ps arbitrary: s er h)
  case (Cons p ps)
  show ?case
  proof (cases "eCancelled e h")
    case True
    with Cons.prems show ?thesis by (auto simp: loop_ok_halt)
  next
    case False
    obtain r h1 where a: "attempt e (art_call d p) h = (r, h1)" by fastforce
    have g1: "goes_on h h1" by (rule goes_on_attempt [OF goes_on_refl a])
    obtain r2 h2 where b: "attempt e (BotDocument p) h1 = (r2, h2)" by fastforce
    have g2: "goes_on h h2" by (rule goes_on_attempt [OF g1 b])
    have "call_files (art_call d p) \<noteq> []" by (simp add: art_call_def Let_def)
    then have "told h h1" if "r = None" using told_ok [OF goes_on_refl] a that by blast
    moreover have "told h h2" if "r2 = None" using told_ok [OF g1, of e "BotDocument p"] b that by auto
    ultimately show ?thesis using Cons False a b
      by (cases r; cases r2) (auto intro: loop_ok_step [OF g1] loop_ok_step [OF g2])
  qed
qed simp

subsection \<open>Every route but one answers\<close>

lemma answered_close:
  assumes "loop_ok h h' False s' False"
  shows "answered h (if s' then retireBoard e h' else reportDeliveryFailure e er h')" "answered h (close_delivery e qs s' er h')"
proof -
  have g: "goes_on h h'" and t: "s' \<Longrightarrow> told h h'" using assms by (auto simp: loop_ok_def)
  then show "answered h (if s' then retireBoard e h' else reportDeliveryFailure e er h')" "answered h (close_delivery e qs s' er h')"
    by (simp_all add: answered_told told_retire answered_report close_delivery_def told_finish)
qed

lemma answered_from_loop:
  assumes "loop_ok h h' False s' halted" "\<not> halted \<Longrightarrow> answered h g"
  shows "answered h (if halted then h' else g)"
  using assms by (auto simp: loop_ok_def)

lemma fallback_answers: "answered h (deliverTelegramIndividualFallback e mx paths h)"
proof -
  obtain s0 h1 where a: "send_artwork e paths False h = (s0, h1)" by fastforce
  obtain halted s1 er h2 where b: "send_small e mx (remaining paths) s0 None h1 = (halted, s1, er, h2)" by (metis prod_cases4)
  have "loop_ok h h1 False s0 False" by (rule send_artwork_ok [OF a])
  then have ok: "loop_ok h h2 False s1 halted"
    by (intro loop_ok_step [OF _ send_small_ok [OF b]]) (auto simp: loop_ok_def)
  have "deliverTelegramIndividualFallback e mx paths h = (if halted then h2 else close_delivery e (remaining paths) s1 er h2)"
    using a b by (cases halted) (simp_all add: deliverTelegramIndividualFallback_def)
  then show ?thesis using answered_from_loop [OF ok answered_close(2)] ok by (cases halted) simp_all
qed

lemma zip_path_answers: "goes_on h h1 \<Longrightarrow> answered h (deliverGofileZipFromPath e shown z name h1)"
proof (cases "eCancelled e h1")
  case True
  assume "goes_on h h1"
  with True show ?thesis by (simp add: deliverGofileZipFromPath_def answered_cancelled)
next
  case False
  assume g: "goes_on h h1"
  define n where "n = (if shown \<noteq> [] then safe_name shown @ ''.zip'' else name)"
  obtain r h2 where a: "attempt e (GofileAs z n) (UpdateSync ''Uploading to Gofile...'' h1) = (r, h2)" by fastforce
  have g2: "goes_on h h2" by (rule goes_on_attempt [OF goes_on_UpdateSync [OF g] a])
  have "told h (h2 @ [Recorded m, Link n])" for m by (rule told_event [OF g2]) simp
  with a False g2 show ?thesis
    by (cases r) (auto simp: deliverGofileZipFromPath_def Let_def n_def [symmetric] answered_told told_retire answered_report)
qed

lemma make_zip_goes_on: "goes_on h h1 \<Longrightarrow> make_zip e paths h1 = (r, h2) \<Longrightarrow> goes_on h h2"
  by (auto simp: make_zip_def Let_def intro: goes_on_more)

lemma gofile_zip_answers: "answered h (deliverGofileZip e shown paths single h)"
proof -
  obtain s0 h1 where a: "send_artwork e paths False h = (s0, h1)" by fastforce
  obtain halted s1 er h2 where b: "gofile_each e (remaining paths) s0 None h1 = (halted, s1, er, h2)" by (metis prod_cases4)
  have "loop_ok h h1 False s0 False" by (rule send_artwork_ok [OF a])
  then have ok: "loop_ok h h2 False s1 halted"
    by (intro loop_ok_step [OF _ gofile_each_ok [OF b]]) (auto simp: loop_ok_def)
  obtain z h3 where m: "make_zip e paths (UpdateSync ''Zipping'' h) = (z, h3)" by fastforce
  have g3: "goes_on h h3" by (rule make_zip_goes_on [OF goes_on_UpdateSync [OF goes_on_refl] m])
  consider "eCancelled e h" | "\<not> eCancelled e h" "single" | "\<not> eCancelled e h" "\<not> single" by blast
  then show ?thesis
  proof cases
    case 1
    then show ?thesis by (simp add: deliverGofileZip_def answered_cancelled)
  next
    case 2
    then have "deliverGofileZip e shown paths single h = (if halted then h2 else if s1 then retireBoard e h2 else reportDeliveryFailure e er h2)"
      using a b by (cases halted) (simp_all add: deliverGofileZip_def)
    then show ?thesis using answered_from_loop [OF ok answered_close(1)] ok by (cases halted) simp_all
  next
    case 3
    then show ?thesis using m g3
      by (cases z) (auto simp: deliverGofileZip_def answered_report zip_path_answers split: prod.split)
  qed
qed

lemma mv_gofile_answers: "goes_on h h1 \<Longrightarrow> answered h (deliverMvGofile e p h1)"
proof -
  assume g: "goes_on h h1"
  let ?u = "UpdateSync ''Uploading to Gofile...'' h1"
  obtain r h2 where l: "gofile_link e p ?u = (r, h2)" by fastforce
  note g2 = goes_on_gofile [OF goes_on_UpdateSync [OF g] l]
  have "told h h2" if "r = None" using told_gofile [OF goes_on_UpdateSync [OF g]] l that by blast
  with l g g2 show ?thesis
    by (cases r) (auto simp: deliverMvGofile_def answered_cancelled answered_report answered_told told_retire)
qed

lemma sendVideo_steps:
  assumes "goes_on h h1" "sendVideoFileMTProto e p h1 = (r, h2)"
  shows "goes_on h h2" "r = None \<Longrightarrow> told h h2"
proof -
  obtain r1 g1 where v: "attempt e (MtVideo p) h1 = (r1, g1)" by fastforce
  note w1 = goes_on_attempt [OF assms(1) v]
  have t1: "told h g1" if "r1 = None" using told_ok [OF assms(1), of e "MtVideo p"] v that by auto
  define u where "u x = UpdateSync (warn_glyph @ '' Video send failed: '' @ err_text x @ ''. Sending as document...'') g1" for x
  have gu: "goes_on h (u x)" for x unfolding u_def by (rule goes_on_UpdateSync [OF w1])
  have "goes_on h h2 \<and> (r = None \<longrightarrow> told h h2)" if b: "try_video e p h1 = (r, h2)"
  proof (cases r1)
    case None
    with b v w1 t1 show ?thesis by (auto simp: try_video_def)
  next
    case (Some x)
    obtain r2 g2 where d: "attempt e (MtDocument p) (u x) = (r2, g2)" by fastforce
    note w2 = goes_on_attempt [OF gu d]
    have "told h g2" if "r2 = None" using told_ok [OF gu, of e "MtDocument p"] d that by auto
    with b v Some d w1 w2 show ?thesis by (auto simp: try_video_def u_def split: option.splits if_splits)
  qed
  with assms show "goes_on h h2" "r = None \<Longrightarrow> told h h2"
    by (auto simp: sendVideoFileMTProto_def split: if_splits)
qed

lemma music_video_answers: "answered h (deliverMusicVideo e p h)"
proof -
  obtain r h1 where v: "sendVideoFileMTProto e p h = (r, h1)" by fastforce
  note sv = sendVideo_steps [OF goes_on_refl v]
  show ?thesis using v sv
    by (cases r) (auto simp: deliverMusicVideo_def answered_cancelled mv_gofile_answers answered_told told_retire)
qed

lemma artwork_answers: "answered h (deliverArtwork e d paths h)"
proof -
  let ?u = "UpdateSync ''Uploading artwork...'' h"
  obtain halted s1 er h1 where a: "send_art e d paths False None ?u = (halted, s1, er, h1)" by (metis prod_cases4)
  have ok: "loop_ok h h1 False s1 halted"
    by (rule loop_ok_step [OF _ send_art_ok [OF a]]) (simp_all add: goes_on_UpdateSync)
  have "deliverArtwork e d paths h =
      (if eCancelled e h then cancelled_here h else if halted then h1 else if s1 then retireBoard e h1 else reportDeliveryFailure e er h1)"
    using a by (cases halted) (simp_all add: deliverArtwork_def)
  then show ?thesis using answered_from_loop [OF ok answered_close(1)] ok by (cases halted) (simp_all add: answered_cancelled)
qed

lemma zip_pool_answers: "goes_on h h1 \<Longrightarrow> answered h (send_zip_pool e shown z name paths h1)"
proof (cases "eDump e h1 z")
  case (Inl x)
  assume "goes_on h h1"
  then have "goes_on h (h1 @ [Dumped z (Inl x)])" by (rule goes_on_more) simp
  with Inl show ?thesis by (simp add: send_zip_pool_def Let_def answered_cancelled zip_path_answers)
next
  case (Inr dm)
  assume "goes_on h h1"
  then have g: "goes_on h (h1 @ [Dumped z (Inr dm)])" by (rule goes_on_more) simp
  obtain d m where dm: "dm = (d, m)" by (cases dm)
  obtain r h2 where a: "attempt e (CopyFromDump d [(z, m)]) (h1 @ [Dumped z (Inr dm)]) = (r, h2)" by fastforce
  have "told h h2" if "r = None" using told_ok [OF g, of e "CopyFromDump d [(z, m)]"] a that by auto
  with a Inr dm goes_on_attempt [OF g a] show ?thesis
    by (cases r) (auto simp: send_zip_pool_def answered_told told_finish zip_path_answers)
qed

lemma zip_mtproto_answers: "goes_on h h1 \<Longrightarrow> answered h (send_zip_mtproto e shown z name paths h1)"
proof -
  assume g: "goes_on h h1"
  obtain r h2 where a: "attempt e (MtDocument z) h1 = (r, h2)" by fastforce
  have "told h h2" if "r = None" using told_ok [OF g, of e "MtDocument z"] a that by auto
  with a g goes_on_attempt [OF g a] show ?thesis
    by (cases r) (auto simp: send_zip_mtproto_def answered_told told_finish answered_cancelled zip_path_answers)
qed

lemma telegram_zip_answers: "answered h (deliverTelegramZip e shown paths h)"
proof -
  obtain z h1 where m: "make_zip e paths (UpdateSync ''Zipping'' h) = (z, h1)" by fastforce
  have g: "goes_on h h1" by (rule make_zip_goes_on [OF goes_on_UpdateSync [OF goes_on_refl] m])
  have "answered h (deliverGofileZipFromPath e shown y name (UpdateSync t h1))" for y name t
    by (rule zip_path_answers [OF goes_on_UpdateSync [OF g]])
  with m g show ?thesis
    by (cases z) (auto simp: deliverTelegramZip_def answered_cancelled answered_report zip_pool_answers zip_mtproto_answers)
qed

lemma route_answers:
  assumes "rt = ToIndividual \<Longrightarrow> \<not> eMtproto e h"
  shows "answered h (deliver_route e x r rt paths h)"
proof (cases rt)
  case ToIndividual
  with assms show ?thesis by (simp add: deliverTelegramIndividual_def answered_cancelled fallback_answers)
qed (simp_all add: gofile_zip_answers music_video_answers mv_gofile_answers artwork_answers telegram_zip_answers)

lemma answered_later: "goes_on h h1 \<Longrightarrow> answered h1 h2 \<Longrightarrow> answered h h2"
  by (auto simp: answered_def intro: told_later goes_on_trans)

lemma answered_retire:
  assumes "answered h h1" "\<not> board_closed h" "\<not> eOthers e h1"
  shows "told h (retireBoard e h1)"
proof (cases "told h h1")
  case True
  then show ?thesis by (rule told_retire)
next
  case False
  then have g: "goes_on h h1" "finishedAsFailure (latestPhase h1)" using assms(1) by (auto simp: answered_def)
  then have "\<not> board_closed h1" using assms(2) by (auto simp: goes_on_def)
  then show ?thesis using g assms(3) by (simp add: retireBoard_def told_event)
qed


text \<open>A rip of one track into a ZIP for Gofile, which refuses it.\<close>

definition all_refused :: env where
  "all_refused = \<lparr>eCancelled = \<lambda>h. False, eMtproto = \<lambda>h. True, ePool = \<lambda>h. True, eCatalog = False, eOthers = \<lambda>h. False,
     eShows = \<lambda>h c. [], eDo = \<lambda>h c. Some (Err ''refused''), eDump = \<lambda>h p. Inl (Err ''refused''),
     eZip = \<lambda>h ps. Inr (''a.zip'', ''a.zip''), eTitle = \<lambda>p. p, eSize = \<lambda>h p. Inr 1, eOrder = \<lambda>n. [0..<n]\<rparr>"

definition one_file :: "string \<Rightarrow> rip_end" where
  "one_file mode = \<lparr>xMode = mode, xAlbumID = ''7'', xSingle = True, xMaxFileBytes = 50, xCounter = zero_counter\<rparr>"


subsection \<open>The route that does not\<close>

text \<open>Events nobody sees, and that leave the board without a word of failure.\<close>

fun unseen :: "event \<Rightarrow> bool" where
  "unseen (Board t) = (\<not> finishedAsFailure t)"
| "unseen (Closed c) = False"
| "unseen ev = (\<not> tells ev)"

definition hush :: "event list \<Rightarrow> event list \<Rightarrow> bool" where
  "hush h h' = (\<exists>new. h' = h @ new \<and> list_all unseen new)"

definition refuses :: "env \<Rightarrow> string \<Rightarrow> bool" where
  "refuses e t =
     ((\<forall>g. \<not> eCancelled e g \<and> eMtproto e g \<and> ePool e g \<and> \<not> eOthers e g) \<and>
      (\<forall>g c. eDo e g c = Some (Err t) \<and> eShows e g c = []) \<and> (\<forall>g p. eDump e g p = Inl (Err t)))"

lemma refusesD:
  assumes "refuses e t"
  shows "\<not> eCancelled e g" "eMtproto e g" "ePool e g" "\<not> eOthers e g" "eDump e g p = Inl (Err t)"
    "attempt e c g = (Some (Err t), g @ [Did c (Some (Err t))])"
  using assms by (simp_all add: refuses_def attempt_def Let_def)

lemma hush_refl [simp]: "hush h h"
  unfolding hush_def by (intro exI [of _ "[]"]) simp

lemma hush_trans: "hush h h1 \<Longrightarrow> hush h1 h2 \<Longrightarrow> hush h h2"
  unfolding hush_def by force

lemma hush_append: "list_all unseen new \<Longrightarrow> hush h (h @ new)"
  unfolding hush_def by blast

lemma contains_letters: "contains s w \<Longrightarrow> set w \<subseteq> set s"
  by (auto simp: contains_iff)

lemma digit_bytes:
  assumes "is_digit c"
  shows "plain_end_byte c" "lower_byte c = c" "c \<noteq> CHR ''f''" "c \<noteq> CHR ''c''"
  using assms by (auto simp: plain_end_byte_def go_spaces_def is_digit_def lower_byte_def)

lemma digits_lower: "list_all is_digit s \<Longrightarrow> to_lower s = s \<and> CHR ''f'' \<notin> set s \<and> CHR ''c'' \<notin> set s"
  by (induction s) (auto simp: to_lower_def digit_bytes dest: digit_bytes(3) digit_bytes(4))

lemma counting_phase:
  "\<not> finishedAsFailure (trim_space (''Uploading '' @ itoa (int k) @ ''/'' @ itoa (int n)))"
proof -
  let ?a = "nat_digits k" and ?b = "nat_digits n"
  let ?t = "''Uploading '' @ ?a @ ''/'' @ ?b"
  have "is_digit (last ?b)" using nat_digits_digits [of n] by (simp add: list_all_iff)
  then have "plain_byte (hd ?t) \<and> plain_end_byte (last ?t)"
    by (simp add: digit_bytes) (simp add: plain_byte_def go_spaces_def)
  then have trim: "trim_space ?t = ?t" by (intro trim_space_id) simp
  have "to_lower ''Uploading '' = ''uploading ''" "to_lower ''/'' = ''/''" by code_simp+
  then have low: "to_lower ?t = ''uploading '' @ ?a @ ''/'' @ ?b"
    using digits_lower [OF nat_digits_digits] by (simp add: to_lower_def)
  have no: "CHR ''f'' \<notin> set (to_lower ?t)" "CHR ''c'' \<notin> set (to_lower ?t)"
    unfolding low using digits_lower [OF nat_digits_digits] by simp_all
  then have "\<not> contains (to_lower ?t) ''fail''" "\<not> contains (to_lower ?t) ''cancel''"
    using contains_letters by fastforce+
  moreover have "\<not> has_prefix (to_lower ?t) ''no files''" unfolding low by simp
  ultimately show ?thesis using trim by (simp add: finishedAsFailure_def itoa_def Let_def del: append.simps)
qed

lemma dump_all_hush:
  "refuses e t \<Longrightarrow> dump_all e paths is res n h = (res', h') \<Longrightarrow> \<forall>i. in_dump (res i) = None \<Longrightarrow>
   hush h h' \<and> (\<forall>i. in_dump (res' i) = None)"
proof (induction "is" arbitrary: res n h)
  case (Cons i "is")
  let ?u = "UpdateSync (''Uploading '' @ itoa (int (Suc n)) @ ''/'' @ itoa (int (length paths))) (h @ [Dumped (paths ! i) (Inl (Err t))])"
  have "\<not> finishedAsFailure ''Working''" by code_simp
  then have u: "hush h ?u"
    using counting_phase [of "Suc n" "length paths"] by (auto simp: UpdateSync_def Let_def intro!: hush_append)
  have "dump_all e paths is (res(i := Inl (Err t))) (Suc n) ?u = (res', h')"
    using Cons.prems(2) refusesD [OF Cons.prems(1)] by (simp add: Let_def)
  from Cons.IH [OF Cons.prems(1) this] Cons.prems(3) u show ?case by (auto simp: in_dump_def intro: hush_trans)
qed simp

lemma index_none: "\<forall>i. in_dump (res i) = None \<Longrightarrow> index_dumped e paths res is d ids h = (d, ids, h)"
  by (induction "is") simp_all

lemma fallback_hush:
  "refuses e t \<Longrightarrow> fallback_rest e paths {} is s h = (s', h') \<Longrightarrow> s' = s \<and> hush h h'"
proof (induction "is" arbitrary: h)
  case (Cons i "is")
  let ?g = "h @ [Did (MtAudio (paths ! i)) (Some (Err t)), Did (Gofile (paths ! i)) (Some (Err t))]"
  have "fallback_rest e paths {} is s ?g = (s', h')"
    using Cons.prems(2) refusesD [OF Cons.prems(1)] by (simp add: deliverSingleTrackFallback_def gofile_link_def)
  from Cons.IH [OF Cons.prems(1) this] hush_append [of "[Did (MtAudio (paths ! i)) (Some (Err t)), Did (Gofile (paths ! i)) (Some (Err t))]" h]
  show ?case by (auto intro: hush_trans)
qed simp

lemma pool_hush:
  assumes "refuses e t"
  obtains h' where "deliverAudioViaPool e paths h = (False, h')" "hush h h'"
proof -
  obtain res h1 where d: "dump_all e paths (eOrder e (length paths)) (\<lambda>i. Inr (0, 0)) 0 h = (res, h1)" by fastforce
  have d1: "hush h h1" "\<forall>i. in_dump (res i) = None" using dump_all_hush [OF assms d] by (simp_all add: in_dump_def)
  obtain s h2 where f: "fallback_rest e paths {} [0..<length paths] False h1 = (s, h2)" by fastforce
  have "deliverAudioViaPool e paths h = (False, h2)"
    using d f index_none [OF d1(2)] fallback_hush [OF assms f] by (simp add: deliverAudioViaPool_def forward_dumped_def)
  with that d1(1) fallback_hush [OF assms f] show ?thesis by (blast intro: hush_trans)
qed

lemma no_artwork: "list_all (\<lambda>p. \<not> isAnimatedArtwork p) ps \<Longrightarrow> send_artwork e ps s h = (s, h)"
  by (induction ps) simp_all

lemma no_videos: "list_all (\<lambda>p. \<not> isVideoFile p) ps \<Longrightarrow> send_videos e ps s h = (False, s, h)"
  by (induction ps) simp_all

definition plain_track :: "string \<Rightarrow> bool" where
  "plain_track p = (\<not> isAnimatedArtwork p \<and> \<not> isVideoFile p)"

lemma individual_hush:
  assumes "refuses e t" "paths \<noteq> []" "list_all plain_track paths"
  shows "hush h (deliverTelegramIndividual e mx paths h)"
proof -
  have only: "remaining paths = paths" "audio_of paths = paths" "list_all (\<lambda>p. \<not> isAnimatedArtwork p) paths" "list_all (\<lambda>p. \<not> isVideoFile p) paths"
    using assms(3) by (auto simp: plain_track_def list_all_iff intro!: filter_True)
  obtain h' where "deliverAudioViaPool e paths h = (False, h')" "hush h h'" by (rule pool_hush [OF assms(1)])
  then show ?thesis
    using only refusesD [OF assms(1)] assms(2)
    by (simp add: deliverTelegramIndividual_def no_artwork no_videos deliver_audio_def)
qed

lemma unseen_tells: "list_all unseen new \<Longrightarrow> \<not> list_ex tells new \<and> \<not> board_closed new"
proof (induction new)
  case (Cons ev new)
  then show ?case by (cases ev) (auto simp: board_closed_def)
qed simp

lemma unseen_phase: "list_all unseen new \<Longrightarrow> \<not> finishedAsFailure (latestPhase new)"
proof (induction new)
  case Nil
  show ?case by code_simp
next
  case (Cons ev new)
  have "\<not> finishedAsFailure []" by code_simp
  with Cons show ?case by (cases ev) (auto simp: Let_def)
qed

text \<open>
  Track by track through the pool, a delivery in which every upload is refused, by the pool, by
  MTProto and by Gofile, ends without a word: the board goes, as after a success, and the chat
  holds neither a file nor a message.
\<close>

theorem pool_failure_is_silent:
  assumes "refuses e t" "remainderPaths r \<noteq> []" "list_all plain_track (remainderPaths r)"
    and "xMode x = transferModeTelegramIndividual" "\<not> flushedSomething (Some r)" "releaseWarningSummary r = []"
    and "\<not> board_closed h" "\<not> finishedAsFailure (latestPhase h)"
  shows "\<exists>new. finish_rip e x None r h = h @ new @ [Closed Removed] \<and> \<not> list_ex tells new"
proof -
  let ?paths = "remainderPaths r"
  let ?h = "deliverTelegramIndividual e (xMaxFileBytes x) ?paths h"
  obtain new where n: "?h = h @ new" "list_all unseen new"
    using individual_hush [OF assms(1-3)] by (auto simp: hush_def)
  have "route_of (xMode x) (xAlbumID x) (xSingle x) False (length ?paths) = ToIndividual" "gofile_for_size (xMode x) = False"
    using assms(4) by (simp_all add: route_of_def gofile_for_size_def transferModeTelegramIndividual_def transferModeMv_def
        transferModeMvGofile_def transferModeArt_def)
  then have "finish_rip e x None r h = retireBoard e (h @ new)"
    using assms(2,5,6) n(1) by (simp add: finish_rip_def deliver_rip_def announce_route_def Let_def)
  also have "\<dots> = (h @ new) @ [Closed Removed]"
    using assms(7,8) unseen_tells [OF n(2)] unseen_phase [OF n(2)] refusesD(4) [OF assms(1)]
    by (simp add: retireBoard_def latestPhase_append)
  finally show ?thesis using unseen_tells [OF n(2)] by simp
qed

theorem pool_failure_is_silent_witness:
  "\<exists>new. finish_rip all_refused (one_file ''tg_individual'') None (newRipState\<lparr>sPaths := [''a.m4a'']\<rparr>) [] = [] @ new @ [Closed Removed] \<and> \<not> list_ex tells new"
proof (rule pool_failure_is_silent [where t = "''refused''"])
  show "list_all plain_track (remainderPaths (newRipState\<lparr>sPaths := [''a.m4a'']\<rparr>))" by code_simp
  show "releaseWarningSummary (newRipState\<lparr>sPaths := [''a.m4a'']\<rparr>) = []" by code_simp
  show "\<not> finishedAsFailure (latestPhase [])" by code_simp
qed (simp_all add: refuses_def all_refused_def one_file_def newRipState_def remainderPaths_def flushedSomething_def transferModeTelegramIndividual_def)

end
