(* ===== verification/Mtproto.thy ===== *)
theory Mtproto
  imports Go_Strings
begin

section \<open>Uploads over MTProto, retried across reconnects\<close>

text \<open>
  \<^verbatim>\<open>bot/mtproto.go\<close>: resolving a chat, sending one file, a group or a file for the dump, the retry
  loop around each, the flood-wait middleware and the supervisor of the connection.  Telegram is the
  argument \<open>net\<close>, asked by the number of the call; as documented, it does not post a message whose
  RandomID it has posted before.  \<^verbatim>\<open>cryptoRandID\<close> draws numbers never drawn before.
\<close>

subsection \<open>Errors and answers\<close>

datatype conn_err = CanceledErr | FloodErr int | ErrText string

text \<open>\<^verbatim>\<open>Fine\<close>: done and answered; \<^verbatim>\<open>NoDocument\<close>: done, but the answer lacks the id asked for;
  \<^verbatim>\<open>Lost\<close>: done, and the answer is an error; \<^verbatim>\<open>Refused\<close>: not done.\<close>

datatype reply = Fine | NoDocument | Lost conn_err | Refused conn_err

fun reply_error :: "reply \<Rightarrow> conn_err option" where
  "reply_error (Lost x) = Some x"
| "reply_error (Refused x) = Some x"
| "reply_error _ = None"

fun done_by :: "reply \<Rightarrow> bool" where
  "done_by (Refused x) = False"
| "done_by _ = True"

definition isTransientConnErr :: "conn_err option \<Rightarrow> bool" where
  "isTransientConnErr er =
     (case er of
        None \<Rightarrow> False
      | Some CanceledErr \<Rightarrow> True
      | Some (FloodErr n) \<Rightarrow> False
      | Some (ErrText t) \<Rightarrow> contains t ''engine was closed'' \<or> contains t ''engine forcibly closed'' \<or> contains t ''connection dead'')"

definition uploadMaxAttempts :: nat where "uploadMaxAttempts = 3"
definition groupUploadMaxAttempts :: nat where "groupUploadMaxAttempts = 10"

subsection \<open>Resolving a chat\<close>

datatype peer = PeerUser int | PeerChat int | PeerChannel int int

text \<open>\<open>channels\<close> is what \<^verbatim>\<open>ChannelsGetChannels\<close> answers: the id and access hash of each channel.\<close>

record net =
  nReply :: "nat \<Rightarrow> reply"
  nReady :: "nat \<Rightarrow> bool"
  nCancelled :: "nat \<Rightarrow> bool"
  nGate :: "nat \<Rightarrow> bool"
  nChannels :: "nat \<Rightarrow> conn_err + (int \<times> int) list"

text \<open>The state: calls made, files handed over for transfer, messages in the chat, next RandomID, known peers.\<close>

record wire =
  wStep :: nat
  wUploads :: "string list"
  wPosted :: "(nat \<times> string) list"
  wNext :: nat
  wPeers :: "int \<rightharpoonup> peer"

definition tick :: "wire \<Rightarrow> wire" where
  "tick w = w\<lparr>wStep := wStep w + 1\<rparr>"

fun find_channel :: "int \<Rightarrow> (int \<times> int) list \<Rightarrow> int option" where
  "find_channel channelID [] = None"
| "find_channel channelID ((i, hash) # cs) = (if i = channelID then Some hash else find_channel channelID cs)"

definition remember_peer :: "int \<Rightarrow> peer \<Rightarrow> wire \<Rightarrow> wire" where
  "remember_peer chatID p w = w\<lparr>wPeers := (wPeers w)(chatID \<mapsto> p)\<rparr>"

definition resolve_channel :: "net \<Rightarrow> int \<Rightarrow> wire \<Rightarrow> (conn_err + peer) \<times> wire" where
  "resolve_channel net chatID w =
     (let channelID = - chatID - 1000000000000
      in if \<not> nReady net (wStep w) then (Inl (ErrText ''MTProto client not ready''), w)
         else case nChannels net (wStep w) of
                Inl x \<Rightarrow> (Inl x, tick w)
              | Inr chats \<Rightarrow>
                  (case find_channel channelID chats of
                     None \<Rightarrow> (Inl (ErrText ''channel not found in API response''), tick w)
                   | Some hash \<Rightarrow> (Inr (PeerChannel channelID hash), remember_peer chatID (PeerChannel channelID hash) (tick w))))"

definition resolveInputPeer :: "net \<Rightarrow> int \<Rightarrow> wire \<Rightarrow> (conn_err + peer) \<times> wire" where
  "resolveInputPeer net chatID w =
     (case wPeers w chatID of
        Some p \<Rightarrow> (Inr p, w)
      | None \<Rightarrow>
          if chatID < -1000000000000 then resolve_channel net chatID w
          else let p = (if chatID < 0 then PeerChat (- chatID) else PeerUser chatID) in (Inr p, remember_peer chatID p w))"

definition ChannelAccessHash :: "net \<Rightarrow> int \<Rightarrow> wire \<Rightarrow> (conn_err + int) \<times> wire" where
  "ChannelAccessHash net chatID w =
     (case resolveInputPeer net chatID w of
        (Inl x, w1) \<Rightarrow> (Inl x, w1)
      | (Inr (PeerChannel i hash), w1) \<Rightarrow> (Inr hash, w1)
      | (Inr p, w1) \<Rightarrow> (Inl (ErrText ''chat did not resolve to a channel peer''), w1))"

subsection \<open>One attempt\<close>

definition rpc :: "net \<Rightarrow> wire \<Rightarrow> reply \<times> wire" where
  "rpc net w = (nReply net (wStep w), tick w)"

text \<open>Handing a file over, part by part, is one call; a thumbnail that fails is only reported.\<close>

definition from_path :: "net \<Rightarrow> string \<Rightarrow> wire \<Rightarrow> conn_err option \<times> wire" where
  "from_path net file w = (case rpc net (w\<lparr>wUploads := wUploads w @ [file]\<rparr>) of (r, w1) \<Rightarrow> (reply_error r, w1))"

definition thumbnail :: "net \<Rightarrow> bool \<Rightarrow> wire \<Rightarrow> wire" where
  "thumbnail net hasThumb w = (if hasThumb then snd (rpc net w) else w)"

text \<open>What Telegram does with messages to post: those under a known RandomID are dropped.\<close>

definition post :: "(nat \<times> string) list \<Rightarrow> wire \<Rightarrow> wire" where
  "post ms w = w\<lparr>wPosted := wPosted w @ filter (\<lambda>m. fst m \<notin> fst ` set (wPosted w)) ms\<rparr>"

definition cryptoRandID :: "wire \<Rightarrow> nat \<times> wire" where
  "cryptoRandID w = (wNext w, w\<lparr>wNext := wNext w + 1\<rparr>)"

text \<open>\<^verbatim>\<open>MessagesSendMedia\<close>, and once more after a flood wait, with the same RandomID.\<close>

definition send_media :: "net \<Rightarrow> nat \<Rightarrow> string \<Rightarrow> wire \<Rightarrow> reply \<times> wire" where
  "send_media net rnd file w = (case rpc net w of (r, w1) \<Rightarrow> (r, if done_by r then post [(rnd, file)] w1 else w1))"

definition flooded :: "reply \<Rightarrow> bool" where
  "flooded r = (case reply_error r of Some (FloodErr n) \<Rightarrow> True | _ \<Rightarrow> False)"

definition send_twice :: "net \<Rightarrow> nat \<Rightarrow> string \<Rightarrow> wire \<Rightarrow> reply \<times> wire" where
  "send_twice net rnd file w =
     (case send_media net rnd file w of
        (r, w1) \<Rightarrow> if flooded r \<and> \<not> nCancelled net (wStep w1) then send_media net rnd file w1 else (r, w1))"

definition uploadAndSendAudioOnce :: "net \<Rightarrow> int \<Rightarrow> string \<Rightarrow> bool \<Rightarrow> wire \<Rightarrow> conn_err option \<times> wire" where
  "uploadAndSendAudioOnce net chatID file hasThumb w =
     (case from_path net file w of
        (Some x, w1) \<Rightarrow> (Some x, w1)
      | (None, w1) \<Rightarrow>
          (case resolveInputPeer net chatID (thumbnail net hasThumb w1) of
             (Inl x, w2) \<Rightarrow> (Some x, w2)
           | (Inr p, w2) \<Rightarrow>
               (case cryptoRandID w2 of
                  (rnd, w3) \<Rightarrow> (case send_twice net rnd file w3 of (r, w4) \<Rightarrow> (reply_error r, w4)))))"

text \<open>The same for a video, and for a document, which has no thumbnail.\<close>

definition uploadAndSendDocumentOnce :: "net \<Rightarrow> int \<Rightarrow> string \<Rightarrow> wire \<Rightarrow> conn_err option \<times> wire" where
  "uploadAndSendDocumentOnce net chatID file w = uploadAndSendAudioOnce net chatID file False w"

definition uploadAndSendVideoOnce :: "net \<Rightarrow> int \<Rightarrow> string \<Rightarrow> bool \<Rightarrow> wire \<Rightarrow> conn_err option \<times> wire" where
  "uploadAndSendVideoOnce net chatID file hasThumb w = uploadAndSendAudioOnce net chatID file hasThumb w"

text \<open>Into the dump, under a RandomID drawn before the first attempt; the answer holds the message's id.\<close>

definition id_of :: "nat \<Rightarrow> (nat \<times> string) list \<Rightarrow> nat" where
  "id_of rnd ms = Suc (length (takeWhile (\<lambda>m. fst m \<noteq> rnd) ms))"

definition uploadDocToDumpOnce :: "net \<Rightarrow> int \<Rightarrow> string \<Rightarrow> nat \<Rightarrow> bool \<Rightarrow> wire \<Rightarrow> (conn_err + nat) \<times> wire" where
  "uploadDocToDumpOnce net dumpChatID file rnd hasThumb w =
     (case from_path net file w of
        (Some x, w1) \<Rightarrow> (Inl x, w1)
      | (None, w1) \<Rightarrow>
          (case resolveInputPeer net dumpChatID (thumbnail net hasThumb w1) of
             (Inl x, w2) \<Rightarrow> (Inl x, w2)
           | (Inr p, w2) \<Rightarrow>
               (case send_twice net rnd file w2 of
                  (Fine, w3) \<Rightarrow> (Inr (id_of rnd (wPosted w3)), w3)
                | (NoDocument, w3) \<Rightarrow> (Inl (ErrText ''dump upload succeeded but no message id in updates''), w3)
                | (Lost x, w3) \<Rightarrow> (Inl x, w3)
                | (Refused x, w3) \<Rightarrow> (Inl x, w3))))"

text \<open>
  A group: the items not yet registered are transferred and registered in order, each under a
  RandomID of its own, kept across attempts; then the whole group is posted by one call.
\<close>

definition register_item :: "net \<Rightarrow> string \<Rightarrow> bool \<Rightarrow> wire \<Rightarrow> (conn_err + nat) \<times> wire" where
  "register_item net file hasThumb w =
     (case from_path net file w of
        (Some x, w1) \<Rightarrow> (Inl x, w1)
      | (None, w1) \<Rightarrow>
          (case rpc net (thumbnail net hasThumb w1) of
             (Fine, w2) \<Rightarrow> (case cryptoRandID w2 of (rnd, w3) \<Rightarrow> (Inr rnd, w3))
           | (NoDocument, w2) \<Rightarrow> (Inl (ErrText ''failed to extract document''), w2)
           | (Lost x, w2) \<Rightarrow> (Inl x, w2)
           | (Refused x, w2) \<Rightarrow> (Inl x, w2)))"

fun register_all :: "net \<Rightarrow> bool \<Rightarrow> (string \<times> nat option) list \<Rightarrow> wire \<Rightarrow> conn_err option \<times> (string \<times> nat option) list \<times> wire" where
  "register_all net hasThumb [] w = (None, [], w)"
| "register_all net hasThumb ((file, reg) # items) w =
     (if nCancelled net (wStep w) then (Some CanceledErr, (file, reg) # items, w)
      else if reg \<noteq> None then
        (case register_all net hasThumb items w of (er, items', w') \<Rightarrow> (er, (file, reg) # items', w'))
      else
        (case register_item net file hasThumb w of
           (Inl x, w1) \<Rightarrow> (Some x, (file, reg) # items, w1)
         | (Inr rnd, w1) \<Rightarrow>
             (case register_all net hasThumb items w1 of (er, items', w') \<Rightarrow> (er, (file, Some rnd) # items', w'))))"

definition multi_media :: "(string \<times> nat option) list \<Rightarrow> (nat \<times> string) list" where
  "multi_media items = map (\<lambda>(file, reg). (the reg, file)) items"

definition uploadAndSendAudioGroupOnce ::
  "net \<Rightarrow> int \<Rightarrow> bool \<Rightarrow> (string \<times> nat option) list \<Rightarrow> wire \<Rightarrow> conn_err option \<times> (string \<times> nat option) list \<times> wire" where
  "uploadAndSendAudioGroupOnce net chatID hasThumb items w =
     (case resolveInputPeer net chatID w of
        (Inl x, w1) \<Rightarrow> (Some x, items, w1)
      | (Inr p, w1) \<Rightarrow>
          (case register_all net hasThumb items w1 of
             (Some x, items', w2) \<Rightarrow> (Some x, items', w2)
           | (None, items', w2) \<Rightarrow>
               (case rpc net w2 of
                  (r, w3) \<Rightarrow> (reply_error r, items', if done_by r then post (multi_media items') w3 else w3))))"

subsection \<open>The retry loops\<close>

text \<open>
  An attempt works on a state of its own, from which \<open>wire_of\<close> reads the wire; the number
  counts the attempts left, and \<open>gaveUp\<close> is the error reported when there are none.
\<close>

fun upload_loop :: "net \<Rightarrow> ('s \<Rightarrow> wire) \<Rightarrow> (conn_err option \<Rightarrow> conn_err option) \<Rightarrow> nat \<Rightarrow> ('s \<Rightarrow> conn_err option \<times> 's) \<Rightarrow> conn_err option \<Rightarrow> 's \<Rightarrow> conn_err option \<times> 's" where
  "upload_loop net wire_of gaveUp 0 fn lastErr s = (gaveUp lastErr, s)"
| "upload_loop net wire_of gaveUp (Suc k) fn lastErr s =
     (if \<not> nReady net (wStep (wire_of s))
      then (Some (if nCancelled net (wStep (wire_of s)) then CanceledErr else ErrText ''MTProto client not ready''), s)
      else case fn s of
             (None, s1) \<Rightarrow> (None, s1)
           | (Some x, s1) \<Rightarrow>
               if nCancelled net (wStep (wire_of s1)) then (Some x, s1)
               else if \<not> isTransientConnErr (Some x) then (Some x, s1)
               else upload_loop net wire_of gaveUp k fn (Some x) s1)"

definition withUploadRetryN :: "net \<Rightarrow> ('s \<Rightarrow> wire) \<Rightarrow> nat \<Rightarrow> ('s \<Rightarrow> conn_err option \<times> 's) \<Rightarrow> 's \<Rightarrow> conn_err option \<times> 's" where
  "withUploadRetryN net wire_of maxAttempts fn s =
     (if \<not> nGate net (wStep (wire_of s)) then (Some CanceledErr, s) else upload_loop net wire_of (\<lambda>er. er) maxAttempts fn None s)"

definition withRPCRetry :: "net \<Rightarrow> (wire \<Rightarrow> conn_err option \<times> wire) \<Rightarrow> wire \<Rightarrow> conn_err option \<times> wire" where
  "withRPCRetry net fn w = upload_loop net (\<lambda>w. w) (\<lambda>er. Some (ErrText ''exceeded attempts'')) uploadMaxAttempts fn None w"

definition UploadAndSendAudio :: "net \<Rightarrow> int \<Rightarrow> string \<Rightarrow> bool \<Rightarrow> wire \<Rightarrow> conn_err option \<times> wire" where
  "UploadAndSendAudio net chatID file hasThumb w =
     withUploadRetryN net (\<lambda>w. w) uploadMaxAttempts (uploadAndSendAudioOnce net chatID file hasThumb) w"

definition UploadAndSendDocument :: "net \<Rightarrow> int \<Rightarrow> string \<Rightarrow> wire \<Rightarrow> conn_err option \<times> wire" where
  "UploadAndSendDocument net chatID file w = withUploadRetryN net (\<lambda>w. w) uploadMaxAttempts (uploadAndSendDocumentOnce net chatID file) w"

definition UploadAndSendVideo :: "net \<Rightarrow> int \<Rightarrow> string \<Rightarrow> bool \<Rightarrow> wire \<Rightarrow> conn_err option \<times> wire" where
  "UploadAndSendVideo net chatID file hasThumb w =
     withUploadRetryN net (\<lambda>w. w) uploadMaxAttempts (uploadAndSendVideoOnce net chatID file hasThumb) w"

text \<open>The registered items are shared by the attempts on a group, the RandomID by those on a file for the dump.\<close>

definition group_try :: "net \<Rightarrow> int \<Rightarrow> bool \<Rightarrow> (string \<times> nat option) list \<times> wire \<Rightarrow> conn_err option \<times> (string \<times> nat option) list \<times> wire" where
  "group_try net chatID hasThumb st =
     (case st of (items, w) \<Rightarrow> case uploadAndSendAudioGroupOnce net chatID hasThumb items w of (er, items', w') \<Rightarrow> (er, (items', w')))"

definition UploadAndSendAudioGroup :: "net \<Rightarrow> int \<Rightarrow> string list \<Rightarrow> bool \<Rightarrow> wire \<Rightarrow> conn_err option \<times> wire" where
  "UploadAndSendAudioGroup net chatID files hasThumb w =
     (case withUploadRetryN net snd groupUploadMaxAttempts (group_try net chatID hasThumb) (map (\<lambda>f. (f, None)) files, w) of
        (er, (items, w')) \<Rightarrow> (er, w'))"

definition dump_try :: "net \<Rightarrow> int \<Rightarrow> string \<Rightarrow> nat \<Rightarrow> bool \<Rightarrow> nat \<times> wire \<Rightarrow> conn_err option \<times> nat \<times> wire" where
  "dump_try net dumpChatID file rnd hasThumb st =
     (case st of (msgID, w) \<Rightarrow>
        case uploadDocToDumpOnce net dumpChatID file rnd hasThumb w of
          (Inl x, w') \<Rightarrow> (Some x, (msgID, w')) | (Inr i, w') \<Rightarrow> (None, (i, w')))"

definition UploadAudioToDump :: "net \<Rightarrow> int \<Rightarrow> string \<Rightarrow> bool \<Rightarrow> wire \<Rightarrow> nat \<times> conn_err option \<times> wire" where
  "UploadAudioToDump net dumpChatID file hasThumb w =
     (case cryptoRandID w of
        (rnd, w1) \<Rightarrow>
          (case withUploadRetryN net snd uploadMaxAttempts (dump_try net dumpChatID file rnd hasThumb) (0, w1) of
             (er, (msgID, w')) \<Rightarrow> (msgID, er, w')))"

definition UploadDocumentToDump :: "net \<Rightarrow> int \<Rightarrow> string \<Rightarrow> wire \<Rightarrow> nat \<times> conn_err option \<times> wire" where
  "UploadDocumentToDump net dumpChatID file w = UploadAudioToDump net dumpChatID file False w"

text \<open>Copying out of a dump: \<open>stored\<close> names the file of a dump message.\<close>

fun draw_ids :: "nat \<Rightarrow> wire \<Rightarrow> nat list \<times> wire" where
  "draw_ids 0 w = ([], w)"
| "draw_ids (Suc n) w = (case cryptoRandID w of (rnd, w1) \<Rightarrow> (case draw_ids n w1 of (rnds, w2) \<Rightarrow> (rnd # rnds, w2)))"

definition forward_once :: "net \<Rightarrow> (nat \<times> string) list \<Rightarrow> wire \<Rightarrow> conn_err option \<times> wire" where
  "forward_once net ms w = (case rpc net w of (r, w1) \<Rightarrow> (reply_error r, if done_by r then post ms w1 else w1))"

definition DeliverManyFromDump :: "net \<Rightarrow> (int \<Rightarrow> string) \<Rightarrow> int \<Rightarrow> int list \<Rightarrow> int \<Rightarrow> wire \<Rightarrow> conn_err option \<times> wire" where
  "DeliverManyFromDump net stored dumpChatID msgIDs recipientID w =
     (if msgIDs = [] then (None, w)
      else case resolveInputPeer net dumpChatID w of
             (Inl x, w1) \<Rightarrow> (Some x, w1)
           | (Inr from, w1) \<Rightarrow>
               (case resolveInputPeer net recipientID w1 of
                  (Inl x, w2) \<Rightarrow> (Some x, w2)
                | (Inr to, w2) \<Rightarrow>
                    (case draw_ids (length msgIDs) w2 of
                       (rnds, w3) \<Rightarrow> withRPCRetry net (forward_once net (zip rnds (map stored msgIDs))) w3)))"

definition DeliverFromDump :: "net \<Rightarrow> (int \<Rightarrow> string) \<Rightarrow> int \<Rightarrow> int \<Rightarrow> int \<Rightarrow> wire \<Rightarrow> conn_err option \<times> wire" where
  "DeliverFromDump net stored dumpChatID msgID recipientID w = DeliverManyFromDump net stored dumpChatID [msgID] recipientID w"

subsection \<open>Flood waits\<close>

text \<open>
  \<^verbatim>\<open>FloodWaitMiddleware.Handle\<close> on the calls to come, each with what it answers, whether the wait
  Telegram asked for was sat out (and not cut by a cancellation), and how long call and wait took,
  in milliseconds; \<open>None\<close>: still going when the list ends.
\<close>

definition maxFloodWaitTotal :: int where "maxFloodWaitTotal = 5 * 60 * 1000"

fun flood_handle :: "int \<Rightarrow> (conn_err option \<times> bool \<times> int) list \<Rightarrow> (conn_err option \<times> int) option" where
  "flood_handle slept [] = None"
| "flood_handle slept ((er, waited, took) # calls) =
     (case er of
        None \<Rightarrow> Some (None, slept)
      | Some (FloodErr n) \<Rightarrow>
          (if \<not> waited then Some (er, slept)
           else if maxFloodWaitTotal \<le> slept + took then Some (er, slept + took)
           else flood_handle (slept + took) calls)
      | Some x \<Rightarrow> Some (er, slept))"

subsection \<open>The supervisor of the connection\<close>

datatype conn_phase = Connecting | Online | Backoff int | Over

record conn =
  cnPhase :: conn_phase
  cnReady :: bool
  cnApi :: bool
  cnRunCtx :: bool
  cnBackoff :: int
  cnFirst :: bool
  cnFirstResult :: "conn_err option list"

definition baseBackoff :: int where "baseBackoff = 1"
definition maxBackoff :: int where "maxBackoff = 60"

definition start_conn :: conn where
  "start_conn = \<lparr>cnPhase = Connecting, cnReady = False, cnApi = False, cnRunCtx = False, cnBackoff = baseBackoff, cnFirst = True, cnFirstResult = []\<rparr>"

definition authenticated :: "conn \<Rightarrow> conn" where
  "authenticated c =
     c\<lparr>cnPhase := Online, cnReady := True, cnApi := True, cnRunCtx := True, cnBackoff := baseBackoff, cnFirst := False,
       cnFirstResult := (if cnFirst c then cnFirstResult c @ [None] else cnFirstResult c)\<rparr>"

text \<open>\<open>closed\<close>: \<^verbatim>\<open>Close\<close> was called.\<close>

definition cycle_ended :: "bool \<Rightarrow> conn_err \<Rightarrow> conn \<Rightarrow> conn" where
  "cycle_ended closed x c =
     (let c1 = c\<lparr>cnReady := False, cnApi := False, cnRunCtx := False\<rparr>
      in if closed then c1\<lparr>cnPhase := Over\<rparr>
         else if cnFirst c1 then c1\<lparr>cnFirst := False, cnFirstResult := cnFirstResult c1 @ [Some x], cnPhase := Over\<rparr>
         else c1\<lparr>cnPhase := Backoff (cnBackoff c1)\<rparr>)"

definition wait_over :: "conn \<Rightarrow> conn" where
  "wait_over c = c\<lparr>cnPhase := Connecting, cnBackoff := (if maxBackoff < cnBackoff c * 2 then maxBackoff else cnBackoff c * 2)\<rparr>"

inductive sup_step :: "conn \<Rightarrow> conn \<Rightarrow> bool" where
  authenticate: "cnPhase c = Connecting \<Longrightarrow> sup_step c (authenticated c)"
| fail_cycle: "cnPhase c \<in> {Connecting, Online} \<Longrightarrow> sup_step c (cycle_ended closed x c)"
| wake: "cnPhase c = Backoff d \<Longrightarrow> sup_step c (wait_over c)"
| close_waiting: "cnPhase c = Backoff d \<Longrightarrow> sup_step c (c\<lparr>cnPhase := Over\<rparr>)"

inductive_cases sup_stepE: "sup_step c c'"

definition IsReady :: "conn \<Rightarrow> bool" where
  "IsReady c = cnReady c"

definition conn_snapshot :: "conn \<Rightarrow> bool \<times> bool \<times> bool" where
  "conn_snapshot c = (cnApi c, cnRunCtx c, cnReady c)"

subsection \<open>Lemmas on the wire\<close>

text \<open>No message of the chat bears a RandomID still to be drawn.\<close>

definition fresh :: "wire \<Rightarrow> bool" where
  "fresh w = list_all (\<lambda>m. fst m < wNext w) (wPosted w)"

lemma tick_simps [simp]:
  "wUploads (tick w) = wUploads w" "wPosted (tick w) = wPosted w" "wNext (tick w) = wNext w" "wPeers (tick w) = wPeers w"
  by (simp_all add: tick_def)

lemma remember_simps [simp]:
  "wUploads (remember_peer c p w) = wUploads w" "wPosted (remember_peer c p w) = wPosted w" "wNext (remember_peer c p w) = wNext w"
  by (simp_all add: remember_peer_def)

lemma resolve_frame:
  "resolveInputPeer net c w = (r, w') \<Longrightarrow> wUploads w' = wUploads w \<and> wPosted w' = wPosted w \<and> wNext w' = wNext w"
  by (auto simp: resolveInputPeer_def resolve_channel_def Let_def split: option.splits sum.splits if_splits)

lemma thumbnail_frame [simp]:
  "wUploads (thumbnail net t w) = wUploads w" "wPosted (thumbnail net t w) = wPosted w" "wNext (thumbnail net t w) = wNext w"
  by (simp_all add: thumbnail_def rpc_def)

lemma from_path_frame:
  "from_path net f w = (r, w') \<Longrightarrow> wUploads w' = wUploads w @ [f] \<and> wPosted w' = wPosted w \<and> wNext w' = wNext w"
  by (auto simp: from_path_def rpc_def)

lemma post_simps [simp]: "wUploads (post ms w) = wUploads w" "wNext (post ms w) = wNext w"
  by (simp_all add: post_def)

lemma post_new: "\<forall>m \<in> set ms. fst m \<notin> fst ` set (wPosted w) \<Longrightarrow> wPosted (post ms w) = wPosted w @ ms"
  by (simp add: post_def)

lemma post_old: "\<forall>m \<in> set ms. fst m \<in> fst ` set (wPosted w) \<Longrightarrow> wPosted (post ms w) = wPosted w"
  by (simp add: post_def)

lemma post_twice: "wPosted w = P @ ms \<Longrightarrow> wPosted (post ms w) = P @ ms"
  by (subst post_old) auto

text \<open>Once or twice, a message goes out at most once.\<close>

lemma send_media_posted:
  "send_media net rnd f w = (r, w') \<Longrightarrow> rnd \<notin> fst ` set P \<Longrightarrow> wPosted w = P \<or> wPosted w = P @ [(rnd, f)] \<Longrightarrow>
   (wPosted w' = P \<or> wPosted w' = P @ [(rnd, f)]) \<and> (done_by r \<longrightarrow> wPosted w' = P @ [(rnd, f)]) \<and>
   wUploads w' = wUploads w \<and> wNext w' = wNext w"
  by (auto simp: send_media_def rpc_def post_def split: if_splits)

lemma send_twice_posted:
  assumes "send_twice net rnd f w = (r, w')" "rnd \<notin> fst ` set P" "wPosted w = P \<or> wPosted w = P @ [(rnd, f)]"
  shows "(wPosted w' = P \<or> wPosted w' = P @ [(rnd, f)]) \<and> (done_by r \<longrightarrow> wPosted w' = P @ [(rnd, f)]) \<and>
    wUploads w' = wUploads w \<and> wNext w' = wNext w"
proof -
  obtain r1 w1 where a: "send_media net rnd f w = (r1, w1)" by fastforce
  note one = send_media_posted [OF a assms(2,3)]
  show ?thesis
  proof (cases "flooded r1 \<and> \<not> nCancelled net (wStep w1)")
    case True
    then have "send_media net rnd f w1 = (r, w')" using assms(1) a by (simp add: send_twice_def)
    from send_media_posted [OF this assms(2)] one show ?thesis by auto
  next
    case False
    then have "(r1, w1) = (r, w')" using assms(1) a by (auto simp: send_twice_def split: if_splits)
    with one show ?thesis by simp
  qed
qed

text \<open>
  The contract between the retry loops and an attempt: what every attempt keeps (\<open>I k\<close>, with \<open>k\<close>
  attempts left) and what a successful one leaves (\<open>Q\<close>).
\<close>

locale retried =
  fixes I :: "nat \<Rightarrow> 's \<Rightarrow> bool" and attempt :: "'s \<Rightarrow> conn_err option \<times> 's" and Q :: "'s \<Rightarrow> bool"
  assumes attempt_fails: "I (Suc k) s \<Longrightarrow> attempt s = (Some x, s1) \<Longrightarrow> I k s1"
    and attempt_succeeds: "I (Suc k) s \<Longrightarrow> attempt s = (None, s1) \<Longrightarrow> Q s1"
    and fewer_left: "I (Suc k) s \<Longrightarrow> I k s"
begin

lemma none_left: "I k s \<Longrightarrow> I 0 s"
  by (induction k) (auto intro: fewer_left)

lemma loop_result:
  assumes "\<And>er. g er \<noteq> None \<or> er = None"
  shows "upload_loop net wire_of g k attempt er s = (er', s') \<Longrightarrow> I k s \<Longrightarrow>
    (er' = None \<and> Q s') \<or> (er' = None \<and> er = None \<and> k = 0) \<or> (er' \<noteq> None \<and> I 0 s')"
proof (induction k arbitrary: er s)
  case 0
  then show ?case using assms [of er] by (cases "g er") auto
next
  case (Suc k)
  obtain r s1 where f: "attempt s = (r, s1)" by fastforce
  show ?case
  proof (cases "nReady net (wStep (wire_of s))")
    case False
    with Suc.prems show ?thesis by (auto intro: none_left)
  next
    case ready: True
    show ?thesis
    proof (cases r)
      case None
      with ready f Suc.prems attempt_succeeds show ?thesis by auto
    next
      case (Some x)
      have left: "I k s1" using attempt_fails Suc.prems(2) f Some by blast
      show ?thesis
      proof (cases "nCancelled net (wStep (wire_of s1)) \<or> \<not> isTransientConnErr (Some x)")
        case stop: True
        then have "(er', s') = (Some x, s1)" using Suc.prems(1) ready f Some by (auto split: if_splits)
        then show ?thesis using none_left [OF left] by simp
      next
        case False
        then have "upload_loop net wire_of g k attempt (Some x) s1 = (er', s')" using Suc.prems(1) ready f Some by simp
        from Suc.IH [OF this left] show ?thesis by auto
      qed
    qed
  qed
qed

lemma retried_result:
  assumes "withUploadRetryN net wire_of n attempt s = (er, s')" "I n s" "0 < n"
  shows "(er = None \<and> Q s') \<or> (er \<noteq> None \<and> I 0 s')"
proof (cases "nGate net (wStep (wire_of s))")
  case True
  then have "upload_loop net wire_of (\<lambda>er. er) n attempt None s = (er, s')" using assms(1) by (simp add: withUploadRetryN_def)
  from loop_result [OF _ this assms(2)] assms(3) show ?thesis by auto
next
  case False
  then show ?thesis using assms(1) none_left [OF assms(2)] by (auto simp: withUploadRetryN_def)
qed

end

subsection \<open>A group is posted once\<close>

abbreviation regs :: "(string \<times> nat option) list \<Rightarrow> nat list" where
  "regs items \<equiv> map the (filter (\<lambda>r. r \<noteq> None) (map snd items))"

abbreviation missing :: "(string \<times> nat option) list \<Rightarrow> nat" where
  "missing items \<equiv> length (filter (\<lambda>it. snd it = None) items)"

abbreviation all_registered :: "(string \<times> nat option) list \<Rightarrow> bool" where
  "all_registered items \<equiv> missing items = 0"

lemma register_item_frame:
  assumes "register_item net f t w = (r, w')"
  shows "wUploads w' = wUploads w @ [f] \<and> wPosted w' = wPosted w \<and>
    (case r of Inl x \<Rightarrow> wNext w' = wNext w | Inr rnd \<Rightarrow> rnd = wNext w \<and> wNext w' = wNext w + 1)"
proof -
  obtain r1 w1 where f: "from_path net f w = (r1, w1)" by fastforce
  note ff = from_path_frame [OF f]
  show ?thesis using assms f ff
    by (cases r1) (auto simp: register_item_def rpc_def cryptoRandID_def split: reply.splits prod.splits)
qed

lemma register_all_keeps:
  assumes "register_all net t items w = (er, items', w')"
    and "distinct (regs items)" "\<forall>r \<in> set (regs items). r < wNext w"
  shows "map fst items' = map fst items \<and> wPosted w' = wPosted w \<and> wNext w \<le> wNext w' \<and>
    distinct (regs items') \<and> set (regs items') \<subseteq> set (regs items) \<union> {wNext w..<wNext w'} \<and>
    (er = None \<longrightarrow> all_registered items') \<and> (all_registered items \<longrightarrow> items' = items) \<and>
    length (wUploads w') + missing items' \<le> length (wUploads w) + missing items + (if er = None then 0 else 1)"
  using assms
proof (induction items arbitrary: w er items' w')
  case (Cons it items)
  obtain f0 reg where it: "it = (f0, reg)" by (cases it)
  consider "nCancelled net (wStep w)" | a where "\<not> nCancelled net (wStep w)" "reg = Some a" | "\<not> nCancelled net (wStep w)" "reg = None"
    by (cases reg) auto
  then show ?case
  proof cases
    case 1
    with Cons.prems it show ?thesis by auto
  next
    case 2
    obtain e1 i1 w1 where r: "register_all net t items w = (e1, i1, w1)" by (metis prod_cases3)
    have res: "er = e1" "items' = (f0, Some a) # i1" "w' = w1" using Cons.prems(1) 2 it r by auto
    have pre: "distinct (regs items)" "\<forall>r \<in> set (regs items). r < wNext w" "a \<notin> set (regs items)" "a < wNext w"
      using Cons.prems(2,3) it 2 by auto
    note IH = Cons.IH [OF r pre(1,2)]
    have new: "set (regs i1) \<subseteq> set (regs items) \<union> {wNext w..<wNext w1}" using IH by blast
    have "a \<notin> set (regs i1)"
    proof
      assume "a \<in> set (regs i1)"
      then have "a \<in> set (regs items) \<or> wNext w \<le> a \<and> a < wNext w1"
        using subsetD [OF new] by (simp only: Un_iff atLeastLessThan_iff)
      then show False using pre(3,4) by simp
    qed
    moreover have "set (regs items') \<subseteq> set (regs (it # items)) \<union> {wNext w..<wNext w'}"
    proof -
      have "regs items' = a # regs i1" "regs (it # items) = a # regs items" using res it 2 by simp_all
      then show ?thesis using new unfolding \<open>w' = w1\<close> by (simp only: list.set) blast
    qed
    moreover have "map fst items' = map fst (it # items)" "wPosted w' = wPosted w" "wNext w \<le> wNext w'"
      "er = None \<longrightarrow> all_registered items'" "distinct (regs i1)" "all_registered items \<longrightarrow> i1 = items"
      "length (wUploads w') + missing i1 \<le> length (wUploads w) + missing items + (if er = None then 0 else 1)"
      using IH res it by simp_all
    ultimately show ?thesis using res it 2 by simp
  next
    case 3
    obtain r1 w1 where i: "register_item net f0 t w = (r1, w1)" by fastforce
    note fi = register_item_frame [OF i]
    show ?thesis
    proof (cases r1)
      case (Inl x)
      with Cons.prems 3 it i fi show ?thesis by auto
    next
      case (Inr rnd)
      obtain e1 i1 w2 where r: "register_all net t items w1 = (e1, i1, w2)" by (metis prod_cases3)
      have res: "er = e1" "items' = (f0, Some rnd) # i1" "w' = w2" using Cons.prems(1) 3 it i Inr r by auto
      have nx: "rnd = wNext w" "wNext w1 = wNext w + 1" using fi Inr by simp_all
      have "distinct (regs items)" "\<forall>a \<in> set (regs items). a < wNext w1" using Cons.prems(2,3) it 3 nx by auto
      note IH = Cons.IH [OF r this]
      have new: "set (regs i1) \<subseteq> set (regs items) \<union> {wNext w1..<wNext w2}" using IH by blast
      have "rnd \<notin> set (regs i1)"
      proof
        assume "rnd \<in> set (regs i1)"
        then have "rnd \<in> set (regs items) \<or> wNext w1 \<le> rnd \<and> rnd < wNext w2"
          using subsetD [OF new] by (simp only: Un_iff atLeastLessThan_iff)
        then show False using Cons.prems(3) it 3 nx by auto
      qed
      moreover have "set (regs items') \<subseteq> set (regs (it # items)) \<union> {wNext w..<wNext w'}"
      proof -
        have "regs items' = rnd # regs i1" "regs (it # items) = regs items" using res it 3 by simp_all
        moreover have "rnd \<in> {wNext w..<wNext w2}" "{wNext w1..<wNext w2} \<subseteq> {wNext w..<wNext w2}" using nx IH by auto
        ultimately show ?thesis using new unfolding \<open>w' = w2\<close> by (simp only: list.set) blast
      qed
      moreover have "length (wUploads w') + missing items' \<le> length (wUploads w) + missing (it # items) + (if er = None then 0 else 1)"
      proof -
        have "length (wUploads w2) + missing i1 \<le> length (wUploads w1) + missing items + (if e1 = None then 0 else 1)" using IH by blast
        then show ?thesis using fi res it 3 by simp
      qed
      moreover have "map fst items' = map fst (it # items)" "wPosted w' = wPosted w" "wNext w \<le> wNext w'"
        "er = None \<longrightarrow> all_registered items'" "distinct (regs i1)"
        using IH fi res nx it by simp_all
      ultimately show ?thesis using res it 3 by simp
    qed
  qed
qed simp

lemma multi_media_regs: "all_registered items \<Longrightarrow> map fst (multi_media items) = regs items \<and> map snd (multi_media items) = map fst items"
  by (induction items) (auto simp: multi_media_def split: if_splits)

text \<open>What the attempts at a group keep: \<open>P\<close> was posted before, \<open>lo\<close> was the next RandomID, \<open>U\<close> bounds the transfers.\<close>

definition group_inv :: "(nat \<times> string) list \<Rightarrow> nat \<Rightarrow> nat \<Rightarrow> string list \<Rightarrow> nat \<Rightarrow> (string \<times> nat option) list \<times> wire \<Rightarrow> bool" where
  "group_inv P lo U files k st =
     (case st of (items, w) \<Rightarrow>
        map fst items = files \<and> distinct (regs items) \<and> (\<forall>r \<in> set (regs items). lo \<le> r \<and> r < wNext w) \<and> lo \<le> wNext w \<and>
        (wPosted w = P \<or> all_registered items \<and> wPosted w = P @ multi_media items) \<and> (\<forall>m \<in> set P. fst m < lo) \<and>
        length (wUploads w) + missing items + k \<le> U)"

lemma group_attempt:
  assumes "uploadAndSendAudioGroupOnce net c t items w = (er, items', w')" "group_inv P lo U files (Suc k) (items, w)"
  shows "group_inv P lo U files k (items', w') \<and> (er = None \<longrightarrow> all_registered items' \<and> wPosted w' = P @ multi_media items')"
proof -
  obtain r1 w1 where p: "resolveInputPeer net c w = (r1, w1)" by fastforce
  note fp = resolve_frame [OF p]
  have inv: "map fst items = files" "distinct (regs items)" "\<forall>r \<in> set (regs items). lo \<le> r \<and> r < wNext w" "lo \<le> wNext w"
    "wPosted w = P \<or> all_registered items \<and> wPosted w = P @ multi_media items"
    "length (wUploads w) + missing items + Suc k \<le> U" and old: "\<forall>m \<in> set P. fst m < lo"
    using assms(2) by (auto simp: group_inv_def)
  show ?thesis
  proof (cases r1)
    case (Inl x)
    with assms(1) p fp inv old show ?thesis by (auto simp: uploadAndSendAudioGroupOnce_def group_inv_def)
  next
    case (Inr q)
    obtain e2 items2 w2 where g: "register_all net t items w1 = (e2, items2, w2)" by (metis prod_cases3)
    have "\<forall>r \<in> set (regs items). r < wNext w1" using inv(3) fp by simp
    note keep = register_all_keeps [OF g inv(2) this]
    have ids: "\<forall>r \<in> set (regs items2). lo \<le> r \<and> r < wNext w2" "lo \<le> wNext w2"
    proof -
      have "set (regs items2) \<subseteq> set (regs items) \<union> {wNext w1..<wNext w2}" "wNext w1 \<le> wNext w2" using keep by blast+
      moreover have "wNext w1 = wNext w" using fp by blast
      ultimately have sub: "set (regs items2) \<subseteq> set (regs items) \<union> {wNext w..<wNext w2}" and le: "wNext w \<le> wNext w2" by simp_all
      show "lo \<le> wNext w2" using inv(4) le by simp
      show "\<forall>r \<in> set (regs items2). lo \<le> r \<and> r < wNext w2"
      proof
        fix r assume "r \<in> set (regs items2)"
        then have "r \<in> set (regs items) \<or> wNext w \<le> r \<and> r < wNext w2"
          using subsetD [OF sub] by (simp only: Un_iff atLeastLessThan_iff)
        then show "lo \<le> r \<and> r < wNext w2" using inv(3,4) le by (meson less_le_trans order_trans)
      qed
    qed
    have posted: "wPosted w2 = P \<or> all_registered items2 \<and> wPosted w2 = P @ multi_media items2"
      using inv(5) keep fp by auto
    have basic: "map fst items2 = files" "distinct (regs items2)" using keep inv(1) by auto
    have up: "length (wUploads w2) + missing items2 \<le> length (wUploads w) + missing items + (if e2 = None then 0 else 1)"
      using keep fp by simp
    show ?thesis
    proof (cases e2)
      case (Some x)
      then have res: "er = Some x" "items' = items2" "w' = w2" using assms(1) p Inr g by (auto simp: uploadAndSendAudioGroupOnce_def)
      have "length (wUploads w2) + missing items2 + k \<le> U" using up inv(6) Some by simp
      with res ids posted basic old show ?thesis by (auto simp: group_inv_def)
    next
      case None
      then have reg: "all_registered items2" using keep by blast
      define ms where "ms = multi_media items2"
      have ms: "map fst ms = regs items2" using multi_media_regs [OF reg] by (simp add: ms_def)
      obtain r3 where r3: "rpc net w2 = (r3, tick w2)" by (simp add: rpc_def)
      have res: "er = reply_error r3" "items' = items2" "w' = (if done_by r3 then post ms (tick w2) else tick w2)"
        using assms(1) p Inr g None r3 by (auto simp: uploadAndSendAudioGroupOnce_def ms_def)
      have sent: "wPosted (post ms (tick w2)) = P @ ms"
      proof (cases "wPosted w2 = P")
        case True
        have "fst m \<notin> fst ` set P" if "m \<in> set ms" for m
        proof -
          have "fst m \<in> set (map fst ms)" using that by simp
          then have "lo \<le> fst m" unfolding ms using ids(1) by blast
          then show ?thesis using old by fastforce
        qed
        then show ?thesis using True by (subst post_new) auto
      next
        case False
        then show ?thesis using posted by (auto simp: ms_def intro: post_twice)
      qed
      have "length (wUploads w2) + missing items2 + k \<le> U" using up inv(6) None by simp
      moreover have "er = None \<longrightarrow> done_by r3" using res(1) by (cases r3) auto
      ultimately show ?thesis using res ids posted basic sent reg old by (auto simp: group_inv_def ms_def)
    qed
  qed
qed

lemma fresh_old: "fresh w \<Longrightarrow> \<forall>m \<in> set (wPosted w). fst m < wNext w"
  by (simp add: fresh_def list_all_iff)

lemma multi_media_zip:
  "all_registered items \<Longrightarrow> multi_media items = zip (regs items) (map fst items) \<and> length (regs items) = length (map fst items)"
  using multi_media_regs [of items] by (metis length_map zip_map_fst_snd)

definition group_sent :: "(nat \<times> string) list \<Rightarrow> string list \<Rightarrow> nat \<Rightarrow> (string \<times> nat option) list \<times> wire \<Rightarrow> bool" where
  "group_sent P files U st =
     (case st of (items, w) \<Rightarrow> map fst items = files \<and> all_registered items \<and> wPosted w = P @ multi_media items \<and> length (wUploads w) \<le> U)"

interpretation group_attempts: retried "group_inv P lo U files" "group_try net chatID hasThumb" "group_sent P files U"
  for P lo U files net chatID hasThumb
proof
  fix k s x s1
  assume inv: "group_inv P lo U files (Suc k) s" and res: "group_try net chatID hasThumb s = (Some x, s1)"
  obtain items w er items' w' where s: "s = (items, w)" "uploadAndSendAudioGroupOnce net chatID hasThumb items w = (er, items', w')"
    by (metis prod_cases3 surj_pair)
  then have "s1 = (items', w')" using res by (auto simp: group_try_def)
  then show "group_inv P lo U files k s1" using group_attempt [OF s(2)] inv s(1) by auto
next
  fix k s s1
  assume inv: "group_inv P lo U files (Suc k) s" and res: "group_try net chatID hasThumb s = (None, s1)"
  obtain items w er items' w' where s: "s = (items, w)" "uploadAndSendAudioGroupOnce net chatID hasThumb items w = (er, items', w')"
    by (metis prod_cases3 surj_pair)
  then have "er = None" "s1 = (items', w')" using res by (auto simp: group_try_def)
  then show "group_sent P files U s1" using group_attempt [OF s(2), of P lo U files k] inv s(1) by (auto simp: group_sent_def group_inv_def)
next
  show "group_inv P lo U files (Suc k) s \<Longrightarrow> group_inv P lo U files k s" for k s by (auto simp: group_inv_def)
qed

lemma group_start:
  assumes "fresh w"
  shows "group_inv (wPosted w) (wNext w) (length (wUploads w) + length files + k) files k (map (\<lambda>f. (f, None)) files, w)"
proof -
  have "regs (map (\<lambda>f. (f, None)) files) = []" "missing (map (\<lambda>f. (f, None)) files) = length files"
    "map fst (map (\<lambda>f. (f, None)) files) = files" by (induction files) auto
  with fresh_old [OF assms] show ?thesis by (auto simp: group_inv_def)
qed

text \<open>
  C17: A group is posted at most once, whole and in order, however often the connection breaks
  and whichever answers are lost on the way; success means it is in the chat; and the attempts
  together transfer at most one file per item and one more per attempt.
\<close>

theorem group_posted_once:
  assumes "fresh w" "UploadAndSendAudioGroup net chatID files hasThumb w = (er, w')"
  shows "\<exists>rnds. length rnds = length files \<and>
    (if wPosted w' = wPosted w then er \<noteq> None \<or> files = [] else wPosted w' = wPosted w @ zip rnds files) \<and>
    length (wUploads w') \<le> length (wUploads w) + length files + groupUploadMaxAttempts"
proof -
  let ?U = "length (wUploads w) + length files + groupUploadMaxAttempts"
  obtain items where "withUploadRetryN net snd groupUploadMaxAttempts (group_try net chatID hasThumb)
      (map (\<lambda>f. (f, None)) files, w) = (er, (items, w'))"
    using assms(2) by (auto simp: UploadAndSendAudioGroup_def split: prod.splits)
  from group_attempts.retried_result [OF this group_start [OF assms(1)]]
  have after: "(er = None \<and> group_sent (wPosted w) files ?U (items, w')) \<or> (er \<noteq> None \<and> group_inv (wPosted w) (wNext w) ?U files 0 (items, w'))"
    by (simp add: groupUploadMaxAttempts_def)
  have unsent: "?thesis" if "wPosted w' = wPosted w" "er \<noteq> None" "length (wUploads w') \<le> ?U"
    using that by (intro exI [of _ "replicate (length files) 0"]) simp
  show ?thesis
  proof (cases "group_sent (wPosted w) files ?U (items, w')")
    case True
    then have "multi_media items = [] \<longleftrightarrow> files = []" by (auto simp: group_sent_def multi_media_def)
    then show ?thesis using True multi_media_zip [of items] by (intro exI [of _ "regs items"]) (auto simp: group_sent_def)
  next
    case False
    then show ?thesis using after unsent by (auto simp: group_inv_def group_sent_def)
  qed
qed

text \<open>A net whose third call is done but answered by a torn-down connection.\<close>

definition torn_net :: "nat \<Rightarrow> net" where
  "torn_net n = \<lparr>nReply = (\<lambda>k. if k = n then Lost (ErrText ''engine was closed'') else Fine), nReady = \<lambda>k. True,
     nCancelled = \<lambda>k. False, nGate = \<lambda>k. True, nChannels = \<lambda>k. Inr []\<rparr>"

definition idle_wire :: wire where
  "idle_wire = \<lparr>wStep = 0, wUploads = [], wPosted = [], wNext = 0, wPeers = Map.empty\<rparr>"

definition group_run :: "conn_err option \<times> wire" where
  "group_run = UploadAndSendAudioGroup (torn_net 4) 7 [''a'', ''b''] False idle_wire"

lemma group_run_posted: "wPosted (snd group_run) = [(0, ''a''), (1, ''b'')] \<and> fst group_run = None"
  by code_simp

theorem group_posted_once_witness:
  "wPosted (snd group_run) = [(0, ''a''), (1, ''b'')] \<and> length (wUploads (snd group_run)) \<le> 12"
proof -
  have run: "UploadAndSendAudioGroup (torn_net 4) 7 [''a'', ''b''] False idle_wire = (fst group_run, snd group_run)"
    by (simp add: group_run_def)
  have "fresh idle_wire" "wPosted idle_wire = []" "wUploads idle_wire = []" by (simp_all add: fresh_def idle_wire_def)
  with group_posted_once [OF _ run] group_run_posted show ?thesis
    by (auto simp: groupUploadMaxAttempts_def split: if_splits)
qed

subsection \<open>A file for the dump is posted once\<close>

text \<open>\<open>k\<close> more attempts transfer \<open>k\<close> more files at most.\<close>

definition dump_inv :: "(nat \<times> string) list \<Rightarrow> nat \<Rightarrow> nat \<Rightarrow> string \<Rightarrow> nat \<Rightarrow> nat \<times> wire \<Rightarrow> bool" where
  "dump_inv P rnd U f k st =
     ((wPosted (snd st) = P \<or> wPosted (snd st) = P @ [(rnd, f)]) \<and> length (wUploads (snd st)) + k \<le> U \<and> rnd \<notin> fst ` set P)"

definition dump_sent :: "(nat \<times> string) list \<Rightarrow> nat \<Rightarrow> string \<Rightarrow> nat \<Rightarrow> nat \<times> wire \<Rightarrow> bool" where
  "dump_sent P rnd f U st = (wPosted (snd st) = P @ [(rnd, f)] \<and> fst st = Suc (length P) \<and> length (wUploads (snd st)) \<le> U)"

lemma id_of_last: "rnd \<notin> fst ` set P \<Longrightarrow> id_of rnd (P @ [(rnd, f)]) = Suc (length P)"
  by (induction P) (auto simp: id_of_def)

lemma dump_attempt:
  assumes "uploadDocToDumpOnce net c f rnd t w = (r, w')" "dump_inv P rnd U f (Suc k) (m, w)"
  shows "dump_inv P rnd U f k (m', w') \<and>
    (case r of Inl x \<Rightarrow> True | Inr i \<Rightarrow> wPosted w' = P @ [(rnd, f)] \<and> i = Suc (length P))"
proof -
  obtain r1 w1 where u: "from_path net f w = (r1, w1)" by fastforce
  note fu = from_path_frame [OF u]
  obtain r2 w2 where p: "resolveInputPeer net c (thumbnail net t w1) = (r2, w2)" by fastforce
  note fp = resolve_frame [OF p]
  obtain r3 w3 where s: "send_twice net rnd f w2 = (r3, w3)" by fastforce
  have before: "wPosted w2 = P \<or> wPosted w2 = P @ [(rnd, f)]" using assms(2) fu fp by (simp add: dump_inv_def)
  have new: "rnd \<notin> fst ` set P" using assms(2) by (simp add: dump_inv_def)
  note fs = send_twice_posted [OF s new before]
  show ?thesis
    using assms(1,2) u fu p fp s fs id_of_last [OF new]
    by (cases r1; cases r2; cases r3) (auto simp: uploadDocToDumpOnce_def dump_inv_def)
qed

interpretation dump_attempts: retried "dump_inv P rnd U f" "dump_try net c f rnd t" "dump_sent P rnd f U" for P rnd U f net c t
proof
  fix k s x s1
  assume inv: "dump_inv P rnd U f (Suc k) s" and res: "dump_try net c f rnd t s = (Some x, s1)"
  obtain m w q w' where s: "s = (m, w)" "uploadDocToDumpOnce net c f rnd t w = (q, w')" by (metis surj_pair)
  then show "dump_inv P rnd U f k s1" using res dump_attempt [OF s(2), of P U k m] inv by (cases q) (auto simp: dump_try_def)
next
  fix k s s1
  assume inv: "dump_inv P rnd U f (Suc k) s" and res: "dump_try net c f rnd t s = (None, s1)"
  obtain m w q w' where s: "s = (m, w)" "uploadDocToDumpOnce net c f rnd t w = (q, w')" by (metis surj_pair)
  then show "dump_sent P rnd f U s1" using res dump_attempt [OF s(2), of P U k m m] inv
    by (cases q) (auto simp: dump_try_def dump_sent_def dump_inv_def)
next
  show "dump_inv P rnd U f (Suc k) s \<Longrightarrow> dump_inv P rnd U f k s" for k s by (simp add: dump_inv_def)
qed

text \<open>
  A file for the dump is posted there at most once, whatever the connection does, in at most
  three transfers; success means it is there, under the id that is returned.
\<close>

theorem dump_upload_posted_once:
  assumes "fresh w" "UploadAudioToDump net dumpChatID file hasThumb w = (msgID, er, w')"
  shows "(if er = None then wPosted w' = wPosted w @ [(wNext w, file)] \<and> msgID = Suc (length (wPosted w))
          else wPosted w' \<in> {wPosted w, wPosted w @ [(wNext w, file)]}) \<and>
    length (wUploads w') \<le> length (wUploads w) + uploadMaxAttempts"
proof -
  let ?P = "wPosted w" and ?rnd = "wNext w" and ?U = "length (wUploads w) + uploadMaxAttempts"
  have "withUploadRetryN net snd uploadMaxAttempts (dump_try net dumpChatID file ?rnd hasThumb) (0, w\<lparr>wNext := wNext w + 1\<rparr>) = (er, (msgID, w'))"
    using assms(2) by (auto simp: UploadAudioToDump_def cryptoRandID_def split: prod.splits)
  moreover have "dump_inv ?P ?rnd ?U file uploadMaxAttempts (0, w\<lparr>wNext := wNext w + 1\<rparr>)"
    using fresh_old [OF assms(1)] by (auto simp: dump_inv_def)
  ultimately have "(er = None \<and> dump_sent ?P ?rnd file ?U (msgID, w')) \<or> (er \<noteq> None \<and> dump_inv ?P ?rnd ?U file 0 (msgID, w'))"
    by (rule dump_attempts.retried_result) (simp add: uploadMaxAttempts_def)
  then show ?thesis by (auto simp: dump_inv_def dump_sent_def)
qed

definition dump_run :: "nat \<times> conn_err option \<times> wire" where
  "dump_run = UploadAudioToDump (torn_net 1) 7 ''a'' False idle_wire"

theorem dump_upload_posted_once_witness:
  "wPosted (snd (snd dump_run)) = [(0, ''a'')] \<and> length (wUploads (snd (snd dump_run))) \<le> 3"
proof -
  have run: "UploadAudioToDump (torn_net 1) 7 ''a'' False idle_wire = (fst dump_run, fst (snd dump_run), snd (snd dump_run))"
    by (simp add: dump_run_def)
  have "fst (snd dump_run) = None" by code_simp
  moreover have "fresh idle_wire" "wPosted idle_wire = []" "wUploads idle_wire = []" "wNext idle_wire = 0"
    by (simp_all add: fresh_def idle_wire_def)
  ultimately show ?thesis using dump_upload_posted_once [OF _ run] by (simp add: uploadMaxAttempts_def)
qed

subsection \<open>A single upload may be posted again\<close>

lemma send_fine: "nReply net (wStep w) = Fine \<Longrightarrow> wPosted w = P \<Longrightarrow> rnd \<notin> fst ` set P \<Longrightarrow>
  send_twice net rnd f w = (Fine, post [(rnd, f)] (tick w))"
  by (simp add: send_twice_def send_media_def rpc_def flooded_def)

text \<open>
  C36: A track, document or video sent by itself is sent anew, under a new RandomID, when the answer
  to the first send is lost to a reconnect: Telegram cannot tell it from another message, and the
  chat ends with the file twice, while the call reports success.
\<close>

theorem single_upload_posts_twice:
  assumes "wPeers w chatID = Some p" "nGate net (wStep w)" "\<forall>k. nReady net k \<and> \<not> nCancelled net k" "fresh w"
    and "nReply net (wStep w) = Fine" "nReply net (wStep w + 1) = Lost (ErrText t)" "isTransientConnErr (Some (ErrText t))"
    and "nReply net (wStep w + 2) = Fine" "nReply net (wStep w + 3) = Fine"
    and "UploadAndSendAudio net chatID file False w = (er, w')"
  shows "er = None \<and> wPosted w' = wPosted w @ [(wNext w, file), (wNext w + 1, file)]"
proof -
  have old: "\<forall>m \<in> set (wPosted w). fst m < wNext w" by (rule fresh_old [OF assms(4)])
  define n where "n = wStep w"
  obtain w1 where a1: "uploadAndSendAudioOnce net chatID file False w = (Some (ErrText t), w1)"
    and w1: "wPosted w1 = wPosted w @ [(wNext w, file)]" "wNext w1 = wNext w + 1" "wStep w1 = n + 2" "wPeers w1 = wPeers w"
  proof
    let ?w1 = "post [(wNext w, file)] (tick ((tick (w\<lparr>wUploads := wUploads w @ [file]\<rparr>))\<lparr>wNext := wNext w + 1\<rparr>))"
    show "uploadAndSendAudioOnce net chatID file False w = (Some (ErrText t), ?w1)"
      using assms(1,5,6) by (simp add: uploadAndSendAudioOnce_def from_path_def rpc_def thumbnail_def resolveInputPeer_def cryptoRandID_def
          send_twice_def send_media_def flooded_def tick_def)
    show "wPosted ?w1 = wPosted w @ [(wNext w, file)]" using old by (subst post_new) (auto simp: tick_def)
    show "wNext ?w1 = wNext w + 1" "wStep ?w1 = n + 2" "wPeers ?w1 = wPeers w" by (simp_all add: post_def tick_def n_def)
  qed
  obtain w2 where a2: "uploadAndSendAudioOnce net chatID file False w1 = (None, w2)"
    and w2: "wPosted w2 = wPosted w @ [(wNext w, file), (wNext w + 1, file)]"
  proof
    let ?w2 = "post [(wNext w1, file)] (tick ((tick (w1\<lparr>wUploads := wUploads w1 @ [file]\<rparr>))\<lparr>wNext := wNext w1 + 1\<rparr>))"
    show "uploadAndSendAudioOnce net chatID file False w1 = (None, ?w2)"
      using assms(1,8,9) w1 by (simp add: uploadAndSendAudioOnce_def from_path_def rpc_def thumbnail_def resolveInputPeer_def cryptoRandID_def
          send_twice_def send_media_def flooded_def tick_def n_def numeral_2_eq_2 numeral_3_eq_3)
    show "wPosted ?w2 = wPosted w @ [(wNext w, file), (wNext w + 1, file)]" using old w1 by (subst post_new) (auto simp: tick_def)
  qed
  have "UploadAndSendAudio net chatID file False w = (None, w2)"
    using assms(2,3,7) a1 a2 by (simp add: UploadAndSendAudio_def withUploadRetryN_def uploadMaxAttempts_def numeral_3_eq_3)
  with assms(10) w2 show ?thesis by simp
qed

theorem single_upload_posts_twice_witness:
  "wPosted (snd (UploadAndSendAudio (torn_net 1) 7 ''a'' False (idle_wire\<lparr>wPeers := [7 \<mapsto> PeerUser 7]\<rparr>))) = [(0, ''a''), (1, ''a'')]"
proof -
  obtain er w' where "UploadAndSendAudio (torn_net 1) 7 ''a'' False (idle_wire\<lparr>wPeers := [7 \<mapsto> PeerUser 7]\<rparr>) = (er, w')" by fastforce
  moreover have "isTransientConnErr (Some (ErrText ''engine was closed''))" by code_simp
  ultimately show ?thesis
    using single_upload_posts_twice [of "idle_wire\<lparr>wPeers := [7 \<mapsto> PeerUser 7]\<rparr>" 7 "PeerUser 7" "torn_net 1" "''engine was closed''" "''a''" er w']
    by (simp add: torn_net_def idle_wire_def fresh_def)
qed

subsection \<open>The connection and its supervisor\<close>

text \<open>The cap of a call's flood waits is passed by its last wait only; without an answer it is not reached.\<close>

lemma flood_handle_cap:
  "slept < maxFloodWaitTotal \<Longrightarrow> flood_handle slept calls = Some (er, total') \<Longrightarrow>
   total' < maxFloodWaitTotal \<or> (\<exists>call \<in> set calls. total' < maxFloodWaitTotal + snd (snd call) \<and> er = fst call)"
  by (induction slept calls rule: flood_handle.induct) (auto split: option.splits conn_err.splits if_splits)

lemma flood_handle_none:
  "slept < maxFloodWaitTotal \<Longrightarrow> flood_handle slept calls = None \<Longrightarrow> slept + (\<Sum>call \<leftarrow> calls. snd (snd call)) < maxFloodWaitTotal"
  by (induction slept calls rule: flood_handle.induct) (auto split: option.splits conn_err.splits if_splits)

inductive sup_reach :: "conn \<Rightarrow> bool" where
  sup_start: "sup_reach start_conn"
| sup_next: "sup_reach c \<Longrightarrow> sup_step c c' \<Longrightarrow> sup_reach c'"

definition conn_ok :: "conn \<Rightarrow> bool" where
  "conn_ok c =
     (IsReady c = (cnPhase c = Online) \<and> cnApi c = IsReady c \<and> cnRunCtx c = IsReady c \<and>
      cnBackoff c \<in> {1, 2, 4, 8, 16, 32, 60} \<and> (\<forall>d. cnPhase c = Backoff d \<longrightarrow> d = cnBackoff c \<and> cnFirstResult c = [None]) \<and>
      cnFirst c = (cnFirstResult c = [] \<and> cnPhase c \<noteq> Online) \<and> length (cnFirstResult c) \<le> 1 \<and>
      (cnPhase c = Online \<longrightarrow> cnFirstResult c = [None] \<and> cnBackoff c = baseBackoff) \<and>
      (cnFirst c \<longrightarrow> cnBackoff c = baseBackoff \<and> cnPhase c \<in> {Connecting, Over}) \<and>
      (cnPhase c = Connecting \<longrightarrow> set (cnFirstResult c) \<subseteq> {None}))"

lemma conn_ok_start: "conn_ok start_conn"
  by (simp add: conn_ok_def start_conn_def IsReady_def baseBackoff_def)

lemma conn_ok_step:
  assumes "sup_step c c'" "conn_ok c"
  shows "conn_ok c'"
  using assms(1)
proof (cases rule: sup_step.cases)
  case authenticate
  with assms(2) show ?thesis by (cases "cnFirstResult c") (auto simp: conn_ok_def authenticated_def IsReady_def baseBackoff_def)
next
  case (fail_cycle closed x)
  with assms(2) show ?thesis
    by (cases "cnFirstResult c") (auto simp: conn_ok_def cycle_ended_def IsReady_def Let_def baseBackoff_def)
next
  case (wake d)
  with assms(2) show ?thesis by (auto simp: conn_ok_def wait_over_def IsReady_def baseBackoff_def maxBackoff_def)
next
  case (close_waiting d)
  with assms(2) show ?thesis by (auto simp: conn_ok_def IsReady_def)
qed

lemma sup_reach_ok: "sup_reach c \<Longrightarrow> conn_ok c"
  by (induction rule: sup_reach.induct) (auto intro: conn_ok_start conn_ok_step)

text \<open>
  C37: In every state the supervisor reaches, the client, its context and the ready flag are there
  together and exactly while the connection is up; the constructor is answered at most once; the
  wait before a reconnect is 1, 2, 4, 8, 16, 32 or 60 seconds; and unless the client was closed or
  its first start failed, it can come up again in at most two steps.
\<close>

theorem connection_well_formed:
  assumes "sup_reach c"
  shows "conn_snapshot c = (IsReady c, IsReady c, IsReady c) \<and> IsReady c = (cnPhase c = Online) \<and>
    length (cnFirstResult c) \<le> 1 \<and> cnBackoff c \<in> {1, 2, 4, 8, 16, 32, 60} \<and>
    (cnPhase c = Over \<or> IsReady c \<or> sup_step c (authenticated c) \<or>
     sup_step c (wait_over c) \<and> sup_step (wait_over c) (authenticated (wait_over c)))"
proof -
  have ok: "conn_ok c" by (rule sup_reach_ok [OF assms])
  have up: "cnPhase (wait_over c) = Connecting" by (simp add: wait_over_def)
  have "cnPhase c = Over \<or> IsReady c \<or> sup_step c (authenticated c) \<or>
     sup_step c (wait_over c) \<and> sup_step (wait_over c) (authenticated (wait_over c))"
    using ok up by (cases "cnPhase c") (auto simp: conn_ok_def intro: sup_step.intros)
  with ok show ?thesis by (auto simp: conn_ok_def conn_snapshot_def IsReady_def)
qed

text \<open>A start, a lost cycle and the wait after it.\<close>

theorem connection_well_formed_witness:
  "conn_snapshot (wait_over (cycle_ended False CanceledErr (authenticated start_conn))) = (False, False, False) \<and>
   cnBackoff (wait_over (cycle_ended False CanceledErr (authenticated start_conn))) = 2"
proof -
  have "cnPhase (cycle_ended False CanceledErr (authenticated start_conn)) = Backoff 1"
    by (simp add: cycle_ended_def authenticated_def baseBackoff_def)
  moreover have "sup_step start_conn (authenticated start_conn)" by (rule sup_step.authenticate) (simp add: start_conn_def)
  moreover have "sup_step (authenticated start_conn) (cycle_ended False CanceledErr (authenticated start_conn))"
    by (rule sup_step.fail_cycle) (simp add: authenticated_def)
  ultimately have "sup_reach (wait_over (cycle_ended False CanceledErr (authenticated start_conn)))"
    by (meson sup_step.wake sup_reach.intros)
  from connection_well_formed [OF this] show ?thesis
    by (simp add: conn_snapshot_def IsReady_def wait_over_def cycle_ended_def authenticated_def baseBackoff_def maxBackoff_def)
qed

subsection \<open>Copies out of a dump are made once\<close>

definition copies_inv :: "(nat \<times> string) list \<Rightarrow> (nat \<times> string) list \<Rightarrow> nat \<Rightarrow> wire \<Rightarrow> bool" where
  "copies_inv P ms k w = ((wPosted w = P \<or> wPosted w = P @ ms) \<and> fst ` set ms \<inter> fst ` set P = {})"

interpretation copy_attempts: retried "copies_inv P ms" "forward_once net ms" "\<lambda>w. wPosted w = P @ ms" for P ms net
proof
  show "forward_once net ms s = (Some x, s1) \<Longrightarrow> copies_inv P ms (Suc k) s \<Longrightarrow> copies_inv P ms k s1" for s x s1 k
    using post_new [of ms "tick s"] post_twice [of "tick s" P ms]
    by (auto simp: forward_once_def rpc_def copies_inv_def split: if_splits)
  show "forward_once net ms s = (None, s1) \<Longrightarrow> copies_inv P ms (Suc k) s \<Longrightarrow> wPosted s1 = P @ ms" for s s1 k
    using post_new [of ms "tick s"] post_twice [of "tick s" P ms]
    by (cases "nReply net (wStep s)") (auto simp: forward_once_def rpc_def copies_inv_def)
  show "copies_inv P ms (Suc k) s \<Longrightarrow> copies_inv P ms k s" for k s by (simp add: copies_inv_def)
qed

lemma draw_ids_fresh:
  "draw_ids n w = (rnds, w') \<Longrightarrow> length rnds = n \<and> (\<forall>r \<in> set rnds. wNext w \<le> r) \<and> wPosted w' = wPosted w"
  by (induction n arbitrary: w rnds w') (fastforce simp: cryptoRandID_def split: prod.splits)+

text \<open>
  Copying dump messages to a user posts them all, in the order asked for, or none of them, and
  never twice, however often the connection breaks; success means they are there.
\<close>

theorem copies_made_once:
  assumes "fresh w" "DeliverManyFromDump net stored dumpChatID msgIDs recipientID w = (er, w')"
  shows "wPosted w' = wPosted w \<and> (er \<noteq> None \<or> msgIDs = []) \<or>
    (\<exists>rnds. length rnds = length msgIDs \<and> wPosted w' = wPosted w @ zip rnds (map stored msgIDs))"
proof (cases "msgIDs = []")
  case False
  obtain q1 w1 where p1: "resolveInputPeer net dumpChatID w = (q1, w1)" by fastforce
  obtain q2 w2 where p2: "resolveInputPeer net recipientID w1 = (q2, w2)" by fastforce
  obtain rnds w3 where d: "draw_ids (length msgIDs) w2 = (rnds, w3)" by fastforce
  note frame = resolve_frame [OF p1] resolve_frame [OF p2] draw_ids_fresh [OF d]
  show ?thesis
  proof (cases "isl q1 \<or> isl q2")
    case True
    then show ?thesis using assms(2) False p1 p2 d frame by (auto simp: DeliverManyFromDump_def isl_def split: sum.splits)
  next
    case both: False
    let ?ms = "zip rnds (map stored msgIDs)"
    have loop: "upload_loop net (\<lambda>w. w) (\<lambda>er. Some (ErrText ''exceeded attempts'')) uploadMaxAttempts (forward_once net ?ms) None w3 = (er, w')"
      using assms(2) False p1 p2 d both by (auto simp: DeliverManyFromDump_def withRPCRetry_def isl_def split: sum.splits)
    have inv: "copies_inv (wPosted w) ?ms uploadMaxAttempts w3"
      using frame fresh_old [OF assms(1)] by (fastforce simp: copies_inv_def dest!: set_zip_leftD)
    from copy_attempts.loop_result [OF _ loop inv]
    have "(er = None \<and> wPosted w' = wPosted w @ ?ms) \<or> (er = None \<and> uploadMaxAttempts = 0) \<or> (er \<noteq> None \<and> copies_inv (wPosted w) ?ms 0 w')"
      by auto
    then show ?thesis using frame by (auto simp: copies_inv_def uploadMaxAttempts_def)
  qed
qed (use assms(2) in \<open>simp add: DeliverManyFromDump_def\<close>)

definition copy_run :: "conn_err option \<times> wire" where
  "copy_run = DeliverManyFromDump (torn_net 0) (\<lambda>i. ''x'') 7 [3, 4] 8 idle_wire"

theorem copies_made_once_witness:
  "fst copy_run = None \<and> length (wPosted (snd copy_run)) = 2"
proof -
  have run: "DeliverManyFromDump (torn_net 0) (\<lambda>i. ''x'') 7 [3, 4] 8 idle_wire = (fst copy_run, snd copy_run)" by (simp add: copy_run_def)
  have "fst copy_run = None" by code_simp
  moreover have "fresh idle_wire" "wPosted idle_wire = []" by (simp_all add: fresh_def idle_wire_def)
  ultimately show ?thesis using copies_made_once [OF _ run] by auto
qed

end
