(* ===== verification/Status_Board.thy ===== *)
theory Status_Board
  imports Delivery Go_Float "HOL-Library.Product_Lexorder" "HOL-Library.List_Lexorder" "HOL-Library.Char_ord"
begin

section \<open>What the status board of a task shows\<close>

text \<open>
  \<^verbatim>\<open>bot/telegram_bot.go\<close>: \<^verbatim>\<open>DownloadStatus\<close>, the reports the rip and the uploads make to it, the
  snapshot the two renderers read, and the texts they are made of.  Times are nanoseconds, byte
  counts integers below \<open>2 ^ 63\<close>.  The speeds, which are floating-point quotients, are not modelled;
  the samples they are computed from are.
\<close>

subsection \<open>The state\<close>

record psample =
  smAt :: int
  smDone :: int

text \<open>\<^verbatim>\<open>trackProgressState\<close>, without the two times no renderer reads.\<close>

record track_state =
  tkId :: string
  tkTitle :: string
  tkNumber :: int
  tkTotal :: int
  tkPhase :: string
  tkDone :: int
  tkSize :: int
  tkMax :: int
  tkWorker :: string
  tkSamples :: "psample list"

text \<open>\<^verbatim>\<open>tracks\<close> is a list with one entry per key, in no order that matters.\<close>

record dl_status =
  dsPhase :: string
  dsDone :: int
  dsTotal :: int
  dsPhaseStart :: "int option"
  dsSamples :: "psample list"
  dsTracks :: "track_state list"
  dsFinished :: int
  dsSizes :: "int list"
  dsTrackTotal :: int
  dsWorkers :: int
  dsTitle :: string
  dsSingle :: bool
  dsUploadDone :: int
  dsUploadPrev :: int
  dsUploading :: bool

definition speedWindow :: int where "speedWindow = 6 * 1000000000"

definition isUploadPhase :: "string \<Rightarrow> bool" where
  "isUploadPhase phase = has_prefix (trim_space phase) ''Uploading''"

definition newDownloadStatus :: "int \<Rightarrow> int option \<Rightarrow> bool \<Rightarrow> dl_status" where
  "newDownloadStatus workers startedAt single =
     \<lparr>dsPhase = [], dsDone = 0, dsTotal = 0, dsPhaseStart = startedAt, dsSamples = [], dsTracks = [], dsFinished = 0, dsSizes = [],
      dsTrackTotal = 0, dsWorkers = (if workers < 1 then 1 else workers), dsTitle = [], dsSingle = single,
      dsUploadDone = 0, dsUploadPrev = 0, dsUploading = False\<rparr>"

subsection \<open>Reports\<close>

definition pruneSpeedSamples :: "psample list \<Rightarrow> int \<Rightarrow> psample list" where
  "pruneSpeedSamples samples now = filter (\<lambda>smp. \<not> smAt smp < now - speedWindow) samples"

definition sample :: "bool \<Rightarrow> int \<Rightarrow> int \<Rightarrow> psample list \<Rightarrow> psample list" where
  "sample reset now d samples = pruneSpeedSamples ((if reset then [] else samples) @ [\<lparr>smAt = now, smDone = d\<rparr>]) now"

definition upload_phase :: "int \<Rightarrow> int \<Rightarrow> dl_status \<Rightarrow> dl_status" where
  "upload_phase now d s =
     (let s1 = (if dsUploading s then s else s\<lparr>dsUploadDone := 0, dsUploadPrev := 0, dsSamples := []\<rparr>);
          delta = d - dsUploadPrev s1;
          delta1 = (if delta < 0 then d else delta);
          s2 = (if 0 < delta1 then s1\<lparr>dsUploadDone := dsUploadDone s1 + delta1\<rparr> else s1)
      in s2\<lparr>dsUploadPrev := d, dsSamples := sample False now (dsUploadDone s2) (dsSamples s2)\<rparr>)"

definition setLatestLocked :: "int \<Rightarrow> string \<Rightarrow> int \<Rightarrow> int \<Rightarrow> dl_status \<Rightarrow> dl_status" where
  "setLatestLocked now phase d tot s =
     (let normalizedPhase = (if trim_space phase = [] then ''Working'' else trim_space phase);
          phaseChanged = (normalizedPhase \<noteq> dsPhase s);
          s1 = (if phaseChanged \<or> dsPhaseStart s = None then s\<lparr>dsPhaseStart := Some now\<rparr> else s);
          uploading = isUploadPhase normalizedPhase;
          s2 = (if uploading then upload_phase now d s1
                else s1\<lparr>dsSamples := sample (phaseChanged \<or> d < dsDone s1) now d (dsSamples s1)\<rparr>)
      in s2\<lparr>dsUploading := uploading, dsPhase := normalizedPhase, dsDone := d, dsTotal := tot\<rparr>)"

definition SetReleaseTitle :: "string \<Rightarrow> dl_status \<Rightarrow> dl_status" where
  "SetReleaseTitle title s =
     (let t = trim_space title in if t = [] then s else if dsTitle s = [] then s\<lparr>dsTitle := t\<rparr> else s)"

fun find_track :: "string \<Rightarrow> track_state list \<Rightarrow> track_state option" where
  "find_track i [] = None"
| "find_track i (t # ts) = (if tkId t = i then Some t else find_track i ts)"

fun put_track :: "track_state \<Rightarrow> track_state list \<Rightarrow> track_state list" where
  "put_track t [] = [t]"
| "put_track t (u # us) = (if tkId u = tkId t then t # us else u # put_track t us)"

definition drop_track :: "string \<Rightarrow> track_state list \<Rightarrow> track_state list" where
  "drop_track i ts = filter (\<lambda>t. tkId t \<noteq> i) ts"

definition finished_size :: "track_state \<Rightarrow> int" where
  "finished_size prev =
     (let size0 = tkMax prev; size1 = (if size0 \<le> 0 then tkSize prev else size0) in if size1 \<le> 0 then tkDone prev else size1)"

definition track_report :: "int \<Rightarrow> string \<Rightarrow> string \<Rightarrow> int \<Rightarrow> int \<Rightarrow> track_state \<Rightarrow> track_state" where
  "track_report now workerID phase d tot st =
     (let max1 = (if tkMax st < tot then tot else tkMax st)
      in st\<lparr>tkPhase := phase, tkDone := d, tkSize := tot, tkMax := (if max1 < d then d else max1),
            tkWorker := (if workerID \<noteq> [] then workerID else tkWorker st),
            tkSamples := sample (phase \<noteq> tkPhase st \<or> d < tkDone st) now d (tkSamples st)\<rparr>)"

definition new_track :: "string \<Rightarrow> string \<Rightarrow> int \<Rightarrow> int \<Rightarrow> track_state" where
  "new_track i title number trackTotal =
     \<lparr>tkId = i, tkTitle = title, tkNumber = number, tkTotal = trackTotal, tkPhase = [], tkDone = 0, tkSize = 0, tkMax = 0,
      tkWorker = [], tkSamples = []\<rparr>"

definition end_track :: "string \<Rightarrow> dl_status \<Rightarrow> dl_status" where
  "end_track i s =
     (case find_track i (dsTracks s) of
        None \<Rightarrow> s
      | Some prev \<Rightarrow>
          s\<lparr>dsSizes := (if 0 < finished_size prev then dsSizes s @ [finished_size prev] else dsSizes s),
            dsTracks := drop_track i (dsTracks s), dsFinished := dsFinished s + 1\<rparr>)"

definition track_heading :: "int \<Rightarrow> string \<Rightarrow> dl_status \<Rightarrow> dl_status" where
  "track_heading trackTotal releaseTitle s =
     (let s1 = (if dsTrackTotal s < trackTotal then s\<lparr>dsTrackTotal := trackTotal\<rparr> else s)
      in if releaseTitle \<noteq> [] \<and> dsTitle s1 = [] then s1\<lparr>dsTitle := releaseTitle\<rparr> else s1)"

definition UpdateTrack :: "int \<Rightarrow> string \<Rightarrow> string \<Rightarrow> string \<Rightarrow> string \<Rightarrow> int \<Rightarrow> int \<Rightarrow> string \<Rightarrow> int \<Rightarrow> int \<Rightarrow> dl_status \<Rightarrow> dl_status" where
  "UpdateTrack now i title releaseTitle workerID number trackTotal phase d tot s =
     (let s1 = track_heading trackTotal releaseTitle s
      in if phase = ''Finished'' then end_track i s1
         else let st = (case find_track i (dsTracks s1) of Some st \<Rightarrow> st | None \<Rightarrow> new_track i title number trackTotal)
              in s1\<lparr>dsTracks := put_track (track_report now workerID phase d tot st) (dsTracks s1)\<rparr>)"

subsection \<open>The snapshot and the bar\<close>

record snap =
  snActive :: "track_state list"
  snFinished :: int
  snTotal :: int
  snAggDone :: int
  snAggTotal :: int
  snHasActive :: bool
  snUploading :: bool
  snUploadDone :: int

definition clamped_done :: "track_state \<Rightarrow> int" where
  "clamped_done st =
     (let d = (if 0 < tkSize st \<and> tkSize st < tkDone st then tkSize st else tkDone st) in if d < 0 then 0 else d)"

definition snapshot :: "dl_status \<Rightarrow> snap" where
  "snapshot s =
     (let n = dsFinished s + int (length (dsTracks s))
      in \<lparr>snActive = sort_key (\<lambda>t. (tkNumber t, tkId t)) (dsTracks s), snFinished = dsFinished s,
          snTotal = (if dsTrackTotal s < n then n else dsTrackTotal s),
          snAggDone = sum_list (map clamped_done (dsTracks s)) + sum_list (dsSizes s),
          snAggTotal = sum_list (map tkSize (dsTracks s)) + sum_list (dsSizes s),
          snHasActive = (dsTracks s \<noteq> []), snUploading = dsUploading s, snUploadDone = dsUploadDone s\<rparr>)"

definition uploadAwareBar :: "snap \<Rightarrow> int \<Rightarrow> int \<Rightarrow> int \<times> int \<times> bool" where
  "uploadAwareBar sn d tot =
     (if snUploading sn \<and> 0 < snAggTotal sn then
        (let d1 = (if snAggTotal sn < snUploadDone sn then snAggTotal sn else snUploadDone sn);
             d2 = (if d1 < 0 then 0 else d1)
         in (d2, snAggTotal sn, True))
      else if snHasActive sn \<or> 0 < snFinished sn then (snAggDone sn, snAggTotal sn, True)
      else (d, tot, 0 < tot))"

definition bar_percent :: "int \<times> int \<times> bool \<Rightarrow> int" where
  "bar_percent bar =
     (case bar of (barDone, barTotal, hasBar) \<Rightarrow>
        if hasBar \<and> 0 < barTotal then
          (let p0 = go_div (barDone * 100) barTotal; p1 = (if p0 < 0 then 0 else p0) in if 100 < p1 then 100 else p1)
        else -1)"

definition symBarFull :: string where "symBarFull = [CHR 0xE2, CHR 0x96, CHR 0xB0]"
definition symBarEmpty :: string where "symBarEmpty = [CHR 0xE2, CHR 0x96, CHR 0xB1]"

definition renderBar :: "int \<Rightarrow> int \<Rightarrow> string" where
  "renderBar pct width =
     (let p0 = (if pct < 0 then 0 else pct); p = (if 100 < p0 then 100 else p0);
          w = (if width < 1 then 1 else width);
          filled = go_div (p * w) 100
      in concat (map (\<lambda>i. if int i < filled then symBarFull else symBarEmpty) [0..<nat w]))"

text \<open>How many tracks the summary calls queued, and how many rows of tracks it lists.\<close>

definition statusTrackListCap :: nat where "statusTrackListCap = 30"

definition tracks_left :: "snap \<Rightarrow> int" where
  "tracks_left sn = snTotal sn - snFinished sn - int (length (snActive sn))"

definition rows_shown :: "snap \<Rightarrow> track_state list" where
  "rows_shown sn = take statusTrackListCap (snActive sn)"

subsection \<open>Texts\<close>

text \<open>\<^verbatim>\<open>strings.NewReplacer\<close> with one-byte keys replaces byte by byte.\<close>

definition rich_escape :: "char \<Rightarrow> string" where
  "rich_escape c =
     (if c \<in> set (CHR 0x5C # ''`*_~|[]#>='') then [CHR 0x5C, c] else if c = CHR ''<'' then ''&lt;'' else [c])"

definition escapeRichMD :: "string \<Rightarrow> string" where
  "escapeRichMD s = concat (map rich_escape (map (\<lambda>c. if c = CHR 0x0A then CHR '' '' else c) s))"

definition formatDuration :: "int \<Rightarrow> string" where
  "formatDuration d =
     (let t = go_div d 1000000000; h = go_div t 3600; t1 = t - h * 3600; m = go_div t1 60; s = t1 - m * 60
      in if 0 < h then itoa h @ ''h '' @ itoa m @ ''m '' @ itoa s @ ''s''
         else if 0 < m then itoa m @ ''m '' @ itoa s @ ''s''
         else itoa s @ ''s'')"

definition workerPrefix :: "string \<Rightarrow> string" where
  "workerPrefix i =
     (if i = [] then ''     '' else if 5 \<le> length i then i @ '' '' else i @ replicate (5 - length i) CHR '' '')"

text \<open>
  \<^verbatim>\<open>formatBytes\<close>: dividing a float64 by 1024 is exact, and printing rounds its exact value, ties to
  even; a value from \<open>2 ^ 53\<close> up would be rounded before that.
\<close>

fun byte_unit :: "nat \<Rightarrow> nat \<Rightarrow> nat" where
  "byte_unit v 0 = 0"
| "byte_unit v (Suc left) = (if 1024 \<le> v then Suc (byte_unit (v div 1024) left) else 0)"

definition byte_units :: "string list" where
  "byte_units = [''B'', ''KB'', ''MB'', ''GB'', ''TB'']"

definition pad_digits :: "nat \<Rightarrow> string \<Rightarrow> string" where
  "pad_digits n ds = replicate (n - length ds) CHR ''0'' @ ds"

definition byte_digits :: "nat \<Rightarrow> nat \<Rightarrow> nat" where
  "byte_digits v u = round_half_even (v * 10 ^ (if 2 \<le> u then 2 else 1)) (1024 ^ u)"

definition formatBytes :: "int \<Rightarrow> string" where
  "formatBytes value =
     (if value < 1024 then itoa value @ ''B''
      else let u = byte_unit (nat value) 4; p = (if 2 \<le> u then 2 else 1); r = byte_digits (nat value) u
           in nat_digits (r div 10 ^ p) @ ''.'' @ pad_digits p (nat_digits (r mod 10 ^ p)) @ byte_units ! u)"

definition videoQualityLabel :: "int \<Rightarrow> string" where
  "videoQualityLabel height =
     (if height \<le> 0 then [] else if 2160 \<le> height then ''4K'' else if 1440 \<le> height then ''1440p''
      else if 1080 \<le> height then ''1080p'' else if 720 \<le> height then ''720p'' else if 480 \<le> height then ''480p''
      else if 360 \<le> height then ''360p'' else itoa height @ ''p'')"

definition formatUploadMode :: "string \<Rightarrow> string" where
  "formatUploadMode mode =
     (if mode = transferModeTelegramIndividual then ''Telegram (individual)''
      else if mode = transferModeTelegramZip then ''Telegram (ZIP)''
      else if mode = transferModeGofileZip then ''Gofile''
      else if mode = transferModeMv then ''Music video (Telegram)''
      else if mode = transferModeMvGofile then ''Music video (Gofile)''
      else if mode = transferModeArt then ''Artwork'' else mode)"

definition shortMode :: "string \<Rightarrow> string" where
  "shortMode mode =
     (if mode = transferModeTelegramIndividual then ''TG_Individual''
      else if mode = transferModeTelegramZip then ''TG_Zip''
      else if mode = transferModeGofileZip then ''Gofile''
      else if mode = transferModeMv then ''MV_TG''
      else if mode = transferModeMvGofile then ''MV_Gofile''
      else if mode = transferModeArt then ''Cover'' else mode)"

text \<open>The listing of the waiting tasks below the boards: plain, and for a rich message.\<close>

definition symQueue :: string where "symQueue = [CHR 0xE2, CHR 0x89, CHR 0xA1]"
definition middle_dot :: string where "middle_dot = [CHR '' '', CHR 0xC2, CHR 0xB7, CHR '' '']"

definition queue_user :: "request \<Rightarrow> string" where
  "queue_user r =
     (let user = (if rqName r = [] then ''ID:'' @ itoa (rqUser r) else rqName r)
      in if user \<noteq> [] \<and> hd user \<noteq> CHR ''@'' then CHR ''@'' # user else user)"

definition queue_line :: "nat \<times> request \<Rightarrow> string" where
  "queue_line p =
     (case p of (i, r) \<Rightarrow> CHR 0x0A # ''#'' @ itoa (int i) @ '' '' @ queue_user r @ middle_dot @ shortMode (rqMode r) @ middle_dot @ ''/stop_'' @ rqTask r)"

definition queueBoardSuffix :: "request list \<Rightarrow> string" where
  "queueBoardSuffix reqs =
     (if reqs = [] then []
      else [CHR 0x0A, CHR 0x0A] @ symQueue @ '' Queue'' @ middle_dot @ itoa (int (length reqs)) @ '' waiting'' @
           concat (map queue_line (zip [1..<Suc (length reqs)] reqs)))"

definition rich_line :: "nat \<times> request \<Rightarrow> string" where
  "rich_line p =
     (case p of (i, r) \<Rightarrow> itoa (int i) @ ''. '' @ escapeRichMD (queue_user r) @ middle_dot @ escapeRichMD (shortMode (rqMode r)) @ middle_dot @
                            ''/stop_'' @ rqTask r @ [CHR 0x0A])"

definition queueBoardSuffixRich :: "request list \<Rightarrow> string" where
  "queueBoardSuffixRich reqs =
     (if reqs = [] then []
      else [CHR 0x0A, CHR 0x0A] @ ''### '' @ symQueue @ '' Queue'' @ middle_dot @ itoa (int (length reqs)) @ '' waiting'' @ [CHR 0x0A] @
           concat (map rich_line (zip [1..<Suc (length reqs)] reqs)))"

subsection \<open>Runs of reports\<close>

datatype board_report =
    TrackReport int string string string string int int string int int
  | PhaseReport int string int int
  | TitleReport string

fun report :: "board_report \<Rightarrow> dl_status \<Rightarrow> dl_status" where
  "report (TrackReport now i title rel worker number n phase d tot) s = UpdateTrack now i title rel worker number n phase d tot s"
| "report (PhaseReport now phase d tot) s = setLatestLocked now phase d tot s"
| "report (TitleReport title) s = SetReleaseTitle title s"

definition track_ok :: "track_state \<Rightarrow> bool" where
  "track_ok t = (0 \<le> tkMax t \<and> tkSize t \<le> tkMax t \<and> tkDone t \<le> tkMax t)"

definition status_ok :: "dl_status \<Rightarrow> bool" where
  "status_ok s =
     (distinct (map tkId (dsTracks s)) \<and> (\<forall>t \<in> set (dsTracks s). track_ok t) \<and> (\<forall>z \<in> set (dsSizes s). 0 < z) \<and>
      int (length (dsSizes s)) \<le> dsFinished s)"

lemma find_track_Some: "find_track i ts = Some t \<Longrightarrow> t \<in> set ts \<and> tkId t = i"
  by (induction ts) (auto split: if_splits)

lemma set_put_track: "set (put_track t ts) \<subseteq> insert t (set ts)"
  by (induction ts) auto

lemma keys_put_track: "map tkId (put_track t ts) = (if tkId t \<in> tkId ` set ts then map tkId ts else map tkId ts @ [tkId t])"
  by (induction ts) auto

lemma drop_track_ok:
  "distinct (map tkId ts) \<Longrightarrow> distinct (map tkId (drop_track i ts)) \<and> set (drop_track i ts) \<subseteq> set ts"
  by (auto simp: drop_track_def distinct_map_filter)

lemma sum_drop_track:
  fixes f :: "track_state \<Rightarrow> int"
  assumes "distinct (map tkId ts)" "find_track i ts = Some t"
  shows "sum_list (map f ts) = f t + sum_list (map f (drop_track i ts)) \<and> length ts = Suc (length (drop_track i ts))"
  using assms
proof (induction ts)
  case (Cons u us)
  show ?case
  proof (cases "tkId u = i")
    case True
    then have "\<forall>x \<in> set us. tkId x \<noteq> i" using Cons.prems(1) by (metis distinct.simps(2) image_eqI list.simps(9) list.set_map)
    then have "drop_track i us = us" by (simp add: drop_track_def filter_id_conv)
    then show ?thesis using True Cons.prems(2) by (simp add: drop_track_def)
  next
    case False
    then show ?thesis using Cons by (simp add: drop_track_def)
  qed
qed simp

lemma finished_size_ok: "track_ok t \<Longrightarrow> finished_size t = tkMax t \<or> finished_size t \<le> 0 \<and> tkMax t = 0"
  by (auto simp: finished_size_def track_ok_def Let_def)

lemma report_track_ok: "track_ok st \<Longrightarrow> track_ok (track_report now w ph d tot st)"
  by (auto simp: track_report_def track_ok_def Let_def)

lemma new_track_ok: "track_ok (new_track i title n k)"
  by (simp add: new_track_def track_ok_def)

lemma setLatest_frame:
  "dsTracks (setLatestLocked now ph d tot s) = dsTracks s" "dsSizes (setLatestLocked now ph d tot s) = dsSizes s"
  "dsFinished (setLatestLocked now ph d tot s) = dsFinished s" "dsTrackTotal (setLatestLocked now ph d tot s) = dsTrackTotal s"
  by (simp_all add: setLatestLocked_def upload_phase_def Let_def)

lemma SetReleaseTitle_frame:
  "dsTracks (SetReleaseTitle t s) = dsTracks s" "dsSizes (SetReleaseTitle t s) = dsSizes s" "dsFinished (SetReleaseTitle t s) = dsFinished s"
  by (simp_all add: SetReleaseTitle_def Let_def)

lemma end_track_ok: "status_ok s \<Longrightarrow> status_ok (end_track i s)"
  using drop_track_ok [of "dsTracks s" i]
  by (auto simp: end_track_def status_ok_def split: option.splits)

lemma put_track_ok: "status_ok s \<Longrightarrow> track_ok t \<Longrightarrow> status_ok (s\<lparr>dsTracks := put_track t (dsTracks s)\<rparr>)"
  using set_put_track [of t "dsTracks s"] by (auto simp: status_ok_def keys_put_track)

lemma heading_frame [simp]:
  "dsTracks (track_heading n rel s) = dsTracks s" "dsSizes (track_heading n rel s) = dsSizes s" "dsFinished (track_heading n rel s) = dsFinished s"
  by (simp_all add: track_heading_def Let_def)

lemma heading_ok [simp]: "status_ok (track_heading n rel s) = status_ok s"
  by (simp add: status_ok_def)

lemma UpdateTrack_ok:
  assumes "status_ok s"
  shows "status_ok (UpdateTrack now i title rel w k n ph d tot s)"
proof (cases "ph = ''Finished''")
  case True
  then show ?thesis using end_track_ok [of "track_heading n rel s" i] assms by (simp add: UpdateTrack_def Let_def)
next
  case False
  have "track_ok (case find_track i (dsTracks s) of Some st \<Rightarrow> st | None \<Rightarrow> new_track i title k n)"
    using assms by (auto simp: status_ok_def new_track_ok dest: find_track_Some split: option.splits)
  from put_track_ok [of "track_heading n rel s", OF _ report_track_ok [OF this]] show ?thesis
    using False assms by (simp add: UpdateTrack_def Let_def)
qed

lemma frame_ok:
  "status_ok (setLatestLocked now ph d tot s) = status_ok s" "status_ok (SetReleaseTitle t s) = status_ok s"
  by (simp_all add: status_ok_def setLatest_frame SetReleaseTitle_frame)

lemma report_ok: "status_ok s \<Longrightarrow> status_ok (report r s)"
  by (cases r) (simp_all only: report.simps UpdateTrack_ok frame_ok)

lemma reports_ok: "status_ok (fold report rs (newDownloadStatus n st single))"
proof -
  have start: "status_ok (newDownloadStatus n st single)" by (simp add: status_ok_def newDownloadStatus_def)
  have "status_ok (fold report rs s)" if "status_ok s" for s
    using that
  proof (induction rs arbitrary: s)
    case (Cons r rs)
    from Cons.IH [OF report_ok [OF Cons.prems]] show ?case by (simp only: fold_simps)
  qed simp
  then show ?thesis using start by blast
qed

subsection \<open>The aggregate bar\<close>

lemma clamped_le_max: "track_ok t \<Longrightarrow> 0 \<le> clamped_done t \<and> clamped_done t \<le> tkMax t"
  by (auto simp: track_ok_def clamped_done_def Let_def)

lemma clamped_known: "0 < tkSize t \<Longrightarrow> 0 \<le> clamped_done t \<and> clamped_done t \<le> tkSize t"
  by (auto simp: clamped_done_def Let_def)

text \<open>
  When a track finishes, it moves from the running to the finished tracks, and the totals of
  the bar do not shrink: its share of both becomes the largest byte count it ever reported.
\<close>

theorem finish_keeps_totals:
  assumes "s = fold report rs (newDownloadStatus n st single)" "find_track i (dsTracks s) = Some t"
    and "s' = UpdateTrack now i title rel w k m ''Finished'' d tot s"
  shows "snFinished (snapshot s') = snFinished (snapshot s) + 1 \<and>
    Suc (length (snActive (snapshot s'))) = length (snActive (snapshot s)) \<and>
    snAggTotal (snapshot s') = snAggTotal (snapshot s) - tkSize t + tkMax t \<and>
    snAggDone (snapshot s') = snAggDone (snapshot s) - clamped_done t + tkMax t \<and>
    snAggTotal (snapshot s) \<le> snAggTotal (snapshot s') \<and> snAggDone (snapshot s) \<le> snAggDone (snapshot s')"
proof -
  have ok: "status_ok s" using reports_ok assms(1) by blast
  then have keys: "distinct (map tkId (dsTracks s))" by (simp add: status_ok_def)
  have t: "track_ok t" using ok find_track_Some [OF assms(2)] by (auto simp: status_ok_def)
  define s1 where "s1 = track_heading m rel s"
  have s': "s' = end_track i s1" using assms(3) by (simp add: UpdateTrack_def Let_def s1_def)
  have same: "dsTracks s1 = dsTracks s" "dsSizes s1 = dsSizes s" "dsFinished s1 = dsFinished s" by (simp_all add: s1_def)
  have new: "dsTracks s' = drop_track i (dsTracks s)" "dsFinished s' = dsFinished s + 1"
    "dsSizes s' = (if 0 < finished_size t then dsSizes s @ [finished_size t] else dsSizes s)"
    using assms(2) by (simp_all add: s' end_track_def same)
  have sizes: "sum_list (dsSizes s') = sum_list (dsSizes s) + tkMax t"
    using new(3) finished_size_ok [OF t] t by (auto simp: track_ok_def)
  note split = sum_drop_track [OF keys assms(2)]
  show ?thesis
    using new(1,2) sizes split [of tkSize] split [of clamped_done] clamped_le_max [OF t] t
    by (simp add: snapshot_def Let_def track_ok_def)
qed

definition two_reports :: "board_report list" where
  "two_reports = [TrackReport 0 ''1'' ''a'' ''A'' '''' 1 2 ''Downloading'' 30 0, TrackReport 1 ''1'' ''a'' ''A'' '''' 1 2 ''Decrypting'' 0 1]"

theorem finish_keeps_totals_witness:
  "snAggTotal (snapshot (UpdateTrack 2 ''1'' ''a'' ''A'' '''' 1 2 ''Finished'' 1 1 (fold report two_reports (newDownloadStatus 1 None False)))) = 30"
proof -
  let ?s = "fold report two_reports (newDownloadStatus 1 None False)"
  have t: "find_track ''1'' (dsTracks ?s) = Some (hd (dsTracks ?s))" by code_simp
  have "tkMax (hd (dsTracks ?s)) = 30" "tkSize (hd (dsTracks ?s)) = 1" "snAggTotal (snapshot ?s) = 1" by code_simp+
  then show ?thesis using finish_keeps_totals [OF refl t refl, of 2 "''a''" "''A''" "''''" 1 2 1 1] by simp
qed

lemma sum_list_bounds:
  fixes f g :: "track_state \<Rightarrow> int"
  assumes "\<forall>t \<in> set ts. 0 \<le> f t \<and> f t \<le> g t"
  shows "0 \<le> sum_list (map f ts) \<and> sum_list (map f ts) \<le> sum_list (map g ts)"
  using assms by (induction ts) auto

lemma bar_percent_range: "-1 \<le> bar_percent bar \<and> bar_percent bar \<le> 100"
  by (simp add: bar_percent_def Let_def split: prod.splits)

lemma cells_length: "length (concat (map (\<lambda>i. if P i then symBarFull else symBarEmpty) is)) = 3 * length is"
  by (induction "is") (auto simp: symBarFull_def symBarEmpty_def)

lemma renderBar_length: "1 \<le> width \<Longrightarrow> length (renderBar pct width) = 3 * nat width"
  by (simp add: renderBar_def Let_def cells_length)

text \<open>
  Whatever was reported, the percentage is at most 100, the bar is a row of as many cells as
  asked for, no negative number of tracks is called queued, and once the size of every running
  track is known the bytes done lie between 0 and the total, on the uploading bar as well.
\<close>

theorem bar_within_bounds:
  assumes "sn = snapshot (fold report rs (newDownloadStatus n st single))" "1 \<le> width"
    and "uploadAwareBar sn d tot = (barDone, barTotal, hasBar)"
  shows "bar_percent (barDone, barTotal, hasBar) \<le> 100 \<and> length (renderBar pct width) = 3 * nat width \<and> 0 \<le> tracks_left sn \<and>
    ((\<exists>t \<in> set (snActive sn). tkSize t \<le> 0) \<or> snAggDone sn \<le> snAggTotal sn \<and> 0 \<le> snAggDone sn) \<and>
    (if snUploading sn \<and> 0 < snAggTotal sn then 0 \<le> barDone \<and> barDone \<le> barTotal else True)"
proof -
  let ?s = "fold report rs (newDownloadStatus n st single)"
  have ok: "status_ok ?s" by (rule reports_ok)
  have sizes: "0 \<le> sum_list (dsSizes ?s)" using ok by (intro sum_list_nonneg) (auto simp: status_ok_def intro: less_imp_le)
  have left: "0 \<le> tracks_left sn" by (simp add: assms(1) tracks_left_def snapshot_def Let_def)
  have known: "(\<exists>t \<in> set (snActive sn). tkSize t \<le> 0) \<or> snAggDone sn \<le> snAggTotal sn \<and> 0 \<le> snAggDone sn"
  proof (cases "\<exists>t \<in> set (snActive sn). tkSize t \<le> 0")
    case False
    then have "\<forall>t \<in> set (dsTracks ?s). 0 \<le> clamped_done t \<and> clamped_done t \<le> tkSize t"
      by (auto simp: assms(1) snapshot_def Let_def not_le intro!: clamped_known [THEN conjunct1] clamped_known [THEN conjunct2])
    from sum_list_bounds [OF this] sizes show ?thesis by (simp add: assms(1) snapshot_def Let_def)
  qed blast
  have upload: "if snUploading sn \<and> 0 < snAggTotal sn then 0 \<le> barDone \<and> barDone \<le> barTotal else True"
    using assms(3) by (auto simp: uploadAwareBar_def Let_def split: if_splits)
  show ?thesis using bar_percent_range renderBar_length [OF assms(2)] left known upload by blast
qed

theorem bar_within_bounds_witness:
  "length (renderBar 250 10) = 30 \<and> 0 \<le> tracks_left (snapshot (fold report two_reports (newDownloadStatus 1 None False)))"
  using bar_within_bounds [OF refl, of 10 two_reports 1 None False 0 0, of _ _ _ 250] by (auto simp: prod_eq_iff)

text \<open>
  The clamp that should keep the bytes done below the total is no clamp while a track's size is
  not known: with a finished track and one such track running, more is done than there is.
\<close>

theorem unknown_size_overruns:
  assumes "s = fold report rs (newDownloadStatus n st single)" "dsTracks s = [t]" "tkSize t = 0" "0 < tkDone t"
  shows "snAggTotal (snapshot s) < snAggDone (snapshot s)"
  using assms by (simp add: snapshot_def Let_def clamped_done_def)

theorem unknown_size_overruns_witness:
  "snAggTotal (snapshot (report (hd two_reports) (newDownloadStatus 1 None False))) < snAggDone (snapshot (report (hd two_reports) (newDownloadStatus 1 None False)))"
proof -
  let ?s = "fold report [hd two_reports] (newDownloadStatus 1 None False)"
  have "dsTracks ?s = [hd (dsTracks ?s)]" "tkSize (hd (dsTracks ?s)) = 0" "0 < tkDone (hd (dsTracks ?s))" by code_simp+
  from unknown_size_overruns [OF refl this] show ?thesis by simp
qed

subsection \<open>The uploading bar counts every byte once\<close>

text \<open>The reports on one file: the time, the phase, the file's byte counter, which starts at 0 and grows, and its size.\<close>

type_synonym upload_report = "int \<times> string \<times> int \<times> int"

definition upload_file :: "upload_report list \<Rightarrow> bool" where
  "upload_file us =
     (us \<noteq> [] \<and> fst (snd (snd (hd us))) = 0 \<and> sorted (map (\<lambda>u. fst (snd (snd u))) us) \<and> list_all (\<lambda>u. isUploadPhase (fst (snd u))) us)"

definition counted :: "upload_report list \<Rightarrow> int" where
  "counted us = fst (snd (snd (last us)))"

definition uploads :: "upload_report list \<Rightarrow> dl_status \<Rightarrow> dl_status" where
  "uploads us s = fold (\<lambda>(now, phase, d, tot). setLatestLocked now phase d tot) us s"

lemma uploads_simps [simp]:
  "uploads [] s = s" "uploads (u # us) s = uploads us (setLatestLocked (fst u) (fst (snd u)) (fst (snd (snd u))) (snd (snd (snd u))) s)"
  "uploads (us @ vs) s = uploads vs (uploads us s)"
  by (simp_all add: uploads_def split: prod.splits)

lemma uploading_phase:
  assumes "isUploadPhase ph"
  shows "trim_space ph \<noteq> []" "isUploadPhase (trim_space ph)"
  using assms trimmed_trim_space [of ph] by (auto simp: isUploadPhase_def trim_space_trimmed [symmetric])

lemma upload_step:
  assumes "isUploadPhase ph" "s' = setLatestLocked now ph d tot s" "dsUploading s \<or> d = 0"
  shows "dsUploading s' \<and> dsUploadPrev s' = d \<and>
    dsUploadDone s' = (if dsUploading s then dsUploadDone s + (if d < dsUploadPrev s then (if 0 < d then d else 0) else d - dsUploadPrev s) else 0)"
  using uploading_phase [OF assms(1)] assms(2,3) by (auto simp: setLatestLocked_def upload_phase_def Let_def)

lemma rest_counted:
  assumes "list_all (\<lambda>u. isUploadPhase (fst (snd u))) us" "sorted (map (\<lambda>u. fst (snd (snd u))) us)"
    "dsUploading s" "us = [] \<or> dsUploadPrev s \<le> fst (snd (snd (hd us)))"
  shows "dsUploading (uploads us s) \<and> dsUploadPrev (uploads us s) = (if us = [] then dsUploadPrev s else counted us) \<and>
    dsUploadDone (uploads us s) = dsUploadDone s + (if us = [] then 0 else counted us - dsUploadPrev s)"
  using assms
proof (induction us arbitrary: s)
  case (Cons u us)
  define s1 where "s1 = setLatestLocked (fst u) (fst (snd u)) (fst (snd (snd u))) (snd (snd (snd u))) s"
  have ph: "isUploadPhase (fst (snd u))" using Cons.prems(1) by simp
  have step: "dsUploading s1 \<and> dsUploadPrev s1 = fst (snd (snd u)) \<and> dsUploadDone s1 = dsUploadDone s + (fst (snd (snd u)) - dsUploadPrev s)"
    using upload_step [OF ph s1_def] Cons.prems(3,4) by auto
  have rest: "us = [] \<or> dsUploadPrev s1 \<le> fst (snd (snd (hd us)))" using step Cons.prems(2) by (cases us) auto
  have "sorted (map (\<lambda>u. fst (snd (snd u))) us)" "list_all (\<lambda>u. isUploadPhase (fst (snd u))) us" using Cons.prems(1,2) by simp_all
  from Cons.IH [OF this(2,1) _ rest] step show ?case by (auto simp: s1_def counted_def)
qed simp

lemma file_counted:
  assumes "upload_file us" "s' = uploads us s" "dsUploading s \<longrightarrow> 0 \<le> dsUploadPrev s"
  shows "dsUploading s' \<and> 0 \<le> dsUploadPrev s' \<and> dsUploadDone s' = (if dsUploading s then dsUploadDone s else 0) + counted us"
proof -
  obtain u vs where us: "us = u # vs" and zero: "fst (snd (snd u)) = 0" and ph: "isUploadPhase (fst (snd u))"
    and rest: "sorted (map (\<lambda>u. fst (snd (snd u))) vs)" "list_all (\<lambda>u. isUploadPhase (fst (snd u))) vs"
    using assms(1) by (cases us) (auto simp: upload_file_def)
  have above: "vs = [] \<or> 0 \<le> fst (snd (snd (hd vs)))" using assms(1) zero by (cases vs) (auto simp: upload_file_def us)
  define s1 where "s1 = setLatestLocked (fst u) (fst (snd u)) (fst (snd (snd u))) (snd (snd (snd u))) s"
  have one: "dsUploading s1 \<and> dsUploadPrev s1 = 0 \<and> dsUploadDone s1 = (if dsUploading s then dsUploadDone s else 0)"
    using upload_step [OF ph s1_def] zero assms(3) by auto
  have "0 \<le> counted (u # vs)" using assms(1) zero by (cases vs) (auto simp: upload_file_def us counted_def)
  moreover have "vs = [] \<or> dsUploadPrev s1 \<le> fst (snd (snd (hd vs)))" using one above by simp
  ultimately show ?thesis using rest_counted [OF rest(2,1), of s1] one assms(2) zero by (auto simp: us s1_def counted_def)
qed

lemma upload_grows:
  assumes "list_all (\<lambda>u. isUploadPhase (fst (snd u))) us" "dsUploading s"
  shows "dsUploadDone s \<le> dsUploadDone (uploads us s)"
  using assms
proof (induction us arbitrary: s)
  case (Cons u us)
  define s1 where "s1 = setLatestLocked (fst u) (fst (snd u)) (fst (snd (snd u))) (snd (snd (snd u))) s"
  have "isUploadPhase (fst (snd u))" using Cons.prems(1) by simp
  from upload_step [OF this s1_def] Cons.prems(2) have "dsUploading s1" "dsUploadDone s \<le> dsUploadDone s1" by auto
  with Cons.IH [of s1] Cons.prems(1) show ?case by (simp add: s1_def)
qed simp

text \<open>
  Over an upload of many files, each of which reports its own counter from 0, the running total
  never goes back, and at the end it is the sum of the files' counters: no byte is counted twice
  and none is lost when the counter rewinds for the next file.
\<close>

theorem upload_total_exact:
  assumes "list_all upload_file files" "files \<noteq> []" "\<not> dsUploading s" "concat files = us @ vs" "us \<noteq> []"
  shows "dsUploadDone (uploads (concat files) s) = sum_list (map counted files) \<and> dsUploadDone (uploads us s) \<le> sum_list (map counted files)"
proof -
  have later: "dsUploading (uploads (concat fs) s1) \<and> dsUploadDone (uploads (concat fs) s1) = dsUploadDone s1 + sum_list (map counted fs)"
    if "list_all upload_file fs" "dsUploading s1" "0 \<le> dsUploadPrev s1" for fs s1
    using that
  proof (induction fs arbitrary: s1)
    case (Cons f fs)
    have "dsUploading (uploads f s1) \<and> 0 \<le> dsUploadPrev (uploads f s1) \<and> dsUploadDone (uploads f s1) = dsUploadDone s1 + counted f"
      using file_counted [OF _ refl, of f s1] Cons.prems by simp
    with Cons.IH [of "uploads f s1"] Cons.prems show ?case by simp
  qed simp
  obtain f fs where fs: "files = f # fs" using assms(2) by (cases files) auto
  have all: "dsUploadDone (uploads (concat files) s) = sum_list (map counted files)"
    using file_counted [OF _ refl, of f s] later [of fs "uploads f s"] assms(1,3) by (simp add: fs)
  have phases: "list_all (\<lambda>u. isUploadPhase (fst (snd u))) (us @ vs)"
    using assms(1) unfolding assms(4) [symmetric] by (auto simp: list_all_iff upload_file_def)
  obtain u us' where us: "us = u # us'" using assms(5) by (cases us) auto
  have "hd f = u" "f \<noteq> []" using assms(1,4) by (auto simp: fs us upload_file_def hd_append neq_Nil_conv)
  then have zero: "fst (snd (snd u)) = 0" using assms(1) by (simp add: fs upload_file_def)
  define s1 where "s1 = setLatestLocked (fst u) (fst (snd u)) (fst (snd (snd u))) (snd (snd (snd u))) s"
  have "isUploadPhase (fst (snd u))" using phases by (simp add: us)
  from upload_step [OF this s1_def] zero have on: "dsUploading s1" by simp
  have up: "dsUploading (uploads xs s2)" if "list_all (\<lambda>u. isUploadPhase (fst (snd u))) xs" "dsUploading s2" for xs s2
    using that
  proof (induction xs arbitrary: s2)
    case (Cons x xs)
    then show ?case using upload_step [OF _ refl, of "fst (snd x)" s2] by simp
  qed simp
  have on': "dsUploading (uploads us s)" using up [OF _ on, of us'] phases by (simp add: us s1_def)
  have "dsUploadDone (uploads us s) \<le> dsUploadDone (uploads (us @ vs) s)" using upload_grows [OF _ on', of vs] phases by simp
  then show ?thesis using all assms(4) by simp
qed

definition two_files :: "upload_report list list" where
  "two_files = [[(0, ''Uploading 1/2'', 0, 9), (1, ''Uploading 1/2'', 9, 9)], [(2, ''Uploading 2/2'', 0, 30), (3, ''Uploading 2/2'', 12, 30), (4, ''Uploading 2/2'', 30, 30)]]"

theorem upload_total_exact_witness:
  "dsUploadDone (uploads (concat two_files) (newDownloadStatus 1 None False)) = 39 \<and> dsUploadDone (uploads (hd two_files) (newDownloadStatus 1 None False)) \<le> 39"
proof -
  have "list_all upload_file two_files" "two_files \<noteq> []" "\<not> dsUploading (newDownloadStatus 1 None False)" by code_simp+
  moreover have "concat two_files = hd two_files @ concat (tl two_files)" "hd two_files \<noteq> []" by (simp_all add: two_files_def)
  ultimately show ?thesis using upload_total_exact [of two_files "newDownloadStatus 1 None False" "hd two_files" "concat (tl two_files)"]
    by (simp add: two_files_def counted_def)
qed

subsection \<open>Escaped text\<close>

text \<open>
  What Rich Markdown makes of a text: a backslash takes the byte after it literally, \<open>&lt;\<close> is the
  less-than sign, and a bare metacharacter or line end is markup (\<open>None\<close>).
\<close>

fun rich_text :: "string \<Rightarrow> string option" where
  "rich_text [] = Some []"
| "rich_text (c # cs) =
     (if c = CHR 0x5C then (case cs of [] \<Rightarrow> None | d # ds \<Rightarrow> map_option ((#) d) (rich_text ds))
      else if c \<in> set ''`*_~|[]#>=<'' \<or> c = CHR 0x0A then None
      else if c = CHR ''&'' \<and> has_prefix cs ''lt;'' then map_option ((#) (CHR ''<'')) (rich_text (drop 3 cs))
      else map_option ((#) c) (rich_text cs))"

lemma rich_escape_text:
  assumes "c \<noteq> CHR 0x0A" "c \<noteq> CHR ''&''"
  shows "rich_text (rich_escape c @ s) = map_option ((#) c) (rich_text s)"
  using assms by (simp add: rich_escape_def)

text \<open>
  A title, album or user name shows as it is in a rich message, line ends as blanks: no byte of
  it acts as markup, whatever it holds, as long as there is no ampersand in it.
\<close>

theorem escaped_text_shown:
  assumes "CHR ''&'' \<notin> set s"
  shows "rich_text (escapeRichMD s) = Some (map (\<lambda>c. if c = CHR 0x0A then CHR '' '' else c) s)"
  using assms
proof (induction s)
  case (Cons c s)
  have "rich_text (rich_escape (if c = CHR 0x0A then CHR '' '' else c) @ escapeRichMD s) =
      map_option ((#) (if c = CHR 0x0A then CHR '' '' else c)) (rich_text (escapeRichMD s))"
    using Cons.prems by (intro rich_escape_text) auto
  with Cons show ?case by (simp add: escapeRichMD_def)
qed (simp add: escapeRichMD_def)

theorem escaped_text_shown_witness: "rich_text (escapeRichMD ''A_<b>|1*'') = Some ''A_<b>|1*''"
  using escaped_text_shown [of "''A_<b>|1*''"] by simp

text \<open>An ampersand is not escaped, so the entity for \<open><\<close> in a title shows as \<open><\<close>.\<close>

lemma entity_not_escaped: "rich_text (escapeRichMD ''&lt;'') = Some ''<''"
  by code_simp

end
