(* ===== verification/Chat_Boards.thy ===== *)
theory Chat_Boards
  imports Main
begin

section \<open>One status message per chat\<close>

text \<open>
  \<^verbatim>\<open>bot/telegram_bot.go\<close>: \<^verbatim>\<open>chatBoard\<close>, \<^verbatim>\<open>attachBoard\<close>, \<^verbatim>\<open>retireBoard\<close> and \<^verbatim>\<open>relocate\<close>.  Each is a run
  of steps: one per stretch under \<^verbatim>\<open>queueMu\<close> and the board's mutex, and one per call to Telegram in
  between; the steps of different goroutines interleave freely.  Statuses (tasks), boards and
  messages are numbered; a message number is not 0, which is the code's \<^verbatim>\<open>no message\<close>.  What a message says is the
  business of \<open>Status_Board\<close>.
\<close>

record chat_board =
  cbChat :: int
  cbMsg :: nat
  cbMembers :: "nat list"
  cbLoop :: bool
  cbStopped :: bool

text \<open>What a goroutine that left the locked part still has to do.\<close>

datatype board_call =
    Sending nat nat
  | Sent nat nat nat
  | Retiring nat nat
  | Relocating nat
  | Relocated nat nat

text \<open>
  \<open>brHome\<close> is \<^verbatim>\<open>status.group\<close> of every status made so far, \<open>brActive\<close> and \<open>brChats\<close> are \<^verbatim>\<open>activeBoards\<close>
  and \<^verbatim>\<open>chatBoards\<close>, \<open>brShown\<close> the messages on the screen.
\<close>

record board_reg =
  brChats :: "int \<rightharpoonup> nat"
  brActive :: "nat \<rightharpoonup> nat"
  brHome :: "nat \<rightharpoonup> nat"
  brRetired :: "nat list"
  brBoards :: "nat \<Rightarrow> chat_board"
  brNext :: nat
  brShown :: "nat list"
  brNextMsg :: nat
  brCalls :: "board_call list"

definition no_board :: chat_board where
  "no_board = \<lparr>cbChat = 0, cbMsg = 0, cbMembers = [], cbLoop = False, cbStopped = False\<rparr>"

definition no_boards :: board_reg where
  "no_boards = \<lparr>brChats = Map.empty, brActive = Map.empty, brHome = Map.empty, brRetired = [], brBoards = \<lambda>b. no_board, brNext = 0,
     brShown = [], brNextMsg = 1, brCalls = []\<rparr>"

definition on_board :: "nat \<Rightarrow> (chat_board \<Rightarrow> chat_board) \<Rightarrow> board_reg \<Rightarrow> board_reg" where
  "on_board b f r = r\<lparr>brBoards := (brBoards r)(b := f (brBoards r b))\<rparr>"

definition call :: "board_call \<Rightarrow> board_reg \<Rightarrow> board_reg" where
  "call x r = r\<lparr>brCalls := x # brCalls r\<rparr>"

definition called :: "board_call \<Rightarrow> board_reg \<Rightarrow> board_reg" where
  "called x r = r\<lparr>brCalls := remove1 x (brCalls r)\<rparr>"

subsection \<open>The steps\<close>

text \<open>\<^verbatim>\<open>attachBoard\<close> under the lock: join the chat's board, or make it and go on to send its message.\<close>

definition join_board :: "nat \<Rightarrow> nat \<Rightarrow> board_reg \<Rightarrow> board_reg" where
  "join_board t b r =
     (on_board b (\<lambda>g. g\<lparr>cbMembers := cbMembers g @ [t]\<rparr>) r)\<lparr>brHome := (brHome r)(t \<mapsto> b), brActive := (brActive r)(t \<mapsto> b)\<rparr>"

definition attach_lock :: "nat \<Rightarrow> int \<Rightarrow> board_reg \<Rightarrow> board_reg" where
  "attach_lock t c r =
     (case brChats r c of
        Some b \<Rightarrow> join_board t b r
      | None \<Rightarrow>
          (let b = brNext r;
               r1 = r\<lparr>brNext := b + 1, brBoards := (brBoards r)(b := no_board\<lparr>cbChat := c\<rparr>), brChats := (brChats r)(c \<mapsto> b)\<rparr>
           in call (Sending t b) (join_board t b r1)))"

definition leave_board :: "nat \<Rightarrow> nat \<Rightarrow> board_reg \<Rightarrow> board_reg" where
  "leave_board t b r =
     (let r1 = (on_board b (\<lambda>g. g\<lparr>cbMembers := remove1 t (cbMembers g)\<rparr>) r)\<lparr>brActive := (brActive r)(t := None)\<rparr>
      in if cbMembers (brBoards r1 b) = [] then r1\<lparr>brChats := (brChats r1)(cbChat (brBoards r b) := None)\<rparr> else r1)"

definition show_message :: "board_reg \<Rightarrow> board_reg" where
  "show_message r = r\<lparr>brShown := brNextMsg r # brShown r, brNextMsg := brNextMsg r + 1\<rparr>"

definition delete_message :: "nat \<Rightarrow> board_reg \<Rightarrow> board_reg" where
  "delete_message m r = r\<lparr>brShown := removeAll m (brShown r)\<rparr>"

definition start_board :: "nat \<Rightarrow> nat \<Rightarrow> board_reg \<Rightarrow> board_reg" where
  "start_board b m r = on_board b (\<lambda>g. g\<lparr>cbMsg := m, cbLoop := True\<rparr>) r"

text \<open>\<^verbatim>\<open>retireBoard\<close>: under the lock, and, for the last task of the board, the end of its message.\<close>

definition retire_lock :: "nat \<Rightarrow> board_reg \<Rightarrow> board_reg" where
  "retire_lock t r =
     (case brHome r t of
        None \<Rightarrow> r
      | Some b \<Rightarrow>
          if t \<in> set (brRetired r) then r
          else let r1 = (leave_board t b r)\<lparr>brRetired := t # brRetired r\<rparr>
               in if cbMembers (brBoards r1 b) = [] then call (Retiring t b) r1 else r1)"

definition finalize_board :: "bool \<Rightarrow> nat \<Rightarrow> board_reg \<Rightarrow> board_reg" where
  "finalize_board failed b r =
     (let r1 = on_board b (\<lambda>g. g\<lparr>cbStopped := True\<rparr>) r; m = cbMsg (brBoards r b)
      in if m = 0 \<or> failed then r1 else delete_message m r1)"

definition relocate_set :: "nat \<Rightarrow> nat \<Rightarrow> board_reg \<Rightarrow> board_reg" where
  "relocate_set b m r =
     (let old = cbMsg (brBoards r b); r1 = on_board b (\<lambda>g. g\<lparr>cbMsg := m\<rparr>) r
      in if old \<noteq> 0 \<and> old \<noteq> m then delete_message old r1 else r1)"

text \<open>
  The steps with their guards.  A status is attached once, and its runner retires it only after
  \<^verbatim>\<open>attachBoard\<close> has returned with it.
\<close>

datatype board_op =
    Attach nat int
  | SendOk nat nat
  | SendFail nat nat
  | SetMessage nat nat nat
  | Retire nat
  | Finalize bool nat nat
  | Relocate int
  | RelocateSend nat
  | RelocateFail nat
  | RelocateSet nat nat

definition attaching :: "nat \<Rightarrow> board_call \<Rightarrow> bool" where
  "attaching t x = (case x of Sending u b \<Rightarrow> u = t | Sent u b m \<Rightarrow> u = t | _ \<Rightarrow> False)"

definition guarded :: "bool \<Rightarrow> 'a \<Rightarrow> 'a option" where
  "guarded p x = (if p then Some x else None)"

fun board_step :: "board_op \<Rightarrow> board_reg \<Rightarrow> board_reg option" where
  "board_step (Attach t c) r = guarded (brHome r t = None) (attach_lock t c r)"
| "board_step (SendOk t b) r =
     guarded (Sending t b \<in> set (brCalls r)) (show_message (call (Sent t b (brNextMsg r)) (called (Sending t b) r)))"
| "board_step (SendFail t b) r = guarded (Sending t b \<in> set (brCalls r)) (leave_board t b (called (Sending t b) r))"
| "board_step (SetMessage t b m) r = guarded (Sent t b m \<in> set (brCalls r)) (start_board b m (called (Sent t b m) r))"
| "board_step (Retire t) r =
     guarded (brHome r t \<noteq> None \<and> \<not> list_ex (attaching t) (brCalls r) \<and> (brActive r t \<noteq> None \<or> t \<in> set (brRetired r))) (retire_lock t r)"
| "board_step (Finalize failed t b) r = guarded (Retiring t b \<in> set (brCalls r)) (finalize_board failed b (called (Retiring t b) r))"
| "board_step (Relocate c) r = (case brChats r c of None \<Rightarrow> None | Some b \<Rightarrow> Some (call (Relocating b) r))"
| "board_step (RelocateSend b) r =
     guarded (Relocating b \<in> set (brCalls r)) (show_message (call (Relocated b (brNextMsg r)) (called (Relocating b) r)))"
| "board_step (RelocateFail b) r = guarded (Relocating b \<in> set (brCalls r)) (called (Relocating b) r)"
| "board_step (RelocateSet b m) r = guarded (Relocated b m \<in> set (brCalls r)) (relocate_set b m (called (Relocated b m) r))"

fun board_run :: "board_op list \<Rightarrow> board_reg \<Rightarrow> board_reg option" where
  "board_run [] r = Some r"
| "board_run (x # xs) r = (case board_step x r of None \<Rightarrow> None | Some r1 \<Rightarrow> board_run xs r1)"

subsection \<open>The registry is consistent\<close>

definition attaches :: "nat \<Rightarrow> board_call \<Rightarrow> bool" where
  "attaches b x = (case x of Sending t b' \<Rightarrow> b' = b | Sent t b' m \<Rightarrow> b' = b | _ \<Rightarrow> False)"

text \<open>A board's loop is started once: by the one attachment that made the board.\<close>

definition starts :: "board_reg \<Rightarrow> nat \<Rightarrow> nat" where
  "starts r b = length (filter (attaches b) (brCalls r)) + (if cbLoop (brBoards r b) then 1 else 0)"

definition boards_listed :: "board_reg \<Rightarrow> bool" where
  "boards_listed r =
     ((\<forall>c b. brChats r c = Some b \<longrightarrow> cbChat (brBoards r b) = c \<and> cbMembers (brBoards r b) \<noteq> []) \<and>
      (\<forall>b. cbMembers (brBoards r b) \<noteq> [] \<longrightarrow> brChats r (cbChat (brBoards r b)) = Some b \<and> \<not> cbStopped (brBoards r b)))"

definition members_listed :: "board_reg \<Rightarrow> bool" where
  "members_listed r =
     ((\<forall>b. distinct (cbMembers (brBoards r b))) \<and> (\<forall>t b. t \<in> set (cbMembers (brBoards r b)) \<longleftrightarrow> brActive r t = Some b) \<and>
      (\<forall>t b. brActive r t = Some b \<longrightarrow> brHome r t = Some b \<and> t \<notin> set (brRetired r)) \<and> (\<forall>t \<in> set (brRetired r). brHome r t \<noteq> None))"

definition calls_ok :: "board_reg \<Rightarrow> bool" where
  "calls_ok r =
     ((\<forall>x \<in> set (brCalls r). \<forall>t. attaching t x \<longrightarrow> (\<exists>b. attaches b x \<and> brActive r t = Some b)) \<and>
      (\<forall>b. starts r b \<le> 1) \<and> (\<forall>t b. Retiring t b \<in> set (brCalls r) \<longrightarrow> cbMembers (brBoards r b) = []) \<and>
      (\<forall>b. cbLoop (brBoards r b) \<and> \<not> cbStopped (brBoards r b) \<and> cbMembers (brBoards r b) = [] \<longrightarrow> (\<exists>t. Retiring t b \<in> set (brCalls r))))"

text \<open>A number not yet given to a board stands for nothing.\<close>

fun call_board :: "board_call \<Rightarrow> nat" where
  "call_board (Sending t b) = b"
| "call_board (Sent t b m) = b"
| "call_board (Retiring t b) = b"
| "call_board (Relocating b) = b"
| "call_board (Relocated b m) = b"

definition numbers_ok :: "board_reg \<Rightarrow> bool" where
  "numbers_ok r =
     ((\<forall>b. brNext r \<le> b \<longrightarrow> brBoards r b = no_board) \<and> (\<forall>x \<in> set (brCalls r). call_board x < brNext r) \<and>
      (\<forall>c b. brChats r c = Some b \<longrightarrow> b < brNext r))"

definition reg_ok :: "board_reg \<Rightarrow> bool" where
  "reg_ok r = (boards_listed r \<and> members_listed r \<and> calls_ok r \<and> numbers_ok r)"

lemma no_board_simps [simp]:
  "cbMsg no_board = 0" "cbMembers no_board = []" "cbLoop no_board = False" "cbStopped no_board = False"
  by (simp_all add: no_board_def)

lemma reg_ok_start: "reg_ok no_boards"
  by (simp add: reg_ok_def boards_listed_def members_listed_def calls_ok_def numbers_ok_def starts_def no_boards_def)

lemma frame_simps [simp]:
  "brChats (call x r) = brChats r" "brActive (call x r) = brActive r" "brHome (call x r) = brHome r" "brRetired (call x r) = brRetired r"
  "brBoards (call x r) = brBoards r" "brNext (call x r) = brNext r" "brCalls (call x r) = x # brCalls r"
  "brChats (called x r) = brChats r" "brActive (called x r) = brActive r" "brHome (called x r) = brHome r" "brRetired (called x r) = brRetired r"
  "brBoards (called x r) = brBoards r" "brNext (called x r) = brNext r" "brCalls (called x r) = remove1 x (brCalls r)"
  "brChats (on_board b f r) = brChats r" "brActive (on_board b f r) = brActive r" "brHome (on_board b f r) = brHome r" "brRetired (on_board b f r) = brRetired r"
  "brBoards (on_board b f r) = (brBoards r)(b := f (brBoards r b))" "brNext (on_board b f r) = brNext r" "brCalls (on_board b f r) = brCalls r"
  "brChats (show_message r) = brChats r" "brActive (show_message r) = brActive r" "brHome (show_message r) = brHome r" "brRetired (show_message r) = brRetired r"
  "brBoards (show_message r) = brBoards r" "brNext (show_message r) = brNext r" "brCalls (show_message r) = brCalls r"
  "brChats (delete_message m r) = brChats r" "brActive (delete_message m r) = brActive r" "brHome (delete_message m r) = brHome r" "brRetired (delete_message m r) = brRetired r"
  "brBoards (delete_message m r) = brBoards r" "brNext (delete_message m r) = brNext r" "brCalls (delete_message m r) = brCalls r"
  by (simp_all add: call_def called_def on_board_def show_message_def delete_message_def)

lemma filter_remove1:
  "x \<in> set xs \<Longrightarrow> length (filter p xs) = length (filter p (remove1 x xs)) + (if p x then 1 else 0)"
  by (induction xs) auto

lemma attaches_board: "attaches b x \<Longrightarrow> call_board x = b"
  by (cases x) (simp_all add: attaches_def)

lemma attaching_attaches: "attaching t x \<Longrightarrow> attaches (call_board x) x"
  by (cases x) (simp_all add: attaches_def attaching_def)

lemma call_simps [simp]:
  "attaching t (Sending u b) = (u = t)" "attaching t (Sent u b m) = (u = t)" "\<not> attaching t (Retiring u b)" "\<not> attaching t (Relocating b)" "\<not> attaching t (Relocated b m)"
  "attaches b (Sending u b') = (b' = b)" "attaches b (Sent u b' m) = (b' = b)" "\<not> attaches b (Retiring u b')" "\<not> attaches b (Relocating b')" "\<not> attaches b (Relocated b' m)"
  by (simp_all add: attaches_def attaching_def)

text \<open>Steps that touch neither members nor lists.\<close>

lemma reg_ok_same:
  assumes "reg_ok r" "brChats r' = brChats r" "brActive r' = brActive r" "brHome r' = brHome r" "brRetired r' = brRetired r" "brNext r' = brNext r"
    and "\<forall>b. brBoards r' b = (brBoards r b)\<lparr>cbMsg := cbMsg (brBoards r' b)\<rparr>" "\<forall>b. brNext r \<le> b \<longrightarrow> brBoards r' b = no_board"
    and "\<forall>b. length (filter (attaches b) (brCalls r')) \<le> length (filter (attaches b) (brCalls r))"
    and "\<forall>x \<in> set (brCalls r'). call_board x < brNext r \<and> (\<forall>t. attaching t x \<longrightarrow> brActive r t = Some (call_board x))"
    and "\<forall>t b. Retiring t b \<in> set (brCalls r') \<longleftrightarrow> Retiring t b \<in> set (brCalls r)"
  shows "reg_ok r'"
proof -
  have same: "cbMembers (brBoards r' b) = cbMembers (brBoards r b)" "cbChat (brBoards r' b) = cbChat (brBoards r b)"
    "cbLoop (brBoards r' b) = cbLoop (brBoards r b)" "cbStopped (brBoards r' b) = cbStopped (brBoards r b)" for b
    using assms(7) by (metis chat_board.select_convs(1,3,4,5) chat_board.surjective chat_board.update_convs(2))+
  have lists: "boards_listed r'" "members_listed r'" using assms(1) by (simp_all add: reg_ok_def boards_listed_def members_listed_def assms(2-6) same)
  have "starts r' b \<le> starts r b" for b using assms(9) by (simp add: starts_def same)
  then have "\<forall>b. starts r' b \<le> 1" using assms(1) by (meson calls_ok_def order_trans reg_ok_def)
  moreover have "\<forall>x \<in> set (brCalls r'). \<forall>t. attaching t x \<longrightarrow> (\<exists>b. attaches b x \<and> brActive r' t = Some b)"
    using assms(3,10) attaching_attaches by metis
  ultimately have "calls_ok r'" using assms(1) by (simp add: reg_ok_def calls_ok_def same assms(11))
  moreover have "numbers_ok r'" using assms(1,8,10) unfolding reg_ok_def numbers_ok_def assms(2,6) by metis
  ultimately show ?thesis using lists by (simp add: reg_ok_def)
qed

lemma reg_ok_calls:
  assumes "reg_ok r" "x \<in> set (brCalls r)"
  shows "call_board x < brNext r" "attaching t x \<Longrightarrow> brActive r t = Some (call_board x)"
  using assms attaches_board unfolding reg_ok_def numbers_ok_def calls_ok_def by blast+

text \<open>A pending call replaced by its next part, or dropped.\<close>

lemma reg_ok_next:
  assumes "reg_ok r" "x \<in> set (brCalls r)" "call_board y = call_board x" "\<And>t. attaching t y = attaching t x" "\<And>b. attaches b y = attaches b x"
    and "\<forall>t b. x \<noteq> Retiring t b" "\<forall>t b. y \<noteq> Retiring t b"
  shows "reg_ok (call y (called x r))"
proof (rule reg_ok_same [OF assms(1)])
  show "\<forall>b. length (filter (attaches b) (brCalls (call y (called x r)))) \<le> length (filter (attaches b) (brCalls r))"
    using assms(5) by (simp add: filter_remove1 [OF assms(2)])
  show "\<forall>z \<in> set (brCalls (call y (called x r))). call_board z < brNext r \<and> (\<forall>t. attaching t z \<longrightarrow> brActive r t = Some (call_board z))"
    using reg_ok_calls [OF assms(1)] assms(2-4) by (auto dest: notin_set_remove1 in_set_remove1 [THEN iffD1] set_remove1_subset [THEN subsetD])
  show "\<forall>t b. Retiring t b \<in> set (brCalls (call y (called x r))) \<longleftrightarrow> Retiring t b \<in> set (brCalls r)"
    using assms(6,7) by (metis frame_simps(7,14) in_set_remove1 set_ConsD list.set_intros(2))
  show "\<forall>b. brNext r \<le> b \<longrightarrow> brBoards (call y (called x r)) b = no_board" using assms(1) by (simp add: reg_ok_def numbers_ok_def)
qed simp_all

lemma reg_ok_dropped:
  assumes "reg_ok r" "x \<in> set (brCalls r)" "\<forall>t b. x \<noteq> Retiring t b"
  shows "reg_ok (called x r)"
proof (rule reg_ok_same [OF assms(1)])
  show "\<forall>b. length (filter (attaches b) (brCalls (called x r))) \<le> length (filter (attaches b) (brCalls r))"
    by (simp add: filter_remove1 [OF assms(2)])
  show "\<forall>z \<in> set (brCalls (called x r)). call_board z < brNext r \<and> (\<forall>t. attaching t z \<longrightarrow> brActive r t = Some (call_board z))"
    using reg_ok_calls [OF assms(1)] by (auto dest: set_remove1_subset [THEN subsetD])
  show "\<forall>t b. Retiring t b \<in> set (brCalls (called x r)) \<longleftrightarrow> Retiring t b \<in> set (brCalls r)"
    using assms(3) by (metis frame_simps(14) in_set_remove1)
  show "\<forall>b. brNext r \<le> b \<longrightarrow> brBoards (called x r) b = no_board" using assms(1) by (simp add: reg_ok_def numbers_ok_def)
qed simp_all

lemma reg_ok_shown [simp]: "reg_ok (show_message r) = reg_ok r" "reg_ok (delete_message m r) = reg_ok r"
  by (simp_all add: reg_ok_def boards_listed_def members_listed_def calls_ok_def numbers_ok_def starts_def)

lemma reg_ok_msg:
  assumes "reg_ok r" "b < brNext r"
  shows "reg_ok (on_board b (\<lambda>g. g\<lparr>cbMsg := m\<rparr>) r)"
  using assms reg_ok_calls [OF assms(1)] by (intro reg_ok_same [OF assms(1)]) (auto simp: reg_ok_def numbers_ok_def)

text \<open>Joining and leaving.\<close>

lemma join_frame [simp]:
  "brChats (join_board t b r) = brChats r" "brRetired (join_board t b r) = brRetired r" "brNext (join_board t b r) = brNext r"
  "brCalls (join_board t b r) = brCalls r" "brActive (join_board t b r) = (brActive r)(t \<mapsto> b)" "brHome (join_board t b r) = (brHome r)(t \<mapsto> b)"
  "brBoards (join_board t b r) = (brBoards r)(b := (brBoards r b)\<lparr>cbMembers := cbMembers (brBoards r b) @ [t]\<rparr>)"
  by (simp_all add: join_board_def)

lemma homeless: "reg_ok r \<Longrightarrow> brHome r t = None \<Longrightarrow> brActive r t = None \<and> t \<notin> set (brRetired r) \<and> t \<notin> set (cbMembers (brBoards r b))"
  unfolding reg_ok_def members_listed_def by (metis option.distinct(1) option.exhaust)

lemma join_ok:
  assumes "reg_ok r" "brHome r t = None" "brChats r c = Some b"
  shows "reg_ok (join_board t b r)"
proof -
  let ?r = "join_board t b r"
  have new: "brActive r t = None" "t \<notin> set (brRetired r)" "t \<notin> set (cbMembers (brBoards r b))" for b
    using homeless [OF assms(1,2)] by blast+
  have b: "cbChat (brBoards r b) = c" "cbMembers (brBoards r b) \<noteq> []" "b < brNext r"
    using assms(1,3) by (auto simp: reg_ok_def boards_listed_def numbers_ok_def)
  have listed: "boards_listed ?r" using assms(1,3) b by (simp add: reg_ok_def boards_listed_def)
  have "members_listed ?r" using assms(1) new by (auto simp: reg_ok_def members_listed_def)
  have "starts ?r b' = starts r b'" for b' by (simp add: starts_def)
  moreover have "\<forall>x \<in> set (brCalls ?r). \<forall>u. attaching u x \<longrightarrow> (\<exists>b. attaches b x \<and> brActive ?r u = Some b)"
    using assms(1) new(1) by (fastforce simp: reg_ok_def calls_ok_def)
  moreover have "Retiring u b' \<notin> set (brCalls r)" if "cbMembers (brBoards r b') \<noteq> []" for u b'
    using assms(1) that by (auto simp: reg_ok_def calls_ok_def)
  ultimately have "calls_ok ?r" using assms(1) b(2) by (auto simp: reg_ok_def calls_ok_def)
  moreover have "numbers_ok ?r" using assms(1) b by (simp add: reg_ok_def numbers_ok_def)
  ultimately show ?thesis using listed \<open>members_listed ?r\<close> by (simp add: reg_ok_def)
qed

lemma active_number:
  assumes "reg_ok r" "brActive r t = Some b"
  shows "b < brNext r"
proof -
  have "t \<in> set (cbMembers (brBoards r b))" using assms by (simp add: reg_ok_def members_listed_def)
  then have "brBoards r b \<noteq> no_board" by auto
  then show ?thesis using assms(1) by (meson not_le numbers_ok_def reg_ok_def)
qed

lemma attach_ok:
  assumes "reg_ok r" "brHome r t = None"
  shows "reg_ok (attach_lock t c r)"
proof (cases "brChats r c")
  case (Some b)
  then show ?thesis using join_ok [OF assms Some] by (simp add: attach_lock_def)
next
  case None
  let ?b = "brNext r" and ?r = "attach_lock t c r"
  have new: "brActive r t = None" "t \<notin> set (brRetired r)" "t \<notin> set (cbMembers (brBoards r b))" for b
    using homeless [OF assms] by blast+
  have fresh: "brBoards r ?b = no_board" "\<forall>x \<in> set (brCalls r). call_board x \<noteq> ?b" using assms(1) by (auto simp: reg_ok_def numbers_ok_def)
  then have none: "filter (attaches ?b) (brCalls r) = []" using attaches_board by (auto simp: filter_empty_conv)
  have sel: "brChats ?r = (brChats r)(c \<mapsto> ?b)" "brActive ?r = (brActive r)(t \<mapsto> ?b)" "brHome ?r = (brHome r)(t \<mapsto> ?b)" "brRetired ?r = brRetired r"
    "brBoards ?r = (brBoards r)(?b := no_board\<lparr>cbChat := c, cbMembers := [t]\<rparr>)" "brNext ?r = ?b + 1" "brCalls ?r = Sending t ?b # brCalls r"
    using None by (simp_all add: attach_lock_def Let_def)
  have "boards_listed ?r"
  proof (unfold boards_listed_def, intro conjI allI impI)
    fix c' b assume "brChats ?r c' = Some b"
    then show "cbChat (brBoards ?r b) = c'" "cbMembers (brBoards ?r b) \<noteq> []"
      using assms(1) unfolding sel reg_ok_def boards_listed_def numbers_ok_def by (auto split: if_splits)
  next
    fix b assume b: "cbMembers (brBoards ?r b) \<noteq> []"
    show "brChats ?r (cbChat (brBoards ?r b)) = Some b" "\<not> cbStopped (brBoards ?r b)"
    proof (atomize (full), cases "b = ?b")
      case False
      then have "brChats r (cbChat (brBoards r b)) = Some b \<and> \<not> cbStopped (brBoards r b)"
        using b assms(1) unfolding sel by (simp add: reg_ok_def boards_listed_def)
      then show "brChats ?r (cbChat (brBoards ?r b)) = Some b \<and> \<not> cbStopped (brBoards ?r b)" using False None unfolding sel by auto
    qed (simp add: sel)
  qed
  have "brActive r u \<noteq> Some ?b" for u using active_number [OF assms(1), of u ?b] by auto
  then have "members_listed ?r" using assms(1) new unfolding reg_ok_def members_listed_def sel by (auto simp: fresh)
  have "starts ?r b \<le> 1" for b
  proof (cases "b = ?b")
    case True
    then show ?thesis unfolding starts_def sel by (simp add: none)
  next
    case False
    then have "starts ?r b = starts r b" unfolding starts_def sel by simp
    then show ?thesis using assms(1) by (simp add: reg_ok_def calls_ok_def)
  qed
  moreover have "\<forall>x \<in> set (brCalls ?r). \<forall>u. attaching u x \<longrightarrow> (\<exists>b. attaches b x \<and> brActive ?r u = Some b)"
    using assms(1) new(1) unfolding sel by (fastforce simp: reg_ok_def calls_ok_def)
  moreover have "\<forall>b. cbLoop (brBoards ?r b) \<and> \<not> cbStopped (brBoards ?r b) \<and> cbMembers (brBoards ?r b) = [] \<longrightarrow> (\<exists>t. Retiring t b \<in> set (brCalls ?r))"
    using assms(1) unfolding sel by (auto simp: reg_ok_def calls_ok_def)
  moreover have "\<forall>u b. Retiring u b \<in> set (brCalls ?r) \<longrightarrow> cbMembers (brBoards ?r b) = []"
    using assms(1) fresh(2) unfolding sel by (auto simp: reg_ok_def calls_ok_def)
  ultimately have "calls_ok ?r" by (simp add: calls_ok_def)
  moreover have "numbers_ok ?r" using assms(1) unfolding reg_ok_def numbers_ok_def sel by (auto simp: less_Suc_eq)
  ultimately show ?thesis using \<open>boards_listed ?r\<close> \<open>members_listed ?r\<close> by (simp add: reg_ok_def)
qed

lemma leave_board_frame:
  assumes "r' = leave_board t b r"
  shows "brActive r' = (brActive r)(t := None)" "brHome r' = brHome r" "brRetired r' = brRetired r" "brNext r' = brNext r" "brCalls r' = brCalls r"
    "brBoards r' = (brBoards r)(b := (brBoards r b)\<lparr>cbMembers := remove1 t (cbMembers (brBoards r b))\<rparr>)"
    "brChats r' = (if remove1 t (cbMembers (brBoards r b)) = [] then (brChats r)(cbChat (brBoards r b) := None) else brChats r)"
    "starts r' b' = starts r b'"
  by (simp_all add: assms leave_board_def Let_def starts_def)

lemma leave_ok:
  assumes "reg_ok r" "brActive r t = Some b" "r' = leave_board t b r"
  shows "boards_listed r'" "members_listed r'" "numbers_ok r'"
proof -
  note sel = leave_board_frame [OF assms(3)]
  have mem: "t \<in> set (cbMembers (brBoards r b))" "distinct (cbMembers (brBoards r b))" using assms(1,2) by (simp_all add: reg_ok_def members_listed_def)
  have listed: "brChats r (cbChat (brBoards r b)) = Some b" 
    using assms(1) list.set_sel(2) mem(1) unfolding reg_ok_def boards_listed_def by (metis empty_iff list.set(1))
  then have b: "b < brNext r" using assms(1) by (auto simp: reg_ok_def numbers_ok_def)
  show "boards_listed r'"
  proof (unfold boards_listed_def, intro conjI allI impI)
    fix c' b' assume "brChats r' c' = Some b'"
    then have old: "brChats r c' = Some b'" and kept: "b' = b \<longrightarrow> remove1 t (cbMembers (brBoards r b)) \<noteq> []"
      using assms(1) unfolding sel reg_ok_def boards_listed_def by (auto split: if_splits)
    then show "cbChat (brBoards r' b') = c'" "cbMembers (brBoards r' b') \<noteq> []"
      using assms(1) unfolding sel reg_ok_def boards_listed_def by auto
  next
    fix b' assume b': "cbMembers (brBoards r' b') \<noteq> []"
    then have some: "cbMembers (brBoards r b') \<noteq> []" unfolding sel by (auto split: if_splits)
    then have old: "brChats r (cbChat (brBoards r b')) = Some b' \<and> \<not> cbStopped (brBoards r b')" using assms(1) by (simp add: reg_ok_def boards_listed_def)
    have same: "cbChat (brBoards r' b') = cbChat (brBoards r b')" "cbStopped (brBoards r' b') = cbStopped (brBoards r b')" by (simp_all add: sel)
    show "\<not> cbStopped (brBoards r' b')" using old same by simp
    show "brChats r' (cbChat (brBoards r' b')) = Some b'"
    proof (cases "b' = b")
      case True
      then show ?thesis using b' old unfolding sel by simp
    next
      case False
      then have "cbChat (brBoards r b') \<noteq> cbChat (brBoards r b)" using old listed by auto
      then show ?thesis using old same unfolding sel(7) by simp
    qed
  qed
  show "members_listed r'" using assms(1,2) mem unfolding reg_ok_def members_listed_def sel by auto
  show "numbers_ok r'" using assms(1) b unfolding reg_ok_def numbers_ok_def sel by auto
qed

lemma retire_ok:
  assumes "reg_ok r" "brHome r t = Some b" "\<not> list_ex (attaching t) (brCalls r)" "brActive r t \<noteq> None \<or> t \<in> set (brRetired r)"
  shows "reg_ok (retire_lock t r)"
proof (cases "t \<in> set (brRetired r)")
  case True
  then show ?thesis using assms(1,2) by (simp add: retire_lock_def)
next
  case False
  then have act: "brActive r t = Some b" using assms(1,2,4) by (auto simp: reg_ok_def members_listed_def)
  define r0 where "r0 = leave_board t b r"
  note sel = leave_board_frame [OF r0_def] and parts = leave_ok [OF assms(1) act r0_def]
  define r' where "r' = retire_lock t r"
  have calls: "brCalls r' = (if cbMembers (brBoards r0 b) = [] then Retiring t b # brCalls r else brCalls r)"
    and frame: "brChats r' = brChats r0" "brActive r' = brActive r0" "brHome r' = brHome r0" "brRetired r' = t # brRetired r0"
      "brBoards r' = brBoards r0" "brNext r' = brNext r0"
    using assms(2) False by (simp_all add: r'_def retire_lock_def r0_def [symmetric] sel Let_def)
  have "boards_listed r'" using parts(1) unfolding boards_listed_def frame .
  moreover have "members_listed r'" using parts(2) assms(2) unfolding members_listed_def frame by (auto simp: sel)
  moreover have "starts r' b' \<le> 1" for b'
  proof -
    have "starts r' b' = starts r0 b'" by (simp add: starts_def frame calls sel(5))
    also have "\<dots> \<le> 1" using assms(1) sel(8) by (simp add: reg_ok_def calls_ok_def)
    finally show ?thesis .
  qed
  then have "calls_ok r'" using assms(1,3) unfolding reg_ok_def calls_ok_def calls frame sel by (auto simp: list_ex_iff)
  moreover have "numbers_ok r'"
  proof -
    have "b < brNext r" using assms(1) act by (rule active_number)
    then show ?thesis using parts(3) unfolding numbers_ok_def frame calls sel by auto
  qed
  ultimately show ?thesis by (simp add: reg_ok_def r'_def)
qed

text \<open>The call that ends an attachment is the only one for its board.\<close>

lemma one_attachment:
  assumes "reg_ok r" "x \<in> set (brCalls r)" "attaching t x" "b = call_board x"
  shows "\<not> cbLoop (brBoards r b)" "filter (attaches b) (brCalls (called x r)) = []" "\<forall>y \<in> set (brCalls (called x r)). \<not> attaching t y"
    "brActive r t = Some b"
proof -
  show act: "brActive r t = Some b" using reg_ok_calls(2) [OF assms(1-3)] assms(4) by simp
  have "starts r b \<le> 1" using assms(1) by (simp add: reg_ok_def calls_ok_def)
  then have one: "\<not> cbLoop (brBoards r b) \<and> filter (attaches b) (remove1 x (brCalls r)) = []"
    using filter_remove1 [OF assms(2), of "attaches b"] attaching_attaches [OF assms(3)] assms(4) by (auto simp: starts_def split: if_splits)
  then show "\<not> cbLoop (brBoards r b)" "filter (attaches b) (brCalls (called x r)) = []" by simp_all
  show "\<forall>y \<in> set (brCalls (called x r)). \<not> attaching t y"
  proof (intro ballI notI)
    fix y assume y: "y \<in> set (brCalls (called x r))" "attaching t y"
    then have "y \<in> set (brCalls r)" by (auto dest: set_remove1_subset [THEN subsetD])
    from reg_ok_calls(2) [OF assms(1) this y(2)] act have "call_board y = b" by simp
    then have "attaches b y" using attaching_attaches [OF y(2)] by simp
    then show False using one y(1) by (auto simp: filter_empty_conv)
  qed
qed

lemma send_fail_ok:
  assumes "reg_ok r" "Sending t b \<in> set (brCalls r)"
  shows "reg_ok (leave_board t b (called (Sending t b) r))"
proof -
  define r0 where "r0 = called (Sending t b) r"
  define r' where "r' = leave_board t b r0"
  note one = one_attachment [OF assms, of t b, simplified]
  have ok: "reg_ok r0" unfolding r0_def by (rule reg_ok_dropped [OF assms]) simp
  have act: "brActive r0 t = Some b" using one(4) by (simp add: r0_def)
  note sel = leave_board_frame [OF r'_def] and parts = leave_ok [OF ok act r'_def]
  have "calls_ok r0" using ok by (simp add: reg_ok_def)
  moreover have "\<not> cbLoop (brBoards r0 b)" "\<forall>y \<in> set (brCalls r0). \<not> attaching t y" using one by (simp_all add: r0_def)
  ultimately have "calls_ok r'" unfolding calls_ok_def sel by auto
  with parts show ?thesis by (simp add: reg_ok_def r'_def r0_def)
qed

lemma set_message_ok:
  assumes "reg_ok r" "Sent t b m \<in> set (brCalls r)"
  shows "reg_ok (start_board b m (called (Sent t b m) r))"
proof -
  define r0 where "r0 = called (Sent t b m) r"
  define r' where "r' = start_board b m r0"
  note one = one_attachment [OF assms, of t b, simplified]
  have ok: "reg_ok r0" unfolding r0_def by (rule reg_ok_dropped [OF assms]) simp
  have "t \<in> set (cbMembers (brBoards r b))" using assms(1) one(4) by (simp add: reg_ok_def members_listed_def)
  then have b: "cbMembers (brBoards r b) \<noteq> []" "b < brNext r" using active_number [OF assms(1) one(4)] by auto
  have sel: "brChats r' = brChats r0" "brActive r' = brActive r0" "brHome r' = brHome r0" "brRetired r' = brRetired r0" "brNext r' = brNext r0"
    "brCalls r' = brCalls r0" "brBoards r' = (brBoards r0)(b := (brBoards r0 b)\<lparr>cbMsg := m, cbLoop := True\<rparr>)"
    by (simp_all add: r'_def start_board_def)
  have "starts r' b' \<le> 1" for b'
  proof (cases "b' = b")
    case True
    then show ?thesis using one(2) by (simp add: starts_def sel r0_def)
  next
    case False
    then show ?thesis using ok by (simp add: starts_def sel reg_ok_def calls_ok_def)
  qed
  then have "calls_ok r'" using ok b(1) unfolding reg_ok_def calls_ok_def sel by (auto simp: r0_def)
  moreover have "boards_listed r'" "members_listed r'" "numbers_ok r'"
    using ok b(2) unfolding reg_ok_def boards_listed_def members_listed_def numbers_ok_def sel by (auto simp: r0_def)
  ultimately show ?thesis by (simp add: reg_ok_def r'_def r0_def)
qed

lemma finalize_ok:
  assumes "reg_ok r" "Retiring t b \<in> set (brCalls r)"
  shows "reg_ok (finalize_board failed b (called (Retiring t b) r))"
proof -
  define r' where "r' = on_board b (\<lambda>g. g\<lparr>cbStopped := True\<rparr>) (called (Retiring t b) r)"
  have sel: "brChats r' = brChats r" "brActive r' = brActive r" "brHome r' = brHome r" "brRetired r' = brRetired r" "brNext r' = brNext r"
    "brCalls r' = remove1 (Retiring t b) (brCalls r)" "brBoards r' = (brBoards r)(b := (brBoards r b)\<lparr>cbStopped := True\<rparr>)"
    by (simp_all add: r'_def)
  have b: "cbMembers (brBoards r b) = []" "b < brNext r"
    using assms reg_ok_calls(1) [OF assms] by (auto simp: reg_ok_def calls_ok_def)
  have less: "x \<in> set (brCalls r)" if "x \<in> set (brCalls r')" for x using that by (auto simp: sel dest: set_remove1_subset [THEN subsetD])
  have "starts r' b' = starts r b'" for b' using filter_remove1 [OF assms(2), of "attaches b'"] by (simp add: starts_def sel)
  then have "\<forall>b. starts r' b \<le> 1" using assms(1) by (simp add: reg_ok_def calls_ok_def)
  moreover have "\<forall>x \<in> set (brCalls r'). \<forall>u. attaching u x \<longrightarrow> (\<exists>b. attaches b x \<and> brActive r' u = Some b)"
    using assms(1) less unfolding reg_ok_def calls_ok_def sel(2) by blast
  moreover have "\<forall>u b. Retiring u b \<in> set (brCalls r') \<longrightarrow> cbMembers (brBoards r' b) = []"
  proof (intro allI impI)
    fix u b' assume "Retiring u b' \<in> set (brCalls r')"
    from less [OF this] have "cbMembers (brBoards r b') = []" using assms(1) by (auto simp: reg_ok_def calls_ok_def)
    then show "cbMembers (brBoards r' b') = []" using b(1) by (simp add: sel)
  qed
  moreover have "\<exists>u. Retiring u b' \<in> set (brCalls r')"
    if "cbLoop (brBoards r' b') \<and> \<not> cbStopped (brBoards r' b') \<and> cbMembers (brBoards r' b') = []" for b'
  proof -
    have "b' \<noteq> b" using that by (auto simp: sel)
    then have "cbLoop (brBoards r b') \<and> \<not> cbStopped (brBoards r b') \<and> cbMembers (brBoards r b') = []" using that by (simp add: sel)
    then obtain u where "Retiring u b' \<in> set (brCalls r)" using assms(1) unfolding reg_ok_def calls_ok_def by blast
    then show ?thesis using \<open>b' \<noteq> b\<close> unfolding sel by (metis board_call.inject(3) in_set_remove1)
  qed
  ultimately have "calls_ok r'" by (simp add: calls_ok_def)
  moreover have "boards_listed r'" using assms(1) b(1) unfolding reg_ok_def boards_listed_def sel by auto
  moreover have "members_listed r'" using assms(1) unfolding reg_ok_def members_listed_def sel by auto
  moreover have "numbers_ok r'" using assms(1) b(2) less unfolding reg_ok_def numbers_ok_def sel(1,5,7) by auto
  ultimately have "reg_ok r'" by (simp add: reg_ok_def)
  then show ?thesis by (simp add: finalize_board_def Let_def r'_def)
qed

lemma guarded_Some: "guarded p x = Some y \<longleftrightarrow> p \<and> x = y"
  by (simp add: guarded_def)

lemma board_step_ok:
  assumes "board_step x r = Some r'" "reg_ok r"
  shows "reg_ok r'"
proof (cases x)
  case (Attach t c)
  then show ?thesis using assms attach_ok by (auto simp: guarded_Some)
next
  case (SendOk t b)
  then show ?thesis using assms reg_ok_next [OF assms(2), of "Sending t b" "Sent t b (brNextMsg r)"] by (auto simp: guarded_Some)
next
  case (SendFail t b)
  then show ?thesis using assms send_fail_ok by (auto simp: guarded_Some)
next
  case (SetMessage t b m)
  then show ?thesis using assms set_message_ok by (auto simp: guarded_Some)
next
  case (Retire t)
  then show ?thesis using assms retire_ok by (auto simp: guarded_Some)
next
  case (Finalize failed t b)
  then show ?thesis using assms finalize_ok by (auto simp: guarded_Some)
next
  case (Relocate c)
  then obtain b where b: "brChats r c = Some b" "r' = call (Relocating b) r" using assms(1) by (auto split: option.splits)
  have "reg_ok (call (Relocating b) r)"
    using reg_ok_calls [OF assms(2)] assms(2) b(1) by (intro reg_ok_same [OF assms(2)]) (auto simp: reg_ok_def numbers_ok_def)
  then show ?thesis using b by simp
next
  case (RelocateSend b)
  then show ?thesis using assms reg_ok_next [OF assms(2), of "Relocating b" "Relocated b (brNextMsg r)"] by (auto simp: guarded_Some)
next
  case (RelocateFail b)
  then show ?thesis using assms reg_ok_dropped [OF assms(2), of "Relocating b"] by (auto simp: guarded_Some)
next
  case (RelocateSet b m)
  then have x: "Relocated b m \<in> set (brCalls r)" "r' = relocate_set b m (called (Relocated b m) r)" using assms(1) by (auto simp: guarded_Some)
  have "reg_ok (on_board b (\<lambda>g. g\<lparr>cbMsg := m\<rparr>) (called (Relocated b m) r))"
    using reg_ok_msg [OF reg_ok_dropped [OF assms(2) x(1)]] reg_ok_calls(1) [OF assms(2) x(1)] by simp
  then show ?thesis by (simp add: x(2) relocate_set_def Let_def)
qed

lemma board_run_ok: "board_run xs r = Some r' \<Longrightarrow> reg_ok r \<Longrightarrow> reg_ok r'"
  by (induction xs arbitrary: r) (auto split: option.splits dest: board_step_ok)

subsection \<open>What it gives\<close>


text \<open>Two tasks of chat 7 and one of chat 8; the first two end.\<close>

lemma some_the: "\<not> Option.is_none x \<Longrightarrow> x = Some (the x)"
  by (cases x) simp_all

definition board_trace :: "board_op list" where
  "board_trace = [Attach 1 7, Attach 2 7, Attach 3 8, SendOk 1 0, SendOk 3 1, SetMessage 1 0 1, SetMessage 3 1 2, Retire 1, Retire 2, Finalize False 2 0]"


text \<open>
  Once every task has been retired and every call has returned, no chat has a board and every
  refresh loop that was started has been told to stop.
\<close>

theorem no_board_left_behind:
  assumes "board_run xs no_boards = Some r" "brCalls r = []" "\<And>t. brActive r t = None"
  shows "brChats r = Map.empty \<and> {b. cbLoop (brBoards r b) \<and> \<not> cbStopped (brBoards r b)} = {}"
proof -
  have ok: "reg_ok r" by (rule board_run_ok [OF assms(1) reg_ok_start])
  have none: "cbMembers (brBoards r b) = []" for b
    using ok assms(3) unfolding reg_ok_def members_listed_def by (metis list.set_intros(1) neq_Nil_conv option.distinct(1))
  have "brChats r c = None" for c using ok none unfolding reg_ok_def boards_listed_def by (meson not_Some_eq)
  moreover have "cbStopped (brBoards r b)" if "cbLoop (brBoards r b)" for b
    using ok that none assms(2) unfolding reg_ok_def calls_ok_def by (metis empty_iff list.set(1))
  ultimately show ?thesis by auto
qed

theorem no_board_left_behind_witness:
  "brChats (the (board_run (board_trace @ [Retire 3, Finalize True 3 1]) no_boards)) = Map.empty"
proof -
  let ?r = "the (board_run (board_trace @ [Retire 3, Finalize True 3 1]) no_boards)"
  have run: "board_run (board_trace @ [Retire 3, Finalize True 3 1]) no_boards = Some ?r" by (rule some_the) code_simp
  have "brCalls ?r = []" by code_simp
  moreover have "brActive ?r = Map.empty" by (simp add: board_trace_def no_boards_def no_board_def attach_lock_def join_board_def on_board_def call_def called_def
      guarded_def attaching_def show_message_def start_board_def retire_lock_def leave_board_def finalize_board_def delete_message_def fun_eq_iff)
  ultimately show ?thesis using no_board_left_behind [OF run] by simp
qed

text \<open>
  The board whose first message could not be sent, kept for the tasks that have joined it
  meanwhile: nothing will send or refresh a message for it but a relocation.
\<close>

definition unseen_board :: "nat \<Rightarrow> board_reg \<Rightarrow> bool" where
  "unseen_board b r =
     (b < brNext r \<and> cbMsg (brBoards r b) = 0 \<and> \<not> cbLoop (brBoards r b) \<and>
      list_all (\<lambda>x. \<not> attaches b x \<and> x \<noteq> Relocating b \<and> (\<forall>m. x \<noteq> Relocated b m)) (brCalls r))"

definition relocates :: "board_op \<Rightarrow> bool" where
  "relocates x = (case x of Relocate c \<Rightarrow> True | _ \<Rightarrow> False)"

lemma unseen_called: "unseen_board b r \<Longrightarrow> unseen_board b (called x r)"
  by (auto simp: unseen_board_def list_all_iff dest: set_remove1_subset [THEN subsetD])

lemma unseen_leave: "unseen_board b r \<Longrightarrow> unseen_board b (leave_board t b' r)"
  unfolding unseen_board_def leave_board_frame [OF refl] by (cases "b = b'") simp_all

lemma unseen_retire: "unseen_board b r \<Longrightarrow> unseen_board b (retire_lock t r)"
  using unseen_leave [of b r t] by (auto simp: retire_lock_def Let_def unseen_board_def split: option.splits)

lemma unseen_board_step:
  assumes "board_step x r = Some r'" "unseen_board b r" "\<not> relocates x"
  shows "unseen_board b r'"
proof (cases x)
  case (Attach t c)
  then show ?thesis using assms(1,2) by (auto simp: guarded_Some attach_lock_def Let_def unseen_board_def split: option.splits if_splits)
next
  case (SendOk t b')
  then have "b' \<noteq> b" using assms(1,2) by (auto simp: guarded_Some unseen_board_def list_all_iff)
  then show ?thesis using SendOk assms(1) unseen_called [OF assms(2)] by (auto simp: guarded_Some unseen_board_def)
next
  case (SendFail t b')
  then show ?thesis using assms(1) unseen_leave [OF unseen_called [OF assms(2)]] by (auto simp: guarded_Some)
next
  case (SetMessage t b' m)
  then have "b' \<noteq> b" using assms(1,2) by (auto simp: guarded_Some unseen_board_def list_all_iff)
  then show ?thesis using SetMessage assms(1) unseen_called [OF assms(2)] by (auto simp: guarded_Some unseen_board_def start_board_def)
next
  case (Retire t)
  then show ?thesis using assms(1) unseen_retire [OF assms(2)] by (auto simp: guarded_Some)
next
  case (Finalize failed t b')
  then show ?thesis using assms(1) unseen_called [OF assms(2)] by (auto simp: guarded_Some unseen_board_def finalize_board_def Let_def split: if_splits)
next
  case (RelocateSend b')
  then have "b' \<noteq> b" using assms(1,2) by (auto simp: guarded_Some unseen_board_def list_all_iff)
  then show ?thesis using RelocateSend assms(1) unseen_called [OF assms(2)] by (auto simp: guarded_Some unseen_board_def)
next
  case (RelocateFail b')
  then show ?thesis using assms(1) unseen_called [OF assms(2)] by (auto simp: guarded_Some)
next
  case (RelocateSet b' m)
  then have "b' \<noteq> b" using assms(1,2) by (auto simp: guarded_Some unseen_board_def list_all_iff)
  then show ?thesis using RelocateSet assms(1) unseen_called [OF assms(2)] by (auto simp: guarded_Some unseen_board_def relocate_set_def Let_def split: if_splits)
next
  case (Relocate c)
  then show ?thesis using assms(3) by (simp add: relocates_def)
qed

lemma unseen_board_run: "board_run ys r = Some r' \<Longrightarrow> unseen_board b r \<Longrightarrow> list_all (\<lambda>x. \<not> relocates x) ys \<Longrightarrow> unseen_board b r'"
  by (induction ys arbitrary: r) (auto split: option.splits dest: unseen_board_step)

text \<open>
  When the first message of a chat's board cannot be sent and a second task has joined the board
  by then, that task goes on without a message: none is sent and no refresh loop runs for the board
  until a /status or a new submission relocates it.
\<close>

theorem joined_task_unseen:
  assumes "board_run xs no_boards = Some r" "Sending t b \<in> set (brCalls r)" "u \<in> set (cbMembers (brBoards r b))" "u \<noteq> t"
    and "cbMsg (brBoards r b) = 0" "Relocating b \<notin> set (brCalls r)" "\<And>m. Relocated b m \<notin> set (brCalls r)"
    and "board_step (SendFail t b) r = Some r1" "list_all (\<lambda>x. \<not> relocates x) ys" "board_run ys r1 = Some r2"
  shows "brActive r1 u = Some b \<and> brChats r1 (cbChat (brBoards r b)) = Some b \<and> cbMsg (brBoards r2 b) = 0 \<and> \<not> cbLoop (brBoards r2 b)"
proof -
  have ok: "reg_ok r" by (rule board_run_ok [OF assms(1) reg_ok_start])
  note one = one_attachment [OF ok assms(2), of t b, simplified]
  have r1: "r1 = leave_board t b (called (Sending t b) r)" using assms(8) by (auto simp: guarded_Some)
  have ok1: "reg_ok r1" unfolding r1 by (rule send_fail_ok [OF ok assms(2)])
  have mem: "u \<in> set (cbMembers (brBoards r1 b))" using assms(3,4) unfolding leave_board_frame(6) [OF r1] by simp
  then have act: "brActive r1 u = Some b" "brChats r1 (cbChat (brBoards r1 b)) = Some b"
    using ok1 unfolding reg_ok_def members_listed_def boards_listed_def by (blast, metis empty_iff list.set(1))
  have "unseen_board b r1"
    using one(1,2) assms(5-7) active_number [OF ok1 act(1)]
    unfolding unseen_board_def leave_board_frame [OF r1] by (auto simp: list_all_iff filter_empty_conv dest: set_remove1_subset [THEN subsetD])
  from unseen_board_run [OF assms(10) this assms(9)] act leave_board_frame(6) [OF r1] show ?thesis by (simp add: unseen_board_def)
qed

theorem joined_task_unseen_witness:
  "cbMsg (brBoards (the (board_run [Attach 1 7, Attach 2 7, SendFail 1 0, Attach 3 7] no_boards)) 0) = 0"
proof -
  let ?r = "the (board_run [Attach 1 7, Attach 2 7] no_boards)" and ?r1 = "the (board_run [Attach 1 7, Attach 2 7, SendFail 1 0] no_boards)"
    and ?r2 = "the (board_run [Attach 1 7, Attach 2 7, SendFail 1 0, Attach 3 7] no_boards)"
  have run: "board_run [Attach 1 7, Attach 2 7] no_boards = Some ?r" "board_step (SendFail 1 0) ?r = Some ?r1" "board_run [Attach 3 7] ?r1 = Some ?r2"
    by (simp_all add: no_boards_def no_board_def attach_lock_def join_board_def on_board_def call_def called_def guarded_def leave_board_def Let_def)
  have "brCalls ?r = [Sending 1 0]" "cbMsg (brBoards ?r 0) = 0" "2 \<in> set (cbMembers (brBoards ?r 0))" by code_simp+
  then show ?thesis using joined_task_unseen [OF run(1) _ _ _ _ _ _ run(2) _ run(3), of 2] by (auto simp: relocates_def)
qed

text \<open>
  Two ways a message stays behind: a relocation while the first message is being sent, and one that
  overtakes the end of the last task.
\<close>

lemma early_relocation_leaves_message:
  "brShown (the (board_run [Attach 1 7, SendOk 1 0, Relocate 7, RelocateSend 0, RelocateSet 0 2, SetMessage 1 0 1, Retire 1, Finalize False 1 0] no_boards)) = [2]"
  by code_simp

lemma late_relocation_leaves_message:
  "brShown (the (board_run [Attach 1 7, SendOk 1 0, SetMessage 1 0 1, Relocate 7, Retire 1, Finalize False 1 0, RelocateSend 0, RelocateSet 0 2] no_boards)) = [2]"
  by code_simp

end
