(* ===== verification/Catalog_Tier.thy ===== *)
theory Catalog_Tier
  imports Catalog_Meta Rip_State Go_Path
begin

section \<open>The tier a delivered file is catalogued under\<close>

text \<open>
  \<^verbatim>\<open>bot/caption.go\<close>: from the metadata of a ripped file to the catalog's record.  The size the file
  system reports (0 when it reports none) and the global configuration are arguments.
\<close>

record rip_config =
  cfStorefront :: string
  cfEmbedLrc :: bool
  cfEmbedCover :: bool

text \<open>The metadata of a file without any, \<^verbatim>\<open>AudioMeta{}\<close>.\<close>

definition no_meta :: audio_meta where
  "no_meta = \<lparr>aTrackID = [], aTitle = [], aPerformer = [], aDurationMillis = 0, aAlbumName = [], aReleaseDate = [], aContentRating = [],
     aQuality = [], aCodec = [], aActualFormat = [], aISRC = [], aAlbumID = [], aPlaylistName = [], aPlaylistArtist = [],
     aPlaylistArtworkURL = [], aPlaylistTrackCount = 0\<rparr>"

definition tier_names :: "string list" where
  "tier_names = [''alac'', ''flac'', ''aac'', ''atmos'']"

definition codec_tier :: "string \<Rightarrow> string" where
  "codec_tier c =
     (if contains c ''alac'' then ''alac'' else if contains c ''flac'' then ''flac''
      else if contains c ''atmos'' \<or> contains c ''ec-3'' \<or> contains c ''ec3'' \<or> contains c ''eac3'' then ''atmos''
      else ''aac'')"

definition normalizeFormatTier :: "string \<Rightarrow> audio_meta \<Rightarrow> string" where
  "normalizeFormatTier format meta =
     (let actual = to_lower (trim_space (aActualFormat meta)); f = to_lower (trim_space format)
      in if actual \<in> set tier_names then actual else if f \<in> set tier_names then f else codec_tier (to_lower (aCodec meta)))"

text \<open>\<^verbatim>\<open>ParseInt(TrimSpace(s), 10, 64)\<close>, or 0.\<close>

definition id_or_0 :: "string \<Rightarrow> int" where
  "id_or_0 s = (case parse_int64 (trim_space s) of (i, None) \<Rightarrow> i | (i, Some x) \<Rightarrow> 0)"

definition buildTrackMeta :: "rip_config \<Rightarrow> int \<Rightarrow> string \<Rightarrow> string \<Rightarrow> audio_meta \<Rightarrow> bool \<Rightarrow> track_meta" where
  "buildTrackMeta cfg fileSize path format meta hasMeta =
     (let m = zero_meta\<lparr>
          mAppleTrackID := (if hasMeta then id_or_0 (aTrackID meta) else 0),
          mAppleAlbumID := (if hasMeta then id_or_0 (aAlbumID meta) else 0),
          mISRC := (if hasMeta then aISRC meta else []),
          mTitle := (if hasMeta \<and> aTitle meta \<noteq> [] then aTitle meta else path_base path),
          mArtist := (if hasMeta then aPerformer meta else []),
          mAlbum := (if hasMeta then aAlbumName meta else []),
          mFormat := normalizeFormatTier format meta,
          mStorefront := cfStorefront cfg,
          mDurationSec := (if hasMeta \<and> 0 < aDurationMillis meta then go_div (aDurationMillis meta) 1000 else 0),
          mSizeBytes := fileSize,
          mKind := KindTrack,
          mLyricsSync := (if cfEmbedLrc cfg then ''word'' else ''none''),
          mCoverEmbedded := cfEmbedCover cfg\<rparr>
      in m\<lparr>mVariant := VariantKey m\<rparr>)"

definition albumZipMeta :: "string \<Rightarrow> string \<Rightarrow> string \<Rightarrow> track_meta" where
  "albumZipMeta albumID format displayName =
     (let m = zero_meta\<lparr>mKind := KindAlbumZip, mTitle := displayName, mAlbum := displayName,
          mFormat := normalizeFormatTier format no_meta, mAppleAlbumID := id_or_0 albumID\<rparr>
      in m\<lparr>mVariant := VariantKey m\<rparr>)"

subsection \<open>Which tier\<close>

lemma normalizeFormatTier_range: "normalizeFormatTier format meta \<in> set tier_names"
  by (simp add: normalizeFormatTier_def Let_def codec_tier_def) (simp add: tier_names_def)

text \<open>
  A ripped file is catalogued under the codec probed in it, whatever was asked for: a file that
  fell back to AAC never enters the lossless tier; without a probe the tier is still one of the three.
\<close>

theorem catalogued_tier_is_real:
  "mVariant (buildTrackMeta cfg fileSize path format meta hasMeta) \<in> cacheable_variants \<and>
   (if to_lower (trim_space (aActualFormat meta)) \<in> set tier_names
    then mVariant (buildTrackMeta cfg fileSize path format meta hasMeta) = ''v1|q='' @ QualityTier (aActualFormat meta)
    else True)"
proof -
  let ?f = "normalizeFormatTier format meta"
  have names: "?f \<in> {''alac'', ''flac'', ''aac'', ''atmos''}" using normalizeFormatTier_range [of format meta] by (simp add: tier_names_def)
  have tier: "QualityTier x = (if x = ''alac'' \<or> x = ''flac'' then ''lossless'' else x)" if "x \<in> {''alac'', ''flac'', ''aac'', ''atmos''}" for x
  proof -
    have "QualityTier ''alac'' = ''lossless''" "QualityTier ''flac'' = ''lossless''" "QualityTier ''aac'' = ''aac''" "QualityTier ''atmos'' = ''atmos''"
      by code_simp+
    then show ?thesis using that by auto
  qed
  have variant: "mVariant (buildTrackMeta cfg fileSize path format meta hasMeta) = ''v1|q='' @ QualityTier ?f"
    using names by (auto simp: buildTrackMeta_def Let_def VariantKey_def tier)
  moreover have "''v1|q='' @ QualityTier ?f \<in> cacheable_variants" using names by (auto simp: tier cacheable_variants_def)
  moreover have "QualityTier ?f = QualityTier (aActualFormat meta)" if "to_lower (trim_space (aActualFormat meta)) \<in> set tier_names"
  proof -
    let ?a = "to_lower (trim_space (aActualFormat meta))"
    have f: "?f = ?a" using that by (simp add: normalizeFormatTier_def Let_def)
    then have "?a \<in> {''alac'', ''flac'', ''aac'', ''atmos''}" using names by simp
    then have "QualityTier (aActualFormat meta) = (if ?a = ''alac'' \<or> ?a = ''flac'' then ''lossless'' else ?a)"
      unfolding QualityTier_def Let_def by auto
    then show ?thesis using tier [of ?f] names f by simp
  qed
  ultimately show ?thesis by simp
qed

text \<open>
  An album archive is catalogued under the format that was asked for, whatever is inside: when the
  tracks of a lossless request fell back to AAC, each of them is catalogued as AAC and the archive
  of them as lossless.
\<close>

theorem archive_tier_is_requested:
  assumes "to_lower (trim_space (aActualFormat meta)) = ''aac''"
  shows "mVariant (buildTrackMeta cfg fileSize path ''alac'' meta hasMeta) = ''v1|q=aac'' \<and> mVariant (albumZipMeta albumID ''alac'' name) = ''v1|q=lossless''"
proof -
  have zip: "normalizeFormatTier ''alac'' no_meta = ''alac''" by code_simp
  have tiers: "QualityTier ''aac'' = ''aac''" "QualityTier ''alac'' = ''lossless''" by code_simp+
  show ?thesis using assms by (simp add: buildTrackMeta_def albumZipMeta_def Let_def VariantKey_def normalizeFormatTier_def [of "''alac''" meta] tier_names_def zip tiers)
qed

theorem archive_tier_is_requested_witness:
  "mVariant (albumZipMeta ''7'' ''alac'' ''Album'') = ''v1|q=lossless''"
proof -
  have "to_lower (trim_space (aActualFormat (no_meta\<lparr>aActualFormat := ''aac''\<rparr>))) = ''aac''" by code_simp
  from archive_tier_is_requested [OF this] show ?thesis by blast
qed

end
