(* ===== verification/Bandwidth.thy ===== *)
theory Bandwidth
  imports Go_Strings "HOL-Library.Word"
begin

section \<open>Traffic accounting\<close>

text \<open>
  \<^verbatim>\<open>bot/bandwidth.go\<close>: the kernel's byte counters, which start anew with the container, summed into
  totals that survive it.  The lines of \<^verbatim>\<open>/proc/net/dev\<close> are an argument (\<open>None\<close>: it cannot be opened);
  a counter is a \<^verbatim>\<open>uint64\<close>.
\<close>

type_synonym uint64 = "64 word"

record bw_state =
  bwTotalRX :: uint64
  bwTotalTX :: uint64
  bwLastRX :: uint64
  bwLastTX :: uint64
  bwSince :: int

text \<open>The tracker, with what its file holds; an empty file name means nothing is saved.\<close>

record bw_tracker =
  btFile :: string
  btState :: bw_state
  btSaved :: "bw_state option"

definition no_traffic :: bw_state where
  "no_traffic = \<lparr>bwTotalRX = 0, bwTotalTX = 0, bwLastRX = 0, bwLastTX = 0, bwSince = 0\<rparr>"

text \<open>\<open>saved\<close> is what the file decodes to, \<open>None\<close> when it is missing or broken.\<close>

definition newBandwidthTracker :: "string \<Rightarrow> bw_state option \<Rightarrow> int \<Rightarrow> bw_tracker" where
  "newBandwidthTracker file saved now =
     (let s = (case saved of None \<Rightarrow> no_traffic | Some s \<Rightarrow> s)
      in \<lparr>btFile = file, btState = (if bwSince s = 0 then s\<lparr>bwSince := now\<rparr> else s), btSaved = saved\<rparr>)"

definition counter_field :: "string \<Rightarrow> uint64" where
  "counter_field s = (case parse_uint64 s of (v, None) \<Rightarrow> of_nat v | (v, Some x) \<Rightarrow> 0)"

definition net_line :: "string \<Rightarrow> (uint64 \<times> uint64) option" where
  "net_line line =
     (case cut_byte CHR '':'' line of
        (before, rest, found) \<Rightarrow>
          if \<not> found then None
          else let name = trim_space before; fields = go_fields rest
               in if name = [] \<or> name = ''lo'' then None
                  else if length fields < 9 then None
                  else Some (counter_field (fields ! 0), counter_field (fields ! 8)))"

fun net_lines :: "string list \<Rightarrow> uint64 \<times> uint64 \<times> bool \<Rightarrow> uint64 \<times> uint64 \<times> bool" where
  "net_lines [] acc = acc"
| "net_lines (line # ls) (rx, tx, ok) =
     (case net_line line of None \<Rightarrow> net_lines ls (rx, tx, ok) | Some (r, t) \<Rightarrow> net_lines ls (rx + r, tx + t, True))"

definition readNetDev :: "string list option \<Rightarrow> uint64 \<times> uint64 \<times> bool" where
  "readNetDev dev = (case dev of None \<Rightarrow> (0, 0, False) | Some lines \<Rightarrow> net_lines lines (0, 0, False))"

definition add_traffic :: "uint64 \<Rightarrow> uint64 \<Rightarrow> uint64 \<Rightarrow> uint64" where
  "add_traffic tot prev v = (if prev \<le> v then tot + (v - prev) else tot + v)"

definition saveLocked :: "bool \<Rightarrow> bw_tracker \<Rightarrow> bw_tracker" where
  "saveLocked written bt = (if btFile bt = [] \<or> \<not> written then bt else bt\<lparr>btSaved := Some (btState bt)\<rparr>)"

definition bw_sample :: "string list option \<Rightarrow> bool \<Rightarrow> bw_tracker \<Rightarrow> bw_tracker" where
  "bw_sample dev written bt =
     (case readNetDev dev of
        (rx, tx, ok) \<Rightarrow>
          if \<not> ok then bt
          else let s = btState bt
               in saveLocked written (bt\<lparr>btState := s\<lparr>bwTotalRX := add_traffic (bwTotalRX s) (bwLastRX s) rx,
                                                      bwTotalTX := add_traffic (bwTotalTX s) (bwLastTX s) tx,
                                                      bwLastRX := rx, bwLastTX := tx\<rparr>\<rparr>))"

definition bw_totals :: "string list option \<Rightarrow> bool \<Rightarrow> bw_tracker \<Rightarrow> (uint64 \<times> uint64 \<times> int) \<times> bw_tracker" where
  "bw_totals dev written bt =
     (let bt1 = bw_sample dev written bt in ((bwTotalRX (btState bt1), bwTotalTX (btState bt1), bwSince (btState bt1)), bt1))"

subsection \<open>What the total is\<close>

text \<open>
  A run of the program across containers: in each, the counter starts from 0 and is sampled some
  times; \<open>reads\<close> are the samples of the received bytes, as numbers.
\<close>

fun fold_counter :: "uint64 \<times> uint64 \<Rightarrow> nat list \<Rightarrow> uint64 \<times> uint64" where
  "fold_counter st [] = st"
| "fold_counter (tot, prev) (v # vs) = fold_counter (add_traffic tot prev (of_nat v), of_nat v) vs"

definition boot_reads :: "nat list \<Rightarrow> bool" where
  "boot_reads vs = (vs \<noteq> [] \<and> sorted vs \<and> list_all (\<lambda>v. v < 2 ^ 64) vs)"

text \<open>A restart is seen when the first sample of a container is below the last one of the container before.\<close>

fun seen_restarts :: "nat \<Rightarrow> nat list list \<Rightarrow> bool" where
  "seen_restarts prev [] = True"
| "seen_restarts prev (vs # boots) = (hd vs < prev \<and> seen_restarts (last vs) boots)"

lemma fold_counter_append: "fold_counter st (xs @ ys) = fold_counter (fold_counter st xs) ys"
  by (induction st xs rule: fold_counter.induct) auto

lemma word_small: "a < 2 ^ 64 \<Longrightarrow> b < 2 ^ 64 \<Longrightarrow> (of_nat a :: uint64) \<le> of_nat b \<longleftrightarrow> a \<le> b"
  by (simp add: word_le_nat_alt unat_of_nat take_bit_eq_mod)

lemma growing_counter:
  assumes "sorted (u # vs)" "list_all (\<lambda>v. v < 2 ^ 64) (u # vs)"
  shows "fold_counter (tot, of_nat u) vs = (tot + of_nat (last (u # vs)) - of_nat u, of_nat (last (u # vs)))"
  using assms
proof (induction vs arbitrary: u tot)
  case (Cons v vs)
  have "add_traffic tot (of_nat u) (of_nat v) = tot + (of_nat v - of_nat u)"
    using Cons.prems word_small [of u v] by (simp add: add_traffic_def)
  then show ?case using Cons.IH [of v "tot + (of_nat v - of_nat u)"] Cons.prems by simp
qed simp

lemma boot_counter:
  assumes "boot_reads vs" "hd vs < prev" "prev < 2 ^ 64"
  shows "fold_counter (tot, of_nat prev) vs = (tot + of_nat (last vs), of_nat (last vs))"
proof -
  obtain v us where vs: "vs = v # us" using assms(1) by (cases vs) (auto simp: boot_reads_def)
  have "\<not> (of_nat prev :: uint64) \<le> of_nat v" using assms word_small [of prev v] by (simp add: vs boot_reads_def)
  then have "fold_counter (tot, of_nat prev) vs = fold_counter (tot + of_nat v, of_nat v) us" by (simp add: vs add_traffic_def)
  then show ?thesis using growing_counter [of v us "tot + of_nat v"] assms(1) by (simp add: vs boot_reads_def)
qed

lemma boots_counter:
  "list_all boot_reads boots \<Longrightarrow> seen_restarts prev boots \<Longrightarrow> prev < 2 ^ 64 \<Longrightarrow>
   fst (fold_counter (tot, of_nat prev) (concat boots)) = tot + of_nat (sum_list (map last boots))"
proof (induction boots arbitrary: prev tot)
  case (Cons vs boots)
  have vs: "boot_reads vs" "hd vs < prev" using Cons.prems by simp_all
  have "last vs < 2 ^ 64" using vs(1) by (auto simp: boot_reads_def list_all_iff)
  with Cons.IH [of "last vs" "tot + of_nat (last vs)"] Cons.prems(1,2) boot_counter [OF vs Cons.prems(3)]
  show ?case by (simp add: fold_counter_append add.assoc)
qed simp

text \<open>
  Across any number of containers the total is the sum of what each counted up to its last
  sample, modulo \<open>2 ^ 64\<close>, as long as every restart shows as a lower counter.
\<close>

theorem traffic_total_exact:
  assumes "list_all boot_reads (vs # boots)" "seen_restarts (last vs) boots"
  shows "fst (fold_counter (0, 0) (concat (vs # boots))) = of_nat (sum_list (map last (vs # boots)))"
proof -
  obtain v us where v: "vs = v # us" using assms(1) by (cases vs) (auto simp: boot_reads_def)
  have first: "fold_counter (0, 0) vs = (of_nat (last vs), of_nat (last vs))"
    using growing_counter [of v us "of_nat v"] assms(1) by (simp add: v boot_reads_def add_traffic_def)
  have "last vs < 2 ^ 64" using assms(1) by (auto simp: boot_reads_def list_all_iff)
  from boots_counter [OF _ assms(2) this, of "of_nat (last vs)"] assms(1) first show ?thesis
    by (simp add: fold_counter_append)
qed

theorem traffic_total_exact_witness: "fst (fold_counter (0, 0) [5, 9, 2, 7, 1]) = 17"
  using traffic_total_exact [of "[5, 9]" "[[2, 7], [1]]"] by (simp add: boot_reads_def)

text \<open>
  A restart whose first sample has already passed the last one before it is not seen: all that
  the counter had reached before is lost, not one minute of it.
\<close>

theorem unseen_restart_loses:
  assumes "boot_reads us" "boot_reads vs" "last us \<le> hd vs"
  shows "fst (fold_counter (0, 0) (us @ vs)) = of_nat (last vs)"
proof -
  obtain u us' where u: "us = u # us'" using assms(1) by (cases us) (auto simp: boot_reads_def)
  have "sorted (us @ vs)"
  proof -
    have "\<forall>x \<in> set us. \<forall>y \<in> set vs. x \<le> y"
    proof (intro ballI)
      fix x y assume xy: "x \<in> set us" "y \<in> set vs"
      have "sorted us" using assms(1) by (simp add: boot_reads_def)
      then have "x \<le> last us" using xy(1) by (induction us) (auto simp: split: if_splits)
      moreover have "hd vs \<le> y" using xy(2) assms(2) by (cases vs) (auto simp: boot_reads_def)
      ultimately show "x \<le> y" using assms(3) by simp
    qed
    then show ?thesis using assms(1,2) by (simp add: boot_reads_def sorted_append)
  qed
  then have "fold_counter (of_nat u, of_nat u) (us' @ vs) = (of_nat u + of_nat (last (u # us' @ vs)) - of_nat u, of_nat (last (u # us' @ vs)))"
    using assms(1,2) by (intro growing_counter) (simp_all add: u boot_reads_def)
  moreover have "vs \<noteq> []" using assms(2) by (simp add: boot_reads_def)
  ultimately show ?thesis by (simp add: u add_traffic_def)
qed

theorem unseen_restart_loses_witness: "fst (fold_counter (0, 0) ([5, 9] @ [20, 21])) = 21"
  using unseen_restart_loses [of "[5, 9]" "[20, 21]"] by (simp add: boot_reads_def)

text \<open>One sample of a tracker is one fold step of either counter.\<close>

lemma sample_folds:
  "readNetDev dev = (rx, tx, True) \<Longrightarrow>
   (bwTotalRX (btState (bw_sample dev w bt)), bwLastRX (btState (bw_sample dev w bt))) =
     fold_counter (bwTotalRX (btState bt), bwLastRX (btState bt)) [unat rx]"
  by (simp add: bw_sample_def saveLocked_def Let_def)

end
