(* ===== verification/Quality.thy ===== *)
theory Quality
  imports Go_Float "HOL-Library.Word" "HOL-Library.Multiset"
begin

section \<open>The quality probe of /check\<close>

text \<open>
  \<^verbatim>\<open>bot/quality.go\<close>: which audio variants a manifest advertises, what the first segment of a
  lossless one really contains, and the labels made of them.  Fetching, base64 and JSON decoding
  are arguments (\<open>entries\<close> are the values of the decoded map, in the order Go ranges over it).
  Sorting is any function that sorts, since Go's is not stable.
\<close>

record quality =
  qlFormat :: string
  qlChannels :: int
  qlBitRate :: int
  qlBitDepth :: int
  qlSampleRate :: int
  qlIsAtmos :: bool
  qlFirstSeg :: string

record quality_report =
  qrStereo :: "quality option"
  qrAtmos :: "quality option"
  qrReal :: "quality option"

record raw_quality =
  rqFirstSeg :: string
  rqFormatID :: string
  rqChannels :: string
  rqBitRate :: int
  rqSampleRate :: int
  rqBitDepth :: int
  rqIsAtmos :: bool

subsection \<open>The manifest\<close>

definition formatOrder :: "string list" where
  "formatOrder = [''ec+3'', ''alac'', ''aac '', ''aach'']"

definition formatRank :: "string \<Rightarrow> nat" where
  "formatRank f = (case find_index (\<lambda>x. x = f) formatOrder of Some i \<Rightarrow> i | None \<Rightarrow> length formatOrder)"

definition session_prefix :: string where
  "session_prefix = ''#EXT-X-SESSION-DATA:DATA-ID='' @ [CHR 0x22] @ ''com.apple.hls.audioAssetMetadata'' @ [CHR 0x22]"

definition trim_quotes :: "string \<Rightarrow> string" where
  "trim_quotes s = rev (dropWhile (\<lambda>c. c = CHR 0x22) (rev (dropWhile (\<lambda>c. c = CHR 0x22) s)))"

text \<open>The value of the first session-data line, empty when there is none.\<close>

fun session_value :: "string list \<Rightarrow> string" where
  "session_value [] = []"
| "session_value (line # ls) =
     (if \<not> has_prefix line session_prefix then session_value ls
      else case index_of line ''VALUE='' of
             None \<Rightarrow> []
           | Some i \<Rightarrow> trim_quotes (trim_space (drop (i + 6) line)))"

definition to_quality :: "raw_quality \<Rightarrow> quality" where
  "to_quality r =
     \<lparr>qlFormat = rqFormatID r, qlChannels = fst (parse_int64 (rqChannels r)), qlBitRate = rqBitRate r, qlBitDepth = rqBitDepth r,
      qlSampleRate = rqSampleRate r, qlIsAtmos = rqIsAtmos r, qlFirstSeg = rqFirstSeg r\<rparr>"

definition better_quality :: "quality \<Rightarrow> quality \<Rightarrow> bool" where
  "better_quality a b =
     (if formatRank (qlFormat a) \<noteq> formatRank (qlFormat b) then formatRank (qlFormat a) < formatRank (qlFormat b)
      else if qlBitDepth a \<noteq> qlBitDepth b then qlBitDepth b < qlBitDepth a
      else if qlSampleRate a \<noteq> qlSampleRate b then qlSampleRate b < qlSampleRate a
      else qlBitRate b < qlBitRate a)"

fun pick_variants :: "quality list \<Rightarrow> quality_report \<Rightarrow> quality_report" where
  "pick_variants [] rep = rep"
| "pick_variants (q # qs) rep =
     pick_variants qs
       (if 2 < qlChannels q then (if qrAtmos rep = None then rep\<lparr>qrAtmos := Some q\<rparr> else rep)
        else if qrStereo rep = None then rep\<lparr>qrStereo := Some q\<rparr> else rep)"

definition no_variants :: quality_report where
  "no_variants = \<lparr>qrStereo = None, qrAtmos = None, qrReal = None\<rparr>"

text \<open>\<open>real url\<close> is what \<^verbatim>\<open>probeRealAlac\<close> answers for a segment's address.\<close>

definition probeTrackQuality ::
  "(quality list \<Rightarrow> quality list) \<Rightarrow> (string \<Rightarrow> string option) \<Rightarrow> (string \<Rightarrow> raw_quality list option) \<Rightarrow> (string \<Rightarrow> quality option) \<Rightarrow> string \<Rightarrow> quality_report option" where
  "probeTrackQuality sorted_list get entries real manifestURL =
     (if manifestURL = [] then None
      else case get manifestURL of
             None \<Rightarrow> None
           | Some body \<Rightarrow>
               (let encoded = session_value (split_byte (CHR 0x0A) body)
                in if encoded = [] then None
                   else case entries encoded of
                          None \<Rightarrow> None
                        | Some rs \<Rightarrow>
                            if rs = [] then None
                            else let rep = pick_variants (sorted_list (map to_quality rs)) no_variants
                                 in case qrStereo rep of
                                      None \<Rightarrow> Some rep
                                    | Some q \<Rightarrow>
                                        if qlFormat q = ''alac'' \<and> qlFirstSeg q \<noteq> [] then
                                          (let base = (case last_index_of manifestURL ''/'' of Some k \<Rightarrow> take k manifestURL | None \<Rightarrow> manifestURL)
                                           in Some (rep\<lparr>qrReal := real (base @ ''/'' @ qlFirstSeg q)\<rparr>))
                                        else Some rep))"

subsection \<open>The segment\<close>

text \<open>
  \<^verbatim>\<open>probeRealAlac\<close> on the bytes fetched.  Reading outside of them, which would be a panic, is the
  outcome \<open>Crashed\<close>.
\<close>

type_synonym byte = "8 word"

datatype probed = NotAlac | Alac quality | Crashed

definition byte_at :: "byte list \<Rightarrow> nat \<Rightarrow> nat option" where
  "byte_at b i = (if i < length b then Some (unat (b ! i)) else None)"

definition be_uint32 :: "byte list \<Rightarrow> nat \<Rightarrow> nat option" where
  "be_uint32 b p =
     (if p + 4 \<le> length b
      then Some (unat (b ! p) * 2 ^ 24 + unat (b ! (p + 1)) * 2 ^ 16 + unat (b ! (p + 2)) * 2 ^ 8 + unat (b ! (p + 3)))
      else None)"

definition atom :: "byte list \<Rightarrow> nat \<Rightarrow> nat option" where
  "atom b p = (if length b < p + 4 then Some 0 else be_uint32 b p)"

definition alac_fields :: "byte list \<Rightarrow> nat \<Rightarrow> probed" where
  "alac_fields b pos =
     (if length b < pos + 8 + 24 + 4 then NotAlac
      else case (byte_at b (pos + 8 + 13), byte_at b (pos + 8 + 9), be_uint32 b (pos + 8 + 24)) of
             (Some ch, Some depth, Some rate) \<Rightarrow>
               Alac \<lparr>qlFormat = ''alac'', qlChannels = int ch, qlBitRate = 0, qlBitDepth = int depth, qlSampleRate = int rate,
                     qlIsAtmos = False, qlFirstSeg = []\<rparr>
           | _ \<Rightarrow> Crashed)"

fun alac_walk :: "nat \<Rightarrow> byte list \<Rightarrow> nat \<Rightarrow> probed" where
  "alac_walk 0 b pos = NotAlac"
| "alac_walk (Suc loops) b pos =
     (if length b < pos + 8 then NotAlac
      else case (atom b pos, atom b (pos + 4)) of
             (Some n, Some ty) \<Rightarrow>
               if ty \<in> {0x6D6F6F76, 0x7472616B, 0x6D646961, 0x6D696E66, 0x7374626C} then alac_walk loops b (pos + 8)
               else if ty = 0x73747364 then alac_walk loops b (pos + 16)
               else if ty = 0x656E6361 then alac_fields b (pos + 36)
               else if ty = 0x616C6163 then alac_fields b pos
               else if n = 0 then NotAlac
               else alac_walk loops b (pos + n)
           | _ \<Rightarrow> Crashed)"

definition probeRealAlac :: "byte list option \<Rightarrow> probed" where
  "probeRealAlac fetched =
     (case fetched of
        None \<Rightarrow> NotAlac
      | Some b \<Rightarrow>
          if length b < 16 then NotAlac
          else if atom b 4 \<noteq> Some 0x66747970 \<or> atom b 8 \<noteq> Some 0x69736F35 then NotAlac
          else alac_walk 100 b 0)"

subsection \<open>Labels\<close>

definition formatKHz :: "int \<Rightarrow> string" where
  "formatKHz hz =
     (if hz \<le> 0 then [] else if go_mod hz 1000 = 0 then itoa (go_div hz 1000) else format_f1 (khz_double (nat hz)))"

definition qualityLabel :: "quality option \<Rightarrow> string" where
  "qualityLabel oq =
     (case oq of
        None \<Rightarrow> []
      | Some q \<Rightarrow>
          if qlFormat q = ''alac'' then
            (if 0 < qlBitDepth q \<and> 0 < qlSampleRate q
             then ''ALAC '' @ itoa (qlBitDepth q) @ ''-bit/'' @ formatKHz (qlSampleRate q) @ '' kHz''
             else ''ALAC Lossless'')
          else if qlIsAtmos q \<or> qlFormat q = ''ec+3'' then
            (if 0 < qlBitRate q then ''Atmos '' @ itoa (go_div (qlBitRate q) 1000) @ '' kbps'' else ''Dolby Atmos'')
          else if has_prefix (qlFormat q) ''aac'' then
            (if 0 < qlBitRate q then ''AAC '' @ itoa (go_div (qlBitRate q) 1000) @ '' kbps'' else ''AAC'')
          else if 0 < qlBitRate q then to_upper (trim_space (qlFormat q)) @ '' '' @ itoa (go_div (qlBitRate q) 1000) @ '' kbps''
          else to_upper (trim_space (qlFormat q)))"

definition inflated :: "quality option \<Rightarrow> quality option \<Rightarrow> bool" where
  "inflated adv real =
     (case (adv, real) of
        (Some a, Some r) \<Rightarrow> qlBitDepth r < qlBitDepth a \<or> qlSampleRate r < qlSampleRate a
      | _ \<Rightarrow> False)"

definition em_dash :: string where "em_dash = [CHR 0xE2, CHR 0x80, CHR 0x94]"
definition warn_mark :: string where "warn_mark = [CHR '' '', CHR 0xE2, CHR 0x9A, CHR 0xA0, CHR 0xEF, CHR 0xB8, CHR 0x8F]"
definition dot_sep :: string where "dot_sep = [CHR '' '', CHR 0xC2, CHR 0xB7, CHR '' '']"

definition shown_quality :: "quality_report \<Rightarrow> quality option" where
  "shown_quality rep = (case qrReal rep of Some r \<Rightarrow> Some (r\<lparr>qlFormat := ''alac''\<rparr>) | None \<Rightarrow> qrStereo rep)"

definition qualityCell :: "quality_report option \<Rightarrow> string" where
  "qualityCell orep =
     (case orep of
        None \<Rightarrow> em_dash
      | Some rep \<Rightarrow>
          (let parts = (if qrStereo rep = None then []
                        else [qualityLabel (shown_quality rep) @ (if inflated (qrStereo rep) (qrReal rep) then warn_mark else [])]) @
                       (if qrAtmos rep = None then [] else [''Atmos''])
           in if parts = [] then em_dash else join_with dot_sep parts))"

definition replaces_best :: "quality \<Rightarrow> quality \<Rightarrow> bool" where
  "replaces_best q best =
     (formatRank (qlFormat q) < formatRank (qlFormat best) \<or> qlBitDepth best < qlBitDepth q \<or>
      qlBitDepth q = qlBitDepth best \<and> qlSampleRate best < qlSampleRate q)"

fun best_quality :: "quality_report option list \<Rightarrow> quality option \<Rightarrow> quality option" where
  "best_quality [] best = best"
| "best_quality (None # reps) best = best_quality reps best"
| "best_quality (Some rep # reps) best =
     (case shown_quality rep of
        None \<Rightarrow> best_quality reps best
      | Some q \<Rightarrow> best_quality reps (case best of None \<Rightarrow> Some q | Some old \<Rightarrow> if replaces_best q old then Some q else Some old))"

definition some_report :: "(quality_report \<Rightarrow> bool) \<Rightarrow> quality_report option list \<Rightarrow> bool" where
  "some_report p reps = list_ex (\<lambda>orep. case orep of None \<Rightarrow> False | Some rep \<Rightarrow> p rep) reps"

definition bestQualitySummary :: "quality_report option list \<Rightarrow> string" where
  "bestQualitySummary reps =
     (let best = best_quality reps None;
          hasAtmos = some_report (\<lambda>rep. qrAtmos rep \<noteq> None) reps;
          anyInflated = some_report (\<lambda>rep. inflated (qrStereo rep) (qrReal rep)) reps
      in if best = None \<and> \<not> hasAtmos then []
         else join_with dot_sep ((if best = None then [] else [qualityLabel best]) @ (if hasAtmos then [''Dolby Atmos''] else [])) @
              (if anyInflated then warn_mark @ '' advertised hi-res inflated on some tracks'' else []))"

subsection \<open>The probe stays inside the segment\<close>

lemma be_uint32_bound: "be_uint32 b p = Some n \<Longrightarrow> n < 2 ^ 32"
proof -
  have byte: "unat (x :: byte) < 256" for x using unsigned_less [of x, where 'a = nat] by simp
  assume "be_uint32 b p = Some n"
  then show ?thesis using byte [of "b ! p"] byte [of "b ! (p + 1)"] byte [of "b ! (p + 2)"] byte [of "b ! (p + 3)"]
    by (simp add: be_uint32_def split: if_splits)
qed

lemma atom_defined: "atom b p \<noteq> None"
  by (simp add: atom_def be_uint32_def)

definition sound_probe :: "probed \<Rightarrow> bool" where
  "sound_probe r =
     (case r of
        Crashed \<Rightarrow> False
      | NotAlac \<Rightarrow> True
      | Alac q \<Rightarrow> qlFormat q = ''alac'' \<and> 0 \<le> qlChannels q \<and> qlChannels q < 256 \<and> 0 \<le> qlBitDepth q \<and> qlBitDepth q < 256 \<and>
                  0 \<le> qlSampleRate q \<and> qlSampleRate q < 2 ^ 32)"

lemma alac_fields_sound: "sound_probe (alac_fields b pos)"
proof (cases "length b < pos + 8 + 24 + 4")
  case False
  then obtain ch depth rate where r: "byte_at b (pos + 8 + 13) = Some ch" "byte_at b (pos + 8 + 9) = Some depth" "be_uint32 b (pos + 8 + 24) = Some rate"
    by (simp add: byte_at_def be_uint32_def)
  moreover have "ch < 256" "depth < 256"
  proof -
    have byte: "unat (x :: byte) < 256" for x using unsigned_less [of x, where 'a = nat] by simp
    show "ch < 256" "depth < 256" using r(1,2) byte by (auto simp: byte_at_def split: if_splits)
  qed
  ultimately show ?thesis using False be_uint32_bound [OF r(3)] by (simp add: alac_fields_def sound_probe_def)
qed (simp add: alac_fields_def sound_probe_def)

lemma alac_walk_sound: "sound_probe (alac_walk k b pos)"
proof (induction k arbitrary: pos)
  case (Suc k)
  obtain n kind where "atom b pos = Some n" "atom b (pos + 4) = Some kind" using atom_defined by fastforce
  then show ?case using Suc.IH alac_fields_sound by (simp add: sound_probe_def)
qed (simp add: sound_probe_def)

text \<open>
  C33: Whatever bytes a server sends for a segment, the probe reads none outside of them, ends within
  a hundred atoms, and what it reports fits the fields it was read from.
\<close>

theorem probe_stays_in_bounds: "sound_probe (probeRealAlac fetched)"
proof -
  have "sound_probe NotAlac" by (simp add: sound_probe_def)
  then show ?thesis using alac_walk_sound by (auto simp: probeRealAlac_def split: option.splits)
qed

text \<open>Segments as the format lays them out.\<close>

definition be_bytes :: "nat \<Rightarrow> byte list" where
  "be_bytes n = [of_nat (n div 2 ^ 24), of_nat (n div 2 ^ 16), of_nat (n div 2 ^ 8), of_nat n]"

lemma be_bytes_length [simp]: "length (be_bytes n) = 4"
  by (simp add: be_bytes_def)

lemma four_bytes: "n = a * 256 + r0 \<Longrightarrow> a = b * 256 + r1 \<Longrightarrow> b = c * 256 + r2 \<Longrightarrow> c * 2 ^ 24 + r2 * 2 ^ 16 + r1 * 2 ^ 8 + r0 = (n :: nat)"
  by simp

lemma be_bytes_value:
  assumes "n < 2 ^ 32"
  shows "be_uint32 (xs @ be_bytes n @ ys) (length xs) = Some n"
proof -
  have v: "unat (of_nat m :: byte) = m mod 256" for m by (simp add: unat_of_nat)
  have idx: "(xs @ be_bytes n @ ys) ! (length xs + k) = be_bytes n ! k" if "k < 4" for k
    using that by (simp add: nth_append)
  have hi: "n div 2 ^ 24 mod 256 = n div 2 ^ 24" using assms by (simp add: less_mult_imp_div_less)
  have "be_uint32 (xs @ be_bytes n @ ys) (length xs) =
      Some (n div 2 ^ 24 mod 256 * 2 ^ 24 + n div 2 ^ 16 mod 256 * 2 ^ 16 + n div 2 ^ 8 mod 256 * 2 ^ 8 + n mod 256)"
    using idx [of 0] idx [of 1] idx [of 2] idx [of 3] by (simp add: be_uint32_def be_bytes_def v numeral_2_eq_2 numeral_3_eq_3)
  moreover have "n div 2 ^ 24 mod 256 * 2 ^ 24 + n div 2 ^ 16 mod 256 * 2 ^ 16 + n div 2 ^ 8 mod 256 * 2 ^ 8 + n mod 256 = n"
  proof -
    have parts: "n div 2 ^ 8 = n div 256" "n div 2 ^ 16 = n div 256 div 256" "n div 2 ^ 24 = n div 256 div 256 div 256"
      by (simp_all add: div_mult2_eq [symmetric])
    show ?thesis unfolding hi unfolding parts by (rule four_bytes [where a = "n div 256" and b = "n div 256 div 256"]) simp_all
  qed
  ultimately show ?thesis by (simp only:)
qed

lemma atom_at: "n < 2 ^ 32 \<Longrightarrow> atom (xs @ be_bytes n @ ys) (length xs) = Some n"
  by (simp add: atom_def be_bytes_value)

lemma atom_after: "n < 2 ^ 32 \<Longrightarrow> p = length xs + 4 \<Longrightarrow> length ms = 4 \<Longrightarrow> atom (xs @ ms @ be_bytes n @ ys) p = Some n"
  using atom_at [of n "xs @ ms" ys] by simp

text \<open>
  Before the sample description: boxes the probe enters (type and size field) and boxes it skips
  (type and contents).
\<close>

datatype mp4_box = Enter nat nat | Skip nat "byte list"

definition entered_types :: "nat set" where
  "entered_types = {0x6D6F6F76, 0x7472616B, 0x6D646961, 0x6D696E66, 0x7374626C}"

fun box_bytes :: "mp4_box \<Rightarrow> byte list" where
  "box_bytes (Enter ty n) = be_bytes n @ be_bytes ty"
| "box_bytes (Skip ty inner) = be_bytes (8 + length inner) @ be_bytes ty @ inner"

fun box_ok :: "mp4_box \<Rightarrow> bool" where
  "box_ok (Enter ty n) = (ty \<in> entered_types \<and> n < 2 ^ 32)"
| "box_ok (Skip ty inner) = (ty \<notin> entered_types \<union> {0x73747364, 0x656E6361, 0x616C6163} \<and> ty < 2 ^ 32 \<and> 8 + length inner < 2 ^ 32)"

lemma walk_box:
  assumes "box_ok x"
  shows "alac_walk (Suc k) (xs @ box_bytes x @ ys) (length xs) = alac_walk k (xs @ box_bytes x @ ys) (length xs + length (box_bytes x))"
proof (cases x)
  case (Enter ty n)
  then have "ty < 2 ^ 32" "n < 2 ^ 32" "ty \<in> entered_types" using assms by (auto simp: entered_types_def)
  then show ?thesis using atom_at [of n xs "be_bytes ty @ ys"] atom_after [of ty "length xs + 4" xs "be_bytes n" ys] Enter
    by (simp add: entered_types_def)
next
  case (Skip ty inner)
  then have "ty < 2 ^ 32" "8 + length inner < 2 ^ 32" "ty \<notin> entered_types \<union> {0x73747364, 0x656E6361, 0x616C6163}" using assms by auto
  then show ?thesis using atom_at [of "8 + length inner" xs "be_bytes ty @ inner @ ys"] atom_after [of ty "length xs + 4" xs "be_bytes (8 + length inner)" "inner @ ys"] Skip
    by (simp add: entered_types_def add.assoc)
qed

lemma walk_boxes:
  "list_all box_ok bs \<Longrightarrow> length bs \<le> k \<Longrightarrow>
   alac_walk k (xs @ concat (map box_bytes bs) @ ys) (length xs) =
   alac_walk (k - length bs) (xs @ concat (map box_bytes bs) @ ys) (length xs + length (concat (map box_bytes bs)))"
proof (induction bs arbitrary: xs k)
  case (Cons x bs)
  obtain k' where k: "k = Suc k'" using Cons.prems(2) by (cases k) auto
  have "alac_walk k (xs @ box_bytes x @ concat (map box_bytes bs) @ ys) (length xs) =
      alac_walk k' ((xs @ box_bytes x) @ concat (map box_bytes bs) @ ys) (length (xs @ box_bytes x))"
    using walk_box [of x k' xs "concat (map box_bytes bs) @ ys"] Cons.prems(1) k by simp
  also have "\<dots> = alac_walk (k' - length bs) ((xs @ box_bytes x) @ concat (map box_bytes bs) @ ys) (length (xs @ box_bytes x) + length (concat (map box_bytes bs)))"
    using Cons k by (intro Cons.IH) auto
  finally show ?case using k by (simp add: add.assoc)
qed simp

text \<open>The sample description, the encrypted-audio entry and the \<^verbatim>\<open>alac\<close> box, with the fields the probe reads among others.\<close>

definition alac_entry :: "byte list \<Rightarrow> byte \<Rightarrow> byte list \<Rightarrow> byte \<Rightarrow> byte list \<Rightarrow> nat \<Rightarrow> byte list" where
  "alac_entry pad1 depth pad2 ch pad3 rate = be_bytes 36 @ be_bytes 0x616C6163 @ pad1 @ [depth] @ pad2 @ [ch] @ pad3 @ be_bytes rate"

definition sample_description :: "byte list \<Rightarrow> byte list \<Rightarrow> byte list" where
  "sample_description pad entry = be_bytes (52 + length entry) @ be_bytes 0x73747364 @ be_bytes 0 @ be_bytes 1 @
     be_bytes (36 + length entry) @ be_bytes 0x656E6361 @ pad @ entry"

lemma entry_fields:
  assumes "length pad1 = 9" "length pad2 = 3" "length pad3 = 10" "rate < 2 ^ 32"
  shows "alac_fields (xs @ alac_entry pad1 depth pad2 ch pad3 rate @ ys) (length xs) =
    Alac \<lparr>qlFormat = ''alac'', qlChannels = int (unat ch), qlBitRate = 0, qlBitDepth = int (unat depth), qlSampleRate = int rate,
          qlIsAtmos = False, qlFirstSeg = []\<rparr>"
proof -
  let ?b = "xs @ alac_entry pad1 depth pad2 ch pad3 rate @ ys"
  have "?b = (xs @ be_bytes 36 @ be_bytes 0x616C6163 @ pad1) @ depth # pad2 @ [ch] @ pad3 @ be_bytes rate @ ys"
    by (simp add: alac_entry_def)
  then have "?b ! length (xs @ be_bytes 36 @ be_bytes 0x616C6163 @ pad1) = depth" by (simp only: nth_append_length)
  then have depth: "byte_at ?b (length xs + 8 + 9) = Some (unat depth)" using assms(1) by (simp add: byte_at_def alac_entry_def add.assoc)
  have "?b = (xs @ be_bytes 36 @ be_bytes 0x616C6163 @ pad1 @ [depth] @ pad2) @ ch # pad3 @ be_bytes rate @ ys"
    by (simp add: alac_entry_def)
  then have "?b ! length (xs @ be_bytes 36 @ be_bytes 0x616C6163 @ pad1 @ [depth] @ pad2) = ch" by (simp only: nth_append_length)
  then have ch: "byte_at ?b (length xs + 8 + 13) = Some (unat ch)" using assms(1,2) by (simp add: byte_at_def alac_entry_def add.assoc)
  have "be_uint32 ((xs @ be_bytes 36 @ be_bytes 0x616C6163 @ pad1 @ [depth] @ pad2 @ [ch] @ pad3) @ be_bytes rate @ ys)
      (length (xs @ be_bytes 36 @ be_bytes 0x616C6163 @ pad1 @ [depth] @ pad2 @ [ch] @ pad3)) = Some rate"
    by (rule be_bytes_value [OF assms(4)])
  then have rate: "be_uint32 ?b (length xs + 8 + 24) = Some rate" using assms(1-3) by (simp add: alac_entry_def add.assoc)
  have "\<not> length ?b < length xs + 8 + 24 + 4" using assms(1-3) by (simp add: alac_entry_def)
  then show ?thesis unfolding alac_fields_def using depth ch rate by simp
qed

lemma walk_description:
  assumes "length pad = 28" "length entry < 2 ^ 31"
  shows "alac_walk (Suc (Suc k)) (xs @ sample_description pad entry) (length xs) = alac_fields (xs @ sample_description pad entry) (length xs + 52)"
proof -
  let ?b = "xs @ sample_description pad entry"
  have "atom ?b (length xs) = Some (52 + length entry)" "atom ?b (length xs + 4) = Some 0x73747364"
    using atom_at [of "52 + length entry" xs] atom_after [of "0x73747364" "length xs + 4" xs "be_bytes (52 + length entry)"] assms(2)
    by (simp_all add: sample_description_def)
  moreover have "atom ?b (length xs + 16) = Some (36 + length entry)"
    using atom_at [of "36 + length entry" "xs @ be_bytes (52 + length entry) @ be_bytes 0x73747364 @ be_bytes 0 @ be_bytes 1" "be_bytes 0x656E6361 @ pad @ entry"] assms(2)
    by (simp add: sample_description_def)
  moreover have "atom ?b (length xs + 20) = Some 0x656E6361"
    using atom_after [of "0x656E6361" "length xs + 20" "xs @ be_bytes (52 + length entry) @ be_bytes 0x73747364 @ be_bytes 0 @ be_bytes 1" "be_bytes (36 + length entry)" "pad @ entry"]
    by (simp add: sample_description_def)
  moreover have "\<not> length ?b < length xs + 24" by (simp add: sample_description_def)
  ultimately show ?thesis by (simp add: add.assoc)
qed



subsection \<open>The summary of an album\<close>

lemma best_quality_max:
  assumes "\<forall>rep q. Some rep \<in> set reps \<and> shown_quality rep = Some q \<longrightarrow> qlFormat q = f" "\<forall>q. best = Some q \<longrightarrow> qlFormat q = f"
    and "best_quality reps best = Some peak"
  shows "qlFormat peak = f \<and> (\<forall>q. best = Some q \<longrightarrow> \<not> replaces_best q peak) \<and> (\<forall>rep q. Some rep \<in> set reps \<and> shown_quality rep = Some q \<longrightarrow> \<not> replaces_best q peak) \<and>
    (best = Some peak \<or> (\<exists>rep. Some rep \<in> set reps \<and> shown_quality rep = Some peak))"
  using assms
proof (induction reps best rule: best_quality.induct)
  case (3 rep reps best)
  show ?case
  proof (cases "shown_quality rep")
    case None
    have pre: "\<forall>rep q. Some rep \<in> set reps \<and> shown_quality rep = Some q \<longrightarrow> qlFormat q = f" using 3(3) by auto
    have eq: "best_quality reps best = Some peak" using 3(5) None by simp
    note ih = 3(1) [OF None pre 3(4) eq]
    have seen: "Some rep' \<in> set (Some rep # reps) \<and> shown_quality rep' = Some q \<longleftrightarrow> Some rep' \<in> set reps \<and> shown_quality rep' = Some q" for rep' q
      using None by auto
    show ?thesis unfolding seen using ih by blast
  next
    case (Some q)
    define best1 where "best1 = (case best of None \<Rightarrow> Some q | Some old \<Rightarrow> if replaces_best q old then Some q else Some old)"
    have q: "qlFormat q = f" using 3(3) Some by auto
    have "\<forall>q'. best1 = Some q' \<longrightarrow> qlFormat q' = f" using q 3(4) by (auto simp: best1_def split: option.splits)
    moreover have "best_quality reps best1 = Some peak" using 3(5) Some by (simp add: best1_def)
    ultimately have ih: "qlFormat peak = f \<and> (\<forall>q. best1 = Some q \<longrightarrow> \<not> replaces_best q peak) \<and>
        (\<forall>rep q. Some rep \<in> set reps \<and> shown_quality rep = Some q \<longrightarrow> \<not> replaces_best q peak) \<and>
        (best1 = Some peak \<or> (\<exists>rep. Some rep \<in> set reps \<and> shown_quality rep = Some peak))"
      using 3(2) [OF Some] 3(3) unfolding best1_def by auto
    have trans: "\<not> replaces_best a peak" if "\<not> replaces_best a b" "\<not> replaces_best b peak" "qlFormat a = f" "qlFormat b = f" for a b
      using that ih by (auto simp: replaces_best_def)
    have "\<not> replaces_best q peak \<and> (\<forall>q'. best = Some q' \<longrightarrow> \<not> replaces_best q' peak)"
    proof (cases best)
      case None
      then show ?thesis using ih by (simp add: best1_def)
    next
      case (Some old)
      have old: "qlFormat old = f" using 3(4) Some by simp
      have asym: "replaces_best q old \<Longrightarrow> \<not> replaces_best old q" using q old by (auto simp: replaces_best_def)
      show ?thesis using ih trans [of q old] trans [of old q] asym q old Some by (auto simp: best1_def split: if_splits)
    qed
    moreover have "best = Some peak \<or> (\<exists>rep'. Some rep' \<in> set (Some rep # reps) \<and> shown_quality rep' = Some peak)"
      using ih Some by (auto simp: best1_def split: option.splits if_splits)
    ultimately show ?thesis using ih Some by auto
  qed
qed (auto simp: replaces_best_def)

text \<open>
  Over tracks of one format the summary shows the greatest bit depth seen, and with it the greatest
  sample rate, in whatever order the tracks come.
\<close>

theorem summary_shows_the_best:
  assumes "\<And>rep q. Some rep \<in> set reps \<Longrightarrow> shown_quality rep = Some q \<Longrightarrow> qlFormat q = f"
    and "best_quality reps None = Some peak" "Some rep \<in> set reps" "shown_quality rep = Some q"
  shows "qlBitDepth q < qlBitDepth peak \<or> qlBitDepth q = qlBitDepth peak \<and> qlSampleRate q \<le> qlSampleRate peak"
proof -
  have "\<not> replaces_best q peak" using best_quality_max [OF _ _ assms(2), of f] assms(1,3,4) by blast
  then show ?thesis by (auto simp: replaces_best_def)
qed

definition plain_alac :: "int \<Rightarrow> int \<Rightarrow> quality_report" where
  "plain_alac depth rate =
     no_variants\<lparr>qrStereo := Some \<lparr>qlFormat = ''alac'', qlChannels = 2, qlBitRate = 0, qlBitDepth = depth, qlSampleRate = rate,
       qlIsAtmos = False, qlFirstSeg = []\<rparr>\<rparr>"

theorem summary_shows_the_best_witness:
  "qlBitDepth (the (best_quality [Some (plain_alac 16 96000), None, Some (plain_alac 24 48000)] None)) \<ge> 24"
proof -
  let ?reps = "[Some (plain_alac 16 96000), None, Some (plain_alac 24 48000)]"
  have shown: "shown_quality (plain_alac d r) = qrStereo (plain_alac d r)" for d r by (simp add: shown_quality_def plain_alac_def no_variants_def)
  have "\<not> Option.is_none (best_quality ?reps None)" by code_simp
  then have "best_quality ?reps None = Some (the (best_quality ?reps None))" by (cases "best_quality ?reps None") simp_all
  moreover have "qlFormat q = ''alac''" if "Some rep \<in> set ?reps" "shown_quality rep = Some q" for rep q
    using that by (auto simp: shown) (auto simp: plain_alac_def no_variants_def)
  ultimately show ?thesis
    using summary_shows_the_best [of ?reps "''alac''" "the (best_quality ?reps None)" "plain_alac 24 48000" "the (qrStereo (plain_alac 24 48000))"]
    by (auto simp: shown) (auto simp: plain_alac_def no_variants_def)
qed

text \<open>With formats mixed, the order decides: a better format replaces, and so does a greater bit depth.\<close>

lemma summary_depends_on_order:
  "best_quality [Some (plain_alac 24 48000), Some (no_variants\<lparr>qrStereo := Some \<lparr>qlFormat = ''ec+3'', qlChannels = 2, qlBitRate = 768000, qlBitDepth = 0,
      qlSampleRate = 48000, qlIsAtmos = False, qlFirstSeg = []\<rparr>\<rparr>)] None \<noteq>
   best_quality [Some (no_variants\<lparr>qrStereo := Some \<lparr>qlFormat = ''ec+3'', qlChannels = 2, qlBitRate = 768000, qlBitDepth = 0,
      qlSampleRate = 48000, qlIsAtmos = False, qlFirstSeg = []\<rparr>\<rparr>), Some (plain_alac 24 48000)] None"
  by (simp add: plain_alac_def no_variants_def shown_quality_def replaces_best_def formatRank_def formatOrder_def)

end
