(* ===== verification/Link_Patterns.thy ===== *)
theory Link_Patterns
  imports Go_Strings
begin

section \<open>Apple Music links\<close>

text \<open>
  The link patterns of \<^verbatim>\<open>bot/main.go\<close>.  A pattern is run as Go runs it, leftmost match first and the
  alternatives in order: \<open>run_rx\<close> lists all ways to match a prefix, the preferred one first.  It works on
  bytes; a class next to \<^verbatim>\<open>+\<close> is followed by an ASCII byte, so no character is cut.
\<close>

subsection \<open>Patterns\<close>

datatype rx =
    Lit string
  | One "char \<Rightarrow> bool"
  | Run nat "char \<Rightarrow> bool"
  | Seq rx rx
  | Alt rx rx
  | Opt rx
  | Grp rx
  | End

text \<open>\<open>Run n P\<close>: at least \<open>n\<close> characters of \<open>P\<close>, as many as possible.  A match is the text, the groups and the rest.\<close>

fun run_rx :: "rx \<Rightarrow> string \<Rightarrow> (string \<times> string list \<times> string) list" where
  "run_rx (Lit p) s = (if has_prefix s p then [(p, [], drop (length p) s)] else [])"
| "run_rx (One P) s = (case s of [] \<Rightarrow> [] | c # cs \<Rightarrow> if P c then [([c], [], cs)] else [])"
| "run_rx (Run n P) s = map (\<lambda>k. (take k s, [], drop k s)) (rev [n..<Suc (length (takeWhile P s))])"
| "run_rx (Seq a b) s = concat (map (\<lambda>(m, g, r). map (\<lambda>(m', g', r'). (m @ m', g @ g', r')) (run_rx b r)) (run_rx a s))"
| "run_rx (Alt a b) s = run_rx a s @ run_rx b s"
| "run_rx (Opt a) s = run_rx a s @ [([], [], s)]"
| "run_rx (Grp a) s = map (\<lambda>(m, g, r). (m, m # g, r)) (run_rx a s)"
| "run_rx End s = (if s = [] then [([], [], [])] else [])"

text \<open>An unanchored pattern: the first start at which it matches.\<close>

fun find_rx :: "rx \<Rightarrow> string \<Rightarrow> (string \<times> string list) option" where
  "find_rx r s = (case run_rx r s of
      (m, g, _) # _ \<Rightarrow> Some (m, g)
    | [] \<Rightarrow> (case s of [] \<Rightarrow> None | c # cs \<Rightarrow> find_rx r cs))"

abbreviation seqs :: "rx list \<Rightarrow> rx" where "seqs rs \<equiv> foldr Seq rs (Lit [])"

definition byte_in :: "nat \<Rightarrow> nat \<Rightarrow> char \<Rightarrow> bool" where
  "byte_in a b c = (a \<le> (of_char c :: nat) \<and> (of_char c :: nat) \<le> b)"

text \<open>\<^verbatim>\<open>\w\<close>, \<^verbatim>\<open>[\w-]\<close>, \<^verbatim>\<open>[a-z]\<close>, \<^verbatim>\<open>[a-z-]\<close>, \<^verbatim>\<open>.\<close>, \<^verbatim>\<open>\s\<close>.\<close>

definition word_char :: "char \<Rightarrow> bool" where
  "word_char c = (is_digit c \<or> byte_in 0x61 0x7A c \<or> byte_in 0x41 0x5A c \<or> c = CHR ''_'')"

definition word_or_dash :: "char \<Rightarrow> bool" where "word_or_dash c = (word_char c \<or> c = CHR ''-'')"
definition lower_letter :: "char \<Rightarrow> bool" where "lower_letter c = byte_in 0x61 0x7A c"
definition lower_or_dash :: "char \<Rightarrow> bool" where "lower_or_dash c = (lower_letter c \<or> c = CHR ''-'')"
definition not_newline :: "char \<Rightarrow> bool" where "not_newline c = (c \<noteq> CHR 0x0A)"
definition space_char :: "char \<Rightarrow> bool" where "space_char c = (c \<in> {CHR 0x09, CHR 0x0A, CHR 0x0C, CHR 0x0D, CHR '' ''})"

subsection \<open>The links of the six kinds\<close>

definition all_hosts :: rx where
  "all_hosts = Alt (Lit ''beta.music'') (Alt (Lit ''music'') (Lit ''classical.music''))"

definition two_hosts :: rx where
  "two_hosts = Alt (Lit ''beta.music'') (Lit ''music'')"

definition numeric_id :: rx where "numeric_id = Seq (One is_digit) (Run 1 is_digit)"
definition tagged_id :: "string \<Rightarrow> rx" where "tagged_id tag = Seq (Lit tag) (Run 1 word_or_dash)"
definition end_or_query :: rx where "end_or_query = Alt End (Lit ''?'')"

text \<open>What the six patterns share: the host, the storefront, the kind with or without a name after it, the id.\<close>

definition link_rx :: "rx \<Rightarrow> string \<Rightarrow> rx \<Rightarrow> rx \<Rightarrow> rx" where
  "link_rx hosts kind idr tail =
     seqs [Lit ''https://'', hosts, Lit ''.apple.com/'', Grp (Seq (One word_char) (One word_char)),
           Alt (Lit (''/'' @ kind)) (Seq (Lit (''/'' @ kind @ ''/'')) (Run 1 not_newline)),
           Lit ''/'', Opt (Lit ''id''), Grp idr, tail]"

definition first_match :: "rx \<Rightarrow> string \<Rightarrow> string \<times> string" where
  "first_match r url = (case run_rx r url of (_, [sf, i], _) # _ \<Rightarrow> (sf, i) | _ \<Rightarrow> ([], []))"

definition checkUrl :: "string \<Rightarrow> string \<times> string" where
  "checkUrl = first_match (link_rx all_hosts ''album'' numeric_id end_or_query)"

definition checkUrlMv :: "string \<Rightarrow> string \<times> string" where
  "checkUrlMv = first_match (link_rx two_hosts ''music-video'' numeric_id end_or_query)"

definition checkUrlSong :: "string \<Rightarrow> string \<times> string" where
  "checkUrlSong = first_match (link_rx all_hosts ''song'' numeric_id end_or_query)"

definition checkUrlPlaylist :: "string \<Rightarrow> string \<times> string" where
  "checkUrlPlaylist = first_match (link_rx all_hosts ''playlist'' (tagged_id ''pl.'') end_or_query)"

definition checkUrlStation :: "string \<Rightarrow> string \<times> string" where
  "checkUrlStation = first_match (link_rx two_hosts ''station'' (tagged_id ''ra.'') end_or_query)"

definition checkUrlArtist :: "string \<Rightarrow> string \<times> string" where
  "checkUrlArtist = first_match (link_rx all_hosts ''artist'' numeric_id (Alt End (Alt (Lit ''?'') (Lit ''/''))))"

definition artistURLSection :: "string \<Rightarrow> string" where
  "artistURLSection link =
     (case find_rx (seqs [all_hosts, Lit ''.apple.com/'', One word_char, One word_char, Lit ''/artist/'',
                          Run 1 (\<lambda>c. c \<noteq> CHR ''/''), Lit ''/'', Opt (Lit ''id''), One is_digit, Run 0 is_digit, Lit ''/'',
                          Grp (Run 1 lower_or_dash), end_or_query]) link of
        Some (_, [sec]) \<Rightarrow> sec | _ \<Rightarrow> [])"

subsection \<open>Short links\<close>

text \<open>The pattern searched in the page a short link leads to.\<close>

definition page_rx :: rx where
  "page_rx = seqs [Lit ''https://'', Opt (Lit ''beta.''), Lit ''music.apple.com/'', One lower_letter, One lower_letter, Lit ''/'',
     foldr Alt (map Lit [''album'', ''song'', ''playlist'', ''station'', ''music-video'']) (Lit ''artist''), Lit ''/'',
     Run 1 (\<lambda>c. c \<notin> {CHR 0x22, CHR 0x27, CHR ''<'', CHR ''>'', CHR ''?''} \<and> \<not> space_char c),
     Opt (Seq (Lit ''?'') (Run 0 (\<lambda>c. c \<notin> {CHR 0x22, CHR 0x27, CHR ''<'', CHR ''>''} \<and> \<not> space_char c)))]"

text \<open>\<open>body\<close> is the page the link leads to, \<open>None\<close> when it cannot be read.\<close>

definition resolveAppleMusicURL :: "(string \<Rightarrow> string option) \<Rightarrow> string \<Rightarrow> string" where
  "resolveAppleMusicURL body rawURL0 =
     (let rawURL = trim_space rawURL0
      in if rawURL = [] then []
         else if list_ex (contains rawURL) [''/album/'', ''/playlist/'', ''/station/'', ''/song/'', ''/music-video/'', ''/artist/''] then rawURL
         else if \<not> contains rawURL ''music.apple.com'' then rawURL
         else (case body rawURL of
                 None \<Rightarrow> rawURL
               | Some page \<Rightarrow> (case find_rx page_rx page of Some (m, _) \<Rightarrow> m | None \<Rightarrow> rawURL)))"

subsection \<open>A link has one kind\<close>

lemma run_rx_parts: "(m, g, r) \<in> set (run_rx x s) \<Longrightarrow> s = m @ r"
proof (induction x arbitrary: m g r s)
  case (Lit p)
  then show ?case by (auto simp: has_prefix_iff split: if_splits)
next
  case (One P)
  then show ?case by (auto split: list.splits if_splits)
next
  case (Seq a b)
  then show ?case by fastforce
qed (auto split: if_splits)

fun matches_rx :: "rx \<Rightarrow> string \<Rightarrow> bool" where
  "matches_rx (Lit p) m = (m = p)"
| "matches_rx (One P) m = (\<exists>c. P c \<and> m = [c])"
| "matches_rx (Run n P) m = (n \<le> length m \<and> list_all P m)"
| "matches_rx (Seq a b) m = (\<exists>x y. m = x @ y \<and> matches_rx a x \<and> matches_rx b y)"
| "matches_rx (Alt a b) m = (matches_rx a m \<or> matches_rx b m)"
| "matches_rx (Opt a) m = (matches_rx a m \<or> m = [])"
| "matches_rx (Grp a) m = matches_rx a m"
| "matches_rx End m = (m = [])"

lemma run_rx_matches: "(m, g, r) \<in> set (run_rx x s) \<Longrightarrow> matches_rx x m"
proof (induction x arbitrary: m g r s)
  case (Lit p)
  then show ?case by (auto split: if_splits)
next
  case (One P)
  then show ?case by (auto split: list.splits if_splits)
next
  case (Run n P)
  have "take k s = take k (takeWhile P s)" if "k \<le> length (takeWhile P s)" for k
    using that by (metis append_eq_conv_conj take_append takeWhile_dropWhile_id diff_is_0_eq take0 append_Nil2)
  moreover have "list_all P (take k (takeWhile P s))" for k by (auto simp: list_all_iff dest!: in_set_takeD set_takeWhileD)
  ultimately have "list_all P (take k s)" if "k \<le> length (takeWhile P s)" for k using that by metis
  then show ?case using Run length_takeWhile_le [of P s] by (auto simp: less_Suc_eq_le)
next
  case (Seq a b)
  then show ?case by fastforce
qed (auto split: if_splits)

lemma matches_seqs: "matches_rx (seqs rs) m \<longleftrightarrow> (\<exists>ms. list_all2 matches_rx rs ms \<and> m = concat ms)"
  by (induction rs arbitrary: m) (fastforce simp: list_all2_Cons1)+

definition kind_url :: "string \<Rightarrow> string \<Rightarrow> bool" where
  "kind_url kind s = (\<exists>h sf rest. h \<in> {''beta.music'', ''music'', ''classical.music''} \<and> length sf = 2 \<and>
     s = ''https://'' @ h @ ''.apple.com/'' @ sf @ ''/'' @ kind @ ''/'' @ rest)"

lemma link_rx_kind:
  assumes "hosts \<in> {all_hosts, two_hosts}" "x \<in> set (run_rx (link_rx hosts kind idr tail) s)"
  shows "kind_url kind s"
proof -
  obtain m g r where x: "x = (m, g, r)" by (cases x)
  have hs: "matches_rx hosts h \<Longrightarrow> h \<in> {''beta.music'', ''music'', ''classical.music''}" for h
    using assms(1) by (auto simp: all_hosts_def two_hosts_def)
  have "matches_rx (link_rx hosts kind idr tail) m" using run_rx_matches assms(2) x by blast
  then obtain h sf k o' i t where mh: "matches_rx hosts h" and "matches_rx (Grp (Seq (One word_char) (One word_char))) sf"
    and k: "matches_rx (Alt (Lit (''/'' @ kind)) (Seq (Lit (''/'' @ kind @ ''/'')) (Run 1 not_newline))) k"
    and m: "m = concat [''https://'', h, ''.apple.com/'', sf, k, ''/'', o', i, t]"
    unfolding link_rx_def matches_seqs list_all2_Cons1 list_all2_Nil matches_rx.simps(1) by (elim exE conjE) (simp only: concat.simps append_Nil2)
  then obtain c d where sf: "sf = [c, d]" by auto
  have k: "k = ''/'' @ kind \<or> (\<exists>n. k = ''/'' @ kind @ ''/'' @ n)" using k by auto
  from hs [OF mh] have h: "h \<in> {''beta.music'', ''music'', ''classical.music''}" .
  define y where "y = o' @ i @ t"
  have m: "m = ''https://'' @ h @ ''.apple.com/'' @ [c, d] @ k @ ''/'' @ y" using m sf by (simp add: y_def)
  have s: "s = m @ r" using run_rx_parts assms(2) x by blast
  show ?thesis
  proof (cases "k = ''/'' @ kind")
    case True
    then show ?thesis unfolding kind_url_def s m using h by (intro exI [of _ h] exI [of _ "[c, d]"] exI [of _ "y @ r"]) simp
  next
    case False
    then obtain n where "k = ''/'' @ kind @ ''/'' @ n" using k by auto
    then show ?thesis unfolding kind_url_def s m using h by (intro exI [of _ h] exI [of _ "[c, d]"] exI [of _ "n @ ''/'' @ y @ r"]) simp
  qed
qed
lemma kind_url_unique:
  assumes "kind_url k1 s" "kind_url k2 s" "CHR ''/'' \<notin> set k1" "CHR ''/'' \<notin> set k2"
  shows "k1 = k2"
proof -
  obtain h sf u where 1: "h \<in> {''beta.music'', ''music'', ''classical.music''}" "length sf = 2"
    "s = ''https://'' @ h @ ''.apple.com/'' @ sf @ ''/'' @ k1 @ ''/'' @ u" using assms(1) by (auto simp: kind_url_def)
  obtain h' sf' u' where 2: "h' \<in> {''beta.music'', ''music'', ''classical.music''}" "length sf' = 2"
    "s = ''https://'' @ h' @ ''.apple.com/'' @ sf' @ ''/'' @ k2 @ ''/'' @ u'" using assms(2) by (auto simp: kind_url_def)
  have eq: "h @ ''.apple.com/'' @ sf @ ''/'' @ k1 @ ''/'' @ u = h' @ ''.apple.com/'' @ sf' @ ''/'' @ k2 @ ''/'' @ u'"
    using 1(3) 2(3) by simp
  then have "h = h'" using 1(1) 2(1) by auto
  with eq have "sf @ ''/'' @ k1 @ ''/'' @ u = sf' @ ''/'' @ k2 @ ''/'' @ u'" by simp
  then have "takeWhile (\<lambda>c. c \<noteq> CHR ''/'') (k1 @ CHR ''/'' # u) = takeWhile (\<lambda>c. c \<noteq> CHR ''/'') (k2 @ CHR ''/'' # u')"
    using 1(2) 2(2) by simp
  moreover have "takeWhile (\<lambda>c. c \<noteq> CHR ''/'') (k @ CHR ''/'' # v) = k" if "CHR ''/'' \<notin> set k" for k v
    using that by (subst takeWhile_append2) auto
  ultimately show ?thesis using assms(3,4) by simp
qed

lemma first_match_kind:
  assumes "snd (first_match (link_rx hosts kind idr tail) s) \<noteq> []" "hosts \<in> {all_hosts, two_hosts}"
  shows "kind_url kind s"
  using assms link_rx_kind [OF assms(2), of _ kind idr tail s]
  by (cases "run_rx (link_rx hosts kind idr tail) s") (auto simp: first_match_def)

definition link_checks :: "(string \<times> (string \<Rightarrow> string \<times> string)) list" where
  "link_checks = [(''album'', checkUrl), (''music-video'', checkUrlMv), (''song'', checkUrlSong), (''playlist'', checkUrlPlaylist),
      (''station'', checkUrlStation), (''artist'', checkUrlArtist)]"

definition link_kinds :: "string \<Rightarrow> string list" where
  "link_kinds s = map fst (filter (\<lambda>(k, f). snd (f s) \<noteq> []) link_checks)"

lemma link_checks_first_match:
  "list_all (\<lambda>(k, f). CHR ''/'' \<notin> set k \<and> (\<exists>hosts idr tail. hosts \<in> {all_hosts, two_hosts} \<and> f = first_match (link_rx hosts k idr tail))) link_checks"
proof -
  have h: "all_hosts \<in> {all_hosts, two_hosts}" "two_hosts \<in> {all_hosts, two_hosts}" by auto
  show ?thesis
    unfolding link_checks_def list.pred_inject prod.case
    by (intro conjI exI) (rule checkUrl_def checkUrlMv_def checkUrlSong_def checkUrlPlaylist_def checkUrlStation_def checkUrlArtist_def h | simp)+
qed

lemma link_kinds_url:
  assumes "x \<in> set (link_kinds s)"
  shows "kind_url x s" "CHR ''/'' \<notin> set x"
proof -
  obtain f where f: "(x, f) \<in> set link_checks" "snd (f s) \<noteq> []" using assms by (auto simp: link_kinds_def)
  from bspec [OF link_checks_first_match [unfolded list_all_iff] f(1)]
  obtain hosts idr tail where "CHR ''/'' \<notin> set x" "hosts \<in> {all_hosts, two_hosts}" "f = first_match (link_rx hosts x idr tail)" by fastforce
  with f(2) show "kind_url x s" "CHR ''/'' \<notin> set x" using first_match_kind by blast+
qed

text \<open>
  No link has two kinds: whatever the text, at most one of the six patterns accepts it, so the order in
  which the commands try them does not matter.
\<close>

theorem link_has_one_kind: "length (link_kinds link) \<le> 1"
proof -
  have "distinct (map fst link_checks)" by (simp add: link_checks_def)
  then have "distinct (link_kinds link)" unfolding link_kinds_def by (rule distinct_map_filter)
  moreover have "x = y" if "x \<in> set (link_kinds link)" "y \<in> set (link_kinds link)" for x y
    by (rule kind_url_unique [OF link_kinds_url(1) [OF that(1)] link_kinds_url(1) [OF that(2)] link_kinds_url(2) [OF that(1)] link_kinds_url(2) [OF that(2)]])
  ultimately have "card (set (link_kinds link)) \<le> 1" using card_le_Suc0_iff_eq [of "set (link_kinds link)"] by simp
  with distinct_card [OF \<open>distinct (link_kinds link)\<close>] show ?thesis by simp
qed


subsection \<open>Shared links are understood\<close>

definition prefers :: "rx \<Rightarrow> string \<Rightarrow> string \<times> string list \<times> string \<Rightarrow> bool" where
  "prefers x s y = (\<exists>ys. run_rx x s = y # ys)"

lemma prefers_seq:
  assumes "run_rx a s = xs @ (m, g, r) # ys" "\<forall>(m', g', r') \<in> set xs. run_rx b r' = []" "prefers b r (m', g', r')"
  shows "prefers (Seq a b) s (m @ m', g @ g', r')"
proof -
  let ?f = "\<lambda>(m, g, r). map (\<lambda>(m', g', r'). (m @ m', g @ g', r')) (run_rx b r)"
  have c: "concat (map ?f xs) = []" using assms(2) by fastforce
  obtain zs where "run_rx b r = (m', g', r') # zs" using assms(3) by (auto simp: prefers_def)
  then show ?thesis unfolding prefers_def run_rx.simps assms(1) map_append concat_append c by simp
qed

lemma prefers_then: "prefers a s (m, g, r) \<Longrightarrow> prefers b r (m', g', r') \<Longrightarrow> prefers (Seq a b) s (m @ m', g @ g', r')"
  using prefers_seq [of a s "[]"] by (auto simp: prefers_def)

lemma prefers_Lit: "prefers (Lit p) (p @ r) (p, [], r)"
  by (simp add: prefers_def)

lemma prefers_Run:
  assumes "list_all P m" "n \<le> length m" "r = [] \<or> \<not> P (hd r)"
  shows "prefers (Run n P) (m @ r) (m, [], r)"
proof -
  have "takeWhile P (m @ r) = m" using assms(1,3) by (cases r) (auto simp: takeWhile_append2 list_all_iff takeWhile_tail)
  then show ?thesis using assms(2) by (auto simp: prefers_def)
qed

lemma prefers_Grp: "prefers a s (m, g, r) \<Longrightarrow> prefers (Grp a) s (m, m # g, r)"
  by (auto simp: prefers_def)

lemma prefers_skip: "run_rx a s = [] \<Longrightarrow> prefers (Opt a) s ([], [], s)"
  by (simp add: prefers_def)

lemma no_run: "(\<And>m r. s = m @ r \<Longrightarrow> matches_rx x m \<Longrightarrow> False) \<Longrightarrow> run_rx x s = []"
  using run_rx_matches run_rx_parts by (cases "run_rx x s") (metis list.set_intros(1) prod_cases3)+

definition after_kind :: "rx \<Rightarrow> rx" where
  "after_kind idr = seqs [Lit ''/'', Opt (Lit ''id''), Grp idr, end_or_query]"

lemma run_SeqE:
  assumes "(m, g, r) \<in> set (run_rx (Seq a b) s)"
  obtains m1 g1 r1 m2 g2 where "(m1, g1, r1) \<in> set (run_rx a s)" "(m2, g2, r) \<in> set (run_rx b r1)" "m = m1 @ m2"
  using assms by auto

lemma after_kind_run:
  assumes "x \<in> set (run_rx (after_kind idr) s)"
  shows "\<exists>o' i' r. (s = ''/'' @ o' @ i' \<or> s = ''/'' @ o' @ i' @ ''?'' @ r) \<and> o' \<in> {[], ''id''} \<and> matches_rx idr i'"
proof -
  obtain m g r where x: "x = (m, g, r)" by (cases x)
  have run: "(m, g, r) \<in> set (run_rx (Seq (Lit ''/'') (Seq (Opt (Lit ''id'')) (Seq (Grp idr) (Seq end_or_query (Lit []))))) s)"
    using assms x by (simp add: after_kind_def)
  obtain m1 g1 r1 m2 g2 where 1: "(m1, g1, r1) \<in> set (run_rx (Lit ''/'') s)"
    "(m2, g2, r) \<in> set (run_rx (Seq (Opt (Lit ''id'')) (Seq (Grp idr) (Seq end_or_query (Lit [])))) r1)" by (rule run_SeqE [OF run])
  obtain o' g3 r3 m4 g4 where 2: "(o', g3, r3) \<in> set (run_rx (Opt (Lit ''id'')) r1)"
    "(m4, g4, r) \<in> set (run_rx (Seq (Grp idr) (Seq end_or_query (Lit []))) r3)" by (rule run_SeqE [OF 1(2)])
  obtain i' g5 r5 m6 g6 where 3: "(i', g5, r5) \<in> set (run_rx (Grp idr) r3)"
    "(m6, g6, r) \<in> set (run_rx (Seq end_or_query (Lit [])) r5)" by (rule run_SeqE [OF 2(2)])
  have "s = ''/'' @ r1" using run_rx_parts [OF 1(1)] run_rx_matches [OF 1(1)] by simp
  moreover have "r1 = o' @ r3" "o' \<in> {[], ''id''}" using run_rx_parts [OF 2(1)] run_rx_matches [OF 2(1)] by auto
  moreover have "r3 = i' @ r5" "matches_rx idr i'" using run_rx_parts [OF 3(1)] run_rx_matches [OF 3(1)] by auto
  moreover have "r5 = [] \<or> (\<exists>v. r5 = ''?'' @ v)"
    using 3(2) by (auto simp: end_or_query_def has_prefix_iff split: if_splits)
  ultimately have "(s = ''/'' @ o' @ i' \<or> (\<exists>v. s = ''/'' @ o' @ i' @ ''?'' @ v)) \<and> o' \<in> {[], ''id''} \<and> matches_rx idr i'"
    by (elim disjE exE) simp_all
  then show ?thesis by blast
qed

lemma dropWhile_past: "list_all P z \<Longrightarrow> dropWhile P (z @ r) = dropWhile P r"
  by (induction z) auto

lemma dropWhile_first: "b \<notin> set z \<Longrightarrow> \<exists>v. dropWhile (\<lambda>c. c \<noteq> a \<and> c \<noteq> b) (z @ a # w) = a # v"
  by (induction z) auto

lemma after_kind_no_slash:
  assumes "\<And>m. matches_rx idr m \<Longrightarrow> CHR ''/'' \<notin> set m \<and> CHR ''?'' \<notin> set m" "CHR ''?'' \<notin> set slug"
  shows "run_rx (after_kind idr) (''/'' @ slug @ ''/'' @ w) = []"
proof (rule ccontr)
  assume "run_rx (after_kind idr) (''/'' @ slug @ ''/'' @ w) \<noteq> []"
  then obtain x where "x \<in> set (run_rx (after_kind idr) (''/'' @ slug @ ''/'' @ w))" by (cases "run_rx (after_kind idr) (''/'' @ slug @ ''/'' @ w)") auto
  from after_kind_run [OF this] obtain o' i' r where i: "matches_rx idr i'" and o': "o' \<in> {[], ''id''}"
    and eq: "''/'' @ slug @ ''/'' @ w = ''/'' @ o' @ i' \<or> ''/'' @ slug @ ''/'' @ w = ''/'' @ o' @ i' @ ''?'' @ r"
    by blast
  let ?P = "\<lambda>c. c \<noteq> CHR ''/'' \<and> c \<noteq> CHR ''?''"
  have "list_all ?P (o' @ i')" using assms(1) [OF i] o' by (auto simp: list_all_iff)
  then have D: "dropWhile ?P ((o' @ i') @ v) = dropWhile ?P v" for v by (rule dropWhile_past)
  obtain v where v: "dropWhile ?P (slug @ CHR ''/'' # w) = CHR ''/'' # v" using dropWhile_first [OF assms(2)] by blast
  have "slug @ CHR ''/'' # w = (o' @ i') @ [] \<or> slug @ CHR ''/'' # w = (o' @ i') @ CHR ''?'' # r" using eq by simp
  then show False
  proof
    assume "slug @ CHR ''/'' # w = (o' @ i') @ []"
    from v [unfolded this D] show False by simp
  next
    assume "slug @ CHR ''/'' # w = (o' @ i') @ CHR ''?'' # r"
    from v [unfolded this D] show False by simp
  qed
qed

lemma after_kind_prefers:
  assumes "prefers idr (i @ q) (i, [], q)" "i \<noteq> []" "hd i \<noteq> CHR ''i''" "q = [] \<or> (\<exists>q'. q = CHR ''?'' # q')"
  shows "\<exists>t r. prefers (after_kind idr) (''/'' @ i @ q) (t, [i], r)"
proof -
  have 1: "prefers (Opt (Lit ''id'')) (i @ q) ([], [], i @ q)"
    using assms(2,3) by (intro prefers_skip) (cases i; simp)
  have 2: "prefers (Grp idr) (i @ q) (i, [i], q)" by (rule prefers_Grp [OF assms(1)])
  obtain t r where 3: "prefers (Seq end_or_query (Lit [])) q (t, [], r)"
    using assms(4) by (auto simp: end_or_query_def prefers_def)
  from prefers_then [OF prefers_Lit prefers_then [OF 1 prefers_then [OF 2 3]], of "''/''"]
  show ?thesis by (auto simp: after_kind_def)
qed

definition kind_part :: "string \<Rightarrow> rx" where
  "kind_part kind = Alt (Lit (''/'' @ kind)) (Seq (Lit (''/'' @ kind @ ''/'')) (Run 1 not_newline))"

lemma kind_part_run:
  assumes "slug \<noteq> []" "list_all not_newline slug"
  shows "\<exists>ks ys. run_rx (kind_part kind) (''/'' @ kind @ ''/'' @ slug @ ''/'' @ w) =
    ((''/'' @ kind, [], ''/'' @ slug @ ''/'' @ w) # map (\<lambda>k. (''/'' @ kind @ ''/'' @ take k (slug @ ''/'' @ w), [], drop k (slug @ ''/'' @ w))) ks) @
    (''/'' @ kind @ ''/'' @ slug, [], ''/'' @ w) # ys \<and> (\<forall>k \<in> set ks. length slug < k)"
proof -
  let ?w = "slug @ ''/'' @ w" and ?L = "length slug"
  let ?n = "length (takeWhile not_newline ?w)"
  have "takeWhile not_newline ?w = slug @ takeWhile not_newline (''/'' @ w)" using assms(2) by (simp add: takeWhile_append2 list_all_iff)
  then have L: "?L \<le> ?n" by simp
  have "1 \<le> ?L" using assms(1) by (cases slug) auto
  then have "[1..<Suc ?n] = [1..<?L] @ [?L..<Suc ?n]" "[?L..<Suc ?n] = ?L # [Suc ?L..<Suc ?n]"
    using L upt_add_eq_append [of 1 ?L "Suc ?n - ?L"] upt_conv_Cons [of ?L "Suc ?n"] by simp_all
  then have "rev [1..<Suc ?n] = rev [Suc ?L..<Suc ?n] @ ?L # rev [1..<?L]" by simp
  then have r: "run_rx (Run 1 not_newline) ?w =
      map (\<lambda>k. (take k ?w, [], drop k ?w)) (rev [Suc ?L..<Suc ?n]) @ (slug, [], ''/'' @ w) # map (\<lambda>k. (take k ?w, [], drop k ?w)) (rev [1..<?L])"
    by simp
  let ?k2 = "''/'' @ kind @ ''/''"
  define k1 k2 where "k1 = ''/'' @ kind" and "k2 = k1 @ ''/''"
  have "run_rx (Alt (Lit k1) (Seq (Lit k2) (Run 1 not_newline))) (k2 @ ?w) =
    (k1, [], ''/'' @ ?w) # map (\<lambda>(m, g, r). (k2 @ m, g, r)) (run_rx (Run 1 not_newline) ?w)"
    by (simp add: k2_def has_prefix_iff del: run_rx.simps(3))
  then show ?thesis unfolding r k1_def k2_def kind_part_def
    by (intro exI [of _ "rev [Suc ?L..<Suc ?n]"] exI) (auto simp: o_def)
qed

lemma link_rx_seq:
  "run_rx (link_rx hosts kind idr end_or_query) = run_rx (Seq (Lit ''https://'') (Seq hosts (Seq (Lit ''.apple.com/'')
     (Seq (Grp (Seq (One word_char) (One word_char))) (Seq (kind_part kind) (after_kind idr))))))"
  by (simp add: fun_eq_iff link_rx_def kind_part_def after_kind_def)

lemma shared_link_read:
  assumes hosts: "prefers hosts (''music'' @ rest) (''music'', [], rest)"
    and sf: "sf = [a, b]" "word_char a" "word_char b"
    and slug: "slug \<noteq> []" "list_all not_newline slug" "CHR ''?'' \<notin> set slug"
    and idr: "\<And>m. matches_rx idr m \<Longrightarrow> CHR ''/'' \<notin> set m \<and> CHR ''?'' \<notin> set m" "prefers idr (i @ q) (i, [], q)"
    and i: "i \<noteq> []" "hd i \<noteq> CHR ''i''" "CHR ''/'' \<notin> set i"
    and q: "q = [] \<or> (\<exists>q'. q = CHR ''?'' # q')" "CHR ''/'' \<notin> set q"
    and rest: "rest = ''.apple.com/'' @ sf @ ''/'' @ kind @ ''/'' @ slug @ ''/'' @ i @ q"
  shows "first_match (link_rx hosts kind idr end_or_query) (''https://'' @ ''music'' @ rest) = (sf, i)"
proof -
  obtain ks ys where run: "run_rx (kind_part kind) (''/'' @ kind @ ''/'' @ slug @ ''/'' @ i @ q) =
    ((''/'' @ kind, [], ''/'' @ slug @ ''/'' @ i @ q) # map (\<lambda>k. (''/'' @ kind @ ''/'' @ take k (slug @ ''/'' @ i @ q), [], drop k (slug @ ''/'' @ i @ q))) ks) @
    (''/'' @ kind @ ''/'' @ slug, [], ''/'' @ i @ q) # ys" and ks: "\<forall>k \<in> set ks. length slug < k"
    using kind_part_run [OF slug(1,2), of kind "i @ q"] by (elim exE conjE)
  have "run_rx (after_kind idr) (drop k (slug @ ''/'' @ i @ q)) = []" if "k \<in> set ks" for k
  proof -
    obtain j where "k = length slug + Suc j" using ks \<open>k \<in> set ks\<close> less_imp_Suc_add by (metis add_Suc_right)
    then have "drop k (slug @ ''/'' @ i @ q) = drop j (i @ q)" by simp
    moreover have "CHR ''/'' \<notin> set (drop j (i @ q))" using i(3) q(2) by (auto dest: in_set_dropD)
    ultimately have "CHR ''/'' \<notin> set (drop k (slug @ ''/'' @ i @ q))" by (simp only: not_False_eq_True)
    moreover have "CHR ''/'' \<notin> set u \<Longrightarrow> \<not> has_prefix u ''/''" for u by (auto simp: has_prefix_iff)
    ultimately have "\<not> has_prefix (drop k (slug @ ''/'' @ i @ q)) ''/''" by blast
    then show ?thesis by (simp add: after_kind_def)
  qed
  then have none: "\<forall>(m', g', r') \<in> set ((''/'' @ kind, [], ''/'' @ slug @ ''/'' @ i @ q) #
      map (\<lambda>k. (''/'' @ kind @ ''/'' @ take k (slug @ ''/'' @ i @ q), [] :: string list, drop k (slug @ ''/'' @ i @ q))) ks).
      run_rx (after_kind idr) r' = []"
    using after_kind_no_slash [OF idr(1) slug(3)] by auto
  obtain t r where ak: "prefers (after_kind idr) (''/'' @ i @ q) (t, [i], r)" using after_kind_prefers [OF idr(2) i(1,2) q(1)] by blast
  have kp: "prefers (Seq (kind_part kind) (after_kind idr)) (''/'' @ kind @ ''/'' @ slug @ ''/'' @ i @ q) ((''/'' @ kind @ ''/'' @ slug) @ t, [] @ [i], r)"
    by (rule prefers_seq [OF run none ak])
  have st: "prefers (Grp (Seq (One word_char) (One word_char))) (sf @ u) (sf, [sf], u)" for u
    using sf by (simp add: prefers_def)
  from prefers_then [OF prefers_Lit [of "''https://''"] prefers_then [OF hosts [unfolded rest] prefers_then [OF prefers_Lit [of "''.apple.com/''"] prefers_then [OF st kp]]]]
  obtain m where "prefers (link_rx hosts kind idr end_or_query) (''https://'' @ ''music'' @ rest) (m, [sf, i], r)"
    unfolding prefers_def link_rx_seq rest by (auto simp del: run_rx.simps)
  then show ?thesis by (auto simp: prefers_def first_match_def)
qed

lemma numeric_id_prefers:
  assumes "list_all is_digit i" "2 \<le> length i" "q = [] \<or> (\<exists>q'. q = CHR ''?'' # q')"
  shows "prefers numeric_id (i @ q) (i, [], q)"
proof -
  obtain d ds where i: "i = d # ds" using assms(2) by (cases i) auto
  have "\<not> is_digit (CHR ''?'')" by (simp add: is_digit_def)
  then have "prefers (Run 1 is_digit) (ds @ q) (ds, [], q)" using assms i by (intro prefers_Run) auto
  moreover have "prefers (One is_digit) (d # ds @ q) ([d], [], ds @ q)" using assms(1) i by (simp add: prefers_def)
  ultimately show ?thesis using prefers_then i by (fastforce simp: numeric_id_def)
qed

lemma digit_not: "is_digit c \<Longrightarrow> c \<noteq> CHR ''/'' \<and> c \<noteq> CHR ''?'' \<and> c \<noteq> CHR ''i''"
  by (auto simp: is_digit_def)

lemma numeric_id_text: "matches_rx numeric_id m \<Longrightarrow> list_all is_digit m"
  by (auto simp: numeric_id_def)

lemma music_first: "prefers all_hosts (''music'' @ r) (''music'', [], r)" "prefers two_hosts (''music'' @ r) (''music'', [], r)"
  by (simp_all add: all_hosts_def two_hosts_def prefers_def)

text \<open>
  C25: A link as Apple Music shares it (storefront, kind, any name, a number of two digits or more, perhaps a
  query) is read back as its storefront and its number.
\<close>

theorem shared_link_roundtrip:
  assumes "word_char a" "word_char b" "name \<noteq> []" "list_all not_newline name" "CHR ''?'' \<notin> set name"
    and "list_all is_digit i" "2 \<le> length i" "q = [] \<or> (\<exists>q'. q = CHR ''?'' # q')" "CHR ''/'' \<notin> set q"
  defines "url \<equiv> \<lambda>kind. ''https://music.apple.com/'' @ [a, b] @ ''/'' @ kind @ ''/'' @ name @ ''/'' @ i @ q"
  shows "checkUrl (url ''album'') = ([a, b], i) \<and> checkUrlSong (url ''song'') = ([a, b], i) \<and>
         checkUrlMv (url ''music-video'') = ([a, b], i)"
proof -
  have i: "i \<noteq> []" "hd i \<noteq> CHR ''i''" "CHR ''/'' \<notin> set i" using assms(6,7) digit_not by (cases i; auto simp: list_all_iff)+
  have n: "CHR ''/'' \<notin> set m \<and> CHR ''?'' \<notin> set m" if "matches_rx numeric_id m" for m
    using numeric_id_text [OF that] digit_not by (auto simp: list_all_iff)
  have "first_match (link_rx hosts kind numeric_id end_or_query) (url kind) = ([a, b], i)"
    if "\<And>r. prefers hosts (''music'' @ r) (''music'', [], r)" for hosts kind
    using shared_link_read [OF that refl assms(1-5) n numeric_id_prefers [OF assms(6-8)] i assms(8,9) refl, of kind]
    by (simp add: url_def)
  then show ?thesis using music_first by (simp add: checkUrl_def checkUrlSong_def checkUrlMv_def)
qed

theorem shared_link_roundtrip_witness:
  "checkUrl ''https://music.apple.com/us/album/blue/12?i=3'' = (''us'', ''12'')"
proof -
  have "word_char (CHR ''u'')" "word_char (CHR ''s'')" "list_all not_newline ''blue''" "list_all is_digit ''12''" by code_simp+
  then show ?thesis using shared_link_roundtrip [of "CHR ''u''" "CHR ''s''" "''blue''" "''12''" "''?i=3''"] by simp
qed

end
