(* ===== verification/Commands.thy ===== *)
theory Commands
  imports Media_Cache Sleep_Jobs Delivery Link_Patterns
begin

section \<open>Messages, commands and buttons\<close>

text \<open>
  The front desk of \<^verbatim>\<open>bot/telegram_bot.go\<close>: \<^verbatim>\<open>handleMessage\<close>, \<^verbatim>\<open>handleCallback\<close>, \<^verbatim>\<open>handleCommand\<close> with
  the whole of \<^verbatim>\<open>/dl\<close>, and the prompts a button answers.  A handler returns what it calls, in order, as
  \<open>action\<close>s with the arguments of the call, and the new state of the desk; the operations behind the actions are those of
  the other theories.  What they answer is in \<open>answers\<close>.  The update loop handles one update
  after the other; texts are cut after their first sentence.  \<^verbatim>\<open>handleSearch\<close> is never called, so no search selection is ever pending.
\<close>

subsection \<open>The desk\<close>

record bulk_item =
  biKind :: string
  biID :: string
  biStorefront :: string

record pending_transfer =
  ptAlbumID :: string
  ptSongID :: string
  ptPlaylistID :: string
  ptStationID :: string
  ptMvID :: string
  ptMvStorefront :: string
  ptSingle :: bool
  ptForceAAC :: bool
  ptForceAtmos :: bool
  ptForceFlac :: bool
  ptNoCache :: bool
  ptReplyTo :: msg_id
  ptMessageID :: msg_id
  ptCreatedAt :: unix_sec
  ptUserID :: user_id
  ptBulk :: "bulk_item list"

record artist_sel =
  alChat :: chat_id
  alUser :: user_id
  alName :: string
  alStorefront :: string
  alArtist :: string
  alLink :: string
  alReplyTo :: msg_id
  alForceAAC :: bool
  alForceAtmos :: bool
  alForceFlac :: bool
  alCreatedAt :: unix_sec

record desk =
  dkUsers :: users
  dkTransfers :: "chat_id \<rightharpoonup> pending_transfer"
  dkArtists :: "chat_id \<times> msg_id \<rightharpoonup> artist_sel"
  dkReports :: reports
  dkFormats :: "chat_id \<rightharpoonup> string"

text \<open>
  \<open>anSent\<close>: the id of the keyboard message, \<open>None\<close> when it cannot be sent.  \<open>anServed\<close>: whether the cache or
  the catalog served a song.  \<open>anZip\<close>: whether \<^verbatim>\<open>trySendCachedAlbumZipQuota\<close> settled the album.
  \<open>anPage\<close> and \<open>anParam\<close>: the page behind a short link, the query parameter \<^verbatim>\<open>i\<close> of a link.
\<close>

record answers =
  anNow :: unix_sec
  anSelf :: string
  anAllowed :: "chat_id set"
  anStorefront :: string
  anTasks :: "user_id \<Rightarrow> int"
  anBusy :: "bool \<times> nat"
  anSent :: "msg_id option"
  anServed :: "string \<Rightarrow> string \<Rightarrow> string \<Rightarrow> bool"
  anZip :: "string \<Rightarrow> string \<Rightarrow> bool"
  anPage :: "string \<Rightarrow> string option"
  anParam :: "string \<Rightarrow> string"
  anAdmins :: "user_id list"
  anReach :: "user_id \<Rightarrow> bool"
  anUp :: bool
  anCatalog :: "catalog option"

text \<open>The calls; those from \<open>QueueSong\<close> on start work for the user.\<close>

datatype action =
    Say string
  | Ask string
  | Edit string
  | Report "(user_id \<times> string) list"
  | Show string
  | ShowProfileOf string
  | CheckLink string
  | HelpTap string
  | ProfileTap string
  | TryServe string string string
  | TryZip string string
  | CancelTask string
  | CancelJob string
  | Purge
  | IndexDumps "string list"
  | StopAll
  | Restart
  | QueueSong submission string string
  | QueueAlbum submission string
  | QueuePlaylist submission string
  | QueueStation submission string
  | QueueMv submission string string
  | QueueArt submission string
  | RoutePlaylist submission string string string
  | StartArtist artist_sel string

definition pendingTTL :: unix_sec where "pendingTTL = 600"
definition transferModeOneByOne :: string where "transferModeOneByOne = ''one''"
definition transferModeCancel :: string where "transferModeCancel = ''cancel''"

definition getChatFormat :: "desk \<Rightarrow> chat_id \<Rightarrow> string" where
  "getChatFormat dk chat =
     (case dkFormats dk chat of
        Some f \<Rightarrow> (if normalizeTelegramFormat f = [] then defaultTelegramFormat else normalizeTelegramFormat f)
      | None \<Rightarrow> defaultTelegramFormat)"

definition setChatFormat :: "chat_id \<Rightarrow> string \<Rightarrow> desk \<Rightarrow> string \<times> desk" where
  "setChatFormat chat format dk =
     (let n = normalizeTelegramFormat format
      in if n = [] then ([], dk) else (n, dk\<lparr>dkFormats := (dkFormats dk)(chat \<mapsto> n)\<rparr>))"

definition isAllowedChat :: "answers \<Rightarrow> chat_id \<Rightarrow> bool" where
  "isAllowedChat an chat = (chat \<in> anAllowed an)"

definition desk_format :: "desk \<Rightarrow> chat_id \<Rightarrow> bool \<Rightarrow> string" where
  "desk_format dk chat forceFlac = resolveFormat (getChatFormat dk) chat forceFlac"

subsection \<open>Parsing a command\<close>

definition parseCommand :: "string \<Rightarrow> (string \<times> string \<times> string list) option" where
  "parseCommand text =
     (if \<not> has_prefix text ''/'' then None
      else case go_fields text of
             [] \<Rightarrow> None
           | p # args \<Rightarrow>
               let cmd = trim_prefix p ''/''
               in (case index_of cmd ''@'' of
                     None \<Rightarrow> Some (to_lower cmd, [], args)
                   | Some k \<Rightarrow> Some (to_lower (take k cmd), to_lower (drop (k + 1) cmd), args)))"

definition karenUserCommands :: "string list" where
  "karenUserCommands = [''dl'', ''check'', ''status'', ''queue'', ''scheduled'', ''pending'', ''start'', ''help'', ''profile'']"

definition isKarenUserCommand :: "string \<Rightarrow> bool" where
  "isKarenUserCommand cmd = (cmd \<in> set karenUserCommands \<or> has_prefix cmd ''stop_'' \<or> has_prefix cmd ''cancel_'')"

definition lockedNotice :: "users \<Rightarrow> string" where
  "lockedNotice us = (if uLockReason us \<noteq> [] then ''The bot is not available for services at this moment.'' @ [CHR 0x0A] @ ''Reason: '' @ uLockReason us
     else ''The bot is currently restricted to admins.'')"

text \<open>The flags of \<^verbatim>\<open>/dl\<close>, with or without the dash; a later delivery flag replaces an earlier one.\<close>

record dl_args =
  daAAC :: bool
  daAtmos :: bool
  daFlac :: bool
  daArt :: bool
  daNoCache :: bool
  daMode :: string
  daLinks :: "string list"

definition flag_arg :: "dl_args \<Rightarrow> string \<Rightarrow> dl_args" where
  "flag_arg a x =
     (if x \<in> {''-aac'', ''aac''} then a\<lparr>daAAC := True\<rparr>
      else if x \<in> {''-atmos'', ''atmos''} then a\<lparr>daAtmos := True\<rparr>
      else if x \<in> {''-flac'', ''flac''} then a\<lparr>daFlac := True\<rparr>
      else if x \<in> {''-art'', ''art''} then a\<lparr>daArt := True\<rparr>
      else if x \<in> {''-nc'', ''nc''} then a\<lparr>daNoCache := True\<rparr>
      else if x \<in> {''-tgu'', ''tgu''} then a\<lparr>daMode := transferModeTelegramIndividual\<rparr>
      else if x \<in> {''-tgz'', ''tgz''} then a\<lparr>daMode := transferModeTelegramZip\<rparr>
      else if x \<in> {''-go'', ''go''} then a\<lparr>daMode := transferModeGofileZip\<rparr>
      else a\<lparr>daLinks := daLinks a @ [x]\<rparr>)"

definition parse_flags :: "string list \<Rightarrow> dl_args" where
  "parse_flags args = foldl flag_arg
     \<lparr>daAAC = False, daAtmos = False, daFlac = False, daArt = False, daNoCache = False, daMode = [], daLinks = []\<rparr> args"

text \<open>What the flags leave open is filled from the saved profile.\<close>

definition seed_flags :: "users \<Rightarrow> user_id \<Rightarrow> dl_args \<Rightarrow> dl_args" where
  "seed_flags us u a =
     (if u \<noteq> 0 \<and> hasPrefs us u then
        (let p = getPrefs us u;
             a1 = (if \<not> daAAC a \<and> \<not> daAtmos a \<and> \<not> daFlac a then
                     (if pCodec p = ''aac'' then a\<lparr>daAAC := True\<rparr>
                      else if pCodec p = ''atmos'' then a\<lparr>daAtmos := True\<rparr>
                      else if pCodec p = ''flac'' then a\<lparr>daFlac := True\<rparr> else a)
                   else a)
         in if daMode a1 = [] then
              (if pDeliveryTarget p = ''telegram'' then a1\<lparr>daMode := transferModeTelegramIndividual\<rparr>
               else if pDeliveryTarget p = ''telegram_zip'' then a1\<lparr>daMode := transferModeTelegramZip\<rparr>
               else if pDeliveryTarget p = ''gofile'' then a1\<lparr>daMode := transferModeGofileZip\<rparr> else a1)
            else a1)
      else a)"

subsection \<open>Prompts\<close>

definition base_submission :: "chat_id \<Rightarrow> user_id \<Rightarrow> string \<Rightarrow> msg_id \<Rightarrow> dl_args \<Rightarrow> submission" where
  "base_submission chat u name reply a =
     \<lparr>suChat = chat, suUser = u, suName = name, suReplyTo = reply, suStatusMsg = 0, suMode = daMode a,
      suForceAAC = daAAC a, suForceAtmos = daAtmos a, suForceFlac = daFlac a, suNoCache = daNoCache a\<rparr>"

definition empty_transfer :: "submission \<Rightarrow> unix_sec \<Rightarrow> msg_id \<Rightarrow> pending_transfer" where
  "empty_transfer su now m =
     \<lparr>ptAlbumID = [], ptSongID = [], ptPlaylistID = [], ptStationID = [], ptMvID = [], ptMvStorefront = [], ptSingle = False,
      ptForceAAC = suForceAAC su, ptForceAtmos = suForceAtmos su, ptForceFlac = suForceFlac su, ptNoCache = suNoCache su,
      ptReplyTo = suReplyTo su, ptMessageID = m, ptCreatedAt = now, ptUserID = suUser su, ptBulk = []\<rparr>"

text \<open>A prompt is sent and kept for the chat: one per chat, the latest.\<close>

definition put_transfer :: "answers \<Rightarrow> submission \<Rightarrow> string \<Rightarrow> (pending_transfer \<Rightarrow> pending_transfer) \<Rightarrow> desk \<Rightarrow> action list \<times> desk" where
  "put_transfer an su text f dk =
     ([Ask text],
      case anSent an of
        None \<Rightarrow> dk
      | Some m \<Rightarrow> dk\<lparr>dkTransfers := (dkTransfers dk)(suChat su \<mapsto> f (empty_transfer su (anNow an) m))\<rparr>)"

definition promptTransferMode ::
  "answers \<Rightarrow> submission \<Rightarrow> string \<Rightarrow> string \<Rightarrow> string \<Rightarrow> string \<Rightarrow> bool \<Rightarrow> desk \<Rightarrow> action list \<times> desk" where
  "promptTransferMode an su albumID songID playlistID stationID single dk =
     put_transfer an su ''Choose transfer method:''
       (\<lambda>p. p\<lparr>ptAlbumID := albumID, ptSongID := songID, ptPlaylistID := playlistID, ptStationID := stationID, ptSingle := single\<rparr>) dk"

definition promptMvTransferMode :: "answers \<Rightarrow> submission \<Rightarrow> string \<Rightarrow> string \<Rightarrow> desk \<Rightarrow> action list \<times> desk" where
  "promptMvTransferMode an su storefront mvID dk =
     put_transfer an (su\<lparr>suForceAAC := False, suForceAtmos := False, suForceFlac := False\<rparr>) ''Choose transfer method:''
       (\<lambda>p. p\<lparr>ptMvID := mvID, ptMvStorefront := storefront, ptSingle := True\<rparr>) dk"

definition or_storefront :: "answers \<Rightarrow> string \<Rightarrow> string" where
  "or_storefront an storefront = (if storefront = [] then anStorefront an else storefront)"

definition mv_mode :: "string \<Rightarrow> string" where
  "mv_mode mode = (if mode = transferModeGofileZip then transferModeMvGofile else transferModeMv)"

text \<open>A music video goes to the queue without a name, a format or the codec flags.\<close>

definition enqueueMvDownload :: "answers \<Rightarrow> submission \<Rightarrow> string \<Rightarrow> string \<Rightarrow> string \<Rightarrow> action" where
  "enqueueMvDownload an su storefront mvID mode =
     QueueMv (su\<lparr>suName := [], suMode := mode, suForceAAC := False, suForceAtmos := False, suForceFlac := False\<rparr>)
       (or_storefront an storefront) mvID"

definition queueDownloadMvWithReply :: "answers \<Rightarrow> submission \<Rightarrow> string \<Rightarrow> string \<Rightarrow> desk \<Rightarrow> action list \<times> desk" where
  "queueDownloadMvWithReply an su storefront mvID dk =
     (if mvID = [] then ([Say ''Music video ID is empty.''], dk)
      else promptMvTransferMode an su (or_storefront an storefront) mvID dk)"

definition queueDownloadMvHeadless :: "answers \<Rightarrow> submission \<Rightarrow> string \<Rightarrow> string \<Rightarrow> action list" where
  "queueDownloadMvHeadless an su storefront mvID =
     (if mvID = [] then [Say ''Music video ID is empty.'']
      else [enqueueMvDownload an (su\<lparr>suStatusMsg := 0\<rparr>) storefront mvID (mv_mode (suMode su))])"

text \<open>A song is served from the cache or the catalog, or handed on to \<open>rest\<close>.\<close>

definition serve_or :: "answers \<Rightarrow> submission \<Rightarrow> string \<Rightarrow> (action list \<times> desk) \<Rightarrow> desk \<Rightarrow> action list \<times> desk" where
  "serve_or an su songID rest dk =
     (let format = desk_format dk (suChat su) (suForceFlac su);
          cat = effectiveCatalogFormat format (suForceAAC su) (suForceAtmos su)
      in if suNoCache su then rest
         else if anServed an songID format cat then ([TryServe songID format cat], dk)
         else (TryServe songID format cat # fst rest, snd rest))"

definition ask_for_song :: "answers \<Rightarrow> submission \<Rightarrow> string \<Rightarrow> desk \<Rightarrow> action list \<times> desk" where
  "ask_for_song an su songID dk =
     (if songID = [] then ([Say ''Song ID is empty.''], dk)
      else serve_or an su songID (promptTransferMode an su [] songID [] [] True dk) dk)"

definition queue_song :: "answers \<Rightarrow> submission \<Rightarrow> string \<Rightarrow> desk \<Rightarrow> action list \<times> desk" where
  "queue_song an su songID dk =
     serve_or an su songID ([QueueSong su (desk_format dk (suChat su) (suForceFlac su)) songID], dk) dk"

definition queueDownloadAlbumWithReply :: "answers \<Rightarrow> submission \<Rightarrow> string \<Rightarrow> desk \<Rightarrow> action list \<times> desk" where
  "queueDownloadAlbumWithReply an su albumID dk =
     (if albumID = [] then ([Say ''Album ID is empty.''], dk) else promptTransferMode an su albumID [] [] [] False dk)"

definition queueDownloadPlaylistWithReply :: "answers \<Rightarrow> submission \<Rightarrow> string \<Rightarrow> desk \<Rightarrow> action list \<times> desk" where
  "queueDownloadPlaylistWithReply an su playlistID dk =
     (if playlistID = [] then ([Say ''Playlist ID is empty.''], dk) else promptTransferMode an su [] [] playlistID [] False dk)"

definition queueDownloadStationWithReply :: "answers \<Rightarrow> submission \<Rightarrow> string \<Rightarrow> desk \<Rightarrow> action list \<times> desk" where
  "queueDownloadStationWithReply an su stationID dk =
     (if stationID = [] then ([Say ''Station ID is empty.''], dk) else promptTransferMode an su [] [] [] stationID False dk)"

definition enqueueStationDownload :: "submission \<Rightarrow> string \<Rightarrow> action list" where
  "enqueueStationDownload su stationID = (if stationID = [] then [Say ''Station ID is empty.''] else [QueueStation su stationID])"

definition queueDownloadArtwork :: "submission \<Rightarrow> string \<Rightarrow> action list" where
  "queueDownloadArtwork su link =
     (if snd (checkUrl link) = [] \<and> snd (checkUrlPlaylist link) = [] \<and> snd (checkUrlStation link) = []
      then [Say ''Artwork extraction supports album, playlist, and station links.'']
      else [QueueArt (su\<lparr>suName := [], suMode := transferModeArt, suForceAAC := False, suForceAtmos := False, suForceFlac := False,
              suNoCache := False\<rparr>) link])"

definition promptArtistScope :: "answers \<Rightarrow> artist_sel \<Rightarrow> desk \<Rightarrow> action list \<times> desk" where
  "promptArtistScope an sel dk =
     ([Ask ''Which part of this artist's catalog?''],
      case anSent an of
        None \<Rightarrow> dk
      | Some m \<Rightarrow> (if m = 0 then dk
          else dk\<lparr>dkArtists := (dkArtists dk)((alChat sel, m) \<mapsto> sel\<lparr>alCreatedAt := anNow an\<rparr>)\<rparr>))"

subsection \<open>\<^verbatim>\<open>/dl\<close> with one link\<close>

definition count_song :: "user_stats \<Rightarrow> user_stats" where "count_song t = t\<lparr>tSongRips := tSongRips t + 1\<rparr>"
definition count_album :: "user_stats \<Rightarrow> user_stats" where "count_album t = t\<lparr>tAlbumRips := tAlbumRips t + 1\<rparr>"
definition count_playlist :: "user_stats \<Rightarrow> user_stats" where "count_playlist t = t\<lparr>tPlaylistRips := tPlaylistRips t + 1\<rparr>"
definition count_artist :: "user_stats \<Rightarrow> user_stats" where "count_artist t = t\<lparr>tArtistRips := tArtistRips t + 1\<rparr>"

definition on_users :: "(users \<Rightarrow> users) \<Rightarrow> desk \<Rightarrow> desk" where
  "on_users f dk = dk\<lparr>dkUsers := f (dkUsers dk)\<rparr>"

definition bump :: "answers \<Rightarrow> user_id \<Rightarrow> (user_stats \<Rightarrow> user_stats) \<Rightarrow> desk \<Rightarrow> desk" where
  "bump an u f = on_users (bumpStats (anNow an) u f)"

definition song_of_link :: "answers \<Rightarrow> string \<Rightarrow> string" where
  "song_of_link an link =
     (let songID = snd (checkUrlSong link)
      in if songID = [] \<and> snd (checkUrl link) \<noteq> [] then anParam an link else songID)"

definition artist_link :: "answers \<Rightarrow> submission \<Rightarrow> string \<Rightarrow> desk \<Rightarrow> action list \<times> desk" where
  "artist_link an su link dk =
     (case denyIfRestrictedMember (dkUsers dk) (suUser su) (suName su) ''Artist and discography rips'' of
        (True, sent) \<Rightarrow> (map Say sent, dk)
      | (False, _) \<Rightarrow>
          let dk1 = bump an (suUser su) count_artist dk;
              sel = \<lparr>alChat = suChat su, alUser = suUser su, alName = suName su, alStorefront = fst (checkUrlArtist link),
                     alArtist = snd (checkUrlArtist link), alLink = link, alReplyTo = suReplyTo su, alForceAAC = suForceAAC su,
                     alForceAtmos = suForceAtmos su, alForceFlac = suForceFlac su, alCreatedAt = 0\<rparr>;
              section = artistURLSection link
          in if section \<noteq> [] \<and> snd (artistScopeFor section) then ([StartArtist sel section], dk1)
             else promptArtistScope an sel dk1)"

definition no_link_text :: "string \<Rightarrow> string" where
  "no_link_text link =
     (if trim_space link = [] then ''No Apple Music link found.''
      else if \<not> contains link ''music.apple.com'' then ''That doesn't look like an Apple Music link.''
      else ''Couldn't recognize that Apple Music link.'')"

text \<open>\<open>su\<close> carries the flags and the delivery mode, empty when none is chosen.\<close>

definition dl_link :: "answers \<Rightarrow> submission \<Rightarrow> string \<Rightarrow> desk \<Rightarrow> action list \<times> desk" where
  "dl_link an su link dk =
     (let u = suUser su; headless = (suMode su \<noteq> []); songID = song_of_link an link
      in if snd (checkUrlMv link) \<noteq> [] then
           (if headless then (queueDownloadMvHeadless an su (fst (checkUrlMv link)) (snd (checkUrlMv link)), dk)
            else queueDownloadMvWithReply an su (fst (checkUrlMv link)) (snd (checkUrlMv link)) dk)
         else if songID \<noteq> [] then
           (let dk1 = bump an u count_song dk
            in if headless then queue_song an (su\<lparr>suName := []\<rparr>) songID dk1 else ask_for_song an su songID dk1)
         else if snd (checkUrl link) \<noteq> [] then
           (let dk1 = bump an u count_album dk
            in if headless then ([QueueAlbum su (snd (checkUrl link))], dk1)
               else queueDownloadAlbumWithReply an su (snd (checkUrl link)) dk1)
         else if snd (checkUrlPlaylist link) \<noteq> [] then
           (let dk1 = bump an u count_playlist dk
            in if isAdmin (dkUsers dk1) u then
                 (if headless then ([QueuePlaylist su (snd (checkUrlPlaylist link))], dk1)
                  else queueDownloadPlaylistWithReply an su (snd (checkUrlPlaylist link)) dk1)
               else ([RoutePlaylist su (fst (checkUrlPlaylist link)) (snd (checkUrlPlaylist link)) link], dk1))
         else if snd (checkUrlStation link) \<noteq> [] then
           (if headless then (enqueueStationDownload (su\<lparr>suName := []\<rparr>) (snd (checkUrlStation link)), dk)
            else queueDownloadStationWithReply an su (snd (checkUrlStation link)) dk)
         else if snd (checkUrlArtist link) \<noteq> [] then artist_link an su link dk
         else ([Say (no_link_text link)], dk))"

subsection \<open>\<^verbatim>\<open>/dl\<close> with many links\<close>

definition classify_link :: "answers \<Rightarrow> string \<Rightarrow> bulk_item option" where
  "classify_link an raw =
     (let link = resolveAppleMusicURL (anPage an) raw;
          item = (\<lambda>k i. Some \<lparr>biKind = k, biID = i, biStorefront = []\<rparr>)
      in if snd (checkUrlMv link) \<noteq> [] then Some \<lparr>biKind = ''mv'', biID = snd (checkUrlMv link), biStorefront = fst (checkUrlMv link)\<rparr>
         else if snd (checkUrlSong link) \<noteq> [] then item ''song'' (snd (checkUrlSong link))
         else if snd (checkUrl link) \<noteq> [] then
           (if anParam an link \<noteq> [] then item ''song'' (anParam an link) else item ''album'' (snd (checkUrl link)))
         else if snd (checkUrlStation link) \<noteq> [] then item ''station'' (snd (checkUrlStation link))
         else None)"

definition enqueueBulkItem :: "answers \<Rightarrow> submission \<Rightarrow> bulk_item \<Rightarrow> desk \<Rightarrow> action list \<times> desk" where
  "enqueueBulkItem an su item dk =
     (if biKind item = ''song'' then queue_song an su (biID item) (bump an (suUser su) count_song dk)
      else if biKind item = ''album'' then
        (let dk1 = bump an (suUser su) count_album dk;
             format = desk_format dk1 (suChat su) (suForceFlac su)
         in if suMode su = transferModeGofileZip \<and> \<not> suNoCache su then
              (if anZip an (biID item) format then ([TryZip (biID item) format], dk1)
               else ([TryZip (biID item) format, QueueAlbum su (biID item)], dk1))
            else ([QueueAlbum su (biID item)], dk1))
      else if biKind item = ''station'' then (enqueueStationDownload su (biID item), dk)
      else if biKind item = ''mv'' then
        ([enqueueMvDownload an su (biStorefront item) (biID item) (mv_mode (suMode su))], dk)
      else ([], dk))"

fun enqueue_items :: "answers \<Rightarrow> submission \<Rightarrow> bulk_item list \<Rightarrow> desk \<Rightarrow> action list \<times> desk" where
  "enqueue_items an su [] dk = ([], dk)"
| "enqueue_items an su (it # its) dk =
     (case enqueueBulkItem an su it dk of (acts, dk1) \<Rightarrow>
        (case enqueue_items an su its dk1 of (acts', dk2) \<Rightarrow> (acts @ acts', dk2)))"

definition maxTasks :: "users \<Rightarrow> user_id \<Rightarrow> string \<Rightarrow> int" where
  "maxTasks us u name = (if isUserDonor us u name then 5 else 3)"

definition full_text :: "int \<Rightarrow> string" where
  "full_text n = ''You have reached the maximum number of pending tasks ('' @ itoa n @ '').''"

definition bulk_notes :: "int \<Rightarrow> nat \<Rightarrow> nat \<Rightarrow> action list" where
  "bulk_notes room overflow skipped =
     (let notes = (if 0 < overflow then [itoa (int overflow) @ '' beyond your remaining quota ('' @ itoa room @ '')''] else []) @
                  (if 0 < skipped then [itoa (int skipped) @ '' skipped''] else [])
      in if notes = [] then [] else [Say (''Bulk: '' @ join_with ''; '' notes @ ''.'')])"

definition handleBulkDl :: "answers \<Rightarrow> submission \<Rightarrow> string list \<Rightarrow> bool \<Rightarrow> desk \<Rightarrow> action list \<times> desk" where
  "handleBulkDl an su links forceArt dk =
     (if forceArt then ([Say ''-art isn't supported with bulk /dl.''], dk)
      else
        let most = maxTasks (dkUsers dk) (suUser su) (suName su);
            room = max 0 (most - anTasks an (suUser su));
            eligible = List.map_filter (classify_link an) links;
            skipped = length links - length eligible;
            accepted = take (nat room) eligible;
            overflow = length eligible - length accepted
        in if eligible = [] then ([Say ''No bulk-eligible links found.''], dk)
           else if room \<le> 0 then ([Say (full_text most)], dk)
           else if suMode su \<noteq> [] then
             (case enqueue_items an su accepted dk of (acts, dk1) \<Rightarrow> (acts @ bulk_notes room overflow skipped, dk1))
           else
             (case put_transfer an su (''Choose transfer method for all '' @ itoa (int (length accepted)) @ '' link(s):'')
                     (\<lambda>p. p\<lparr>ptBulk := accepted\<rparr>) dk of
                (acts, dk1) \<Rightarrow> (case anSent an of None \<Rightarrow> (acts, dk1)
                                | Some _ \<Rightarrow> (acts @ bulk_notes room overflow skipped, dk1))))"

definition dl_usage :: string where
  "dl_usage = ''Usage: /dl <apple-music-link> [-aac|-atmos] [-flac] [-art] [-nc] [-tgu|-tgz|-go]''"

definition handle_dl :: "answers \<Rightarrow> chat_id \<Rightarrow> user_id \<Rightarrow> string \<Rightarrow> string list \<Rightarrow> msg_id \<Rightarrow> desk \<Rightarrow> action list \<times> desk" where
  "handle_dl an chat u name args reply dk =
     (let most = maxTasks (dkUsers dk) u name
      in if most \<le> anTasks an u then ([Say (full_text most)], dk)
         else if args = [] then ([Say dl_usage], dk)
         else
           let a = seed_flags (dkUsers dk) u (parse_flags args);
               su = base_submission chat u name reply a
           in if 1 < length (daLinks a) then handleBulkDl an su (daLinks a) (daArt a) dk
              else let link = resolveAppleMusicURL (anPage an) (case daLinks a of [l] \<Rightarrow> l | _ \<Rightarrow> [])
                   in if daArt a then (queueDownloadArtwork su link, dk) else dl_link an su link dk)"

subsection \<open>Commands\<close>

definition count_command :: "string \<Rightarrow> user_stats \<Rightarrow> user_stats" where
  "count_command name t =
     (let t1 = t\<lparr>tTotalCommands := tTotalCommands t + 1\<rparr> in if name = [] then t1 else t1\<lparr>tUsername := name\<rparr>)"

definition cmd_auth :: "string list \<Rightarrow> desk \<Rightarrow> action list \<times> desk" where
  "cmd_auth args dk =
     (case args of
        [] \<Rightarrow> ([Say ''Bot reopened to all allowed users.''], on_users (setAdminLock False []) dk)
      | x # _ \<Rightarrow>
          (case parseUserRef x of (i, n) \<Rightarrow>
             if i = 0 \<and> n = [] then ([Say ''Usage: /auth''], dk)
             else ([Say (''Access restored for '' @ formatUserRef i n @ ''.'')], on_users (setUserBlocked i n False) dk)))"

definition cmd_unauth :: "string list \<Rightarrow> desk \<Rightarrow> action list \<times> desk" where
  "cmd_unauth args dk =
     (let lock = (let reason = trim_space (join_with '' '' args)
                  in ([Say (''Bot restricted to admins'' @ (if reason = [] then '''' else '' (reason: '' @ reason @ '')'') @ ''.'')],
                      on_users (setAdminLock True reason) dk))
      in case args of
           [x] \<Rightarrow>
             (case parseUserRef x of (i, n) \<Rightarrow>
                if i \<noteq> 0 \<or> n \<noteq> [] then
                  (if isAdmin (dkUsers dk) i then ([Say ''Can't revoke an admin's access.''], dk)
                   else ([Say (''Access revoked for '' @ formatUserRef i n @ ''.'')], on_users (setUserBlocked i n True) dk))
                else lock)
         | _ \<Rightarrow> lock)"

definition cmd_donor :: "bool \<Rightarrow> string list \<Rightarrow> desk \<Rightarrow> action list \<times> desk" where
  "cmd_donor grant args dk =
     (let usage = ([Say (if grant then ''Usage: /p <telegram-id | @username>'' else ''Usage: /d <telegram-id | @username>'')], dk)
      in case args of
           [] \<Rightarrow> usage
         | x # _ \<Rightarrow>
             (case parseUserRef x of (i, n) \<Rightarrow>
                if i = 0 \<and> n = [] then usage
                else ([Say (if grant then ''Donor perks granted to '' @ formatUserRef i n @ ''.''
                            else ''Donor perks removed from '' @ formatUserRef i n @ ''.'')],
                      on_users (setUserDonor i n grant) dk)))"

definition restrict_text :: "restrict_reply \<Rightarrow> string" where
  "restrict_text r = (case r of RestrictUsage \<Rightarrow> ''Usage: /restrict [on|off]'' | RestrictIsOn \<Rightarrow> ''Restriction mode is ON.''
     | RestrictIsOff \<Rightarrow> ''Restriction mode is OFF'')"

definition admin_command :: "string \<Rightarrow> string list \<Rightarrow> desk \<Rightarrow> action list \<times> desk" where
  "admin_command cmd args dk =
     (if cmd = ''auth'' then cmd_auth args dk
      else if cmd = ''unauth'' then cmd_unauth args dk
      else if cmd = ''restrict'' then
        (case handleRestrictCommand args (dkUsers dk) of (r, us) \<Rightarrow> ([Say (restrict_text r)], dk\<lparr>dkUsers := us\<rparr>))
      else if cmd = ''p'' then cmd_donor True args dk
      else if cmd = ''donors'' then ([Show ''donors''], dk)
      else if cmd = ''d'' then cmd_donor False args dk
      else if cmd = ''purge'' then ([Purge], dk)
      else if cmd = ''sys'' then ([Show ''sys''], dk)
      else if cmd = ''index'' then ([IndexDumps args], dk)
      else if cmd = ''stopall'' then ([StopAll], dk)
      else if cmd = ''restart'' then ([Restart], dk)
      else ([], dk))"

definition handleCommand ::
  "answers \<Rightarrow> chat_id \<Rightarrow> user_id \<Rightarrow> string \<Rightarrow> string \<Rightarrow> string list \<Rightarrow> msg_id \<Rightarrow> desk \<Rightarrow> action list \<times> desk" where
  "handleCommand an chat u name cmd args reply dk =
     (if uAdminLock (dkUsers dk) \<and> \<not> isAdmin (dkUsers dk) u then
        ((if isKarenUserCommand cmd then [Say (lockedNotice (dkUsers dk))] else []), dk)
      else
        let dk1 = bump an u (count_command name) dk
        in if has_prefix cmd ''stop_'' then ([CancelTask (drop 5 cmd)], dk1)
           else if has_prefix cmd ''cancel_'' then ([CancelJob (drop 7 cmd)], dk1)
           else if cmd \<in> {''scheduled'', ''pending''} then ([Show ''scheduled''], dk1)
           else if cmd \<in> {''start'', ''help''} then ([Show ''help''], dk1)
           else if cmd = ''profile'' then
             (if args \<noteq> [] \<and> isAdmin (dkUsers dk1) u then ([ShowProfileOf (hd args)], dk1) else ([Show ''profile''], dk1))
           else if cmd \<in> {''status'', ''queue''} then ([Show ''status''], dk1)
           else if cmd = ''dl'' then handle_dl an chat u name args reply dk1
           else if cmd = ''check'' then (if args = [] then ([Say ''Usage: /check''], dk1) else ([CheckLink (hd args)], dk1))
           else if isAdmin (dkUsers dk1) u then admin_command cmd args dk1
           else ([], dk1))"

subsection \<open>Buttons\<close>

definition clear_transfer :: "chat_id \<Rightarrow> desk \<Rightarrow> desk" where
  "clear_transfer chat dk = dk\<lparr>dkTransfers := (dkTransfers dk)(chat := None)\<rparr>"

definition real_mode :: "string \<Rightarrow> string" where
  "real_mode mode = (if mode = transferModeOneByOne then transferModeTelegramIndividual
     else if mode = transferModeZip then transferModeGofileZip else mode)"

definition transfer_submission :: "chat_id \<Rightarrow> user_id \<Rightarrow> string \<Rightarrow> msg_id \<Rightarrow> string \<Rightarrow> pending_transfer \<Rightarrow> submission" where
  "transfer_submission chat u name m mode p =
     \<lparr>suChat = chat, suUser = u, suName = name, suReplyTo = ptReplyTo p, suStatusMsg = m, suMode = mode,
      suForceAAC = ptForceAAC p, suForceAtmos = ptForceAtmos p, suForceFlac = ptForceFlac p, suNoCache = ptNoCache p\<rparr>"

definition start_text :: "answers \<Rightarrow> string" where
  "start_text an = (case anBusy an of (inProgress, queueLen) \<Rightarrow>
     if inProgress \<or> 0 < queueLen then ''Queued. Position: '' @ itoa (int queueLen + 1) else ''Starting download...'')"

text \<open>The work a chosen mode starts.\<close>

definition transfer_work :: "answers \<Rightarrow> submission \<Rightarrow> pending_transfer \<Rightarrow> desk \<Rightarrow> action list" where
  "transfer_work an su p dk =
     (let format = desk_format dk (suChat su) (suForceFlac su)
      in if ptMvID p \<noteq> [] then [enqueueMvDownload an su (ptMvStorefront p) (ptMvID p) (mv_mode (suMode su))]
         else if ptSingle p \<and> ptSongID p \<noteq> [] then [QueueSong su format (ptSongID p)]
         else if ptPlaylistID p \<noteq> [] then [QueuePlaylist su (ptPlaylistID p)]
         else if ptStationID p \<noteq> [] then enqueueStationDownload su (ptStationID p)
         else if ptAlbumID p \<noteq> [] then
           (if suMode su = transferModeGofileZip \<and> \<not> ptNoCache p then
              TryZip (ptAlbumID p) format # (if anZip an (ptAlbumID p) format then [] else [QueueAlbum su (ptAlbumID p)])
            else [QueueAlbum su (ptAlbumID p)])
         else [])"

definition handleTransferMode ::
  "answers \<Rightarrow> chat_id \<Rightarrow> msg_id \<Rightarrow> string \<Rightarrow> string \<Rightarrow> user_id \<Rightarrow> desk \<Rightarrow> string \<times> action list \<times> desk" where
  "handleTransferMode an chat m mode0 name u dk =
     (case dkTransfers dk chat of
        None \<Rightarrow> ([], [], dk)
      | Some p \<Rightarrow>
          if ptMessageID p \<noteq> 0 \<and> m \<noteq> ptMessageID p then ([], [], dk)
          else if ptUserID p \<noteq> 0 \<and> u \<noteq> ptUserID p then (''This isn't your download.'', [], dk)
          else if pendingTTL < anNow an - ptCreatedAt p then
            ([], [Edit ''Selection expired. Please request again.''], clear_transfer chat dk)
          else
            let dk1 = clear_transfer chat dk; mode = real_mode mode0; su = transfer_submission chat u name m mode p
            in if mode0 = transferModeCancel then ([], [Edit ''Download cancelled.''], dk1)
               else if ptBulk p \<noteq> [] then
                 (case enqueue_items an (su\<lparr>suStatusMsg := 0\<rparr>) (ptBulk p) dk1 of (acts, dk2) \<Rightarrow>
                    ([], acts @ [Edit (''Queuing '' @ itoa (int (length (ptBulk p))) @ '' link(s)'')], dk2))
               else ([], Edit (start_text an) # transfer_work an su p dk1, dk1))"

definition handleArtistScope ::
  "answers \<Rightarrow> chat_id \<Rightarrow> msg_id \<Rightarrow> string \<Rightarrow> user_id \<Rightarrow> desk \<Rightarrow> string \<times> action list \<times> desk" where
  "handleArtistScope an chat m choice u dk =
     (case dkArtists dk (chat, m) of
        None \<Rightarrow> ([], [], dk)
      | Some sel \<Rightarrow>
          if alUser sel \<noteq> 0 \<and> u \<noteq> alUser sel then (''This isn't your selection.'', [], dk)
          else
            let dk1 = dk\<lparr>dkArtists := (dkArtists dk)((chat, m) := None)\<rparr>
            in if pendingTTL < anNow an - alCreatedAt sel then ([], [Edit ''Selection expired''], dk1)
               else if choice = ''cancel'' then ([], [Edit ''Cancelled.''], dk1)
               else case artistScopeFor choice of
                      (_, False) \<Rightarrow> ([], [Edit ''Unknown option.''], dk1)
                    | (scope, True) \<Rightarrow> ([], [Edit (''Selected: '' @ asLabel scope @ ''.''), StartArtist sel choice], dk1))"

text \<open>What \<open>StartArtist\<close> runs, in a goroutine of its own.\<close>

datatype artist_start = ArtistNow artist_reply | ArtistDenied "string list" | ArtistLater sleep_reply

definition startArtistScope ::
  "surroundings \<Rightarrow> apple \<Rightarrow> artist_sel \<Rightarrow> string \<Rightarrow> users \<times> sched \<Rightarrow> artist_start \<times> users \<times> sched" where
  "startArtistScope sg ap sel section st =
     (case st of (us, s) \<Rightarrow>
      if isAdmin us (alUser sel) then
        (case runArtistRipScoped sg ap
                \<lparr>suChat = alChat sel, suUser = alUser sel, suName = alName sel, suReplyTo = alReplyTo sel, suStatusMsg = 0,
                 suMode = transferModeGofileZip, suForceAAC = alForceAAC sel, suForceAtmos = alForceAtmos sel,
                 suForceFlac = alForceFlac sel, suNoCache = False\<rparr> (alStorefront sel) (alArtist sel) section [] s of
           (r, s1) \<Rightarrow> (ArtistNow r, us, s1))
      else case denyIfRestrictedMember us (alUser sel) (alName sel) ''Artist and discography rips'' of
             (True, sent) \<Rightarrow> (ArtistDenied sent, us, s)
           | (False, _) \<Rightarrow>
               (case scheduleOrRun sg ap
                   \<lparr>jID = [], jKind = ''artist'', jSection = section, jChatID = alChat sel, jUserID = alUser sel,
                    jUsername = alName sel, jReplyToID = alReplyTo sel, jLink = alLink sel, jStorefront = alStorefront sel,
                    jResourceID = alArtist sel, jForceAAC = alForceAAC sel, jForceAtmos = alForceAtmos sel,
                    jForceFlac = alForceFlac sel, jReleaseAtUnix = 0, jCreatedAtUnix = 0, jQuotaChargeID = []\<rparr> (us, s) of
                  (r, us1, s1) \<Rightarrow> (ArtistLater r, us1, s1)))"

record tg_message =
  mgChat :: chat_id
  mgPrivate :: bool
  mgUser :: user_id
  mgName :: string
  mgText :: string
  mgID :: msg_id

text \<open>Who is heard: in a private chat admins and donors, elsewhere the allowed chats.\<close>

definition heard :: "answers \<Rightarrow> users \<Rightarrow> chat_id \<Rightarrow> bool \<Rightarrow> user_id \<Rightarrow> string \<Rightarrow> bool" where
  "heard an us chat private u name =
     (if private then isAdmin us u \<or> isUserDonor us u name else isAllowedChat an chat)"

definition handleMessage :: "answers \<Rightarrow> tg_message \<Rightarrow> desk \<Rightarrow> action list \<times> desk" where
  "handleMessage an msg dk =
     (let us = dkUsers dk; u = mgUser msg; name = mgName msg; text = trim_space (mgText msg)
      in if mgText msg = [] then ([], dk)
         else if \<not> heard an us (mgChat msg) (mgPrivate msg) u name then
           ((if mgPrivate msg then [Say ''This bot only operates in specific groups.''] else []), dk)
         else if isBlockedUser us u name then
           (case markBlockNotified u us of (told, us1) \<Rightarrow>
              ((if told then [Say ''You no longer have access to this bot.''] else []), dk\<lparr>dkUsers := us1\<rparr>))
         else
           let (used, reports) = (if has_prefix text ''/'' then (None, dkReports dk)
                 else consumeReportReason (anNow an) (anAdmins an) (anReach an) (mgChat msg) u name text (dkReports dk));
               dk1 = dk\<lparr>dkReports := reports\<rparr>
           in case used of
                Some (ack, sent) \<Rightarrow> ([Report sent], dk1)
              | None \<Rightarrow>
                  (case parseCommand text of
                     None \<Rightarrow> ([], dk1)
                   | Some (cmd, mention, args) \<Rightarrow>
                       if mention \<noteq> [] \<and> anSelf an \<noteq> [] \<and> mention \<noteq> anSelf an then ([], dk1)
                       else handleCommand an (mgChat msg) u name cmd args (mgID msg) dk1))"

record tap =
  tpChat :: chat_id
  tpPrivate :: bool
  tpUser :: user_id
  tpName :: string
  tpMsg :: msg_id
  tpData :: string

text \<open>The result is the text of the toast, empty for none.\<close>

definition route_tap :: "answers \<Rightarrow> tap \<Rightarrow> string \<Rightarrow> desk \<Rightarrow> string \<times> action list \<times> desk" where
  "route_tap an tp data dk =
     (let chat = tpChat tp; m = tpMsg tp; u = tpUser tp; name = tpName tp; rest = (\<lambda>n. drop n data)
      in if has_prefix data ''sel:'' then
           (case parse_int64 (rest 4) of
              (_, None) \<Rightarrow> ([], [Say ''No active selection. Start with /search_song or /search_album.''], dk)
            | (_, Some _) \<Rightarrow> ([], [], dk))
         else if has_prefix data ''setting:'' then
           (case setChatFormat chat (rest 8) dk of (n, dk1) \<Rightarrow>
              ([], if n = [] then [] else [Edit (''Download format set to '' @ map upper_byte n @ ''.'')], dk1))
         else if has_prefix data ''album_transfer:'' then handleTransferMode an chat m (rest 15) name u dk
         else if has_prefix data ''transfer:'' then handleTransferMode an chat m (rest 9) name u dk
         else if has_prefix data ''page:'' then ([], [], dk)
         else if has_prefix data ''help:'' then ([], [HelpTap data], dk)
         else if has_prefix data ''pf:'' then ([], [ProfileTap data], dk)
         else if has_prefix data ''artsel:'' then handleArtistScope an chat m (rest 7) u dk
         else if has_prefix data ''report:'' then
           (case handleReportButton (anUp an) (anNow an) (anCatalog an) chat (rest 7) u (dkReports dk) of
              (alert, reports) \<Rightarrow> (alert, [], dk\<lparr>dkReports := reports\<rparr>))
         else ([], [], dk))"

definition handleCallback :: "answers \<Rightarrow> tap \<Rightarrow> desk \<Rightarrow> string \<times> action list \<times> desk" where
  "handleCallback an tp dk =
     (let us = dkUsers dk; u = tpUser tp
      in if \<not> heard an us (tpChat tp) (tpPrivate tp) u (tpName tp) then ([], [], dk)
         else if isBlockedUser us u (tpName tp) then (''You no longer have access to this bot.'', [], dk)
         else if uAdminLock us \<and> \<not> isAdmin us u then (lockedNotice us, [], dk)
         else route_tap an tp (trim_space (tpData tp)) dk)"

end
