(* ===== verification/Desk_Safety.thy ===== *)
theory Desk_Safety
  imports Commands
begin

section \<open>What the front desk allows\<close>

text \<open>
  Who may change who may use the bot, what the shut out can do, how many tasks one command starts, that a
  prompt is answered once and by its owner, that a delivery flag and a button ask for the same work, and two ways in
  which prompts go wrong.  Each handler has one lemma per predicate (\<open>modest\<close>, \<open>humble\<close>, \<open>prompts_ok\<close>); the properties
  follow them along the branches.
\<close>

subsection \<open>Who may change who may do what\<close>

definition access :: "users \<Rightarrow> (user_id set \<times> bool \<times> string \<times> bool) \<times> (user_id set \<times> string set) \<times> (user_id set \<times> string set)" where
  "access us = ((uAdmins us, uAdminLock us, uLockReason us, uRestriction us), (uBlockedIDs us, uBlockedNames us),
     (uDonorIDs us, uDonorNames us))"

definition admin_action :: "action \<Rightarrow> bool" where
  "admin_action a = (case a of Purge \<Rightarrow> True | IndexDumps _ \<Rightarrow> True | StopAll \<Rightarrow> True | Restart \<Rightarrow> True
     | ShowProfileOf _ \<Rightarrow> True | Show t \<Rightarrow> t = ''donors'' \<or> t = ''sys'' | _ \<Rightarrow> False)"

lemma access_isAdmin: "access us = access us' \<Longrightarrow> isAdmin us = isAdmin us'"
  by (auto simp: access_def isAdmin_def fun_eq_iff)

lemma access_bump [simp]: "access (bumpStats now u f us) = access us"
  by (simp add: access_def bumpStats_def Let_def split: option.splits)

lemma bump_frame [simp]:
  "access (dkUsers (bump an u f dk)) = access (dkUsers dk)" "dkTransfers (bump an u f dk) = dkTransfers dk"
  "dkArtists (bump an u f dk) = dkArtists dk" "dkFormats (bump an u f dk) = dkFormats dk" "dkReports (bump an u f dk) = dkReports dk"
  by (simp_all add: bump_def on_users_def)

lemma isAdmin_bump [simp]: "isAdmin (dkUsers (bump an u f dk)) = isAdmin (dkUsers dk)"
  by (rule access_isAdmin) simp

definition starts_work :: "action \<Rightarrow> bool" where
  "starts_work a = (case a of QueueSong _ _ _ \<Rightarrow> True | QueueAlbum _ _ \<Rightarrow> True | QueuePlaylist _ _ \<Rightarrow> True | QueueStation _ _ \<Rightarrow> True
     | QueueMv _ _ _ \<Rightarrow> True | QueueArt _ _ \<Rightarrow> True | RoutePlaylist _ _ _ _ \<Rightarrow> True | StartArtist _ _ \<Rightarrow> True | _ \<Rightarrow> False)"

text \<open>Handlers that work for a user: the access stays, no action of an administrator, at most \<open>n\<close> tasks.\<close>

definition modest :: "nat \<Rightarrow> desk \<Rightarrow> action list \<times> desk \<Rightarrow> bool" where
  "modest n dk r = (access (dkUsers (snd r)) = access (dkUsers dk) \<and> list_all (\<lambda>a. \<not> admin_action a) (fst r) \<and>
     length (filter starts_work (fst r)) \<le> n)"

lemma modest_pair: "modest n dk (acts, dk') \<longleftrightarrow> access (dkUsers dk') = access (dkUsers dk) \<and>
    list_all (\<lambda>a. \<not> admin_action a) acts \<and> length (filter starts_work acts) \<le> n"
  by (simp add: modest_def)

lemma modest_put: "modest n dk (put_transfer an su t f dk)"
  by (auto simp: modest_def put_transfer_def admin_action_def starts_work_def split: option.splits)

lemma modest_serve: "modest n dk r \<Longrightarrow> modest n dk (serve_or an su i r dk)"
  by (auto simp: modest_def serve_or_def admin_action_def starts_work_def Let_def)

lemma modest_bump: "modest n (bump an u f dk) r \<longleftrightarrow> modest n dk r"
  by (simp add: modest_def)

lemma modest_if: "modest n dk x \<Longrightarrow> modest n dk y \<Longrightarrow> modest n dk (if b then x else y)"
  by simp

lemmas prompt_defs = promptTransferMode_def promptMvTransferMode_def queueDownloadMvWithReply_def queueDownloadAlbumWithReply_def
  queueDownloadPlaylistWithReply_def queueDownloadStationWithReply_def ask_for_song_def

lemma modest_artist: "modest (Suc 0) dk (artist_link an su link dk)"
  by (auto simp: modest_def artist_link_def promptArtistScope_def admin_action_def denyIfRestrictedMember_def starts_work_def Let_def
      split: option.splits if_splits)

lemma modest_queue_song: "modest (Suc 0) dk (queue_song an su i dk)"
  unfolding queue_song_def by (rule modest_serve) (simp add: modest_pair admin_action_def starts_work_def)

lemma modest_prompts:
  "modest n dk (queueDownloadMvWithReply an su sf i dk)" "modest n dk (queueDownloadAlbumWithReply an su i dk)"
  "modest n dk (queueDownloadPlaylistWithReply an su i dk)" "modest n dk (queueDownloadStationWithReply an su i dk)"
  "modest n dk (ask_for_song an su i dk)"
  by (auto simp: prompt_defs modest_put modest_pair admin_action_def starts_work_def intro: modest_serve)

lemma modest_dl_link: "modest (Suc 0) dk (dl_link an su link dk)"
proof -
  have [simp]: "modest n dk (f (bump an u g dk))" if "\<And>d. modest n d (f d)" for n f u g using that modest_bump by blast
  show ?thesis
    unfolding dl_link_def Let_def
    by (intro modest_if modest_artist; simp add: modest_prompts modest_queue_song modest_bump [symmetric, of _ dk] modest_pair admin_action_def
        starts_work_def enqueueStationDownload_def queueDownloadMvHeadless_def enqueueMvDownload_def)
qed

lemma modest_bulk_item: "modest (Suc 0) dk (enqueueBulkItem an su it dk)"
proof -
  have [simp]: "modest n dk (f (bump an u g dk))" if "\<And>d. modest n d (f d)" for n f u g using that modest_bump by blast
  show ?thesis
    unfolding enqueueBulkItem_def Let_def
    by (intro modest_if; simp add: modest_queue_song modest_pair admin_action_def starts_work_def enqueueStationDownload_def enqueueMvDownload_def)
qed

lemma modest_items: "modest (length its) dk (enqueue_items an su its dk)"
proof (induction its arbitrary: dk)
  case Nil
  then show ?case by (simp add: modest_pair)
next
  case (Cons it its)
  obtain a1 d1 where 1: "enqueueBulkItem an su it dk = (a1, d1)" by fastforce
  obtain a2 d2 where 2: "enqueue_items an su its d1 = (a2, d2)" by fastforce
  show ?case using modest_bulk_item [of dk an su it] Cons [of d1] by (auto simp: 1 2 modest_pair)
qed

lemma modest_mono: "modest n dk r \<Longrightarrow> n \<le> m \<Longrightarrow> modest m dk r"
  by (simp add: modest_def)

lemma modest_add: "modest n dk (acts, dk') \<Longrightarrow> list_all (\<lambda>a. \<not> admin_action a \<and> \<not> starts_work a) bs \<Longrightarrow> modest n dk (acts @ bs, dk')"
  by (auto simp: modest_pair list_all_iff filter_empty_conv)

lemma bulk_notes_quiet: "list_all (\<lambda>a. \<not> admin_action a \<and> \<not> starts_work a) (bulk_notes r v k)"
  by (simp add: bulk_notes_def admin_action_def starts_work_def Let_def)

lemma modest_bulk: "modest (nat (maxTasks (dkUsers dk) (suUser su) (suName su) - anTasks an (suUser su))) dk (handleBulkDl an su links art dk)"
proof -
  let ?n = "nat (maxTasks (dkUsers dk) (suUser su) (suName su) - anTasks an (suUser su))"
  let ?acc = "take ?n (List.map_filter (classify_link an) links)"
  have r: "nat (max 0 (maxTasks (dkUsers dk) (suUser su) (suName su) - anTasks an (suUser su))) = ?n" by simp
  have say: "modest ?n dk ([Say t], dk)" for t by (simp add: modest_pair admin_action_def starts_work_def)
  obtain a1 d1 where 1: "enqueue_items an su ?acc dk = (a1, d1)" by fastforce
  have m1: "modest ?n dk (a1, d1)" using modest_mono [OF modest_items [of ?acc dk an su]] 1 by simp
  have headless: "modest ?n dk (case enqueue_items an su ?acc dk of (acts, dk1) \<Rightarrow> (acts @ bulk_notes r v k, dk1))" for r v k
    using modest_add [OF m1 bulk_notes_quiet] by (simp add: 1)
  have prompted: "modest ?n dk (case put_transfer an su t f dk of (acts, dk1) \<Rightarrow>
      (case anSent an of None \<Rightarrow> (acts, dk1) | Some _ \<Rightarrow> (acts @ bulk_notes r v k, dk1)))" for t f r v k
  proof -
    obtain a2 d2 where 2: "put_transfer an su t f dk = (a2, d2)" by fastforce
    have "modest ?n dk (a2, d2)" using modest_put [of ?n dk an su t f] 2 by simp
    then show ?thesis using modest_add [OF _ bulk_notes_quiet] by (cases "anSent an") (simp_all add: 2)
  qed
  show ?thesis
    unfolding handleBulkDl_def Let_def r by (simp only: say headless prompted split: if_split) simp
qed

lemma modest_dl: "modest (nat (maxTasks (dkUsers dk) u name - anTasks an u)) dk (handle_dl an chat u name args reply dk)"
proof -
  let ?m = "nat (maxTasks (dkUsers dk) u name - anTasks an u)"
  let ?su = "base_submission chat u name reply (seed_flags (dkUsers dk) u (parse_flags args))"
  have b: "suUser ?su = u" "suName ?su = name" by (simp_all add: base_submission_def)
  have say: "modest n dk ([Say t], dk)" for n t by (simp add: modest_pair admin_action_def starts_work_def)
  show ?thesis
  proof (cases "maxTasks (dkUsers dk) u name \<le> anTasks an u")
    case True
    then show ?thesis by (simp add: handle_dl_def Let_def say)
  next
    case False
    then have m: "Suc 0 \<le> ?m" by simp
    have art: "modest ?m dk (queueDownloadArtwork ?su l, dk)" for l
      using m by (auto simp: queueDownloadArtwork_def modest_pair admin_action_def starts_work_def)
    show ?thesis
      using False art modest_mono [OF modest_dl_link m] modest_bulk [of dk ?su an] say
      by (simp add: handle_dl_def Let_def b)
  qed
qed

subsection \<open>A run of updates\<close>

datatype update = Message tg_message | Tap tap

definition sender :: "update \<Rightarrow> user_id" where
  "sender up = (case up of Message m \<Rightarrow> mgUser m | Tap t \<Rightarrow> tpUser t)"

definition serve_update :: "answers \<Rightarrow> update \<Rightarrow> desk \<Rightarrow> action list \<times> desk" where
  "serve_update an up dk = (case up of Message m \<Rightarrow> handleMessage an m dk | Tap t \<Rightarrow> snd (handleCallback an t dk))"

fun run_desk :: "(answers \<times> update) list \<Rightarrow> desk \<Rightarrow> action list \<times> desk" where
  "run_desk [] dk = ([], dk)"
| "run_desk ((an, up) # ups) dk =
     (case serve_update an up dk of (acts, dk1) \<Rightarrow> (case run_desk ups dk1 of (acts', dk2) \<Rightarrow> (acts @ acts', dk2)))"

definition humble :: "desk \<Rightarrow> action list \<times> desk \<Rightarrow> bool" where
  "humble dk r = (access (dkUsers (snd r)) = access (dkUsers dk) \<and> list_all (\<lambda>a. \<not> admin_action a) (fst r))"

lemma humble_pair: "humble dk (acts, dk') \<longleftrightarrow> access (dkUsers dk') = access (dkUsers dk) \<and> list_all (\<lambda>a. \<not> admin_action a) acts"
  by (simp add: humble_def)

lemma humble_if: "humble dk x \<Longrightarrow> humble dk y \<Longrightarrow> humble dk (if b then x else y)"
  by simp

lemma humble_snd_if: "humble dk (snd x) \<Longrightarrow> humble dk (snd y) \<Longrightarrow> humble dk (snd (if b then x else y))"
  by simp

lemma modest_humble: "modest n dk r \<Longrightarrow> humble dk r"
  by (simp add: modest_def humble_def)

lemma transfer_work_humble: "list_all (\<lambda>a. \<not> admin_action a) (transfer_work an su p dk)"
  by (auto simp: transfer_work_def admin_action_def enqueueMvDownload_def enqueueStationDownload_def Let_def)

lemma transfer_humble: "humble dk (snd (handleTransferMode an chat m mode name u dk))"
proof -
  have c: "dkUsers (clear_transfer chat dk) = dkUsers dk" by (simp add: clear_transfer_def)
  have e: "\<not> admin_action (Edit t)" for t by (simp add: admin_action_def)
  have items: "humble dk (snd (case enqueue_items an su its (clear_transfer chat dk) of (acts, dk2) \<Rightarrow> (t, acts @ [Edit t'], dk2)))"
    for su its t t'
    using modest_items [of its "clear_transfer chat dk" an su] e
    by (cases "enqueue_items an su its (clear_transfer chat dk)") (simp add: modest_pair humble_pair c)
  show ?thesis
    unfolding handleTransferMode_def Let_def
    by (cases "dkTransfers dk chat") (simp_all add: items c e humble_pair transfer_work_humble)
qed

lemma artist_scope_humble: "humble dk (snd (handleArtistScope an chat m choice u dk))"
  unfolding handleArtistScope_def Let_def by (auto simp: humble_pair admin_action_def split: option.splits prod.splits bool.splits)

lemma route_humble: "humble dk (snd (route_tap an tp data dk))"
  unfolding route_tap_def Let_def
  by (intro humble_snd_if transfer_humble artist_scope_humble)
     (auto simp: humble_pair admin_action_def setChatFormat_def Let_def split: prod.split option.split)

lemma callback_humble: "humble dk (snd (handleCallback an tp dk))"
  unfolding handleCallback_def Let_def by (simp add: route_humble humble_pair)

lemma command_humble:
  assumes "\<not> isAdmin (dkUsers dk) u"
  shows "humble dk (handleCommand an chat u name cmd args reply dk)"
proof -
  let ?dk1 = "bump an u (count_command name) dk"
  have "humble ?dk1 (handle_dl an chat u name args reply ?dk1)" by (rule modest_humble [OF modest_dl])
  then have d: "humble dk (handle_dl an chat u name args reply ?dk1)" by (simp add: humble_def)
  show ?thesis
    unfolding handleCommand_def Let_def
    unfolding isAdmin_bump
    by (simp only: assms simp_thms if_False if_True) (intro humble_if d; simp add: humble_pair admin_action_def)
qed

lemma message_humble:
  assumes "\<not> isAdmin (dkUsers dk) (mgUser msg)"
  shows "humble dk (handleMessage an msg dk)"
proof -
  have n: "markBlockNotified u us = (x, us') \<Longrightarrow> access us' = access us" for u us x us'
    by (auto simp: markBlockNotified_def access_def split: if_splits)
  have c: "humble dk (handleCommand an chat (mgUser msg) name cmd args reply (dk\<lparr>dkReports := rs\<rparr>))" for chat name cmd args reply rs
    using command_humble [of "dk\<lparr>dkReports := rs\<rparr>" "mgUser msg"] assms by (simp add: humble_def)
  show ?thesis
    unfolding handleMessage_def Let_def
    using n command_humble [OF assms] c
    by (intro humble_if) (simp_all add: humble_pair admin_action_def humble_if split: prod.split option.split)
qed

text \<open>
  C14: Only administrators change who may use the bot.  In every run of messages and button taps in which no
  administrator takes part, the lock and its reason, the member limits, the bans and the donors stay as they are, and nothing is
  purged, stopped for everybody, indexed or restarted.
\<close>

theorem only_admins_change_access:
  assumes "\<forall>(an, up) \<in> set ups. \<not> isAdmin (dkUsers dk) (sender up)"
  shows "access (dkUsers (snd (run_desk ups dk))) = access (dkUsers dk) \<and> (\<forall>a \<in> set (fst (run_desk ups dk)). \<not> admin_action a)"
  using assms
proof (induction ups dk rule: run_desk.induct)
  case (1 dk)
  then show ?case by simp
next
  case (2 an up ups dk)
  have na: "\<not> isAdmin (dkUsers dk) (sender up)" using 2(2) by simp
  obtain a1 d1 where 1: "serve_update an up dk = (a1, d1)" by fastforce
  obtain a2 d2 where r: "run_desk ups d1 = (a2, d2)" by fastforce
  have h: "humble dk (a1, d1)"
    using na message_humble callback_humble unfolding 1 [symmetric] serve_update_def sender_def by (cases up) auto
  then have "isAdmin (dkUsers d1) = isAdmin (dkUsers dk)" by (intro access_isAdmin) (simp add: humble_def)
  then have "\<forall>(an, up) \<in> set ups. \<not> isAdmin (dkUsers d1) (sender up)" using 2(2) by auto
  from 2(1) [OF 1 [symmetric] this] h r show ?case by (auto simp: 1 humble_def list_all_iff)
qed

definition shut_out :: "answers \<Rightarrow> desk \<Rightarrow> update \<Rightarrow> bool" where
  "shut_out an dk up = (let us = dkUsers dk in case up of
      Message m \<Rightarrow> \<not> heard an us (mgChat m) (mgPrivate m) (mgUser m) (mgName m) \<or> isBlockedUser us (mgUser m) (mgName m) \<or>
        uAdminLock us \<and> \<not> isAdmin us (mgUser m)
    | Tap t \<Rightarrow> \<not> heard an us (tpChat t) (tpPrivate t) (tpUser t) (tpName t) \<or> isBlockedUser us (tpUser t) (tpName t) \<or>
        uAdminLock us \<and> \<not> isAdmin us (tpUser t))"

definition only_talk :: "action \<Rightarrow> bool" where
  "only_talk a = (case a of Say _ \<Rightarrow> True | Report _ \<Rightarrow> True | _ \<Rightarrow> False)"


subsection \<open>Prompts are answered once, by the user they were made for\<close>

text \<open>A handler keeps, drops, or makes a prompt, and one it makes is under the message just sent.\<close>

definition prompts_ok :: "answers \<Rightarrow> desk \<Rightarrow> action list \<times> desk \<Rightarrow> bool" where
  "prompts_ok an dk r = (\<forall>c. dkTransfers (snd r) c \<in> {dkTransfers dk c, None} \<or>
     (\<exists>p. dkTransfers (snd r) c = Some p \<and> anSent an = Some (ptMessageID p)))"

lemma prompts_pair: "dkTransfers dk' = dkTransfers dk \<Longrightarrow> prompts_ok an dk (acts, dk')"
  by (simp add: prompts_ok_def)

lemma prompts_if: "prompts_ok an dk x \<Longrightarrow> prompts_ok an dk y \<Longrightarrow> prompts_ok an dk (if b then x else y)"
  by simp

lemma prompts_put: "(\<And>p. ptMessageID (f p) = ptMessageID p) \<Longrightarrow> prompts_ok an dk (put_transfer an su t f dk)"
  by (auto simp: prompts_ok_def put_transfer_def empty_transfer_def split: option.splits)

lemma prompts_serve: "prompts_ok an dk r \<Longrightarrow> prompts_ok an dk (serve_or an su i r dk)"
  by (auto simp: prompts_ok_def serve_or_def Let_def)

lemma prompts_bump: "prompts_ok an (bump an u f dk) r \<longleftrightarrow> prompts_ok an dk r"
  by (simp add: prompts_ok_def)

lemma prompts_prompts:
  "prompts_ok an dk (queueDownloadMvWithReply an su sf i dk)" "prompts_ok an dk (queueDownloadAlbumWithReply an su i dk)"
  "prompts_ok an dk (queueDownloadPlaylistWithReply an su i dk)" "prompts_ok an dk (queueDownloadStationWithReply an su i dk)"
  "prompts_ok an dk (ask_for_song an su i dk)" "prompts_ok an dk (queue_song an su i dk)"
  by (auto simp: prompt_defs queue_song_def prompts_put prompts_pair intro!: prompts_serve)

lemma prompts_artist: "prompts_ok an dk (artist_link an su link dk)"
  by (auto simp: prompts_ok_def artist_link_def promptArtistScope_def denyIfRestrictedMember_def Let_def split: option.splits if_splits)

lemma prompts_dl_link: "prompts_ok an dk (dl_link an su link dk)"
proof -
  have [simp]: "prompts_ok an dk (f (bump an u g dk))" if "\<And>d. prompts_ok an d (f d)" for f u g using that prompts_bump by blast
  show ?thesis
    unfolding dl_link_def Let_def by (intro prompts_if prompts_artist; simp add: prompts_prompts prompts_pair)
qed

lemma prompts_item: "prompts_ok an dk (enqueueBulkItem an su it dk)"
proof -
  have [simp]: "prompts_ok an dk (f (bump an u g dk))" if "\<And>d. prompts_ok an d (f d)" for f u g using that prompts_bump by blast
  show ?thesis
    unfolding enqueueBulkItem_def Let_def by (intro prompts_if; simp add: prompts_prompts prompts_pair)
qed

lemma items_transfers: "dkTransfers (snd (enqueue_items an su its dk)) = dkTransfers dk"
proof (induction its arbitrary: dk)
  case (Cons it its)
  have "dkTransfers (snd (enqueueBulkItem an su it dk)) = dkTransfers dk"
    by (simp add: enqueueBulkItem_def queue_song_def serve_or_def Let_def)
  then show ?case using Cons by (simp split: prod.splits) (metis snd_conv)
qed simp

lemma prompts_bulk: "prompts_ok an dk (handleBulkDl an su links art dk)"
proof -
  have headless: "prompts_ok an dk (case enqueue_items an su its dk of (acts, dk1) \<Rightarrow> (acts @ extra, dk1))" for its extra
    using items_transfers [of an su its dk] by (cases "enqueue_items an su its dk") (simp add: prompts_pair)
  have put: "prompts_ok an dk (case put_transfer an su t (\<lambda>p. p\<lparr>ptBulk := its\<rparr>) dk of (acts, dk1) \<Rightarrow>
      (case anSent an of None \<Rightarrow> (acts, dk1) | Some _ \<Rightarrow> (acts @ extra, dk1)))" for t its extra
    using prompts_put [of "\<lambda>p. p\<lparr>ptBulk := its\<rparr>" an dk su t]
    by (cases "put_transfer an su t (\<lambda>p. p\<lparr>ptBulk := its\<rparr>) dk"; cases "anSent an") (simp_all add: prompts_ok_def)
  show ?thesis unfolding handleBulkDl_def Let_def by (intro prompts_if headless put prompts_pair refl)
qed

lemma prompts_dl: "prompts_ok an dk (handle_dl an chat u name args reply dk)"
  unfolding handle_dl_def Let_def by (intro prompts_if prompts_bulk prompts_dl_link prompts_pair refl)

lemma prompts_admin: "prompts_ok an dk (admin_command cmd args dk)"
  unfolding admin_command_def cmd_auth_def cmd_unauth_def cmd_donor_def Let_def
  by (intro prompts_if) (auto intro!: prompts_pair prompts_if simp: on_users_def split: prod.splits list.splits)

lemma prompts_command: "prompts_ok an dk (handleCommand an chat u name cmd args reply dk)"
proof -
  have [simp]: "prompts_ok an dk (f (bump an u g dk))" if "\<And>d. prompts_ok an d (f d)" for f u g using that prompts_bump by blast
  show ?thesis
    unfolding handleCommand_def Let_def by (intro prompts_if; simp add: prompts_dl prompts_admin prompts_pair)
qed

lemma prompts_message: "prompts_ok an dk (handleMessage an msg dk)"
proof -
  have "prompts_ok an dk (handleCommand an chat u name cmd args reply (dk\<lparr>dkReports := rs\<rparr>))" for chat u name cmd args reply rs
    using prompts_command [of an "dk\<lparr>dkReports := rs\<rparr>"] by (simp add: prompts_ok_def)
  moreover note prompts_command
  ultimately show ?thesis
    unfolding handleMessage_def Let_def
    by (intro prompts_if) (simp_all add: prompts_pair prompts_if split: prod.split option.split)
qed

lemma transfer_result:
  assumes "handleTransferMode an chat m mode name u dk = (alert, acts, dk')"
  shows "dkTransfers dk' = (dkTransfers dk)(chat := None) \<or> dk' = dk \<and> acts = []"
proof -
  have c: "dkTransfers (clear_transfer chat dk) = (dkTransfers dk)(chat := None)" by (simp add: clear_transfer_def)
  show ?thesis
  proof (cases "dkTransfers dk chat")
    case None
    then show ?thesis using assms by (simp add: handleTransferMode_def)
  next
    case (Some p)
    then show ?thesis using assms unfolding handleTransferMode_def Let_def
      by (simp add: case_prod_beta split: if_splits) (auto simp: items_transfers c)
  qed
qed

lemma prompts_transfer: "prompts_ok an dk (snd (handleTransferMode an chat m mode name u dk))"
proof -
  obtain alert acts dk' where r: "handleTransferMode an chat m mode name u dk = (alert, acts, dk')" by (metis prod_cases3)
  show ?thesis using transfer_result [OF r] by (auto simp: r prompts_ok_def)
qed

lemma prompts_snd_if: "prompts_ok an dk (snd x) \<Longrightarrow> prompts_ok an dk (snd y) \<Longrightarrow> prompts_ok an dk (snd (if b then x else y))"
  by simp

lemma prompts_scope: "prompts_ok an dk (snd (handleArtistScope an chat m choice u dk))"
  unfolding handleArtistScope_def Let_def by (auto simp: prompts_pair split: option.splits prod.splits bool.splits)

lemma prompts_callback: "prompts_ok an dk (snd (handleCallback an tp dk))"
  unfolding handleCallback_def route_tap_def Let_def
  by (intro prompts_snd_if prompts_transfer prompts_scope)
     (auto simp: prompts_pair setChatFormat_def Let_def split: prod.split option.split)

lemma prompts_update: "prompts_ok an dk (serve_update an up dk)"
  by (cases up) (simp_all add: serve_update_def prompts_message prompts_callback)

definition no_prompt :: "chat_id \<Rightarrow> msg_id \<Rightarrow> desk \<Rightarrow> bool" where
  "no_prompt chat m dk = (\<forall>p. dkTransfers dk chat = Some p \<longrightarrow> ptMessageID p \<noteq> m \<and> ptMessageID p \<noteq> 0)"

lemma no_prompt_step:
  assumes "prompts_ok an dk (acts, dk')" "no_prompt chat m dk" "anSent an \<noteq> Some m" "anSent an \<noteq> Some 0"
  shows "no_prompt chat m dk'"
proof -
  have "dkTransfers dk' chat \<in> {dkTransfers dk chat, None} \<or> (\<exists>p. dkTransfers dk' chat = Some p \<and> anSent an = Some (ptMessageID p))"
    using assms(1) unfolding prompts_ok_def snd_conv by (rule spec)
  with assms(2-4) show ?thesis unfolding no_prompt_def by auto
qed

lemma no_prompt_run:
  "no_prompt chat m dk \<Longrightarrow> \<forall>(an, up) \<in> set ups. anSent an \<noteq> Some m \<and> anSent an \<noteq> Some 0 \<Longrightarrow> no_prompt chat m (snd (run_desk ups dk))"
proof (induction ups dk rule: run_desk.induct)
  case (2 an up ups dk)
  obtain a1 d1 where 1: "serve_update an up dk = (a1, d1)" by fastforce
  have "no_prompt chat m d1"
    using no_prompt_step [OF prompts_update [of an dk up, unfolded 1] 2(2)] 2(3) by simp
  with 2(1) [OF 1 [symmetric]] 2(3) show ?case by (auto simp: 1 split: prod.splits)
qed simp

lemma no_prompt_tap: "no_prompt chat m dk \<Longrightarrow> handleTransferMode an chat m mode name u dk = ([], [], dk)"
  by (auto simp: handleTransferMode_def no_prompt_def split: option.splits)

lemma transfer_clears:
  assumes "handleTransferMode an chat m mode name u dk = (alert, acts, dk')" "acts \<noteq> []"
  shows "no_prompt chat m dk'"
  using transfer_result [OF assms(1)] assms(2) by (auto simp: no_prompt_def)

text \<open>
  C15: A transfer prompt is answered once, and by the user it was made for.  A tap that does anything is by the
  owner of the chat's prompt, under its own message, within ten minutes; afterwards, whatever is sent or tapped, by anybody, no
  tap under that message does anything, as long as no new message gets its id.
\<close>

theorem prompt_answered_once:
  assumes "handleTransferMode an chat m mode name u dk = (alert, acts, dk1)" "acts \<noteq> []"
    and "\<forall>(an, up) \<in> set ups. anSent an \<noteq> Some m \<and> anSent an \<noteq> Some 0"
  shows "(\<exists>p. dkTransfers dk chat = Some p \<and> (ptUserID p = 0 \<or> u = ptUserID p) \<and> (ptMessageID p = 0 \<or> m = ptMessageID p)) \<and>
    handleTransferMode an2 chat m mode2 name2 u2 (snd (run_desk ups dk1)) = ([], [], snd (run_desk ups dk1))"
proof
  show "\<exists>p. dkTransfers dk chat = Some p \<and> (ptUserID p = 0 \<or> u = ptUserID p) \<and> (ptMessageID p = 0 \<or> m = ptMessageID p)"
  proof (cases "dkTransfers dk chat")
    case None
    then show ?thesis using assms(1,2) by (simp add: handleTransferMode_def)
  next
    case (Some p)
    have m: "handleTransferMode an chat m mode name u dk = ([], [], dk)" if "ptMessageID p \<noteq> 0 \<and> m \<noteq> ptMessageID p"
      using that Some by (simp add: handleTransferMode_def)
    moreover have "handleTransferMode an chat m mode name u dk = (''This isn't your download.'', [], dk)"
      if "\<not> (ptMessageID p \<noteq> 0 \<and> m \<noteq> ptMessageID p)" "ptUserID p \<noteq> 0 \<and> u \<noteq> ptUserID p"
      unfolding handleTransferMode_def Some option.case if_not_P [OF that(1)] if_P [OF that(2)] by (rule refl)
    ultimately show ?thesis using assms(1,2) Some by (metis prod.inject)
  qed
  show "handleTransferMode an2 chat m mode2 name2 u2 (snd (run_desk ups dk1)) = ([], [], snd (run_desk ups dk1))"
    by (rule no_prompt_tap [OF no_prompt_run [OF transfer_clears [OF assms(1,2)] assms(3)]])
qed

subsection \<open>A flag and a button ask for the same work\<close>

definition plain_order :: "submission \<Rightarrow> submission" where
  "plain_order su = su\<lparr>suName := [], suStatusMsg := 0\<rparr>"

text \<open>The work of an action, without the name the user is shown by and the message its status goes to.\<close>

definition work_of :: "action \<Rightarrow> action" where
  "work_of a = (case a of
      QueueSong su f i \<Rightarrow> QueueSong (plain_order su) f i
    | QueueAlbum su i \<Rightarrow> QueueAlbum (plain_order su) i
    | QueuePlaylist su i \<Rightarrow> QueuePlaylist (plain_order su) i
    | QueueStation su i \<Rightarrow> QueueStation (plain_order su) i
    | QueueMv su s i \<Rightarrow> QueueMv (plain_order su) s i
    | _ \<Rightarrow> a)"

definition works :: "action list \<Rightarrow> action list" where
  "works acts = map work_of (filter starts_work acts)"

lemma works_simps [simp]:
  "works [] = []" "works (a # acts) = (if starts_work a then work_of a # works acts else works acts)" "works (acts @ acts') = works acts @ works acts'"
  by (simp_all add: works_def)

lemma tap_answers:
  assumes "dkTransfers dk chat = Some p" "ptMessageID p = m" "ptUserID p = u" "anNow an - ptCreatedAt p \<le> pendingTTL" "ptBulk p = []"
    and "mode \<in> {transferModeTelegramIndividual, transferModeTelegramZip}"
  shows "works (fst (snd (handleTransferMode an chat m mode name u dk))) =
    works (transfer_work an (transfer_submission chat u name m mode p) p (clear_transfer chat dk))"
proof -
  have "\<not> pendingTTL < anNow an - ptCreatedAt p" using assms(4) by simp
  moreover have "mode \<noteq> transferModeCancel" "real_mode mode = mode"
    using assms(6) by (auto simp: transferModeCancel_def real_mode_def transferModeOneByOne_def transferModeZip_def
      transferModeTelegramIndividual_def transferModeTelegramZip_def transferModeGofileZip_def)
  moreover have "\<not> starts_work (Edit t)" for t by (simp add: starts_work_def)
  ultimately show ?thesis using assms(1-3,5) by (simp add: handleTransferMode_def Let_def)
qed

lemma no_tap:
  "dkTransfers dk chat = None \<Longrightarrow> handleTransferMode an chat m mode name u dk = ([], [], dk)"
  by (simp add: handleTransferMode_def)

lemma mode_not_empty: "mode \<in> {transferModeTelegramIndividual, transferModeTelegramZip} \<Longrightarrow> mode \<noteq> [] \<and> mode \<noteq> transferModeGofileZip"
  by (auto simp: transferModeTelegramIndividual_def transferModeTelegramZip_def transferModeGofileZip_def)

lemma put_then_tap:
  assumes "anSent an = Some m" "anNow an2 - anNow an \<le> pendingTTL" "mode \<in> {transferModeTelegramIndividual, transferModeTelegramZip}"
    and f: "\<And>p. ptMessageID (f p) = ptMessageID p \<and> ptUserID (f p) = ptUserID p \<and> ptCreatedAt (f p) = ptCreatedAt p \<and> ptBulk (f p) = ptBulk p"
    and "put_transfer an su t f dk = (acts, dk1)"
  shows "works acts = [] \<and> works (fst (snd (handleTransferMode an2 (suChat su) m mode name (suUser su) dk1))) =
    works (transfer_work an2 (transfer_submission (suChat su) (suUser su) name m mode (f (empty_transfer su (anNow an) m)))
      (f (empty_transfer su (anNow an) m)) (clear_transfer (suChat su) dk1))"
proof -
  have dk1: "acts = [Ask t]" "dkTransfers dk1 (suChat su) = Some (f (empty_transfer su (anNow an) m))"
    using assms(1,5) by (auto simp: put_transfer_def)
  show ?thesis
    using tap_answers [OF dk1(2), of m "suUser su" an2 mode name] f assms(2,3) by (simp add: dk1(1) starts_work_def empty_transfer_def)
qed

definition tapped :: "answers \<Rightarrow> submission \<Rightarrow> msg_id \<Rightarrow> string \<Rightarrow> string \<Rightarrow> action list \<times> desk \<Rightarrow> action list" where
  "tapped an2 su m mode name r = works (fst r @ fst (snd (handleTransferMode an2 (suChat su) m mode name (suUser su) (snd r))))"

lemma tapped_put:
  assumes "anSent an = Some m" "anNow an2 - anNow an \<le> pendingTTL" "mode \<in> {transferModeTelegramIndividual, transferModeTelegramZip}"
    and "\<And>p. ptMessageID (f p) = ptMessageID p \<and> ptUserID (f p) = ptUserID p \<and> ptCreatedAt (f p) = ptCreatedAt p \<and> ptBulk (f p) = ptBulk p"
    and "suChat su' = suChat su" "suUser su' = suUser su"
  shows "\<exists>dk1. tapped an2 su m mode name (put_transfer an su' t f dk) =
    works (transfer_work an2 (transfer_submission (suChat su) (suUser su) name m mode (f (empty_transfer su' (anNow an) m)))
      (f (empty_transfer su' (anNow an) m)) dk1) \<and> dkFormats dk1 = dkFormats dk"
proof -
  obtain acts dk1 where r: "put_transfer an su' t f dk = (acts, dk1)" by fastforce
  have "dkFormats (clear_transfer (suChat su) dk1) = dkFormats dk"
    using r assms(1) by (auto simp: put_transfer_def clear_transfer_def)
  then show ?thesis
    using put_then_tap [OF assms(1-4) r, of name] assms(5,6) unfolding tapped_def r by auto
qed

lemma tapped_none:
  assumes "dkTransfers dk1 (suChat su) = None"
  shows "tapped an2 su m mode name (acts, dk1) = works acts"
  by (simp add: tapped_def no_tap [OF assms])

lemma desk_format_same: "dkFormats d = dkFormats d' \<Longrightarrow> desk_format d c b = desk_format d' c b"
  by (simp add: desk_format_def resolveFormat_def getChatFormat_def)

lemma or_storefront_twice: "anStorefront an2 = anStorefront an \<Longrightarrow> or_storefront an2 (or_storefront an sf) = or_storefront an sf"
  by (simp add: or_storefront_def)

lemma same_if:
  "(b \<Longrightarrow> works (fst x) = T x') \<Longrightarrow> (\<not> b \<Longrightarrow> works (fst y) = T y') \<Longrightarrow>
   works (fst (if b then x else y)) = T (if b then x' else y')"
  by simp

definition a_desk :: desk where
  "a_desk = \<lparr>dkUsers = no_users\<lparr>uAdmins := {1}, uBlockedIDs := {9}\<rparr>, dkTransfers = Map.empty, dkArtists = Map.empty, dkReports = Map.empty, dkFormats = Map.empty\<rparr>"

definition some_answers :: answers where
  "some_answers = \<lparr>anNow = 0, anSelf = [], anAllowed = {7}, anStorefront = ''us'', anTasks = \<lambda>_. 0, anBusy = (False, 0), anSent = Some 40,
     anServed = \<lambda>_ _ _. False, anZip = \<lambda>_ _. False, anPage = \<lambda>_. None, anParam = \<lambda>_. [], anAdmins = [1], anReach = \<lambda>_. True,
     anUp = True, anCatalog = None\<rparr>"

definition a_message :: "user_id \<Rightarrow> string \<Rightarrow> tg_message" where
  "a_message u text = \<lparr>mgChat = 7, mgPrivate = False, mgUser = u, mgName = [], mgText = text, mgID = 3\<rparr>"

definition an_order :: submission where
  "an_order = \<lparr>suChat = 7, suUser = 1, suName = [], suReplyTo = 3, suStatusMsg = 0, suMode = [], suForceAAC = False, suForceAtmos = False,
     suForceFlac = False, suNoCache = False\<rparr>"

theorem only_admins_change_access_witness:
  "access (dkUsers (snd (run_desk [(some_answers, Message (a_message 2 ''/unauth''))] a_desk))) = access (dkUsers a_desk)"
  using only_admins_change_access [of "[(some_answers, Message (a_message 2 ''/unauth''))]" a_desk]
  by (simp add: sender_def a_message_def a_desk_def isAdmin_def no_users_def)


lemma a_desk_no_prompt: "dkTransfers a_desk = Map.empty"
  by (simp add: a_desk_def)


definition one_prompt :: desk where
  "one_prompt = snd (promptTransferMode some_answers an_order ''12'' [] [] [] False a_desk)"

theorem prompt_answered_once_witness:
  "handleTransferMode some_answers 7 40 transferModeTelegramZip [] 1
     (snd (run_desk [(some_answers\<lparr>anSent := Some 41\<rparr>, Message (a_message 1 ''hi''))]
        (snd (snd (handleTransferMode some_answers 7 40 transferModeTelegramZip [] 1 one_prompt))))) =
   ([], [], snd (run_desk [(some_answers\<lparr>anSent := Some 41\<rparr>, Message (a_message 1 ''hi''))]
        (snd (snd (handleTransferMode some_answers 7 40 transferModeTelegramZip [] 1 one_prompt)))))"
proof -
  obtain al acts dk1 where r: "handleTransferMode some_answers 7 40 transferModeTelegramZip [] 1 one_prompt = (al, acts, dk1)" by (metis prod_cases3)
  have t: "dkTransfers one_prompt 7 = Some (empty_transfer an_order 0 40\<lparr>ptAlbumID := ''12''\<rparr>)"
    by (simp add: one_prompt_def promptTransferMode_def put_transfer_def some_answers_def an_order_def a_desk_def empty_transfer_def)
  have "acts \<noteq> []"
    using r t by (auto simp: handleTransferMode_def empty_transfer_def an_order_def some_answers_def pendingTTL_def Let_def split: if_splits)
  from prompt_answered_once [OF r this, of "[(some_answers\<lparr>anSent := Some 41\<rparr>, Message (a_message 1 ''hi''))]" some_answers transferModeTelegramZip "[]" 1]
  show ?thesis by (simp add: r)
qed

subsection \<open>Where prompts go wrong\<close>

text \<open>
  C38: A newer prompt silently disables an older one.  A chat keeps one transfer prompt; once another is shown in it, a tap
  under the older message does nothing at all, not even a toast, whoever taps.
\<close>

theorem newer_prompt_disables_older:
  assumes "anSent an = Some m2" "m2 \<noteq> 0" "m \<noteq> m2"
  shows "handleTransferMode an2 (suChat su) m mode name u (snd (promptTransferMode an su al so pl st single dk)) =
    ([], [], snd (promptTransferMode an su al so pl st single dk))"
proof (rule no_prompt_tap)
  show "no_prompt (suChat su) m (snd (promptTransferMode an su al so pl st single dk))"
    using assms by (simp add: no_prompt_def promptTransferMode_def put_transfer_def empty_transfer_def)
qed

theorem newer_prompt_disables_older_witness:
  "snd (snd (handleTransferMode some_answers 7 40 transferModeTelegramZip [] 1
     (snd (promptTransferMode (some_answers\<lparr>anSent := Some 41\<rparr>) (an_order\<lparr>suUser := 2\<rparr>) ''13'' [] [] [] False one_prompt)))) =
   snd (promptTransferMode (some_answers\<lparr>anSent := Some 41\<rparr>) (an_order\<lparr>suUser := 2\<rparr>) ''13'' [] [] [] False one_prompt)"
  using newer_prompt_disables_older [of "some_answers\<lparr>anSent := Some 41\<rparr>" 41 40 some_answers "an_order\<lparr>suUser := 2\<rparr>"]
  by (simp add: an_order_def)

text \<open>
  The limit is checked when the prompt is shown and not when it is answered: a bulk prompt starts all of its videos for a user who has reached
  the limit meanwhile.
\<close>

theorem prompt_overruns_cap:
  assumes "dkTransfers dk chat = Some p" "ptBulk p \<noteq> []" "\<forall>it \<in> set (ptBulk p). biKind it = ''mv''"
    and "ptMessageID p = m" "ptUserID p = u" "anNow an - ptCreatedAt p \<le> pendingTTL" "mode \<noteq> transferModeCancel"
    and "maxTasks (dkUsers dk) u name \<le> anTasks an u"
  shows "length (filter starts_work (fst (snd (handleTransferMode an chat m mode name u dk)))) = length (ptBulk p)"
proof -
  have "length (filter starts_work (fst (enqueue_items an su its d))) = length its" if "\<forall>it \<in> set its. biKind it = ''mv''" for its su d
    using that
  proof (induction its arbitrary: d)
    case (Cons it its)
    then show ?case
      by (simp add: enqueueBulkItem_def enqueueMvDownload_def starts_work_def case_prod_beta)
  qed simp
  then show ?thesis
    using assms(1-7) by (simp add: handleTransferMode_def case_prod_beta Let_def starts_work_def)
qed

theorem prompt_overruns_cap_witness:
  "\<exists>dk an. maxTasks (dkUsers dk) 2 [] - anTasks an 2 = 0 \<and> length (filter starts_work (fst (snd (handleTransferMode an 7 40 ''gofile_zip'' [] 2 dk)))) = 3"
proof -
  let ?v = "\<lparr>biKind = ''mv'', biID = ''5'', biStorefront = ''us''\<rparr>"
  let ?p = "empty_transfer (an_order\<lparr>suUser := 2\<rparr>) 0 40\<lparr>ptBulk := [?v, ?v, ?v]\<rparr>"
  let ?dk = "a_desk\<lparr>dkTransfers := [7 \<mapsto> ?p]\<rparr>" and ?an = "some_answers\<lparr>anTasks := \<lambda>_. 3\<rparr>"
  have t: "maxTasks (dkUsers a_desk) 2 [] = 3" by (simp add: maxTasks_def isUserDonor_def a_desk_def no_users_def)
  have "length (filter starts_work (fst (snd (handleTransferMode ?an 7 40 ''gofile_zip'' [] 2 ?dk)))) = length (ptBulk ?p)"
    by (rule prompt_overruns_cap) (simp_all add: t empty_transfer_def some_answers_def pendingTTL_def transferModeCancel_def)
  with t show ?thesis by (intro exI [of _ ?dk] exI [of _ ?an]) simp
qed

end
