(* ===== verification/Profile_Panel.thy ===== *)
theory Profile_Panel
  imports Status_Board
begin

section \<open>The profile panel\<close>

text \<open>
  \<^verbatim>\<open>bot/profile.go\<close>: the card of \<^verbatim>\<open>/profile\<close> with its sub-panels, what a button changes, and the texts.
  The owners of the open panels live in memory.  Texts are bytes; the date of the first command is an
  argument, and so is the order in which Go ranges over the counters.
\<close>

subsection \<open>Choices\<close>

definition bytes :: "nat list \<Rightarrow> string" where "bytes ns = map char_of ns"

type_synonym choice = "string \<times> string"

definition pfCodecChoices :: "choice list" where
  "pfCodecChoices = [('''', ''Default''), (''alac'', ''ALAC''), (''flac'', ''FLAC''), (''aac'', ''AAC''), (''atmos'', ''Atmos'')]"

definition pfQualityChoices :: "choice list" where
  "pfQualityChoices = [('''', ''Default''), (''redbook'', ''Red Book 16/44.1''), (''hires'', ''Hi-Res 24/192'')]"

definition pfAacChoices :: "choice list" where
  "pfAacChoices = [('''', ''Default''), (''aac-lc'', ''AAC-LC 256''), (''aac'', ''AAC''), (''aac-binaural'', ''Binaural''), (''aac-downmix'', ''Downmix'')]"

definition pfLyricChoices :: "choice list" where
  "pfLyricChoices = [('''', ''Default''), (''off'', ''Off''), (''static'', ''Static''), (''synced'', ''Line-synced''), (''word'', ''Word-by-word'')]"

definition pfCoverDelivChoices :: "choice list" where
  "pfCoverDelivChoices = [('''', ''Default''), (''photo'', ''Photo''), (''document'', ''Document'')]"

definition pfTargetChoices :: "choice list" where
  "pfTargetChoices = [('''', ''Default''), (''ask'', ''Ask''), (''telegram'', ''Telegram''), (''telegram_zip'', ''Telegram ZIP''), (''gofile'', ''Gofile'')]"

definition pfLanguageChoices :: "choice list" where
  "pfLanguageChoices = [('''', ''Default''), (''en'', ''English''), (''ja'', bytes [0xE6, 0x97, 0xA5, 0xE6, 0x9C, 0xAC, 0xE8, 0xAA, 0x9E]),
     (''ko'', bytes [0xED, 0x95, 0x9C, 0xEA, 0xB5, 0xAD, 0xEC, 0x96, 0xB4]), (''zh-Hans'', bytes [0xE7, 0xAE, 0x80, 0xE4, 0xBD, 0x93]),
     (''zh-Hant'', bytes [0xE7, 0xB9, 0x81, 0xE9, 0xAB, 0x94])]"

definition pfMVChoices :: "choice list" where
  "pfMVChoices = [(''0'', ''Default''), (''360'', ''360p''), (''480'', ''480p''), (''720'', ''720p''), (''1080'', ''1080p''), (''2160'', ''2160p'')]"

definition pfArtistZipChoices :: "choice list" where
  "pfArtistZipChoices = [('''', ''Default''), (''per_release'', ''Per release''), (''combined'', ''Combined'')]"

definition profileKey :: "chat_id \<Rightarrow> msg_id \<Rightarrow> string" where
  "profileKey chat m = itoa chat @ '':'' @ itoa m"

subsection \<open>What a button changes\<close>

definition toggleSame :: "string \<Rightarrow> string \<Rightarrow> string" where
  "toggleSame current v = (if current = v then [] else v)"

definition togglePtr :: "bool option \<Rightarrow> bool option" where
  "togglePtr b = (case b of None \<Rightarrow> Some True | Some x \<Rightarrow> Some (\<not> x))"

definition applyProfileSet :: "string \<Rightarrow> string \<Rightarrow> user_prefs \<Rightarrow> user_prefs" where
  "applyProfileSet field v p =
     (if field = ''codec'' then p\<lparr>pCodec := toggleSame (pCodec p) v\<rparr>
      else if field = ''quality'' then p\<lparr>pQuality := toggleSame (pQuality p) v\<rparr>
      else if field = ''aac_type'' then p\<lparr>pAacType := toggleSame (pAacType p) v\<rparr>
      else if field = ''lyric_mode'' then p\<lparr>pLyricMode := toggleSame (pLyricMode p) v\<rparr>
      else if field = ''cover_delivery'' then p\<lparr>pCoverDelivery := toggleSame (pCoverDelivery p) v\<rparr>
      else if field = ''delivery_target'' then p\<lparr>pDeliveryTarget := toggleSame (pDeliveryTarget p) v\<rparr>
      else if field = ''language'' then p\<lparr>pLanguage := toggleSame (pLanguage p) v\<rparr>
      else if field = ''mv_max'' then
        (let n = fst (parse_int64 v) in if pMVMax p = n then p\<lparr>pMVMax := 0\<rparr> else p\<lparr>pMVMax := n\<rparr>)
      else if field = ''artist_zip'' then p\<lparr>pArtistZip := toggleSame (pArtistZip p) v\<rparr>
      else p)"

definition applyProfileToggle :: "string \<Rightarrow> user_prefs \<Rightarrow> user_prefs" where
  "applyProfileToggle field p =
     (if field = ''embed_lrc'' then p\<lparr>pEmbedLrc := togglePtr (pEmbedLrc p)\<rparr>
      else if field = ''embed_cover'' then p\<lparr>pEmbedCover := togglePtr (pEmbedCover p)\<rparr>
      else if field = ''animated_art'' then p\<lparr>pAnimatedArt := togglePtr (pAnimatedArt p)\<rparr>
      else if field = ''apple_master'' then p\<lparr>pAppleMaster := togglePtr (pAppleMaster p)\<rparr>
      else p)"

definition panelForField :: "string list \<Rightarrow> string" where
  "panelForField parts =
     (case parts of
        _ # f # _ \<Rightarrow>
          (if f \<in> {''codec'', ''quality'', ''aac_type''} then ''audio''
           else if f = ''lyric_mode'' then ''lyrics''
           else if f = ''cover_delivery'' then ''artwork''
           else if f \<in> {''delivery_target'', ''language'', ''mv_max'', ''artist_zip''} then ''delivery'' else ''root'')
      | _ \<Rightarrow> ''root'')"

definition panelForToggle :: "string \<Rightarrow> string" where
  "panelForToggle f =
     (if f = ''embed_lrc'' then ''lyrics''
      else if f \<in> {''embed_cover'', ''animated_art''} then ''artwork''
      else if f = ''apple_master'' then ''audio'' else ''root'')"

subsection \<open>Keyboards\<close>

record button =
  btText :: string
  btData :: string
  btStyle :: string

definition symDone :: string where "symDone = bytes [0xE2, 0x9C, 0x93]"

definition choice_button :: "string \<Rightarrow> string \<Rightarrow> choice \<Rightarrow> button" where
  "choice_button field current c =
     \<lparr>btText = (if fst c = current then symDone @ '' '' @ snd c else snd c), btData = ''pf:set:'' @ field @ '':'' @ fst c,
      btStyle = (if fst c = current then ''success'' else '''')\<rparr>"

text \<open>Rows of three.\<close>

fun rows_of_three :: "'a list \<Rightarrow> 'a list list" where
  "rows_of_three (a # b # c # xs) = [a, b, c] # rows_of_three xs"
| "rows_of_three [] = []"
| "rows_of_three xs = [xs]"

definition choiceRows :: "string \<Rightarrow> choice list \<Rightarrow> string \<Rightarrow> button list list" where
  "choiceRows field choices current = rows_of_three (map (choice_button field current) choices)"

definition toggleRow :: "string \<Rightarrow> string \<Rightarrow> bool option \<Rightarrow> button list list" where
  "toggleRow field label v =
     (let state = (case v of None \<Rightarrow> ''Default'' | Some True \<Rightarrow> ''On'' | Some False \<Rightarrow> ''Off'');
          style = (case v of None \<Rightarrow> '''' | Some True \<Rightarrow> ''success'' | Some False \<Rightarrow> ''danger'')
      in [[\<lparr>btText = label @ '': '' @ state, btData = ''pf:toggle:'' @ field, btStyle = style\<rparr>]])"

definition labelRow :: "string \<Rightarrow> button list list" where
  "labelRow text =
     (let bar = bytes [0xE2, 0x94, 0x80, 0xE2, 0x94, 0x80]
      in [[\<lparr>btText = bar @ '' '' @ text @ '' '' @ bar, btData = ''pf:nop'', btStyle = ''primary''\<rparr>]])"

definition backRow :: "button list list" where
  "backRow = [[\<lparr>btText = bytes [0xE2, 0x80, 0xB9] @ '' Back'', btData = ''pf:nav:root'', btStyle = ''''\<rparr>]]"

definition root_rows :: "button list list" where
  "root_rows =
     [[\<lparr>btText = bytes [0xF0, 0x9F, 0x8E, 0xB5] @ '' Audio'', btData = ''pf:nav:audio'', btStyle = ''primary''\<rparr>,
       \<lparr>btText = bytes [0xF0, 0x9F, 0x8E, 0xA4] @ '' Lyrics'', btData = ''pf:nav:lyrics'', btStyle = ''primary''\<rparr>],
      [\<lparr>btText = bytes [0xF0, 0x9F, 0x96, 0xBC] @ '' Artwork'', btData = ''pf:nav:artwork'', btStyle = ''primary''\<rparr>,
       \<lparr>btText = bytes [0xF0, 0x9F, 0x93, 0xA4] @ '' Delivery'', btData = ''pf:nav:delivery'', btStyle = ''primary''\<rparr>],
      [\<lparr>btText = bytes [0xE2, 0x86, 0xBA] @ '' Reset'', btData = ''pf:reset'', btStyle = ''danger''\<rparr>,
       \<lparr>btText = bytes [0xE2, 0x9C, 0x93] @ '' Done'', btData = ''pf:done'', btStyle = ''success''\<rparr>]]"

definition profileMarkup :: "string \<Rightarrow> user_prefs \<Rightarrow> button list list" where
  "profileMarkup panel p =
     (if panel = ''audio'' then
        labelRow ''Codec'' @ choiceRows ''codec'' pfCodecChoices (pCodec p) @
        labelRow ''Quality'' @ choiceRows ''quality'' pfQualityChoices (pQuality p) @
        labelRow ''AAC variant'' @ choiceRows ''aac_type'' pfAacChoices (pAacType p) @
        toggleRow ''apple_master'' ''Apple Master'' (pAppleMaster p) @ backRow
      else if panel = ''lyrics'' then
        labelRow ''Lyrics mode'' @ choiceRows ''lyric_mode'' pfLyricChoices (pLyricMode p) @
        toggleRow ''embed_lrc'' ''Embed lyrics'' (pEmbedLrc p) @ backRow
      else if panel = ''artwork'' then
        labelRow ''Cover delivery'' @ choiceRows ''cover_delivery'' pfCoverDelivChoices (pCoverDelivery p) @
        toggleRow ''animated_art'' ''Animated artwork'' (pAnimatedArt p) @ toggleRow ''embed_cover'' ''Embed cover'' (pEmbedCover p) @ backRow
      else if panel = ''delivery'' then
        labelRow ''Delivery target'' @ choiceRows ''delivery_target'' pfTargetChoices (pDeliveryTarget p) @
        labelRow ''Language'' @ choiceRows ''language'' pfLanguageChoices (pLanguage p) @
        labelRow ''MV resolution'' @ choiceRows ''mv_max'' pfMVChoices (itoa (pMVMax p)) @
        labelRow ''Artist zip'' @ choiceRows ''artist_zip'' pfArtistZipChoices (pArtistZip p) @ backRow
      else root_rows)"

subsection \<open>Texts\<close>

definition choiceLabel :: "choice list \<Rightarrow> string \<Rightarrow> string" where
  "choiceLabel choices v =
     (case filter (\<lambda>c. fst c = v) choices of
        c # _ \<Rightarrow> (if fst c = [] then ''Default'' else snd c)
      | [] \<Rightarrow> (if v = [] then ''Default'' else v))"

definition boolLabel :: "bool option \<Rightarrow> string" where
  "boolLabel b = (case b of None \<Rightarrow> ''Default'' | Some True \<Rightarrow> ''On'' | Some False \<Rightarrow> ''Off'')"

definition mvLabel :: "int \<Rightarrow> string" where
  "mvLabel n = (if n = 0 then ''Default'' else itoa n @ ''p'')"

definition audioSummaryRows :: "user_prefs \<Rightarrow> (string \<times> string) list" where
  "audioSummaryRows p =
     [(''Codec'', choiceLabel pfCodecChoices (pCodec p)), (''Quality'', choiceLabel pfQualityChoices (pQuality p)),
      (''AAC variant'', choiceLabel pfAacChoices (pAacType p)), (''Apple Master'', boolLabel (pAppleMaster p))]"

definition lyricsSummaryRows :: "user_prefs \<Rightarrow> (string \<times> string) list" where
  "lyricsSummaryRows p = [(''Lyrics'', choiceLabel pfLyricChoices (pLyricMode p)), (''Embed lyrics'', boolLabel (pEmbedLrc p))]"

definition artworkSummaryRows :: "user_prefs \<Rightarrow> (string \<times> string) list" where
  "artworkSummaryRows p =
     [(''Cover delivery'', choiceLabel pfCoverDelivChoices (pCoverDelivery p)), (''Animated artwork'', boolLabel (pAnimatedArt p)),
      (''Embed cover'', boolLabel (pEmbedCover p))]"

definition deliverySummaryRows :: "user_prefs \<Rightarrow> (string \<times> string) list" where
  "deliverySummaryRows p =
     [(''Delivery target'', choiceLabel pfTargetChoices (pDeliveryTarget p)), (''Lyric language'', choiceLabel pfLanguageChoices (pLanguage p)),
      (''MV resolution'', mvLabel (pMVMax p)), (''Artist zip'', choiceLabel pfArtistZipChoices (pArtistZip p))]"

definition profileSummaryRows :: "user_prefs \<Rightarrow> (string \<times> string) list" where
  "profileSummaryRows p = audioSummaryRows p @ lyricsSummaryRows p @ artworkSummaryRows p @ deliverySummaryRows p"

definition join_rows :: "(string \<times> string) list \<Rightarrow> string" where
  "join_rows rows = join_with middle_dot (map (\<lambda>(a, b). a @ '': '' @ b) rows)"

definition profileGroups :: "user_prefs \<Rightarrow> (string \<times> string) list" where
  "profileGroups p =
     [(bytes [0xF0, 0x9F, 0x8E, 0xB5], join_rows (audioSummaryRows p)), (bytes [0xF0, 0x9F, 0x8E, 0xA4], join_rows (lyricsSummaryRows p)),
      (bytes [0xF0, 0x9F, 0x96, 0xBC], join_rows (artworkSummaryRows p)), (bytes [0xF0, 0x9F, 0x93, 0xA4], join_rows (deliverySummaryRows p))]"

definition lf :: string where "lf = [CHR 0x0A]"

definition profileCompactRich :: "user_prefs \<Rightarrow> string" where
  "profileCompactRich p = lf @ concat (map (\<lambda>(icon, line). icon @ ''  '' @ escapeRichMD line @ lf) (profileGroups p))"

definition profileCompactPlain :: "user_prefs \<Rightarrow> string" where
  "profileCompactPlain p = lf @ concat (map (\<lambda>(icon, line). icon @ ''  '' @ line @ lf) (profileGroups p))"

definition panelTableRich :: "(string \<times> string) list \<Rightarrow> string" where
  "panelTableRich rows = lf @ ''| Setting | Value |'' @ lf @ ''|:--------|:------|'' @ lf @
     concat (map (\<lambda>(a, b). ''| '' @ escapeRichMD a @ '' | '' @ escapeRichMD b @ '' |'' @ lf) rows)"

definition panelTablePlain :: "(string \<times> string) list \<Rightarrow> string" where
  "panelTablePlain rows = lf @ concat (map (\<lambda>(a, b). a @ '': '' @ b @ lf) rows)"

definition usage_rows :: "user_stats \<Rightarrow> (string \<times> int) list" where
  "usage_rows t = [(''Commands'', tTotalCommands t), (''Album rips'', tAlbumRips t), (''Artist rips'', tArtistRips t),
     (''Playlist rips'', tPlaylistRips t), (''Song rips'', tSongRips t), (''Cancels'', tCancels t)]"

text \<open>\<open>date\<close> is \<^verbatim>\<open>usageDate\<close>: a time as a date of Dhaka.\<close>

definition usageBoxRich :: "(int \<Rightarrow> string) \<Rightarrow> user_stats \<Rightarrow> string" where
  "usageBoxRich date t = lf @ ''## '' @ bytes [0xF0, 0x9F, 0x93, 0x8A] @ '' Your usage'' @ lf @ ''| Activity | Count |'' @ lf @ ''|:---------|------:|'' @ lf @
     concat (map (\<lambda>(a, n). ''| '' @ a @ '' | '' @ itoa n @ '' |'' @ lf) (usage_rows t)) @
     (if 0 < tFirstSeenUnix t then lf @ ''_First seen '' @ escapeRichMD (date (tFirstSeenUnix t)) @ ''_'' @ lf else [])"

definition usageBoxPlain :: "(int \<Rightarrow> string) \<Rightarrow> user_stats \<Rightarrow> string" where
  "usageBoxPlain date t = lf @ bytes [0xF0, 0x9F, 0x93, 0x8A] @ '' Your usage'' @ lf @
     concat (map (\<lambda>(a, n). a @ '': '' @ itoa n @ lf) (usage_rows t)) @
     (if 0 < tFirstSeenUnix t then ''First seen '' @ date (tFirstSeenUnix t) @ lf else [])"

definition panel_header :: "string \<Rightarrow> (string \<times> string) list \<Rightarrow> string \<times> string" where
  "panel_header title rows =
     (''# '' @ escapeRichMD title @ lf @ ''Active choice is marked '' @ symDone @ ''. Tap it again to clear.'' @ lf @ panelTableRich rows,
      title @ lf @ ''Active choice is marked. Tap it again to clear.'' @ lf @ panelTablePlain rows)"

definition star :: string where "star = bytes [0xE2, 0xAD, 0x90]"
definition gear :: string where "gear = bytes [0xE2, 0x9A, 0x99, 0xEF, 0xB8, 0x8E]"
definition long_dash :: string where "long_dash = bytes [0xE2, 0x80, 0x94]"
definition unset_line :: string where "unset_line = ''Tap a category to change it. Unset values follow the bot defaults.'' @ [CHR 0x0A]"

definition renderProfile :: "(int \<Rightarrow> string) \<Rightarrow> string \<Rightarrow> user_prefs \<Rightarrow> user_stats \<Rightarrow> bool \<Rightarrow> string \<times> string" where
  "renderProfile date panel p t donor =
     (if panel = ''done'' then (''# '' @ symDone @ '' Profile saved'' @ lf @ profileCompactRich p, ''Profile saved.'' @ lf @ profileCompactPlain p)
      else if panel = ''audio'' then panel_header (bytes [0xF0, 0x9F, 0x8E, 0xB5] @ '' Audio'') (audioSummaryRows p)
      else if panel = ''lyrics'' then panel_header (bytes [0xF0, 0x9F, 0x8E, 0xA4] @ '' Lyrics'') (lyricsSummaryRows p)
      else if panel = ''artwork'' then panel_header (bytes [0xF0, 0x9F, 0x96, 0xBC] @ '' Artwork'') (artworkSummaryRows p)
      else if panel = ''delivery'' then panel_header (bytes [0xF0, 0x9F, 0x93, 0xA4] @ '' Delivery'') (deliverySummaryRows p)
      else
        (''# '' @ gear @ '' Your rip profile'' @ lf @ unset_line @
         (if donor then lf @ star @ '' **Donor** '' @ long_dash @ '' thanks for supporting!'' @ lf else []) @ profileCompactRich p @ usageBoxRich date t,
         gear @ '' Your rip profile'' @ lf @ unset_line @
         (if donor then lf @ star @ '' Donor '' @ long_dash @ '' thanks for supporting!'' @ lf else []) @ profileCompactPlain p @ usageBoxPlain date t))"

subsection \<open>Quota lines and other users\<close>

record quota_use =
  quTasks :: int
  quMaxTasks :: int
  quArtist :: int
  quArtistMax :: int
  quPlaylist :: int
  quPlaylistMax :: int

definition userQuota :: "unix_sec \<Rightarrow> users \<Rightarrow> sched \<Rightarrow> user_id \<Rightarrow> string \<Rightarrow> quota_use" where
  "userQuota now us s u name =
     (let donor = isUserDonor us u name
      in \<lparr>quTasks = cget (qTasks s) u, quMaxTasks = (if donor then 5 else 3),
          quArtist = quotaUsageFor now u ''artist'' (qLedger s), quArtistMax = ripLimit us ''artist'' donor,
          quPlaylist = quotaUsageFor now u ''playlist'' (qLedger s), quPlaylistMax = ripLimit us ''playlist'' donor\<rparr>)"

definition quota_counts :: "quota_use \<Rightarrow> string" where
  "quota_counts q = '': tasks '' @ itoa (quTasks q) @ ''/'' @ itoa (quMaxTasks q) @ '' in flight'' @ middle_dot @ ''today: artist '' @ itoa (quArtist q) @ ''/'' @
     limitLabel (quArtistMax q) @ middle_dot @ ''huge-playlist '' @ itoa (quPlaylist q) @ ''/'' @ limitLabel (quPlaylistMax q) @ '' (resets 1 PM Dhaka)'' @ lf"

definition quotaLineRich :: "quota_use \<Rightarrow> string" where
  "quotaLineRich q = lf @ bytes [0xF0, 0x9F, 0x93, 0x8A] @ '' **Quota**'' @ quota_counts q"

definition quotaLinePlain :: "quota_use \<Rightarrow> string" where
  "quotaLinePlain q = lf @ bytes [0xF0, 0x9F, 0x93, 0x8A] @ '' Quota'' @ quota_counts q"

text \<open>\<open>ids\<close>: the users with counters, in the order Go ranges over them.\<close>

definition userIDByUsername :: "user_id list \<Rightarrow> users \<Rightarrow> string \<Rightarrow> user_id" where
  "userIDByUsername ids us uname0 =
     (let uname = trim_prefix (to_lower (trim_space uname0)) ''@'';
          same = (\<lambda>i. case uStats us i of Some t \<Rightarrow> to_lower (trim_prefix (tUsername t) ''@'') = uname | None \<Rightarrow> False)
      in if uname = [] then 0 else (case filter same ids of i # _ \<Rightarrow> i | [] \<Rightarrow> 0))"

definition handleAdminProfileView :: "(int \<Rightarrow> string) \<Rightarrow> unix_sec \<Rightarrow> user_id list \<Rightarrow> users \<Rightarrow> sched \<Rightarrow> string \<Rightarrow> (string \<times> string) option" where
  "handleAdminProfileView date now ids us s ref =
     (case parseUserRef ref of (i0, uname) \<Rightarrow>
        let i = (if i0 = 0 \<and> uname \<noteq> [] then userIDByUsername ids us uname else i0)
        in if i = 0 then None
           else let who = formatUserRef i uname; p = getPrefs us i; t = getStats us i; donor = isUserDonor us i uname; q = userQuota now us s i uname;
                    head = bytes [0xF0, 0x9F, 0x91, 0xA4] @ '' Profile '' @ long_dash @ '' ''
                in Some (''# '' @ head @ escapeRichMD who @ lf @ (if donor then star @ '' **Donor**'' @ lf else []) @
                           (if tFirstSeenUnix t = 0 then ''_No recorded activity yet '' @ long_dash @ '' showing defaults._'' @ lf else []) @
                           profileCompactRich p @ usageBoxRich date t @ quotaLineRich q,
                         head @ who @ lf @ (if donor then star @ '' Donor'' @ lf else []) @
                           (if tFirstSeenUnix t = 0 then ''No recorded activity yet '' @ long_dash @ '' showing defaults.'' @ lf else []) @
                           profileCompactPlain p @ usageBoxPlain date t @ quotaLinePlain q))"

subsection \<open>The panel's messages\<close>

record panels =
  pnUsers :: users
  pnOwners :: "string \<rightharpoonup> user_id"

record card =
  cdTexts :: "string \<times> string"
  cdRows :: "button list list"

definition profile_card :: "(int \<Rightarrow> string) \<Rightarrow> string \<Rightarrow> users \<Rightarrow> user_id \<Rightarrow> card" where
  "profile_card date panel us u =
     \<lparr>cdTexts = renderProfile date panel (getPrefs us u) (getStats us u) (isUserDonor us u []), cdRows = profileMarkup panel (getPrefs us u)\<rparr>"

text \<open>\<open>sent\<close>: the id of the card's message, \<open>None\<close> when it cannot be sent.\<close>

definition handleProfileCommand ::
  "(int \<Rightarrow> string) \<Rightarrow> unix_sec \<Rightarrow> sched \<Rightarrow> msg_id option \<Rightarrow> chat_id \<Rightarrow> user_id \<Rightarrow> panels \<Rightarrow> card \<times> panels" where
  "handleProfileCommand date now s sent chat u st =
     (let c = profile_card date ''root'' (pnUsers st) u; q = userQuota now (pnUsers st) s u [];
          c1 = c\<lparr>cdTexts := (fst (cdTexts c) @ quotaLineRich q, snd (cdTexts c) @ quotaLinePlain q)\<rparr>
      in (c1, case sent of
                None \<Rightarrow> st
              | Some m \<Rightarrow> if m = 0 then st else st\<lparr>pnOwners := (pnOwners st)(profileKey chat m \<mapsto> u)\<rparr>))"

text \<open>\<^verbatim>\<open>strings.SplitN(s, ":", 3)\<close>\<close>

definition split3 :: "string \<Rightarrow> string list" where
  "split3 s =
     (case cut_byte (CHR '':'') s of
        (a, _, False) \<Rightarrow> [a]
      | (a, r, True) \<Rightarrow> (case cut_byte (CHR '':'') r of (b, _, False) \<Rightarrow> [a, b] | (b, c, True) \<Rightarrow> [a, b, c]))"

text \<open>The toast, the card the message is edited to, and the new state.\<close>

definition handleProfileCallback ::
  "(int \<Rightarrow> string) \<Rightarrow> unix_sec \<Rightarrow> chat_id \<Rightarrow> msg_id \<Rightarrow> string \<Rightarrow> user_id \<Rightarrow> panels \<Rightarrow> string \<times> card option \<times> panels" where
  "handleProfileCallback date now chat m data u st =
     (let owner = pnOwners st (profileKey chat m); parts = split3 (trim_prefix data ''pf:''); action = hd parts;
          us = pnUsers st;
          show = (\<lambda>panel us'. ('''', Some (profile_card date panel us' u), st\<lparr>pnUsers := us'\<rparr>))
      in if owner \<noteq> None \<and> owner \<noteq> Some 0 \<and> owner \<noteq> Some u then (''This isn't your profile panel.'', None, st)
         else if action = ''nop'' then ('''', None, st)
         else if action = ''nav'' then show (if 2 \<le> length parts then parts ! 1 else ''root'') us
         else if action = ''set'' then
           show (panelForField parts) (if 3 \<le> length parts then setPrefs now u (applyProfileSet (parts ! 1) (parts ! 2)) us else us)
         else if action = ''toggle'' then
           (if 2 \<le> length parts then show (panelForToggle (parts ! 1)) (setPrefs now u (applyProfileToggle (parts ! 1)) us) else show ''root'' us)
         else if action = ''reset'' then show ''root'' (resetPrefs u us)
         else if action = ''done'' then
           ('''', Some ((profile_card date ''done'' us u)\<lparr>cdRows := []\<rparr>), st\<lparr>pnOwners := (pnOwners st)(profileKey chat m := None)\<rparr>)
         else show ''root'' us)"

subsection \<open>What a tap does\<close>

lemma split3_set: "CHR '':'' \<notin> set f \<Longrightarrow> split3 (''set:'' @ f @ '':'' @ v) = [''set'', f, v]"
  using cut_byte_found [of "CHR '':''" "''set''" "f @ CHR '':'' # v"] cut_byte_found [of "CHR '':''" f v] by (simp add: split3_def)

definition may_tap :: "panels \<Rightarrow> chat_id \<Rightarrow> msg_id \<Rightarrow> user_id \<Rightarrow> bool" where
  "may_tap st chat m u = (pnOwners st (profileKey chat m) \<in> {None, Some 0, Some u})"

lemma tap_set:
  assumes "may_tap st chat m u" "CHR '':'' \<notin> set f"
  shows "handleProfileCallback date now chat m (''pf:set:'' @ f @ '':'' @ v) u st =
    (let us' = setPrefs now u (applyProfileSet f v) (pnUsers st)
     in ('''', Some (profile_card date (panelForField [''set'', f, v]) us' u), st\<lparr>pnUsers := us'\<rparr>))"
proof -
  have "trim_prefix (''pf:set:'' @ f @ '':'' @ v) ''pf:'' = ''set:'' @ f @ '':'' @ v" by (simp add: trim_prefix_def)
  then show ?thesis
    using assms split3_set [OF assms(2), of v] by (auto simp: handleProfileCallback_def may_tap_def Let_def)
qed

text \<open>The panel and the choices of each field, and how its value is read.\<close>

definition profile_fields :: "(string \<times> string \<times> choice list \<times> (user_prefs \<Rightarrow> string)) list" where
  "profile_fields =
     [(''audio'', ''codec'', pfCodecChoices, pCodec), (''audio'', ''quality'', pfQualityChoices, pQuality), (''audio'', ''aac_type'', pfAacChoices, pAacType),
      (''lyrics'', ''lyric_mode'', pfLyricChoices, pLyricMode), (''artwork'', ''cover_delivery'', pfCoverDelivChoices, pCoverDelivery),
      (''delivery'', ''delivery_target'', pfTargetChoices, pDeliveryTarget), (''delivery'', ''language'', pfLanguageChoices, pLanguage),
      (''delivery'', ''mv_max'', pfMVChoices, \<lambda>p. itoa (pMVMax p)), (''delivery'', ''artist_zip'', pfArtistZipChoices, pArtistZip)]"

definition field_set :: "string \<Rightarrow> choice list \<Rightarrow> (user_prefs \<Rightarrow> string) \<Rightarrow> bool" where
  "field_set field choices get = (\<forall>p v. v \<in> fst ` set choices \<longrightarrow> get p \<in> fst ` set choices \<longrightarrow>
     get (applyProfileSet field v p) = (if get p = v then fst (hd choices) else v))"

lemma mv_values: "v \<in> fst ` set pfMVChoices \<Longrightarrow> \<exists>n \<in> {0, 360, 480, 720, 1080, 2160}. v = itoa n \<and> parse_int64 v = (n, None)"
proof -
  have "itoa 0 = ''0''" "itoa 360 = ''360''" "itoa 480 = ''480''" "itoa 720 = ''720''" "itoa 1080 = ''1080''" "itoa 2160 = ''2160''"
    "parse_int64 ''0'' = (0, None)" "parse_int64 ''360'' = (360, None)" "parse_int64 ''480'' = (480, None)" "parse_int64 ''720'' = (720, None)"
    "parse_int64 ''1080'' = (1080, None)" "parse_int64 ''2160'' = (2160, None)" by code_simp+
  then show "v \<in> fst ` set pfMVChoices \<Longrightarrow> ?thesis" by (auto simp: pfMVChoices_def)
qed

lemma itoa_injective:
  assumes "itoa n = itoa k"
  shows "n = k"
proof -
  have d: "nat_digits a = nat_digits b \<Longrightarrow> a = b" for a b by (metis digits_val_nat_digits)
  have s: "nat_digits a \<noteq> CHR ''-'' # xs" for a xs using digit_not_sign [OF hd_nat_digits [of a]] by (cases "nat_digits a") auto
  show ?thesis
    using assms s s [symmetric] by (auto simp: itoa_def split: if_splits dest!: d)
qed

lemma itoa_zero: "''0'' = itoa 0"
  by code_simp

lemma fields_set: "list_all (\<lambda>(pn, f, cs, get). field_set f cs get) profile_fields"
proof -
  have mv: "field_set ''mv_max'' pfMVChoices (\<lambda>p. itoa (pMVMax p))"
    unfolding field_set_def
  proof (intro allI impI)
    fix p :: user_prefs and v assume v: "v \<in> fst ` set pfMVChoices" and g: "itoa (pMVMax p) \<in> fst ` set pfMVChoices"
    obtain n where n: "v = itoa n" "parse_int64 v = (n, None)" using mv_values [OF v] by blast
    have "itoa (pMVMax p) = itoa n \<longleftrightarrow> pMVMax p = n" using itoa_injective by blast
    moreover have "fst (hd pfMVChoices) = itoa 0" by (simp add: pfMVChoices_def itoa_zero)
    ultimately show "itoa (pMVMax (applyProfileSet ''mv_max'' v p)) = (if itoa (pMVMax p) = v then fst (hd pfMVChoices) else v)"
      using n by (simp add: applyProfileSet_def Let_def)
  qed
  show ?thesis
    unfolding profile_fields_def list.pred_inject prod.case
    by (intro conjI mv) (auto simp: field_set_def applyProfileSet_def toggleSame_def pfCodecChoices_def pfQualityChoices_def pfAacChoices_def
      pfLyricChoices_def pfCoverDelivChoices_def pfTargetChoices_def pfLanguageChoices_def pfArtistZipChoices_def)
qed

lemma other_fields_kept:
  "list_all (\<lambda>(pn, f, cs, get). list_all (\<lambda>(pn2, f2, cs2, get2). f2 = f \<or> (\<forall>v p. get2 (applyProfileSet f v p) = get2 p)) profile_fields) profile_fields"
  by (simp add: profile_fields_def applyProfileSet_def Let_def)

lemma field_panels: "list_all (\<lambda>(pn, f, cs, get). CHR '':'' \<notin> set f \<and> (\<forall>v. panelForField [''set'', f, v] = pn)) profile_fields"
  by (simp add: profile_fields_def panelForField_def)

lemma stamp_unseen: "list_all (\<lambda>(pn, f, cs, get). \<forall>p t. get (p\<lparr>pUpdatedAtUnix := t\<rparr>) = get p) profile_fields"
  by (simp add: profile_fields_def)


definition a_panel :: panels where
  "a_panel = \<lparr>pnUsers = no_users, pnOwners = [profileKey 7 40 \<mapsto> 2]\<rparr>"


text \<open>The buttons the panel shows are those.\<close>

lemma concat_rows_of_three: "concat (rows_of_three xs) = xs"
  by (induction xs rule: rows_of_three.induct) auto

lemma shown_choices:
  "list_all (\<lambda>(pn, f, cs, get). set (map (choice_button f (get p)) cs) \<subseteq> set (concat (profileMarkup pn p))) profile_fields"
  by (simp only: profile_fields_def list.pred_inject prod.case)
     (simp add: profileMarkup_def choiceRows_def concat_rows_of_three del: set_concat, intro conjI, blast+)

text \<open>
  A tap changes at most the preferences of the user who taps, and on a panel known to belong to somebody else it
  changes and shows nothing.
\<close>

theorem tap_changes_own_profile_only:
  assumes "handleProfileCallback date now chat m data u st = (alert, shown, st')"
  shows "(\<exists>prefs. pnUsers st' = (pnUsers st)\<lparr>uPrefs := prefs\<rparr> \<and> (\<forall>v. v = u \<or> prefs v = uPrefs (pnUsers st) v)) \<and>
    (may_tap st chat m u \<or> st' = st \<and> shown = None)"
proof -
  have s: "\<exists>prefs. setPrefs now u g us = us\<lparr>uPrefs := prefs\<rparr> \<and> (\<forall>v. v = u \<or> prefs v = uPrefs us v)" for g us
    unfolding setPrefs_def by (intro exI conjI, rule refl) simp
  have r: "\<exists>prefs. resetPrefs u us = us\<lparr>uPrefs := prefs\<rparr> \<and> (\<forall>v. v = u \<or> prefs v = uPrefs us v)" for us
    by (rule exI [of _ "uPrefs (resetPrefs u us)"]) (simp add: resetPrefs_def)
  have i: "\<exists>prefs. us = us\<lparr>uPrefs := prefs\<rparr> \<and> (\<forall>v. v = u \<or> prefs v = uPrefs us v)" for us :: users
    by (rule exI [of _ "uPrefs us"]) simp
  show ?thesis
    using assms s r i by (auto simp: handleProfileCallback_def may_tap_def Let_def split: if_splits)
qed

text \<open>
  The keyboards keep within Telegram's limits: at most three buttons in a row, a few rows, and at most 64 bytes of data under a button.
\<close>

theorem keyboard_within_caps:
  "length (profileMarkup panel p) \<le> 16 \<and>
   list_all (\<lambda>row. 1 \<le> length row \<and> length row \<le> 3 \<and> list_all (\<lambda>b. length (btData b) \<le> 64) row) (profileMarkup panel p)"
  unfolding profileMarkup_def
  by (simp add: choiceRows_def choice_button_def labelRow_def toggleRow_def backRow_def root_rows_def Let_def pfCodecChoices_def pfQualityChoices_def
    pfAacChoices_def pfLyricChoices_def pfCoverDelivChoices_def pfTargetChoices_def pfLanguageChoices_def pfMVChoices_def pfArtistZipChoices_def)

theorem tap_changes_own_profile_only_witness:
  "snd (handleProfileCallback itoa 5 7 40 ''pf:reset'' 3 a_panel) = (None, a_panel)"
proof -
  obtain alert shown st' where r: "handleProfileCallback itoa 5 7 40 ''pf:reset'' 3 a_panel = (alert, shown, st')" by (metis prod_cases3)
  have "\<not> may_tap a_panel 7 40 3" by (simp add: may_tap_def a_panel_def)
  then show ?thesis using tap_changes_own_profile_only [OF r] r by simp
qed

subsection \<open>Where the panel goes wrong\<close>

text \<open>
  The owners of the panels are kept in memory only: after a restart, or once its owner has pressed Done, a panel is open to everybody, and a tap of
  any user shows that user's profile in it.
\<close>

theorem restarted_panel_is_open:
  "snd (handleProfileCallback date now chat m ''pf:nav:root'' u \<lparr>pnUsers = us, pnOwners = Map.empty\<rparr>) =
   (Some (profile_card date ''root'' us u), \<lparr>pnUsers = us, pnOwners = Map.empty\<rparr>)"
proof -
  have "split3 (trim_prefix ''pf:nav:root'' ''pf:'') = [''nav'', ''root'']" by code_simp
  then show ?thesis by (simp add: handleProfileCallback_def Let_def)
qed

end
