(* ===== verification/Spec2Isabelle.thy ===== *)
theory Spec2Isabelle
  imports Sleep_Jobs Decrypt Rip_Release Catalog_Crawl Quota_Mirror Rip_Flush Collection_Delivery Upload_Pool Dedup Submission Stopping Go_Float Disk_Space Media_Cache Delivery_Answers Mtproto Status_Board Chat_Boards Catalog_Tier Bandwidth Quality Desk_Safety Profile_Panel
begin

text \<open>
  Karen, the Telegram music bot of this repository: a verification development.

  \<^bold>\<open>The program.\<close>  A user sends the bot a link or a command.  A handler of \<^verbatim>\<open>bot/telegram_bot.go\<close> charges a
  slot of the daily quota (\<^verbatim>\<open>bot/quota.go\<close>), asks whether a link to the same content is still live
  (\<^verbatim>\<open>bot/dedup.go\<close>), serves what the catalog of dump channels already has (\<^verbatim>\<open>bot/catalog\<close>), and puts the
  rest into a bounded queue.  One worker takes requests from the queue; with task concurrency it lends a second
  download slot to a Telegram rip.  A rip (\<^verbatim>\<open>bot/main.go\<close>) downloads and decrypts every track of a
  release (\<^verbatim>\<open>bot/utils/wmclient\<close>), converts and tags it, and registers the file with the rip's state
  (\<^verbatim>\<open>bot/ripstate.go\<close>), which shares an in-use registry with all other rips and delivers large rips in
  parts.  The delivery sends the files by the Bot API, by MTProto (\<^verbatim>\<open>bot/mtproto.go\<close>, \<^verbatim>\<open>bot/pool.go\<close>) or as
  Gofile links, and stages catalogued tracks in a dump channel.  \<^verbatim>\<open>bot/admin_tasks.go\<close> keeps the state of the
  users and defers heavy rips to the night.  A status message per chat shows the progress.

  \<^bold>\<open>Theories.\<close>  An operation of the code is one definition under the name it has there; a part of a long function
  has a name of its own.  Mutable state is a record returned updated; a mutex makes a critical section, which is
  one function, and goroutines are the interleavings of such functions.

  \<^item> \<open>Prelude\<close>, \<open>Go_Strings\<close>, \<open>Go_Path\<close>, \<open>Go_Float\<close>: Go's integers, byte strings and \<^verbatim>\<open>strings\<close>/\<^verbatim>\<open>strconv\<close>, \<^verbatim>\<open>path/filepath\<close> with
    the file-name rules of \<^verbatim>\<open>main.go\<close>, and \<^verbatim>\<open>float64\<close> division and printing as exact fractions; shared lemmas.
  \<^item> \<open>Catalog_Meta\<close> (\<^verbatim>\<open>catalog/meta.go\<close>, \<^verbatim>\<open>caption.go\<close>): the track record \<open>track_meta\<close> and the caption that carries it through Telegram
    and parses back.  \<open>Catalog_Tier\<close> (\<^verbatim>\<open>bot/caption.go\<close>): the record of a ripped file and the tier it is filed under.
  \<^item> \<open>Catalog_Db\<close> (\<^verbatim>\<open>catalog/db.go\<close>), \<open>Catalog_Ledger\<close> (\<^verbatim>\<open>catalog/gofiledelivery.go\<close>, \<^verbatim>\<open>catalog/quota.go\<close>): the tables as lists of rows, a
    statement as the list operation it denotes, whether the database answers as an argument.  A lookup never
    crosses tiers; an upserted record is found.
  \<^item> \<open>Catalog_Crawl\<close> (\<^verbatim>\<open>catalog/indexer.go\<close>, \<^verbatim>\<open>bot/dump_index.go\<close>): the page loop over a channel's history, which ends and indexes everything.
    The loop knows its fetcher by the locale \<open>message_fetcher\<close>, interpreted on \<^verbatim>\<open>FetchOlder\<close> over a channel.
  \<^item> \<open>User_State\<close> (\<^verbatim>\<open>bot/admin_tasks.go\<close>): bans, donors, preferences, counters, the admin lock and the two JSON files; what a restart restores.
  \<^item> \<open>Quota\<close>, \<open>Quota_Mirror\<close> (\<^verbatim>\<open>bot/quota.go\<close>, \<^verbatim>\<open>bot/restriction.go\<close>): charges, settlement, the day's reset, boot restore.  A tally is the number of
    charges not refunded; a restart keeps at least the usage enforced.  The locale \<open>slot_ledger\<close> (returning slots one by one)
    is interpreted on the refunds.
  \<^item> \<open>Dedup\<close> (\<^verbatim>\<open>bot/dedup.go\<close>): content keys, the admission check, report tokens, pending reports.
  \<^item> \<open>Scheduler\<close>, \<open>Scheduler_Safety\<close>, \<open>Scheduler_Slots\<close>, \<open>Stopping\<close> (\<^verbatim>\<open>telegram_bot.go\<close>: \<^verbatim>\<open>enqueueDownloadWithAfter\<close>, \<^verbatim>\<open>startDownloadWorker\<close>,
    \<^verbatim>\<open>scheduleDownloads\<close>, \<^verbatim>\<open>startTask\<close>, \<^verbatim>\<open>tryLendToBorrower\<close>, \<^verbatim>\<open>cancelTask\<close>, \<^verbatim>\<open>cancelAllTasksLocked\<close>): the record \<open>sched\<close>, its
    critical sections, the step relation \<open>sched_step\<close> over all interleavings and its invariants: the display list mirrors
    the channel, counts are exact, at most two tasks download, no charge is left without an owner, a started
    task is found by a stop.
  \<^item> \<open>Link_Patterns\<close> (\<^verbatim>\<open>main.go\<close>: \<^verbatim>\<open>checkUrl\<close> and its siblings): the link patterns, run as Go runs them; a link has one kind, a shared link is
    read back.  \<open>Commands\<close>, \<open>Desk_Safety\<close> (\<^verbatim>\<open>telegram_bot.go\<close>: \<^verbatim>\<open>handleMessage\<close>, \<^verbatim>\<open>handleCallback\<close>, \<^verbatim>\<open>handleCommand\<close>, \<^verbatim>\<open>handleBulkDl\<close>,
    \<^verbatim>\<open>handleTransferMode\<close>, \<^verbatim>\<open>handleArtistScope\<close>): every message and button as a function from the desk to the calls it makes;
    access rules, the task limit, prompts.
  \<^item> \<open>Submission\<close> (\<^verbatim>\<open>enqueueAlbumDownload\<close>, \<^verbatim>\<open>enqueuePlaylistDownload\<close>, \<^verbatim>\<open>catalogServeCollection\<close>, \<^verbatim>\<open>ripCollectionWithCatalog\<close>): the handlers as compositions of quota, dedup, catalog and
    queue; each is a sequence of scheduler steps.
  \<^item> \<open>Sleep_Jobs\<close> (\<^verbatim>\<open>admin_tasks.go\<close>): the night window, deferred jobs, the artist fan-out; refines the queue.
  \<^item> \<open>Rip_State\<close>, \<open>Rip_Flush\<close> (\<^verbatim>\<open>bot/ripstate.go\<close>): one rip, the registry and the disk (\<open>world\<close>), checkpoint and boundary flushes.
    Delivered parts and the remainder partition the registered files; a held file survives the other rips
    (locale \<open>use_registry\<close>, interpreted on runs of several rips).
  \<^item> \<open>Rip_Track\<close> (\<^verbatim>\<open>main.go\<close>: \<^verbatim>\<open>withWrapperRetry\<close>, \<^verbatim>\<open>ripTrack\<close>, \<^verbatim>\<open>mvDownloader\<close>; \<^verbatim>\<open>utils/convert.go\<close>): one attempt at a track.
    \<open>Rip_Release\<close> (\<^verbatim>\<open>ripAlbum\<close>, \<^verbatim>\<open>ripPlaylist\<close>, \<^verbatim>\<open>reconcileRelease\<close>): the concurrent pass as a step relation; counters are exact and it ends.
  \<^item> \<open>Decrypt\<close> (\<^verbatim>\<open>utils/wmclient/decrypt.go\<close>): playlist filtering, keys, the pipeline, equal to sequential decryption.
  \<^item> \<open>Collection_Delivery\<close> (\<^verbatim>\<open>bot/collection_delivery.go\<close>), \<open>Upload_Pool\<close> (\<^verbatim>\<open>bot/pool.go\<close>): ordered batches from the dump; helper choice.
  \<^item> \<open>Delivery\<close>, \<open>Delivery_Answers\<close> (\<^verbatim>\<open>telegram_bot.go\<close>: \<^verbatim>\<open>runDownload\<close> and the \<^verbatim>\<open>deliver\<close> functions): a delivery is a function on the log of its calls, the world
    answers from the log so far.  Every file is sent or its refusal is on the log; every route but one leaves an answer.
  \<^item> \<open>Mtproto\<close> (\<^verbatim>\<open>bot/mtproto.go\<close>): uploads, groups, dump uploads and copies with their retries across reconnects; the
    supervisor.  The locale \<open>retried\<close> (an attempt keeps an invariant or succeeds) is interpreted on groups,
    dump uploads and copies; a group is posted once.
  \<^item> \<open>Media_Cache\<close>, \<open>Disk_Space\<close> (\<^verbatim>\<open>telegram_bot.go\<close>): the JSON file cache; cleanup and purge of the download folders.
  \<^item> \<open>Status_Board\<close>, \<open>Chat_Boards\<close> (\<^verbatim>\<open>telegram_bot.go\<close>: \<^verbatim>\<open>DownloadStatus\<close>, \<^verbatim>\<open>attachBoard\<close>, \<^verbatim>\<open>retireBoard\<close>, \<^verbatim>\<open>relocate\<close>): what a board shows; the registry of boards under
    interleaved steps.
  \<^item> \<open>Bandwidth\<close> (\<^verbatim>\<open>bot/bandwidth.go\<close>): traffic totals on 64-bit words.  \<open>Quality\<close> (\<^verbatim>\<open>bot/quality.go\<close>): variant choice and the MP4 walk
    over the bytes of a segment.
  \<^item> \<open>Profile_Panel\<close> (\<^verbatim>\<open>bot/profile.go\<close>): the profile card, its buttons and texts; the choices of a field are radio buttons.

  \<^bold>\<open>Lemma groups.\<close>  Each theory has, after its operations, frame and invariant lemmas (collections \<open>frame_simps\<close> and \<open>step_inv\<close>), then
  the properties, each followed by a witness when it has hypotheses.  A lemma named after a defect (\<open>one_part_blocks_rerip\<close>,
  \<open>mv_count_overstates\<close>, \<open>unseen_restart_loses\<close>, ...) shows a run of the code as it is that does what it does not mean to.

  \<^bold>\<open>Bounds and termination.\<close>  All definitions are total and there is no fuel.  The loops with a bound in the code take it from there: five
  attempts of a wrapper call, three of an upload or a copy, ten of a group; boxes of at most the segment in the MP4
  walk.  The crawl recurses on the pages left, the pipeline on the segments left to arrive, the release pass and
  the ordered delivery on measures proved to decrease.  \<^verbatim>\<open>uint64\<close> counters and the bytes of a segment are words; other Go integers
  (ids, sizes, counts, seconds) are \<open>int\<close>, since the code adds a bounded number of values far below 2^63.

  \<^bold>\<open>Arguments of the models.\<close>  Telegram, Apple Music, Gofile, the wrapper, Temari, PostgreSQL, ffmpeg, the file system's listings, the clock
  and random ids.  Laws about them are premises: a message with a RandomID already used is not posted
  again, a history page lists messages downwards, a random id is new.

  \<^bold>\<open>Not modelled.\<close>  HTTP, JSON and XML decoding, the Apple Music clients (\<^verbatim>\<open>utils/ampapi\<close>), generated protobuf and Widevine code (\<^verbatim>\<open>utils/runv3\<close>), the
  command line of \<^verbatim>\<open>main.go\<close>, docker and \<^verbatim>\<open>/proc\<close> panels, Telegraph pages, ffmpeg arguments, cover art, rich message
  layouts, speeds (medians of floating-point quotients), and the polling loop of the bot: each is input and output around
  library code whose answer the models take as an argument.  The shell scripts, the Python token server and
  the C wrapper beside \<^verbatim>\<open>bot\<close> are other programs.
\<close>

end
